(* ===== verification/Prelude.thy ===== *)
theory Prelude
  imports Main "HOL-Library.Word"
begin

text \<open>
  Shared types, the fault model and the bit-field automation of the development.

  A run of the program that stops abnormally is a value of \<open>fault\<close>: a failing
  \<open>dectnrp_assert\<close> (the build with \<open>ENABLE_ASSERT\<close> is modelled), the exception
  \<open>std::bad_optional_access\<close> of \<open>std::optional::value()\<close>,
  \<open>std::bad_variant_access\<close> of \<open>std::get\<close>, the exception
  \<open>std::out_of_range\<close> of \<open>std::array::at\<close>, a read or write outside the buffer that was
  handed over, or the use of a null pointer or of a pointer to an object that does not exist. Functions that can stop in this way return \<open>fault + 'a\<close>.
\<close>

unbundle bit_operations_syntax

declare push_bit_Suc [simp del] drop_bit_Suc [simp del]

type_synonym u8 = "8 word"
type_synonym u32 = "32 word"
type_synonym u64 = "64 word"
type_synonym bytes = "u8 list"

named_theorems enum_simps \<open>coding facts of the scoped enumerations\<close>
named_theorems codec_defs \<open>definitions of the packing operations\<close>
named_theorems field_simps_bits \<open>extraction of bit fields from packed bytes\<close>

datatype fault =
  Assertion_failed | Bad_optional_access | Bad_variant_access | Out_of_range | Out_of_bounds_read
| Out_of_bounds_write | Invalid_pointer

type_synonym 'a res = "fault + 'a"

fun bindE :: "'a res \<Rightarrow> ('a \<Rightarrow> 'b res) \<Rightarrow> 'b res" where
  "bindE (Inl e) f = Inl e"
| "bindE (Inr x) f = f x"

text \<open>\<open>dectnrp_assert(c, ...)\<close> followed by the rest of the function.\<close>

definition assertE :: "bool \<Rightarrow> 'a res \<Rightarrow> 'a res" where
  "assertE c r = (if c then r else Inl Assertion_failed)"

lemma assertE_True [simp]: "assertE True r = r"
  by (simp add: assertE_def)

lemma assertE_False [simp]: "assertE False r = Inl Assertion_failed"
  by (simp add: assertE_def)

lemma assertE_eq_Inr [simp]: "assertE c r = Inr x \<longleftrightarrow> c \<and> r = Inr x"
  by (simp add: assertE_def)

lemma bindE_eq_Inr: "bindE r f = Inr y \<longleftrightarrow> (\<exists>x. r = Inr x \<and> f x = Inr y)"
  by (cases r) auto

lemma bindE_assoc: "bindE (bindE r f) g = bindE r (\<lambda>x. bindE (f x) g)"
  by (cases r) auto

lemma bindE_cong [fundef_cong]:
  "r = r' \<Longrightarrow> (\<And>x. r' = Inr x \<Longrightarrow> f x = g x) \<Longrightarrow> bindE r f = bindE r' g"
  by (cases r') auto

text \<open>\<open>std::optional::value()\<close>.\<close>

fun valueE :: "'a option \<Rightarrow> 'a res" where
  "valueE None = Inl Bad_optional_access"
| "valueE (Some x) = Inr x"

text \<open>\<open>std::array::at\<close> and \<open>std::lower_bound\<close> on a sorted array.\<close>

definition array_at :: "'a list \<Rightarrow> nat \<Rightarrow> 'a res" where
  "array_at xs i = (if i < length xs then Inr (xs ! i) else Inl Out_of_range)"

definition lower_bound :: "int list \<Rightarrow> int \<Rightarrow> nat" where
  "lower_bound xs x = length (takeWhile (\<lambda>y. y < x) xs)"

text \<open>Bytes are read with the usual integral promotion, here to 32 bits.\<close>

definition rd :: "bytes \<Rightarrow> nat \<Rightarrow> u32 res" where
  "rd a i = (if i < length a then Inr (ucast (a ! i)) else Inl Out_of_bounds_read)"

lemma rd_0 [simp]: "rd (b # bs) 0 = Inr (ucast b)"
  by (simp add: rd_def)

lemma rd_Suc [simp]: "rd (b # bs) (Suc i) = rd bs i"
  by (simp add: rd_def)

lemma rd_numeral [simp]: "rd (b # bs) (numeral k) = rd bs (pred_numeral k)"
  by (simp add: rd_def numeral_eq_Suc)

lemma rd_append_length [simp]: "rd (xs @ ys) (length xs + i) = rd ys i"
  by (simp add: rd_def)

lemma rd_append_left [simp]: "i < length xs \<Longrightarrow> rd (xs @ ys) i = rd xs i"
  by (simp add: rd_def nth_append)

lemma rd_ok: "Suc i \<le> length a \<Longrightarrow> rd a i = Inr (ucast (a ! i))"
  by (simp add: rd_def)

lemma word_eqI_upt:
  "list_all (\<lambda>n. bit x n = bit y n) [0..<LENGTH('a)] \<Longrightarrow> x = y" for x y :: "'a::len word"
  by (rule bit_word_eqI) (simp add: list_all_iff)

lemma upt_width:
  "[0..<8] = [0, 1, 2, 3, 4, 5, 6, 7]"
  "[0..<32] = [0, 1, 2, 3, 4, 5, 6, 7, 8, 9, 10, 11, 12, 13, 14, 15, 16, 17, 18, 19, 20, 21, 22, 23, 24, 25, 26, 27, 28, 29, 30, 31]"
  "[0..<64] = [0, 1, 2, 3, 4, 5, 6, 7, 8, 9, 10, 11, 12, 13, 14, 15, 16, 17, 18, 19, 20, 21, 22, 23, 24, 25, 26, 27, 28, 29, 30, 31, 32, 33, 34, 35, 36, 37, 38, 39, 40, 41, 42, 43, 44, 45, 46, 47, 48, 49, 50, 51, 52, 53, 54, 55, 56, 57, 58, 59, 60, 61, 62, 63]"
  by code_simp+

lemma rd_drop: "rd (drop k a) i = rd a (k + i)"
  by (cases "k + i < length a") (auto simp: rd_def)

lemma Ex_True [simp]: "\<exists>v. v"
  by (rule exI [of _ True]) simp

lemma Ex_Not [simp]: "Ex Not"
  by (rule exI [of _ False]) simp

lemma u32_less: "unat (x :: u32) < 2 ^ 32"
  using unsigned_less [of x] by simp

text \<open>A value of 32 bits stored into a byte loses its upper bits.\<close>

definition to_byte :: "u32 \<Rightarrow> u8" where
  "to_byte x = ucast x"

lemma bit_to_byte [simp]: "bit (to_byte x) n \<longleftrightarrow> n < 8 \<and> bit x n"
  by (auto simp: to_byte_def bit_simps dest: bit_imp_le_length)

lemma bit_ucast_u8 [simp]: "bit (ucast (b :: u8) :: u32) n \<longleftrightarrow> n < 8 \<and> bit b n"
  by (auto simp: bit_simps dest: bit_imp_le_length)

subsection \<open>Bit fields\<close>

text \<open>
  \<open>fld k s x\<close> is the field of \<open>k\<close> bits at position \<open>s\<close>, written
  \<open>(x >> s) & mask\<close> in the code.
\<close>

definition fld :: "nat \<Rightarrow> nat \<Rightarrow> u32 \<Rightarrow> u32" where
  "fld k s x = take_bit k (drop_bit s x)"

definition fits :: "nat \<Rightarrow> u32 \<Rightarrow> bool" where
  "fits k v \<longleftrightarrow> (\<forall>n\<ge>k. \<not> bit v n)"

lemma fits_bit: "fits k v \<Longrightarrow> k \<le> n \<Longrightarrow> \<not> bit v n"
  by (simp add: fits_def)

lemma fits_iff_take_bit: "fits k v \<longleftrightarrow> take_bit k v = v"
proof
  assume "fits k v"
  then show "take_bit k v = v"
    by (intro bit_word_eqI) (auto simp: fits_def bit_simps not_less [symmetric])
next
  assume "take_bit k v = v"
  then show "fits k v"
    unfolding fits_def by (metis bit_take_bit_iff not_less)
qed

lemma unat_mask32: "unat (mask k :: u32) = 2 ^ min k 32 - 1"
proof -
  have "unat (mask k :: u32) = unat (take_bit k (- 1) :: u32)"
    by (simp add: take_bit_minus_one_eq_mask)
  also have "\<dots> = take_bit k (unat (- 1 :: u32))"
    by (rule unsigned_take_bit_eq)
  also have "\<dots> = mask (min k 32)"
    by (simp add: unsigned_minus_1_eq_mask)
  finally show ?thesis by (simp add: mask_eq_exp_minus_1)
qed

lemma fits_iff_unat: "fits k v \<longleftrightarrow> unat v < 2 ^ k"
proof -
  have "take_bit k v = v \<longleftrightarrow> take_bit k (unat v) = unat v"
    by (metis unsigned_take_bit_eq word_unat_eq_iff)
  then show ?thesis by (simp add: fits_iff_take_bit take_bit_nat_eq_self_iff)
qed

lemma fits_iff_le_mask: "fits k v \<longleftrightarrow> v \<le> mask k"
proof -
  have "unat v < 2 ^ k \<longleftrightarrow> unat v \<le> 2 ^ min k 32 - 1"
  proof (cases "k \<le> 32")
    case True
    have "(0::nat) < 2 ^ k" by simp
    then have "unat v < 2 ^ k \<longleftrightarrow> unat v \<le> 2 ^ k - 1" by linarith
    with True show ?thesis by (simp only: min_absorb1)
  next
    case False
    then have "(2::nat) ^ 32 \<le> 2 ^ k" by (intro power_increasing) auto
    moreover have "unat v < 2 ^ 32" using unsigned_less [of v] by simp
    ultimately have "unat v < 2 ^ k" and "unat v \<le> 2 ^ 32 - 1" by linarith+
    moreover have "min k 32 = 32" using False by simp
    ultimately show ?thesis by metis
  qed
  then show ?thesis by (simp add: fits_iff_unat word_le_nat_alt unat_mask32)
qed

lemma fits_mono: "fits k v \<Longrightarrow> k \<le> l \<Longrightarrow> fits l v"
  by (auto simp: fits_def)

lemma fits_le_numeral [field_simps_bits]:
  "v \<le> 1 \<longleftrightarrow> fits (Suc 0) v" "v \<le> 3 \<longleftrightarrow> fits 2 v" "v \<le> 7 \<longleftrightarrow> fits 3 v"
  "v \<le> 15 \<longleftrightarrow> fits 4 v" "v \<le> 255 \<longleftrightarrow> fits 8 v" "v \<le> 65535 \<longleftrightarrow> fits 16 v"
  by (simp_all add: fits_iff_le_mask mask_eq_exp_minus_1)

lemma fits_0_iff [simp]: "fits 0 v \<longleftrightarrow> v = 0"
  by (auto simp: fits_iff_take_bit)

lemma fits_zero [simp]: "fits k 0"
  by (simp add: fits_def)

lemma fits_one [simp]: "1 \<le> k \<Longrightarrow> fits k 1"
  by (auto simp: fits_def bit_simps)

lemma fits_32 [simp]: "fits 32 v"
  by (auto simp: fits_def dest: bit_imp_le_length)

lemma fits_fld [simp]: "k \<le> l \<Longrightarrow> fits l (fld k s x)"
  by (auto simp: fits_def fld_def bit_simps)

lemma fits_ucast_u8: "8 \<le> k \<Longrightarrow> fits k (ucast (b :: u8) :: u32)"
  by (auto simp: fits_def)

lemma fld_or: "fld k s (ucast (x OR y :: u8)) = fld k s (ucast x) OR fld k s (ucast y)"
  by (simp add: fld_def unsigned_or_eq drop_bit_or take_bit_or)

lemma fld_or_u32: "fld k s (x OR y) = fld k s x OR fld k s y"
  by (simp add: fld_def drop_bit_or take_bit_or)

lemma fld_same:
  "s + k \<le> 8 \<Longrightarrow> fits k v \<Longrightarrow> fld k s (ucast (to_byte (push_bit s v))) = v"
proof (rule bit_word_eqI)
  fix n
  assume a: "s + k \<le> 8" "fits k v" "n < LENGTH(32)"
  show "bit (fld k s (ucast (to_byte (push_bit s v)))) n \<longleftrightarrow> bit v n"
  proof (cases "n < k")
    case True
    with a(1) have "s + n < 8" by simp
    with True show ?thesis by (simp add: fld_def bit_simps)
  next
    case False
    then have "\<not> bit v n" using a(2) by (simp add: fits_def)
    with False show ?thesis by (simp add: fld_def bit_simps)
  qed
qed

lemma fld_same0: "k \<le> 8 \<Longrightarrow> fits k v \<Longrightarrow> fld k 0 (ucast (to_byte v)) = v"
  using fld_same [of 0 k v] by simp

lemma fld_above: "s + k \<le> t \<Longrightarrow> fld k s (ucast (to_byte (push_bit t v))) = 0"
  by (rule bit_word_eqI) (auto simp: fld_def bit_simps)

lemma fld_below:
  "t \<le> s \<Longrightarrow> fits (s - t) v \<Longrightarrow> fld k s (ucast (to_byte (push_bit t v))) = 0"
  by (rule bit_word_eqI) (auto simp: fld_def fits_def bit_simps)

lemma fld_below0: "fits s v \<Longrightarrow> fld k s (ucast (to_byte v)) = 0"
  using fld_below [of 0 s v k] by simp

lemma fld_fits: "fits k v \<Longrightarrow> fld k 0 v = v"
  by (simp add: fld_def fits_iff_take_bit)

lemma fld_fits_0: "fits s v \<Longrightarrow> fld k s v = 0"
  by (rule bit_word_eqI) (auto simp: fld_def fits_def bit_simps)

lemma fld_fld: "fld k s (fld l t x) = fld (min k (l - s)) (s + t) x"
  by (rule bit_word_eqI) (auto simp: fld_def bit_simps ac_simps)

lemma to_byte_0 [simp]: "to_byte 0 = 0"
  by (simp add: to_byte_def)

lemma fld_zero [simp]: "fld k s 0 = 0"
  by (simp add: fld_def)

lemma ucast_to_byte_fits: "fits 8 v \<Longrightarrow> ucast (to_byte v) = v"
  by (rule bit_word_eqI) (auto simp: fits_def not_less [symmetric])

lemma fits_drop_bit: "fits (k + s) v \<Longrightarrow> fits k (drop_bit s v)"
  by (auto simp: fits_def bit_simps)

lemma fits_of_bool: "1 \<le> k \<Longrightarrow> fits k (of_bool b)"
  by (auto simp: fits_def bit_simps)

lemma unat_fld: "unat (fld k s x) = unat x div 2 ^ s mod 2 ^ k"
  by (simp only: fld_def unsigned_take_bit_eq unat_drop_bit_eq)
    (simp only: take_bit_eq_mod drop_bit_eq_div)

lemma unat_fld_less: "unat (fld k s x) < 2 ^ k"
  using fits_fld [of k k s x] by (simp add: fits_iff_unat)

lemma fld_1: "fld (Suc 0) s x = of_bool (bit x s)"
  by (rule bit_word_eqI) (auto simp: fld_def bit_simps bit_iff_odd_drop_bit [of x s])

lemma fld_1_eq_0 [simp]: "fld 1 s x = 0 \<longleftrightarrow> \<not> bit x s" "fld (Suc 0) s x = 0 \<longleftrightarrow> \<not> bit x s"
  by (simp_all add: fld_1)

lemmas fld_simps [field_simps_bits] =
  fld_or fld_or_u32 fld_same fld_same0 fld_above fld_below fld_below0 fits_of_bool
  fld_fits fld_fits_0 ucast_to_byte_fits fits_drop_bit fld_fld

lemma split_byte_add [field_simps_bits]:
  "push_bit 8 (drop_bit 8 v) + fld 8 0 v = v" for v :: u32
  by (simp add: fld_def bits_ident)

lemma split_byte_or [field_simps_bits]:
  "push_bit 8 (drop_bit 8 v) OR fld 8 0 v = v" "fld 8 0 v OR push_bit 8 (drop_bit 8 v) = v"
  for v :: u32
  by (rule word_eqI_upt, simp add: fld_def bit_simps upt_width)+

text \<open>The shapes in which the code reads a field from a promoted byte.\<close>

lemma and_mask_fld [field_simps_bits]:
  "drop_bit s x AND 1 = fld 1 s x" "x AND 1 = fld 1 0 x"
  "drop_bit s x AND 3 = fld 2 s x" "x AND 3 = fld 2 0 x"
  "drop_bit s x AND 7 = fld 3 s x" "x AND 7 = fld 3 0 x"
  "drop_bit s x AND 15 = fld 4 s x" "x AND 15 = fld 4 0 x"
  "drop_bit s x AND 31 = fld 5 s x" "x AND 31 = fld 5 0 x"
  "drop_bit s x AND 63 = fld 6 s x" "x AND 63 = fld 6 0 x"
  "drop_bit s x AND mask k = fld k s x" "x AND mask k = fld k 0 x"
  for x :: u32
  by (simp_all add: fld_def take_bit_eq_mask mask_eq_exp_minus_1)

lemma drop_bit_ucast_fld [field_simps_bits]:
  "drop_bit s (ucast (b :: u8)) = fld (8 - s) s (ucast b)"
  by (rule bit_word_eqI) (auto simp: fld_def bit_simps dest: bit_imp_le_length)

text \<open>Sequences of bytes in network byte order are read and written by \<open>bitbyte.hpp\<close>.\<close>

end
