(* ===== verification/Bitbyte.thy ===== *)
theory Bitbyte
  imports Prelude
begin

text \<open>
  \<open>common/adt/bitbyte.hpp\<close>: bit masks and the conversion between integers of the little
  endian host and byte sequences in network order. A destination pointer is modelled by
  the bytes that are written to it, a source pointer by the buffer and an offset.
\<close>

definition bitmask :: "nat \<Rightarrow> nat \<Rightarrow> 'a::len word" where
  "bitmask msb lsb = foldl (\<lambda>ret i. ret OR push_bit i 1) 0 [lsb..<msb]"

definition bitmask_lsb :: "nat \<Rightarrow> 'a::len word" where
  "bitmask_lsb n = bitmask n 0"

definition bitmask_msb :: "nat \<Rightarrow> 'a::len word" where
  "bitmask_msb n = bitmask LENGTH('a) (LENGTH('a) - n)"

text \<open>\<open>be_bytes\<close> is the byte-swapped value as it lies in memory, \<open>of_be\<close> the swap back.\<close>

definition be_bytes :: "'a::len word \<Rightarrow> bytes" where
  "be_bytes x = map (\<lambda>i. ucast (drop_bit (8 * i) x)) (rev [0..<LENGTH('a) div 8])"

definition of_be :: "bytes \<Rightarrow> 'a::len word" where
  "of_be bs = foldl (\<lambda>acc b. push_bit 8 acc OR ucast b) 0 bs"

definition l2b_lower :: "'a::len word \<Rightarrow> nat \<Rightarrow> bytes" where
  "l2b_lower src n_byte = drop (LENGTH('a) div 8 - n_byte) (be_bytes src)"

definition b2l_lower :: "bytes \<Rightarrow> nat \<Rightarrow> nat \<Rightarrow> 'a::len word res" where
  "b2l_lower a off n_byte =
     (if off + n_byte \<le> length a
      then Inr (of_be (replicate (LENGTH('a) div 8 - n_byte) 0 @ take n_byte (drop off a)))
      else Inl Out_of_bounds_read)"

definition l2b_upper :: "'a::len word \<Rightarrow> nat \<Rightarrow> bytes" where
  "l2b_upper src n_byte = take n_byte (be_bytes src)"

definition b2l_upper :: "bytes \<Rightarrow> nat \<Rightarrow> nat \<Rightarrow> 'a::len word res" where
  "b2l_upper a off n_byte =
     (if off + n_byte \<le> length a
      then Inr (of_be (take n_byte (drop off a) @ replicate (LENGTH('a) div 8 - n_byte) 0))
      else Inl Out_of_bounds_read)"

subsection \<open>Masks\<close>

lemma bit_foldl_or:
  "bit (foldl (\<lambda>ret i. ret OR push_bit i 1) r is) n \<longleftrightarrow>
     bit (r :: 'a::len word) n \<or> n < LENGTH('a) \<and> n \<in> set is"
  by (induction "is" arbitrary: r) (auto simp: bit_simps)

lemma bit_bitmask:
  "bit (bitmask msb lsb :: 'a::len word) n \<longleftrightarrow> n < LENGTH('a) \<and> lsb \<le> n \<and> n < msb"
  unfolding bitmask_def by (subst bit_foldl_or) auto

lemma bitmask_lsb_eq_mask [simp]: "bitmask_lsb n = mask n"
  by (rule bit_word_eqI) (auto simp: bitmask_lsb_def bit_bitmask bit_simps)

lemma bit_bitmask_msb:
  "bit (bitmask_msb n :: 'a::len word) i \<longleftrightarrow> i < LENGTH('a) \<and> LENGTH('a) - n \<le> i"
  by (auto simp: bitmask_msb_def bit_bitmask)

text \<open>The bound that a validity check states through a mask.\<close>

lemma not_mask_less_fits [field_simps_bits]: "mask k < v \<longleftrightarrow> \<not> fits k v" "v \<le> mask k \<longleftrightarrow> fits k v"
  by (simp_all add: fits_iff_le_mask not_le)

subsection \<open>Byte sequences\<close>

lemma be_bytes_u32:
  "be_bytes (x :: u32) =
     [ucast (drop_bit 24 x), ucast (drop_bit 16 x), ucast (drop_bit 8 x), ucast x]"
  by (simp add: be_bytes_def upt_rec)

lemma be_bytes_u64:
  "be_bytes (x :: u64) =
     [ucast (drop_bit 56 x), ucast (drop_bit 48 x), ucast (drop_bit 40 x), ucast (drop_bit 32 x),
      ucast (drop_bit 24 x), ucast (drop_bit 16 x), ucast (drop_bit 8 x), ucast x]"
  by (simp add: be_bytes_def upt_rec)

lemma length_be_bytes [simp]: "length (be_bytes (x :: 'a::len word)) = LENGTH('a) div 8"
  by (simp add: be_bytes_def)

lemma of_be_be_bytes_u32 [simp]: "of_be (be_bytes (x :: u32)) = x"
  by (rule word_eqI_upt) (simp add: be_bytes_u32 of_be_def bit_simps upt_width)

lemma of_be_be_bytes_u64 [simp]: "of_be (be_bytes (x :: u64)) = x"
  by (rule word_eqI_upt) (simp add: be_bytes_u64 of_be_def bit_simps upt_width)

lemma length_l2b_lower:
  "n \<le> LENGTH('a) div 8 \<Longrightarrow> length (l2b_lower (x :: 'a::len word) n) = n"
  by (simp add: l2b_lower_def)

lemma length_l2b_lower_u32 [simp]: "n \<le> 4 \<Longrightarrow> length (l2b_lower (x :: u32) n) = n"
  by (simp add: length_l2b_lower)

lemma length_l2b_lower_u64 [simp]: "n \<le> 8 \<Longrightarrow> length (l2b_lower (x :: u64) n) = n"
  by (simp add: length_l2b_lower)

lemma b2l_lower_Suc [simp]: "b2l_lower (b # bs) (Suc i) n = b2l_lower bs i n"
  by (simp add: b2l_lower_def)

lemma b2l_lower_numeral [simp]:
  "b2l_lower (b # bs) (numeral k) n = b2l_lower bs (pred_numeral k) n"
  by (simp only: numeral_eq_Suc [of k] b2l_lower_Suc)

lemma b2l_lower_append [simp]:
  "length xs \<le> i \<Longrightarrow> b2l_lower (xs @ ys) i n = b2l_lower ys (i - length xs) n"
  by (auto simp: b2l_lower_def)

lemma rd_append_right [simp]: "length xs \<le> i \<Longrightarrow> rd (xs @ ys) i = rd ys (i - length xs)"
  by (auto simp: rd_def nth_append)

text \<open>Bytes above the packed ones are zero exactly when the value fits into the packed ones.\<close>

lemma replicate_upto_4:
  "replicate 2 x = [x, x]" "replicate 3 x = [x, x, x]" "replicate 4 x = [x, x, x, x]"
  by (simp_all add: numeral_eq_Suc)

lemma be_bytes_split:
  assumes "fits (8 * n) (x :: u32)" and "n \<le> 4"
  shows "be_bytes x = replicate (4 - n) 0 @ l2b_lower x n"
proof -
  have z: "(ucast (drop_bit s x) :: u8) = 0" if "8 * n \<le> s" for s
    using assms(1) that by (intro bit_word_eqI) (auto simp: fits_def bit_simps)
  from assms(2) consider "n = 0" | "n = 1" | "n = 2" | "n = 3" | "n = 4" by linarith
  then show ?thesis
    using assms z [of 24] z [of 16] z [of 8] z [of 0]
    by cases (simp_all add: l2b_lower_def be_bytes_u32 replicate_upto_4)
qed

lemma b2l_lower_l2b_lower [simp]:
  assumes "fits (8 * n) x" and "n \<le> 4"
  shows "b2l_lower (l2b_lower x n @ r) 0 n = Inr (x :: u32)"
proof -
  have "replicate (4 - n) 0 @ take n (l2b_lower x n @ r) = be_bytes x"
    using be_bytes_split [OF assms] assms(2) by simp
  then show ?thesis
    using assms(2) by (simp add: b2l_lower_def)
qed

lemma b2l_lower_l2b_lower_u64 [simp]:
  "b2l_lower (l2b_lower x 8 @ r) 0 8 = Inr (x :: u64)"
  by (simp add: b2l_lower_def l2b_lower_def)

lemma fits_b2l_lower:
  assumes "b2l_lower a i n = Inr (v :: u32)" and "n \<le> 4"
  shows "fits (8 * n) v"
proof -
  have *: "bit (foldl (\<lambda>acc b. push_bit 8 acc OR ucast b) acc (bs :: bytes) :: u32) j \<Longrightarrow>
      (\<forall>j\<ge>8 * m. \<not> bit acc j) \<Longrightarrow> j < 8 * (m + length bs)" for acc m bs j
  proof (induction bs arbitrary: acc m)
    case Nil
    then show ?case by (auto simp: not_less [symmetric])
  next
    case (Cons b bs)
    have "\<forall>j\<ge>8 * Suc m. \<not> bit (push_bit 8 acc OR ucast b) j"
      using Cons.prems(2) by (auto simp: bit_simps)
    with Cons.IH [of "push_bit 8 acc OR ucast b" "Suc m"] Cons.prems(1) show ?case by simp
  qed
  have z: "foldl (\<lambda>acc b. push_bit 8 acc OR ucast b) 0 (replicate k (0 :: u8)) = (0 :: u32)" for k
    by (induction k) auto
  from assms(1) have "v = of_be (take n (drop i a))" and "i + n \<le> length a"
    by (auto simp: b2l_lower_def of_be_def z split: if_splits)
  then show ?thesis
    using * [of 0 "take n (drop i a)" _ 0] by (auto simp: of_be_def fits_def not_less [symmetric])
qed

end
