(* ===== verification/Enumeration.thy ===== *)
theory Enumeration
  imports Prelude
begin

text \<open>
  \<open>common/adt/enumeration.hpp\<close>: scoped enumerations with the enumerators \<open>not_defined\<close>
  (the largest 32-bit value), optionally \<open>lower\<close>, and \<open>upper\<close>. An enumeration is
  described by its enumerators after \<open>not_defined\<close> in the order of their declaration
  (\<open>upper\<close> is the last, \<open>lower\<close>, if there is one, the first) and by the value of the
  first; C++ numbers the others consecutively.
\<close>

definition UNDEFINED_NUMERIC_32 :: u32 where
  "UNDEFINED_NUMERIC_32 = 4294967295"

record 'e coded =
  base :: nat
  has_lower :: bool
  enumerators :: "'e list"
  not_defined :: 'e

fun index_of :: "'e list \<Rightarrow> 'e \<Rightarrow> nat option" where
  "index_of [] e = None"
| "index_of (x # xs) e = (if x = e then Some 0 else map_option Suc (index_of xs e))"

text \<open>\<open>std::to_underlying\<close>\<close>

definition to_underlying :: "'e coded \<Rightarrow> 'e \<Rightarrow> u32" where
  "to_underlying c e = (case index_of (enumerators c) e of
     Some i \<Rightarrow> of_nat (base c + i)
   | None \<Rightarrow> UNDEFINED_NUMERIC_32)"

definition upper_value :: "'e coded \<Rightarrow> nat" where
  "upper_value c = base c + (length (enumerators c) - 1)"

definition from_coded_value :: "'e coded \<Rightarrow> u32 \<Rightarrow> 'e" where
  "from_coded_value c v =
     (if (if has_lower c then base c < unat v \<and> unat v < upper_value c
          else unat v < upper_value c)
      then enumerators c ! (unat v - base c)
      else not_defined c)"

definition enum_valid :: "'e coded \<Rightarrow> 'e \<Rightarrow> bool" where
  "enum_valid c e =
     (if e = not_defined c then False
      else if has_lower c \<and> e = hd (enumerators c) then False
      else if e = last (enumerators c) then False
      else True)"

lemma index_of_nth: "distinct xs \<Longrightarrow> i < length xs \<Longrightarrow> index_of xs (xs ! i) = Some i"
proof (induction xs arbitrary: i)
  case (Cons x xs)
  then show ?case by (cases i) auto
qed simp

text \<open>
  What the coding relies on: the enumerators are different from each other, every value of
  the type is one of them or \<open>not_defined\<close>, and the numbering starts at 0 unless there is
  a \<open>lower\<close>.
\<close>

locale coded_enum =
  fixes c :: "'e coded"
  assumes dist: "distinct (not_defined c # enumerators c)"
    and exhaust: "e = not_defined c \<or> e \<in> set (enumerators c)"
    and nonempty: "2 \<le> length (enumerators c)"
    and small: "upper_value c < 256"
    and base_0: "has_lower c \<or> base c = 0"
begin

lemma valid_nth:
  assumes "enum_valid c e"
  obtains i where "i < length (enumerators c) - 1" "e = enumerators c ! i"
    "has_lower c \<longrightarrow> 0 < i"
proof -
  from assms exhaust [of e] obtain i where i: "i < length (enumerators c)" "e = enumerators c ! i"
    by (auto simp: enum_valid_def in_set_conv_nth split: if_splits)
  have ne: "enumerators c \<noteq> []" using nonempty by auto
  have "i \<noteq> length (enumerators c) - 1"
    using assms i ne by (auto simp: enum_valid_def last_conv_nth split: if_splits)
  moreover have "has_lower c \<longrightarrow> 0 < i"
    using assms i ne by (auto simp: enum_valid_def hd_conv_nth split: if_splits intro!: gr0I)
  ultimately show ?thesis using i by (intro that [of i]) auto
qed

lemma unat_to_underlying:
  assumes "i < length (enumerators c)"
  shows "unat (to_underlying c (enumerators c ! i)) = base c + i"
proof -
  have "index_of (enumerators c) (enumerators c ! i) = Some i"
    using dist assms by (simp add: index_of_nth)
  moreover have "base c + i < 2 ^ 32"
    using small assms by (simp add: upper_value_def)
  ultimately show ?thesis
    by (simp add: to_underlying_def unat_of_nat take_bit_nat_eq_self del: of_nat_add)
qed

lemma from_to [simp]:
  assumes "enum_valid c e"
  shows "from_coded_value c (to_underlying c e) = e"
  using valid_nth [OF assms]
proof cases
  case (1 i)
  then have "unat (to_underlying c e) = base c + i"
    by (simp add: unat_to_underlying)
  moreover have "base c + i < upper_value c"
    using 1 by (simp add: upper_value_def)
  ultimately show ?thesis using 1 by (simp add: from_coded_value_def)
qed

lemma to_less_upper:
  assumes "enum_valid c e"
  shows "unat (to_underlying c e) < upper_value c"
  using valid_nth [OF assms]
  by cases (simp add: unat_to_underlying upper_value_def)

lemma fits_to [simp]: "enum_valid c e \<Longrightarrow> upper_value c \<le> 2 ^ k \<Longrightarrow> fits k (to_underlying c e)"
  using to_less_upper [of e] by (simp add: fits_iff_unat)

lemma valid_from:
  "enum_valid c (from_coded_value c v) \<longleftrightarrow>
     (if has_lower c then base c < unat v else True) \<and> unat v < upper_value c"
proof -
  let ?es = "enumerators c" and ?i = "unat v - base c"
  have ne: "?es \<noteq> []" using nonempty by auto
  have nd: "\<not> enum_valid c (not_defined c)" by (simp add: enum_valid_def)
  show ?thesis
  proof (cases "(if has_lower c then base c < unat v else True) \<and> unat v < upper_value c")
    case True
    then have i: "?i < length ?es - 1" "has_lower c \<longrightarrow> 0 < ?i"
      using base_0 ne by (auto simp: upper_value_def split: if_splits)
    then have "?es ! ?i \<in> set ?es" by simp
    then have "?es ! ?i \<noteq> not_defined c"
      using dist by auto
    moreover have "?es ! ?i \<noteq> last ?es"
      using dist i ne by (simp add: last_conv_nth nth_eq_iff_index_eq)
    moreover have "has_lower c \<longrightarrow> ?es ! ?i \<noteq> hd ?es"
      using dist i ne by (auto simp: hd_conv_nth nth_eq_iff_index_eq)
    ultimately show ?thesis
      using True by (auto simp: enum_valid_def from_coded_value_def)
  next
    case False
    then show ?thesis using nd by (auto simp: from_coded_value_def)
  qed
qed

end

end
