(* ===== verification/Feedback_Info.thy ===== *)
theory Feedback_Info
  imports Bitbyte Enumeration
begin

text \<open>
  \<open>sections_part4/physical_header_field/feedback_info\<close>: the six feedback formats that share
  the last twelve bits of a PLCF of type 2, and the pool that selects one of them. The upper
  four bits of the first octet belong to the caller, so packing takes that octet and returns
  both octets.
\<close>

datatype transmission_feedback = TF_NACK | TF_ACK | TF_not_defined

datatype mimo_feedback =
  MIMO_single_layer | MIMO_dual_layer | MIMO_four_layer | MIMO_reserved | MIMO_not_defined

fun tf_code :: "transmission_feedback \<Rightarrow> u32" where
  "tf_code TF_NACK = 0"
| "tf_code TF_ACK = 1"
| "tf_code TF_not_defined = UNDEFINED_NUMERIC_32"

fun mimo_code :: "mimo_feedback \<Rightarrow> u32" where
  "mimo_code MIMO_single_layer = 0"
| "mimo_code MIMO_dual_layer = 1"
| "mimo_code MIMO_four_layer = 2"
| "mimo_code MIMO_reserved = 3"
| "mimo_code MIMO_not_defined = UNDEFINED_NUMERIC_32"

text \<open>\<open>static_cast\<close> of a value masked to one and to two bits.\<close>

definition tf_cast :: "u32 \<Rightarrow> transmission_feedback" where
  "tf_cast v = (if v = 0 then TF_NACK else if v = 1 then TF_ACK else TF_not_defined)"

definition mimo_cast :: "u32 \<Rightarrow> mimo_feedback" where
  "mimo_cast v = (if v = 0 then MIMO_single_layer else if v = 1 then MIMO_dual_layer
     else if v = 2 then MIMO_four_layer else if v = 3 then MIMO_reserved else MIMO_not_defined)"

definition MCS_out_of_range :: u32 where "MCS_out_of_range = UNDEFINED_NUMERIC_32"

definition mcs_2_cqi :: "int \<Rightarrow> u32 res" where
  "mcs_2_cqi mcs = assertE (0 \<le> mcs) (assertE (mcs \<le> 11) (Inr (of_int (mcs + 1))))"

definition cqi_2_mcs :: "u32 \<Rightarrow> u32" where
  "cqi_2_mcs cqi = (if cqi = 0 \<or> 12 < cqi then MCS_out_of_range else cqi - 1)"

definition buffer_size_2_buffer_status :: "u32 \<Rightarrow> u32" where
  "buffer_size_2_buffer_status s =
     (if s = 0 then 0
      else if 0 < s \<and> s \<le> 16 then 1
      else if 16 < s \<and> s \<le> 32 then 2
      else if 32 < s \<and> s \<le> 64 then 3
      else if 64 < s \<and> s \<le> 128 then 4
      else if 128 < s \<and> s \<le> 256 then 5
      else if 256 < s \<and> s \<le> 512 then 6
      else if 512 < s \<and> s \<le> 1024 then 7
      else if 1024 < s \<and> s \<le> 2048 then 8
      else if 2048 < s \<and> s \<le> 4096 then 9
      else if 4096 < s \<and> s \<le> 8192 then 10
      else if 8192 < s \<and> s \<le> 16384 then 11
      else if 16384 < s \<and> s \<le> 32768 then 12
      else if 32768 < s \<and> s \<le> 65536 then 13
      else if 65536 < s \<and> s \<le> 131072 then 14
      else 15)"

definition buffer_status_2_buffer_size_lower :: "u32 list" where
  "buffer_status_2_buffer_size_lower =
     [0, 0, 16, 32, 64, 128, 256, 512, 1024, 2048, 4096, 8192, 16384, 32768, 65536, 131072]"

definition buffer_status_2_buffer_size_upper :: "u32 list" where
  "buffer_status_2_buffer_size_upper =
     [0, 16, 32, 64, 128, 256, 512, 1024, 2048, 4096, 8192, 16384, 32768, 65536, 131072,
      4294967295]"

definition buffer_size_lower :: "u32 \<Rightarrow> u32" where
  "buffer_size_lower status = buffer_status_2_buffer_size_lower ! unat status"

text \<open>The shared second octet: buffer status or other bits above, CQI below.\<close>

definition keep_upper :: "u8 \<Rightarrow> u8" where
  "keep_upper b = b AND bitmask_msb 4"

subsection \<open>The formats\<close>

record feedback_f1 =
  f1_HARQ_Process_number :: u32
  f1_Transmission_feedback :: transmission_feedback
  f1_Buffer_Size :: u32
  f1_MCS :: u32

definition f1_valid :: "feedback_f1 \<Rightarrow> bool" where
  "f1_valid f =
     (if bitmask_lsb 3 < f1_HARQ_Process_number f then False
      else if f1_Transmission_feedback f = TF_not_defined then False
      else if bitmask_lsb 4 < buffer_size_2_buffer_status (f1_Buffer_Size f) then False
      else if 11 < f1_MCS f then False
      else True)"

definition f1_pack :: "feedback_f1 \<Rightarrow> u8 \<Rightarrow> (u8 \<times> u8) res" where
  "f1_pack f a0 = assertE (f1_valid f) (
     bindE (mcs_2_cqi (sint (f1_MCS f))) (\<lambda>cqi. Inr
     (keep_upper a0 OR to_byte (push_bit 1 (f1_HARQ_Process_number f))
        OR to_byte (tf_code (f1_Transmission_feedback f)),
      to_byte (push_bit 4 (buffer_size_2_buffer_status (f1_Buffer_Size f))) OR to_byte cqi)))"

definition f1_unpack :: "u32 \<Rightarrow> u32 \<Rightarrow> bool \<times> feedback_f1" where
  "f1_unpack a0 a1 =
     (let f = \<lparr>f1_HARQ_Process_number = drop_bit 1 a0 AND 7,
               f1_Transmission_feedback = tf_cast (a0 AND 1),
               f1_Buffer_Size = buffer_size_lower (drop_bit 4 a1 AND 15),
               f1_MCS = cqi_2_mcs (a1 AND 15)\<rparr>
      in (f1_valid f, f))"

record feedback_f2 =
  f2_Codebook_index :: u32
  f2_MIMO_feedback :: mimo_feedback
  f2_Buffer_Size :: u32
  f2_MCS :: u32

definition f2_valid :: "feedback_f2 \<Rightarrow> bool" where
  "f2_valid f =
     (if bitmask_lsb 3 < f2_Codebook_index f then False
      else if \<not> (f2_MIMO_feedback f = MIMO_single_layer \<or> f2_MIMO_feedback f = MIMO_dual_layer)
      then False
      else if bitmask_lsb 4 < buffer_size_2_buffer_status (f2_Buffer_Size f) then False
      else if 11 < f2_MCS f then False
      else True)"

definition f2_pack :: "feedback_f2 \<Rightarrow> u8 \<Rightarrow> (u8 \<times> u8) res" where
  "f2_pack f a0 = assertE (f2_valid f) (
     bindE (mcs_2_cqi (sint (f2_MCS f))) (\<lambda>cqi. Inr
     (keep_upper a0 OR to_byte (push_bit 1 (f2_Codebook_index f))
        OR to_byte (mimo_code (f2_MIMO_feedback f)),
      to_byte (push_bit 4 (buffer_size_2_buffer_status (f2_Buffer_Size f))) OR to_byte cqi)))"

definition f2_unpack :: "u32 \<Rightarrow> u32 \<Rightarrow> bool \<times> feedback_f2" where
  "f2_unpack a0 a1 =
     (let f = \<lparr>f2_Codebook_index = drop_bit 1 a0 AND 7,
               f2_MIMO_feedback = mimo_cast (a0 AND 1),
               f2_Buffer_Size = buffer_size_lower (drop_bit 4 a1 AND 15),
               f2_MCS = cqi_2_mcs (a1 AND 15)\<rparr>
      in (f2_valid f, f))"

record feedback_f3 =
  f3_HARQ_Process_number_0 :: u32
  f3_Transmission_feedback_0 :: transmission_feedback
  f3_HARQ_Process_number_1 :: u32
  f3_Transmission_feedback_1 :: transmission_feedback
  f3_MCS :: u32

definition f3_valid :: "feedback_f3 \<Rightarrow> bool" where
  "f3_valid f =
     (if bitmask_lsb 3 < f3_HARQ_Process_number_0 f then False
      else if f3_Transmission_feedback_0 f = TF_not_defined then False
      else if bitmask_lsb 3 < f3_HARQ_Process_number_1 f then False
      else if f3_Transmission_feedback_1 f = TF_not_defined then False
      else if 11 < f3_MCS f then False
      else True)"

definition f3_pack :: "feedback_f3 \<Rightarrow> u8 \<Rightarrow> (u8 \<times> u8) res" where
  "f3_pack f a0 = assertE (f3_valid f) (
     bindE (mcs_2_cqi (sint (f3_MCS f))) (\<lambda>cqi. Inr
     (keep_upper a0 OR to_byte (push_bit 1 (f3_HARQ_Process_number_0 f))
        OR to_byte (tf_code (f3_Transmission_feedback_0 f)),
      to_byte (push_bit 5 (f3_HARQ_Process_number_1 f))
        OR to_byte (push_bit 4 (tf_code (f3_Transmission_feedback_1 f))) OR to_byte cqi)))"

definition f3_unpack :: "u32 \<Rightarrow> u32 \<Rightarrow> bool \<times> feedback_f3" where
  "f3_unpack a0 a1 =
     (let f = \<lparr>f3_HARQ_Process_number_0 = drop_bit 1 a0 AND 7,
               f3_Transmission_feedback_0 = tf_cast (a0 AND 1),
               f3_HARQ_Process_number_1 = drop_bit 5 a1 AND 7,
               f3_Transmission_feedback_1 = tf_cast (drop_bit 4 a1 AND 1),
               f3_MCS = cqi_2_mcs (a1 AND 15)\<rparr>
      in (f3_valid f, f))"

record feedback_f4 =
  f4_HARQ_feedback_bitmap :: u32
  f4_MCS :: u32

definition f4_valid :: "feedback_f4 \<Rightarrow> bool" where
  "f4_valid f =
     (if bitmask_lsb 8 < f4_HARQ_feedback_bitmap f then False
      else if 11 < f4_MCS f then False
      else True)"

definition f4_pack :: "feedback_f4 \<Rightarrow> u8 \<Rightarrow> (u8 \<times> u8) res" where
  "f4_pack f a0 = assertE (f4_valid f) (
     bindE (mcs_2_cqi (sint (f4_MCS f))) (\<lambda>cqi. Inr
     (keep_upper a0 OR to_byte (drop_bit 4 (f4_HARQ_feedback_bitmap f)),
      to_byte (push_bit 4 (f4_HARQ_feedback_bitmap f AND 15)) OR to_byte cqi)))"

definition f4_unpack :: "u32 \<Rightarrow> u32 \<Rightarrow> bool \<times> feedback_f4" where
  "f4_unpack a0 a1 =
     (let f = \<lparr>f4_HARQ_feedback_bitmap = push_bit 4 (a0 AND 15) OR (drop_bit 4 a1 AND 15),
               f4_MCS = cqi_2_mcs (a1 AND 15)\<rparr>
      in (f4_valid f, f))"

record feedback_f5 =
  f5_HARQ_Process_number :: u32
  f5_Transmission_feedback :: transmission_feedback
  f5_MIMO_feedback :: mimo_feedback
  f5_Codebook_index :: u32

definition f5_valid :: "feedback_f5 \<Rightarrow> bool" where
  "f5_valid f =
     (if bitmask_lsb 3 < f5_HARQ_Process_number f then False
      else if f5_Transmission_feedback f = TF_not_defined then False
      else if f5_MIMO_feedback f = MIMO_not_defined then False
      else if bitmask_lsb 6 < f5_Codebook_index f then False
      else True)"

definition f5_pack :: "feedback_f5 \<Rightarrow> u8 \<Rightarrow> (u8 \<times> u8) res" where
  "f5_pack f a0 = assertE (f5_valid f) (Inr
     (keep_upper a0 OR to_byte (push_bit 1 (f5_HARQ_Process_number f))
        OR to_byte (tf_code (f5_Transmission_feedback f)),
      to_byte (push_bit 6 (mimo_code (f5_MIMO_feedback f))) OR to_byte (f5_Codebook_index f)))"

definition f5_unpack :: "u32 \<Rightarrow> u32 \<Rightarrow> bool \<times> feedback_f5" where
  "f5_unpack a0 a1 =
     (let f = \<lparr>f5_HARQ_Process_number = drop_bit 1 a0 AND 7,
               f5_Transmission_feedback = tf_cast (a0 AND 1),
               f5_MIMO_feedback = mimo_cast (drop_bit 6 a1 AND 3),
               f5_Codebook_index = a1 AND 63\<rparr>
      in (f5_valid f, f))"

record feedback_f6 =
  f6_HARQ_Process_number :: u32
  f6_Reserved :: u32
  f6_Buffer_Size :: u32
  f6_MCS :: u32

definition f6_valid :: "feedback_f6 \<Rightarrow> bool" where
  "f6_valid f =
     (if bitmask_lsb 3 < f6_HARQ_Process_number f then False
      else if f6_Reserved f \<noteq> 0 then False
      else if bitmask_lsb 4 < buffer_size_2_buffer_status (f6_Buffer_Size f) then False
      else if 11 < f6_MCS f then False
      else True)"

definition f6_pack :: "feedback_f6 \<Rightarrow> u8 \<Rightarrow> (u8 \<times> u8) res" where
  "f6_pack f a0 = assertE (f6_valid f) (
     bindE (mcs_2_cqi (sint (f6_MCS f))) (\<lambda>cqi. Inr
     (keep_upper a0 OR to_byte (push_bit 1 (f6_HARQ_Process_number f)) OR to_byte (f6_Reserved f),
      to_byte (push_bit 4 (buffer_size_2_buffer_status (f6_Buffer_Size f))) OR to_byte cqi)))"

definition f6_unpack :: "u32 \<Rightarrow> u32 \<Rightarrow> bool \<times> feedback_f6" where
  "f6_unpack a0 a1 =
     (let f = \<lparr>f6_HARQ_Process_number = drop_bit 1 a0 AND 7,
               f6_Reserved = a0 AND 1,
               f6_Buffer_Size = buffer_size_lower (drop_bit 4 a1 AND 15),
               f6_MCS = cqi_2_mcs (a1 AND 15)\<rparr>
      in (f6_valid f, f))"

subsection \<open>The pool\<close>

record feedback_info_pool =
  pool_f1 :: feedback_f1
  pool_f2 :: feedback_f2
  pool_f3 :: feedback_f3
  pool_f4 :: feedback_f4
  pool_f5 :: feedback_f5
  pool_f6 :: feedback_f6

definition feedback_pack :: "feedback_info_pool \<Rightarrow> u32 \<Rightarrow> u8 \<Rightarrow> (u8 \<times> u8) res" where
  "feedback_pack p feedback_format a0 =
     (if feedback_format = 0 then Inr (keep_upper a0, 0)
      else if feedback_format = 1 then f1_pack (pool_f1 p) a0
      else if feedback_format = 2 then f2_pack (pool_f2 p) a0
      else if feedback_format = 3 then f3_pack (pool_f3 p) a0
      else if feedback_format = 4 then f4_pack (pool_f4 p) a0
      else if feedback_format = 5 then f5_pack (pool_f5 p) a0
      else if feedback_format = 6 then f6_pack (pool_f6 p) a0
      else Inl Assertion_failed)"

definition feedback_unpack ::
  "feedback_info_pool \<Rightarrow> u32 \<Rightarrow> u32 \<Rightarrow> u32 \<Rightarrow> bool \<times> feedback_info_pool" where
  "feedback_unpack p feedback_format a0 a1 =
     (if feedback_format = 0
      then (if a0 AND 15 \<noteq> 0 then (False, p) else if a1 \<noteq> 0 then (False, p) else (True, p))
      else if feedback_format = 1
      then (let (v, f) = f1_unpack a0 a1 in (v, p\<lparr>pool_f1 := f\<rparr>))
      else if feedback_format = 2
      then (let (v, f) = f2_unpack a0 a1 in (v, p\<lparr>pool_f2 := f\<rparr>))
      else if feedback_format = 3
      then (let (v, f) = f3_unpack a0 a1 in (v, p\<lparr>pool_f3 := f\<rparr>))
      else if feedback_format = 4
      then (let (v, f) = f4_unpack a0 a1 in (v, p\<lparr>pool_f4 := f\<rparr>))
      else if feedback_format = 5
      then (let (v, f) = f5_unpack a0 a1 in (v, p\<lparr>pool_f5 := f\<rparr>))
      else if feedback_format = 6
      then (let (v, f) = f6_unpack a0 a1 in (v, p\<lparr>pool_f6 := f\<rparr>))
      else (False, p))"

subsection \<open>Coding lemmas\<close>

lemma tf_fits: "t \<noteq> TF_not_defined \<Longrightarrow> fits 1 (tf_code t)"
  by (cases t) (simp_all flip: fits_le_numeral)

lemma tf_cast_code [simp]: "t \<noteq> TF_not_defined \<Longrightarrow> tf_cast (tf_code t) = t"
  by (cases t) (simp_all add: tf_cast_def)

lemma mimo_fits: "m \<noteq> MIMO_not_defined \<Longrightarrow> fits 2 (mimo_code m)"
  by (cases m) (simp_all flip: fits_le_numeral)

lemma mimo_cast_code [simp]: "m \<noteq> MIMO_not_defined \<Longrightarrow> mimo_cast (mimo_code m) = m"
  by (cases m) (simp_all add: mimo_cast_def)

lemma status_le_15: "buffer_size_2_buffer_status s \<le> 15"
  by (simp add: buffer_size_2_buffer_status_def)

lemma status_fits: "fits 4 (buffer_size_2_buffer_status s)"
  using status_le_15 [of s] by (simp add: fits_le_numeral)

lemma word_le_11_cases:
  assumes "\<not> 11 < (m :: u32)"
  shows "m \<in> {0, 1, 2, 3, 4, 5, 6, 7, 8, 9, 10, 11}"
proof -
  have "unat m \<le> 11" using assms by (simp add: not_less word_le_nat_alt)
  then have "unat m \<in> set [0..<12]" by simp
  then have "(word_of_nat (unat m) :: u32) \<in> word_of_nat ` set [0..<12]" by (rule imageI)
  then show ?thesis by (simp add: upt_rec)
qed

lemma mcs_cqi:
  assumes "\<not> 11 < m"
  shows "mcs_2_cqi (sint m) = Inr (m + 1)" and "fits 4 (m + 1)" and "cqi_2_mcs (m + 1) = m"
  using word_le_11_cases [OF assms]
  by (auto simp: mcs_2_cqi_def cqi_2_mcs_def simp flip: fits_le_numeral)

lemma bit_keep_upper: "bit (keep_upper b) n \<longleftrightarrow> 4 \<le> n \<and> n < 8 \<and> bit b n"
  by (auto simp: keep_upper_def bit_simps bit_bitmask_msb)

lemma fld_keep_upper [field_simps_bits]:
  "s + k \<le> 4 \<Longrightarrow> fld k s (ucast (keep_upper b)) = 0"
  "4 \<le> s \<Longrightarrow> fld k s (ucast (keep_upper b)) = fld k s (ucast b)"
  by (rule bit_word_eqI; auto simp: fld_def keep_upper_def bit_simps bit_bitmask_msb
      dest: bit_imp_le_length)+

lemmas feedback_field_simps = field_simps_bits tf_fits mimo_fits status_fits mcs_cqi

subsection \<open>Round trips\<close>

text \<open>
  Only the buffer status is transmitted: a receiver sees the lower end of the interval that
  holds the buffer size. Everything else arrives unchanged.
\<close>

definition quantise :: "u32 \<Rightarrow> u32" where
  "quantise s = buffer_size_lower (buffer_size_2_buffer_status s)"

lemma unat_u32_le: "unat s \<le> 4294967295" for s :: u32
  using unsigned_less [of s, where 'a = nat] by simp

text \<open>The coded size stands for an interval that contains the size.\<close>

lemma if_holds: "(c \<Longrightarrow> P x) \<Longrightarrow> (\<not> c \<Longrightarrow> P y) \<Longrightarrow> P (if c then x else y)"
  by simp

lemma quantise_bounds:
  "quantise s \<le> s"
  "s \<le> buffer_status_2_buffer_size_upper ! unat (buffer_size_2_buffer_status s)"
proof -
  define P where "P status \<longleftrightarrow> buffer_size_lower status \<le> s
    \<and> s \<le> buffer_status_2_buffer_size_upper ! unat status" for status :: u32
  have "s \<le> 4294967295" using unat_u32_le [of s] by (simp add: word_le_nat_alt)
  then have "P (buffer_size_2_buffer_status s)"
    unfolding buffer_size_2_buffer_status_def
    by (intro if_holds [where P = P])
      (simp_all add: P_def buffer_size_lower_def buffer_status_2_buffer_size_lower_def
        buffer_status_2_buffer_size_upper_def order_less_imp_le not_less not_le word_gt_0)
  then show "quantise s \<le> s" "s \<le> buffer_status_2_buffer_size_upper ! unat (buffer_size_2_buffer_status s)"
    by (simp_all add: P_def quantise_def)
qed

lemma f1_roundtrip:
  assumes "f1_valid f" and "f1_pack f a0 = Inr (x, y)"
  shows "f1_unpack (ucast x) (ucast y) = (True, f\<lparr>f1_Buffer_Size := quantise (f1_Buffer_Size f)\<rparr>)"
    and "fld 4 4 (ucast x) = fld 4 4 (ucast a0)"
proof -
  obtain h t s m where f: "f = \<lparr>f1_HARQ_Process_number = h, f1_Transmission_feedback = t,
      f1_Buffer_Size = s, f1_MCS = m\<rparr>" by (cases f)
  have h: "fits 3 h" and t: "t \<noteq> TF_not_defined" and m: "\<not> 11 < m"
    using assms(1) f by (auto simp: f1_valid_def field_simps_bits split: if_splits)
  note b = h tf_fits [OF t] status_fits [of s] mcs_cqi(2) [OF m]
  show "f1_unpack (ucast x) (ucast y) = (True, f\<lparr>f1_Buffer_Size := quantise (f1_Buffer_Size f)\<rparr>)"
    using assms h t m unfolding f
    by (auto simp: f1_pack_def f1_unpack_def f1_valid_def field_simps_bits b [THEN fits_mono]
        mcs_cqi status_fits Let_def quantise_def)
  show "fld 4 4 (ucast x) = fld 4 4 (ucast a0)"
    using assms h t m unfolding f
    by (auto simp: f1_pack_def field_simps_bits b [THEN fits_mono] mcs_cqi)
qed

lemma f2_roundtrip:
  assumes "f2_valid f" and "f2_pack f a0 = Inr (x, y)"
  shows "f2_unpack (ucast x) (ucast y) = (True, f\<lparr>f2_Buffer_Size := quantise (f2_Buffer_Size f)\<rparr>)"
    and "fld 4 4 (ucast x) = fld 4 4 (ucast a0)"
proof -
  obtain c d s m where f: "f = \<lparr>f2_Codebook_index = c, f2_MIMO_feedback = d,
      f2_Buffer_Size = s, f2_MCS = m\<rparr>" by (cases f)
  have c: "fits 3 c" and d: "d = MIMO_single_layer \<or> d = MIMO_dual_layer" and m: "\<not> 11 < m"
    using assms(1) f by (auto simp: f2_valid_def field_simps_bits split: if_splits)
  have d1: "fits 1 (mimo_code d)" and d2: "d \<noteq> MIMO_not_defined"
    using d by (auto simp flip: fits_le_numeral)
  note b = c d1 status_fits [of s] mcs_cqi(2) [OF m]
  show "f2_unpack (ucast x) (ucast y) = (True, f\<lparr>f2_Buffer_Size := quantise (f2_Buffer_Size f)\<rparr>)"
    using assms c d2 m unfolding f
    by (auto simp: f2_pack_def f2_unpack_def f2_valid_def field_simps_bits b [THEN fits_mono]
        mcs_cqi status_fits Let_def quantise_def mimo_cast_def bit_simps bit_keep_upper split: if_splits)
  show "fld 4 4 (ucast x) = fld 4 4 (ucast a0)"
    using assms c d2 m unfolding f
    by (auto simp: f2_pack_def field_simps_bits b [THEN fits_mono] mcs_cqi)
qed

lemma f3_roundtrip:
  assumes "f3_valid f" and "f3_pack f a0 = Inr (x, y)"
  shows "f3_unpack (ucast x) (ucast y) = (True, f)"
    and "fld 4 4 (ucast x) = fld 4 4 (ucast a0)"
proof -
  obtain h t i u m where f: "f = \<lparr>f3_HARQ_Process_number_0 = h, f3_Transmission_feedback_0 = t,
      f3_HARQ_Process_number_1 = i, f3_Transmission_feedback_1 = u, f3_MCS = m\<rparr>" by (cases f)
  have h: "fits 3 h" "fits 3 i" and t: "t \<noteq> TF_not_defined" "u \<noteq> TF_not_defined" and m: "\<not> 11 < m"
    using assms(1) f by (auto simp: f3_valid_def field_simps_bits split: if_splits)
  note b = h tf_fits [OF t(1)] tf_fits [OF t(2)] mcs_cqi(2) [OF m]
  show "f3_unpack (ucast x) (ucast y) = (True, f)"
    using assms h t m unfolding f
    by (auto simp: f3_pack_def f3_unpack_def f3_valid_def field_simps_bits b [THEN fits_mono]
        mcs_cqi Let_def)
  show "fld 4 4 (ucast x) = fld 4 4 (ucast a0)"
    using assms h t m unfolding f
    by (auto simp: f3_pack_def field_simps_bits b [THEN fits_mono] mcs_cqi)
qed

lemma split_nibble: "push_bit 4 (drop_bit 4 v) OR fld 4 0 v = v" for v :: u32
  by (rule word_eqI_upt, simp add: fld_def bit_simps upt_width)

lemma f4_roundtrip:
  assumes "f4_valid f" and "f4_pack f a0 = Inr (x, y)"
  shows "f4_unpack (ucast x) (ucast y) = (True, f)"
    and "fld 4 4 (ucast x) = fld 4 4 (ucast a0)"
proof -
  obtain h m where f: "f = \<lparr>f4_HARQ_feedback_bitmap = h, f4_MCS = m\<rparr>" by (cases f)
  have h: "fits 8 h" and m: "\<not> 11 < m"
    using assms(1) f by (auto simp: f4_valid_def field_simps_bits split: if_splits)
  note b = h fits_drop_bit [of 4 4, simplified, OF h] mcs_cqi(2) [OF m]
  show "f4_unpack (ucast x) (ucast y) = (True, f)"
    using assms h m unfolding f
    by (auto simp: f4_pack_def f4_unpack_def f4_valid_def field_simps_bits b [THEN fits_mono]
        mcs_cqi Let_def split_nibble)
  show "fld 4 4 (ucast x) = fld 4 4 (ucast a0)"
    using assms h m unfolding f
    by (auto simp: f4_pack_def field_simps_bits b [THEN fits_mono] mcs_cqi)
qed

lemma f5_roundtrip:
  assumes "f5_valid f" and "f5_pack f a0 = Inr (x, y)"
  shows "f5_unpack (ucast x) (ucast y) = (True, f)"
    and "fld 4 4 (ucast x) = fld 4 4 (ucast a0)"
proof -
  obtain h t d c where f: "f = \<lparr>f5_HARQ_Process_number = h, f5_Transmission_feedback = t,
      f5_MIMO_feedback = d, f5_Codebook_index = c\<rparr>" by (cases f)
  have h: "fits 3 h" and t: "t \<noteq> TF_not_defined" and d: "d \<noteq> MIMO_not_defined" and c: "fits 6 c"
    using assms(1) f by (auto simp: f5_valid_def field_simps_bits split: if_splits)
  note b = h tf_fits [OF t] mimo_fits [OF d] c
  show "f5_unpack (ucast x) (ucast y) = (True, f)"
    using assms h t d c unfolding f
    by (auto simp: f5_pack_def f5_unpack_def f5_valid_def field_simps_bits b [THEN fits_mono]
        Let_def)
  show "fld 4 4 (ucast x) = fld 4 4 (ucast a0)"
    using assms h t d c unfolding f
    by (auto simp: f5_pack_def field_simps_bits b [THEN fits_mono])
qed

lemma f6_roundtrip:
  assumes "f6_valid f" and "f6_pack f a0 = Inr (x, y)"
  shows "f6_unpack (ucast x) (ucast y) = (True, f\<lparr>f6_Buffer_Size := quantise (f6_Buffer_Size f)\<rparr>)"
    and "fld 4 4 (ucast x) = fld 4 4 (ucast a0)"
proof -
  obtain h rs s m where f: "f = \<lparr>f6_HARQ_Process_number = h, f6_Reserved = rs,
      f6_Buffer_Size = s, f6_MCS = m\<rparr>" by (cases f)
  have h: "fits 3 h" and rs: "rs = 0" and m: "\<not> 11 < m"
    using assms(1) f by (auto simp: f6_valid_def field_simps_bits split: if_splits)
  note b = h status_fits [of s] mcs_cqi(2) [OF m]
  show "f6_unpack (ucast x) (ucast y) = (True, f\<lparr>f6_Buffer_Size := quantise (f6_Buffer_Size f)\<rparr>)"
    using assms h rs m unfolding f
    by (auto simp: f6_pack_def f6_unpack_def f6_valid_def field_simps_bits b [THEN fits_mono]
        mcs_cqi status_fits Let_def quantise_def bit_simps bit_keep_upper)
  show "fld 4 4 (ucast x) = fld 4 4 (ucast a0)"
    using assms h rs m unfolding f
    by (auto simp: f6_pack_def field_simps_bits b [THEN fits_mono] mcs_cqi)
qed

text \<open>What a receiver holds after the format \<open>fmt\<close> of the sender's pool has arrived.\<close>

definition pool_received :: "u32 \<Rightarrow> feedback_info_pool \<Rightarrow> feedback_info_pool \<Rightarrow> feedback_info_pool" where
  "pool_received fmt src dst =
     (if fmt = 1
      then dst\<lparr>pool_f1 := (pool_f1 src)\<lparr>f1_Buffer_Size := quantise (f1_Buffer_Size (pool_f1 src))\<rparr>\<rparr>
      else if fmt = 2
      then dst\<lparr>pool_f2 := (pool_f2 src)\<lparr>f2_Buffer_Size := quantise (f2_Buffer_Size (pool_f2 src))\<rparr>\<rparr>
      else if fmt = 3 then dst\<lparr>pool_f3 := pool_f3 src\<rparr>
      else if fmt = 4 then dst\<lparr>pool_f4 := pool_f4 src\<rparr>
      else if fmt = 5 then dst\<lparr>pool_f5 := pool_f5 src\<rparr>
      else if fmt = 6
      then dst\<lparr>pool_f6 := (pool_f6 src)\<lparr>f6_Buffer_Size := quantise (f6_Buffer_Size (pool_f6 src))\<rparr>\<rparr>
      else dst)"

lemma feedback_roundtrip:
  assumes "feedback_pack p fmt a0 = Inr (x, y)"
  shows "feedback_unpack q fmt (ucast x) (ucast y) = (True, pool_received fmt p q)"
    and "fld 4 4 (ucast x) = fld 4 4 (ucast a0)"
proof -
  note v = f1_pack_def f2_pack_def f3_pack_def f4_pack_def f5_pack_def f6_pack_def
  consider "fmt = 0" | "fmt = 1" "f1_pack (pool_f1 p) a0 = Inr (x, y)" "f1_valid (pool_f1 p)"
    | "fmt = 2" "f2_pack (pool_f2 p) a0 = Inr (x, y)" "f2_valid (pool_f2 p)"
    | "fmt = 3" "f3_pack (pool_f3 p) a0 = Inr (x, y)" "f3_valid (pool_f3 p)"
    | "fmt = 4" "f4_pack (pool_f4 p) a0 = Inr (x, y)" "f4_valid (pool_f4 p)"
    | "fmt = 5" "f5_pack (pool_f5 p) a0 = Inr (x, y)" "f5_valid (pool_f5 p)"
    | "fmt = 6" "f6_pack (pool_f6 p) a0 = Inr (x, y)" "f6_valid (pool_f6 p)"
    using assms by (auto simp: feedback_pack_def v split: if_splits)
  then have "feedback_unpack q fmt (ucast x) (ucast y) = (True, pool_received fmt p q)
      \<and> fld 4 4 (ucast x) = fld 4 4 (ucast a0)"
  proof cases
    case 1
    then show ?thesis
      using assms by (auto simp: feedback_pack_def feedback_unpack_def pool_received_def
          field_simps_bits)
  qed (simp_all add: feedback_unpack_def pool_received_def f1_roundtrip f2_roundtrip f3_roundtrip
      f4_roundtrip f5_roundtrip f6_roundtrip)
  then show "feedback_unpack q fmt (ucast x) (ucast y) = (True, pool_received fmt p q)"
    and "fld 4 4 (ucast x) = fld 4 4 (ucast a0)" by blast+
qed

end
