(* ===== verification/Identity.thy ===== *)
theory Identity
  imports Bitbyte Enumeration
begin

text \<open>
  \<open>sections_part4/mac_architecture/identity\<close>: the identities of a radio device and their
  validity checks.
\<close>

definition NetworkID_reserved :: u32 where "NetworkID_reserved = 0"
definition LongRadioDeviceID_reserved :: u32 where "LongRadioDeviceID_reserved = 0"
definition LongRadioDeviceID_backend :: u32 where "LongRadioDeviceID_backend = 0xFFFFFFFE"
definition LongRadioDeviceID_broadcast :: u32 where "LongRadioDeviceID_broadcast = 0xFFFFFFFF"
definition ShortRadioDeviceID_reserved :: u32 where "ShortRadioDeviceID_reserved = 0"
definition ShortRadioDeviceID_broadcast :: u32 where "ShortRadioDeviceID_broadcast = 0xFFFF"

lemmas identity_consts =
  NetworkID_reserved_def LongRadioDeviceID_reserved_def LongRadioDeviceID_backend_def
  LongRadioDeviceID_broadcast_def ShortRadioDeviceID_reserved_def ShortRadioDeviceID_broadcast_def

record identity =
  NetworkID :: u32
  ShortNetworkID :: u32
  LongRadioDeviceID :: u32
  ShortRadioDeviceID :: u32

definition full_to_short_network_id :: "u32 \<Rightarrow> u32" where
  "full_to_short_network_id n = n AND 0xff"

text \<open>The constructor of \<open>identity_t\<close>.\<close>

definition mk_identity :: "u32 \<Rightarrow> u32 \<Rightarrow> u32 \<Rightarrow> identity res" where
  "mk_identity nid lrd srd =
     assertE (nid \<noteq> NetworkID_reserved) (
     assertE (lrd \<noteq> LongRadioDeviceID_reserved \<and>
              lrd \<noteq> LongRadioDeviceID_backend \<and>
              lrd \<noteq> LongRadioDeviceID_broadcast) (
     assertE (srd \<noteq> ShortRadioDeviceID_reserved \<and>
              srd \<noteq> ShortRadioDeviceID_broadcast) (
     Inr \<lparr>NetworkID = nid, ShortNetworkID = full_to_short_network_id nid,
          LongRadioDeviceID = lrd, ShortRadioDeviceID = srd\<rparr>)))"

definition is_valid_NetworkID :: "u32 \<Rightarrow> bool" where
  "is_valid_NetworkID n = (if n = NetworkID_reserved then False else True)"

definition is_valid_ShortNetworkID :: "u32 \<Rightarrow> bool" where
  "is_valid_ShortNetworkID n =
     (if n = NetworkID_reserved then False else if bitmask_lsb 8 < n then False else True)"

definition is_valid_LongRadioDeviceID :: "u32 \<Rightarrow> bool" where
  "is_valid_LongRadioDeviceID n = (if n = LongRadioDeviceID_reserved then False else True)"

definition is_valid_ShortRadioDeviceID :: "u32 \<Rightarrow> bool" where
  "is_valid_ShortRadioDeviceID n =
     (if n = ShortRadioDeviceID_reserved then False else if bitmask_lsb 16 < n then False else True)"

lemma is_valid_ShortNetworkID_fits: "is_valid_ShortNetworkID n \<Longrightarrow> fits 8 n"
  by (auto simp: is_valid_ShortNetworkID_def not_mask_less_fits split: if_splits)

lemma is_valid_ShortRadioDeviceID_fits: "is_valid_ShortRadioDeviceID n \<Longrightarrow> fits 16 n"
  by (auto simp: is_valid_ShortRadioDeviceID_def not_mask_less_fits split: if_splits)

end
