(* ===== verification/Packing.thy ===== *)
theory Packing
  imports Bitbyte
begin

text \<open>
  \<open>common/serdes/packing.hpp\<close>: the interface \<open>packing_t\<close> that every header and message
  implements. The destination pointer of \<open>pack\<close> is modelled by the bytes written to it,
  \<open>unpack\<close> reads from the bytes available at its source pointer and returns the value of
  the C++ function together with the object it has filled.

  The locales state what the users of the interface rely on. \<open>packing\<close>: a valid object is
  packed into as many bytes as announced, and unpacking returns it, whatever follows.
  \<open>fixed_packing\<close>: the size is a constant and unpacking never stops abnormally on that many
  bytes. \<open>peeking\<close>: the size of a packed object can be read from its first bytes.
  \<open>total_peeking\<close>: unpacking never stops abnormally on as many bytes as peeking announces,
  whatever their values.
\<close>

locale packing =
  fixes valid :: "'m \<Rightarrow> bool"
    and packed_size :: "'m \<Rightarrow> nat"
    and pack :: "'m \<Rightarrow> bytes res"
    and unpack :: "bytes \<Rightarrow> (bool \<times> 'm) res"
  assumes pack_ok: "valid m \<Longrightarrow> \<exists>bs. pack m = Inr bs \<and> length bs = packed_size m"
    and unpack_pack: "valid m \<Longrightarrow> pack m = Inr bs \<Longrightarrow> unpack (bs @ r) = Inr (True, m)"
begin

lemma pack_length: "valid m \<Longrightarrow> pack m = Inr bs \<Longrightarrow> length bs = packed_size m"
  using pack_ok [of m] by auto

lemma roundtrip:
  assumes "valid m"
  shows "\<exists>bs. pack m = Inr bs \<and> length bs = packed_size m \<and> unpack (bs @ r) = Inr (True, m)"
  using pack_ok [OF assms] unpack_pack [OF assms] by blast

text \<open>Packed objects are self-delimiting: no packed object is a proper prefix of another.\<close>

lemma prefix_free:
  assumes "valid m" "valid m'" "pack m = Inr bs" "pack m' = Inr bs'" "bs @ r = bs' @ r'"
  shows "m = m' \<and> bs = bs' \<and> r = r'"
proof -
  have "unpack (bs @ r) = Inr (True, m)" "unpack (bs' @ r') = Inr (True, m')"
    using assms unpack_pack by blast+
  with assms show ?thesis by auto
qed

lemma pack_inj: "valid m \<Longrightarrow> valid m' \<Longrightarrow> pack m = pack m' \<Longrightarrow> m = m'"
  using pack_ok [of m] prefix_free [of m m'] by force

end

locale fixed_packing = packing +
  fixes n :: nat
  assumes size_fixed: "packed_size m = n"
    and unpack_total: "n \<le> length a \<Longrightarrow> \<exists>v m. unpack a = Inr (v, m)"
begin

lemma unpack_no_fault: "n \<le> length a \<Longrightarrow> unpack a \<noteq> Inl e"
  using unpack_total [of a] by auto

end

datatype peek_errc =
  NONRESERVED_FIELD_SET_TO_RESERVED | NONRESERVED_FIELD_SET_TO_UNSUPPORTED
| RESERVED_FIELD_NOT_ZERO

type_synonym peek_result = "peek_errc + nat"

locale peeking = packing +
  fixes min_to_peek :: nat
    and peek :: "bytes \<Rightarrow> peek_result res"
  assumes peek_total: "min_to_peek \<le> length a \<Longrightarrow> \<exists>p. peek a = Inr p"
    and peek_pack: "valid m \<Longrightarrow> pack m = Inr bs \<Longrightarrow> peek (bs @ r) = Inr (Inr (packed_size m))"
begin

lemma peek_size:
  assumes "valid m" "pack m = Inr bs"
  shows "peek (bs @ r) = Inr (Inr (length bs))"
  using peek_pack [OF assms] pack_length [OF assms] by simp

end

locale total_peeking = peeking +
  assumes peek_unpack: "peek a = Inr (Inr k) \<Longrightarrow> k \<le> length a \<Longrightarrow> \<exists>v m. unpack a = Inr (v, m)"
begin

lemma peek_unpack_no_fault: "peek a = Inr (Inr k) \<Longrightarrow> k \<le> length a \<Longrightarrow> unpack a \<noteq> Inl e"
  using peek_unpack [of a k] by auto

end

end
