(* ===== verification/Plcf.thy ===== *)
theory Plcf
  imports Feedback_Info Identity Packing
begin

text \<open>
  \<open>sections_part4/physical_header_field\<close>: the physical layer control fields of type 1
  (\<open>plcf_10\<close>, 40 bits) and type 2 (\<open>plcf_20\<close>, \<open>plcf_21\<close>, 80 bits) and the decoder that
  picks and checks one of each type. \<open>plcf_base_t\<close> is the record that the three formats
  extend. \<open>unpack\<close> returns early when the first octet is wrong and leaves the other fields
  of the object as they were, so it takes the object.
\<close>

record plcf_base =
  HeaderFormat :: u32
  PacketLengthType :: u32
  PacketLength_m1 :: u32
  TransmitPower :: u32
  DFMCS :: u32

definition tx_power_table :: "int list" where
  "tx_power_table = [-40, -30, -20, -16, -12, -8, -4, 0, 4, 7, 10, 13, 16, 19, 21, 23]"

definition N_SS_coded_lut :: "u32 list" where
  "N_SS_coded_lut = [0, 0, 1, 0, 2, 0, 0, 0, 3]"

definition N_SS_coded_lut_rev :: "u32 list" where
  "N_SS_coded_lut_rev = [1, 2, 4, 8]"

subsection \<open>The base class\<close>

definition plcf_base_valid :: "'a plcf_base_scheme \<Rightarrow> bool" where
  "plcf_base_valid p =
     (if 1 < HeaderFormat p then False
      else if 1 < PacketLengthType p then False
      else if bitmask_lsb 4 < PacketLength_m1 p then False
      else True)"

definition plcf_base_pack :: "'a plcf_base_scheme \<Rightarrow> u8 res" where
  "plcf_base_pack p = assertE (plcf_base_valid p) (Inr
     (to_byte (push_bit 5 (HeaderFormat p)) OR to_byte (push_bit 4 (PacketLengthType p))
      OR to_byte (PacketLength_m1 p)))"

definition plcf_base_unpack ::
  "'a plcf_base_scheme \<Rightarrow> u32 \<Rightarrow> bool \<times> 'a plcf_base_scheme" where
  "plcf_base_unpack p b =
     (let q = p\<lparr>HeaderFormat := drop_bit 5 b, PacketLengthType := drop_bit 4 b AND 1,
                PacketLength_m1 := b AND 15\<rparr>
      in (plcf_base_valid q, q))"

definition set_PacketLength_m1 :: "int \<Rightarrow> 'a plcf_base_scheme \<Rightarrow> 'a plcf_base_scheme" where
  "set_PacketLength_m1 len p = p\<lparr>PacketLength_m1 := of_int (len - 1)\<rparr>"

definition get_PacketLength :: "'a plcf_base_scheme \<Rightarrow> u32" where
  "get_PacketLength p = PacketLength_m1 p + 1"

definition set_TransmitPower :: "int \<Rightarrow> 'a plcf_base_scheme \<Rightarrow> 'a plcf_base_scheme" where
  "set_TransmitPower dBm p =
     (let lower = lower_bound tx_power_table dBm
      in p\<lparr>TransmitPower := (if lower = length tx_power_table
                              then of_nat (length tx_power_table - 1) else of_nat lower)\<rparr>)"

definition get_TransmitPower_dBm :: "'a plcf_base_scheme \<Rightarrow> int res" where
  "get_TransmitPower_dBm p = array_at tx_power_table (unat (TransmitPower p))"

subsection \<open>Type 1, header format 000\<close>

record plcf_10 = plcf_base +
  p10_ShortNetworkID :: u32
  p10_TransmitterIdentity :: u32
  p10_Reserved :: u32

definition plcf_10_zero :: "plcf_10 \<Rightarrow> plcf_10" where
  "plcf_10_zero p = \<lparr>HeaderFormat = 0, PacketLengthType = 0, PacketLength_m1 = 0,
     TransmitPower = 0, DFMCS = 0, p10_ShortNetworkID = 0, p10_TransmitterIdentity = 0,
     p10_Reserved = 0\<rparr>"

definition plcf_10_valid :: "plcf_10 \<Rightarrow> bool" where
  "plcf_10_valid p =
     (if HeaderFormat p \<noteq> 0 then False
      else if \<not> is_valid_ShortNetworkID (p10_ShortNetworkID p) then False
      else if \<not> is_valid_ShortRadioDeviceID (p10_TransmitterIdentity p) then False
      else if bitmask_lsb 4 < TransmitPower p then False
      else if p10_Reserved p \<noteq> 0 then False
      else if bitmask_lsb 3 < DFMCS p then False
      else True)"

definition plcf_10_pack :: "plcf_10 \<Rightarrow> bytes res" where
  "plcf_10_pack p =
     bindE (plcf_base_pack p) (\<lambda>b0.
     assertE (plcf_10_valid p) (Inr
     ([b0, to_byte (p10_ShortNetworkID p)] @ l2b_lower (p10_TransmitterIdentity p) 2
      @ [to_byte (push_bit 4 (TransmitPower p)) OR to_byte (push_bit 3 (p10_Reserved p))
           OR to_byte (DFMCS p)])))"

definition plcf_10_unpack :: "plcf_10 \<Rightarrow> bytes \<Rightarrow> (bool \<times> plcf_10) res" where
  "plcf_10_unpack p a =
     bindE (rd a 0) (\<lambda>b0.
     let (v, q) = plcf_base_unpack p b0
     in if \<not> v then Inr (False, q)
        else bindE (rd a 1) (\<lambda>b1.
             bindE (b2l_lower a 2 2) (\<lambda>ti.
             bindE (rd a 4) (\<lambda>b4.
             let q = q\<lparr>p10_ShortNetworkID := b1, p10_TransmitterIdentity := ti,
                       TransmitPower := drop_bit 4 b4 AND 15,
                       p10_Reserved := drop_bit 3 b4 AND 1, DFMCS := b4 AND 7\<rparr>
             in Inr (plcf_10_valid q, q)))))"

subsection \<open>Type 2, header format 000\<close>

record plcf_20 = plcf_base +
  p20_ShortNetworkID :: u32
  p20_TransmitterIdentity :: u32
  p20_ReceiverIdentity :: u32
  p20_NumberOfSpatialStreams :: u32
  p20_DFRedundancyVersion :: u32
  p20_DFNewDataIndication :: u32
  p20_DFHARQProcessNumber :: u32
  p20_FeedbackFormat :: u32
  p20_feedback_info_pool :: feedback_info_pool

definition plcf_20_zero :: "plcf_20 \<Rightarrow> plcf_20" where
  "plcf_20_zero p = p\<lparr>HeaderFormat := 0, PacketLengthType := 0, PacketLength_m1 := 0,
     p20_ShortNetworkID := 0, p20_TransmitterIdentity := 0, TransmitPower := 0, DFMCS := 0,
     p20_ReceiverIdentity := 0, p20_NumberOfSpatialStreams := 0, p20_DFRedundancyVersion := 0,
     p20_DFNewDataIndication := 0, p20_DFHARQProcessNumber := 0, p20_FeedbackFormat := 0\<rparr>"

definition plcf_20_valid :: "plcf_20 \<Rightarrow> bool" where
  "plcf_20_valid p =
     (if HeaderFormat p \<noteq> 0 then False
      else if \<not> is_valid_ShortNetworkID (p20_ShortNetworkID p) then False
      else if \<not> is_valid_ShortRadioDeviceID (p20_TransmitterIdentity p) then False
      else if bitmask_lsb 4 < TransmitPower p then False
      else if 11 < DFMCS p then False
      else if \<not> is_valid_ShortRadioDeviceID (p20_ReceiverIdentity p) then False
      else if bitmask_lsb 2 < p20_NumberOfSpatialStreams p then False
      else if bitmask_lsb 2 < p20_DFRedundancyVersion p then False
      else if 1 < p20_DFNewDataIndication p then False
      else if bitmask_lsb 3 < p20_DFHARQProcessNumber p then False
      else if bitmask_lsb 4 < p20_FeedbackFormat p then False
      else True)"

definition plcf_20_pack :: "plcf_20 \<Rightarrow> bytes res" where
  "plcf_20_pack p =
     bindE (plcf_base_pack p) (\<lambda>b0.
     assertE (plcf_20_valid p) (
     bindE (feedback_pack (p20_feedback_info_pool p) (p20_FeedbackFormat p)
              (to_byte (push_bit 4 (p20_FeedbackFormat p)))) (\<lambda>(b8, b9). Inr
     ([b0, to_byte (p20_ShortNetworkID p)] @ l2b_lower (p20_TransmitterIdentity p) 2
      @ [to_byte (push_bit 4 (TransmitPower p)) OR to_byte (DFMCS p)]
      @ l2b_lower (p20_ReceiverIdentity p) 2
      @ [to_byte (push_bit 6 (p20_NumberOfSpatialStreams p))
           OR to_byte (push_bit 4 (p20_DFRedundancyVersion p))
           OR to_byte (push_bit 3 (p20_DFNewDataIndication p))
           OR to_byte (p20_DFHARQProcessNumber p),
         b8, b9]))))"

definition plcf_20_unpack :: "plcf_20 \<Rightarrow> bytes \<Rightarrow> (bool \<times> plcf_20) res" where
  "plcf_20_unpack p a =
     bindE (rd a 0) (\<lambda>b0.
     let (v, q) = plcf_base_unpack p b0
     in if \<not> v then Inr (False, q)
        else bindE (rd a 1) (\<lambda>b1.
             bindE (b2l_lower a 2 2) (\<lambda>ti.
             bindE (rd a 4) (\<lambda>b4.
             bindE (b2l_lower a 5 2) (\<lambda>ri.
             bindE (rd a 7) (\<lambda>b7.
             bindE (rd a 8) (\<lambda>b8.
             bindE (rd a 9) (\<lambda>b9.
             let fmt = drop_bit 4 b8 AND 15;
                 (fv, pool) = feedback_unpack (p20_feedback_info_pool q) fmt b8 b9;
                 q = q\<lparr>p20_ShortNetworkID := b1, p20_TransmitterIdentity := ti,
                       TransmitPower := drop_bit 4 b4 AND 15, DFMCS := b4 AND 15,
                       p20_ReceiverIdentity := ri,
                       p20_NumberOfSpatialStreams := drop_bit 6 b7 AND 3,
                       p20_DFRedundancyVersion := drop_bit 4 b7 AND 3,
                       p20_DFNewDataIndication := drop_bit 3 b7 AND 1,
                       p20_DFHARQProcessNumber := b7 AND 7,
                       p20_FeedbackFormat := fmt, p20_feedback_info_pool := pool\<rparr>
             in Inr (if \<not> fv then False else plcf_20_valid q, q)))))))))"

subsection \<open>Type 2, header format 001\<close>

record plcf_21 = plcf_base +
  p21_ShortNetworkID :: u32
  p21_TransmitterIdentity :: u32
  p21_ReceiverIdentity :: u32
  p21_NumberOfSpatialStreams :: u32
  p21_Reserved :: u32
  p21_FeedbackFormat :: u32
  p21_feedback_info_pool :: feedback_info_pool

definition plcf_21_zero :: "plcf_21 \<Rightarrow> plcf_21" where
  "plcf_21_zero p = p\<lparr>HeaderFormat := 0, PacketLengthType := 0, PacketLength_m1 := 0,
     p21_ShortNetworkID := 0, p21_TransmitterIdentity := 0, TransmitPower := 0, DFMCS := 0,
     p21_ReceiverIdentity := 0, p21_NumberOfSpatialStreams := 0, p21_Reserved := 0,
     p21_FeedbackFormat := 0\<rparr>"

definition plcf_21_valid :: "plcf_21 \<Rightarrow> bool" where
  "plcf_21_valid p =
     (if HeaderFormat p \<noteq> 1 then False
      else if \<not> is_valid_ShortNetworkID (p21_ShortNetworkID p) then False
      else if \<not> is_valid_ShortRadioDeviceID (p21_TransmitterIdentity p) then False
      else if bitmask_lsb 4 < TransmitPower p then False
      else if 11 < DFMCS p then False
      else if \<not> is_valid_ShortRadioDeviceID (p21_ReceiverIdentity p) then False
      else if bitmask_lsb 2 < p21_NumberOfSpatialStreams p then False
      else if p21_Reserved p \<noteq> 0 then False
      else if bitmask_lsb 4 < p21_FeedbackFormat p then False
      else True)"

definition plcf_21_pack :: "plcf_21 \<Rightarrow> bytes res" where
  "plcf_21_pack p =
     bindE (plcf_base_pack p) (\<lambda>b0.
     assertE (plcf_21_valid p) (
     bindE (feedback_pack (p21_feedback_info_pool p) (p21_FeedbackFormat p)
              (to_byte (push_bit 4 (p21_FeedbackFormat p)))) (\<lambda>(b8, b9). Inr
     ([b0, to_byte (p21_ShortNetworkID p)] @ l2b_lower (p21_TransmitterIdentity p) 2
      @ [to_byte (push_bit 4 (TransmitPower p)) OR to_byte (DFMCS p)]
      @ l2b_lower (p21_ReceiverIdentity p) 2
      @ [to_byte (push_bit 6 (p21_NumberOfSpatialStreams p)) OR to_byte (p21_Reserved p),
         b8, b9]))))"

definition plcf_21_unpack :: "plcf_21 \<Rightarrow> bytes \<Rightarrow> (bool \<times> plcf_21) res" where
  "plcf_21_unpack p a =
     bindE (rd a 0) (\<lambda>b0.
     let (v, q) = plcf_base_unpack p b0
     in if \<not> v then Inr (False, q)
        else bindE (rd a 1) (\<lambda>b1.
             bindE (b2l_lower a 2 2) (\<lambda>ti.
             bindE (rd a 4) (\<lambda>b4.
             bindE (b2l_lower a 5 2) (\<lambda>ri.
             bindE (rd a 7) (\<lambda>b7.
             bindE (rd a 8) (\<lambda>b8.
             bindE (rd a 9) (\<lambda>b9.
             let fmt = drop_bit 4 b8 AND 15;
                 (fv, pool) = feedback_unpack (p21_feedback_info_pool q) fmt b8 b9;
                 q = q\<lparr>p21_ShortNetworkID := b1, p21_TransmitterIdentity := ti,
                       TransmitPower := drop_bit 4 b4 AND 15, DFMCS := b4 AND 15,
                       p21_ReceiverIdentity := ri,
                       p21_NumberOfSpatialStreams := drop_bit 6 b7 AND 3,
                       p21_Reserved := b7 AND 63,
                       p21_FeedbackFormat := fmt, p21_feedback_info_pool := pool\<rparr>
             in Inr (if \<not> fv then False else plcf_21_valid q, q)))))))))"

text \<open>\<open>set_NumberOfSpatialStreams\<close> and \<open>get_N_SS\<close> are the same in both formats of type 2.\<close>

definition code_N_SS :: "int \<Rightarrow> u32 res" where
  "code_N_SS N_SS = (if N_SS < 0 then Inl Out_of_range else array_at N_SS_coded_lut (nat N_SS))"

definition plcf_20_set_N_SS :: "int \<Rightarrow> plcf_20 \<Rightarrow> plcf_20 res" where
  "plcf_20_set_N_SS N_SS p = bindE (code_N_SS N_SS) (\<lambda>c. Inr (p\<lparr>p20_NumberOfSpatialStreams := c\<rparr>))"

definition plcf_20_get_N_SS :: "plcf_20 \<Rightarrow> u32 res" where
  "plcf_20_get_N_SS p = array_at N_SS_coded_lut_rev (unat (p20_NumberOfSpatialStreams p))"

definition plcf_21_set_N_SS :: "int \<Rightarrow> plcf_21 \<Rightarrow> plcf_21 res" where
  "plcf_21_set_N_SS N_SS p = bindE (code_N_SS N_SS) (\<lambda>c. Inr (p\<lparr>p21_NumberOfSpatialStreams := c\<rparr>))"

definition plcf_21_get_N_SS :: "plcf_21 \<Rightarrow> u32 res" where
  "plcf_21_get_N_SS p = array_at N_SS_coded_lut_rev (unat (p21_NumberOfSpatialStreams p))"

subsection \<open>Round trips\<close>

lemma plcf_base_roundtrip:
  assumes "plcf_base_valid p" and "plcf_base_pack p = Inr b"
  shows "plcf_base_unpack q (ucast b) =
    (True, q\<lparr>HeaderFormat := HeaderFormat p, PacketLengthType := PacketLengthType p,
             PacketLength_m1 := PacketLength_m1 p\<rparr>)"
proof -
  have f: "fits 1 (HeaderFormat p)" "fits 1 (PacketLengthType p)" "fits 4 (PacketLength_m1 p)"
    using assms(1) by (auto simp: plcf_base_valid_def field_simps_bits not_less split: if_splits)
  then show ?thesis
    using assms
    by (auto simp: plcf_base_pack_def plcf_base_unpack_def plcf_base_valid_def field_simps_bits
        f [THEN fits_mono] Let_def not_less split: if_splits)
qed

lemma plcf_base_pack_Inr:
  "plcf_base_pack p = Inr b \<Longrightarrow> plcf_base_valid p"
  by (simp add: plcf_base_pack_def)

lemma plcf_10_pack_Inr: "plcf_10_pack p = Inr bs \<Longrightarrow> plcf_10_valid p \<and> plcf_base_valid p"
  by (auto simp: plcf_10_pack_def plcf_base_pack_def bindE_eq_Inr)

lemma plcf_10_pack_unpack:
  assumes "plcf_10_pack p = Inr bs"
  shows "length bs = 5" and "plcf_10_unpack q (bs @ r) = Inr (True, p)"
proof -
  have v: "plcf_10_valid p" "plcf_base_valid p"
    using plcf_10_pack_Inr [OF assms] by auto
  then obtain b0 where b0: "plcf_base_pack p = Inr b0"
    by (simp add: plcf_base_pack_def)
  have f: "fits 8 (p10_ShortNetworkID p)" "fits (8 * 2) (p10_TransmitterIdentity p)"
      "fits 4 (TransmitPower p)" "fits 3 (DFMCS p)"
    and rs: "p10_Reserved p = 0"
    using v(1) is_valid_ShortNetworkID_fits is_valid_ShortRadioDeviceID_fits
    by (auto simp: plcf_10_valid_def field_simps_bits not_less split: if_splits)
  have bs: "bs = [b0, to_byte (p10_ShortNetworkID p)] @ l2b_lower (p10_TransmitterIdentity p) 2
      @ [to_byte (push_bit 4 (TransmitPower p)) OR to_byte (DFMCS p)]"
    using assms v b0 rs by (simp add: plcf_10_pack_def)
  show "length bs = 5" by (simp add: bs)
  show "plcf_10_unpack q (bs @ r) = Inr (True, p)"
    using v(1) f rs fits_mono [OF f(4), of 4]
    by (cases p; cases q) (simp add: bs plcf_10_unpack_def plcf_base_roundtrip [OF v(2) b0] Let_def
        field_simps_bits)
qed

lemma plcf_10_unpack_total: "5 \<le> length a \<Longrightarrow> \<exists>v q. plcf_10_unpack p a = Inr (v, q)"
  by (simp add: plcf_10_unpack_def rd_ok b2l_lower_def Let_def split_beta)

lemma plcf_20_valid_pool:
  "plcf_20_valid (p\<lparr>p20_feedback_info_pool := x\<rparr>) = plcf_20_valid p"
  by (simp add: plcf_20_valid_def)

lemma plcf_20_pack_Inr:
  "plcf_20_pack p = Inr bs \<Longrightarrow> plcf_20_valid p \<and> plcf_base_valid p"
  by (auto simp: plcf_20_pack_def plcf_base_pack_def bindE_eq_Inr)

lemma plcf_20_pack_unpack:
  assumes "plcf_20_pack p = Inr bs"
  shows "length bs = 10"
    and "plcf_20_unpack q (bs @ r) = Inr (True,
      p\<lparr>p20_feedback_info_pool := pool_received (p20_FeedbackFormat p)
           (p20_feedback_info_pool p) (p20_feedback_info_pool q)\<rparr>)"
proof -
  have v: "plcf_20_valid p" "plcf_base_valid p"
    using plcf_20_pack_Inr [OF assms] by auto
  then obtain b0 where b0: "plcf_base_pack p = Inr b0"
    by (simp add: plcf_base_pack_def)
  have dfmcs: "\<not> 11 < DFMCS p"
    using v(1) by (auto simp: plcf_20_valid_def split: if_splits)
  then have "DFMCS p \<le> 15" by (simp add: word_le_nat_alt not_less)
  then have f: "fits 8 (p20_ShortNetworkID p)" "fits (8 * 2) (p20_TransmitterIdentity p)"
      "fits 4 (TransmitPower p)" "fits 4 (DFMCS p)" "fits (8 * 2) (p20_ReceiverIdentity p)"
      "fits 2 (p20_NumberOfSpatialStreams p)" "fits 2 (p20_DFRedundancyVersion p)"
      "fits 1 (p20_DFNewDataIndication p)" "fits 3 (p20_DFHARQProcessNumber p)"
      "fits 4 (p20_FeedbackFormat p)"
    using v(1) is_valid_ShortNetworkID_fits is_valid_ShortRadioDeviceID_fits
    by (auto simp: plcf_20_valid_def field_simps_bits not_less split: if_splits)
  obtain b8 b9 where fb: "feedback_pack (p20_feedback_info_pool p) (p20_FeedbackFormat p)
      (to_byte (push_bit 4 (p20_FeedbackFormat p))) = Inr (b8, b9)"
    and bs: "bs = [b0, to_byte (p20_ShortNetworkID p)] @ l2b_lower (p20_TransmitterIdentity p) 2
      @ [to_byte (push_bit 4 (TransmitPower p)) OR to_byte (DFMCS p)]
      @ l2b_lower (p20_ReceiverIdentity p) 2
      @ [to_byte (push_bit 6 (p20_NumberOfSpatialStreams p))
           OR to_byte (push_bit 4 (p20_DFRedundancyVersion p))
           OR to_byte (push_bit 3 (p20_DFNewDataIndication p))
           OR to_byte (p20_DFHARQProcessNumber p), b8, b9]"
    using assms v b0 by (auto simp: plcf_20_pack_def bindE_eq_Inr)
  show "length bs = 10" by (simp add: bs)
  have fmt: "fld 4 4 (ucast b8) = p20_FeedbackFormat p"
    using feedback_roundtrip(2) [OF fb] f by (simp add: field_simps_bits)
  note fbr = feedback_roundtrip(1) [OF fb]
  have w: "plcf_20_valid (p\<lparr>p20_feedback_info_pool := x\<rparr>)" for x
    using v(1) by (simp only: plcf_20_valid_pool)
  show "plcf_20_unpack q (bs @ r) = Inr (True,
      p\<lparr>p20_feedback_info_pool := pool_received (p20_FeedbackFormat p)
           (p20_feedback_info_pool p) (p20_feedback_info_pool q)\<rparr>)"
    using w [of "pool_received (p20_FeedbackFormat p)
           (p20_feedback_info_pool p) (p20_feedback_info_pool q)"] f fbr fmt
      fits_mono [OF f(8), of 3] fits_mono [OF f(9), of 4] fits_mono [OF f(9), of 6]
    by (cases p; cases q) (simp add: bs plcf_20_unpack_def plcf_base_roundtrip [OF v(2) b0]
        Let_def field_simps_bits f [THEN fits_mono])
qed

lemma plcf_20_unpack_total: "10 \<le> length a \<Longrightarrow> \<exists>v q. plcf_20_unpack p a = Inr (v, q)"
  by (simp add: plcf_20_unpack_def rd_ok b2l_lower_def Let_def split_beta)

lemma plcf_21_valid_pool:
  "plcf_21_valid (p\<lparr>p21_feedback_info_pool := x\<rparr>) = plcf_21_valid p"
  by (simp add: plcf_21_valid_def)

lemma plcf_21_pack_Inr:
  "plcf_21_pack p = Inr bs \<Longrightarrow> plcf_21_valid p \<and> plcf_base_valid p"
  by (auto simp: plcf_21_pack_def plcf_base_pack_def bindE_eq_Inr)

lemma plcf_21_pack_unpack:
  assumes "plcf_21_pack p = Inr bs"
  shows "length bs = 10"
    and "plcf_21_unpack q (bs @ r) = Inr (True,
      p\<lparr>p21_feedback_info_pool := pool_received (p21_FeedbackFormat p)
           (p21_feedback_info_pool p) (p21_feedback_info_pool q)\<rparr>)"
proof -
  have v: "plcf_21_valid p" "plcf_base_valid p"
    using plcf_21_pack_Inr [OF assms] by auto
  then obtain b0 where b0: "plcf_base_pack p = Inr b0"
    by (simp add: plcf_base_pack_def)
  have dfmcs: "\<not> 11 < DFMCS p"
    using v(1) by (auto simp: plcf_21_valid_def split: if_splits)
  then have "DFMCS p \<le> 15" by (simp add: word_le_nat_alt not_less)
  then have f: "fits 8 (p21_ShortNetworkID p)" "fits (8 * 2) (p21_TransmitterIdentity p)"
      "fits 4 (TransmitPower p)" "fits 4 (DFMCS p)" "fits (8 * 2) (p21_ReceiverIdentity p)"
      "fits 2 (p21_NumberOfSpatialStreams p)" "fits 4 (p21_FeedbackFormat p)"
    and rs: "p21_Reserved p = 0"
    using v(1) is_valid_ShortNetworkID_fits is_valid_ShortRadioDeviceID_fits
    by (auto simp: plcf_21_valid_def field_simps_bits not_less split: if_splits)
  obtain b8 b9 where fb: "feedback_pack (p21_feedback_info_pool p) (p21_FeedbackFormat p)
      (to_byte (push_bit 4 (p21_FeedbackFormat p))) = Inr (b8, b9)"
    and bs: "bs = [b0, to_byte (p21_ShortNetworkID p)] @ l2b_lower (p21_TransmitterIdentity p) 2
      @ [to_byte (push_bit 4 (TransmitPower p)) OR to_byte (DFMCS p)]
      @ l2b_lower (p21_ReceiverIdentity p) 2
      @ [to_byte (push_bit 6 (p21_NumberOfSpatialStreams p)), b8, b9]"
    using assms v b0 rs by (auto simp: plcf_21_pack_def bindE_eq_Inr)
  show "length bs = 10" by (simp add: bs)
  have fmt: "fld 4 4 (ucast b8) = p21_FeedbackFormat p"
    using feedback_roundtrip(2) [OF fb] f by (simp add: field_simps_bits)
  note fbr = feedback_roundtrip(1) [OF fb]
  have w: "plcf_21_valid (p\<lparr>p21_feedback_info_pool := x\<rparr>)" for x
    using v(1) by (simp only: plcf_21_valid_pool)
  show "plcf_21_unpack q (bs @ r) = Inr (True,
      p\<lparr>p21_feedback_info_pool := pool_received (p21_FeedbackFormat p)
           (p21_feedback_info_pool p) (p21_feedback_info_pool q)\<rparr>)"
    using w [of "pool_received (p21_FeedbackFormat p)
           (p21_feedback_info_pool p) (p21_feedback_info_pool q)"] f rs fbr fmt
    by (cases p; cases q) (simp add: bs plcf_21_unpack_def plcf_base_roundtrip [OF v(2) b0]
        Let_def field_simps_bits f [THEN fits_mono])
qed

lemma plcf_21_unpack_total: "10 \<le> length a \<Longrightarrow> \<exists>v q. plcf_21_unpack p a = Inr (v, q)"
  by (simp add: plcf_21_unpack_def rd_ok b2l_lower_def Let_def split_beta)


subsection \<open>The decoder of a packet's control fields\<close>

text \<open>
  \<open>plcf_decoder_t\<close> without the two \<open>fec_cfg_t\<close> it only stores. The arrays of base
  pointers are modelled by the case distinction on the header format they are indexed with;
  \<open>array_plcf_type1.size()\<close> is 1 and \<open>array_plcf_type2.size()\<close> is 2.
\<close>

record plcf_decoder =
  PacketLength_max :: u32
  mcs_index_max :: u32
  N_SS_max :: u32
  HeaderFormat_type1 :: u32
  pd_plcf_10 :: plcf_10
  HeaderFormat_type2 :: u32
  pd_plcf_20 :: plcf_20
  pd_plcf_21 :: plcf_21

datatype any_plcf = Plcf10 plcf_10 | Plcf20 plcf_20 | Plcf21 plcf_21

definition pd_set_configuration :: "plcf_decoder \<Rightarrow> plcf_decoder" where
  "pd_set_configuration d =
     d\<lparr>HeaderFormat_type1 := UNDEFINED_NUMERIC_32, HeaderFormat_type2 := UNDEFINED_NUMERIC_32\<rparr>"

definition check_rdc_limits :: "plcf_decoder \<Rightarrow> 'a plcf_base_scheme \<Rightarrow> u32 res \<Rightarrow> bool res" where
  "check_rdc_limits d p n_ss =
     (if PacketLength_max d < get_PacketLength p \<or> mcs_index_max d < DFMCS p then Inr False
      else bindE n_ss (\<lambda>n. Inr (\<not> N_SS_max d < n)))"

definition decode_and_rdc_check :: "plcf_decoder \<Rightarrow> u32 \<Rightarrow> bytes \<Rightarrow> plcf_decoder res" where
  "decode_and_rdc_check d PLCF_type a =
     assertE (PLCF_type = 1 \<or> PLCF_type = 2) (
     bindE (rd a 0) (\<lambda>b0.
     let candidate = drop_bit 5 b0 AND 7 in
     if PLCF_type = 1 then
       assertE (HeaderFormat_type1 d = UNDEFINED_NUMERIC_32) (
       if 1 \<le> candidate then Inr d
       else bindE (plcf_10_unpack (pd_plcf_10 d) a) (\<lambda>(v, p).
            let d' = d\<lparr>pd_plcf_10 := p\<rparr> in
            if \<not> v then Inr d'
            else bindE (check_rdc_limits d p (Inr 1)) (\<lambda>ok.
                 Inr (if ok then d'\<lparr>HeaderFormat_type1 := candidate\<rparr> else d'))))
     else
       assertE (HeaderFormat_type2 d = UNDEFINED_NUMERIC_32) (
       if 2 \<le> candidate then Inr d
       else if candidate = 0
       then bindE (plcf_20_unpack (pd_plcf_20 d) a) (\<lambda>(v, p).
            let d' = d\<lparr>pd_plcf_20 := p\<rparr> in
            if \<not> v then Inr d'
            else bindE (check_rdc_limits d p (plcf_20_get_N_SS p)) (\<lambda>ok.
                 Inr (if ok then d'\<lparr>HeaderFormat_type2 := candidate\<rparr> else d')))
       else bindE (plcf_21_unpack (pd_plcf_21 d) a) (\<lambda>(v, p).
            let d' = d\<lparr>pd_plcf_21 := p\<rparr> in
            if \<not> v then Inr d'
            else bindE (check_rdc_limits d p (plcf_21_get_N_SS p)) (\<lambda>ok.
                 Inr (if ok then d'\<lparr>HeaderFormat_type2 := candidate\<rparr> else d'))))))"

definition has_any_plcf :: "plcf_decoder \<Rightarrow> u32" where
  "has_any_plcf d =
     (if HeaderFormat_type1 d \<noteq> UNDEFINED_NUMERIC_32 then 1 else 0)
   + (if HeaderFormat_type2 d \<noteq> UNDEFINED_NUMERIC_32 then 2 else 0)"

definition get_plcf_base :: "plcf_decoder \<Rightarrow> u32 \<Rightarrow> any_plcf option res" where
  "get_plcf_base d PLCF_type =
     assertE (PLCF_type = 1 \<or> PLCF_type = 2) (
     if PLCF_type = 1 then
       (if HeaderFormat_type1 d \<noteq> UNDEFINED_NUMERIC_32
        then bindE (array_at [(0, Plcf10 (pd_plcf_10 d))] (unat (HeaderFormat_type1 d)))
               (\<lambda>(fmt, p). assertE (HeaderFormat_type1 d = fmt) (Inr (Some p)))
        else Inr None)
     else
       (if HeaderFormat_type2 d \<noteq> UNDEFINED_NUMERIC_32
        then bindE (array_at [(0, Plcf20 (pd_plcf_20 d)), (1, Plcf21 (pd_plcf_21 d))]
                 (unat (HeaderFormat_type2 d)))
               (\<lambda>(fmt, p). assertE (HeaderFormat_type2 d = fmt) (Inr (Some p)))
        else Inr None))"

text \<open>What is packed for a control field of either type, and what the receiver requires of it.\<close>

fun plcf_pack :: "any_plcf \<Rightarrow> bytes res" where
  "plcf_pack (Plcf10 p) = plcf_10_pack p"
| "plcf_pack (Plcf20 p) = plcf_20_pack p"
| "plcf_pack (Plcf21 p) = plcf_21_pack p"

fun plcf_valid :: "any_plcf \<Rightarrow> bool" where
  "plcf_valid (Plcf10 p) \<longleftrightarrow> plcf_base_valid p \<and> plcf_10_valid p"
| "plcf_valid (Plcf20 p) \<longleftrightarrow> plcf_base_valid p \<and> plcf_20_valid p"
| "plcf_valid (Plcf21 p) \<longleftrightarrow> plcf_base_valid p \<and> plcf_21_valid p"

fun plcf_in_rdc :: "plcf_decoder \<Rightarrow> any_plcf \<Rightarrow> bool" where
  "plcf_in_rdc d (Plcf10 p) = (check_rdc_limits d p (Inr 1) = Inr True)"
| "plcf_in_rdc d (Plcf20 p) = (check_rdc_limits d p (plcf_20_get_N_SS p) = Inr True)"
| "plcf_in_rdc d (Plcf21 p) = (check_rdc_limits d p (plcf_21_get_N_SS p) = Inr True)"

definition plcf_type_bytes :: "u32 \<Rightarrow> nat" where
  "plcf_type_bytes PLCF_type = (if PLCF_type = 1 then 5 else 10)"

text \<open>
  The invariant of the decoder: a defined header format has an entry in its array, and the
  control field stored there is valid and within the limits of the radio device class.
\<close>

definition plcf_decoder_inv :: "plcf_decoder \<Rightarrow> bool" where
  "plcf_decoder_inv d \<longleftrightarrow>
     (HeaderFormat_type1 d \<noteq> UNDEFINED_NUMERIC_32 \<longrightarrow>
        HeaderFormat_type1 d = 0 \<and> plcf_valid (Plcf10 (pd_plcf_10 d))
        \<and> plcf_in_rdc d (Plcf10 (pd_plcf_10 d)))
   \<and> (HeaderFormat_type2 d \<noteq> UNDEFINED_NUMERIC_32 \<longrightarrow>
        (HeaderFormat_type2 d = 0 \<and> plcf_valid (Plcf20 (pd_plcf_20 d))
           \<and> plcf_in_rdc d (Plcf20 (pd_plcf_20 d)))
      \<or> (HeaderFormat_type2 d = 1 \<and> plcf_valid (Plcf21 (pd_plcf_21 d))
           \<and> plcf_in_rdc d (Plcf21 (pd_plcf_21 d))))"

lemma plcf_base_unpack_valid: "fst (plcf_base_unpack p b) = plcf_base_valid (snd (plcf_base_unpack p b))"
  by (simp add: plcf_base_unpack_def Let_def)

lemma plcf_10_unpack_True: "plcf_10_unpack p a = Inr (True, q) \<Longrightarrow> plcf_base_valid q \<and> plcf_10_valid q"
  by (auto simp: plcf_10_unpack_def bindE_eq_Inr Let_def split_beta plcf_base_unpack_valid plcf_base_valid_def
      split: if_splits)

lemma plcf_20_unpack_True: "plcf_20_unpack p a = Inr (True, q) \<Longrightarrow> plcf_base_valid q \<and> plcf_20_valid q"
  by (auto simp: plcf_20_unpack_def bindE_eq_Inr Let_def split_beta plcf_base_unpack_valid plcf_base_valid_def
      split: if_splits)

lemma plcf_21_unpack_True: "plcf_21_unpack p a = Inr (True, q) \<Longrightarrow> plcf_base_valid q \<and> plcf_21_valid q"
  by (auto simp: plcf_21_unpack_def bindE_eq_Inr Let_def split_beta plcf_base_unpack_valid plcf_base_valid_def
      split: if_splits)

lemma N_SS_code_in_range: "fits 2 c \<Longrightarrow> \<exists>n. array_at N_SS_coded_lut_rev (unat c) = Inr n"
  by (simp add: array_at_def N_SS_coded_lut_rev_def fits_iff_unat)

lemma valid_get_N_SS:
  "plcf_20_valid p \<Longrightarrow> \<exists>n. plcf_20_get_N_SS p = Inr n"
  "plcf_21_valid q \<Longrightarrow> \<exists>n. plcf_21_get_N_SS q = Inr n"
  by (auto simp: plcf_20_valid_def plcf_21_valid_def plcf_20_get_N_SS_def plcf_21_get_N_SS_def
      field_simps_bits intro!: N_SS_code_in_range split: if_splits)

lemma check_rdc_limits_Inr: "\<exists>n. r = Inr n \<Longrightarrow> \<exists>b. check_rdc_limits d p r = Inr b"
  by (auto simp: check_rdc_limits_def)

lemma drop_bit_5_byte: "drop_bit 5 (ucast (b :: u8)) AND 7 = (drop_bit 5 (ucast b) :: u32)"
  by (simp add: field_simps_bits)

lemma not_one_le: "\<not> (1 :: u32) \<le> c \<longleftrightarrow> c = 0"
  by (simp add: not_le)

lemma not_two_le: "\<not> (2 :: u32) \<le> c \<longleftrightarrow> c = 0 \<or> c = 1"
proof -
  have "\<not> 2 \<le> c \<longleftrightarrow> unat c = 0 \<or> unat c = 1"
    by (auto simp: word_le_nat_alt)
  then show ?thesis by (simp only: word_unat_eq_iff unsigned_0 unsigned_1)
qed

lemma decode_total:
  assumes "PLCF_type = 1 \<and> HeaderFormat_type1 d = UNDEFINED_NUMERIC_32
         \<or> PLCF_type = 2 \<and> HeaderFormat_type2 d = UNDEFINED_NUMERIC_32"
    and "plcf_type_bytes PLCF_type \<le> length a"
  shows "\<exists>d'. decode_and_rdc_check d PLCF_type a = Inr d'"
proof (cases "PLCF_type = 1")
  case True
  with assms have l: "5 \<le> length a" by (simp add: plcf_type_bytes_def)
  obtain v p where "plcf_10_unpack (pd_plcf_10 d) a = Inr (v, p)"
    using plcf_10_unpack_total [OF l] by blast
  moreover obtain b where "check_rdc_limits d p (Inr 1) = Inr b"
    using check_rdc_limits_Inr [of "Inr 1"] by blast
  ultimately show ?thesis
    using True assms(1) l by (auto simp: decode_and_rdc_check_def rd_ok Let_def)
next
  case False
  with assms have l: "10 \<le> length a" by (auto simp: plcf_type_bytes_def)
  obtain v p where p: "plcf_20_unpack (pd_plcf_20 d) a = Inr (v, p)"
    using plcf_20_unpack_total [OF l] by blast
  obtain w q where q: "plcf_21_unpack (pd_plcf_21 d) a = Inr (w, q)"
    using plcf_21_unpack_total [OF l] by blast
  have "v \<Longrightarrow> \<exists>b. check_rdc_limits d p (plcf_20_get_N_SS p) = Inr b"
    using p by (intro check_rdc_limits_Inr valid_get_N_SS) (auto dest: plcf_20_unpack_True)
  moreover have "w \<Longrightarrow> \<exists>b. check_rdc_limits d q (plcf_21_get_N_SS q) = Inr b"
    using q by (intro check_rdc_limits_Inr valid_get_N_SS) (auto dest: plcf_21_unpack_True)
  ultimately show ?thesis
    using False assms(1) l p q
    by (cases v; cases w) (auto simp: decode_and_rdc_check_def rd_ok Let_def)
qed

lemma check_rdc_limits_cong:
  "PacketLength_max d' = PacketLength_max d \<Longrightarrow> mcs_index_max d' = mcs_index_max d \<Longrightarrow>
   N_SS_max d' = N_SS_max d \<Longrightarrow> check_rdc_limits d' p r = check_rdc_limits d p r"
  by (simp add: check_rdc_limits_def)

text \<open>The ways in which decoding a control field changes the decoder.\<close>

lemma decode_type1_cases:
  assumes "decode_and_rdc_check d 1 a = Inr d'"
  obtains "d' = d"
  | p where "HeaderFormat_type1 d = UNDEFINED_NUMERIC_32" "d' = d\<lparr>pd_plcf_10 := p\<rparr>"
  | p where "d' = d\<lparr>pd_plcf_10 := p, HeaderFormat_type1 := 0\<rparr>"
      "plcf_10_unpack (pd_plcf_10 d) a = Inr (True, p)" "plcf_in_rdc d (Plcf10 p)"
  using assms
  by (force simp: decode_and_rdc_check_def bindE_eq_Inr Let_def not_one_le split: if_splits)

lemma decode_type2_cases:
  assumes "decode_and_rdc_check d 2 a = Inr d'"
  obtains "d' = d"
  | p where "HeaderFormat_type2 d = UNDEFINED_NUMERIC_32" "d' = d\<lparr>pd_plcf_20 := p\<rparr>"
  | p where "d' = d\<lparr>pd_plcf_20 := p, HeaderFormat_type2 := 0\<rparr>"
      "plcf_20_unpack (pd_plcf_20 d) a = Inr (True, p)" "plcf_in_rdc d (Plcf20 p)"
  | p where "HeaderFormat_type2 d = UNDEFINED_NUMERIC_32" "d' = d\<lparr>pd_plcf_21 := p\<rparr>"
  | p where "d' = d\<lparr>pd_plcf_21 := p, HeaderFormat_type2 := 1\<rparr>"
      "plcf_21_unpack (pd_plcf_21 d) a = Inr (True, p)" "plcf_in_rdc d (Plcf21 p)"
proof -
  obtain b0 where u: "HeaderFormat_type2 d = UNDEFINED_NUMERIC_32" and b0: "rd a 0 = Inr b0"
    using assms by (auto simp: decode_and_rdc_check_def bindE_eq_Inr Let_def)
  let ?c = "drop_bit 5 b0 AND 7"
  consider "2 \<le> ?c" | "?c = 0" | "?c = 1"
    using not_two_le by blast
  then show ?thesis
  proof cases
    case 1
    then show ?thesis
      using assms b0 u that(1) by (simp add: decode_and_rdc_check_def Let_def)
  next
    case 2
    obtain v p where p: "plcf_20_unpack (pd_plcf_20 d) a = Inr (v, p)"
      using assms b0 u 2 by (auto simp: decode_and_rdc_check_def bindE_eq_Inr Let_def)
    show ?thesis
    proof (cases "v \<and> check_rdc_limits d p (plcf_20_get_N_SS p) = Inr True")
      case True
      then show ?thesis
        using assms b0 u 2 p by (intro that(3)) (auto simp: decode_and_rdc_check_def Let_def)
    next
      case False
      then show ?thesis
        using assms b0 u 2 p
        by (intro that(2) [of p])
          (auto simp: decode_and_rdc_check_def bindE_eq_Inr Let_def split: if_splits)
    qed
  next
    case 3
    then have n: "\<not> 2 \<le> ?c" "?c \<noteq> 0"
      using not_two_le [of ?c] by simp_all
    obtain v p where p: "plcf_21_unpack (pd_plcf_21 d) a = Inr (v, p)"
      using assms b0 u n by (auto simp: decode_and_rdc_check_def bindE_eq_Inr Let_def)
    show ?thesis
    proof (cases "v \<and> check_rdc_limits d p (plcf_21_get_N_SS p) = Inr True")
      case True
      then show ?thesis
        using assms b0 u n 3 p by (intro that(5)) (auto simp: decode_and_rdc_check_def Let_def)
    next
      case False
      then show ?thesis
        using assms b0 u n 3 p
        by (intro that(4) [of p])
          (auto simp: decode_and_rdc_check_def bindE_eq_Inr Let_def split: if_splits)
    qed
  qed
qed

lemma decode_type: "decode_and_rdc_check d t a = Inr d' \<Longrightarrow> t = 1 \<or> t = 2"
  by (auto simp: decode_and_rdc_check_def)

lemma decode_inv:
  assumes "plcf_decoder_inv d" and d': "decode_and_rdc_check d t a = Inr d'"
  shows "plcf_decoder_inv d'"
  using decode_type [OF d']
proof
  assume "t = 1"
  with d' have "decode_and_rdc_check d 1 a = Inr d'" by simp
  then show ?thesis
    using assms(1) by (cases rule: decode_type1_cases)
      (auto simp: plcf_decoder_inv_def check_rdc_limits_def split: if_splits
        dest: plcf_10_unpack_True)
next
  assume "t = 2"
  with d' have "decode_and_rdc_check d 2 a = Inr d'" by simp
  then show ?thesis
    using assms(1) by (cases rule: decode_type2_cases)
      (auto simp: plcf_decoder_inv_def check_rdc_limits_def split: if_splits
        dest: plcf_20_unpack_True plcf_21_unpack_True)
qed

lemma get_plcf_base_inv:
  assumes "plcf_decoder_inv d"
  shows "HeaderFormat_type1 d \<noteq> UNDEFINED_NUMERIC_32 \<Longrightarrow>
           \<exists>p. get_plcf_base d 1 = Inr (Some p) \<and> plcf_valid p \<and> plcf_in_rdc d p"
    and "HeaderFormat_type2 d \<noteq> UNDEFINED_NUMERIC_32 \<Longrightarrow>
           \<exists>p. get_plcf_base d 2 = Inr (Some p) \<and> plcf_valid p \<and> plcf_in_rdc d p"
    and "HeaderFormat_type1 d = UNDEFINED_NUMERIC_32 \<Longrightarrow> get_plcf_base d 1 = Inr None"
    and "HeaderFormat_type2 d = UNDEFINED_NUMERIC_32 \<Longrightarrow> get_plcf_base d 2 = Inr None"
  using assms by (auto simp: plcf_decoder_inv_def get_plcf_base_def array_at_def)

lemma header_format_byte:
  "plcf_base_pack p = Inr b \<Longrightarrow> drop_bit 5 (ucast b) AND 7 = HeaderFormat p"
  using plcf_base_roundtrip [of p b p] plcf_base_pack_Inr [of p b]
  by (cases p) (auto simp: plcf_base_unpack_def drop_bit_5_byte Let_def)

text \<open>A transmitted control field within the limits is found by the receiver's decoder.\<close>

lemma decode_plcf_10:
  assumes "plcf_10_pack p = Inr bs" and "plcf_in_rdc d (Plcf10 p)"
    and "HeaderFormat_type1 d = UNDEFINED_NUMERIC_32"
  shows "decode_and_rdc_check d 1 (bs @ r) = Inr (d\<lparr>pd_plcf_10 := p, HeaderFormat_type1 := 0\<rparr>)"
proof -
  obtain b0 rest where b0: "plcf_base_pack p = Inr b0" and bs: "bs = b0 # rest"
    using assms(1) by (auto simp: plcf_10_pack_def bindE_eq_Inr)
  have "HeaderFormat p = 0"
    using plcf_10_pack_Inr [OF assms(1)] by (auto simp: plcf_10_valid_def split: if_splits)
  then show ?thesis
    using plcf_10_pack_unpack(2) [OF assms(1), of "pd_plcf_10 d" r] header_format_byte [OF b0]
      assms(2,3)
    by (simp add: decode_and_rdc_check_def bs Let_def)
qed

lemma plcf_in_rdc_pool [simp]:
  "plcf_in_rdc d (Plcf20 (p\<lparr>p20_feedback_info_pool := x\<rparr>)) = plcf_in_rdc d (Plcf20 p)"
  "plcf_in_rdc d (Plcf21 (q\<lparr>p21_feedback_info_pool := x\<rparr>)) = plcf_in_rdc d (Plcf21 q)"
  by (simp_all add: check_rdc_limits_def plcf_20_get_N_SS_def plcf_21_get_N_SS_def
      get_PacketLength_def)

lemma decode_plcf_20:
  assumes "plcf_20_pack p = Inr bs" and "plcf_in_rdc d (Plcf20 p)"
    and "HeaderFormat_type2 d = UNDEFINED_NUMERIC_32"
  shows "decode_and_rdc_check d 2 (bs @ r) = Inr (d\<lparr>pd_plcf_20 :=
     p\<lparr>p20_feedback_info_pool := pool_received (p20_FeedbackFormat p) (p20_feedback_info_pool p)
          (p20_feedback_info_pool (pd_plcf_20 d))\<rparr>, HeaderFormat_type2 := 0\<rparr>)"
proof -
  obtain b0 rest where b0: "plcf_base_pack p = Inr b0" and bs: "bs = b0 # rest"
    using assms(1) by (auto simp: plcf_20_pack_def bindE_eq_Inr)
  have "HeaderFormat p = 0"
    using plcf_20_pack_Inr [OF assms(1)] by (auto simp: plcf_20_valid_def split: if_splits)
  then show ?thesis
    using plcf_20_pack_unpack(2) [OF assms(1), of "pd_plcf_20 d" r] header_format_byte [OF b0]
      assms(2,3) plcf_in_rdc_pool(1) [where d = d and p = p]
    by (simp add: decode_and_rdc_check_def bs Let_def del: plcf_in_rdc_pool)
qed

lemma decode_plcf_21:
  assumes "plcf_21_pack p = Inr bs" and "plcf_in_rdc d (Plcf21 p)"
    and "HeaderFormat_type2 d = UNDEFINED_NUMERIC_32"
  shows "decode_and_rdc_check d 2 (bs @ r) = Inr (d\<lparr>pd_plcf_21 :=
     p\<lparr>p21_feedback_info_pool := pool_received (p21_FeedbackFormat p) (p21_feedback_info_pool p)
          (p21_feedback_info_pool (pd_plcf_21 d))\<rparr>, HeaderFormat_type2 := 1\<rparr>)"
proof -
  obtain b0 rest where b0: "plcf_base_pack p = Inr b0" and bs: "bs = b0 # rest"
    using assms(1) by (auto simp: plcf_21_pack_def bindE_eq_Inr)
  have two: "\<not> (2 :: u32) \<le> 1" by (simp add: word_le_nat_alt)
  have "HeaderFormat p = 1"
    using plcf_21_pack_Inr [OF assms(1)] by (auto simp: plcf_21_valid_def split: if_splits)
  then show ?thesis
    using plcf_21_pack_unpack(2) [OF assms(1), of "pd_plcf_21 d" r] header_format_byte [OF b0]
      assms(2,3) plcf_in_rdc_pool(2) [where d = d and q = p]
    by (simp add: decode_and_rdc_check_def bs Let_def two del: plcf_in_rdc_pool)
qed

end
