(* ===== verification/Mac_Header.thy ===== *)
theory Mac_Header
  imports Identity Packing
begin

text \<open>
  \<open>sections_part4/mac_pdu/mac_header_type\<close> and \<open>mac_common_header\<close>: the first header
  octet of every MAC PDU and the MAC common headers that follow it.
\<close>

subsection \<open>MAC header type\<close>

datatype version_ec = Version_not_defined | v00

datatype mac_security_ec =
  Security_not_defined | macsec_not_used | macsec_used_no_ie | macsec_used_with_ie
| macsec_reserved

datatype mac_header_type_ec =
  Type_not_defined | DATA_MAC_PDU | Beacon | Unicast | RD_Broadcasting | mch_empty | Escape

fun version_code :: "version_ec \<Rightarrow> u32" where
  "version_code Version_not_defined = UNDEFINED_NUMERIC_32"
| "version_code v00 = 0"

fun mac_security_code :: "mac_security_ec \<Rightarrow> u32" where
  "mac_security_code Security_not_defined = UNDEFINED_NUMERIC_32"
| "mac_security_code macsec_not_used = 0"
| "mac_security_code macsec_used_no_ie = 1"
| "mac_security_code macsec_used_with_ie = 2"
| "mac_security_code macsec_reserved = 3"

fun mac_header_type_code :: "mac_header_type_ec \<Rightarrow> u32" where
  "mac_header_type_code Type_not_defined = UNDEFINED_NUMERIC_32"
| "mac_header_type_code DATA_MAC_PDU = 0"
| "mac_header_type_code Beacon = 1"
| "mac_header_type_code Unicast = 2"
| "mac_header_type_code RD_Broadcasting = 3"
| "mac_header_type_code mch_empty = 4"
| "mac_header_type_code Escape = 15"

definition get_version_ec :: "u32 \<Rightarrow> version_ec" where
  "get_version_ec v = (if v = 0 then v00 else Version_not_defined)"

definition get_mac_security_ec :: "u32 \<Rightarrow> mac_security_ec" where
  "get_mac_security_ec v =
     (if v \<le> 3
      then [macsec_not_used, macsec_used_no_ie, macsec_used_with_ie, macsec_reserved] ! unat v
      else Security_not_defined)"

definition get_mac_header_type_ec :: "u32 \<Rightarrow> mac_header_type_ec" where
  "get_mac_header_type_ec v =
     (if v \<le> 4 then [DATA_MAC_PDU, Beacon, Unicast, RD_Broadcasting, mch_empty] ! unat v
      else Type_not_defined)"

record mac_header_type =
  mht_Version :: version_ec
  mht_MAC_security :: mac_security_ec
  mht_MAC_header_type :: mac_header_type_ec

definition mht_zero :: mac_header_type where
  "mht_zero = \<lparr>mht_Version = Version_not_defined, mht_MAC_security = Security_not_defined,
     mht_MAC_header_type = Type_not_defined\<rparr>"

definition mht_valid :: "mac_header_type \<Rightarrow> bool" where
  "mht_valid h =
     (if mht_Version h = Version_not_defined then False
      else if mht_MAC_security h = Security_not_defined then False
      else if mht_MAC_header_type h = Type_not_defined then False
      else True)"

definition mht_pack :: "mac_header_type \<Rightarrow> bytes res" where
  "mht_pack h = assertE (mht_valid h) (Inr
     [to_byte (push_bit 6 (version_code (mht_Version h)))
      OR to_byte (push_bit 4 (mac_security_code (mht_MAC_security h)))
      OR to_byte (mac_header_type_code (mht_MAC_header_type h))])"

definition mht_unpack :: "bytes \<Rightarrow> (bool \<times> mac_header_type) res" where
  "mht_unpack a =
     bindE (rd a 0) (\<lambda>b.
     let h = \<lparr>mht_Version = get_version_ec (drop_bit 6 b AND 3),
              mht_MAC_security = get_mac_security_ec (drop_bit 4 b AND 3),
              mht_MAC_header_type = get_mac_header_type_ec (b AND 15)\<rparr>
     in Inr (mht_valid h, h))"

lemma mac_security_fits: "s \<noteq> Security_not_defined \<Longrightarrow> fits 2 (mac_security_code s)"
  by (cases s) (simp_all flip: fits_le_numeral)

lemma mac_header_type_fits: "t \<noteq> Type_not_defined \<Longrightarrow> fits 4 (mac_header_type_code t)"
  by (cases t) (simp_all flip: fits_le_numeral)

lemma get_mac_security_code:
  "s \<noteq> Security_not_defined \<Longrightarrow> get_mac_security_ec (mac_security_code s) = s"
  by (cases s) (simp_all add: get_mac_security_ec_def)

lemma get_mac_header_type_code:
  "t \<noteq> Type_not_defined \<Longrightarrow> t \<noteq> Escape \<Longrightarrow>
     get_mac_header_type_ec (mac_header_type_code t) = t"
  by (cases t) (simp_all add: get_mac_header_type_ec_def)

lemma mht_roundtrip:
  assumes "mht_valid h" and "mht_MAC_header_type h \<noteq> Escape" and "mht_pack h = Inr bs"
  shows "mht_unpack (bs @ r) = Inr (True, h)"
proof (cases h)
  case (fields v s t)
  have s: "s \<noteq> Security_not_defined" and t: "t \<noteq> Type_not_defined" and v: "v = v00"
    using assms(1) fields by (cases v; auto simp: mht_valid_def split: if_splits)+
  note f = mac_security_fits [OF s] mac_header_type_fits [OF t]
  show ?thesis
    using assms s t v unfolding fields
    by (auto simp: mht_pack_def mht_unpack_def field_simps_bits f [THEN fits_mono] Let_def
        get_mac_security_code get_mac_header_type_code get_version_ec_def)
qed

interpretation mht: fixed_packing
  "\<lambda>h. mht_valid h \<and> mht_MAC_header_type h \<noteq> Escape" "\<lambda>_. 1" mht_pack mht_unpack 1
proof unfold_locales
  show "mht_valid m \<and> mht_MAC_header_type m \<noteq> Escape \<Longrightarrow>
      \<exists>bs. mht_pack m = Inr bs \<and> length bs = 1" for m
    by (simp add: mht_pack_def)
  show "\<exists>v m. mht_unpack a = Inr (v, m)" if "1 \<le> length a" for a
    using that by (simp add: mht_unpack_def rd_ok Let_def)
qed (auto intro: mht_roundtrip)

subsection \<open>MAC common headers\<close>

record data_mac_pdu_header =
  dh_Reserved :: u32
  dh_Reset :: u32
  dh_Sequence_number :: u32

definition dh_zero :: data_mac_pdu_header where
  "dh_zero = \<lparr>dh_Reserved = 0, dh_Reset = 0, dh_Sequence_number = 0\<rparr>"

definition dh_valid :: "data_mac_pdu_header \<Rightarrow> bool" where
  "dh_valid h =
     (if dh_Reserved h \<noteq> 0 then False
      else if 1 < dh_Reset h then False
      else if bitmask_lsb 12 < dh_Sequence_number h then False
      else True)"

definition dh_pack :: "data_mac_pdu_header \<Rightarrow> bytes res" where
  "dh_pack h = assertE (dh_valid h) (Inr
     [to_byte (push_bit 5 (dh_Reserved h)) OR to_byte (push_bit 4 (dh_Reset h))
        OR to_byte (drop_bit 8 (dh_Sequence_number h)),
      to_byte (dh_Sequence_number h AND bitmask_lsb 8)])"

definition dh_unpack :: "bytes \<Rightarrow> (bool \<times> data_mac_pdu_header) res" where
  "dh_unpack a =
     bindE (rd a 0) (\<lambda>b0.
     bindE (rd a 1) (\<lambda>b1.
     let h = \<lparr>dh_Reserved = drop_bit 5 b0 AND 7, dh_Reset = drop_bit 4 b0 AND 1,
              dh_Sequence_number = push_bit 8 (b0 AND 15) + b1\<rparr>
     in Inr (dh_valid h, h)))"

record beacon_header =
  bh_Network_ID_3_lsb :: u32
  bh_Transmitter_Address :: u32

definition bh_zero :: beacon_header where
  "bh_zero = \<lparr>bh_Network_ID_3_lsb = 0, bh_Transmitter_Address = 0\<rparr>"

definition bh_valid :: "beacon_header \<Rightarrow> bool" where
  "bh_valid h =
     (if bitmask_lsb 24 < bh_Network_ID_3_lsb h then False
      else if \<not> is_valid_LongRadioDeviceID (bh_Transmitter_Address h) then False
      else True)"

definition bh_pack :: "beacon_header \<Rightarrow> bytes res" where
  "bh_pack h = assertE (bh_valid h) (Inr
     (l2b_upper (bh_Network_ID_3_lsb h) 3 @ l2b_lower (bh_Transmitter_Address h) 4))"

definition bh_unpack :: "bytes \<Rightarrow> (bool \<times> beacon_header) res" where
  "bh_unpack a =
     bindE (b2l_upper a 0 3) (\<lambda>nid.
     bindE (b2l_lower a 3 4) (\<lambda>ta.
     let h = \<lparr>bh_Network_ID_3_lsb = nid, bh_Transmitter_Address = ta\<rparr>
     in Inr (bh_valid h, h)))"

definition set_Network_ID_3_lsb :: "u32 \<Rightarrow> beacon_header \<Rightarrow> beacon_header" where
  "set_Network_ID_3_lsb nid h = h\<lparr>bh_Network_ID_3_lsb := nid AND bitmask_lsb 24\<rparr>"

record unicast_header =
  uh_Reserved :: u32
  uh_Reset :: u32
  uh_Sequence_number :: u32
  uh_Receiver_Address :: u32
  uh_Transmitter_Address :: u32

definition uh_zero :: unicast_header where
  "uh_zero = \<lparr>uh_Reserved = 0, uh_Reset = 0, uh_Sequence_number = 0, uh_Receiver_Address = 0,
     uh_Transmitter_Address = 0\<rparr>"

definition uh_valid :: "unicast_header \<Rightarrow> bool" where
  "uh_valid h =
     (if uh_Reserved h \<noteq> 0 then False
      else if 1 < uh_Reset h then False
      else if bitmask_lsb 12 < uh_Sequence_number h then False
      else if \<not> is_valid_LongRadioDeviceID (uh_Transmitter_Address h) then False
      else if \<not> is_valid_LongRadioDeviceID (uh_Receiver_Address h) then False
      else True)"

definition uh_pack :: "unicast_header \<Rightarrow> bytes res" where
  "uh_pack h = assertE (uh_valid h) (Inr
     ([to_byte (push_bit 5 (uh_Reserved h)) OR to_byte (push_bit 4 (uh_Reset h))
         OR to_byte (drop_bit 8 (uh_Sequence_number h)),
       to_byte (uh_Sequence_number h AND bitmask_lsb 8)]
      @ l2b_lower (uh_Receiver_Address h) 4 @ l2b_lower (uh_Transmitter_Address h) 4))"

definition uh_unpack :: "bytes \<Rightarrow> (bool \<times> unicast_header) res" where
  "uh_unpack a =
     bindE (rd a 0) (\<lambda>b0.
     bindE (rd a 1) (\<lambda>b1.
     bindE (b2l_lower a 2 4) (\<lambda>ra.
     bindE (b2l_lower a 6 4) (\<lambda>ta.
     let h = \<lparr>uh_Reserved = drop_bit 5 b0 AND 7, uh_Reset = drop_bit 4 b0 AND 1,
              uh_Sequence_number = push_bit 8 (b0 AND 15) + b1,
              uh_Receiver_Address = ra, uh_Transmitter_Address = ta\<rparr>
     in Inr (uh_valid h, h)))))"

record rd_broadcasting_header =
  rh_Reserved :: u32
  rh_Reset :: u32
  rh_Sequence_number :: u32
  rh_Transmitter_Address :: u32

definition rh_zero :: rd_broadcasting_header where
  "rh_zero = \<lparr>rh_Reserved = 0, rh_Reset = 0, rh_Sequence_number = 0,
     rh_Transmitter_Address = 0\<rparr>"

definition rh_valid :: "rd_broadcasting_header \<Rightarrow> bool" where
  "rh_valid h =
     (if rh_Reserved h \<noteq> 0 then False
      else if 1 < rh_Reset h then False
      else if bitmask_lsb 12 < rh_Sequence_number h then False
      else if \<not> is_valid_LongRadioDeviceID (rh_Transmitter_Address h) then False
      else True)"

definition rh_pack :: "rd_broadcasting_header \<Rightarrow> bytes res" where
  "rh_pack h = assertE (rh_valid h) (Inr
     ([to_byte (push_bit 5 (rh_Reserved h)) OR to_byte (push_bit 4 (rh_Reset h))
         OR to_byte (drop_bit 8 (rh_Sequence_number h)),
       to_byte (rh_Sequence_number h AND bitmask_lsb 8)]
      @ l2b_lower (rh_Transmitter_Address h) 4))"

definition rh_unpack :: "bytes \<Rightarrow> (bool \<times> rd_broadcasting_header) res" where
  "rh_unpack a =
     bindE (rd a 0) (\<lambda>b0.
     bindE (rd a 1) (\<lambda>b1.
     bindE (b2l_lower a 2 4) (\<lambda>ta.
     let h = \<lparr>rh_Reserved = drop_bit 5 b0 AND 7, rh_Reset = drop_bit 4 b0 AND 1,
              rh_Sequence_number = push_bit 8 (b0 AND 15) + b1, rh_Transmitter_Address = ta\<rparr>
     in Inr (rh_valid h, h))))"

lemma dh_roundtrip: "dh_valid h \<Longrightarrow> dh_pack h = Inr bs \<Longrightarrow> dh_unpack (bs @ r) = Inr (True, h)"
proof (cases h)
  case (fields res reset sn)
  assume a: "dh_valid h" "dh_pack h = Inr bs"
  then have z: "res = 0" and f: "fits 1 reset" "fits 12 sn"
    using fields by (auto simp: dh_valid_def field_simps_bits not_less split: if_splits)
  show ?thesis
    using a z f unfolding fields
    by (auto simp: dh_pack_def dh_unpack_def field_simps_bits f [THEN fits_mono] Let_def)
qed

interpretation dh: fixed_packing dh_valid "\<lambda>_. 2" dh_pack dh_unpack 2
proof unfold_locales
  show "\<exists>v m. dh_unpack a = Inr (v, m)" if "2 \<le> length a" for a
    using that by (simp add: dh_unpack_def rd_ok Let_def)
qed (auto intro: dh_roundtrip simp: dh_pack_def)

lemma uh_roundtrip: "uh_valid h \<Longrightarrow> uh_pack h = Inr bs \<Longrightarrow> uh_unpack (bs @ r) = Inr (True, h)"
proof (cases h)
  case (fields res reset sn ra ta)
  assume a: "uh_valid h" "uh_pack h = Inr bs"
  then have z: "res = 0" and f: "fits 1 reset" "fits 12 sn"
    using fields by (auto simp: uh_valid_def field_simps_bits not_less split: if_splits)
  show ?thesis
    using a z f unfolding fields
    by (auto simp: uh_pack_def uh_unpack_def field_simps_bits f [THEN fits_mono] Let_def)
qed

interpretation uh: fixed_packing uh_valid "\<lambda>_. 10" uh_pack uh_unpack 10
proof unfold_locales
  show "\<exists>v m. uh_unpack a = Inr (v, m)" if "10 \<le> length a" for a
    using that
    by (simp add: uh_unpack_def rd_ok b2l_lower_def Let_def)
qed (auto intro: uh_roundtrip simp: uh_pack_def)

lemma rh_roundtrip: "rh_valid h \<Longrightarrow> rh_pack h = Inr bs \<Longrightarrow> rh_unpack (bs @ r) = Inr (True, h)"
proof (cases h)
  case (fields res reset sn ta)
  assume a: "rh_valid h" "rh_pack h = Inr bs"
  then have z: "res = 0" and f: "fits 1 reset" "fits 12 sn"
    using fields by (auto simp: rh_valid_def field_simps_bits not_less split: if_splits)
  show ?thesis
    using a z f unfolding fields
    by (auto simp: rh_pack_def rh_unpack_def field_simps_bits f [THEN fits_mono] Let_def)
qed

interpretation rh: fixed_packing rh_valid "\<lambda>_. 6" rh_pack rh_unpack 6
proof unfold_locales
  show "\<exists>v m. rh_unpack a = Inr (v, m)" if "6 \<le> length a" for a
    using that by (simp add: rh_unpack_def rd_ok b2l_lower_def Let_def)
qed (auto intro: rh_roundtrip simp: rh_pack_def)

text \<open>
  The network identity of a beacon header is stored in the lower three bytes of the field,
  but the upper three bytes are packed: its least significant byte does not survive.
\<close>

lemma bh_unpack_pack:
  assumes "bh_valid h" and "bh_pack h = Inr bs"
  shows "bh_unpack (bs @ r) =
    Inr (True, h\<lparr>bh_Network_ID_3_lsb := push_bit 8 (drop_bit 8 (bh_Network_ID_3_lsb h))\<rparr>)"
proof (cases h)
  case (fields nid ta)
  have f: "fits 24 nid"
    using assms(1) fields by (simp add: bh_valid_def field_simps_bits split: if_splits)
  have bs: "bs = l2b_upper nid 3 @ l2b_lower ta 4"
    using assms fields by (simp add: bh_pack_def)
  have up: "b2l_upper (l2b_upper nid 3 @ xs) 0 3 = Inr (push_bit 8 (drop_bit 8 nid))" for xs
    by (simp add: b2l_upper_def l2b_upper_def be_bytes_u32 of_be_def)
      (rule word_eqI_upt, simp add: bit_simps upt_width)
  have len: "length (l2b_upper nid 3) = 3" by (simp add: l2b_upper_def)
  have "fits 24 (push_bit 8 (drop_bit 8 nid))"
    using f by (auto simp: fits_def bit_simps)
  then show ?thesis
    using assms(1) f unfolding bs fields
    by (simp add: bh_unpack_def up len bh_valid_def field_simps_bits Let_def split: if_splits)
qed

interpretation bh: fixed_packing
  "\<lambda>h. bh_valid h \<and> fld 8 0 (bh_Network_ID_3_lsb h) = 0" "\<lambda>_. 7" bh_pack bh_unpack 7
proof unfold_locales
  show "bh_unpack (bs @ r) = Inr (True, m)"
    if "bh_valid m \<and> fld 8 0 (bh_Network_ID_3_lsb m) = 0" "bh_pack m = Inr bs" for m bs r
  proof -
    have "push_bit 8 (drop_bit 8 (bh_Network_ID_3_lsb m)) = bh_Network_ID_3_lsb m"
      using split_byte_add [of "bh_Network_ID_3_lsb m"] that by simp
    then show ?thesis using bh_unpack_pack [of m bs r] that by simp
  qed
  show "\<exists>v m. bh_unpack a = Inr (v, m)" if "7 \<le> length a" for a
    using that
    by (simp add: bh_unpack_def b2l_upper_def b2l_lower_def Let_def)
  show "bh_valid m \<and> fld 8 0 (bh_Network_ID_3_lsb m) = 0 \<Longrightarrow>
      \<exists>bs. bh_pack m = Inr bs \<and> length bs = 7" for m
    by (simp add: bh_pack_def l2b_upper_def)
qed simp

subsection \<open>The header held by the decoder\<close>

text \<open>\<open>std::variant\<close> of the decoder, and the virtual functions of \<open>mac_common_header_t\<close>.\<close>

datatype mac_common_header =
  MCH_data data_mac_pdu_header | MCH_beacon beacon_header | MCH_unicast unicast_header
| MCH_rd_broadcasting rd_broadcasting_header | MCH_empty

fun mch_packed_size :: "mac_common_header \<Rightarrow> nat" where
  "mch_packed_size (MCH_data _) = 2"
| "mch_packed_size (MCH_beacon _) = 7"
| "mch_packed_size (MCH_unicast _) = 10"
| "mch_packed_size (MCH_rd_broadcasting _) = 6"
| "mch_packed_size MCH_empty = 0"

fun mch_valid :: "mac_common_header \<Rightarrow> bool" where
  "mch_valid (MCH_data h) = dh_valid h"
| "mch_valid (MCH_beacon h) = bh_valid h"
| "mch_valid (MCH_unicast h) = uh_valid h"
| "mch_valid (MCH_rd_broadcasting h) = rh_valid h"
| "mch_valid MCH_empty = True"

fun mch_pack :: "mac_common_header \<Rightarrow> bytes res" where
  "mch_pack (MCH_data h) = dh_pack h"
| "mch_pack (MCH_beacon h) = bh_pack h"
| "mch_pack (MCH_unicast h) = uh_pack h"
| "mch_pack (MCH_rd_broadcasting h) = rh_pack h"
| "mch_pack MCH_empty = Inr []"

fun mch_unpack :: "mac_common_header \<Rightarrow> bytes \<Rightarrow> (bool \<times> mac_common_header) res" where
  "mch_unpack (MCH_data _) a = bindE (dh_unpack a) (\<lambda>(v, h). Inr (v, MCH_data h))"
| "mch_unpack (MCH_beacon _) a = bindE (bh_unpack a) (\<lambda>(v, h). Inr (v, MCH_beacon h))"
| "mch_unpack (MCH_unicast _) a = bindE (uh_unpack a) (\<lambda>(v, h). Inr (v, MCH_unicast h))"
| "mch_unpack (MCH_rd_broadcasting _) a =
     bindE (rh_unpack a) (\<lambda>(v, h). Inr (v, MCH_rd_broadcasting h))"
| "mch_unpack MCH_empty a = Inr (True, MCH_empty)"

lemma mch_unpack_total:
  assumes "mch_packed_size h \<le> length a"
  shows "\<exists>v h'. mch_unpack h a = Inr (v, h') \<and> mch_packed_size h' = mch_packed_size h"
  using assms dh.unpack_total [of a] bh.unpack_total [of a] uh.unpack_total [of a]
    rh.unpack_total [of a]
  by (cases h) auto

text \<open>A beacon header loses the least significant byte of the network identity.\<close>

fun mch_received :: "mac_common_header \<Rightarrow> mac_common_header" where
  "mch_received (MCH_beacon h) =
     MCH_beacon (h\<lparr>bh_Network_ID_3_lsb := push_bit 8 (drop_bit 8 (bh_Network_ID_3_lsb h))\<rparr>)"
| "mch_received h = h"

lemma mch_roundtrip:
  assumes "mch_valid h"
  shows "\<exists>bs. mch_pack h = Inr bs \<and> length bs = mch_packed_size h
     \<and> mch_unpack h (bs @ r) = Inr (True, mch_received h)"
proof (cases h)
  case (MCH_beacon b)
  with assms have v: "bh_valid b" by simp
  obtain bs where "bh_pack b = Inr bs" "length bs = 7"
    using v by (auto simp: bh_pack_def l2b_upper_def be_bytes_def)
  with bh_unpack_pack [OF v, of bs r] MCH_beacon show ?thesis by simp
next
  case (MCH_data x)
  with assms dh.roundtrip [of x r] show ?thesis by auto
next
  case (MCH_unicast x)
  with assms uh.roundtrip [of x r] show ?thesis by auto
next
  case (MCH_rd_broadcasting x)
  with assms rh.roundtrip [of x r] show ?thesis by auto
qed simp

end
