(* ===== verification/Channel_Arrangement.thy ===== *)
theory Channel_Arrangement
  imports Bitbyte Enumeration
begin

text \<open>
  \<open>sections_part2/channel_arrangement.cpp\<close>: absolute channel numbers of the operating bands
  and centre frequencies in Hz. The \<open>double\<close> copies of the integer frequencies are left out.
\<close>

record acfn =
  band_number :: u32
  n_min :: u32
  n_max :: u32
  n_spacing :: u32

definition get_absolute_channel_frequency_numbering :: "u32 \<Rightarrow> acfn" where
  "get_absolute_channel_frequency_numbering band =
     (let mk = (\<lambda>lo hi. \<lparr>band_number = band, n_min = lo, n_max = hi, n_spacing = 2\<rparr>)
      in if band = 1 then mk 1657 1677
         else if band = 2 then mk 1680 1700
         else if band = 3 then mk 2258 2352
         else if band = 4 then mk 524 552
         else if band = 5 then mk 1 22
         else if band = 6 then mk 288 411
         else if band = 7 then mk 309 321
         else if band = 8 then mk 1137 1234
         else if band = 9 then mk 1691 1711
         else if band = 10 then mk 1806 1822
         else if band = 11 then mk 2142 2256
         else if band = 12 then mk 2374 2511
         else if band = 13 then mk 3126 3183
         else if band = 14 then mk 3184 3298
         else if band = 15 then mk 3299 3356
         else if band = 16 then mk 3994 4103
         else if band = 17 then mk 4392 4466
         else if band = 18 then mk 4105 4203
         else mk 4265 4391)"

text \<open>The guard is written \<open>1 <= x || x <= 19\<close> in the code.\<close>

definition assert_band_number :: "u32 \<Rightarrow> bool" where
  "assert_band_number x \<longleftrightarrow> 1 \<le> x \<or> x \<le> 19"

record center_frequency =
  cf_acfn :: acfn
  cf_n :: u32
  F0_i :: int
  FC_i :: int
  channel_spacing_i :: int

definition get_center_frequency :: "acfn \<Rightarrow> u32 \<Rightarrow> center_frequency res" where
  "get_center_frequency a n =
     assertE (assert_band_number (band_number a)) (
     assertE (n_min a \<le> n \<and> n \<le> n_max a) (
     let (F0, spacing, offset) =
           (if 1 \<le> band_number a \<and> band_number a \<le> 12 then (450144000, 864000, 0)
            else if 13 \<le> band_number a \<and> band_number a \<le> 16 then (3000596000, 1728000, 2952)
            else (5150000000, 2000000, 4104))
     in Inr \<lparr>cf_acfn = a, cf_n = n, F0_i = F0, FC_i = F0 + (uint n - offset) * spacing,
             channel_spacing_i = spacing\<rparr>))"

definition is_absolute_channel_number_in_range :: "u32 \<Rightarrow> bool" where
  "is_absolute_channel_number_in_range channel_number =
     (if channel_number > bitmask_lsb 13 then False
      else list_ex (\<lambda>band. let a = get_absolute_channel_frequency_numbering (of_nat band)
                           in n_min a \<le> channel_number \<and> channel_number \<le> n_max a) [1..<20])"

lemma in_range_fits: "is_absolute_channel_number_in_range c \<Longrightarrow> fits 13 c"
  by (simp add: is_absolute_channel_number_in_range_def not_mask_less_fits split: if_splits)

end
