(* ===== verification/Optional_Fields.thy ===== *)
theory Optional_Fields
  imports Packing Enumeration Channel_Arrangement
begin

text \<open>
  The idioms that the messages and information elements share: fields that are present in
  the byte sequence when a \<open>std::optional\<close> has a value, the running offset at which they
  are read, channel numbers of 13 bits in two octets, and the two assertions at the end of
  every \<open>pack\<close> that compare the number of bytes written with the size seen by peeking.
\<close>

definition has_value :: "'a option \<Rightarrow> bool" where
  "has_value x = (case x of None \<Rightarrow> False | Some _ \<Rightarrow> True)"

text \<open>\<open>x.has_value() && !p(x.value())\<close> is the negation of \<open>opt_ok p x\<close>.\<close>

definition opt_ok :: "('a \<Rightarrow> bool) \<Rightarrow> 'a option \<Rightarrow> bool" where
  "opt_ok p x = (case x of None \<Rightarrow> True | Some v \<Rightarrow> p v)"

text \<open>A \<open>bool\<close> in an arithmetic expression.\<close>

definition b2u :: "bool \<Rightarrow> u32" where
  "b2u p = (if p then 1 else 0)"

text \<open>\<open>c * k\<close> for a condition, and \<open>x.has_value() * k\<close>.\<close>

definition csz :: "bool \<Rightarrow> nat \<Rightarrow> nat" where
  "csz c k = (if c then k else 0)"

definition osz :: "'a option \<Rightarrow> nat \<Rightarrow> nat" where
  "osz x k = csz (has_value x) k"

text \<open>\<open>if (x.has_value()) { write x.value() at offset; offset += ... }\<close>\<close>

definition wr_opt :: "'a option \<Rightarrow> ('a \<Rightarrow> bytes) \<Rightarrow> bytes" where
  "wr_opt x f = (case x of None \<Rightarrow> [] | Some v \<Rightarrow> f v)"

text \<open>\<open>if (c) { read x at offset; offset += k }\<close>\<close>

definition rd_opt :: "bool \<Rightarrow> nat \<Rightarrow> nat \<Rightarrow> (nat \<Rightarrow> 'a res) \<Rightarrow> ('a option \<times> nat) res" where
  "rd_opt c off k f =
     (if c then bindE (f off) (\<lambda>x. Inr (Some x, off + k)) else Inr (None, off))"

definition wr_channel :: "u32 \<Rightarrow> bytes" where
  "wr_channel c = [to_byte (drop_bit 8 c), to_byte (c AND bitmask_lsb 8)]"

definition rd_channel :: "bytes \<Rightarrow> nat \<Rightarrow> u32 res" where
  "rd_channel a off =
     bindE (rd a (off + 1)) (\<lambda>lo. bindE (rd a off) (\<lambda>hi.
     Inr (lo OR push_bit 8 (hi AND bitmask_lsb 5))))"

definition rd_enum :: "'e coded \<Rightarrow> nat \<Rightarrow> nat \<Rightarrow> bytes \<Rightarrow> nat \<Rightarrow> 'e res" where
  "rd_enum c k s a off = bindE (rd a off) (\<lambda>b. Inr (from_coded_value c (drop_bit s b AND bitmask_lsb k)))"

text \<open>
  The assertions at the end of \<open>pack\<close>: peeking at the bytes \<open>bs\<close> that were written
  succeeds and gives their number.
\<close>

definition assert_peek :: "(bytes \<Rightarrow> peek_result res) \<Rightarrow> bytes \<Rightarrow> bytes res" where
  "assert_peek peek bs =
     bindE (peek bs) (\<lambda>r. case r of
       Inl e \<Rightarrow> Inl Assertion_failed
     | Inr n \<Rightarrow> assertE (n = length bs) (Inr bs))"

subsection \<open>Reading back what was written\<close>

lemma has_value_simps [simp]: "has_value None = False" "has_value (Some x) = True"
  by (simp_all add: has_value_def)

lemma opt_ok_simps [simp]: "opt_ok p None" "opt_ok p (Some x) = p x"
  by (simp_all add: opt_ok_def)

lemma csz_simps [simp]: "csz True k = k" "csz False k = 0" "csz c 0 = 0" "csz c i * k = csz c (i * k)"
  by (simp_all add: csz_def)

lemma osz_simps [simp]: "osz None k = 0" "osz (Some x) k = k"
  by (simp_all add: osz_def)

lemma wr_opt_simps [simp]: "wr_opt None f = []" "wr_opt (Some x) f = f x"
  by (simp_all add: wr_opt_def)

lemma opt_okD: "opt_ok p x \<Longrightarrow> x = Some v \<Longrightarrow> p v"
  by simp

lemma opt_ok_mono: "opt_ok p x \<Longrightarrow> (\<And>v. p v \<Longrightarrow> q v) \<Longrightarrow> opt_ok q x"
  by (cases x) auto

lemma length_wr_opt: "(\<And>v. length (f v) = k) \<Longrightarrow> length (wr_opt x f) = osz x k"
  by (cases x) auto

lemma length_wr_channel [simp]: "length (wr_channel c) = 2"
  by (simp add: wr_channel_def)

lemma length_wr_opt_1 [simp]: "length (wr_opt x (\<lambda>v. [f v])) = osz x 1"
  by (rule length_wr_opt) simp

lemma length_wr_opt_channel [simp]: "length (wr_opt x wr_channel) = osz x 2"
  by (rule length_wr_opt) simp

lemma length_wr_opt_l2b [simp]:
  "n \<le> 4 \<Longrightarrow> length (wr_opt x (\<lambda>v :: u32. l2b_lower v n)) = osz x n"
  by (rule length_wr_opt) simp

lemma rd_opt_has_value:
  "(\<And>v. x = Some v \<Longrightarrow> f off = Inr v) \<Longrightarrow> rd_opt (has_value x) off k f = Inr (x, off + osz x k)"
  by (cases x) (simp_all add: rd_opt_def)

lemma rd_opt_total:
  "(c \<Longrightarrow> \<exists>x. f off = Inr x) \<Longrightarrow>
   \<exists>x. rd_opt c off k f = Inr (x, off + csz c k) \<and> has_value x = c"
  by (cases c) (auto simp: rd_opt_def)

lemma rd_opt_Inr:
  "rd_opt c off k f = Inr (x, off') \<Longrightarrow> has_value x = c \<and> off' = off + osz x k"
  by (auto simp: rd_opt_def bindE_eq_Inr split: if_splits)

text \<open>Flags of one bit.\<close>

named_theorems flag_simps

lemma flag_tests [flag_simps]:
  "drop_bit s x AND 1 = 0 \<longleftrightarrow> \<not> bit x s" "x AND 1 = 0 \<longleftrightarrow> \<not> bit x 0"
  "unat (drop_bit s x AND 1) = csz (bit x s) 1" "unat (x AND 1) = csz (bit x 0) 1"
  for x :: u32
  by (simp_all add: csz_def bit_iff_odd_drop_bit and_one_eq odd_iff_mod_2_eq_one bit_0 fld_1 field_simps_bits)

lemma b2u_simps [simp]: "b2u True = 1" "b2u False = 0"
  by (simp_all add: b2u_def)

lemma bit_b2u [flag_simps]: "bit (b2u p) n \<longleftrightarrow> p \<and> n = 0"
  by (cases p) (auto simp: bit_simps)

lemma fits_b2u [simp]: "1 \<le> k \<Longrightarrow> fits k (b2u p)"
  by (cases p) simp_all

lemma bit_push_bit_u32 [flag_simps]:
  "bit (push_bit k x :: u32) n \<longleftrightarrow> k \<le> n \<and> n < 32 \<and> bit x (n - k)"
  by (auto simp: bit_simps)

lemma and_2_test [flag_simps]: "x AND 2 = 0 \<longleftrightarrow> \<not> bit x 1" for x :: u32
  by (simp add: bit_iff_and_push_bit_not_eq_0)

lemma drop_bit_7_byte: "drop_bit 7 (ucast (b :: u8)) = (fld 1 7 (ucast b) :: u32)"
  by (simp add: field_simps_bits)

lemma drop_bit_7_tests [flag_simps]:
  "drop_bit 7 (ucast (b :: u8)) = (0 :: u32) \<longleftrightarrow> \<not> bit b 7"
  "unat (drop_bit 7 (ucast (b :: u8)) :: u32) = csz (bit b 7) 1"
  by (simp_all add: drop_bit_7_byte fld_1 csz_def)

lemma and_4_test [flag_simps]: "x AND 4 = 0 \<longleftrightarrow> \<not> bit x 2" for x :: u32
  by (simp add: bit_iff_and_push_bit_not_eq_0)

text \<open>A flag that is masked without being shifted keeps its weight.\<close>

lemma and_push_bit: "x AND push_bit n 1 = (if bit x n then push_bit n 1 else 0)" for x :: u32
  by (rule bit_word_eqI) (auto simp: bit_simps)

lemma unat_and_2_4 [flag_simps]:
  "unat (x AND 2) = csz (bit x 1) 2" "unat (x AND 4) = csz (bit x 2) 4" for x :: u32
  using and_push_bit [of x 1] and_push_bit [of x 2] by (auto simp: csz_def)

lemmas bit_bytes [flag_simps] = bit_or_iff bit_drop_bit_eq

text \<open>Offsets that end in a sum are reduced against the beginning of the sequence.\<close>

lemma rd_plus [simp]:
  "rd (b # bs) (numeral k + i) = rd bs (pred_numeral k + i)"
  "rd (b # bs) (1 + i) = rd bs i"
  by (simp_all add: numeral_eq_Suc)

lemma b2l_lower_plus [simp]:
  "b2l_lower (b # bs) (numeral k + i) n = b2l_lower bs (pred_numeral k + i) n"
  "b2l_lower (b # bs) (1 + i) n = b2l_lower bs i n"
  by (simp_all add: numeral_eq_Suc)

lemma rd_channel_cons [simp]:
  "rd_channel (b # bs) (numeral k) = rd_channel bs (pred_numeral k)"
  "rd_channel (b # bs) (Suc i) = rd_channel bs i"
  "rd_channel (b # bs) (numeral k + i) = rd_channel bs (pred_numeral k + i)"
  "rd_channel (b # bs) (1 + i) = rd_channel bs i"
  by (simp_all add: rd_channel_def numeral_eq_Suc)

lemma rd_channel_append [simp]:
  "length xs \<le> i \<Longrightarrow> rd_channel (xs @ ys) i = rd_channel ys (i - length xs)"
  by (simp add: rd_channel_def Suc_diff_le)

lemma rd_enum_cons [simp]:
  "rd_enum c w s (b # bs) (numeral k) = rd_enum c w s bs (pred_numeral k)"
  "rd_enum c w s (b # bs) (Suc i) = rd_enum c w s bs i"
  "rd_enum c w s (b # bs) (numeral k + i) = rd_enum c w s bs (pred_numeral k + i)"
  "rd_enum c w s (b # bs) (1 + i) = rd_enum c w s bs i"
  by (simp_all add: rd_enum_def numeral_eq_Suc)

lemma rd_enum_append [simp]:
  "length xs \<le> i \<Longrightarrow> rd_enum c w s (xs @ ys) i = rd_enum c w s ys (i - length xs)"
  by (simp add: rd_enum_def)

lemma rd_wr_channel [simp]:
  assumes "is_absolute_channel_number_in_range c"
  shows "rd_channel (wr_channel c @ r) 0 = Inr c"
proof -
  have f: "fits 13 c" by (rule in_range_fits [OF assms])
  then have "fits 5 (drop_bit 8 c)" by (intro fits_drop_bit) simp
  then have "fits 8 (drop_bit 8 c)" by (rule fits_mono) simp
  with f \<open>fits 5 (drop_bit 8 c)\<close> show ?thesis
    by (simp add: rd_channel_def wr_channel_def field_simps_bits)
qed

context coded_enum
begin

lemma rd_enum_written [simp]:
  "enum_valid c v \<Longrightarrow> upper_value c \<le> 2 ^ k \<Longrightarrow> k \<le> 8 \<Longrightarrow>
   rd_enum c k 0 (to_byte (to_underlying c v) # r) 0 = Inr v"
  by (simp add: rd_enum_def field_simps_bits)

end

lemma rd_channel_total: "i + 2 \<le> length a \<Longrightarrow> \<exists>c. rd_channel a i = Inr c"
  by (simp add: rd_channel_def rd_ok)

lemma rd_enum_total: "Suc i \<le> length a \<Longrightarrow> \<exists>e. rd_enum c w s a i = Inr e"
  by (simp add: rd_enum_def rd_ok)

lemma b2l_lower_total: "i + n \<le> length a \<Longrightarrow> \<exists>v. b2l_lower a i n = Inr v"
  by (simp add: b2l_lower_def)

lemma assert_peek_Inr [simp]:
  "assert_peek peek bs = Inr bs' \<longleftrightarrow> bs' = bs \<and> peek bs = Inr (Inr (length bs))"
proof (cases "peek bs")
  case (Inr r)
  then show ?thesis by (cases r) (auto simp: assert_peek_def)
qed (simp add: assert_peek_def)

lemma assert_peek_ok: "peek bs = Inr (Inr (length bs)) \<Longrightarrow> assert_peek peek bs = Inr bs"
  by simp

subsection \<open>Normal termination\<close>

text \<open>
  \<open>okE F r P\<close>: the computation \<open>r\<close> ends with a result that satisfies \<open>P\<close> or stops with a
  fault of the set \<open>F\<close>. The rules follow the structure of the \<open>unpack\<close> functions; a
  conditional read needs its bytes only when the condition holds.
\<close>

definition okE :: "fault set \<Rightarrow> 'a res \<Rightarrow> ('a \<Rightarrow> bool) \<Rightarrow> bool" where
  "okE F r P \<longleftrightarrow> (case r of Inl e \<Rightarrow> e \<in> F | Inr x \<Rightarrow> P x)"

text \<open>The size of an optional field as the code adds it up.\<close>

lemma csz_if: "(if c then k else 0) = csz c k" "(if c then 0 else k) = csz (\<not> c) k"
  "2 * csz c 1 = csz c 2" "csz c 1 * 2 = csz c 2"
  by (simp_all add: csz_def)

lemma csz_units: "csz c 2 = 2 * csz c 1" "csz c 4 = 4 * csz c 1"
  by (simp_all add: csz_def)

named_theorems ok_intros

lemma okE_cases: "okE F r P \<Longrightarrow> (\<exists>e\<in>F. r = Inl e) \<or> (\<exists>x. r = Inr x \<and> P x)"
  by (cases r) (auto simp: okE_def)

lemma okE_mono: "okE F r P \<Longrightarrow> (\<And>x. P x \<Longrightarrow> Q x) \<Longrightarrow> okE F r Q"
  by (auto simp: okE_def split: sum.splits)

lemma okE_any: "okE F r (\<lambda>_. True) \<Longrightarrow> (\<And>x. P x) \<Longrightarrow> okE F r P"
  by (rule okE_mono)

lemma okE_Inr [simp, ok_intros]: "P x \<Longrightarrow> okE F (Inr x) P"
  by (simp add: okE_def)

lemma okE_bind [ok_intros]: "okE F r (\<lambda>x. okE F (f x) P) \<Longrightarrow> okE F (bindE r f) P"
  by (cases r) (auto simp: okE_def)

lemma okE_assert [ok_intros]:
  "c \<or> Assertion_failed \<in> F \<Longrightarrow> (c \<Longrightarrow> okE F r P) \<Longrightarrow> okE F (assertE c r) P"
  by (cases c) (auto simp: okE_def)

lemma okE_rd [ok_intros]: "Suc i \<le> length a \<Longrightarrow> P (ucast (a ! i)) \<Longrightarrow> okE F (rd a i) P"
  by (simp add: okE_def rd_ok)

lemma okE_b2l_lower [ok_intros]:
  "i + n \<le> length a \<Longrightarrow> (\<And>v. P v) \<Longrightarrow> okE F (b2l_lower a i n) P"
  by (simp add: okE_def b2l_lower_def)

lemma okE_rd_channel [ok_intros]:
  "i + 2 \<le> length a \<Longrightarrow> (\<And>v. P v) \<Longrightarrow> okE F (rd_channel a i) P"
  using rd_channel_total [of i a] by (auto simp: okE_def)

lemma okE_rd_enum [ok_intros]:
  "Suc i \<le> length a \<Longrightarrow> (\<And>v. P v) \<Longrightarrow> okE F (rd_enum c w s a i) P"
  using rd_enum_total [of i a c w s] by (auto simp: okE_def)

lemma okE_rd_opt [ok_intros]:
  assumes "c \<Longrightarrow> okE F (f off) (\<lambda>_. True)"
    and "\<And>x. has_value x = c \<Longrightarrow> P (x, off + csz c k)"
  shows "okE F (rd_opt c off k f) P"
proof (cases c)
  case True
  show ?thesis
    using assms(1) [OF True] assms(2) True
    by (cases "f off") (auto simp: okE_def rd_opt_def)
next
  case False
  then show ?thesis using assms(2) [of None] by (simp add: rd_opt_def)
qed

lemma okE_case [ok_intros]:
  "(\<And>x y. p = (x, y) \<Longrightarrow> okE F (f x y) P) \<Longrightarrow> okE F (case p of (u, v) \<Rightarrow> f u v) P"
  by (cases p) simp

lemma okE_if [ok_intros]:
  "(c \<Longrightarrow> okE F r P) \<Longrightarrow> (\<not> c \<Longrightarrow> okE F r' P) \<Longrightarrow> okE F (if c then r else r') P"
  by simp

lemma okE_total: "okE {} (r :: (bool \<times> 'm) res) P \<Longrightarrow> \<exists>v m. r = Inr (v, m)"
  by (cases r) (auto simp: okE_def)

lemma okE_in_bounds:
  "okE F r P \<Longrightarrow> Out_of_bounds_read \<notin> F \<Longrightarrow> r \<noteq> Inl Out_of_bounds_read"
  by (auto simp: okE_def)

lemma okE_valueE [ok_intros]:
  "has_value x \<or> Bad_optional_access \<in> F \<Longrightarrow> (\<And>v. x = Some v \<Longrightarrow> P v) \<Longrightarrow> okE F (valueE x) P"
  by (cases x) (simp_all add: okE_def)

subsection \<open>Sets of elements that follow each other in the message\<close>

text \<open>
  A \<open>std::set\<close> is modelled by the list of its elements in the order of iteration, which is
  strictly increasing in the key that \<open>operator<\<close> compares.
\<close>

definition set_wf :: "('a \<Rightarrow> u32) \<Rightarrow> 'a list \<Rightarrow> bool" where
  "set_wf key xs = sorted_wrt (\<lambda>x y. key x < key y) xs"

fun set_insert :: "('a \<Rightarrow> u32) \<Rightarrow> 'a \<Rightarrow> 'a list \<Rightarrow> 'a list" where
  "set_insert key x [] = [x]"
| "set_insert key x (y # ys) =
     (if key x < key y then x # y # ys
      else if key y < key x then y # set_insert key x ys else y # ys)"

text \<open>\<open>for (n = 0; n < N; ++n) { insert what is read at offset; ++offset; }\<close>\<close>

fun rd_loop :: "(nat \<Rightarrow> 'a res) \<Rightarrow> ('a \<Rightarrow> 's \<Rightarrow> 's) \<Rightarrow> nat \<Rightarrow> nat \<Rightarrow> 's \<Rightarrow> ('s \<times> nat) res" where
  "rd_loop f ins 0 off s = Inr (s, off)"
| "rd_loop f ins (Suc n) off s = bindE (f off) (\<lambda>x. rd_loop f ins n (off + 1) (ins x s))"

lemma set_set_insert: "set (set_insert key x xs) \<subseteq> insert x (set xs)"
  by (induction xs) auto

lemma set_wf_insert: "set_wf key xs \<Longrightarrow> set_wf key (set_insert key x xs)"
proof (induction xs)
  case (Cons y ys)
  then show ?case
    using set_set_insert [of key x ys] by (fastforce simp: set_wf_def)
qed (simp add: set_wf_def)

lemma set_insert_last:
  "\<forall>y\<in>set xs. key y < key x \<Longrightarrow> set_insert key x xs = xs @ [x]"
  by (induction xs) (auto dest: order_less_not_sym)

lemma fold_set_insert:
  "set_wf key (ys @ xs) \<Longrightarrow> foldl (\<lambda>s x. set_insert key x s) ys xs = ys @ xs"
proof (induction xs arbitrary: ys)
  case (Cons x xs)
  then have "set_insert key x ys = ys @ [x]"
    by (intro set_insert_last) (auto simp: set_wf_def sorted_wrt_append)
  with Cons.IH [of "ys @ [x]"] Cons.prems show ?case by simp
qed simp

lemma set_wf_distinct: "set_wf key xs \<Longrightarrow> distinct xs"
  by (induction xs) (auto simp: set_wf_def)

lemma rd_loop_read:
  "(\<And>i. i < length xs \<Longrightarrow> f (off + i) = Inr (xs ! i)) \<Longrightarrow>
   rd_loop f ins (length xs) off s = Inr (foldl (\<lambda>s x. ins x s) s xs, off + length xs)"
proof (induction xs arbitrary: off s)
  case (Cons x xs)
  have "f off = Inr x" using Cons.prems [of 0] by simp
  moreover have "f (off + 1 + i) = Inr (xs ! i)" if "i < length xs" for i
    using Cons.prems [of "Suc i"] that by simp
  ultimately show ?case using Cons.IH [of "off + 1" "ins x s"] by simp
qed simp

lemma rd_loop_set:
  assumes "\<And>i. i < length xs \<Longrightarrow> f (off + i) = Inr (xs ! i)" and "set_wf key xs"
    and "n = length xs"
  shows "rd_loop f (set_insert key) n off [] = Inr (xs, off + n)"
  using rd_loop_read [of xs f off "set_insert key" "[]"] fold_set_insert [of key "[]" xs] assms
  by simp

lemma okE_rd_loop [ok_intros]:
  "(\<And>i. i < n \<Longrightarrow> okE F (f (off + i)) (\<lambda>_. True)) \<Longrightarrow> (\<And>s'. P (s', off + n)) \<Longrightarrow>
   okE F (rd_loop f ins n off s) P"
proof (induction n arbitrary: off s)
  case (Suc n)
  show ?case
  proof (cases "f off")
    case (Inl e)
    with Suc.prems(1) [of 0] show ?thesis by (simp add: okE_def)
  next
    case (Inr x)
    have "okE F (f (Suc off + i)) (\<lambda>_. True)" if "i < n" for i
      using Suc.prems(1) [of "Suc i"] that by simp
    then have "okE F (rd_loop f ins n (off + 1) (ins x s)) P"
      using Suc.prems(2) by (intro Suc.IH) simp_all
    with Inr show ?thesis by simp
  qed
qed simp

context coded_enum
begin

lemma rd_enum_map_written [simp]:
  "list_all (enum_valid c) xs \<Longrightarrow> upper_value c \<le> 2 ^ k \<Longrightarrow> k \<le> 8 \<Longrightarrow> i < length xs \<Longrightarrow>
   rd_enum c k 0 (map (\<lambda>v. to_byte (to_underlying c v)) xs @ r) i = Inr (xs ! i)"
  by (simp add: rd_enum_def rd_ok Suc_le_eq nth_append field_simps_bits list_all_length)

end

end
