(* ===== verification/Simple_Messages.thy ===== *)
theory Simple_Messages
  imports Optional_Fields
begin

text \<open>
  The messages and information elements of constant size in
  \<open>sections_part4/mac_messages_and_ie\<close>: \<open>association_release_message\<close>, \<open>route_info_ie\<close>,
  \<open>mac_security_info_ie\<close>, \<open>radio_device_status_ie\<close> and the extensions \<open>power_target_ie\<close>
  and \<open>time_announce_ie\<close>. Each satisfies the contract \<open>fixed_packing\<close>. The variable-size
  \<open>group_assignment_ie\<close> takes its length from the MAC multiplexing header.
\<close>

subsection \<open>Association release message\<close>

datatype release_cause =
  RC_not_defined | connection_termination | mobility | long_inactivity | incompatible_configuration
| no_sufficient_hw_memory_resource | no_sufficient_radio_resources | bad_radio_quality
| security_error | other_error | other_reason | RC_upper

definition release_cause_ec :: "release_cause coded" where
  "release_cause_ec = \<lparr>base = 0, has_lower = False, enumerators = [connection_termination, mobility,
     long_inactivity, incompatible_configuration, no_sufficient_hw_memory_resource,
     no_sufficient_radio_resources, bad_radio_quality, security_error, other_error, other_reason,
     RC_upper], not_defined = RC_not_defined\<rparr>"

interpretation release_cause_coding: coded_enum release_cause_ec
  by unfold_locales
    ((simp add: release_cause_ec_def upper_value_def) | (rename_tac e, case_tac e; simp))+

lemma release_cause_upper [simp, enum_simps]: "upper_value release_cause_ec = 10"
  by (simp add: upper_value_def release_cause_ec_def)

record association_release =
  ar_release_cause :: release_cause

definition ar_zero :: association_release where
  "ar_zero = \<lparr>ar_release_cause = RC_not_defined\<rparr>"

definition ar_valid :: "association_release \<Rightarrow> bool" where
  "ar_valid m = enum_valid release_cause_ec (ar_release_cause m)"

definition ar_packed_size :: "association_release \<Rightarrow> nat" where
  "ar_packed_size m = 1"

definition ar_pack :: "association_release \<Rightarrow> bytes res" where
  "ar_pack m = assertE (ar_valid m)
     (Inr [to_byte (push_bit 4 (to_underlying release_cause_ec (ar_release_cause m)))])"

definition ar_unpack :: "bytes \<Rightarrow> (bool \<times> association_release) res" where
  "ar_unpack a =
     bindE (rd a 0) (\<lambda>b0.
     let m = \<lparr>ar_release_cause = from_coded_value release_cause_ec (drop_bit 4 b0)\<rparr>
     in Inr (ar_valid m, m))"

interpretation ar: fixed_packing ar_valid ar_packed_size ar_pack ar_unpack 1
proof
  fix m bs r
  assume "ar_valid m" "ar_pack m = Inr bs"
  then show "ar_unpack (bs @ r) = Inr (True, m)"
    by (cases m) (auto simp: ar_valid_def ar_pack_def ar_unpack_def field_simps_bits Let_def)
qed (simp_all add: ar_pack_def ar_packed_size_def ar_unpack_def rd_ok Let_def)

subsection \<open>Route info IE\<close>

record route_info =
  ri_sink_address :: u32
  ri_route_cost :: u32
  ri_application_sequence_number :: u32

definition ri_zero :: route_info where
  "ri_zero = \<lparr>ri_sink_address = UNDEFINED_NUMERIC_32, ri_route_cost = UNDEFINED_NUMERIC_32,
     ri_application_sequence_number = UNDEFINED_NUMERIC_32\<rparr>"

definition ri_valid :: "route_info \<Rightarrow> bool" where
  "ri_valid m \<longleftrightarrow> ri_route_cost m \<le> 0xff \<and> ri_application_sequence_number m \<le> 0xff"

definition ri_packed_size :: "route_info \<Rightarrow> nat" where
  "ri_packed_size m = 6"

definition ri_pack :: "route_info \<Rightarrow> bytes res" where
  "ri_pack m = assertE (ri_valid m) (Inr
     (l2b_lower (ri_sink_address m) 4
      @ [to_byte (ri_route_cost m), to_byte (ri_application_sequence_number m)]))"

definition ri_unpack :: "bytes \<Rightarrow> (bool \<times> route_info) res" where
  "ri_unpack a =
     bindE (b2l_lower a 0 4) (\<lambda>sink.
     bindE (rd a 4) (\<lambda>cost.
     bindE (rd a 5) (\<lambda>seq.
     Inr (True, \<lparr>ri_sink_address = sink, ri_route_cost = cost,
                 ri_application_sequence_number = seq\<rparr>))))"

interpretation ri: fixed_packing ri_valid ri_packed_size ri_pack ri_unpack 6
proof
  fix m bs r
  assume "ri_valid m" "ri_pack m = Inr bs"
  then show "ri_unpack (bs @ r) = Inr (True, m)"
    by (cases m) (auto simp: ri_valid_def ri_pack_def ri_unpack_def field_simps_bits)
qed (simp_all add: ri_pack_def ri_packed_size_def ri_unpack_def rd_ok b2l_lower_def)

subsection \<open>MAC security info IE\<close>

text \<open>The only version is mode 1 with the code 0; it is a constant of the class.\<close>

datatype security_iv_type_mode_1 =
  SIV_not_defined | one_time_hpc | resynchronizing_hpc | one_time_hpc_with_hpc_request | SIV_upper

definition siv_ec :: "security_iv_type_mode_1 coded" where
  "siv_ec = \<lparr>base = 0, has_lower = False, enumerators = [one_time_hpc, resynchronizing_hpc,
     one_time_hpc_with_hpc_request, SIV_upper], not_defined = SIV_not_defined\<rparr>"

interpretation siv_coding: coded_enum siv_ec
  by unfold_locales ((simp add: siv_ec_def upper_value_def) | (rename_tac e, case_tac e; simp))+

lemma siv_upper [simp, enum_simps]: "upper_value siv_ec = 3"
  by (simp add: upper_value_def siv_ec_def)

record mac_security_info =
  si_key_index :: u32
  si_security_iv_type :: security_iv_type_mode_1
  si_hpc :: u32

definition si_version_mode_1 :: u32 where
  "si_version_mode_1 = 0"

definition si_zero :: mac_security_info where
  "si_zero = \<lparr>si_key_index = UNDEFINED_NUMERIC_32, si_security_iv_type = SIV_not_defined,
     si_hpc = UNDEFINED_NUMERIC_32\<rparr>"

definition si_valid :: "mac_security_info \<Rightarrow> bool" where
  "si_valid m \<longleftrightarrow> si_key_index m \<le> 3 \<and> enum_valid siv_ec (si_security_iv_type m)"

definition si_packed_size :: "mac_security_info \<Rightarrow> nat" where
  "si_packed_size m = 5"

definition si_pack :: "mac_security_info \<Rightarrow> bytes res" where
  "si_pack m = assertE (si_valid m) (Inr
     ([to_byte (push_bit 6 si_version_mode_1) OR to_byte (push_bit 4 (si_key_index m))
       OR to_byte (to_underlying siv_ec (si_security_iv_type m))]
      @ l2b_lower (si_hpc m) 4))"

definition si_unpack :: "bytes \<Rightarrow> (bool \<times> mac_security_info) res" where
  "si_unpack a =
     bindE (rd a 0) (\<lambda>b0.
     if drop_bit 6 b0 \<noteq> si_version_mode_1 then Inr (False, si_zero)
     else bindE (b2l_lower a 1 4) (\<lambda>hpc.
       let m = \<lparr>si_key_index = drop_bit 4 b0 AND 3,
                si_security_iv_type = from_coded_value siv_ec (b0 AND 15), si_hpc = hpc\<rparr>
       in Inr (si_valid m, m)))"

interpretation si: fixed_packing si_valid si_packed_size si_pack si_unpack 5
proof
  fix m bs r
  assume m: "si_valid m" "si_pack m = Inr bs"
  then have "fits 2 (si_key_index m)" "fits 4 (to_underlying siv_ec (si_security_iv_type m))"
      "fits 6 (to_underlying siv_ec (si_security_iv_type m))"
    by (auto simp: si_valid_def field_simps_bits)
  with m show "si_unpack (bs @ r) = Inr (True, m)"
    by (cases m) (auto simp: si_valid_def si_pack_def si_unpack_def si_version_mode_1_def
        field_simps_bits Let_def)
qed (simp_all add: si_pack_def si_packed_size_def si_unpack_def rd_ok b2l_lower_def Let_def)

subsection \<open>Radio device status IE\<close>

datatype status_flag = SF_not_defined | SF_lower | memory_full | normal_operation | SF_upper

datatype status_duration =
  SD_not_defined | SD_50_ms | SD_100_ms | SD_200_ms | SD_400_ms | SD_600_ms | SD_800_ms
| SD_1000_ms | SD_1500_ms | SD_2000_ms | SD_3000_ms | SD_4000_ms | SD_unknown | SD_upper

definition status_flag_ec :: "status_flag coded" where
  "status_flag_ec = \<lparr>base = 0, has_lower = True, enumerators = [SF_lower, memory_full,
     normal_operation, SF_upper], not_defined = SF_not_defined\<rparr>"

definition status_duration_ec :: "status_duration coded" where
  "status_duration_ec = \<lparr>base = 0, has_lower = False, enumerators = [SD_50_ms, SD_100_ms, SD_200_ms,
     SD_400_ms, SD_600_ms, SD_800_ms, SD_1000_ms, SD_1500_ms, SD_2000_ms, SD_3000_ms, SD_4000_ms,
     SD_unknown, SD_upper], not_defined = SD_not_defined\<rparr>"

interpretation status_flag_coding: coded_enum status_flag_ec
  by unfold_locales
    ((simp add: status_flag_ec_def upper_value_def) | (rename_tac e, case_tac e; simp))+

interpretation status_duration_coding: coded_enum status_duration_ec
  by unfold_locales
    ((simp add: status_duration_ec_def upper_value_def) | (rename_tac e, case_tac e; simp))+

lemma status_upper [simp, enum_simps]:
  "upper_value status_flag_ec = 3" "upper_value status_duration_ec = 12"
  by (simp_all add: upper_value_def status_flag_ec_def status_duration_ec_def)

record radio_device_status =
  rs_status_flag :: status_flag
  rs_duration :: status_duration

definition rs_zero :: radio_device_status where
  "rs_zero = \<lparr>rs_status_flag = SF_not_defined, rs_duration = SD_not_defined\<rparr>"

definition rs_valid :: "radio_device_status \<Rightarrow> bool" where
  "rs_valid m \<longleftrightarrow> enum_valid status_flag_ec (rs_status_flag m)
     \<and> enum_valid status_duration_ec (rs_duration m)"

definition rs_packed_size :: "radio_device_status \<Rightarrow> nat" where
  "rs_packed_size m = 1"

definition rs_pack :: "radio_device_status \<Rightarrow> bytes res" where
  "rs_pack m = assertE (rs_valid m) (Inr
     [to_byte (push_bit 4 (to_underlying status_flag_ec (rs_status_flag m)))
      OR to_byte (to_underlying status_duration_ec (rs_duration m))])"

definition rs_unpack :: "bytes \<Rightarrow> (bool \<times> radio_device_status) res" where
  "rs_unpack a =
     bindE (rd a 0) (\<lambda>b0.
     let m = \<lparr>rs_status_flag = from_coded_value status_flag_ec (drop_bit 4 b0 AND 3),
              rs_duration = from_coded_value status_duration_ec (b0 AND 15)\<rparr>
     in Inr (rs_valid m, m))"

interpretation rs: fixed_packing rs_valid rs_packed_size rs_pack rs_unpack 1
proof
  fix m bs r
  assume "rs_valid m" "rs_pack m = Inr bs"
  then show "rs_unpack (bs @ r) = Inr (True, m)"
    by (cases m) (auto simp: rs_valid_def rs_pack_def rs_unpack_def field_simps_bits Let_def)
qed (simp_all add: rs_pack_def rs_packed_size_def rs_unpack_def rd_ok Let_def)

subsection \<open>Power target IE\<close>

text \<open>The conversions between dBm and the code are floating point and not modelled.\<close>

record power_target =
  pt_power_target_dBm_coded :: u32

definition pt_zero :: power_target where
  "pt_zero = \<lparr>pt_power_target_dBm_coded = UNDEFINED_NUMERIC_32\<rparr>"

definition pt_valid :: "power_target \<Rightarrow> bool" where
  "pt_valid m \<longleftrightarrow> 45 \<le> pt_power_target_dBm_coded m \<and> pt_power_target_dBm_coded m \<le> 60"

definition pt_packed_size :: "power_target \<Rightarrow> nat" where
  "pt_packed_size m = 1"

definition pt_pack :: "power_target \<Rightarrow> bytes res" where
  "pt_pack m = assertE (pt_valid m) (Inr [to_byte (pt_power_target_dBm_coded m)])"

definition pt_unpack :: "bytes \<Rightarrow> (bool \<times> power_target) res" where
  "pt_unpack a =
     bindE (rd a 0) (\<lambda>b0.
     let m = \<lparr>pt_power_target_dBm_coded = b0\<rparr> in Inr (pt_valid m, m))"

interpretation pt: fixed_packing pt_valid pt_packed_size pt_pack pt_unpack 1
proof
  fix m bs r
  assume m: "pt_valid m" "pt_pack m = Inr bs"
  then have "fits 8 (pt_power_target_dBm_coded m)"
    by (simp add: pt_valid_def fits_iff_unat word_le_nat_alt)
  with m show "pt_unpack (bs @ r) = Inr (True, m)"
    by (cases m) (auto simp: pt_pack_def pt_unpack_def field_simps_bits Let_def)
qed (simp_all add: pt_pack_def pt_packed_size_def pt_unpack_def rd_ok Let_def)

subsection \<open>Time announce IE\<close>

text \<open>\<open>full_sec\<close> is an \<open>int64_t\<close>; the word holds its bits, its sign is read with \<open>sint\<close>.\<close>

datatype time_type = TT_not_defined | LOCAL | TAI | GPS | TT_upper

definition time_type_ec :: "time_type coded" where
  "time_type_ec = \<lparr>base = 0, has_lower = False, enumerators = [LOCAL, TAI, GPS, TT_upper],
     not_defined = TT_not_defined\<rparr>"

interpretation time_type_coding: coded_enum time_type_ec
  by unfold_locales
    ((simp add: time_type_ec_def upper_value_def) | (rename_tac e, case_tac e; simp))+

lemma time_type_upper [simp, enum_simps]: "upper_value time_type_ec = 3"
  by (simp add: upper_value_def time_type_ec_def)

record time_announce =
  ta_time_type :: time_type
  ta_N_frames_until_full_sec :: u32
  ta_full_sec :: u64
  ta_tai_minus_utc_seconds :: u32

definition ta_zero :: time_announce where
  "ta_zero = \<lparr>ta_time_type = TT_not_defined, ta_N_frames_until_full_sec = UNDEFINED_NUMERIC_32,
     ta_full_sec = - 1, ta_tai_minus_utc_seconds = UNDEFINED_NUMERIC_32\<rparr>"

definition ta_set_time :: "time_type \<Rightarrow> int \<Rightarrow> int \<Rightarrow> time_announce \<Rightarrow> time_announce" where
  "ta_set_time tt frames full m =
     m\<lparr>ta_time_type := tt, ta_N_frames_until_full_sec := of_int frames,
       ta_full_sec := of_int full, ta_tai_minus_utc_seconds := 0\<rparr>"

definition ta_valid :: "time_announce \<Rightarrow> bool" where
  "ta_valid m =
     (if \<not> enum_valid time_type_ec (ta_time_type m) then False
      else if 255 < ta_N_frames_until_full_sec m then False
      else if sint (ta_full_sec m) < 0 then False
      else if 255 < ta_tai_minus_utc_seconds m then False
      else True)"

definition ta_packed_size :: "time_announce \<Rightarrow> nat" where
  "ta_packed_size m = 11"

definition ta_pack :: "time_announce \<Rightarrow> bytes res" where
  "ta_pack m = assertE (ta_valid m) (Inr
     ([to_byte (to_underlying time_type_ec (ta_time_type m)),
       to_byte (ta_N_frames_until_full_sec m)]
      @ l2b_lower (ta_full_sec m) 8 @ [to_byte (ta_tai_minus_utc_seconds m)]))"

definition ta_unpack :: "bytes \<Rightarrow> (bool \<times> time_announce) res" where
  "ta_unpack a =
     bindE (rd a 0) (\<lambda>b0.
     bindE (rd a 1) (\<lambda>b1.
     bindE (b2l_lower a 2 8) (\<lambda>full.
     bindE (rd a 10) (\<lambda>b10.
     let m = \<lparr>ta_time_type = from_coded_value time_type_ec b0,
              ta_N_frames_until_full_sec = b1, ta_full_sec = full,
              ta_tai_minus_utc_seconds = b10\<rparr>
     in Inr (ta_valid m, m)))))"

interpretation ta: fixed_packing ta_valid ta_packed_size ta_pack ta_unpack 11
proof
  fix m bs r
  assume m: "ta_valid m" "ta_pack m = Inr bs"
  then have "fits 8 (ta_N_frames_until_full_sec m)" "fits 8 (ta_tai_minus_utc_seconds m)"
    "enum_valid time_type_ec (ta_time_type m)"
    by (auto simp: ta_valid_def not_less field_simps_bits split: if_splits)
  with m show "ta_unpack (bs @ r) = Inr (True, m)"
    by (cases m) (auto simp: ta_pack_def ta_unpack_def field_simps_bits Let_def)
qed (simp_all add: ta_pack_def ta_packed_size_def ta_unpack_def rd_ok b2l_lower_def Let_def)

end
