(* ===== verification/Beacon_Messages.thy ===== *)
theory Beacon_Messages
  imports Optional_Fields
begin

text \<open>
  \<open>sections_part4/mac_messages_and_ie/network_beacon_message\<close> and
  \<open>cluster_beacon_message\<close>. The length of the frame offset of a cluster beacon depends on
  the subcarrier scaling factor \<open>mu\<close>, which the receiver has set before unpacking.
\<close>

subsection \<open>Enumerations\<close>

datatype clusters_max_tx_power =
  TxP_not_defined | TxP_lower | neg_13_dBm | neg_6_dBm | neg_3_dBm | p_0_dBm | p_3_dBm | p_6_dBm
| p_10_dBm | p_14_dBm | p_19_dBm | p_23_dBm | p_26_dBm | p_29_dBm | gt_32_dBm | TxP_upper

datatype network_beacon_period =
  NBP_not_defined | NBP_50_ms | NBP_100_ms | NBP_500_ms | NBP_1000_ms | NBP_1500_ms
| NBP_2000_ms | NBP_4000_ms | NBP_upper

datatype cluster_beacon_period =
  CBP_not_defined | CBP_10_ms | CBP_50_ms | CBP_100_ms | CBP_500_ms | CBP_1000_ms | CBP_1500_ms
| CBP_2000_ms | CBP_4000_ms | CBP_8000_ms | CBP_16000_ms | CBP_32000_ms | CBP_upper

datatype count_to_trigger =
  CTT_not_defined | CTT_1_times | CTT_2_times | CTT_3_times | CTT_4_times | CTT_5_times
| CTT_6_times | CTT_7_times | CTT_8_times | CTT_16_times | CTT_24_times | CTT_32_times
| CTT_40_times | CTT_48_times | CTT_64_times | CTT_128_times | CTT_256_times | CTT_upper

datatype quality_threshold = QT_not_defined | QT_0_dB | QT_3_dB | QT_6_dB | QT_9_dB | QT_upper

definition tx_power_ec :: "clusters_max_tx_power coded" where
  "tx_power_ec = \<lparr>base = 2, has_lower = True, enumerators = [TxP_lower, neg_13_dBm, neg_6_dBm,
     neg_3_dBm, p_0_dBm, p_3_dBm, p_6_dBm, p_10_dBm, p_14_dBm, p_19_dBm, p_23_dBm, p_26_dBm,
     p_29_dBm, gt_32_dBm, TxP_upper], not_defined = TxP_not_defined\<rparr>"

definition nb_period_ec :: "network_beacon_period coded" where
  "nb_period_ec = \<lparr>base = 0, has_lower = False, enumerators = [NBP_50_ms, NBP_100_ms,
     NBP_500_ms, NBP_1000_ms, NBP_1500_ms, NBP_2000_ms, NBP_4000_ms, NBP_upper],
     not_defined = NBP_not_defined\<rparr>"

definition cb_period_ec :: "cluster_beacon_period coded" where
  "cb_period_ec = \<lparr>base = 0, has_lower = False, enumerators = [CBP_10_ms, CBP_50_ms, CBP_100_ms,
     CBP_500_ms, CBP_1000_ms, CBP_1500_ms, CBP_2000_ms, CBP_4000_ms, CBP_8000_ms, CBP_16000_ms,
     CBP_32000_ms, CBP_upper], not_defined = CBP_not_defined\<rparr>"

definition count_ec :: "count_to_trigger coded" where
  "count_ec = \<lparr>base = 0, has_lower = False, enumerators = [CTT_1_times, CTT_2_times, CTT_3_times,
     CTT_4_times, CTT_5_times, CTT_6_times, CTT_7_times, CTT_8_times, CTT_16_times, CTT_24_times,
     CTT_32_times, CTT_40_times, CTT_48_times, CTT_64_times, CTT_128_times, CTT_256_times,
     CTT_upper], not_defined = CTT_not_defined\<rparr>"

definition quality_ec :: "quality_threshold coded" where
  "quality_ec = \<lparr>base = 0, has_lower = False, enumerators = [QT_0_dB, QT_3_dB, QT_6_dB, QT_9_dB,
     QT_upper], not_defined = QT_not_defined\<rparr>"

interpretation tx_power_coding: coded_enum tx_power_ec
  by unfold_locales
    ((simp add: tx_power_ec_def upper_value_def) | (rename_tac e, case_tac e; simp))+

interpretation nb_period_coding: coded_enum nb_period_ec
  by unfold_locales
    ((simp add: nb_period_ec_def upper_value_def) | (rename_tac e, case_tac e; simp))+

interpretation cb_period_coding: coded_enum cb_period_ec
  by unfold_locales
    ((simp add: cb_period_ec_def upper_value_def) | (rename_tac e, case_tac e; simp))+

interpretation count_coding: coded_enum count_ec
  by unfold_locales
    ((simp add: count_ec_def upper_value_def) | (rename_tac e, case_tac e; simp))+

interpretation quality_coding: coded_enum quality_ec
  by unfold_locales
    ((simp add: quality_ec_def upper_value_def) | (rename_tac e, case_tac e; simp))+

lemma beacon_upper_values [simp, enum_simps]:
  "upper_value tx_power_ec = 16" "upper_value nb_period_ec = 7" "upper_value cb_period_ec = 11"
  "upper_value count_ec = 16" "upper_value quality_ec = 4"
  by (simp_all add: upper_value_def tx_power_ec_def nb_period_ec_def cb_period_ec_def
      count_ec_def quality_ec_def)

subsection \<open>Network beacon message\<close>

definition nb_tx_power_table :: "int list" where
  "nb_tx_power_table = [-13, -6, -3, 0, 3, 6, 10, 14, 19, 23, 26, 29, 32]"

text \<open>
  The functions between dBm and the code exchange the underlying value of the enumeration;
  the first one casts the power itself.
\<close>

definition clusters_max_tx_power_from_dBm :: "int \<Rightarrow> u32" where
  "clusters_max_tx_power_from_dBm tx_power_dBm =
     (let lower = lower_bound nb_tx_power_table tx_power_dBm
      in if lower = length nb_tx_power_table then of_int (last nb_tx_power_table)
         else of_int (nb_tx_power_table ! lower))"

definition clusters_max_tx_power_to_dBm :: "u32 \<Rightarrow> int res" where
  "clusters_max_tx_power_to_dBm coded = array_at nb_tx_power_table (unat (coded - 3))"

record network_beacon =
  nb_clusters_max_tx_power :: "clusters_max_tx_power option"
  nb_has_power_constraints :: bool
  nb_current_cluster_channel :: "u32 option"
  nb_channel_0 :: "u32 option"
  nb_channel_1 :: "u32 option"
  nb_channel_2 :: "u32 option"
  nb_network_beacon_period :: network_beacon_period
  nb_cluster_beacon_period :: cluster_beacon_period
  nb_next_cluster_channel :: u32
  nb_time_to_next :: u32

definition nb_zero :: network_beacon where
  "nb_zero = \<lparr>nb_clusters_max_tx_power = None, nb_has_power_constraints = False,
     nb_current_cluster_channel = None, nb_channel_0 = None, nb_channel_1 = None,
     nb_channel_2 = None, nb_network_beacon_period = NBP_not_defined,
     nb_cluster_beacon_period = CBP_not_defined, nb_next_cluster_channel = UNDEFINED_NUMERIC_32,
     nb_time_to_next = UNDEFINED_NUMERIC_32\<rparr>"

definition nb_valid :: "network_beacon \<Rightarrow> bool" where
  "nb_valid m =
     (if \<not> opt_ok (enum_valid tx_power_ec) (nb_clusters_max_tx_power m) then False
      else if \<not> opt_ok is_absolute_channel_number_in_range (nb_current_cluster_channel m) then False
      else if \<not> opt_ok is_absolute_channel_number_in_range (nb_channel_0 m) then False
      else if \<not> opt_ok is_absolute_channel_number_in_range (nb_channel_1 m) then False
      else if \<not> opt_ok is_absolute_channel_number_in_range (nb_channel_2 m) then False
      else if \<not> enum_valid nb_period_ec (nb_network_beacon_period m) then False
      else if \<not> enum_valid cb_period_ec (nb_cluster_beacon_period m) then False
      else if \<not> is_absolute_channel_number_in_range (nb_next_cluster_channel m) then False
      else True)"

definition nb_packed_size :: "network_beacon \<Rightarrow> nat" where
  "nb_packed_size m =
     8 + osz (nb_clusters_max_tx_power m) 1 + osz (nb_current_cluster_channel m) 2
     + osz (nb_channel_0 m) 2 + osz (nb_channel_1 m) 2 + osz (nb_channel_2 m) 2"

definition nb_peek :: "bytes \<Rightarrow> peek_result res" where
  "nb_peek a =
     bindE (rd a 0) (\<lambda>b0. Inr (Inr
       (8 + unat (drop_bit 4 b0 AND 1) + unat (drop_bit 2 b0 AND 1) * 2
          + unat (b0 AND bitmask_lsb 2) * 2)))"

definition nb_pack :: "network_beacon \<Rightarrow> bytes res" where
  "nb_pack m = assertE (nb_valid m) (assert_peek nb_peek (
     [to_byte (push_bit 4 (b2u (has_value (nb_clusters_max_tx_power m))))
        OR to_byte (push_bit 3 (b2u (nb_has_power_constraints m)))
        OR to_byte (push_bit 2 (b2u (has_value (nb_current_cluster_channel m))))
        OR to_byte (b2u (has_value (nb_channel_0 m)) + b2u (has_value (nb_channel_1 m))
             + b2u (has_value (nb_channel_2 m))),
      to_byte (push_bit 4 (to_underlying nb_period_ec (nb_network_beacon_period m)))
        OR to_byte (to_underlying cb_period_ec (nb_cluster_beacon_period m))]
     @ wr_channel (nb_next_cluster_channel m)
     @ l2b_lower (nb_time_to_next m) 4
     @ wr_opt (nb_clusters_max_tx_power m) (\<lambda>v. [to_byte (to_underlying tx_power_ec v)])
     @ wr_opt (nb_current_cluster_channel m) wr_channel
     @ wr_opt (nb_channel_0 m) wr_channel
     @ wr_opt (nb_channel_1 m) wr_channel
     @ wr_opt (nb_channel_2 m) wr_channel))"

definition nb_unpack :: "bytes \<Rightarrow> (bool \<times> network_beacon) res" where
  "nb_unpack a =
     bindE (rd a 0) (\<lambda>b0.
     let n = b0 AND bitmask_lsb 2 in
     bindE (rd a 1) (\<lambda>b1.
     bindE (rd_channel a 2) (\<lambda>next.
     bindE (b2l_lower a 4 4) (\<lambda>ttn.
     bindE (rd_opt (drop_bit 4 b0 AND 1 \<noteq> 0) 8 1 (rd_enum tx_power_ec 4 0 a)) (\<lambda>(tx, off).
     bindE (rd_opt (drop_bit 2 b0 AND 1 \<noteq> 0) off 2 (rd_channel a)) (\<lambda>(cur, off).
     bindE (rd_opt (n = 3 \<or> n = 2 \<or> n = 1) off 2 (rd_channel a)) (\<lambda>(c0, off).
     bindE (rd_opt (n = 3 \<or> n = 2) off 2 (rd_channel a)) (\<lambda>(c1, off).
     bindE (rd_opt (n = 3) off 2 (rd_channel a)) (\<lambda>(c2, off).
     let m = \<lparr>nb_clusters_max_tx_power = tx,
              nb_has_power_constraints = (drop_bit 3 b0 AND 1 \<noteq> 0),
              nb_current_cluster_channel = cur, nb_channel_0 = c0, nb_channel_1 = c1,
              nb_channel_2 = c2,
              nb_network_beacon_period = from_coded_value nb_period_ec (drop_bit 4 b1),
              nb_cluster_beacon_period = from_coded_value cb_period_ec (b1 AND bitmask_lsb 4),
              nb_next_cluster_channel = next, nb_time_to_next = ttn\<rparr>
     in assertE (nb_packed_size m = off) (Inr (nb_valid m, m)))))))))))"

text \<open>The number of additional channels does not tell which of the three are present.\<close>

definition nb_channels_in_order :: "network_beacon \<Rightarrow> bool" where
  "nb_channels_in_order m \<longleftrightarrow>
     (has_value (nb_channel_1 m) \<longrightarrow> has_value (nb_channel_0 m))
   \<and> (has_value (nb_channel_2 m) \<longrightarrow> has_value (nb_channel_1 m))"

text \<open>What a receiver makes of the channels: as many as were sent, from the first one on.\<close>

definition nb_received :: "network_beacon \<Rightarrow> network_beacon" where
  "nb_received m =
     (let cs = List.map_filter id [nb_channel_0 m, nb_channel_1 m, nb_channel_2 m];
          c = (\<lambda>i. if i < length cs then Some (cs ! i) else None)
      in m\<lparr>nb_channel_0 := c 0, nb_channel_1 := c 1, nb_channel_2 := c 2\<rparr>)"

lemma nb_unpack_pack:
  assumes "nb_valid m" "nb_channels_in_order m" "nb_pack m = Inr bs"
  shows "nb_unpack (bs @ r) = Inr (True, m)"
proof -
  obtain tx pc cur c0 c1 c2 nbp cbp nx ttn where m: "m = \<lparr>nb_clusters_max_tx_power = tx,
     nb_has_power_constraints = pc, nb_current_cluster_channel = cur, nb_channel_0 = c0,
     nb_channel_1 = c1, nb_channel_2 = c2, nb_network_beacon_period = nbp,
     nb_cluster_beacon_period = cbp, nb_next_cluster_channel = nx, nb_time_to_next = ttn\<rparr>"
    by (cases m)
  have v: "opt_ok (enum_valid tx_power_ec) tx" "opt_ok is_absolute_channel_number_in_range cur"
    "opt_ok is_absolute_channel_number_in_range c0" "opt_ok is_absolute_channel_number_in_range c1"
    "opt_ok is_absolute_channel_number_in_range c2" "enum_valid nb_period_ec nbp"
    "enum_valid cb_period_ec cbp" "is_absolute_channel_number_in_range nx"
    using assms(1) by (auto simp: m nb_valid_def split: if_splits)
  let ?n = "b2u (has_value c0) + b2u (has_value c1) + b2u (has_value c2) :: u32"
  define b0 where "b0 = to_byte (push_bit 4 (b2u (has_value tx)))
    OR to_byte (push_bit 3 (b2u pc)) OR to_byte (push_bit 2 (b2u (has_value cur)))
    OR to_byte ?n"
  define b1 where "b1 = to_byte (push_bit 4 (to_underlying nb_period_ec nbp))
    OR to_byte (to_underlying cb_period_ec cbp)"
  have n: "fits 2 ?n"
    by (cases "has_value c0"; cases "has_value c1"; cases "has_value c2")
      (simp_all flip: fits_le_numeral)
  have b0: "bit b0 4 = has_value tx" "bit b0 3 = pc"
    "bit b0 2 = has_value cur" "ucast b0 AND mask 2 = ?n"
    using n fits_bit [OF n]
    by (simp_all add: b0_def flag_simps, simp add: field_simps_bits n [THEN fits_mono])
  have k: "?n = 3 \<or> ?n = 2 \<or> ?n = 1 \<longleftrightarrow> has_value c0" "?n = 3 \<or> ?n = 2 \<longleftrightarrow> has_value c1"
    "?n = 3 \<longleftrightarrow> has_value c2"
    using assms(2)
    by (cases "has_value c0"; cases "has_value c1"; cases "has_value c2";
        simp add: nb_channels_in_order_def m)+
  have b1: "from_coded_value nb_period_ec (drop_bit 4 (ucast b1)) = nbp"
    "from_coded_value cb_period_ec (ucast b1 AND mask 4) = cbp"
    using v(6,7) by (simp_all add: b1_def field_simps_bits)
  have bs: "bs = [b0, b1] @ wr_channel nx @ l2b_lower ttn 4
     @ wr_opt tx (\<lambda>v. [to_byte (to_underlying tx_power_ec v)]) @ wr_opt cur wr_channel
     @ wr_opt c0 wr_channel @ wr_opt c1 wr_channel @ wr_opt c2 wr_channel"
    using assms(3) by (simp add: nb_pack_def m b0_def b1_def)
  show ?thesis
    using assms(1) v k
    by (simp add: m bs nb_unpack_def flag_simps b0 b1 Let_def rd_opt_has_value add.assoc
        v(1-5) [THEN opt_okD] nb_packed_size_def)
qed

text \<open>The channels that are received are in order, and pack to the same bytes.\<close>

lemma nb_received_cases:
  obtains "nb_channel_0 (nb_received m) = None" "nb_channel_1 (nb_received m) = None" "nb_channel_2 (nb_received m) = None"
  | "nb_channel_0 (nb_received m) \<noteq> None" "nb_channel_1 (nb_received m) = None" "nb_channel_2 (nb_received m) = None"
  | "nb_channel_0 (nb_received m) \<noteq> None" "nb_channel_1 (nb_received m) \<noteq> None" "nb_channel_2 (nb_received m) = None"
  | "nb_channel_0 (nb_received m) \<noteq> None" "nb_channel_1 (nb_received m) \<noteq> None" "nb_channel_2 (nb_received m) \<noteq> None"
  by (cases "nb_channel_0 m"; cases "nb_channel_1 m"; cases "nb_channel_2 m")
    (auto simp: nb_received_def)

lemma nb_received:
  "nb_channels_in_order (nb_received m)" "nb_valid (nb_received m) = nb_valid m"
  "nb_pack (nb_received m) = nb_pack m" "nb_received m = m \<longleftrightarrow> nb_channels_in_order m"
proof -
  show "nb_channels_in_order (nb_received m)"
    by (rule nb_received_cases [of m]) (auto simp: nb_channels_in_order_def has_value_def)
  show v: "nb_valid (nb_received m) = nb_valid m"
    by (cases "nb_channel_0 m"; cases "nb_channel_1 m"; cases "nb_channel_2 m")
      (auto simp: nb_received_def nb_valid_def)
  show "nb_pack (nb_received m) = nb_pack m"
    unfolding nb_pack_def v
    by (cases "nb_channel_0 m"; cases "nb_channel_1 m"; cases "nb_channel_2 m")
      (simp_all add: nb_received_def)
  show "nb_received m = m \<longleftrightarrow> nb_channels_in_order m"
    by (cases m; cases "nb_channel_0 m"; cases "nb_channel_1 m"; cases "nb_channel_2 m")
      (simp_all add: nb_received_def nb_channels_in_order_def)
qed

lemma nb_unpack_received:
  assumes "nb_valid m" "nb_pack m = Inr bs"
  shows "nb_unpack (bs @ r) = Inr (True, nb_received m)"
  using assms by (intro nb_unpack_pack) (simp_all add: nb_received)

lemma nb_pack_ok:
  assumes "nb_valid m"
  shows "\<exists>bs. nb_pack m = Inr bs \<and> length bs = nb_packed_size m"
    and "nb_pack m = Inr bs \<Longrightarrow> nb_peek (bs @ r) = Inr (Inr (nb_packed_size m))"
proof -
  let ?n = "b2u (has_value (nb_channel_0 m)) + b2u (has_value (nb_channel_1 m))
    + b2u (has_value (nb_channel_2 m))"
  define b0 where "b0 = to_byte (push_bit 4 (b2u (has_value (nb_clusters_max_tx_power m))))
    OR to_byte (push_bit 3 (b2u (nb_has_power_constraints m)))
    OR to_byte (push_bit 2 (b2u (has_value (nb_current_cluster_channel m)))) OR to_byte ?n"
  have n: "fits 2 ?n" "unat ?n = csz (has_value (nb_channel_0 m)) 1
      + csz (has_value (nb_channel_1 m)) 1 + csz (has_value (nb_channel_2 m)) 1"
    by (cases "has_value (nb_channel_0 m)"; cases "has_value (nb_channel_1 m)";
        cases "has_value (nb_channel_2 m)"; simp flip: fits_le_numeral)+
  have b0: "bit b0 4 = has_value (nb_clusters_max_tx_power m)"
    "bit b0 2 = has_value (nb_current_cluster_channel m)" "ucast b0 AND mask 2 = ?n"
    using fits_bit [OF n(1)]
    by (simp_all add: b0_def flag_simps, simp add: field_simps_bits n(1) n(1) [THEN fits_mono])
  have peek: "nb_peek (b0 # bs) = Inr (Inr (nb_packed_size m))" for bs
    by (simp add: nb_peek_def flag_simps b0 n(2) nb_packed_size_def osz_def add_mult_distrib)
  then show "\<exists>bs. nb_pack m = Inr bs \<and> length bs = nb_packed_size m"
    using assms by (simp add: nb_pack_def flip: b0_def) (simp add: nb_packed_size_def)
  show "nb_peek (bs @ r) = Inr (Inr (nb_packed_size m))" if "nb_pack m = Inr bs"
    using that peek by (auto simp: nb_pack_def simp flip: b0_def)
qed

lemma nb_peek_unpack:
  assumes "nb_peek a = Inr (Inr k)" "k \<le> length a"
  shows "\<exists>v m. nb_unpack a = Inr (v, m)"
proof -
  let ?b = "ucast (a ! 0) :: u32"
  have a: "1 \<le> length a" and k: "k = 8 + csz (bit (a ! 0) 4) 1 + csz (bit (a ! 0) 2) 2
      + unat (?b AND mask 2) * 2"
    using assms(1) by (auto simp: nb_peek_def bindE_eq_Inr rd_def flag_simps Suc_le_eq split: if_splits)
  have n: "unat (?b AND mask 2) < 4"
    using unat_fld_less [of 2 0 ?b] by (simp add: field_simps_bits)
  then have n': "unat (?b AND mask 2) = 0 \<or> unat (?b AND mask 2) = 1
      \<or> unat (?b AND mask 2) = 2 \<or> unat (?b AND mask 2) = 3"
    by arith
  have w: "?b AND mask 2 = 3 \<longleftrightarrow> unat (?b AND mask 2) = 3"
    "?b AND mask 2 = 2 \<longleftrightarrow> unat (?b AND mask 2) = 2"
    "?b AND mask 2 = 1 \<longleftrightarrow> unat (?b AND mask 2) = 1"
    by (simp_all add: word_unat_eq_iff)
  have l: "8 + csz (bit (a ! 0) 4) 1 + csz (bit (a ! 0) 2) 2
      + unat (?b AND mask 2) * 2 \<le> length a"
    using assms(2) k by simp
  have "okE {} (nb_unpack a) (\<lambda>_. True)"
    unfolding nb_unpack_def Let_def
    apply (intro ok_intros)
    using l n'
    by (simp_all add: flag_simps w nb_packed_size_def osz_def) (elim disjE; simp)+
  then show ?thesis by (rule okE_total)
qed

lemma nb_peek_total: "1 \<le> length a \<Longrightarrow> \<exists>p. nb_peek a = Inr p"
  by (simp add: nb_peek_def rd_ok)

interpretation nb: total_peeking "\<lambda>m. nb_valid m \<and> nb_channels_in_order m" nb_packed_size nb_pack
  nb_unpack 1 nb_peek
  by unfold_locales
    (use nb_pack_ok nb_unpack_pack nb_peek_total nb_peek_unpack in auto)

subsection \<open>Cluster beacon message\<close>

record cluster_beacon =
  cb_mu :: u32
  cb_system_frame_number :: u32
  cb_clusters_max_tx_power :: "clusters_max_tx_power option"
  cb_has_power_constraints :: bool
  cb_frame_offset :: "u32 option"
  cb_next_cluster_channel :: "u32 option"
  cb_time_to_next :: "u32 option"
  cb_network_beacon_period :: network_beacon_period
  cb_cluster_beacon_period :: cluster_beacon_period
  cb_count_to_trigger :: count_to_trigger
  cb_rel_quality :: quality_threshold
  cb_min_quality :: quality_threshold

definition cb_zero :: "u32 \<Rightarrow> cluster_beacon" where
  "cb_zero mu = \<lparr>cb_mu = mu, cb_system_frame_number = UNDEFINED_NUMERIC_32,
     cb_clusters_max_tx_power = None, cb_has_power_constraints = False, cb_frame_offset = None,
     cb_next_cluster_channel = None, cb_time_to_next = None,
     cb_network_beacon_period = NBP_not_defined, cb_cluster_beacon_period = CBP_not_defined,
     cb_count_to_trigger = CTT_not_defined, cb_rel_quality = QT_not_defined,
     cb_min_quality = QT_not_defined\<rparr>"

definition cb_set_system_frame_number :: "nat \<Rightarrow> cluster_beacon \<Rightarrow> cluster_beacon" where
  "cb_set_system_frame_number sfn m = m\<lparr>cb_system_frame_number := of_nat (sfn mod 256)\<rparr>"

definition fo_size :: "u32 \<Rightarrow> nat" where
  "fo_size mu = (if mu \<le> 4 then 1 else 2)"

definition cb_valid :: "cluster_beacon \<Rightarrow> bool" where
  "cb_valid m =
     (if cb_system_frame_number m > bitmask_lsb 8 then False
      else if \<not> opt_ok (enum_valid tx_power_ec) (cb_clusters_max_tx_power m) then False
      else if \<not> opt_ok (\<lambda>v. \<not> (cb_mu m \<le> 4 \<and> v > bitmask_lsb 8
                              \<or> cb_mu m > 4 \<and> v > bitmask_lsb 16)) (cb_frame_offset m) then False
      else if \<not> opt_ok is_absolute_channel_number_in_range (cb_next_cluster_channel m) then False
      else if \<not> enum_valid nb_period_ec (cb_network_beacon_period m) then False
      else if \<not> enum_valid cb_period_ec (cb_cluster_beacon_period m) then False
      else if \<not> enum_valid count_ec (cb_count_to_trigger m) then False
      else if \<not> enum_valid quality_ec (cb_rel_quality m) then False
      else if \<not> enum_valid quality_ec (cb_min_quality m) then False
      else True)"

definition cb_packed_size :: "cluster_beacon \<Rightarrow> nat" where
  "cb_packed_size m =
     4 + osz (cb_clusters_max_tx_power m) 1 + osz (cb_frame_offset m) (fo_size (cb_mu m))
     + osz (cb_next_cluster_channel m) 2 + osz (cb_time_to_next m) 4"

definition cb_peek :: "u32 \<Rightarrow> bytes \<Rightarrow> peek_result res" where
  "cb_peek mu a =
     bindE (rd a 1) (\<lambda>b1. Inr (Inr
       (4 + unat (drop_bit 4 b1 AND 1) + unat (drop_bit 2 b1 AND 1) * fo_size mu
          + unat (drop_bit 1 b1 AND 1) * 2 + unat (b1 AND 1) * 4)))"

definition cb_pack :: "cluster_beacon \<Rightarrow> bytes res" where
  "cb_pack m = assertE (cb_valid m) (assert_peek (cb_peek (cb_mu m)) (
     [to_byte (cb_system_frame_number m),
      to_byte (push_bit 4 (b2u (has_value (cb_clusters_max_tx_power m))))
        OR to_byte (push_bit 3 (b2u (cb_has_power_constraints m)))
        OR to_byte (push_bit 2 (b2u (has_value (cb_frame_offset m))))
        OR to_byte (push_bit 1 (b2u (has_value (cb_next_cluster_channel m))))
        OR to_byte (b2u (has_value (cb_time_to_next m))),
      to_byte (push_bit 4 (to_underlying nb_period_ec (cb_network_beacon_period m)))
        OR to_byte (to_underlying cb_period_ec (cb_cluster_beacon_period m)),
      to_byte (push_bit 4 (to_underlying count_ec (cb_count_to_trigger m)))
        OR to_byte (push_bit 2 (to_underlying quality_ec (cb_rel_quality m)))
        OR to_byte (to_underlying quality_ec (cb_min_quality m))]
     @ wr_opt (cb_clusters_max_tx_power m) (\<lambda>v. [to_byte (to_underlying tx_power_ec v)])
     @ wr_opt (cb_frame_offset m) (\<lambda>v. l2b_lower v (fo_size (cb_mu m)))
     @ wr_opt (cb_next_cluster_channel m) wr_channel
     @ wr_opt (cb_time_to_next m) (\<lambda>v. l2b_lower v 4)))"

definition cb_unpack :: "u32 \<Rightarrow> bytes \<Rightarrow> (bool \<times> cluster_beacon) res" where
  "cb_unpack mu a =
     bindE (rd a 0) (\<lambda>b0.
     bindE (rd a 1) (\<lambda>b1.
     bindE (rd a 2) (\<lambda>b2.
     bindE (rd a 3) (\<lambda>b3.
     bindE (rd_opt (drop_bit 4 b1 AND 1 \<noteq> 0) 4 1 (rd_enum tx_power_ec 4 0 a)) (\<lambda>(tx, off).
     bindE (rd_opt (drop_bit 2 b1 AND 1 \<noteq> 0) off (fo_size mu) (\<lambda>i. b2l_lower a i (fo_size mu)))
       (\<lambda>(fo, off).
     bindE (rd_opt (drop_bit 1 b1 AND 1 \<noteq> 0) off 2 (rd_channel a)) (\<lambda>(ch, off).
     bindE (rd_opt (b1 AND 1 \<noteq> 0) off 4 (\<lambda>i. b2l_lower a i 4)) (\<lambda>(ttn, off).
     let m = \<lparr>cb_mu = mu, cb_system_frame_number = b0, cb_clusters_max_tx_power = tx,
              cb_has_power_constraints = (drop_bit 3 b1 AND 1 \<noteq> 0), cb_frame_offset = fo,
              cb_next_cluster_channel = ch, cb_time_to_next = ttn,
              cb_network_beacon_period = from_coded_value nb_period_ec (drop_bit 4 b2),
              cb_cluster_beacon_period = from_coded_value cb_period_ec (b2 AND bitmask_lsb 4),
              cb_count_to_trigger = from_coded_value count_ec (drop_bit 4 b3),
              cb_rel_quality = from_coded_value quality_ec (drop_bit 2 b3 AND bitmask_lsb 2),
              cb_min_quality = from_coded_value quality_ec (b3 AND bitmask_lsb 2)\<rparr>
     in assertE (cb_packed_size m = off) (Inr (cb_valid m, m))))))))))"

lemma fo_size_le [simp]: "fo_size mu \<le> 4"
  by (simp add: fo_size_def)

lemma cb_pack_ok:
  assumes "cb_valid m"
  shows "\<exists>bs. cb_pack m = Inr bs \<and> length bs = cb_packed_size m"
    and "cb_pack m = Inr bs \<Longrightarrow> cb_peek (cb_mu m) (bs @ r) = Inr (Inr (cb_packed_size m))"
proof -
  define b1 where "b1 = to_byte (push_bit 4 (b2u (has_value (cb_clusters_max_tx_power m))))
        OR to_byte (push_bit 3 (b2u (cb_has_power_constraints m)))
        OR to_byte (push_bit 2 (b2u (has_value (cb_frame_offset m))))
        OR to_byte (push_bit 1 (b2u (has_value (cb_next_cluster_channel m))))
        OR to_byte (b2u (has_value (cb_time_to_next m)))"
  have b1: "bit b1 4 = has_value (cb_clusters_max_tx_power m)"
    "bit b1 2 = has_value (cb_frame_offset m)" "bit b1 (Suc 0) = has_value (cb_next_cluster_channel m)"
    "bit b1 0 = has_value (cb_time_to_next m)"
    by (simp_all add: b1_def flag_simps)
  have peek: "cb_peek (cb_mu m) (b # b1 # bs) = Inr (Inr (cb_packed_size m))" for b bs
    by (simp add: cb_peek_def flag_simps b1 cb_packed_size_def osz_def)
  then show "\<exists>bs. cb_pack m = Inr bs \<and> length bs = cb_packed_size m"
    using assms by (simp add: cb_pack_def flip: b1_def [unfolded One_nat_def])
      (simp add: cb_packed_size_def)
  show "cb_peek (cb_mu m) (bs @ r) = Inr (Inr (cb_packed_size m))" if "cb_pack m = Inr bs"
    using that peek by (auto simp: cb_pack_def simp flip: b1_def [unfolded One_nat_def])
qed

lemma cb_unpack_pack:
  assumes "cb_valid m" "cb_pack m = Inr bs"
  shows "cb_unpack (cb_mu m) (bs @ r) = Inr (True, m)"
proof -
  obtain mu sfn tx pc fo ch ttn nbp cbp ctt rq mq where m: "m = \<lparr>cb_mu = mu,
     cb_system_frame_number = sfn, cb_clusters_max_tx_power = tx, cb_has_power_constraints = pc,
     cb_frame_offset = fo, cb_next_cluster_channel = ch, cb_time_to_next = ttn,
     cb_network_beacon_period = nbp, cb_cluster_beacon_period = cbp, cb_count_to_trigger = ctt,
     cb_rel_quality = rq, cb_min_quality = mq\<rparr>"
    by (cases m)
  have v: "fits 8 sfn" "opt_ok (enum_valid tx_power_ec) tx"
    "opt_ok (fits (8 * fo_size mu)) fo"
    "opt_ok is_absolute_channel_number_in_range ch" "enum_valid nb_period_ec nbp"
    "enum_valid cb_period_ec cbp" "enum_valid count_ec ctt" "enum_valid quality_ec rq"
    "enum_valid quality_ec mq"
    using assms(1)
    by (auto simp: m cb_valid_def field_simps_bits not_less fo_size_def
        elim!: opt_ok_mono split: if_splits)
  define b1 where "b1 = to_byte (push_bit 4 (b2u (has_value tx)))
    OR to_byte (push_bit 3 (b2u pc)) OR to_byte (push_bit 2 (b2u (has_value fo)))
    OR to_byte (push_bit 1 (b2u (has_value ch))) OR to_byte (b2u (has_value ttn))"
  define b2 where "b2 = to_byte (push_bit 4 (to_underlying nb_period_ec nbp))
    OR to_byte (to_underlying cb_period_ec cbp)"
  define b3 where "b3 = to_byte (push_bit 4 (to_underlying count_ec ctt))
    OR to_byte (push_bit 2 (to_underlying quality_ec rq)) OR to_byte (to_underlying quality_ec mq)"
  have b1: "bit b1 4 = has_value tx" "bit b1 3 = pc" "bit b1 2 = has_value fo"
    "bit b1 (Suc 0) = has_value ch" "bit b1 0 = has_value ttn"
    by (simp_all add: b1_def flag_simps)
  have b2: "from_coded_value nb_period_ec (drop_bit 4 (ucast b2)) = nbp"
    "from_coded_value cb_period_ec (ucast b2 AND mask 4) = cbp"
    using v(5,6) by (simp_all add: b2_def field_simps_bits)
  have b3: "from_coded_value count_ec (drop_bit 4 (ucast b3)) = ctt"
    "from_coded_value quality_ec (drop_bit 2 (ucast b3) AND mask 2) = rq"
    "from_coded_value quality_ec (ucast b3 AND mask 2) = mq"
    using v(7,8,9) by (simp_all add: b3_def field_simps_bits)
  have bs: "bs = [to_byte sfn, b1, b2, b3]
     @ wr_opt tx (\<lambda>v. [to_byte (to_underlying tx_power_ec v)])
     @ wr_opt fo (\<lambda>v. l2b_lower v (fo_size mu)) @ wr_opt ch wr_channel
     @ wr_opt ttn (\<lambda>v. l2b_lower v 4)"
    using assms(2) by (simp add: cb_pack_def m b1_def b2_def b3_def)
  show ?thesis
    using assms(1) v
    by (simp add: m bs cb_unpack_def flag_simps b1 b2 b3 Let_def rd_opt_has_value add.assoc
        v(2-4) [THEN opt_okD] cb_packed_size_def ucast_to_byte_fits)
qed

lemma cb_peek_unpack:
  assumes "cb_peek mu a = Inr (Inr k)" "k \<le> length a"
  shows "\<exists>v m. cb_unpack mu a = Inr (v, m)"
proof -
  have l: "4 + csz (bit (a ! 1) 4) 1 + csz (bit (a ! 1) 2) (fo_size mu) + csz (bit (a ! 1) 1) 2
      + csz (bit (a ! 1) 0) 4 \<le> length a"
    using assms by (auto simp: cb_peek_def bindE_eq_Inr rd_def flag_simps split: if_splits)
  have "okE {} (cb_unpack mu a) (\<lambda>_. True)"
    unfolding cb_unpack_def Let_def
    apply (intro ok_intros)
    using l
    by (simp_all add: flag_simps cb_packed_size_def osz_def)
  then show ?thesis by (rule okE_total)
qed

lemma cb_peek_total: "2 \<le> length a \<Longrightarrow> \<exists>p. cb_peek mu a = Inr p"
  by (simp add: cb_peek_def rd_ok)

interpretation cb: total_peeking "\<lambda>m. cb_valid m \<and> cb_mu m = mu" cb_packed_size cb_pack
  "cb_unpack mu" 2 "cb_peek mu" for mu
  by unfold_locales
    (use cb_pack_ok cb_unpack_pack cb_peek_total cb_peek_unpack in auto)

end
