(* ===== verification/Association_Messages.thy ===== *)
theory Association_Messages
  imports Beacon_Messages
begin

text \<open>
  \<open>sections_part4/mac_messages_and_ie/association_request_message\<close> and
  \<open>association_response_message\<close>, with the HARQ configuration and the flow identifiers that
  the reconfiguration messages use as well.
\<close>

subsection \<open>Enumerations\<close>

datatype setup_cause =
  SC_not_defined | SC_initial | new_set_of_flows_requested | SC_mobility | error_occurred
| own_operating_channel_changed | operating_mode_changed | SC_other | SC_upper

datatype harq_delay =
  HD_not_defined | HD_105_us | HD_200_us | HD_400_us | HD_800_us | HD_1_ms | HD_2_ms | HD_4_ms
| HD_6_ms | HD_8_ms | HD_10_ms | HD_20_ms | HD_30_ms | HD_40_ms | HD_50_ms | HD_60_ms | HD_70_ms
| HD_80_ms | HD_90_ms | HD_100_ms | HD_120_ms | HD_140_ms | HD_160_ms | HD_180_ms | HD_200_ms
| HD_240_ms | HD_280_ms | HD_320_ms | HD_360_ms | HD_400_ms | HD_450_ms | HD_500_ms | HD_upper

datatype flow_id =
  FI_not_defined | FI_lower | higher_layer_signalling_flow_1 | higher_layer_signalling_flow_2
| user_plane_data_flow_1 | user_plane_data_flow_2 | user_plane_data_flow_3
| user_plane_data_flow_4 | FI_upper

definition setup_cause_ec :: "setup_cause coded" where
  "setup_cause_ec = \<lparr>base = 0, has_lower = False, enumerators = [SC_initial,
     new_set_of_flows_requested, SC_mobility, error_occurred, own_operating_channel_changed,
     operating_mode_changed, SC_other, SC_upper], not_defined = SC_not_defined\<rparr>"

definition harq_delay_ec :: "harq_delay coded" where
  "harq_delay_ec = \<lparr>base = 0, has_lower = False, enumerators = [HD_105_us, HD_200_us, HD_400_us,
     HD_800_us, HD_1_ms, HD_2_ms, HD_4_ms, HD_6_ms, HD_8_ms, HD_10_ms, HD_20_ms, HD_30_ms,
     HD_40_ms, HD_50_ms, HD_60_ms, HD_70_ms, HD_80_ms, HD_90_ms, HD_100_ms, HD_120_ms, HD_140_ms,
     HD_160_ms, HD_180_ms, HD_200_ms, HD_240_ms, HD_280_ms, HD_320_ms, HD_360_ms, HD_400_ms,
     HD_450_ms, HD_500_ms, HD_upper], not_defined = HD_not_defined\<rparr>"

definition flow_id_ec :: "flow_id coded" where
  "flow_id_ec = \<lparr>base = 0, has_lower = True, enumerators = [FI_lower,
     higher_layer_signalling_flow_1, higher_layer_signalling_flow_2, user_plane_data_flow_1,
     user_plane_data_flow_2, user_plane_data_flow_3, user_plane_data_flow_4, FI_upper],
     not_defined = FI_not_defined\<rparr>"

interpretation setup_cause_coding: coded_enum setup_cause_ec
  by unfold_locales
    ((simp add: setup_cause_ec_def upper_value_def) | (rename_tac e, case_tac e; simp))+

interpretation harq_delay_coding: coded_enum harq_delay_ec
  by unfold_locales
    ((simp add: harq_delay_ec_def upper_value_def) | (rename_tac e, case_tac e; simp))+

interpretation flow_id_coding: coded_enum flow_id_ec
  by unfold_locales
    ((simp add: flow_id_ec_def upper_value_def) | (rename_tac e, case_tac e; simp))+

lemma association_upper_values [simp, enum_simps]:
  "upper_value setup_cause_ec = 7" "upper_value harq_delay_ec = 31" "upper_value flow_id_ec = 7"
  by (simp_all add: upper_value_def setup_cause_ec_def harq_delay_ec_def flow_id_ec_def)

text \<open>There are six valid flow identifiers.\<close>

lemma flow_id_valid_iff:
  "enum_valid flow_id_ec f \<longleftrightarrow> f \<in> set [higher_layer_signalling_flow_1,
     higher_layer_signalling_flow_2, user_plane_data_flow_1, user_plane_data_flow_2,
     user_plane_data_flow_3, user_plane_data_flow_4]"
  by (cases f) (simp_all add: enum_valid_def flow_id_ec_def)

abbreviation "flow_key \<equiv> to_underlying flow_id_ec"

lemma valid_flows_le_6:
  assumes "set_wf flow_key fs" "list_all (enum_valid flow_id_ec) fs"
  shows "length fs \<le> 6"
proof -
  let ?six = "[higher_layer_signalling_flow_1, higher_layer_signalling_flow_2,
    user_plane_data_flow_1, user_plane_data_flow_2, user_plane_data_flow_3,
    user_plane_data_flow_4]"
  have "set fs \<subseteq> set ?six"
    using assms(2) flow_id_valid_iff by (auto simp: list_all_iff)
  then have "card (set fs) \<le> card (set ?six)" by (intro card_mono) simp_all
  also have "card (set ?six) = 6" by simp
  finally show ?thesis
    using set_wf_distinct [OF assms(1)] by (simp add: distinct_card)
qed

lemma flows_size_fits:
  assumes "n \<le> 6"
  shows "fits 3 (of_nat n)" "unat (of_nat n :: u32) = n"
proof -
  show "unat (of_nat n :: u32) = n"
    using assms by (simp add: unat_of_nat take_bit_nat_eq_self)
  then show "fits 3 (of_nat n)" using assms by (simp add: fits_iff_unat)
qed

subsection \<open>HARQ configuration\<close>

record harq_configuration =
  N_harq_processes :: u32
  max_harq_retransmission_delay :: harq_delay

definition harq_ok :: "harq_configuration \<Rightarrow> bool" where
  "harq_ok h \<longleftrightarrow> \<not> (N_harq_processes h > 7
     \<or> \<not> enum_valid harq_delay_ec (max_harq_retransmission_delay h))"

definition wr_harq :: "harq_configuration \<Rightarrow> bytes" where
  "wr_harq h = [to_byte (push_bit 5 (N_harq_processes h))
     OR to_byte (to_underlying harq_delay_ec (max_harq_retransmission_delay h))]"

definition unpack_harq_config :: "bytes \<Rightarrow> nat \<Rightarrow> harq_configuration res" where
  "unpack_harq_config a off =
     bindE (rd a off) (\<lambda>b. Inr \<lparr>N_harq_processes = drop_bit 5 b,
       max_harq_retransmission_delay = from_coded_value harq_delay_ec (b AND bitmask_lsb 5)\<rparr>)"

lemma length_wr_harq [simp]: "length (wr_harq h) = 1"
  by (simp add: wr_harq_def)

lemma length_wr_opt_harq [simp]: "length (wr_opt x wr_harq) = osz x 1"
  by (rule length_wr_opt) simp

lemma unpack_harq_written [simp]:
  "harq_ok h \<Longrightarrow> unpack_harq_config (wr_harq h @ r) 0 = Inr h"
  by (cases h) (auto simp: unpack_harq_config_def wr_harq_def harq_ok_def field_simps_bits not_less)

lemma unpack_harq_cons [simp]:
  "unpack_harq_config (b # bs) (numeral k) = unpack_harq_config bs (pred_numeral k)"
  "unpack_harq_config (b # bs) (Suc i) = unpack_harq_config bs i"
  "unpack_harq_config (b # bs) (numeral k + i) = unpack_harq_config bs (pred_numeral k + i)"
  "unpack_harq_config (b # bs) (1 + i) = unpack_harq_config bs i"
  by (simp_all add: unpack_harq_config_def numeral_eq_Suc)

lemma unpack_harq_append [simp]:
  "length xs \<le> i \<Longrightarrow> unpack_harq_config (xs @ ys) i = unpack_harq_config ys (i - length xs)"
  by (simp add: unpack_harq_config_def)

lemma okE_unpack_harq [ok_intros]:
  "Suc i \<le> length a \<Longrightarrow> (\<And>h. P h) \<Longrightarrow> okE F (unpack_harq_config a i) P"
  by (simp add: unpack_harq_config_def rd_ok okE_def)

subsection \<open>Association request message\<close>

record ft_configuration =
  ft_network_beacon_period :: network_beacon_period
  ft_cluster_beacon_period :: cluster_beacon_period
  ft_next_cluster_channel :: u32
  ft_time_to_next :: u32

record association_request =
  aq_setup_cause :: setup_cause
  aq_flow_ids :: "flow_id list"
  aq_has_power_constraints :: bool
  aq_ft_configuration :: "ft_configuration option"
  aq_current_cluster_channel :: "u32 option"
  aq_harq_tx :: harq_configuration
  aq_harq_rx :: harq_configuration

definition harq_not_defined :: harq_configuration where
  "harq_not_defined = \<lparr>N_harq_processes = UNDEFINED_NUMERIC_32,
     max_harq_retransmission_delay = HD_not_defined\<rparr>"

definition aq_zero :: association_request where
  "aq_zero = \<lparr>aq_setup_cause = SC_not_defined, aq_flow_ids = [], aq_has_power_constraints = False,
     aq_ft_configuration = None, aq_current_cluster_channel = None,
     aq_harq_tx = harq_not_defined, aq_harq_rx = harq_not_defined\<rparr>"

definition ft_ok :: "ft_configuration \<Rightarrow> bool" where
  "ft_ok f =
     (if \<not> enum_valid nb_period_ec (ft_network_beacon_period f) then False
      else if \<not> enum_valid cb_period_ec (ft_cluster_beacon_period f) then False
      else if \<not> is_absolute_channel_number_in_range (ft_next_cluster_channel f) then False
      else True)"

definition aq_valid :: "association_request \<Rightarrow> bool" where
  "aq_valid m =
     (if \<not> enum_valid setup_cause_ec (aq_setup_cause m) then False
      else if aq_flow_ids m = [] \<or> \<not> list_all (enum_valid flow_id_ec) (aq_flow_ids m) then False
      else if \<not> opt_ok ft_ok (aq_ft_configuration m) then False
      else if \<not> opt_ok is_absolute_channel_number_in_range (aq_current_cluster_channel m) then False
      else if \<not> harq_ok (aq_harq_tx m) then False
      else if \<not> harq_ok (aq_harq_rx m) then False
      else True)"

definition aq_size :: "association_request \<Rightarrow> nat" where
  "aq_size m = 4 + length (aq_flow_ids m) + osz (aq_ft_configuration m) 7
     + osz (aq_current_cluster_channel m) 2"

definition aq_packed_size :: "association_request \<Rightarrow> nat res" where
  "aq_packed_size m = assertE (aq_valid m) (Inr (aq_size m))"

definition aq_peek :: "bytes \<Rightarrow> peek_result res" where
  "aq_peek a =
     bindE (rd a 0) (\<lambda>b0.
     let N_flows = drop_bit 2 b0 AND 7 in
     if N_flows < 7
     then bindE (rd a 1) (\<lambda>b1.
          Inr (Inr (4 + unat N_flows + unat (b0 AND 1) * 7 + unat (drop_bit 7 b1) * 2)))
     else Inr (Inl NONRESERVED_FIELD_SET_TO_RESERVED))"

definition wr_ft :: "ft_configuration \<Rightarrow> bytes" where
  "wr_ft f =
     [to_byte (push_bit 4 (to_underlying nb_period_ec (ft_network_beacon_period f)))
      OR to_byte (to_underlying cb_period_ec (ft_cluster_beacon_period f))]
     @ wr_channel (ft_next_cluster_channel f) @ l2b_lower (ft_time_to_next f) 4"

text \<open>The network beacon period is masked with the four most significant of 32 bits.\<close>

definition rd_ft :: "bytes \<Rightarrow> nat \<Rightarrow> ft_configuration res" where
  "rd_ft a off =
     bindE (rd a off) (\<lambda>b.
     bindE (rd_channel a (off + 1)) (\<lambda>ch.
     bindE (b2l_lower a (off + 3) 4) (\<lambda>ttn.
     Inr \<lparr>ft_network_beacon_period = from_coded_value nb_period_ec (b AND bitmask_msb 4),
          ft_cluster_beacon_period = from_coded_value cb_period_ec (b AND bitmask_lsb 4),
          ft_next_cluster_channel = ch, ft_time_to_next = ttn\<rparr>)))"

definition aq_pack :: "association_request \<Rightarrow> bytes res" where
  "aq_pack m = assertE (aq_valid m) (assert_peek aq_peek (
     [to_byte (push_bit 5 (to_underlying setup_cause_ec (aq_setup_cause m)))
        OR to_byte (push_bit 2 (of_nat (length (aq_flow_ids m))))
        OR to_byte (push_bit 1 (b2u (aq_has_power_constraints m)))
        OR to_byte (b2u (has_value (aq_ft_configuration m))),
      to_byte (push_bit 7 (b2u (has_value (aq_current_cluster_channel m))))]
     @ wr_harq (aq_harq_tx m) @ wr_harq (aq_harq_rx m)
     @ map (\<lambda>f. to_byte (to_underlying flow_id_ec f)) (aq_flow_ids m)
     @ wr_opt (aq_ft_configuration m) wr_ft
     @ wr_opt (aq_current_cluster_channel m) wr_channel))"

definition aq_unpack :: "bytes \<Rightarrow> (bool \<times> association_request) res" where
  "aq_unpack a =
     bindE (rd a 0) (\<lambda>b0.
     bindE (rd a 1) (\<lambda>b1.
     bindE (unpack_harq_config a 2) (\<lambda>tx.
     bindE (unpack_harq_config a 3) (\<lambda>rx.
     bindE (rd_loop (rd_enum flow_id_ec 6 0 a) (set_insert flow_key)
              (unat (drop_bit 2 b0 AND bitmask_lsb 3)) 4 []) (\<lambda>(flows, off).
     bindE (rd_opt (b0 AND 1 \<noteq> 0) off 7 (rd_ft a)) (\<lambda>(ft, off).
     bindE (rd_opt (drop_bit 7 b1 \<noteq> 0) off 2 (rd_channel a)) (\<lambda>(cur, off).
     let m = \<lparr>aq_setup_cause = from_coded_value setup_cause_ec (drop_bit 5 b0),
              aq_flow_ids = flows, aq_has_power_constraints = (b0 AND 2 \<noteq> 0),
              aq_ft_configuration = ft, aq_current_cluster_channel = cur,
              aq_harq_tx = tx, aq_harq_rx = rx\<rparr>
     in bindE (aq_packed_size m) (\<lambda>n. assertE (n = off) (Inr (aq_valid m, m))))))))))"

text \<open>What the receiver of a request obtains: the network beacon period is always 50 ms.\<close>

definition aq_received :: "association_request \<Rightarrow> association_request" where
  "aq_received m = m\<lparr>aq_ft_configuration :=
     map_option (\<lambda>f. f\<lparr>ft_network_beacon_period := NBP_50_ms\<rparr>) (aq_ft_configuration m)\<rparr>"

lemma length_wr_opt_ft [simp]: "length (wr_opt x wr_ft) = osz x 7"
  by (rule length_wr_opt) (simp add: wr_ft_def)

lemma rd_ft_cons [simp]:
  "rd_ft (b # bs) (numeral k) = rd_ft bs (pred_numeral k)"
  "rd_ft (b # bs) (Suc i) = rd_ft bs i"
  "rd_ft (b # bs) (numeral k + i) = rd_ft bs (pred_numeral k + i)"
  "rd_ft (b # bs) (1 + i) = rd_ft bs i"
  by (simp_all add: rd_ft_def numeral_eq_Suc)

lemma rd_ft_append [simp]:
  "length xs \<le> i \<Longrightarrow> rd_ft (xs @ ys) i = rd_ft ys (i - length xs)"
  by (simp add: rd_ft_def Suc_diff_le)

lemma byte_and_msb [simp]: "ucast (b :: u8) AND (bitmask_msb 4 :: u32) = 0"
  by (rule bit_word_eqI) (auto simp: bit_simps bit_bitmask_msb)

lemma from_coded_nb_0 [simp]: "from_coded_value nb_period_ec 0 = NBP_50_ms"
  by (simp add: from_coded_value_def nb_period_ec_def upper_value_def)

lemma rd_ft_written:
  assumes "ft_ok f"
  shows "rd_ft (wr_ft f @ r) 0 = Inr (f\<lparr>ft_network_beacon_period := NBP_50_ms\<rparr>)"
  using assms
  by (cases f) (auto simp: ft_ok_def rd_ft_def wr_ft_def field_simps_bits split: if_splits)

lemma okE_rd_ft [ok_intros]: "i + 7 \<le> length a \<Longrightarrow> (\<And>f. P f) \<Longrightarrow> okE F (rd_ft a i) P"
  unfolding rd_ft_def by (intro ok_intros) simp_all

lemma aq_head:
  assumes "aq_valid m" "set_wf flow_key (aq_flow_ids m)"
  defines "b0 \<equiv> to_byte (push_bit 5 (to_underlying setup_cause_ec (aq_setup_cause m)))
    OR to_byte (push_bit 2 (of_nat (length (aq_flow_ids m))))
    OR to_byte (push_bit 1 (b2u (aq_has_power_constraints m)))
    OR to_byte (b2u (has_value (aq_ft_configuration m)))"
  shows "bit b0 0 = has_value (aq_ft_configuration m)" "bit b0 (Suc 0) = aq_has_power_constraints m"
    "drop_bit 2 (ucast b0) AND 7 = (of_nat (length (aq_flow_ids m)) :: u32)"
    "drop_bit 2 (ucast b0) AND mask 3 = (of_nat (length (aq_flow_ids m)) :: u32)"
    "from_coded_value setup_cause_ec (drop_bit 5 (ucast b0)) = aq_setup_cause m"
    "unat (of_nat (length (aq_flow_ids m)) :: u32) = length (aq_flow_ids m)"
    "of_nat (length (aq_flow_ids m)) < (7 :: u32)"
proof -
  have v: "enum_valid setup_cause_ec (aq_setup_cause m)"
    "list_all (enum_valid flow_id_ec) (aq_flow_ids m)"
    using assms(1) by (auto simp: aq_valid_def split: if_splits)
  have n: "length (aq_flow_ids m) \<le> 6"
    using valid_flows_le_6 [OF assms(2) v(2)] .
  note f = flows_size_fits [OF n]
  then show "unat (of_nat (length (aq_flow_ids m)) :: u32) = length (aq_flow_ids m)" by simp
  then show "of_nat (length (aq_flow_ids m)) < (7 :: u32)"
    using n by (simp add: word_less_nat_alt)
  show "bit b0 0 = has_value (aq_ft_configuration m)" "bit b0 (Suc 0) = aq_has_power_constraints m"
    by (simp_all add: b0_def flag_simps)
  show "drop_bit 2 (ucast b0) AND mask 3 = (of_nat (length (aq_flow_ids m)) :: u32)"
    using v(1) f(1) by (simp add: b0_def field_simps_bits numeral_2_eq_2)
  show "drop_bit 2 (ucast b0) AND 7 = (of_nat (length (aq_flow_ids m)) :: u32)"
    "from_coded_value setup_cause_ec (drop_bit 5 (ucast b0)) = aq_setup_cause m"
    using v(1) f(1) by (simp add: b0_def field_simps_bits numeral_2_eq_2)
      (use v(1) f(1) in \<open>simp add: b0_def field_simps_bits\<close>)
qed

lemma aq_pack_ok:
  assumes "aq_valid m" "set_wf flow_key (aq_flow_ids m)"
  shows "\<exists>bs. aq_pack m = Inr bs \<and> length bs = aq_size m"
    and "aq_pack m = Inr bs \<Longrightarrow> aq_peek (bs @ r) = Inr (Inr (aq_size m))"
proof -
  define b0 where "b0 = to_byte (push_bit 5 (to_underlying setup_cause_ec (aq_setup_cause m)))
    OR to_byte (push_bit 2 (of_nat (length (aq_flow_ids m))))
    OR to_byte (push_bit 1 (b2u (aq_has_power_constraints m)))
    OR to_byte (b2u (has_value (aq_ft_configuration m)))"
  define b1 where "b1 = to_byte (push_bit 7 (b2u (has_value (aq_current_cluster_channel m))))"
  note h = aq_head [OF assms, folded b0_def]
  have b1: "bit b1 7 = has_value (aq_current_cluster_channel m)"
    by (simp add: b1_def flag_simps)
  have peek: "aq_peek (b0 # b1 # bs) = Inr (Inr (aq_size m))" for bs
    by (simp add: aq_peek_def h b1 flag_simps aq_size_def osz_def Let_def)
  have pack: "aq_pack m = assertE (aq_valid m) (assert_peek aq_peek ([b0, b1]
     @ wr_harq (aq_harq_tx m) @ wr_harq (aq_harq_rx m)
     @ map (\<lambda>f. to_byte (to_underlying flow_id_ec f)) (aq_flow_ids m)
     @ wr_opt (aq_ft_configuration m) wr_ft
     @ wr_opt (aq_current_cluster_channel m) wr_channel))"
    by (simp only: aq_pack_def b0_def b1_def)
  show "\<exists>bs. aq_pack m = Inr bs \<and> length bs = aq_size m"
    using assms(1) peek by (simp add: pack) (simp add: aq_size_def)
  show "aq_peek (bs @ r) = Inr (Inr (aq_size m))" if "aq_pack m = Inr bs"
    using that peek by (auto simp: pack)
qed

lemma aq_unpack_pack:
  assumes "aq_valid m" "set_wf flow_key (aq_flow_ids m)" "aq_pack m = Inr bs"
  shows "aq_unpack (bs @ r) = Inr (True, aq_received m)"
proof -
  obtain sc fl pc ft cur tx rx where m: "m = \<lparr>aq_setup_cause = sc, aq_flow_ids = fl,
     aq_has_power_constraints = pc, aq_ft_configuration = ft, aq_current_cluster_channel = cur,
     aq_harq_tx = tx, aq_harq_rx = rx\<rparr>"
    by (cases m)
  have v: "enum_valid setup_cause_ec sc" "fl \<noteq> []" "list_all (enum_valid flow_id_ec) fl"
    "opt_ok ft_ok ft" "opt_ok is_absolute_channel_number_in_range cur" "harq_ok tx" "harq_ok rx"
    using assms(1) by (auto simp: m aq_valid_def split: if_splits)
  have wf: "set_wf flow_key fl" using assms(2) by (simp add: m)
  define b0 where "b0 = to_byte (push_bit 5 (to_underlying setup_cause_ec sc))
    OR to_byte (push_bit 2 (of_nat (length fl))) OR to_byte (push_bit 1 (b2u pc))
    OR to_byte (b2u (has_value ft))"
  define b1 where "b1 = to_byte (push_bit 7 (b2u (has_value cur)))"
  note h = aq_head [OF assms(1,2), unfolded m, simplified association_request.simps, folded b0_def]
  have b1: "bit b1 7 = has_value cur" by (simp add: b1_def flag_simps)
  have bs: "bs = [b0, b1] @ wr_harq tx @ wr_harq rx
     @ map (\<lambda>f. to_byte (to_underlying flow_id_ec f)) fl @ wr_opt ft wr_ft @ wr_opt cur wr_channel"
    using assms(3) by (simp add: aq_pack_def m b0_def b1_def)
  let ?ft = "map_option (\<lambda>f. f\<lparr>ft_network_beacon_period := NBP_50_ms\<rparr>) ft"
  have ft: "rd_opt (has_value ft) off 7 f = Inr (?ft, off + osz ft 7)"
    if "\<And>x. ft = Some x \<Longrightarrow> f off = Inr (x\<lparr>ft_network_beacon_period := NBP_50_ms\<rparr>)" for f off
    using that by (cases ft) (simp_all add: rd_opt_def)
  have "enum_valid nb_period_ec NBP_50_ms"
    by (simp add: enum_valid_def nb_period_ec_def)
  then have "opt_ok ft_ok ?ft"
    using v(4) by (cases ft) (auto simp: ft_ok_def split: if_splits)
  then have ok: "aq_valid (aq_received m)"
    using v by (simp add: aq_valid_def aq_received_def m)
  have sz: "aq_size (aq_received m) = aq_size m"
    by (cases ft) (simp_all add: aq_received_def aq_size_def m)
  have loop: "rd_loop (rd_enum flow_id_ec 6 0 (bs @ r)) (set_insert flow_key) (length fl) 4 []
      = Inr (fl, 4 + length fl)"
    by (rule rd_loop_set [OF _ wf]) (use v(3) in \<open>simp_all add: bs\<close>)
  have opt1: "rd_opt (has_value ft) (4 + length fl) 7 (rd_ft (bs @ r))
      = Inr (?ft, 4 + length fl + osz ft 7)"
    using v(4) by (intro ft) (simp add: bs rd_ft_written add.assoc)
  have opt2: "rd_opt (has_value cur) (4 + length fl + osz ft 7) 2 (rd_channel (bs @ r))
      = Inr (cur, 4 + length fl + osz ft 7 + osz cur 2)"
    by (intro rd_opt_has_value) (simp add: bs add.assoc v(5) [THEN opt_okD])
  have hd: "rd (bs @ r) 0 = Inr (ucast b0)" "rd (bs @ r) (Suc 0) = Inr (ucast b1)"
    "unpack_harq_config (bs @ r) 2 = Inr tx" "unpack_harq_config (bs @ r) 3 = Inr rx"
    using v(6,7) by (simp_all add: bs)
  show ?thesis
    using ok sz
    by (simp add: aq_unpack_def hd h b1 flag_simps loop [simplified] opt1 opt2 Let_def
      aq_packed_size_def aq_received_def m aq_size_def)
qed

lemma aq_peek_total: "2 \<le> length a \<Longrightarrow> \<exists>p. aq_peek a = Inr p"
  by (simp add: aq_peek_def rd_ok Let_def)

text \<open>
  Unpacking reads only the bytes that peeking announces, but it stops with the assertion in
  \<open>get_packed_size\<close> when a received field is not valid.
\<close>

lemma aq_unpack_in_bounds:
  assumes "aq_peek a = Inr (Inr k)" "k \<le> length a"
  shows "aq_unpack a \<noteq> Inl Out_of_bounds_read"
proof -
  have m: "mask 3 = (7 :: u32)" by (simp add: mask_eq_exp_minus_1)
  have l: "4 + unat (drop_bit 2 (ucast (a ! 0)) AND 7 :: u32) + csz (bit (a ! 0) 0) 7
      + csz (bit (a ! 1) 7) 2 \<le> length a"
    using assms by (auto simp: aq_peek_def bindE_eq_Inr rd_def flag_simps Let_def split: if_splits)
  have "okE {Assertion_failed} (aq_unpack a) (\<lambda>_. True)"
    unfolding aq_unpack_def Let_def aq_packed_size_def
    apply (intro ok_intros)
    using l by (simp_all add: flag_simps m)
  then show ?thesis by (rule okE_in_bounds) simp
qed

interpretation aq: peeking
  "\<lambda>m. aq_valid m \<and> set_wf flow_key (aq_flow_ids m) \<and> aq_received m = m" aq_size aq_pack
  aq_unpack 2 aq_peek
proof (unfold_locales, goal_cases)
  case (1 m) then show ?case using aq_pack_ok by blast
next
  case (2 m bs r) then show ?case using aq_unpack_pack [of m bs r] by simp
next
  case (3 a) then show ?case by (rule aq_peek_total)
next
  case (4 m bs r) then show ?case using aq_pack_ok by blast
qed

subsection \<open>Association response message\<close>

datatype reject_cause =
  RJC_not_defined | radio_capacity_not_sufficient | hw_capacity_not_sufficient
| conflicting_short_rd_id | association_request_not_secure | RJC_other | RJC_upper

datatype reject_time =
  RJT_not_defined | RJT_0_s | RJT_5_s | RJT_10_s | RJT_30_s | RJT_60_s | RJT_120_s | RJT_180_s
| RJT_300_s | RJT_600_s | RJT_upper

datatype nof_flows_accepted = NF_not_defined | NF_none | as_included | as_requested | NF_upper

definition reject_cause_ec :: "reject_cause coded" where
  "reject_cause_ec = \<lparr>base = 0, has_lower = False, enumerators = [radio_capacity_not_sufficient,
     hw_capacity_not_sufficient, conflicting_short_rd_id, association_request_not_secure, RJC_other,
     RJC_upper], not_defined = RJC_not_defined\<rparr>"

definition reject_time_ec :: "reject_time coded" where
  "reject_time_ec = \<lparr>base = 0, has_lower = False, enumerators = [RJT_0_s, RJT_5_s, RJT_10_s,
     RJT_30_s, RJT_60_s, RJT_120_s, RJT_180_s, RJT_300_s, RJT_600_s, RJT_upper],
     not_defined = RJT_not_defined\<rparr>"

interpretation reject_cause_coding: coded_enum reject_cause_ec
  by unfold_locales
    ((simp add: reject_cause_ec_def upper_value_def) | (rename_tac e, case_tac e; simp))+

interpretation reject_time_coding: coded_enum reject_time_ec
  by unfold_locales
    ((simp add: reject_time_ec_def upper_value_def) | (rename_tac e, case_tac e; simp))+

lemma reject_upper_values [simp, enum_simps]:
  "upper_value reject_cause_ec = 5" "upper_value reject_time_ec = 9"
  by (simp_all add: upper_value_def reject_cause_ec_def reject_time_ec_def)

text \<open>The codes of \<open>nof_flows_accepted_t\<close> are not consecutive.\<close>

fun nof_flows_code :: "nof_flows_accepted \<Rightarrow> u32" where
  "nof_flows_code NF_not_defined = UNDEFINED_NUMERIC_32"
| "nof_flows_code NF_none = 0"
| "nof_flows_code as_included = 1"
| "nof_flows_code as_requested = 7"
| "nof_flows_code NF_upper = 8"

definition nof_flows_valid :: "nof_flows_accepted \<Rightarrow> bool" where
  "nof_flows_valid n =
     (if n = NF_not_defined then False else if n = NF_upper then False else True)"

record reject_info =
  rj_reject_cause :: reject_cause
  rj_reject_time :: reject_time

record harq_configuration_tx_rx =
  harq_tx :: harq_configuration
  harq_rx :: harq_configuration

record group_info =
  gi_group_id :: u32
  gi_resource_tag :: u32

record association_response =
  ap_reject_info :: "reject_info option"
  ap_harq_configuration :: "harq_configuration_tx_rx option"
  ap_nof_flows_accepted :: nof_flows_accepted
  ap_flow_ids :: "flow_id list"
  ap_group_info :: "group_info option"
  ap_tx_power :: bool

definition ap_zero :: association_response where
  "ap_zero = \<lparr>ap_reject_info = None, ap_harq_configuration = None,
     ap_nof_flows_accepted = NF_not_defined, ap_flow_ids = [], ap_group_info = None,
     ap_tx_power = False\<rparr>"

definition ap_valid :: "association_response \<Rightarrow> bool" where
  "ap_valid m =
     (case ap_reject_info m of
        Some r \<Rightarrow> enum_valid reject_cause_ec (rj_reject_cause r)
                  \<and> enum_valid reject_time_ec (rj_reject_time r)
      | None \<Rightarrow>
          (if \<not> opt_ok (\<lambda>h. harq_ok (harq_rx h) \<and> harq_ok (harq_tx h)) (ap_harq_configuration m)
           then False
           else if \<not> nof_flows_valid (ap_nof_flows_accepted m)
                   \<or> ap_nof_flows_accepted m = as_included \<and> ap_flow_ids m = [] then False
           else if \<not> list_all (enum_valid flow_id_ec) (ap_flow_ids m) then False
           else if \<not> opt_ok (\<lambda>g. \<not> (gi_group_id g > bitmask_lsb 7 \<or> gi_resource_tag g > bitmask_lsb 7))
                     (ap_group_info m) then False
           else True))"

definition ap_size :: "association_response \<Rightarrow> nat" where
  "ap_size m =
     (if has_value (ap_reject_info m) then 2
      else 1 + osz (ap_harq_configuration m) 2 + length (ap_flow_ids m) + osz (ap_group_info m) 2)"

definition ap_packed_size :: "association_response \<Rightarrow> nat res" where
  "ap_packed_size m = assertE (ap_valid m) (Inr (ap_size m))"

text \<open>
  The condition for a rejection is written \<open>~p[0] >> 7\<close> in the code. The byte is promoted to
  a signed \<open>int\<close> before it is complemented and shifted.
\<close>

definition reject_bit :: "u32 \<Rightarrow> bool" where
  "reject_bit b0 \<longleftrightarrow> drop_bit 7 (NOT (uint b0)) \<noteq> 0"

definition ap_peek :: "bytes \<Rightarrow> peek_result res" where
  "ap_peek a =
     bindE (rd a 0) (\<lambda>b0.
     if reject_bit b0 then Inr (Inr 2)
     else let N_flows = drop_bit 2 b0 AND 7 in
       Inr (Inr (1 + unat (drop_bit 5 b0 AND 1) * 2
         + (if N_flows \<noteq> nof_flows_code as_requested then unat N_flows else 0)
         + unat (b0 AND 2) * 2)))"

definition ap_pack :: "association_response \<Rightarrow> bytes res" where
  "ap_pack m = assertE (ap_valid m)
     (case ap_reject_info m of
        Some r \<Rightarrow> assert_peek ap_peek
          [0, to_byte (push_bit 4 (to_underlying reject_cause_ec (rj_reject_cause r)))
              OR to_byte (to_underlying reject_time_ec (rj_reject_time r))]
      | None \<Rightarrow> assert_peek ap_peek (
          [to_byte (push_bit 7 1)
             OR to_byte (push_bit 5 (b2u (has_value (ap_harq_configuration m))))
             OR to_byte (push_bit 2 (if ap_nof_flows_accepted m = as_included
                  then of_nat (length (ap_flow_ids m)) else nof_flows_code (ap_nof_flows_accepted m)))
             OR to_byte (push_bit 1 (b2u (has_value (ap_group_info m))))
             OR to_byte (b2u (ap_tx_power m))]
          @ wr_opt (ap_harq_configuration m) (\<lambda>h. wr_harq (harq_rx h) @ wr_harq (harq_tx h))
          @ map (\<lambda>f. to_byte (to_underlying flow_id_ec f)) (ap_flow_ids m)
          @ wr_opt (ap_group_info m) (\<lambda>g. [to_byte (gi_group_id g), to_byte (gi_resource_tag g)])))"

definition ap_unpack :: "bytes \<Rightarrow> (bool \<times> association_response) res" where
  "ap_unpack a =
     bindE (rd a 0) (\<lambda>b0.
     if reject_bit b0
     then bindE (rd a 1) (\<lambda>b1.
       let m = ap_zero\<lparr>ap_reject_info := Some
                 \<lparr>rj_reject_cause = from_coded_value reject_cause_ec (drop_bit 4 b1),
                  rj_reject_time = from_coded_value reject_time_ec (b1 AND 15)\<rparr>\<rparr>
       in bindE (ap_packed_size m) (\<lambda>n. assertE (n = 2) (Inr (ap_valid m, m))))
     else
       bindE (rd_opt (drop_bit 5 b0 AND 1 \<noteq> 0) 1 2 (\<lambda>i.
                bindE (unpack_harq_config a i) (\<lambda>rx.
                bindE (unpack_harq_config a (i + 1)) (\<lambda>tx.
                Inr \<lparr>harq_tx = tx, harq_rx = rx\<rparr>)))) (\<lambda>(harq, off).
       let N_flows = drop_bit 2 b0 AND 7 in
       bindE (if N_flows = nof_flows_code NF_none then Inr (NF_none, [], off)
              else if N_flows = nof_flows_code as_requested then Inr (as_requested, [], off)
              else bindE (rd_loop (rd_enum flow_id_ec 6 0 a) (set_insert flow_key)
                      (unat N_flows) off []) (\<lambda>(flows, off). Inr (as_included, flows, off)))
         (\<lambda>(nof, flows, off).
       bindE (rd_opt (b0 AND 2 \<noteq> 0) off 2 (\<lambda>i.
                bindE (rd a i) (\<lambda>g. bindE (rd a (i + 1)) (\<lambda>t.
                Inr \<lparr>gi_group_id = g AND bitmask_lsb 7, gi_resource_tag = t AND bitmask_lsb 7\<rparr>))))
         (\<lambda>(group, off).
       let m = \<lparr>ap_reject_info = None, ap_harq_configuration = harq,
                ap_nof_flows_accepted = nof, ap_flow_ids = flows, ap_group_info = group,
                ap_tx_power = (b0 AND 1 \<noteq> 0)\<rparr>
       in bindE (ap_packed_size m) (\<lambda>n. assertE (n = off) (Inr (ap_valid m, m)))))))"

text \<open>The complement of a promoted byte is negative, so every byte counts as a rejection.\<close>

lemma reject_bit_always [simp]: "reject_bit b"
proof -
  have "- 1 < uint b"
    using uint_ge_0 [of b] by linarith
  then have "drop_bit 7 (NOT (uint b)) < 0"
    by (simp add: drop_bit_negative_int_iff not_int_def)
  then show ?thesis unfolding reject_bit_def by (rule less_imp_neq)
qed

lemma ap_peek_2: "1 \<le> length a \<Longrightarrow> ap_peek a = Inr (Inr 2)"
  by (simp add: ap_peek_def rd_ok)

lemma ap_unpack_reject:
  assumes "ap_unpack a = Inr (v, m)"
  shows "has_value (ap_reject_info m)"
  using assms by (auto simp: ap_unpack_def bindE_eq_Inr Let_def)

lemma ap_pack_iff:
  "(\<exists>bs. ap_pack m = Inr bs) \<longleftrightarrow> ap_valid m \<and> ap_size m = 2"
  by (cases "ap_reject_info m"; cases "ap_harq_configuration m"; cases "ap_group_info m")
    (auto simp: ap_pack_def ap_size_def ap_peek_2)

text \<open>An acceptance has the size of a rejection if it holds one flow identity and nothing else.\<close>

lemma ap_size_2:
  assumes "ap_valid m" "ap_size m = 2" "ap_reject_info m = None"
  obtains f where "ap_flow_ids m = [f]" "ap_harq_configuration m = None" "ap_group_info m = None"
    "enum_valid flow_id_ec f"
proof -
  have h: "ap_harq_configuration m = None" "ap_group_info m = None" "length (ap_flow_ids m) = 1"
    using assms(2,3) by (cases "ap_harq_configuration m"; cases "ap_group_info m"; simp add: ap_size_def)+
  then obtain f where f: "ap_flow_ids m = [f]" by (cases "ap_flow_ids m") auto
  moreover have "enum_valid flow_id_ec f" using assms(1,3) f by (auto simp: ap_valid_def split: if_splits)
  ultimately show thesis using h that by blast
qed

text \<open>What a receiver makes of a response: the code of the flow identity is read as the time of a
rejection.\<close>

definition ap_received :: "association_response \<Rightarrow> association_response" where
  "ap_received m = ap_zero\<lparr>ap_reject_info := Some
     (case ap_reject_info m of
        Some r \<Rightarrow> r
      | None \<Rightarrow> \<lparr>rj_reject_cause = from_coded_value reject_cause_ec 0,
          rj_reject_time = from_coded_value reject_time_ec (to_underlying flow_id_ec (hd (ap_flow_ids m)))\<rparr>)\<rparr>"

lemma ap_accept_received:
  assumes "ap_valid m" "ap_reject_info m = None" "ap_pack m = Inr bs"
  shows "ap_unpack (bs @ s) = Inr (True, ap_received m)"
proof -
  have "ap_size m = 2" using ap_pack_iff [of m] assms(3) by blast
  then obtain f where f: "ap_flow_ids m = [f]" "ap_harq_configuration m = None" "ap_group_info m = None"
    "enum_valid flow_id_ec f" by (rule ap_size_2 [OF assms(1) _ assms(2)])
  obtain b0 where bs: "bs = [b0, to_byte (to_underlying flow_id_ec f)]"
    using assms f by (auto simp: ap_pack_def)
  define k where "k = flow_key f"
  have "k \<in> set [1, 2, 3, 4, 5, 6]"
    using f(4) flow_id_valid_iff by (cases f) (simp_all add: k_def to_underlying_def flow_id_ec_def)
  moreover have "list_all (\<lambda>k. drop_bit 4 (ucast (to_byte k)) = (0 :: u32) \<and> ucast (to_byte k) AND 15 = k
      \<and> enum_valid reject_time_ec (from_coded_value reject_time_ec k)) [1, 2, 3, 4, 5, 6]"
    by code_simp
  ultimately have v: "drop_bit 4 (ucast (to_byte k)) = (0 :: u32)" "ucast (to_byte k) AND 15 = k"
    "enum_valid reject_time_ec (from_coded_value reject_time_ec k)"
    by (simp_all only: list_all_iff)
  have c: "enum_valid reject_cause_ec (from_coded_value reject_cause_ec 0)" by code_simp
  show ?thesis
    using v c by (simp add: ap_unpack_def bs rd_ok Let_def ap_packed_size_def ap_valid_def ap_size_def ap_received_def
      f(1) assms(2) flip: k_def)
qed

lemma ap_reject_roundtrip:
  assumes "ap_valid m" "ap_reject_info m = Some r" "ap_pack m = Inr bs"
  shows "ap_unpack (bs @ s) = Inr (True, ap_zero\<lparr>ap_reject_info := Some r\<rparr>)"
proof -
  obtain c t where r: "r = \<lparr>rj_reject_cause = c, rj_reject_time = t\<rparr>" by (cases r)
  have v: "enum_valid reject_cause_ec c" "enum_valid reject_time_ec t"
    using assms(1,2) by (simp_all add: ap_valid_def r)
  have bs: "bs = [0, to_byte (push_bit 4 (to_underlying reject_cause_ec c))
      OR to_byte (to_underlying reject_time_ec t)]"
    using assms by (simp add: ap_pack_def r)
  show ?thesis
    using v
    by (simp add: ap_unpack_def bs field_simps_bits Let_def r ap_packed_size_def ap_valid_def
      ap_size_def)
qed

lemma ap_packable_iff:
  "(\<exists>bs. ap_pack m = Inr bs) \<longleftrightarrow> ap_valid m \<and> (has_value (ap_reject_info m)
     \<or> (\<exists>f. ap_flow_ids m = [f]) \<and> ap_harq_configuration m = None \<and> ap_group_info m = None)"
proof (cases "ap_reject_info m")
  case None
  have "ap_valid m \<and> ap_size m = 2 \<longleftrightarrow> ap_valid m \<and>
      (\<exists>f. ap_flow_ids m = [f]) \<and> ap_harq_configuration m = None \<and> ap_group_info m = None"
    using None ap_size_2 [of m] by (auto simp: ap_size_def)
  with None show ?thesis by (simp add: ap_pack_iff)
qed (simp add: ap_pack_iff ap_size_def)

lemma ap_pack_received:
  assumes "ap_pack m = Inr bs"
  shows "ap_unpack (bs @ s) = Inr (True, ap_received m)"
proof -
  have v: "ap_valid m" using ap_pack_iff [of m] assms by blast
  show ?thesis
  proof (cases "ap_reject_info m")
    case None
    with ap_accept_received [OF v _ assms] show ?thesis by simp
  next
    case (Some r)
    with ap_reject_roundtrip [OF v Some assms] show ?thesis by (simp add: ap_received_def)
  qed
qed

interpretation ap: peeking
  "\<lambda>m. ap_valid m \<and> has_value (ap_reject_info m) \<and> m = ap_zero\<lparr>ap_reject_info := ap_reject_info m\<rparr>"
  ap_size ap_pack ap_unpack 1 ap_peek
proof (unfold_locales, goal_cases)
  case (1 m)
  then show ?case
    by (cases "ap_reject_info m") (auto simp: ap_pack_def ap_peek_2 ap_size_def)
next
  case (2 m bs r)
  then show ?case
    using ap_reject_roundtrip [of m _ bs r] by (cases "ap_reject_info m") auto
next
  case (3 a)
  then show ?case by (simp add: ap_peek_2)
next
  case (4 m bs r)
  then show ?case
    by (cases "ap_reject_info m") (auto simp: ap_pack_def ap_peek_def ap_size_def)
qed

end
