(* ===== verification/Reconfiguration_Messages.thy ===== *)
theory Reconfiguration_Messages
  imports Association_Messages
begin

text \<open>
  \<open>sections_part4/mac_messages_and_ie/reconfiguration_request_message\<close> and
  \<open>reconfiguration_response_message\<close>. Their \<open>is_valid\<close> takes the value of both optional
  HARQ configurations before it asks whether they are present, so it stops with
  \<open>std::bad_optional_access\<close> unless both are.
\<close>

datatype radio_resource_change =
  RR_not_defined | no_change | more_resources_requested | less_resources_requested
| resource_allocation_ie_follows | RR_upper

definition radio_resource_ec :: "radio_resource_change coded" where
  "radio_resource_ec = \<lparr>base = 0, has_lower = False, enumerators = [no_change,
     more_resources_requested, less_resources_requested, resource_allocation_ie_follows, RR_upper],
     not_defined = RR_not_defined\<rparr>"

interpretation radio_resource_coding: coded_enum radio_resource_ec
  by unfold_locales
    ((simp add: radio_resource_ec_def upper_value_def) | (rename_tac e, case_tac e; simp))+

lemma radio_resource_upper [simp, enum_simps]: "upper_value radio_resource_ec = 4"
  by (simp add: upper_value_def radio_resource_ec_def)

subsection \<open>Flows with a release flag\<close>

record flow =
  fl_id :: flow_id
  fl_is_released :: bool

abbreviation "flow_order f \<equiv> to_underlying flow_id_ec (fl_id f)"

definition wr_flow :: "flow \<Rightarrow> u8" where
  "wr_flow f = to_byte (push_bit 7 (b2u (fl_is_released f)))
     OR to_byte (to_underlying flow_id_ec (fl_id f))"

definition rd_flow :: "bytes \<Rightarrow> nat \<Rightarrow> flow res" where
  "rd_flow a off =
     bindE (rd a off) (\<lambda>b. Inr \<lparr>fl_id = from_coded_value flow_id_ec (b AND bitmask_lsb 6),
       fl_is_released = (drop_bit 7 b \<noteq> 0)\<rparr>)"

abbreviation "flow_ok f \<equiv> enum_valid flow_id_ec (fl_id f)"

lemma rd_flow_cons [simp]:
  "rd_flow (b # bs) (numeral k) = rd_flow bs (pred_numeral k)"
  "rd_flow (b # bs) (Suc i) = rd_flow bs i"
  "rd_flow (b # bs) (numeral k + i) = rd_flow bs (pred_numeral k + i)"
  "rd_flow (b # bs) (1 + i) = rd_flow bs i"
  by (simp_all add: rd_flow_def numeral_eq_Suc)

lemma rd_flow_append [simp]:
  "length xs \<le> i \<Longrightarrow> rd_flow (xs @ ys) i = rd_flow ys (i - length xs)"
  by (simp add: rd_flow_def)

lemma okE_rd_flow [ok_intros]: "Suc i \<le> length a \<Longrightarrow> (\<And>f. P f) \<Longrightarrow> okE F (rd_flow a i) P"
  by (simp add: rd_flow_def rd_ok)

lemma wr_flow_bits:
  assumes "flow_ok f"
  shows "bit (wr_flow f) 7 = fl_is_released f"
    "from_coded_value flow_id_ec (ucast (wr_flow f) AND mask 6) = fl_id f"
proof -
  have f: "fits 6 (to_underlying flow_id_ec (fl_id f))"
    "fits 7 (to_underlying flow_id_ec (fl_id f))"
    using assms by simp_all
  show "bit (wr_flow f) 7 = fl_is_released f"
    using fits_bit [OF f(2)] by (simp add: wr_flow_def flag_simps)
  show "from_coded_value flow_id_ec (ucast (wr_flow f) AND mask 6) = fl_id f"
    using assms by (simp add: wr_flow_def field_simps_bits)
qed

lemma rd_flow_written [simp]:
  assumes "list_all flow_ok fs" "i < length fs"
  shows "rd_flow (map wr_flow fs @ r) i = Inr (fs ! i)"
  using assms wr_flow_bits [of "fs ! i"]
  by (simp add: rd_flow_def rd_ok Suc_le_eq nth_append list_all_length flag_simps)

lemma set_wf_flow_key: "set_wf (\<lambda>f. flow_order f) fs = set_wf flow_key (map fl_id fs)"
  by (simp add: set_wf_def sorted_wrt_map)

lemma flows_le_6:
  "set_wf (\<lambda>f. flow_order f) fs \<Longrightarrow> list_all flow_ok fs \<Longrightarrow> length fs \<le> 6"
  using valid_flows_le_6 [of "map fl_id fs"]
  by (simp add: set_wf_flow_key list_all_iff)

subsection \<open>Reconfiguration request message\<close>

record reconfiguration_request =
  rq_harq_configuration_tx :: "harq_configuration option"
  rq_harq_configuration_rx :: "harq_configuration option"
  rq_rd_capability_ie_follows :: bool
  rq_flows :: "flow list"
  rq_radio_resource_change :: radio_resource_change

definition rq_zero :: reconfiguration_request where
  "rq_zero = \<lparr>rq_harq_configuration_tx = None, rq_harq_configuration_rx = None,
     rq_rd_capability_ie_follows = False, rq_flows = [], rq_radio_resource_change = RR_not_defined\<rparr>"

definition rq_valid :: "reconfiguration_request \<Rightarrow> bool res" where
  "rq_valid m =
     bindE (valueE (rq_harq_configuration_tx m)) (\<lambda>tx.
     if has_value (rq_harq_configuration_tx m) \<and> \<not> harq_ok tx then Inr False
     else bindE (valueE (rq_harq_configuration_rx m)) (\<lambda>rx.
     if has_value (rq_harq_configuration_rx m) \<and> \<not> harq_ok rx then Inr False
     else if \<not> list_all flow_ok (rq_flows m) then Inr False
     else if \<not> enum_valid radio_resource_ec (rq_radio_resource_change m) then Inr False
     else Inr True))"

definition rq_size :: "reconfiguration_request \<Rightarrow> nat" where
  "rq_size m = 1 + osz (rq_harq_configuration_tx m) 1 + osz (rq_harq_configuration_rx m) 1
     + length (rq_flows m)"

definition rq_packed_size :: "reconfiguration_request \<Rightarrow> nat res" where
  "rq_packed_size m = bindE (rq_valid m) (\<lambda>v. assertE v (Inr (rq_size m)))"

definition rq_peek :: "bytes \<Rightarrow> peek_result res" where
  "rq_peek a =
     bindE (rd a 0) (\<lambda>b0.
     let N_flows = drop_bit 2 b0 AND 7 in
     if N_flows < 7
     then Inr (Inr (1 + unat (drop_bit 7 b0) + unat (drop_bit 6 b0 AND 1) + unat N_flows))
     else Inr (Inl NONRESERVED_FIELD_SET_TO_RESERVED))"

definition rq_pack :: "reconfiguration_request \<Rightarrow> bytes res" where
  "rq_pack m = bindE (rq_valid m) (\<lambda>v. assertE v (assert_peek rq_peek (
     [to_byte (push_bit 7 (b2u (has_value (rq_harq_configuration_tx m))))
        OR to_byte (push_bit 6 (b2u (has_value (rq_harq_configuration_rx m))))
        OR to_byte (push_bit 5 (b2u (rq_rd_capability_ie_follows m)))
        OR to_byte (push_bit 2 (of_nat (length (rq_flows m))))
        OR to_byte (to_underlying radio_resource_ec (rq_radio_resource_change m))]
     @ wr_opt (rq_harq_configuration_tx m) wr_harq
     @ wr_opt (rq_harq_configuration_rx m) wr_harq
     @ map wr_flow (rq_flows m))))"

definition rq_unpack :: "bytes \<Rightarrow> (bool \<times> reconfiguration_request) res" where
  "rq_unpack a =
     bindE (rd a 0) (\<lambda>b0.
     bindE (rd_opt (drop_bit 7 b0 \<noteq> 0) 1 1 (unpack_harq_config a)) (\<lambda>(tx, off).
     bindE (rd_opt (drop_bit 6 b0 AND 1 \<noteq> 0) off 1 (unpack_harq_config a)) (\<lambda>(rx, off).
     bindE (rd_loop (rd_flow a) (set_insert (\<lambda>f. flow_order f))
              (unat (drop_bit 2 b0 AND bitmask_lsb 3)) off []) (\<lambda>(flows, off).
     let m = \<lparr>rq_harq_configuration_tx = tx, rq_harq_configuration_rx = rx,
              rq_rd_capability_ie_follows = (drop_bit 5 b0 AND 1 \<noteq> 0), rq_flows = flows,
              rq_radio_resource_change = from_coded_value radio_resource_ec (b0 AND bitmask_lsb 2)\<rparr>
     in bindE (rq_packed_size m) (\<lambda>n. assertE (n = off)
          (bindE (rq_valid m) (\<lambda>v. Inr (v, m))))))))"

lemma rq_valid_iff:
  "rq_valid m = Inr True \<longleftrightarrow>
     (\<exists>tx rx. rq_harq_configuration_tx m = Some tx \<and> rq_harq_configuration_rx m = Some rx
        \<and> harq_ok tx \<and> harq_ok rx \<and> list_all flow_ok (rq_flows m)
        \<and> enum_valid radio_resource_ec (rq_radio_resource_change m))"
  by (cases "rq_harq_configuration_tx m"; cases "rq_harq_configuration_rx m")
    (auto simp: rq_valid_def)

text \<open>A request without both HARQ configurations cannot be packed, whatever else it holds.\<close>

lemma rq_pack_missing:
  assumes "rq_harq_configuration_tx m = None \<or> rq_harq_configuration_rx m = None"
    "opt_ok harq_ok (rq_harq_configuration_tx m)"
  shows "rq_pack m = Inl Bad_optional_access"
  using assms by (cases "rq_harq_configuration_tx m") (auto simp: rq_pack_def rq_valid_def)


lemma rq_head:
  assumes "rq_valid m = Inr True" "set_wf (\<lambda>f. flow_order f) (rq_flows m)"
  defines "b0 \<equiv> to_byte (push_bit 7 (b2u (has_value (rq_harq_configuration_tx m))))
        OR to_byte (push_bit 6 (b2u (has_value (rq_harq_configuration_rx m))))
        OR to_byte (push_bit 5 (b2u (rq_rd_capability_ie_follows m)))
        OR to_byte (push_bit 2 (of_nat (length (rq_flows m))))
        OR to_byte (to_underlying radio_resource_ec (rq_radio_resource_change m))"
  shows "bit b0 7" "bit b0 6" "bit b0 5 = rq_rd_capability_ie_follows m"
    "drop_bit 2 (ucast b0) AND 7 = (of_nat (length (rq_flows m)) :: u32)"
    "drop_bit 2 (ucast b0) AND mask 3 = (of_nat (length (rq_flows m)) :: u32)"
    "from_coded_value radio_resource_ec (ucast b0 AND mask 2) = rq_radio_resource_change m"
    "unat (of_nat (length (rq_flows m)) :: u32) = length (rq_flows m)"
    "of_nat (length (rq_flows m)) < (7 :: u32)"
proof -
  have v: "has_value (rq_harq_configuration_tx m)" "has_value (rq_harq_configuration_rx m)"
    "list_all flow_ok (rq_flows m)" "enum_valid radio_resource_ec (rq_radio_resource_change m)"
    using assms(1) by (auto simp: rq_valid_iff)
  have n: "length (rq_flows m) \<le> 6"
    using flows_le_6 [OF assms(2) v(3)] .
  note f = flows_size_fits [OF n]
  then show "unat (of_nat (length (rq_flows m)) :: u32) = length (rq_flows m)" by simp
  then show "of_nat (length (rq_flows m)) < (7 :: u32)"
    using n by (simp add: word_less_nat_alt)
  have r: "fits 2 (to_underlying radio_resource_ec (rq_radio_resource_change m))"
    using v(4) by simp
  note b = fits_bit [OF r] fits_bit [OF f(1)]
  show "bit b0 7" "bit b0 6" "bit b0 5 = rq_rd_capability_ie_follows m"
    using v(1,2) b by (simp_all add: b0_def flag_simps)
  show "drop_bit 2 (ucast b0) AND 7 = (of_nat (length (rq_flows m)) :: u32)"
    "drop_bit 2 (ucast b0) AND mask 3 = (of_nat (length (rq_flows m)) :: u32)"
    using f(1) r f(1) [THEN fits_mono] r [THEN fits_mono]
    by (simp_all add: b0_def field_simps_bits flip: numeral_2_eq_2)
  show "from_coded_value radio_resource_ec (ucast b0 AND mask 2) = rq_radio_resource_change m"
    using v(4) by (simp add: b0_def field_simps_bits)
qed

lemma rq_pack_ok:
  assumes "rq_valid m = Inr True" "set_wf (\<lambda>f. flow_order f) (rq_flows m)"
  shows "\<exists>bs. rq_pack m = Inr bs \<and> length bs = rq_size m"
    and "rq_pack m = Inr bs \<Longrightarrow> rq_peek (bs @ r) = Inr (Inr (rq_size m))"
    and "rq_pack m = Inr bs \<Longrightarrow> rq_unpack (bs @ r) = Inr (True, m)"
proof -
  define b0 where "b0 = to_byte (push_bit 7 (b2u (has_value (rq_harq_configuration_tx m))))
        OR to_byte (push_bit 6 (b2u (has_value (rq_harq_configuration_rx m))))
        OR to_byte (push_bit 5 (b2u (rq_rd_capability_ie_follows m)))
        OR to_byte (push_bit 2 (of_nat (length (rq_flows m))))
        OR to_byte (to_underlying radio_resource_ec (rq_radio_resource_change m))"
  note h = rq_head [OF assms, folded b0_def]
  obtain tx rx where v: "rq_harq_configuration_tx m = Some tx"
    "rq_harq_configuration_rx m = Some rx" "harq_ok tx" "harq_ok rx" "list_all flow_ok (rq_flows m)"
    using assms(1) by (auto simp: rq_valid_iff)
  have peek: "rq_peek (b0 # bs) = Inr (Inr (rq_size m))" for bs
    by (simp add: rq_peek_def h flag_simps rq_size_def v Let_def)
  have pack: "rq_pack m = assert_peek rq_peek ([b0] @ wr_harq tx @ wr_harq rx
      @ map wr_flow (rq_flows m))"
    by (simp only: rq_pack_def b0_def assms(1) bindE.simps assertE_True v wr_opt_simps)
  show "\<exists>bs. rq_pack m = Inr bs \<and> length bs = rq_size m"
    using peek by (simp add: pack) (simp add: rq_size_def v)
  assume "rq_pack m = Inr bs"
  then have bs: "bs = [b0] @ wr_harq tx @ wr_harq rx @ map wr_flow (rq_flows m)"
    by (simp add: pack)
  show "rq_peek (bs @ r) = Inr (Inr (rq_size m))"
    by (simp add: bs peek)
  have loop: "rd_loop (rd_flow (bs @ r)) (set_insert (\<lambda>f. flow_order f)) (length (rq_flows m)) 3 []
      = Inr (rq_flows m, 3 + length (rq_flows m))"
    by (rule rd_loop_set [OF _ assms(2)]) (use v in \<open>simp_all add: bs\<close>)
  have hd: "rd (bs @ r) 0 = Inr (ucast b0)" "unpack_harq_config (bs @ r) (Suc 0) = Inr tx"
    "unpack_harq_config (bs @ r) 2 = Inr rx"
    using v by (simp_all add: bs)
  have m: "\<lparr>rq_harq_configuration_tx = Some tx, rq_harq_configuration_rx = Some rx,
      rq_rd_capability_ie_follows = rq_rd_capability_ie_follows m, rq_flows = rq_flows m,
      rq_radio_resource_change = rq_radio_resource_change m\<rparr> = m"
    using v by (cases m) simp
  show "rq_unpack (bs @ r) = Inr (True, m)"
    using assms(1)
    by (simp add: rq_unpack_def hd h flag_simps rd_opt_def loop Let_def m rq_packed_size_def
      numeral_2_eq_2 [symmetric] numeral_3_eq_3 [symmetric])
      (simp add: rq_size_def v)
qed

lemma rq_unpack_in_bounds:
  assumes "rq_peek a = Inr (Inr k)" "k \<le> length a"
  shows "rq_unpack a \<noteq> Inl Out_of_bounds_read"
proof -
  have m: "mask 3 = (7 :: u32)" by (simp add: mask_eq_exp_minus_1)
  have l: "1 + csz (bit (a ! 0) 7) 1 + csz (bit (a ! 0) 6) 1
      + unat (drop_bit 2 (ucast (a ! 0)) AND 7 :: u32) \<le> length a"
    using assms by (auto simp: rq_peek_def bindE_eq_Inr rd_def flag_simps Let_def split: if_splits)
  have "okE {Assertion_failed, Bad_optional_access} (rq_unpack a) (\<lambda>_. True)"
    unfolding rq_unpack_def Let_def rq_packed_size_def rq_valid_def
    apply (intro ok_intros)
    using l by (simp_all add: flag_simps m)
  then show ?thesis by (rule okE_in_bounds) simp
qed

lemma rq_peek_total: "1 \<le> length a \<Longrightarrow> \<exists>p. rq_peek a = Inr p"
  by (simp add: rq_peek_def rd_ok Let_def)

interpretation rq: peeking
  "\<lambda>m. rq_valid m = Inr True \<and> set_wf (\<lambda>f. flow_order f) (rq_flows m)" rq_size rq_pack rq_unpack
  1 rq_peek
proof (unfold_locales, goal_cases)
  case (1 m) then show ?case using rq_pack_ok(1) by blast
next
  case (2 m bs r) then show ?case using rq_pack_ok(3) by blast
next
  case (3 a) then show ?case by (rule rq_peek_total)
next
  case (4 m bs r) then show ?case using rq_pack_ok(2) by blast
qed

subsection \<open>Reconfiguration response message\<close>

record reconfiguration_response =
  rp_harq_configuration_tx :: "harq_configuration option"
  rp_harq_configuration_rx :: "harq_configuration option"
  rp_rd_capability_ie_follows :: bool
  rp_nof_flows_accepted :: nof_flows_accepted
  rp_radio_resource_change :: radio_resource_change
  rp_flows :: "flow list"

definition rp_zero :: reconfiguration_response where
  "rp_zero = \<lparr>rp_harq_configuration_tx = None, rp_harq_configuration_rx = None,
     rp_rd_capability_ie_follows = False, rp_nof_flows_accepted = NF_not_defined,
     rp_radio_resource_change = RR_not_defined, rp_flows = []\<rparr>"

definition rp_valid :: "reconfiguration_response \<Rightarrow> bool res" where
  "rp_valid m =
     bindE (valueE (rp_harq_configuration_tx m)) (\<lambda>tx.
     if has_value (rp_harq_configuration_tx m) \<and> \<not> harq_ok tx then Inr False
     else bindE (valueE (rp_harq_configuration_rx m)) (\<lambda>rx.
     if has_value (rp_harq_configuration_rx m) \<and> \<not> harq_ok rx then Inr False
     else if \<not> nof_flows_valid (rp_nof_flows_accepted m)
             \<or> rp_nof_flows_accepted m = as_included \<and> rp_flows m = [] then Inr False
     else if \<not> list_all flow_ok (rp_flows m) then Inr False
     else if \<not> enum_valid radio_resource_ec (rp_radio_resource_change m) then Inr False
     else Inr True))"

definition rp_size :: "reconfiguration_response \<Rightarrow> nat" where
  "rp_size m = 1 + osz (rp_harq_configuration_tx m) 1 + osz (rp_harq_configuration_rx m) 1
     + (if rp_nof_flows_accepted m = as_included then length (rp_flows m) else 0)"

definition rp_packed_size :: "reconfiguration_response \<Rightarrow> nat res" where
  "rp_packed_size m = bindE (rp_valid m) (\<lambda>v. assertE v (Inr (rp_size m)))"

definition rp_peek :: "bytes \<Rightarrow> peek_result res" where
  "rp_peek a =
     bindE (rd a 0) (\<lambda>b0.
     let N_flows = drop_bit 2 b0 AND 7 in
     Inr (Inr (1 + unat (drop_bit 7 b0) + unat (drop_bit 6 b0 AND 1)
       + (if N_flows < 7 then unat N_flows else 0))))"

definition rp_nof_code :: "reconfiguration_response \<Rightarrow> u32" where
  "rp_nof_code m = (if rp_nof_flows_accepted m = as_included then of_nat (length (rp_flows m))
     else nof_flows_code (rp_nof_flows_accepted m))"

definition rp_pack :: "reconfiguration_response \<Rightarrow> bytes res" where
  "rp_pack m = bindE (rp_valid m) (\<lambda>v. assertE v (assert_peek rp_peek (
     [to_byte (push_bit 7 (b2u (has_value (rp_harq_configuration_tx m))))
        OR to_byte (push_bit 6 (b2u (has_value (rp_harq_configuration_rx m))))
        OR to_byte (push_bit 5 (b2u (rp_rd_capability_ie_follows m)))
        OR to_byte (push_bit 2 (rp_nof_code m))
        OR to_byte (to_underlying radio_resource_ec (rp_radio_resource_change m))]
     @ wr_opt (rp_harq_configuration_tx m) wr_harq
     @ wr_opt (rp_harq_configuration_rx m) wr_harq
     @ map wr_flow (rp_flows m))))"

definition rp_unpack :: "bytes \<Rightarrow> (bool \<times> reconfiguration_response) res" where
  "rp_unpack a =
     bindE (rd a 0) (\<lambda>b0.
     bindE (rd_opt (drop_bit 7 b0 \<noteq> 0) 1 1 (unpack_harq_config a)) (\<lambda>(tx, off).
     bindE (rd_opt (drop_bit 6 b0 AND 1 \<noteq> 0) off 1 (unpack_harq_config a)) (\<lambda>(rx, off).
     let N_flows = drop_bit 2 b0 AND 7 in
     bindE (if N_flows = nof_flows_code NF_none then Inr (NF_none, [], off)
            else if N_flows = nof_flows_code as_requested then Inr (as_requested, [], off)
            else bindE (rd_loop (rd_flow a) (set_insert (\<lambda>f. flow_order f)) (unat N_flows) off [])
                   (\<lambda>(flows, off). Inr (as_included, flows, off)))
       (\<lambda>(nof, flows, off).
     let m = \<lparr>rp_harq_configuration_tx = tx, rp_harq_configuration_rx = rx,
              rp_rd_capability_ie_follows = (drop_bit 5 b0 AND 1 \<noteq> 0),
              rp_nof_flows_accepted = nof,
              rp_radio_resource_change = from_coded_value radio_resource_ec (b0 AND 3),
              rp_flows = flows\<rparr>
     in bindE (rp_packed_size m) (\<lambda>n. assertE (n = off)
          (bindE (rp_valid m) (\<lambda>v. Inr (v, m))))))))"

lemma rp_valid_iff:
  "rp_valid m = Inr True \<longleftrightarrow>
     (\<exists>tx rx. rp_harq_configuration_tx m = Some tx \<and> rp_harq_configuration_rx m = Some rx
        \<and> harq_ok tx \<and> harq_ok rx \<and> nof_flows_valid (rp_nof_flows_accepted m)
        \<and> (rp_nof_flows_accepted m = as_included \<longrightarrow> rp_flows m \<noteq> [])
        \<and> list_all flow_ok (rp_flows m)
        \<and> enum_valid radio_resource_ec (rp_radio_resource_change m))"
  by (cases "rp_harq_configuration_tx m"; cases "rp_harq_configuration_rx m")
    (auto simp: rp_valid_def)

text \<open>
  Flows are written whenever there are any, but counted only for \<open>as_included\<close>; a response
  of another kind can only be packed without flows.
\<close>

definition rp_wf :: "reconfiguration_response \<Rightarrow> bool" where
  "rp_wf m \<longleftrightarrow> rp_valid m = Inr True \<and> set_wf (\<lambda>f. flow_order f) (rp_flows m)
     \<and> (rp_nof_flows_accepted m \<noteq> as_included \<longrightarrow> rp_flows m = [])"

lemma rp_nof_cases:
  assumes "rp_wf m"
  obtains "rp_nof_flows_accepted m = NF_none" "rp_flows m = []" "rp_nof_code m = 0"
  | "rp_nof_flows_accepted m = as_requested" "rp_flows m = []" "rp_nof_code m = 7"
  | "rp_nof_flows_accepted m = as_included" "unat (rp_nof_code m) = length (rp_flows m)"
    "1 \<le> length (rp_flows m)" "length (rp_flows m) \<le> 6"
proof -
  have "length (rp_flows m) \<le> 6"
    using assms flows_le_6 [of "rp_flows m"] by (auto simp: rp_wf_def rp_valid_iff)
  then show ?thesis
    using assms that flows_size_fits(2) [of "length (rp_flows m)"]
    by (cases "rp_nof_flows_accepted m")
      (auto simp: rp_wf_def rp_valid_iff rp_nof_code_def nof_flows_valid_def Suc_le_eq)
qed

lemma rp_head:
  assumes "rp_wf m"
  defines "b0 \<equiv> to_byte (push_bit 7 (b2u (has_value (rp_harq_configuration_tx m))))
        OR to_byte (push_bit 6 (b2u (has_value (rp_harq_configuration_rx m))))
        OR to_byte (push_bit 5 (b2u (rp_rd_capability_ie_follows m)))
        OR to_byte (push_bit 2 (rp_nof_code m))
        OR to_byte (to_underlying radio_resource_ec (rp_radio_resource_change m))"
  shows "bit b0 7" "bit b0 6" "bit b0 5 = rp_rd_capability_ie_follows m"
    "drop_bit 2 (ucast b0) AND 7 = rp_nof_code m"
    "from_coded_value radio_resource_ec (ucast b0 AND 3) = rp_radio_resource_change m"
proof -
  have v: "has_value (rp_harq_configuration_tx m)" "has_value (rp_harq_configuration_rx m)"
    "enum_valid radio_resource_ec (rp_radio_resource_change m)"
    using assms(1) by (auto simp: rp_wf_def rp_valid_iff)
  have f: "fits 3 (rp_nof_code m)"
    using assms(1) by (cases rule: rp_nof_cases) (simp_all add: fits_iff_unat)
  have r: "fits 2 (to_underlying radio_resource_ec (rp_radio_resource_change m))"
    using v(3) by simp
  note b = fits_bit [OF r] fits_bit [OF f]
  show "bit b0 7" "bit b0 6" "bit b0 5 = rp_rd_capability_ie_follows m"
    using v(1,2) b by (simp_all add: b0_def flag_simps)
  show "drop_bit 2 (ucast b0) AND 7 = rp_nof_code m"
    using f r f [THEN fits_mono] r [THEN fits_mono]
    by (simp add: b0_def field_simps_bits flip: numeral_2_eq_2)
  show "from_coded_value radio_resource_ec (ucast b0 AND 3) = rp_radio_resource_change m"
    using v(3) by (simp add: b0_def field_simps_bits)
qed

lemma rp_pack_ok:
  assumes "rp_wf m"
  shows "\<exists>bs. rp_pack m = Inr bs \<and> length bs = rp_size m"
    and "rp_pack m = Inr bs \<Longrightarrow> rp_peek (bs @ r) = Inr (Inr (rp_size m))"
    and "rp_pack m = Inr bs \<Longrightarrow> rp_unpack (bs @ r) = Inr (True, m)"
proof -
  define b0 where "b0 = to_byte (push_bit 7 (b2u (has_value (rp_harq_configuration_tx m))))
        OR to_byte (push_bit 6 (b2u (has_value (rp_harq_configuration_rx m))))
        OR to_byte (push_bit 5 (b2u (rp_rd_capability_ie_follows m)))
        OR to_byte (push_bit 2 (rp_nof_code m))
        OR to_byte (to_underlying radio_resource_ec (rp_radio_resource_change m))"
  note h = rp_head [OF assms, folded b0_def]
  have val: "rp_valid m = Inr True" and wf: "set_wf (\<lambda>f. flow_order f) (rp_flows m)"
    using assms by (simp_all add: rp_wf_def)
  obtain tx rx where v: "rp_harq_configuration_tx m = Some tx"
    "rp_harq_configuration_rx m = Some rx" "harq_ok tx" "harq_ok rx" "list_all flow_ok (rp_flows m)"
    using val by (auto simp: rp_valid_iff)
  have sz: "rp_size m = 3 + length (rp_flows m)"
    using assms by (cases rule: rp_nof_cases) (simp_all add: rp_size_def v)
  have n: "(if rp_nof_code m < 7 then unat (rp_nof_code m) else 0) = length (rp_flows m)"
    using assms
  proof (cases rule: rp_nof_cases)
    case 3
    then have "rp_nof_code m < 7" by (simp add: word_less_nat_alt)
    then show ?thesis by (simp only: if_True 3(2))
  qed simp_all
  have peek: "rp_peek (b0 # bs) = Inr (Inr (rp_size m))" for bs
    using n by (simp add: rp_peek_def h flag_simps sz Let_def split: if_splits)
  have pack: "rp_pack m = assert_peek rp_peek ([b0] @ wr_harq tx @ wr_harq rx
      @ map wr_flow (rp_flows m))"
    by (simp only: rp_pack_def b0_def val bindE.simps assertE_True v wr_opt_simps)
  show "\<exists>bs. rp_pack m = Inr bs \<and> length bs = rp_size m"
    using peek by (simp add: pack) (simp add: sz)
  assume "rp_pack m = Inr bs"
  then have bs: "bs = [b0] @ wr_harq tx @ wr_harq rx @ map wr_flow (rp_flows m)"
    by (simp add: pack)
  show "rp_peek (bs @ r) = Inr (Inr (rp_size m))"
    by (simp add: bs peek)
  have loop: "rd_loop (rd_flow (bs @ r)) (set_insert (\<lambda>f. flow_order f)) (length (rp_flows m)) 3 []
      = Inr (rp_flows m, 3 + length (rp_flows m))"
    by (rule rd_loop_set [OF _ wf]) (use v in \<open>simp_all add: bs\<close>)
  have hd: "rd (bs @ r) 0 = Inr (ucast b0)" "unpack_harq_config (bs @ r) (Suc 0) = Inr tx"
    "unpack_harq_config (bs @ r) 2 = Inr rx"
    using v by (simp_all add: bs)
  have m: "\<lparr>rp_harq_configuration_tx = Some tx, rp_harq_configuration_rx = Some rx,
      rp_rd_capability_ie_follows = rp_rd_capability_ie_follows m,
      rp_nof_flows_accepted = rp_nof_flows_accepted m,
      rp_radio_resource_change = rp_radio_resource_change m, rp_flows = rp_flows m\<rparr> = m"
    using v by (cases m) simp
  note unfold = rp_unpack_def hd h flag_simps rd_opt_def Let_def rp_packed_size_def
    numeral_2_eq_2 [symmetric] numeral_3_eq_3 [symmetric]
  show "rp_unpack (bs @ r) = Inr (True, m)"
    using assms
  proof (cases rule: rp_nof_cases)
    case 1
    then show ?thesis using m [unfolded 1] val sz by (simp add: unfold)
  next
    case 2
    then show ?thesis using m [unfolded 2] val sz by (simp add: unfold)
  next
    case 3
    then have "rp_nof_code m \<noteq> 0" "rp_nof_code m \<noteq> 7"
      by (auto simp: word_unat_eq_iff)
    with 3 show ?thesis using m [unfolded 3] val sz by (simp add: unfold loop)
  qed
qed

lemma rp_checks_ok:
  assumes "\<And>x. P x" shows "okE {Assertion_failed, Bad_optional_access} (rp_valid m) P"
proof -
  have "okE {Assertion_failed, Bad_optional_access} (rp_valid m) (\<lambda>_. True)"
    unfolding rp_valid_def by (intro ok_intros) simp_all
  then show ?thesis by (rule okE_any) (rule assms)
qed

text \<open>Nor can a response without both of them, or one whose flows are written but not counted.\<close>

lemma rp_pack_missing:
  assumes "rp_harq_configuration_tx m = None \<or> rp_harq_configuration_rx m = None"
    "opt_ok harq_ok (rp_harq_configuration_tx m)"
  shows "rp_pack m = Inl Bad_optional_access"
  using assms by (cases "rp_harq_configuration_tx m") (auto simp: rp_pack_def rp_valid_def)

lemma rp_pack_uncounted:
  assumes "rp_valid m = Inr True" "rp_nof_flows_accepted m \<noteq> as_included" "rp_flows m \<noteq> []"
  shows "rp_pack m = Inl Assertion_failed"
proof -
  have wf: "rp_wf (m\<lparr>rp_flows := []\<rparr>)" (is "rp_wf ?m")
    using assms(1,2) by (auto simp: rp_wf_def rp_valid_iff set_wf_def)
  define b0 where "b0 = to_byte (push_bit 7 (b2u (has_value (rp_harq_configuration_tx ?m))))
        OR to_byte (push_bit 6 (b2u (has_value (rp_harq_configuration_rx ?m))))
        OR to_byte (push_bit 5 (b2u (rp_rd_capability_ie_follows ?m)))
        OR to_byte (push_bit 2 (rp_nof_code ?m))
        OR to_byte (to_underlying radio_resource_ec (rp_radio_resource_change ?m))"
  note h = rp_head [OF wf, folded b0_def]
  obtain tx rx where v: "rp_harq_configuration_tx m = Some tx" "rp_harq_configuration_rx m = Some rx"
    using assms(1) by (auto simp: rp_valid_iff)
  have n: "(if rp_nof_code ?m < 7 then unat (rp_nof_code ?m) else 0) = 0"
    using wf by (cases rule: rp_nof_cases) (use assms(2) in simp_all)
  have peek: "rp_peek (b0 # bs) = Inr (Inr 3)" for bs
    using n by (simp add: rp_peek_def h flag_simps Let_def split: if_splits)
  have "rp_nof_code ?m = rp_nof_code m" using assms(2) by (simp add: rp_nof_code_def)
  then have "rp_pack m = assert_peek rp_peek ([b0] @ wr_harq tx @ wr_harq rx @ map wr_flow (rp_flows m))"
    using assms(1) v by (simp add: rp_pack_def b0_def del: append.simps)
  also have "\<dots> = Inl Assertion_failed" using peek assms(3) by (simp add: assert_peek_def)
  finally show ?thesis .
qed

lemma rp_unpack_in_bounds:
  assumes "rp_peek a = Inr (Inr k)" "k \<le> length a"
  shows "rp_unpack a \<noteq> Inl Out_of_bounds_read"
proof -
  let ?n = "drop_bit 2 (ucast (a ! 0)) AND 7 :: u32"
  have "unat ?n < 8" using unat_fld_less [of 3 2 "ucast (a ! 0)"] by (simp only: and_mask_fld(5)) simp
  then have n: "?n < 7 \<or> ?n = 7"
    by (auto simp: word_less_nat_alt word_unat_eq_iff)
  have l: "1 \<le> length a" "1 + csz (bit (a ! 0) 7) 1 + csz (bit (a ! 0) 6) 1
      + (if ?n < 7 then unat ?n else 0) \<le> length a"
    using assms by (auto simp: rp_peek_def bindE_eq_Inr rd_def flag_simps Let_def Suc_le_eq
        split: if_splits)
  have "okE {Assertion_failed, Bad_optional_access} (rp_unpack a) (\<lambda>_. True)"
    unfolding rp_unpack_def Let_def rp_packed_size_def
    apply (intro ok_intros rp_checks_ok)
    using l n by (simp_all add: flag_simps)
  then show ?thesis by (rule okE_in_bounds) simp
qed

lemma rp_peek_total: "1 \<le> length a \<Longrightarrow> \<exists>p. rp_peek a = Inr p"
  by (simp add: rp_peek_def rd_ok Let_def)

interpretation rp: peeking rp_wf rp_size rp_pack rp_unpack 1 rp_peek
proof (unfold_locales, goal_cases)
  case (1 m) then show ?case using rp_pack_ok(1) by blast
next
  case (2 m bs r) then show ?case using rp_pack_ok(3) by blast
next
  case (3 a) then show ?case by (rule rp_peek_total)
next
  case (4 m bs r) then show ?case using rp_pack_ok(2) by blast
qed

end
