(* ===== verification/Capability.thy ===== *)
theory Capability
  imports Beacon_Messages
begin

text \<open>
  \<open>sections_part4/mac_messages_and_ie/rd_capability_ie\<close>, and \<open>neighbouring_ie\<close> which
  shares the radio device class with it.
\<close>

subsection \<open>Enumerations\<close>

datatype rd_release =
  RL_not_defined | RL_lower | release_1 | release_2 | release_3 | release_4 | RL_upper

datatype operating_mode =
  OM_not_defined | pt_operation | ft_operation | ft_pt_operation | OM_upper

datatype mac_security_mode =
  MS_not_defined | MS_not_supported | MS_mode_1 | MS_upper

datatype dlc_service_type =
  DLC_not_defined | DLC_type_0 | DLC_type_1 | DLC_type_2 | DLC_types_1_2_3 | DLC_types_0_1_2_3 |
  DLC_upper

datatype rd_power_class =
  PC_not_defined | power_class_1 | power_class_2 | power_class_3 | PC_upper

datatype max_nof_spatial_streams =
  SS_not_defined | SS_1 | SS_2 | SS_4 | SS_8 | SS_upper

datatype max_nof_tx_antennas =
  TA_not_defined | TA_1 | TA_2 | TA_4 | TA_8 | TA_upper

datatype max_mcs_index =
  MCS_not_defined | MCS_2 | MCS_3 | MCS_4 | MCS_5 | MCS_6 | MCS_7 | MCS_8 | MCS_9 | MCS_10 |
  MCS_11 | MCS_upper

datatype soft_buffer_size =
  SB_not_defined | SB_16000 | SB_25344 | SB_32000 | SB_64000 | SB_128000 | SB_256000 | SB_512000
  | SB_1024000 | SB_2048000 | SB_upper

datatype nof_harq_processes =
  HP_not_defined | HP_1 | HP_2 | HP_4 | HP_8 | HP_upper

datatype harq_feedback_delay =
  FD_not_defined | FD_0 | FD_1 | FD_2 | FD_3 | FD_4 | FD_5 | FD_6 | FD_upper

datatype subcarrier_width =
  W_not_defined | W_27_kHz | W_54_kHz | W_108_kHz | W_216_kHz | W_upper

datatype dft_size =
  DFT_not_defined | DFT_64 | DFT_128 | DFT_256 | DFT_512 | DFT_768 | DFT_1024 | DFT_upper

definition release_ec :: "rd_release coded" where
  "release_ec = \<lparr>base = 0, has_lower = True, enumerators = [RL_lower, release_1, release_2,
     release_3, release_4, RL_upper], not_defined = RL_not_defined\<rparr>"

definition op_mode_ec :: "operating_mode coded" where
  "op_mode_ec = \<lparr>base = 0, has_lower = False, enumerators = [pt_operation, ft_operation,
     ft_pt_operation, OM_upper], not_defined = OM_not_defined\<rparr>"

definition mac_sec_ec :: "mac_security_mode coded" where
  "mac_sec_ec = \<lparr>base = 0, has_lower = False, enumerators = [MS_not_supported, MS_mode_1, MS_upper],
     not_defined = MS_not_defined\<rparr>"

definition dlc_service_ec :: "dlc_service_type coded" where
  "dlc_service_ec = \<lparr>base = 0, has_lower = False, enumerators = [DLC_type_0, DLC_type_1, DLC_type_2,
     DLC_types_1_2_3, DLC_types_0_1_2_3, DLC_upper], not_defined = DLC_not_defined\<rparr>"

definition power_class_ec :: "rd_power_class coded" where
  "power_class_ec = \<lparr>base = 0, has_lower = False, enumerators = [power_class_1, power_class_2,
     power_class_3, PC_upper], not_defined = PC_not_defined\<rparr>"

definition spatial_streams_ec :: "max_nof_spatial_streams coded" where
  "spatial_streams_ec = \<lparr>base = 0, has_lower = False, enumerators = [SS_1, SS_2, SS_4, SS_8, SS_upper],
     not_defined = SS_not_defined\<rparr>"

definition tx_antennas_ec :: "max_nof_tx_antennas coded" where
  "tx_antennas_ec = \<lparr>base = 0, has_lower = False, enumerators = [TA_1, TA_2, TA_4, TA_8, TA_upper],
     not_defined = TA_not_defined\<rparr>"

definition max_mcs_ec :: "max_mcs_index coded" where
  "max_mcs_ec = \<lparr>base = 0, has_lower = False, enumerators = [MCS_2, MCS_3, MCS_4, MCS_5, MCS_6,
     MCS_7, MCS_8, MCS_9, MCS_10, MCS_11, MCS_upper], not_defined = MCS_not_defined\<rparr>"

definition soft_buffer_ec :: "soft_buffer_size coded" where
  "soft_buffer_ec = \<lparr>base = 0, has_lower = False, enumerators = [SB_16000, SB_25344, SB_32000, SB_64000,
     SB_128000, SB_256000, SB_512000, SB_1024000, SB_2048000, SB_upper], not_defined =
     SB_not_defined\<rparr>"

definition harq_processes_ec :: "nof_harq_processes coded" where
  "harq_processes_ec = \<lparr>base = 0, has_lower = False, enumerators = [HP_1, HP_2, HP_4, HP_8, HP_upper],
     not_defined = HP_not_defined\<rparr>"

definition feedback_delay_ec :: "harq_feedback_delay coded" where
  "feedback_delay_ec = \<lparr>base = 0, has_lower = False, enumerators = [FD_0, FD_1, FD_2, FD_3, FD_4, FD_5,
     FD_6, FD_upper], not_defined = FD_not_defined\<rparr>"

definition subcarrier_ec :: "subcarrier_width coded" where
  "subcarrier_ec = \<lparr>base = 0, has_lower = False, enumerators = [W_27_kHz, W_54_kHz, W_108_kHz,
     W_216_kHz, W_upper], not_defined = W_not_defined\<rparr>"

definition dft_ec :: "dft_size coded" where
  "dft_ec = \<lparr>base = 0, has_lower = False, enumerators = [DFT_64, DFT_128, DFT_256, DFT_512,
     DFT_768, DFT_1024, DFT_upper], not_defined = DFT_not_defined\<rparr>"

interpretation release_coding: coded_enum release_ec
  by unfold_locales
    ((simp add: release_ec_def upper_value_def) | (rename_tac e, case_tac e; simp))+

interpretation op_mode_coding: coded_enum op_mode_ec
  by unfold_locales
    ((simp add: op_mode_ec_def upper_value_def) | (rename_tac e, case_tac e; simp))+

interpretation mac_sec_coding: coded_enum mac_sec_ec
  by unfold_locales
    ((simp add: mac_sec_ec_def upper_value_def) | (rename_tac e, case_tac e; simp))+

interpretation dlc_service_coding: coded_enum dlc_service_ec
  by unfold_locales
    ((simp add: dlc_service_ec_def upper_value_def) | (rename_tac e, case_tac e; simp))+

interpretation power_class_coding: coded_enum power_class_ec
  by unfold_locales
    ((simp add: power_class_ec_def upper_value_def) | (rename_tac e, case_tac e; simp))+

interpretation spatial_streams_coding: coded_enum spatial_streams_ec
  by unfold_locales
    ((simp add: spatial_streams_ec_def upper_value_def) | (rename_tac e, case_tac e; simp))+

interpretation tx_antennas_coding: coded_enum tx_antennas_ec
  by unfold_locales
    ((simp add: tx_antennas_ec_def upper_value_def) | (rename_tac e, case_tac e; simp))+

interpretation max_mcs_coding: coded_enum max_mcs_ec
  by unfold_locales
    ((simp add: max_mcs_ec_def upper_value_def) | (rename_tac e, case_tac e; simp))+

interpretation soft_buffer_coding: coded_enum soft_buffer_ec
  by unfold_locales
    ((simp add: soft_buffer_ec_def upper_value_def) | (rename_tac e, case_tac e; simp))+

interpretation harq_processes_coding: coded_enum harq_processes_ec
  by unfold_locales
    ((simp add: harq_processes_ec_def upper_value_def) | (rename_tac e, case_tac e; simp))+

interpretation feedback_delay_coding: coded_enum feedback_delay_ec
  by unfold_locales
    ((simp add: feedback_delay_ec_def upper_value_def) | (rename_tac e, case_tac e; simp))+

interpretation subcarrier_coding: coded_enum subcarrier_ec
  by unfold_locales
    ((simp add: subcarrier_ec_def upper_value_def) | (rename_tac e, case_tac e; simp))+

interpretation dft_coding: coded_enum dft_ec
  by unfold_locales
    ((simp add: dft_ec_def upper_value_def) | (rename_tac e, case_tac e; simp))+

lemma capability_upper_values [simp, enum_simps]:
  "upper_value release_ec = 5"
  "upper_value op_mode_ec = 3"
  "upper_value mac_sec_ec = 2"
  "upper_value dlc_service_ec = 5"
  "upper_value power_class_ec = 3"
  "upper_value spatial_streams_ec = 4"
  "upper_value tx_antennas_ec = 4"
  "upper_value max_mcs_ec = 10"
  "upper_value soft_buffer_ec = 9"
  "upper_value harq_processes_ec = 4"
  "upper_value feedback_delay_ec = 7"
  "upper_value subcarrier_ec = 4"
  "upper_value dft_ec = 6"
  by (simp_all add: upper_value_def release_ec_def op_mode_ec_def mac_sec_ec_def dlc_service_ec_def power_class_ec_def
      spatial_streams_ec_def tx_antennas_ec_def max_mcs_ec_def soft_buffer_ec_def
      harq_processes_ec_def feedback_delay_ec_def subcarrier_ec_def dft_ec_def)

subsection \<open>Capabilities of the physical layer\<close>

record phy_capability =
  pc_rd_power_class :: rd_power_class
  pc_max_nss_for_rx :: max_nof_spatial_streams
  pc_rx_for_tx_diversity :: max_nof_tx_antennas
  pc_rx_gain_index :: u32
  pc_max_mcs :: max_mcs_index
  pc_soft_buffer_size :: soft_buffer_size
  pc_nof_harq_processes :: nof_harq_processes
  pc_harq_feedback_delay :: harq_feedback_delay

record radio_device_class =
  rdc_mu :: subcarrier_width
  rdc_beta :: dft_size

record phy_capability_additional = radio_device_class +
  pa_capability :: phy_capability

definition rx_gain_table :: "int list" where
  "rx_gain_table = [-10, -8, -6, -4, -2, 0, 2, 4, 6]"

definition set_rx_gain :: "int \<Rightarrow> phy_capability \<Rightarrow> phy_capability" where
  "set_rx_gain dB c =
     (let lower = lower_bound rx_gain_table dB
      in c\<lparr>pc_rx_gain_index := (if lower \<noteq> length rx_gain_table then of_nat lower
                               else of_nat (length rx_gain_table - 1))\<rparr>)"

text \<open>The exception of \<open>std::array::at\<close> is caught.\<close>

definition get_rx_gain_dB :: "phy_capability \<Rightarrow> int option" where
  "get_rx_gain_dB c = (case array_at rx_gain_table (unat (pc_rx_gain_index c)) of
     Inl e \<Rightarrow> None | Inr g \<Rightarrow> Some g)"

definition phy_capability_valid :: "phy_capability \<Rightarrow> bool" where
  "phy_capability_valid c \<longleftrightarrow>
     enum_valid power_class_ec (pc_rd_power_class c)
   \<and> enum_valid spatial_streams_ec (pc_max_nss_for_rx c)
   \<and> enum_valid tx_antennas_ec (pc_rx_for_tx_diversity c)
   \<and> has_value (get_rx_gain_dB c) \<and> enum_valid max_mcs_ec (pc_max_mcs c)
   \<and> enum_valid soft_buffer_ec (pc_soft_buffer_size c)
   \<and> enum_valid harq_processes_ec (pc_nof_harq_processes c)
   \<and> enum_valid feedback_delay_ec (pc_harq_feedback_delay c)"

definition pack_phy_capability :: "phy_capability \<Rightarrow> bytes" where
  "pack_phy_capability c =
     [to_byte (push_bit 4 (to_underlying power_class_ec (pc_rd_power_class c)))
        OR to_byte (push_bit 2 (to_underlying spatial_streams_ec (pc_max_nss_for_rx c)))
        OR to_byte (to_underlying tx_antennas_ec (pc_rx_for_tx_diversity c)),
      to_byte (push_bit 4 (pc_rx_gain_index c))
        OR to_byte (to_underlying max_mcs_ec (pc_max_mcs c)),
      to_byte (push_bit 4 (to_underlying soft_buffer_ec (pc_soft_buffer_size c)))
        OR to_byte (push_bit 2 (to_underlying harq_processes_ec (pc_nof_harq_processes c))),
      to_byte (push_bit 4 (to_underlying feedback_delay_ec (pc_harq_feedback_delay c)))]"

definition unpack_phy_capability :: "bytes \<Rightarrow> nat \<Rightarrow> phy_capability res" where
  "unpack_phy_capability a off =
     bindE (rd a off) (\<lambda>b0.
     bindE (rd a (off + 1)) (\<lambda>b1.
     bindE (rd a (off + 2)) (\<lambda>b2.
     bindE (rd a (off + 3)) (\<lambda>b3.
     Inr \<lparr>pc_rd_power_class = from_coded_value power_class_ec (drop_bit 4 b0 AND 7),
          pc_max_nss_for_rx = from_coded_value spatial_streams_ec (drop_bit 2 b0 AND 3),
          pc_rx_for_tx_diversity = from_coded_value tx_antennas_ec (b0 AND 3),
          pc_rx_gain_index = drop_bit 4 b1,
          pc_max_mcs = from_coded_value max_mcs_ec (b1 AND 15),
          pc_soft_buffer_size = from_coded_value soft_buffer_ec (drop_bit 4 b2),
          pc_nof_harq_processes = from_coded_value harq_processes_ec (drop_bit 2 b2 AND 3),
          pc_harq_feedback_delay = from_coded_value feedback_delay_ec (drop_bit 4 b3)\<rparr>))))"

definition wr_rdc :: "'a radio_device_class_scheme \<Rightarrow> u8" where
  "wr_rdc c = to_byte (push_bit 5 (to_underlying subcarrier_ec (rdc_mu c)))
     OR to_byte (push_bit 1 (to_underlying dft_ec (rdc_beta c)))"

lemma rx_gain_fits: "has_value (get_rx_gain_dB c) \<Longrightarrow> fits 4 (pc_rx_gain_index c)"
  by (simp add: get_rx_gain_dB_def array_at_def rx_gain_table_def fits_iff_unat split: if_splits)

lemma set_rx_gain_valid: "has_value (get_rx_gain_dB (set_rx_gain dB c))"
proof -
  let ?l = "lower_bound rx_gain_table dB"
  have "?l \<le> length rx_gain_table"
    by (simp add: lower_bound_def length_takeWhile_le)
  moreover have "length rx_gain_table = 9" by (simp add: rx_gain_table_def)
  ultimately have "?l < 9 \<or> ?l = 9" by linarith
  then show ?thesis
    using \<open>length rx_gain_table = 9\<close>
    by (auto simp: set_rx_gain_def get_rx_gain_dB_def array_at_def Let_def unat_of_nat
        take_bit_nat_eq_self)
qed

lemma length_pack_phy [simp]: "length (pack_phy_capability c) = 4"
  by (simp add: pack_phy_capability_def)

lemma unpack_phy_cons [simp]:
  "unpack_phy_capability (b # bs) (numeral k) = unpack_phy_capability bs (pred_numeral k)"
  "unpack_phy_capability (b # bs) (Suc i) = unpack_phy_capability bs i"
  by (simp_all add: unpack_phy_capability_def numeral_eq_Suc)

lemma unpack_phy_append [simp]:
  "length xs \<le> i \<Longrightarrow> unpack_phy_capability (xs @ ys) i = unpack_phy_capability ys (i - length xs)"
  by (simp add: unpack_phy_capability_def Suc_diff_le)

lemma unpack_phy_written [simp]:
  assumes "phy_capability_valid c"
  shows "unpack_phy_capability (pack_phy_capability c @ r) 0 = Inr c"
proof -
  obtain pw ss ta g mcs sb hp fd where c: "c = \<lparr>pc_rd_power_class = pw, pc_max_nss_for_rx = ss,
     pc_rx_for_tx_diversity = ta, pc_rx_gain_index = g, pc_max_mcs = mcs, pc_soft_buffer_size = sb,
     pc_nof_harq_processes = hp, pc_harq_feedback_delay = fd\<rparr>"
    by (cases c)
  have "fits 4 g" using assms rx_gain_fits [of c] by (simp add: c phy_capability_valid_def)
  with assms show ?thesis
    by (simp add: c phy_capability_valid_def pack_phy_capability_def unpack_phy_capability_def
        field_simps_bits)
qed

lemma okE_unpack_phy [ok_intros]:
  "i + 4 \<le> length a \<Longrightarrow> (\<And>c. P c) \<Longrightarrow> okE F (unpack_phy_capability a i) P"
  unfolding unpack_phy_capability_def by (intro ok_intros) simp_all

subsection \<open>RD capability IE\<close>

record rd_capability =
  rc_additional_phy_capabilities :: "phy_capability_additional list"
  rc_release :: rd_release
  rc_operating_modes :: operating_mode
  rc_supports_mesh :: bool
  rc_supports_scheduled :: bool
  rc_mac_security :: mac_security_mode
  rc_dlc_service_type :: dlc_service_type
  rc_phy_capability :: phy_capability

definition pa_valid :: "phy_capability_additional \<Rightarrow> bool" where
  "pa_valid c \<longleftrightarrow> enum_valid subcarrier_ec (rdc_mu c) \<and> enum_valid dft_ec (rdc_beta c)
     \<and> phy_capability_valid (pa_capability c)"

definition rc_zero :: rd_capability where
  "rc_zero = \<lparr>rc_additional_phy_capabilities = [], rc_release = RL_not_defined,
     rc_operating_modes = OM_not_defined, rc_supports_mesh = False, rc_supports_scheduled = False,
     rc_mac_security = MS_not_defined, rc_dlc_service_type = DLC_not_defined,
     rc_phy_capability = \<lparr>pc_rd_power_class = PC_not_defined, pc_max_nss_for_rx = SS_not_defined,
       pc_rx_for_tx_diversity = TA_not_defined, pc_rx_gain_index = UNDEFINED_NUMERIC_32,
       pc_max_mcs = MCS_not_defined, pc_soft_buffer_size = SB_not_defined,
       pc_nof_harq_processes = HP_not_defined, pc_harq_feedback_delay = FD_not_defined\<rparr>\<rparr>"

definition rc_valid :: "rd_capability \<Rightarrow> bool" where
  "rc_valid m =
     (if length (rc_additional_phy_capabilities m) > 7
         \<or> \<not> list_all pa_valid (rc_additional_phy_capabilities m) then False
      else if \<not> enum_valid release_ec (rc_release m) \<or> \<not> enum_valid op_mode_ec (rc_operating_modes m)
         \<or> \<not> enum_valid mac_sec_ec (rc_mac_security m)
         \<or> \<not> enum_valid dlc_service_ec (rc_dlc_service_type m)
         \<or> \<not> phy_capability_valid (rc_phy_capability m) then False
      else True)"

definition rc_size :: "rd_capability \<Rightarrow> nat" where
  "rc_size m = 7 + length (rc_additional_phy_capabilities m) * 5"

definition rc_packed_size :: "rd_capability \<Rightarrow> nat res" where
  "rc_packed_size m = assertE (rc_valid m) (Inr (rc_size m))"

definition rc_peek :: "bytes \<Rightarrow> peek_result res" where
  "rc_peek a = bindE (rd a 0) (\<lambda>b0. Inr (Inr (7 + unat (drop_bit 5 b0) * 5)))"

definition rc_pack :: "rd_capability \<Rightarrow> bytes res" where
  "rc_pack m = assertE (rc_valid m) (assert_peek rc_peek (
     [to_byte (push_bit 5 (of_nat (length (rc_additional_phy_capabilities m))))
        OR to_byte (to_underlying release_ec (rc_release m)),
      to_byte (push_bit 2 (to_underlying op_mode_ec (rc_operating_modes m)))
        OR to_byte (push_bit 1 (b2u (rc_supports_mesh m)))
        OR to_byte (b2u (rc_supports_scheduled m)),
      to_byte (push_bit 5 (to_underlying mac_sec_ec (rc_mac_security m)))
        OR to_byte (push_bit 2 (to_underlying dlc_service_ec (rc_dlc_service_type m)))]
     @ pack_phy_capability (rc_phy_capability m)
     @ concat (map (\<lambda>c. wr_rdc c # pack_phy_capability (pa_capability c))
         (rc_additional_phy_capabilities m))))"

text \<open>
  The loop that reads the additional capabilities runs as long as the offset is below the
  size that peeking gives; every turn advances it by five bytes.
\<close>

function unpack_additional ::
  "bytes \<Rightarrow> nat \<Rightarrow> nat \<Rightarrow> phy_capability_additional list \<Rightarrow>
   (phy_capability_additional list \<times> nat) res" where
  "unpack_additional a sz off acc =
     (if off < sz
      then bindE (rd a off) (\<lambda>b.
           bindE (unpack_phy_capability a (off + 1)) (\<lambda>c.
           unpack_additional a sz (off + 5) (acc @
             [\<lparr>rdc_mu = from_coded_value subcarrier_ec (drop_bit 5 b),
               rdc_beta = from_coded_value dft_ec (drop_bit 1 b AND 15),
               pa_capability = c\<rparr>])))
      else Inr (acc, off))"
  by pat_completeness auto
termination
  by (relation "measure (\<lambda>(a, sz, off, acc). sz - off)") auto

declare unpack_additional.simps [simp del]

definition rc_unpack :: "bytes \<Rightarrow> (bool \<times> rd_capability) res" where
  "rc_unpack a =
     bindE (rd a 0) (\<lambda>b0.
     bindE (rd a 1) (\<lambda>b1.
     bindE (rd a 2) (\<lambda>b2.
     bindE (unpack_phy_capability a 3) (\<lambda>phy.
     bindE (rc_peek a) (\<lambda>p. case p of
       Inl e \<Rightarrow> Inl Assertion_failed
     | Inr sz \<Rightarrow>
     bindE (unpack_additional a sz 7 []) (\<lambda>(caps, off).
     let m = \<lparr>rc_additional_phy_capabilities = caps,
              rc_release = from_coded_value release_ec (b0 AND bitmask_lsb 5),
              rc_operating_modes = from_coded_value op_mode_ec (drop_bit 2 b1 AND 3),
              rc_supports_mesh = (b1 AND 2 \<noteq> 0), rc_supports_scheduled = (b1 AND 1 \<noteq> 0),
              rc_mac_security = from_coded_value mac_sec_ec (drop_bit 5 b2),
              rc_dlc_service_type = from_coded_value dlc_service_ec (drop_bit 2 b2 AND 7),
              rc_phy_capability = phy\<rparr>
     in bindE (rc_packed_size m) (\<lambda>n. assertE (n = off) (Inr (rc_valid m, m)))))))))"

lemma length_additional:
  "length (concat (map (\<lambda>c. wr_rdc c # pack_phy_capability (pa_capability c)) cs)) = 5 * length cs"
  by (induction cs) simp_all

lemma rdc_written:
  assumes "enum_valid subcarrier_ec (rdc_mu c)" "enum_valid dft_ec (rdc_beta c)"
  shows "from_coded_value subcarrier_ec (drop_bit 5 (ucast (wr_rdc c))) = rdc_mu c"
    "from_coded_value dft_ec (drop_bit (Suc 0) (ucast (wr_rdc c)) AND 15) = rdc_beta c"
    "from_coded_value subcarrier_ec (drop_bit 5 (ucast (wr_rdc c)) AND 7) = rdc_mu c"
proof -
  have f: "fits 2 (to_underlying subcarrier_ec (rdc_mu c))" "fits 3 (to_underlying dft_ec (rdc_beta c))"
    using assms by simp_all
  then have "fits 3 (to_underlying subcarrier_ec (rdc_mu c))"
    "fits 4 (to_underlying dft_ec (rdc_beta c))"
    by (auto elim: fits_mono)
  with assms show "from_coded_value subcarrier_ec (drop_bit 5 (ucast (wr_rdc c))) = rdc_mu c"
    "from_coded_value dft_ec (drop_bit (Suc 0) (ucast (wr_rdc c)) AND 15) = rdc_beta c"
    "from_coded_value subcarrier_ec (drop_bit 5 (ucast (wr_rdc c)) AND 7) = rdc_mu c"
    by (simp_all add: wr_rdc_def field_simps_bits)
qed

lemma unpack_additional_written:
  "list_all pa_valid cs \<Longrightarrow> length pre = off \<Longrightarrow>
   unpack_additional (pre @ concat (map (\<lambda>c. wr_rdc c # pack_phy_capability (pa_capability c)) cs) @ r)
     (off + 5 * length cs) off acc = Inr (acc @ cs, off + 5 * length cs)"
proof (induction cs arbitrary: pre off acc)
  case Nil
  then show ?case by (simp add: unpack_additional.simps)
next
  case (Cons c cs)
  let ?w = "\<lambda>c. wr_rdc c # pack_phy_capability (pa_capability c)"
  let ?a = "pre @ concat (map ?w (c # cs)) @ r"
  have c: "enum_valid subcarrier_ec (rdc_mu c)" "enum_valid dft_ec (rdc_beta c)"
    "phy_capability_valid (pa_capability c)"
    using Cons.prems(1) by (simp_all add: pa_valid_def)
  have eq: "\<lparr>rdc_mu = rdc_mu c, rdc_beta = rdc_beta c, pa_capability = pa_capability c\<rparr> = c"
    by (cases c) simp
  have "rd ?a off = Inr (ucast (wr_rdc c))"
    "unpack_phy_capability ?a (off + 1) = Inr (pa_capability c)"
    using Cons.prems(2) c(3) by simp_all
  moreover have "unpack_additional ?a (off + 5 * length (c # cs)) (off + 5) (acc @ [c])
      = Inr (acc @ c # cs, off + 5 * length (c # cs))"
    using Cons.IH [of "pre @ ?w c" "off + 5" "acc @ [c]"] Cons.prems by (simp add: algebra_simps)
  ultimately show ?case
    by (subst unpack_additional.simps) (simp add: rdc_written [OF c(1,2)] eq)
qed

lemma okE_unpack_additional [ok_intros]:
  "sz \<le> length a \<Longrightarrow> sz = off + 5 * n \<Longrightarrow> (\<And>cs. P (cs, sz)) \<Longrightarrow>
   okE F (unpack_additional a sz off acc) P"
proof (induction n arbitrary: off acc)
  case 0
  then show ?case by (simp add: unpack_additional.simps)
next
  case (Suc n)
  then have IH: "okE F (unpack_additional a sz (off + 5) acc') P" for acc'
    by (intro Suc.IH) simp_all
  show ?case
    apply (subst unpack_additional.simps)
    apply (intro ok_intros)
    using Suc.prems IH by simp_all
qed

lemma rc_head:
  assumes "rc_valid m"
  defines "b0 \<equiv> to_byte (push_bit 5 (of_nat (length (rc_additional_phy_capabilities m))))
        OR to_byte (to_underlying release_ec (rc_release m))"
    and "b1 \<equiv> to_byte (push_bit 2 (to_underlying op_mode_ec (rc_operating_modes m)))
        OR to_byte (push_bit 1 (b2u (rc_supports_mesh m)))
        OR to_byte (b2u (rc_supports_scheduled m))"
    and "b2 \<equiv> to_byte (push_bit 5 (to_underlying mac_sec_ec (rc_mac_security m)))
        OR to_byte (push_bit 2 (to_underlying dlc_service_ec (rc_dlc_service_type m)))"
  shows "unat (drop_bit 5 (ucast b0) :: u32) = length (rc_additional_phy_capabilities m)"
    "from_coded_value release_ec (ucast b0 AND mask 5) = rc_release m"
    "from_coded_value op_mode_ec (drop_bit 2 (ucast b1) AND 3) = rc_operating_modes m"
    "bit b1 (Suc 0) = rc_supports_mesh m" "bit b1 0 = rc_supports_scheduled m"
    "from_coded_value mac_sec_ec (drop_bit 5 (ucast b2)) = rc_mac_security m"
    "from_coded_value dlc_service_ec (drop_bit 2 (ucast b2) AND 7) = rc_dlc_service_type m"
proof -
  have v: "length (rc_additional_phy_capabilities m) \<le> 7" "enum_valid release_ec (rc_release m)"
    "enum_valid op_mode_ec (rc_operating_modes m)" "enum_valid mac_sec_ec (rc_mac_security m)"
    "enum_valid dlc_service_ec (rc_dlc_service_type m)"
    using assms(1) by (auto simp: rc_valid_def split: if_splits)
  have n: "unat (of_nat (length (rc_additional_phy_capabilities m)) :: u32)
      = length (rc_additional_phy_capabilities m)"
    using v(1) by (simp add: unat_of_nat take_bit_nat_eq_self)
  then have f: "fits 3 (of_nat (length (rc_additional_phy_capabilities m)))"
    using v(1) by (simp add: fits_iff_unat)
  have "drop_bit 5 (ucast b0) = (of_nat (length (rc_additional_phy_capabilities m)) :: u32)"
    using v(2) f by (simp add: b0_def field_simps_bits)
  with n show "unat (drop_bit 5 (ucast b0) :: u32) = length (rc_additional_phy_capabilities m)"
    by simp
  show "from_coded_value release_ec (ucast b0 AND mask 5) = rc_release m"
    using v(2) by (simp add: b0_def field_simps_bits)
  show "from_coded_value op_mode_ec (drop_bit 2 (ucast b1) AND 3) = rc_operating_modes m"
    using v(3) by (simp add: b1_def field_simps_bits)
  have o: "fits 2 (to_underlying op_mode_ec (rc_operating_modes m))" using v(3) by simp
  show "bit b1 (Suc 0) = rc_supports_mesh m" "bit b1 0 = rc_supports_scheduled m"
    by (simp_all add: b1_def flag_simps)
  show "from_coded_value mac_sec_ec (drop_bit 5 (ucast b2)) = rc_mac_security m"
    using v(4,5) by (simp add: b2_def field_simps_bits)
  show "from_coded_value dlc_service_ec (drop_bit 2 (ucast b2) AND 7) = rc_dlc_service_type m"
    using v(4,5) by (simp add: b2_def field_simps_bits)
qed

lemma rc_pack_ok:
  assumes "rc_valid m"
  shows "\<exists>bs. rc_pack m = Inr bs \<and> length bs = rc_size m"
    and "rc_pack m = Inr bs \<Longrightarrow> rc_peek (bs @ r) = Inr (Inr (rc_size m))"
    and "rc_pack m = Inr bs \<Longrightarrow> rc_unpack (bs @ r) = Inr (True, m)"
proof -
  let ?caps = "rc_additional_phy_capabilities m"
  define b0 where "b0 = to_byte (push_bit 5 (of_nat (length ?caps)))
        OR to_byte (to_underlying release_ec (rc_release m))"
  define b1 where "b1 = to_byte (push_bit 2 (to_underlying op_mode_ec (rc_operating_modes m)))
        OR to_byte (push_bit 1 (b2u (rc_supports_mesh m)))
        OR to_byte (b2u (rc_supports_scheduled m))"
  define b2 where "b2 = to_byte (push_bit 5 (to_underlying mac_sec_ec (rc_mac_security m)))
        OR to_byte (push_bit 2 (to_underlying dlc_service_ec (rc_dlc_service_type m)))"
  note h = rc_head [OF assms, folded b0_def b1_def b2_def]
  have v: "list_all pa_valid ?caps" "phy_capability_valid (rc_phy_capability m)"
    using assms by (auto simp: rc_valid_def split: if_splits)
  have peek: "rc_peek (b0 # bs) = Inr (Inr (rc_size m))" for bs
    by (simp add: rc_peek_def h rc_size_def)
  let ?tail = "concat (map (\<lambda>c. wr_rdc c # pack_phy_capability (pa_capability c)) ?caps)"
  have pack: "rc_pack m = assertE (rc_valid m) (assert_peek rc_peek ([b0, b1, b2]
      @ pack_phy_capability (rc_phy_capability m) @ ?tail))"
    by (simp only: rc_pack_def b0_def b1_def b2_def)
  show "\<exists>bs. rc_pack m = Inr bs \<and> length bs = rc_size m"
    using assms peek by (simp add: pack length_additional) (simp add: rc_size_def)
  assume "rc_pack m = Inr bs"
  then have bs: "bs = ([b0, b1, b2] @ pack_phy_capability (rc_phy_capability m)) @ ?tail"
    by (simp add: pack)
  show "rc_peek (bs @ r) = Inr (Inr (rc_size m))"
    by (simp add: bs peek)
  have hd: "rd (bs @ r) 0 = Inr (ucast b0)" "rd (bs @ r) (Suc 0) = Inr (ucast b1)"
    "rd (bs @ r) 2 = Inr (ucast b2)" "unpack_phy_capability (bs @ r) 3 = Inr (rc_phy_capability m)"
    "rc_peek (bs @ r) = Inr (Inr (rc_size m))"
    using v(2) by (simp_all add: bs peek)
  have tail: "unpack_additional (bs @ r) (rc_size m) 7 [] = Inr (?caps, rc_size m)"
    using unpack_additional_written [OF v(1), of "[b0, b1, b2] @ pack_phy_capability (rc_phy_capability m)"
        7 r "[]"]
    by (simp add: bs rc_size_def algebra_simps)
  have m: "\<lparr>rc_additional_phy_capabilities = ?caps, rc_release = rc_release m,
      rc_operating_modes = rc_operating_modes m, rc_supports_mesh = rc_supports_mesh m,
      rc_supports_scheduled = rc_supports_scheduled m, rc_mac_security = rc_mac_security m,
      rc_dlc_service_type = rc_dlc_service_type m, rc_phy_capability = rc_phy_capability m\<rparr> = m"
    by (cases m) simp
  show "rc_unpack (bs @ r) = Inr (True, m)"
    using assms by (simp add: rc_unpack_def hd tail h flag_simps Let_def m rc_packed_size_def)
qed

lemma rc_unpack_in_bounds:
  assumes "rc_peek a = Inr (Inr k)" "k \<le> length a"
  shows "rc_unpack a \<noteq> Inl Out_of_bounds_read"
proof -
  have l: "7 + unat (drop_bit 5 (ucast (a ! 0)) :: u32) * 5 \<le> length a" "1 \<le> length a"
    using assms by (auto simp: rc_peek_def bindE_eq_Inr rd_def Suc_le_eq split: if_splits)
  have caps: "okE {Assertion_failed} (unpack_additional a
      (7 + unat (drop_bit 5 (ucast (a ! 0)) :: u32) * 5) 7 []) P" if "\<And>x. P x" for P
    using l that by (intro okE_unpack_additional [where n = "unat (drop_bit 5 (ucast (a ! 0)) :: u32)"])
      simp_all
  have "okE {Assertion_failed} (rc_unpack a) (\<lambda>_. True)"
    unfolding rc_unpack_def Let_def rc_packed_size_def rc_peek_def
    apply (intro ok_intros)
    apply (use l in \<open>simp_all add: rd_ok\<close>)
    apply (rule okE_bind, rule caps, intro ok_intros)
    by (simp_all add: okE_def assertE_def split: prod.splits)
  then show ?thesis by (rule okE_in_bounds) simp
qed

lemma rc_peek_total: "1 \<le> length a \<Longrightarrow> \<exists>p. rc_peek a = Inr p"
  by (simp add: rc_peek_def rd_ok)

interpretation rc: peeking rc_valid rc_size rc_pack rc_unpack 1 rc_peek
proof (unfold_locales, goal_cases)
  case (1 m) then show ?case using rc_pack_ok(1) by blast
next
  case (2 m bs r) then show ?case using rc_pack_ok(3) by blast
next
  case (3 a) then show ?case by (rule rc_peek_total)
next
  case (4 m bs r) then show ?case using rc_pack_ok(2) by blast
qed

subsection \<open>Neighbouring IE\<close>

text \<open>
  \<open>is_valid\<close> and \<open>pack\<close> take the values of the radio device class and of the next cluster
  channel before they ask whether there is one.
\<close>

record neighbouring =
  ne_short_rd_id :: u32
  ne_radio_device_class :: "radio_device_class option"
  ne_snr :: "u32 option"
  ne_rssi_2 :: "u32 option"
  ne_has_power_constraints :: bool
  ne_next_cluster_channel :: "u32 option"
  ne_time_to_next :: "u32 option"
  ne_network_beacon_period :: network_beacon_period
  ne_cluster_beacon_period :: cluster_beacon_period

definition ne_zero :: neighbouring where
  "ne_zero = \<lparr>ne_short_rd_id = UNDEFINED_NUMERIC_32, ne_radio_device_class = None, ne_snr = None,
     ne_rssi_2 = None, ne_has_power_constraints = False, ne_next_cluster_channel = None,
     ne_time_to_next = None, ne_network_beacon_period = NBP_not_defined,
     ne_cluster_beacon_period = CBP_not_defined\<rparr>"

definition ne_valid :: "neighbouring \<Rightarrow> bool res" where
  "ne_valid m =
     (if ne_short_rd_id m > bitmask_lsb 16 then Inr False
      else bindE (valueE (ne_radio_device_class m)) (\<lambda>v.
        if has_value (ne_radio_device_class m)
           \<and> (\<not> enum_valid subcarrier_ec (rdc_mu v) \<or> \<not> enum_valid dft_ec (rdc_beta v)) then Inr False
        else if \<not> opt_ok (\<lambda>v. \<not> v > 0xff) (ne_snr m) then Inr False
        else if \<not> opt_ok (\<lambda>v. \<not> v > 0xff) (ne_rssi_2 m) then Inr False
        else if \<not> opt_ok is_absolute_channel_number_in_range (ne_next_cluster_channel m) then Inr False
        else if \<not> enum_valid nb_period_ec (ne_network_beacon_period m)
                \<or> \<not> enum_valid cb_period_ec (ne_cluster_beacon_period m) then Inr False
        else Inr True))"

definition ne_packed_size :: "neighbouring \<Rightarrow> nat" where
  "ne_packed_size m = 4 + osz (ne_radio_device_class m) 1 + osz (ne_snr m) 1 + osz (ne_rssi_2 m) 1
     + osz (ne_next_cluster_channel m) 2 + osz (ne_time_to_next m) 4"

definition ne_peek :: "bytes \<Rightarrow> peek_result res" where
  "ne_peek a =
     bindE (rd a 2) (\<lambda>b2. Inr (Inr
       (4 + unat (drop_bit 5 b2 AND 1) + unat (drop_bit 4 b2 AND 1) + unat (drop_bit 3 b2 AND 1)
          + unat (b2 AND 2) * 2 + unat (b2 AND 1) * 4)))"

definition ne_pack :: "neighbouring \<Rightarrow> bytes res" where
  "ne_pack m = bindE (ne_valid m) (\<lambda>v. assertE v (
     bindE (valueE (ne_next_cluster_channel m)) (\<lambda>channel.
     bindE (valueE (ne_radio_device_class m)) (\<lambda>rdc. assert_peek ne_peek (
       l2b_lower (ne_short_rd_id m) 2
       @ [to_byte (push_bit 5 (b2u (has_value (ne_radio_device_class m))))
            OR to_byte (push_bit 4 (b2u (has_value (ne_snr m))))
            OR to_byte (push_bit 3 (b2u (has_value (ne_rssi_2 m))))
            OR to_byte (push_bit 2 (b2u (ne_has_power_constraints m)))
            OR to_byte (push_bit 1 (b2u (has_value (ne_next_cluster_channel m))))
            OR to_byte (b2u (has_value (ne_time_to_next m))),
          to_byte (push_bit 4 (to_underlying nb_period_ec (ne_network_beacon_period m)))
            OR to_byte (to_underlying cb_period_ec (ne_cluster_beacon_period m))]
       @ wr_opt (ne_next_cluster_channel m) (\<lambda>c. [to_byte (drop_bit 5 channel), to_byte (channel AND 0xff)])
       @ wr_opt (ne_time_to_next m) (\<lambda>v. l2b_lower v 4)
       @ wr_opt (ne_rssi_2 m) (\<lambda>v. [to_byte v])
       @ wr_opt (ne_snr m) (\<lambda>v. [to_byte v])
       @ wr_opt (ne_radio_device_class m) (\<lambda>_. [wr_rdc rdc]))))))"

definition ne_unpack :: "bytes \<Rightarrow> (bool \<times> neighbouring) res" where
  "ne_unpack a =
     bindE (b2l_lower a 0 2) (\<lambda>rd_id.
     bindE (rd a 2) (\<lambda>b2.
     bindE (rd a 3) (\<lambda>b3.
     bindE (rd_opt (b2 AND 2 \<noteq> 0) 4 2 (rd_channel a)) (\<lambda>(ch, off).
     bindE (rd_opt (b2 AND 1 \<noteq> 0) off 4 (\<lambda>i. b2l_lower a i 4)) (\<lambda>(ttn, off).
     bindE (rd_opt (drop_bit 3 b2 AND 1 \<noteq> 0) off 1 (rd a)) (\<lambda>(rssi, off).
     bindE (rd_opt (drop_bit 4 b2 AND 1 \<noteq> 0) off 1 (rd a)) (\<lambda>(snr, off).
     bindE (rd_opt (drop_bit 5 b2 AND 1 \<noteq> 0) off 1 (\<lambda>i. bindE (rd a i) (\<lambda>b.
              Inr \<lparr>rdc_mu = from_coded_value subcarrier_ec (drop_bit 5 b AND 7),
                   rdc_beta = from_coded_value dft_ec (drop_bit 1 b AND 15)\<rparr>))) (\<lambda>(rdc, off).
     let m = \<lparr>ne_short_rd_id = rd_id, ne_radio_device_class = rdc, ne_snr = snr, ne_rssi_2 = rssi,
              ne_has_power_constraints = (drop_bit 2 b2 AND 1 \<noteq> 0),
              ne_next_cluster_channel = ch, ne_time_to_next = ttn,
              ne_network_beacon_period = from_coded_value nb_period_ec (b3 AND 0xf0),
              ne_cluster_beacon_period = from_coded_value cb_period_ec (b3 AND 15)\<rparr>
     in assertE (ne_packed_size m = off) (bindE (ne_valid m) (\<lambda>v. Inr (v, m)))))))))))"

text \<open>
  No neighbouring IE can be packed: without a channel the access to its value fails, and with
  one peeking counts four bytes for the two that are written.
\<close>

lemma length_ne_tail [simp]:
  "length (wr_opt x (\<lambda>c. [f, g])) = osz x 2" "length (wr_opt x (\<lambda>_. [f])) = osz x 1"
  by (rule length_wr_opt, simp)+

lemma ne_pack_fails: "\<exists>e. ne_pack m = Inl e"
proof -
  have "ne_pack m \<noteq> Inr bs" for bs
  proof
    assume p: "ne_pack m = Inr bs"
    then obtain ch where c: "ne_next_cluster_channel m = Some ch"
      by (cases "ne_next_cluster_channel m") (auto simp: ne_pack_def bindE_eq_Inr)
    obtain rdc where r: "ne_radio_device_class m = Some rdc"
      using p by (cases "ne_radio_device_class m") (auto simp: ne_pack_def bindE_eq_Inr)
    define b2 where "b2 = to_byte (push_bit 5 (b2u (has_value (ne_radio_device_class m))))
            OR to_byte (push_bit 4 (b2u (has_value (ne_snr m))))
            OR to_byte (push_bit 3 (b2u (has_value (ne_rssi_2 m))))
            OR to_byte (push_bit 2 (b2u (ne_has_power_constraints m)))
            OR to_byte (push_bit 1 (b2u (has_value (ne_next_cluster_channel m))))
            OR to_byte (b2u (has_value (ne_time_to_next m)))"
    have b2: "bit b2 5" "bit b2 4 = has_value (ne_snr m)" "bit b2 3 = has_value (ne_rssi_2 m)"
      "bit b2 1" "bit b2 0 = has_value (ne_time_to_next m)"
      by (simp_all add: b2_def flag_simps c r)
    obtain b3 where bs: "bs = l2b_lower (ne_short_rd_id m) 2 @ [b2, b3]
       @ [to_byte (drop_bit 5 ch), to_byte (ch AND 0xff)]
       @ wr_opt (ne_time_to_next m) (\<lambda>v. l2b_lower v 4) @ wr_opt (ne_rssi_2 m) (\<lambda>v. [to_byte v])
       @ wr_opt (ne_snr m) (\<lambda>v. [to_byte v]) @ [wr_rdc rdc]"
      and peek: "ne_peek bs = Inr (Inr (length bs))"
      using p unfolding b2_def by (auto simp: ne_pack_def bindE_eq_Inr c r)
    have "ne_peek bs = Inr (Inr (length bs + 2))"
      using b2(1,4)
      by (simp add: bs ne_peek_def flag_simps b2 osz_def)
    with peek show False by simp
  qed
  then show ?thesis by (cases "ne_pack m") auto
qed

lemma okE_rdc [ok_intros]:
  "Suc i \<le> length a \<Longrightarrow> (\<And>c. P c) \<Longrightarrow>
   okE F (bindE (rd a i) (\<lambda>b. Inr \<lparr>rdc_mu = f b, rdc_beta = g b\<rparr>)) P"
  by (simp add: rd_ok)

lemma ne_unpack_in_bounds:
  assumes "ne_peek a = Inr (Inr k)" "k \<le> length a"
  shows "ne_unpack a \<noteq> Inl Out_of_bounds_read"
proof -
  have l: "4 + csz (bit (a ! 2) 5) 1 + csz (bit (a ! 2) 4) 1 + csz (bit (a ! 2) 3) 1
      + csz (bit (a ! 2) 1) 4 + csz (bit (a ! 2) 0) 4 \<le> length a"
    using assms by (auto simp: ne_peek_def bindE_eq_Inr rd_def flag_simps split: if_splits)
  have "okE {Assertion_failed, Bad_optional_access} (ne_unpack a) (\<lambda>_. True)"
    unfolding ne_unpack_def Let_def ne_valid_def
    apply (intro ok_intros)
    using l by (simp_all add: flag_simps csz_def split: if_splits)
  then show ?thesis by (rule okE_in_bounds) simp
qed

end
