(* ===== verification/Report_Elements.thy ===== *)
theory Report_Elements
  imports Optional_Fields
begin

text \<open>
  The information elements \<open>group_assignment_ie\<close>, \<open>load_info_ie\<close>, \<open>measurement_report_ie\<close>
  and \<open>broadcast_indication_ie\<close> of \<open>sections_part4/mac_messages_and_ie\<close>.
\<close>

subsection \<open>Group assignment IE\<close>

datatype nof_resource_assignments =
  NRA_not_defined | multiple_assignments | single_assignment | NRA_upper

datatype resource_direction = RDR_not_defined | as_preassigned | inverted | RDR_upper

definition nof_assignments_ec :: "nof_resource_assignments coded" where
  "nof_assignments_ec = \<lparr>base = 0, has_lower = False, enumerators = [multiple_assignments,
     single_assignment, NRA_upper], not_defined = NRA_not_defined\<rparr>"

definition direction_ec :: "resource_direction coded" where
  "direction_ec = \<lparr>base = 0, has_lower = False, enumerators = [as_preassigned, inverted, RDR_upper],
     not_defined = RDR_not_defined\<rparr>"

interpretation nof_assignments_coding: coded_enum nof_assignments_ec
  by unfold_locales
    ((simp add: nof_assignments_ec_def upper_value_def) | (rename_tac e, case_tac e; simp))+

interpretation direction_coding: coded_enum direction_ec
  by unfold_locales
    ((simp add: direction_ec_def upper_value_def) | (rename_tac e, case_tac e; simp))+

lemma group_upper_values [simp, enum_simps]:
  "upper_value nof_assignments_ec = 2" "upper_value direction_ec = 2"
  by (simp_all add: upper_value_def nof_assignments_ec_def direction_ec_def)

record resource_assignment =
  as_direct :: resource_direction
  as_resource_tag :: u32

record group_assignment =
  ga_single :: nof_resource_assignments
  ga_group_id :: u32
  ga_resource_assignments :: "resource_assignment list"

definition assignment_ok :: "resource_assignment \<Rightarrow> bool" where
  "assignment_ok x \<longleftrightarrow> enum_valid direction_ec (as_direct x) \<and> as_resource_tag x \<le> bitmask_lsb 7"

definition ga_zero :: group_assignment where
  "ga_zero = \<lparr>ga_single = not_defined nof_assignments_ec, ga_group_id = UNDEFINED_NUMERIC_32,
     ga_resource_assignments = []\<rparr>"

definition ga_valid :: "group_assignment \<Rightarrow> bool" where
  "ga_valid m =
     (if \<not> enum_valid nof_assignments_ec (ga_single m) then False
      else if ga_single m = single_assignment \<and> length (ga_resource_assignments m) \<noteq> 1 then False
      else if ga_single m = multiple_assignments \<and> length (ga_resource_assignments m) < 2 then False
      else if ga_group_id m > bitmask_lsb 7 then False
      else list_all assignment_ok (ga_resource_assignments m))"

definition ga_size :: "group_assignment \<Rightarrow> nat" where
  "ga_size m = 1 + length (ga_resource_assignments m)"

definition ga_packed_size :: "group_assignment \<Rightarrow> nat res" where
  "ga_packed_size m = assertE (ga_valid m) (Inr (ga_size m))"

definition wr_assignment :: "resource_assignment \<Rightarrow> u8" where
  "wr_assignment x = to_byte (push_bit 7 (to_underlying direction_ec (as_direct x)))
     OR to_byte (as_resource_tag x)"

definition rd_assignment :: "bytes \<Rightarrow> nat \<Rightarrow> resource_assignment res" where
  "rd_assignment a i =
     bindE (rd a i) (\<lambda>b. Inr \<lparr>as_direct = from_coded_value direction_ec (drop_bit 7 b),
       as_resource_tag = b AND bitmask_lsb 7\<rparr>)"

definition ga_pack :: "group_assignment \<Rightarrow> bytes res" where
  "ga_pack m = assertE (ga_valid m) (Inr (
     [to_byte (push_bit 7 (to_underlying nof_assignments_ec (ga_single m)))
        OR to_byte (ga_group_id m)]
     @ map wr_assignment (ga_resource_assignments m)))"

text \<open>The number of assignments follows from the length in the MAC multiplexing header.\<close>

definition ga_unpack :: "nat \<Rightarrow> bytes \<Rightarrow> (bool \<times> group_assignment) res" where
  "ga_unpack len a =
     bindE (rd a 0) (\<lambda>b0.
     bindE (rd_loop (rd_assignment a) (\<lambda>x xs. xs @ [x]) (len - 1) 1 []) (\<lambda>(xs, off).
     let m = \<lparr>ga_single = from_coded_value nof_assignments_ec (drop_bit 7 b0),
              ga_group_id = b0 AND bitmask_lsb 7, ga_resource_assignments = xs\<rparr>
     in bindE (ga_packed_size m) (\<lambda>n. assertE (n = len) (Inr (ga_valid m, m)))))"

lemma foldl_snoc: "foldl (\<lambda>s x. s @ [x]) ys xs = ys @ xs"
  by (induction xs arbitrary: ys) simp_all

lemma rd_assignment_written:
  assumes "list_all assignment_ok xs" "i < length xs"
  shows "rd_assignment (b # map wr_assignment xs @ r) (Suc i) = Inr (xs ! i)"
proof -
  have ok: "assignment_ok (xs ! i)" using assms by (simp add: list_all_length)
  then have f: "fits 7 (as_resource_tag (xs ! i))"
    "fits 1 (to_underlying direction_ec (as_direct (xs ! i)))"
    by (auto simp: assignment_ok_def field_simps_bits)
  have "from_coded_value direction_ec (drop_bit 7 (ucast (wr_assignment (xs ! i)))) = as_direct (xs ! i)"
    "ucast (wr_assignment (xs ! i)) AND mask 7 = as_resource_tag (xs ! i)"
    using ok f by (simp_all add: assignment_ok_def wr_assignment_def field_simps_bits)
  with assms(2) show ?thesis
    by (simp add: rd_assignment_def rd_ok Suc_le_eq nth_append)
qed

lemma ga_pack_ok:
  assumes "ga_valid m"
  shows "\<exists>bs. ga_pack m = Inr bs \<and> length bs = ga_size m"
    and "ga_pack m = Inr bs \<Longrightarrow> ga_unpack (ga_size m) (bs @ r) = Inr (True, m)"
proof -
  let ?xs = "ga_resource_assignments m"
  have v: "enum_valid nof_assignments_ec (ga_single m)" "fits 7 (ga_group_id m)"
    "list_all assignment_ok ?xs"
    using assms by (auto simp: ga_valid_def field_simps_bits not_less split: if_splits)
  show "\<exists>bs. ga_pack m = Inr bs \<and> length bs = ga_size m"
    using assms by (simp add: ga_pack_def ga_size_def)
  define b0 where "b0 = to_byte (push_bit 7 (to_underlying nof_assignments_ec (ga_single m)))
    OR to_byte (ga_group_id m)"
  have b0: "from_coded_value nof_assignments_ec (drop_bit 7 (ucast b0)) = ga_single m"
    "ucast b0 AND mask 7 = ga_group_id m"
    using v by (simp_all add: b0_def field_simps_bits)
  assume "ga_pack m = Inr bs"
  then have bs: "bs = b0 # map wr_assignment ?xs"
    by (simp add: ga_pack_def b0_def)
  have "rd_loop (rd_assignment (bs @ r)) (\<lambda>x xs. xs @ [x]) (length ?xs) 1 []
      = Inr (foldl (\<lambda>s x. s @ [x]) [] ?xs, 1 + length ?xs)"
    by (rule rd_loop_read) (simp add: bs rd_assignment_written [OF v(3)])
  moreover have eq: "\<lparr>ga_single = ga_single m, ga_group_id = ga_group_id m,
      ga_resource_assignments = ?xs\<rparr> = m" by (cases m) simp
  ultimately show "ga_unpack (ga_size m) (bs @ r) = Inr (True, m)"
    using assms
    by (simp add: ga_unpack_def ga_size_def bs b0 foldl_snoc Let_def ga_packed_size_def eq)
qed

subsection \<open>Load info IE\<close>

datatype max_assoc_size = MA_not_defined | MA_8_bit | MA_16_bit | MA_upper

definition max_assoc_ec :: "max_assoc_size coded" where
  "max_assoc_ec = \<lparr>base = 0, has_lower = False, enumerators = [MA_8_bit, MA_16_bit, MA_upper],
     not_defined = MA_not_defined\<rparr>"

interpretation max_assoc_coding: coded_enum max_assoc_ec
  by unfold_locales
    ((simp add: max_assoc_ec_def upper_value_def) | (rename_tac e, case_tac e; simp))+

lemma max_assoc_upper [simp, enum_simps]: "upper_value max_assoc_ec = 2"
  by (simp add: upper_value_def max_assoc_ec_def)

record channel_load =
  cl_subslots_free :: u32
  cl_subslots_busy :: u32

record load_info =
  li_max_assoc :: max_assoc_size
  li_rd_pt_load :: "u32 option"
  li_rach_load :: "u32 option"
  li_channel_load :: "channel_load option"
  li_traffic_load :: u32
  li_max_nof_associated_rd :: u32
  li_rd_ft_load :: u32

definition li_zero :: load_info where
  "li_zero = \<lparr>li_max_assoc = not_defined max_assoc_ec, li_rd_pt_load = None, li_rach_load = None,
     li_channel_load = None, li_traffic_load = UNDEFINED_NUMERIC_32,
     li_max_nof_associated_rd = UNDEFINED_NUMERIC_32, li_rd_ft_load = UNDEFINED_NUMERIC_32\<rparr>"

definition li_valid :: "load_info \<Rightarrow> bool" where
  "li_valid m =
     (if \<not> enum_valid max_assoc_ec (li_max_assoc m) then False
      else if \<not> opt_ok (\<lambda>v. \<not> v > 0xff) (li_rd_pt_load m) then False
      else if \<not> opt_ok (\<lambda>v. \<not> v > 0xff) (li_rach_load m) then False
      else if \<not> opt_ok (\<lambda>c. \<not> (cl_subslots_free c > 0xff \<or> cl_subslots_busy c > 0xff))
                (li_channel_load m) then False
      else if li_traffic_load m > 0xff then False
      else if li_max_nof_associated_rd m > (if li_max_assoc m = MA_8_bit then 0xff else 0xffff)
           then False
      else li_rd_ft_load m \<le> 0xff)"

definition li_size :: "load_info \<Rightarrow> nat" where
  "li_size m = (if li_max_assoc m = MA_8_bit then 4 else 5) + osz (li_rd_pt_load m) 1
     + osz (li_rach_load m) 1 + osz (li_channel_load m) 2"

definition li_packed_size :: "load_info \<Rightarrow> nat res" where
  "li_packed_size m = assertE (li_valid m) (Inr (li_size m))"

definition li_peek :: "bytes \<Rightarrow> peek_result res" where
  "li_peek a =
     bindE (rd a 0) (\<lambda>b0. Inr (Inr
       ((if b0 AND 8 = to_underlying max_assoc_ec MA_8_bit then 4 else 5)
        + unat (b0 AND 4) + unat (b0 AND 2) + unat (b0 AND 1) * 2)))"

definition assoc_bytes :: "max_assoc_size \<Rightarrow> nat" where
  "assoc_bytes x = (if x = MA_8_bit then 1 else 2)"

text \<open>The bytes that \<open>pack\<close> writes before it checks their number.\<close>

definition li_bytes :: "load_info \<Rightarrow> bytes" where
  "li_bytes m =
     [to_byte (push_bit 3 (to_underlying max_assoc_ec (li_max_assoc m)))
        OR to_byte (push_bit 2 (b2u (has_value (li_rd_pt_load m))))
        OR to_byte (push_bit 1 (b2u (has_value (li_rach_load m))))
        OR to_byte (b2u (has_value (li_channel_load m))),
      to_byte (li_traffic_load m)]
     @ l2b_lower (li_max_nof_associated_rd m) (assoc_bytes (li_max_assoc m))
     @ [to_byte (li_rd_ft_load m)]
     @ wr_opt (li_rd_pt_load m) (\<lambda>v. [to_byte v])
     @ wr_opt (li_rach_load m) (\<lambda>v. [to_byte v])
     @ wr_opt (li_channel_load m) (\<lambda>c. [to_byte (cl_subslots_free c), to_byte (cl_subslots_busy c)])"

definition li_pack :: "load_info \<Rightarrow> bytes res" where
  "li_pack m = assertE (li_valid m) (assert_peek li_peek (li_bytes m))"

definition li_unpack :: "bytes \<Rightarrow> (bool \<times> load_info) res" where
  "li_unpack a =
     bindE (rd a 0) (\<lambda>b0.
     let assoc = from_coded_value max_assoc_ec (drop_bit 3 b0 AND 1) in
     bindE (rd a 1) (\<lambda>traffic.
     bindE (b2l_lower a 2 (assoc_bytes assoc)) (\<lambda>nof.
     let off = assoc_bytes assoc + 2 in
     bindE (rd a off) (\<lambda>ft.
     bindE (rd_opt (b0 AND 4 \<noteq> 0) (off + 1) 1 (rd a)) (\<lambda>(pt, off).
     bindE (rd_opt (b0 AND 2 \<noteq> 0) off 1 (rd a)) (\<lambda>(rach, off).
     bindE (rd_opt (b0 AND 1 \<noteq> 0) off 2 (\<lambda>i. bindE (rd a i) (\<lambda>f. bindE (rd a (i + 1)) (\<lambda>b.
              Inr \<lparr>cl_subslots_free = f, cl_subslots_busy = b\<rparr>)))) (\<lambda>(load, off).
     let m = \<lparr>li_max_assoc = assoc, li_rd_pt_load = pt, li_rach_load = rach, li_channel_load = load,
              li_traffic_load = traffic, li_max_nof_associated_rd = nof, li_rd_ft_load = ft\<rparr>
     in bindE (li_packed_size m) (\<lambda>n. assertE (n = off) (Inr (li_valid m, m))))))))))"

text \<open>
  Peeking adds the masked flags of the two optional loads with the weights 4 and 2 instead of
  1, so a load info IE can be packed exactly when both are absent.
\<close>

lemma and_8_test: "x AND 8 = 0 \<longleftrightarrow> \<not> bit x 3" for x :: u32
  by (simp add: bit_iff_and_push_bit_not_eq_0)

lemma max_assoc_code_8 [simp]: "to_underlying max_assoc_ec MA_8_bit = 0"
  "to_underlying max_assoc_ec MA_16_bit = 1"
  by (simp_all add: to_underlying_def max_assoc_ec_def)

lemma max_assoc_valid_iff: "enum_valid max_assoc_ec x \<longleftrightarrow> x = MA_8_bit \<or> x = MA_16_bit"
  by (cases x) (simp_all add: enum_valid_def max_assoc_ec_def)

lemma li_head:
  assumes "li_valid m"
  defines "b0 \<equiv> to_byte (push_bit 3 (to_underlying max_assoc_ec (li_max_assoc m)))
        OR to_byte (push_bit 2 (b2u (has_value (li_rd_pt_load m))))
        OR to_byte (push_bit 1 (b2u (has_value (li_rach_load m))))
        OR to_byte (b2u (has_value (li_channel_load m)))"
  shows "bit b0 3 \<longleftrightarrow> li_max_assoc m = MA_16_bit" "bit b0 2 = has_value (li_rd_pt_load m)"
    "bit b0 (Suc 0) = has_value (li_rach_load m)" "bit b0 0 = has_value (li_channel_load m)"
    "from_coded_value max_assoc_ec (drop_bit 3 (ucast b0) AND 1) = li_max_assoc m"
proof -
  have v: "enum_valid max_assoc_ec (li_max_assoc m)"
    using assms(1) by (auto simp: li_valid_def split: if_splits)
  show "bit b0 3 \<longleftrightarrow> li_max_assoc m = MA_16_bit" "bit b0 2 = has_value (li_rd_pt_load m)"
    "bit b0 (Suc 0) = has_value (li_rach_load m)" "bit b0 0 = has_value (li_channel_load m)"
    using v by (auto simp: b0_def flag_simps max_assoc_valid_iff)
  show "from_coded_value max_assoc_ec (drop_bit 3 (ucast b0) AND 1) = li_max_assoc m"
    using v by (simp add: b0_def field_simps_bits)
qed

lemma li_bytes_size:
  assumes "li_valid m"
  shows "li_peek (li_bytes m @ r)
      = Inr (Inr (li_size m + osz (li_rd_pt_load m) 3 + osz (li_rach_load m) 1))"
    "length (li_bytes m) = li_size m"
proof -
  define b0 where "b0 = to_byte (push_bit 3 (to_underlying max_assoc_ec (li_max_assoc m)))
        OR to_byte (push_bit 2 (b2u (has_value (li_rd_pt_load m))))
        OR to_byte (push_bit 1 (b2u (has_value (li_rach_load m))))
        OR to_byte (b2u (has_value (li_channel_load m)))"
  note h = li_head [OF assms(1), folded b0_def]
  have len: "length (wr_opt x (\<lambda>c. [f c, g c])) = osz x 2" for x :: "channel_load option" and f g
    by (rule length_wr_opt) simp
  have v: "li_max_assoc m = MA_8_bit \<or> li_max_assoc m = MA_16_bit"
    using assms(1) by (auto simp: li_valid_def max_assoc_valid_iff split: if_splits)
  obtain tail where bs: "li_bytes m = b0 # tail"
    by (simp add: li_bytes_def b0_def)
  show "length (li_bytes m) = li_size m"
    using v by (auto simp: li_bytes_def li_size_def len assoc_bytes_def)
  show "li_peek (li_bytes m @ r)
      = Inr (Inr (li_size m + osz (li_rd_pt_load m) 3 + osz (li_rach_load m) 1))"
    using v h
    by (cases "li_rd_pt_load m"; cases "li_rach_load m"; cases "li_channel_load m")
      (auto simp: bs li_peek_def and_8_test flag_simps li_size_def osz_def)
qed

lemma li_pack_iff:
  "li_pack m = Inr bs \<longleftrightarrow> li_valid m \<and> li_rd_pt_load m = None \<and> li_rach_load m = None
     \<and> bs = li_bytes m"
proof (cases "li_valid m")
  case True
  show ?thesis
    using li_bytes_size(1) [OF True, of "[]"] li_bytes_size(2) [OF True] True
    by (cases "li_rd_pt_load m"; cases "li_rach_load m") (auto simp: li_pack_def)
qed (simp add: li_pack_def)

lemma channel_load_eta:
  "\<lparr>cl_subslots_free = cl_subslots_free c, cl_subslots_busy = cl_subslots_busy c\<rparr> = c"
  by (cases c) simp

lemma li_unpack_pack:
  assumes "li_pack m = Inr bs"
  shows "li_unpack (bs @ r) = Inr (True, m)"
proof -
  obtain ma pt rach cl tr n ft where m: "m = \<lparr>li_max_assoc = ma, li_rd_pt_load = pt,
     li_rach_load = rach, li_channel_load = cl, li_traffic_load = tr,
     li_max_nof_associated_rd = n, li_rd_ft_load = ft\<rparr>"
    by (cases m)
  have "li_valid m" "li_rd_pt_load m = None" "li_rach_load m = None" "bs = li_bytes m"
    using assms by (simp_all add: li_pack_iff)
  then have a: "li_valid m" "pt = None" "rach = None" "bs = li_bytes m"
    by (simp_all only: m load_info.simps)
  have v: "ma = MA_8_bit \<or> ma = MA_16_bit" "fits 8 tr" "fits 8 ft"
    "fits (8 * assoc_bytes ma) n"
    "opt_ok (\<lambda>c. fits 8 (cl_subslots_free c) \<and> fits 8 (cl_subslots_busy c)) cl"
    using a(1)
    by (auto simp: m li_valid_def max_assoc_valid_iff field_simps_bits not_less assoc_bytes_def
        elim!: opt_ok_mono split: if_splits)
  have w: "li_valid \<lparr>li_max_assoc = ma, li_rd_pt_load = None, li_rach_load = None,
     li_channel_load = cl, li_traffic_load = tr, li_max_nof_associated_rd = n, li_rd_ft_load = ft\<rparr>"
    using a(1) unfolding m a(2,3) .
  note h = li_head [OF a(1), unfolded m, simplified load_info.simps a(2,3) has_value_simps b2u_simps]
  show ?thesis
    using v w h
    by (cases cl)
      (auto simp: a(4) m li_bytes_def li_unpack_def a(2,3) flag_simps rd_opt_def assoc_bytes_def
        Let_def li_packed_size_def li_size_def ucast_to_byte_fits channel_load_eta)
qed

lemma okE_two [ok_intros]:
  "i + 2 \<le> length a \<Longrightarrow> (\<And>x y. P (f x y)) \<Longrightarrow>
   okE F (bindE (rd a i) (\<lambda>x. bindE (rd a (i + 1)) (\<lambda>y. Inr (f x y)))) P"
  by (simp add: rd_ok)

lemma fits_ucast_le: "ucast (b :: u8) \<le> (0xff :: u32)"
  by (simp add: field_simps_bits fits_ucast_u8)

lemma li_unpack_in_bounds:
  assumes "li_peek a = Inr (Inr k)" "k \<le> length a"
  shows "li_unpack a \<noteq> Inl Out_of_bounds_read"
proof -
  have l: "(if bit (a ! 0) 3 then 5 else 4) + csz (bit (a ! 0) 2) 4 + csz (bit (a ! 0) 1) 2
      + csz (bit (a ! 0) 0) 2 \<le> length a"
    using assms by (auto simp: li_peek_def bindE_eq_Inr rd_def flag_simps and_8_test split: if_splits)
  have ma: "assoc_bytes (from_coded_value max_assoc_ec (drop_bit 3 (ucast (a ! 0)) AND 1))
      = (if bit (a ! 0) 3 then 2 else 1)"
    by (simp add: field_simps_bits fld_1 from_coded_value_def upper_value_def max_assoc_ec_def
        assoc_bytes_def)
  have "okE {Assertion_failed} (li_unpack a) (\<lambda>_. True)"
    unfolding li_unpack_def Let_def li_packed_size_def
    apply (intro ok_intros)
    unfolding ma
    using l by (auto simp: flag_simps csz_def split: if_splits)
  then show ?thesis by (rule okE_in_bounds) simp
qed

subsection \<open>Measurement report IE\<close>

datatype measurement_source =
  MRS_not_defined | dl_scheduled_resources | dl_reception_of_rach_response | MRS_upper

definition meas_source_ec :: "measurement_source coded" where
  "meas_source_ec = \<lparr>base = 0, has_lower = False, enumerators = [dl_scheduled_resources,
     dl_reception_of_rach_response, MRS_upper], not_defined = MRS_not_defined\<rparr>"

interpretation meas_source_coding: coded_enum meas_source_ec
  by unfold_locales
    ((simp add: meas_source_ec_def upper_value_def) | (rename_tac e, case_tac e; simp))+

lemma meas_source_upper [simp, enum_simps]: "upper_value meas_source_ec = 2"
  by (simp add: upper_value_def meas_source_ec_def)

record measurement_report =
  mr_snr :: "u32 option"
  mr_rssi_2 :: "u32 option"
  mr_rssi_1 :: "u32 option"
  mr_tx_count :: "u32 option"
  mr_rach :: measurement_source

definition mr_zero :: measurement_report where
  "mr_zero = \<lparr>mr_snr = None, mr_rssi_2 = None, mr_rssi_1 = None, mr_tx_count = None,
     mr_rach = not_defined meas_source_ec\<rparr>"

definition mr_valid :: "measurement_report \<Rightarrow> bool" where
  "mr_valid m =
     (if \<not> opt_ok (\<lambda>v. \<not> v > 0xff) (mr_snr m) then False
      else if \<not> opt_ok (\<lambda>v. \<not> v > 0xff) (mr_rssi_2 m) then False
      else if \<not> opt_ok (\<lambda>v. \<not> v > 0xff) (mr_rssi_1 m) then False
      else if \<not> opt_ok (\<lambda>v. \<not> v > 0xff) (mr_tx_count m) then False
      else enum_valid meas_source_ec (mr_rach m))"

definition mr_packed_size :: "measurement_report \<Rightarrow> nat" where
  "mr_packed_size m = 1 + osz (mr_snr m) 1 + osz (mr_rssi_2 m) 1 + osz (mr_rssi_1 m) 1
     + osz (mr_tx_count m) 1"

definition mr_peek :: "bytes \<Rightarrow> peek_result res" where
  "mr_peek a =
     bindE (rd a 0) (\<lambda>b0. Inr (Inr
       (1 + unat (drop_bit 4 b0 AND 1) + unat (drop_bit 3 b0 AND 1) + unat (drop_bit 2 b0 AND 1)
          + unat (b0 AND 2))))"

definition mr_pack :: "measurement_report \<Rightarrow> bytes res" where
  "mr_pack m = assertE (mr_valid m) (assert_peek mr_peek (
     [to_byte (push_bit 4 (b2u (has_value (mr_snr m))))
        OR to_byte (push_bit 3 (b2u (has_value (mr_rssi_2 m))))
        OR to_byte (push_bit 2 (b2u (has_value (mr_rssi_1 m))))
        OR to_byte (push_bit 1 (b2u (has_value (mr_tx_count m))))
        OR to_byte (to_underlying meas_source_ec (mr_rach m))]
     @ wr_opt (mr_snr m) (\<lambda>v. [to_byte v]) @ wr_opt (mr_rssi_2 m) (\<lambda>v. [to_byte v])
     @ wr_opt (mr_rssi_1 m) (\<lambda>v. [to_byte v]) @ wr_opt (mr_tx_count m) (\<lambda>v. [to_byte v])))"

definition mr_unpack :: "bytes \<Rightarrow> (bool \<times> measurement_report) res" where
  "mr_unpack a =
     bindE (rd a 0) (\<lambda>b0.
     bindE (rd_opt (drop_bit 4 b0 AND 1 \<noteq> 0) 1 1 (rd a)) (\<lambda>(snr, off).
     bindE (rd_opt (drop_bit 3 b0 AND 1 \<noteq> 0) off 1 (rd a)) (\<lambda>(rssi2, off).
     bindE (rd_opt (drop_bit 2 b0 AND 1 \<noteq> 0) off 1 (rd a)) (\<lambda>(rssi1, off).
     bindE (rd_opt (b0 AND 2 \<noteq> 0) off 1 (rd a)) (\<lambda>(tx, off).
     let m = \<lparr>mr_snr = snr, mr_rssi_2 = rssi2, mr_rssi_1 = rssi1, mr_tx_count = tx,
              mr_rach = from_coded_value meas_source_ec (b0 AND 1)\<rparr>
     in assertE (mr_packed_size m = off) (Inr (mr_valid m, m)))))))"

text \<open>
  Peeking counts two bytes for the transmission count, so a report with one cannot be packed.
\<close>

lemma mr_source_code [simp]: "to_underlying meas_source_ec dl_scheduled_resources = 0"
  "to_underlying meas_source_ec dl_reception_of_rach_response = 1"
  by (simp_all add: to_underlying_def meas_source_ec_def)

lemma mr_source_valid_iff: "enum_valid meas_source_ec x \<longleftrightarrow>
    x = dl_scheduled_resources \<or> x = dl_reception_of_rach_response"
  by (cases x) (simp_all add: enum_valid_def meas_source_ec_def)

definition mr_head :: "measurement_report \<Rightarrow> u8" where
  "mr_head m = to_byte (push_bit 4 (b2u (has_value (mr_snr m))))
        OR to_byte (push_bit 3 (b2u (has_value (mr_rssi_2 m))))
        OR to_byte (push_bit 2 (b2u (has_value (mr_rssi_1 m))))
        OR to_byte (push_bit 1 (b2u (has_value (mr_tx_count m))))
        OR to_byte (to_underlying meas_source_ec (mr_rach m))"

lemma mr_head_bits:
  assumes "mr_valid m"
  shows "bit (mr_head m) 4 = has_value (mr_snr m)" "bit (mr_head m) 3 = has_value (mr_rssi_2 m)"
    "bit (mr_head m) 2 = has_value (mr_rssi_1 m)"
    "bit (mr_head m) (Suc 0) = has_value (mr_tx_count m)"
    "from_coded_value meas_source_ec (ucast (mr_head m) AND 1) = mr_rach m"
proof -
  have v: "enum_valid meas_source_ec (mr_rach m)"
    using assms by (auto simp: mr_valid_def split: if_splits)
  show "bit (mr_head m) 4 = has_value (mr_snr m)" "bit (mr_head m) 3 = has_value (mr_rssi_2 m)"
    "bit (mr_head m) 2 = has_value (mr_rssi_1 m)"
    "bit (mr_head m) (Suc 0) = has_value (mr_tx_count m)"
    using v by (auto simp: mr_head_def flag_simps mr_source_valid_iff)
  show "from_coded_value meas_source_ec (ucast (mr_head m) AND 1) = mr_rach m"
    using v by (simp add: mr_head_def field_simps_bits)
qed

lemma mr_pack_eq:
  "mr_pack m = assertE (mr_valid m) (assert_peek mr_peek (mr_head m #
     wr_opt (mr_snr m) (\<lambda>v. [to_byte v]) @ wr_opt (mr_rssi_2 m) (\<lambda>v. [to_byte v])
     @ wr_opt (mr_rssi_1 m) (\<lambda>v. [to_byte v]) @ wr_opt (mr_tx_count m) (\<lambda>v. [to_byte v])))"
  by (simp add: mr_pack_def mr_head_def)

lemma mr_peek_head:
  "mr_valid m \<Longrightarrow> mr_peek (mr_head m # bs) = Inr (Inr (mr_packed_size m + osz (mr_tx_count m) 1))"
  using mr_head_bits [of m]
  by (cases "mr_tx_count m") (simp_all add: mr_peek_def flag_simps mr_packed_size_def osz_def)

lemma mr_pack_iff:
  "(\<exists>bs. mr_pack m = Inr bs) \<longleftrightarrow> mr_valid m \<and> mr_tx_count m = None"
  by (cases "mr_valid m"; cases "mr_tx_count m")
    (auto simp: mr_pack_eq mr_peek_head mr_packed_size_def)

lemma mr_unpack_pack:
  assumes "mr_pack m = Inr bs"
  shows "mr_unpack (bs @ r) = Inr (True, m)"
proof -
  have v: "mr_valid m" "mr_tx_count m = None" using assms mr_pack_iff by blast+
  then have o: "opt_ok (fits 8) (mr_snr m)" "opt_ok (fits 8) (mr_rssi_2 m)"
    "opt_ok (fits 8) (mr_rssi_1 m)"
    by (auto simp: mr_valid_def field_simps_bits not_less elim!: opt_ok_mono split: if_splits)
  have bs: "bs = mr_head m # wr_opt (mr_snr m) (\<lambda>v. [to_byte v])
     @ wr_opt (mr_rssi_2 m) (\<lambda>v. [to_byte v]) @ wr_opt (mr_rssi_1 m) (\<lambda>v. [to_byte v])"
    using assms v by (simp add: mr_pack_eq)
  have eq: "\<lparr>mr_snr = mr_snr m, mr_rssi_2 = mr_rssi_2 m, mr_rssi_1 = mr_rssi_1 m,
      mr_tx_count = None, mr_rach = mr_rach m\<rparr> = m"
    using v(2) by (cases m) simp
  have rd1: "rd_opt (has_value x) off 1 (rd (xs @ wr_opt x (\<lambda>v. [to_byte v]) @ ys))
      = Inr (x, off + osz x 1)" if "opt_ok (fits 8) x" "length xs = off" for x off xs ys
    using that by (cases x) (simp_all add: rd_opt_def ucast_to_byte_fits)
  let ?w = "\<lambda>x. wr_opt x (\<lambda>v. [to_byte v])"
  have r1: "rd_opt (has_value (mr_snr m)) 1 1 (rd (bs @ r)) = Inr (mr_snr m, 1 + osz (mr_snr m) 1)"
    using rd1 [OF o(1), of "[mr_head m]" 1] by (simp add: bs)
  have r2: "rd_opt (has_value (mr_rssi_2 m)) (1 + osz (mr_snr m) 1) 1 (rd (bs @ r))
      = Inr (mr_rssi_2 m, 1 + osz (mr_snr m) 1 + osz (mr_rssi_2 m) 1)"
    using rd1 [OF o(2), of "[mr_head m] @ ?w (mr_snr m)"] by (simp add: bs)
  have r3: "rd_opt (has_value (mr_rssi_1 m)) (1 + osz (mr_snr m) 1 + osz (mr_rssi_2 m) 1) 1
      (rd (bs @ r)) = Inr (mr_rssi_1 m, 1 + osz (mr_snr m) 1 + osz (mr_rssi_2 m) 1 + osz (mr_rssi_1 m) 1)"
    using rd1 [OF o(3), of "[mr_head m] @ ?w (mr_snr m) @ ?w (mr_rssi_2 m)"] by (simp add: bs)
  have hd: "rd (bs @ r) 0 = Inr (ucast (mr_head m))" by (simp add: bs)
  show ?thesis
    using v mr_head_bits [OF v(1)]
    by (simp add: mr_unpack_def hd flag_simps r1 [simplified] r2 [simplified] r3 [simplified] Let_def)
      (simp add: rd_opt_def mr_packed_size_def eq)
qed

lemma mr_unpack_total:
  assumes "mr_peek a = Inr (Inr k)" "k \<le> length a"
  shows "\<exists>v m. mr_unpack a = Inr (v, m)"
proof -
  have l: "1 + csz (bit (a ! 0) 4) 1 + csz (bit (a ! 0) 3) 1 + csz (bit (a ! 0) 2) 1
      + csz (bit (a ! 0) 1) 2 \<le> length a"
    using assms by (auto simp: mr_peek_def bindE_eq_Inr rd_def flag_simps split: if_splits)
  have "okE {} (mr_unpack a) (\<lambda>_. True)"
    unfolding mr_unpack_def Let_def
    apply (intro ok_intros)
    using l by (auto simp: flag_simps csz_def mr_packed_size_def osz_def split: if_splits)
  then show ?thesis by (rule okE_total)
qed

subsection \<open>Broadcast indication IE\<close>

datatype indication_type =
  IT_not_defined | paging | random_access_response | IT_upper

datatype rd_id_type =
  RIT_not_defined | short_rd_id | long_rd_id | RIT_upper

datatype bi_transmission_feedback =
  BI_TF_not_defined | BI_nack | BI_ack | BI_TF_upper

datatype bi_feedback_type =
  FT_not_defined | no_feedback | FT_mcs | mimo_2_antennas | mimo_4_antennas | FT_upper

datatype channel_quality =
  CQ_not_defined | CQ_lower | CQ_mcs_0 | CQ_mcs_1 | CQ_mcs_2 | CQ_mcs_3 | CQ_mcs_4 | CQ_mcs_5 |
  CQ_mcs_6 | CQ_mcs_7 | CQ_mcs_8 | CQ_mcs_9 | CQ_mcs_10 | CQ_mcs_11 | CQ_upper

datatype nof_layers =
  NL_not_defined | NL_single_layer | NL_dual_layer | NL_four_layers | NL_upper

definition indication_ec :: "indication_type coded" where
  "indication_ec = \<lparr>base = 0, has_lower = False, enumerators = [paging, random_access_response,
     IT_upper], not_defined = IT_not_defined\<rparr>"

definition rd_id_type_ec :: "rd_id_type coded" where
  "rd_id_type_ec = \<lparr>base = 0, has_lower = False, enumerators = [short_rd_id, long_rd_id, RIT_upper],
     not_defined = RIT_not_defined\<rparr>"

definition ack_nack_ec :: "bi_transmission_feedback coded" where
  "ack_nack_ec = \<lparr>base = 0, has_lower = False, enumerators = [BI_nack, BI_ack, BI_TF_upper],
     not_defined = BI_TF_not_defined\<rparr>"

definition feedback_type_ec :: "bi_feedback_type coded" where
  "feedback_type_ec = \<lparr>base = 0, has_lower = False, enumerators = [no_feedback, FT_mcs, mimo_2_antennas,
     mimo_4_antennas, FT_upper], not_defined = FT_not_defined\<rparr>"

definition channel_quality_ec :: "channel_quality coded" where
  "channel_quality_ec = \<lparr>base = 0, has_lower = True, enumerators = [CQ_lower, CQ_mcs_0, CQ_mcs_1, CQ_mcs_2,
     CQ_mcs_3, CQ_mcs_4, CQ_mcs_5, CQ_mcs_6, CQ_mcs_7, CQ_mcs_8, CQ_mcs_9, CQ_mcs_10, CQ_mcs_11,
     CQ_upper], not_defined = CQ_not_defined\<rparr>"

definition nof_layers_ec :: "nof_layers coded" where
  "nof_layers_ec = \<lparr>base = 0, has_lower = False, enumerators = [NL_single_layer, NL_dual_layer,
     NL_four_layers, NL_upper], not_defined = NL_not_defined\<rparr>"

interpretation indication_coding: coded_enum indication_ec
  by unfold_locales
    ((simp add: indication_ec_def upper_value_def) | (rename_tac e, case_tac e; simp))+

interpretation rd_id_type_coding: coded_enum rd_id_type_ec
  by unfold_locales
    ((simp add: rd_id_type_ec_def upper_value_def) | (rename_tac e, case_tac e; simp))+

interpretation ack_nack_coding: coded_enum ack_nack_ec
  by unfold_locales
    ((simp add: ack_nack_ec_def upper_value_def) | (rename_tac e, case_tac e; simp))+

interpretation feedback_type_coding: coded_enum feedback_type_ec
  by unfold_locales
    ((simp add: feedback_type_ec_def upper_value_def) | (rename_tac e, case_tac e; simp))+

interpretation channel_quality_coding: coded_enum channel_quality_ec
  by unfold_locales
    ((simp add: channel_quality_ec_def upper_value_def) | (rename_tac e, case_tac e; simp))+

interpretation nof_layers_coding: coded_enum nof_layers_ec
  by unfold_locales
    ((simp add: nof_layers_ec_def upper_value_def) | (rename_tac e, case_tac e; simp))+

lemma broadcast_upper_values [simp, enum_simps]:
  "upper_value indication_ec = 2"
  "upper_value rd_id_type_ec = 2"
  "upper_value ack_nack_ec = 2"
  "upper_value feedback_type_ec = 4"
  "upper_value channel_quality_ec = 13"
  "upper_value nof_layers_ec = 3"
  by (simp_all add: upper_value_def indication_ec_def rd_id_type_ec_def ack_nack_ec_def feedback_type_ec_def
      channel_quality_ec_def nof_layers_ec_def)

record bi_mimo_feedback =
  bm_nof_layers :: nof_layers
  bm_codebook_index :: u32

datatype mcs_mimo_feedback = Monostate | Channel_quality channel_quality | Mimo bi_mimo_feedback

record broadcast_indication =
  bi_indication_type :: indication_type
  bi_id_type :: rd_id_type
  bi_ack_nack :: bi_transmission_feedback
  bi_feedback :: bi_feedback_type
  bi_resource_allocation_ie_follows :: bool
  bi_rd_id :: u32
  bi_mcs_mimo_feedback :: mcs_mimo_feedback

definition bi_zero :: broadcast_indication where
  "bi_zero = \<lparr>bi_indication_type = IT_not_defined, bi_id_type = RIT_not_defined,
     bi_ack_nack = BI_TF_not_defined, bi_feedback = FT_not_defined,
     bi_resource_allocation_ie_follows = False, bi_rd_id = UNDEFINED_NUMERIC_32,
     bi_mcs_mimo_feedback = Monostate\<rparr>"

text \<open>The switch of \<open>is_valid\<close> over the feedback of a random access response.\<close>

fun feedback_valid :: "bi_feedback_type \<Rightarrow> mcs_mimo_feedback \<Rightarrow> bool" where
  "feedback_valid no_feedback _ = True"
| "feedback_valid FT_mcs (Channel_quality q) = enum_valid channel_quality_ec q"
| "feedback_valid mimo_2_antennas (Mimo f) =
     (if bm_nof_layers f = NL_single_layer \<and> bm_codebook_index f \<le> 5 then True
      else if bm_nof_layers f = NL_dual_layer \<and> bm_codebook_index f \<le> 2 then True else False)"
| "feedback_valid mimo_4_antennas (Mimo f) =
     (if bm_nof_layers f = NL_single_layer \<and> bm_codebook_index f \<le> 27 then True
      else if bm_nof_layers f = NL_dual_layer \<and> bm_codebook_index f \<le> 21 then True
      else if bm_nof_layers f = NL_four_layers \<and> bm_codebook_index f \<le> 4 then True else False)"
| "feedback_valid _ _ = False"

definition bi_valid :: "broadcast_indication \<Rightarrow> bool" where
  "bi_valid m =
     (if \<not> enum_valid indication_ec (bi_indication_type m)
         \<or> \<not> enum_valid rd_id_type_ec (bi_id_type m) then False
      else if bi_id_type m = short_rd_id \<and> bi_rd_id m > bitmask_lsb 16 then False
      else if bi_indication_type m = random_access_response then
        (if bi_id_type m \<noteq> short_rd_id \<or> \<not> enum_valid ack_nack_ec (bi_ack_nack m) then False
         else feedback_valid (bi_feedback m) (bi_mcs_mimo_feedback m))
      else True)"

definition bi_size :: "broadcast_indication \<Rightarrow> nat" where
  "bi_size m = (if bi_id_type m = short_rd_id then 3 else 5)
     + (if bi_indication_type m = random_access_response \<and> bi_feedback m \<noteq> no_feedback then 1 else 0)"

definition bi_packed_size :: "broadcast_indication \<Rightarrow> nat res" where
  "bi_packed_size m = assertE (bi_valid m) (Inr (bi_size m))"

definition rd_id_bytes :: "rd_id_type \<Rightarrow> nat" where
  "rd_id_bytes t = (if t = short_rd_id then 2 else 4)"

text \<open>A reserved indication type makes peeking return \<open>UNDEFINED_NUMERIC_32\<close> as the size.\<close>

definition bi_peek :: "bytes \<Rightarrow> peek_result res" where
  "bi_peek a =
     bindE (rd a 0) (\<lambda>b0.
     let packed_size = (if drop_bit 4 b0 AND 1 = to_underlying rd_id_type_ec short_rd_id then 3 else 5)
     in if drop_bit 5 b0 \<ge> to_underlying indication_ec IT_upper
        then Inr (Inr (unat UNDEFINED_NUMERIC_32))
        else Inr (Inr (packed_size
          + (if drop_bit 5 b0 = to_underlying indication_ec random_access_response
                \<and> b0 AND 6 \<noteq> to_underlying feedback_type_ec no_feedback then 1 else 0))))"

definition bi_feedback_byte :: "bi_feedback_type \<Rightarrow> mcs_mimo_feedback \<Rightarrow> bytes res" where
  "bi_feedback_byte t f =
     (case t of
        FT_mcs \<Rightarrow> (case f of Channel_quality q \<Rightarrow> Inr [to_byte (to_underlying channel_quality_ec q)]
                  | _ \<Rightarrow> Inl Bad_variant_access)
      | mimo_2_antennas \<Rightarrow> (case f of
            Mimo x \<Rightarrow> Inr [to_byte (push_bit 3 (to_underlying nof_layers_ec (bm_nof_layers x)))
                          OR to_byte (bm_codebook_index x)]
          | _ \<Rightarrow> Inl Bad_variant_access)
      | mimo_4_antennas \<Rightarrow> (case f of
            Mimo x \<Rightarrow> Inr [to_byte (push_bit 6 (to_underlying nof_layers_ec (bm_nof_layers x)))
                          OR to_byte (bm_codebook_index x)]
          | _ \<Rightarrow> Inl Bad_variant_access)
      | _ \<Rightarrow> Inr [])"

definition bi_pack :: "broadcast_indication \<Rightarrow> bytes res" where
  "bi_pack m = assertE (bi_valid m) (
     let rar = (bi_indication_type m = random_access_response);
         b0 = to_byte (push_bit 5 (to_underlying indication_ec (bi_indication_type m)))
           OR to_byte (push_bit 4 (to_underlying rd_id_type_ec (bi_id_type m)))
           OR to_byte (b2u (bi_resource_allocation_ie_follows m));
         b0' = (if rar then b0 OR to_byte (push_bit 3 (to_underlying ack_nack_ec (bi_ack_nack m)))
           OR to_byte (push_bit 1 (to_underlying feedback_type_ec (bi_feedback m))) else b0)
     in bindE (if rar then bi_feedback_byte (bi_feedback m) (bi_mcs_mimo_feedback m) else Inr [])
          (\<lambda>fb. assert_peek bi_peek ([b0'] @ l2b_lower (bi_rd_id m) (rd_id_bytes (bi_id_type m)) @ fb)))"

definition bi_unpack_feedback :: "bytes \<Rightarrow> nat \<Rightarrow> bi_feedback_type \<Rightarrow> (mcs_mimo_feedback \<times> nat) res" where
  "bi_unpack_feedback a off t =
     (case t of
        FT_mcs \<Rightarrow> bindE (rd a off) (\<lambda>b.
          Inr (Channel_quality (from_coded_value channel_quality_ec (b AND 15)), off + 1))
      | mimo_2_antennas \<Rightarrow> bindE (rd a off) (\<lambda>b.
          Inr (Mimo \<lparr>bm_nof_layers = from_coded_value nof_layers_ec (drop_bit 3 b AND 1),
                     bm_codebook_index = b AND 7\<rparr>, off + 1))
      | mimo_4_antennas \<Rightarrow> bindE (rd a off) (\<lambda>b.
          Inr (Mimo \<lparr>bm_nof_layers = from_coded_value nof_layers_ec (drop_bit 6 b),
                     bm_codebook_index = b AND bitmask_lsb 6\<rparr>, off + 1))
      | _ \<Rightarrow> Inr (Monostate, off))"

text \<open>The two feedback bits are masked and not shifted before they are converted.\<close>

definition bi_unpack :: "bytes \<Rightarrow> (bool \<times> broadcast_indication) res" where
  "bi_unpack a =
     bindE (rd a 0) (\<lambda>b0.
     let it = from_coded_value indication_ec (drop_bit 5 b0);
         idt = from_coded_value rd_id_type_ec (drop_bit 4 b0 AND 1);
         n = rd_id_bytes idt in
     bindE (b2l_lower a 1 n) (\<lambda>rd_id.
     bindE (if it = random_access_response
            then let ft = from_coded_value feedback_type_ec (b0 AND 6) in
                 bindE (bi_unpack_feedback a (n + 1) ft) (\<lambda>(f, off).
                 Inr (from_coded_value ack_nack_ec (drop_bit 3 b0 AND 1), ft, f, off))
            else Inr (BI_TF_not_defined, FT_not_defined, Monostate, n + 1)) (\<lambda>(ack, ft, f, off).
     let m = \<lparr>bi_indication_type = it, bi_id_type = idt, bi_ack_nack = ack, bi_feedback = ft,
              bi_resource_allocation_ie_follows = (b0 AND 1 \<noteq> 0), bi_rd_id = rd_id,
              bi_mcs_mimo_feedback = f\<rparr>
     in bindE (bi_packed_size m) (\<lambda>k. assertE (k = off) (Inr (bi_valid m, m))))))"

lemma feedback_type_codes:
  "from_coded_value feedback_type_ec c = FT_mcs \<longleftrightarrow> c = 1"
  "from_coded_value feedback_type_ec c = mimo_4_antennas \<longleftrightarrow> c = 3"
proof -
  have "unat c < 4 \<Longrightarrow> c = 0 \<or> c = 1 \<or> c = 2 \<or> c = 3"
    by (auto simp: word_unat_eq_iff)
  then show "from_coded_value feedback_type_ec c = FT_mcs \<longleftrightarrow> c = 1"
    "from_coded_value feedback_type_ec c = mimo_4_antennas \<longleftrightarrow> c = 3"
    by (auto simp: from_coded_value_def feedback_type_ec_def upper_value_def)
qed

text \<open>No feedback with an odd code is ever received.\<close>

lemma bi_feedback_received:
  assumes "bi_unpack a = Inr (v, m)"
  shows "bi_feedback m \<noteq> FT_mcs" "bi_feedback m \<noteq> mimo_4_antennas"
proof -
  have odd: "b AND 6 \<noteq> 1" "b AND 6 \<noteq> 3" for b :: u32
  proof -
    have "\<not> bit (b AND 6) 0" by (simp add: bit_simps)
    moreover have "bit (1 :: u32) 0" "bit (3 :: u32) 0" by simp_all
    ultimately show "b AND 6 \<noteq> 1" "b AND 6 \<noteq> 3" by metis+
  qed
  show "bi_feedback m \<noteq> FT_mcs" "bi_feedback m \<noteq> mimo_4_antennas"
    using assms odd
    by (auto simp: bi_unpack_def bindE_eq_Inr Let_def bi_unpack_feedback_def feedback_type_codes
        split: if_splits bi_feedback_type.splits)
qed

lemma bi_head:
  fixes f :: bool
  assumes "enum_valid indication_ec it" "enum_valid rd_id_type_ec idt"
  defines "b0 \<equiv> to_byte (push_bit 5 (to_underlying indication_ec it))
           OR to_byte (push_bit 4 (to_underlying rd_id_type_ec idt)) OR to_byte (b2u f)"
  shows "drop_bit 5 (ucast b0) = to_underlying indication_ec it"
    "drop_bit 4 (ucast b0) AND 1 = to_underlying rd_id_type_ec idt" "bit b0 0 = f"
  using assms(1,2) by (simp_all add: b0_def field_simps_bits) (simp add: flag_simps)

lemma rd_id_type_code [simp]:
  "to_underlying rd_id_type_ec short_rd_id = 0" "to_underlying rd_id_type_ec long_rd_id = 1"
  "to_underlying indication_ec paging = 0" "to_underlying indication_ec random_access_response = 1"
  "to_underlying indication_ec IT_upper = 2"
  by (simp_all add: to_underlying_def rd_id_type_ec_def indication_ec_def)

lemma rd_id_type_valid_iff: "enum_valid rd_id_type_ec t \<longleftrightarrow> t = short_rd_id \<or> t = long_rd_id"
  by (cases t) (simp_all add: enum_valid_def rd_id_type_ec_def)

lemma enum_valid_paging [simp]: "enum_valid indication_ec paging"
  by (simp add: enum_valid_def indication_ec_def)

lemma bi_paging_roundtrip:
  assumes "bi_valid m" "bi_indication_type m = paging" "bi_ack_nack m = BI_TF_not_defined"
    "bi_feedback m = FT_not_defined" "bi_mcs_mimo_feedback m = Monostate"
  shows "\<exists>bs. bi_pack m = Inr bs \<and> length bs = bi_size m
    \<and> bi_unpack (bs @ r) = Inr (True, m)"
proof -
  obtain idt f n where m: "m = \<lparr>bi_indication_type = paging, bi_id_type = idt,
     bi_ack_nack = BI_TF_not_defined, bi_feedback = FT_not_defined,
     bi_resource_allocation_ie_follows = f, bi_rd_id = n, bi_mcs_mimo_feedback = Monostate\<rparr>"
    using assms by (cases m) simp
  have v: "enum_valid rd_id_type_ec idt" "fits (8 * rd_id_bytes idt) n"
    using assms(1) by (auto simp: m bi_valid_def field_simps_bits rd_id_type_valid_iff
        rd_id_bytes_def split: if_splits)
  define b0 where "b0 = to_byte (push_bit 5 (to_underlying indication_ec paging))
           OR to_byte (push_bit 4 (to_underlying rd_id_type_ec idt)) OR to_byte (b2u f)"
  note h = bi_head [OF enum_valid_paging v(1), of f, folded b0_def]
  have it: "from_coded_value indication_ec 0 = paging"
    using indication_coding.from_to [OF enum_valid_paging] by simp
  have peek: "bi_peek (b0 # bs) = Inr (Inr (bi_size m))" for bs
    using v(1) by (auto simp: bi_peek_def h Let_def bi_size_def m rd_id_type_valid_iff)
  have pack: "bi_pack m = Inr (b0 # l2b_lower n (rd_id_bytes idt))"
    using assms(1) v(1) peek unfolding b0_def
    by (auto simp: bi_pack_def m Let_def assert_peek_ok bi_size_def rd_id_bytes_def
        rd_id_type_valid_iff)
  have val: "bi_valid \<lparr>bi_indication_type = paging, bi_id_type = idt,
     bi_ack_nack = BI_TF_not_defined, bi_feedback = FT_not_defined,
     bi_resource_allocation_ie_follows = f, bi_rd_id = n, bi_mcs_mimo_feedback = Monostate\<rparr>"
    using assms(1) by (simp only: m)
  have "bi_unpack ((b0 # l2b_lower n (rd_id_bytes idt)) @ r) = Inr (True, m)"
    using v val
    by (auto simp: bi_unpack_def h it Let_def m bi_packed_size_def bi_size_def flag_simps
        rd_id_type_valid_iff rd_id_bytes_def)
  moreover have "length (b0 # l2b_lower n (rd_id_bytes idt)) = bi_size m"
    using v(1) by (auto simp: bi_size_def m rd_id_bytes_def rd_id_type_valid_iff)
  ultimately show ?thesis using pack by blast
qed

text \<open>A paging indication carries neither acknowledgement nor feedback.\<close>

definition bi_received :: "broadcast_indication \<Rightarrow> broadcast_indication" where
  "bi_received m = m\<lparr>bi_ack_nack := BI_TF_not_defined, bi_feedback := FT_not_defined, bi_mcs_mimo_feedback := Monostate\<rparr>"

lemma bi_paging_received:
  assumes "bi_valid m" "bi_indication_type m = paging"
  shows "\<exists>bs. bi_pack m = Inr bs \<and> length bs = bi_size m \<and> bi_unpack (bs @ r) = Inr (True, bi_received m)"
proof -
  have "bi_pack m = bi_pack (bi_received m)" "bi_size m = bi_size (bi_received m)" "bi_valid (bi_received m)"
    using assms by (auto simp: bi_received_def bi_pack_def bi_size_def bi_valid_def Let_def split: if_splits)
  moreover have "bi_indication_type (bi_received m) = paging" using assms(2) by (simp add: bi_received_def)
  ultimately show ?thesis using bi_paging_roundtrip [of "bi_received m" r] by (simp add: bi_received_def)
qed

lemma bi_peek_reserved:
  "1 \<le> length a \<Longrightarrow> 64 \<le> a ! 0 \<Longrightarrow> bi_peek a = Inr (Inr 4294967295)"
proof -
  assume a: "1 \<le> length a" "64 \<le> a ! 0"
  have "unat (a ! 0) < 2 ^ 8"
    using unsigned_less [of "a ! 0"] by simp
  then have "unat (ucast (a ! 0) :: u32) = unat (a ! 0)"
    by (simp add: unsigned_ucast_eq take_bit_nat_eq_self)
  then have "unat (drop_bit 5 (ucast (a ! 0) :: u32)) = drop_bit 5 (unat (a ! 0))"
    by (simp only: unat_drop_bit_eq)
  then have "unat (drop_bit 5 (ucast (a ! 0) :: u32)) = unat (a ! 0) div 2 ^ 5"
    by (simp only: drop_bit_eq_div [of 5 "unat (a ! 0)"])
  then have "2 \<le> drop_bit 5 (ucast (a ! 0) :: u32)"
    using a(2) by (simp add: word_le_nat_alt)
  with a(1) show ?thesis
    by (simp add: bi_peek_def rd_ok Let_def UNDEFINED_NUMERIC_32_def)
qed

end
