(* ===== verification/Resource_Elements.thy ===== *)
theory Resource_Elements
  imports Optional_Fields
begin

text \<open>
  \<open>sections_part4/mac_messages_and_ie/resource_allocation_ie\<close> and
  \<open>random_access_resource_ie\<close>. The width of a start subslot depends on the subcarrier
  scaling factor \<open>mu\<close>. In both elements \<open>is_valid\<close> takes values of optional fields before it
  asks whether they are present.
\<close>

subsection \<open>Enumerations\<close>

datatype scheduled_resource_failure =
  SRF_not_defined | SRF_lower | SRF_20_ms | SRF_50_ms | SRF_100_ms | SRF_200_ms | SRF_500_ms |
  SRF_1000_ms | SRF_1500_ms | SRF_3000_ms | SRF_4000_ms | SRF_5000_ms | SRF_upper

datatype cw_min =
  CWMIN_not_defined | CWMIN_0 | CWMIN_8 | CWMIN_16 | CWMIN_24 | CWMIN_32 | CWMIN_40 | CWMIN_48 |
  CWMIN_56 | CWMIN_upper

datatype cw_max =
  CWMAX_not_defined | CWMAX_0 | CWMAX_256 | CWMAX_512 | CWMAX_768 | CWMAX_1024 | CWMAX_1280 |
  CWMAX_1536 | CWMAX_1792 | CWMAX_upper

definition resource_failure_ec :: "scheduled_resource_failure coded" where
  "resource_failure_ec = \<lparr>base = 1, has_lower = True, enumerators = [SRF_lower, SRF_20_ms, SRF_50_ms,
     SRF_100_ms, SRF_200_ms, SRF_500_ms, SRF_1000_ms, SRF_1500_ms, SRF_3000_ms, SRF_4000_ms,
     SRF_5000_ms, SRF_upper], not_defined = SRF_not_defined\<rparr>"

definition cw_min_ec :: "cw_min coded" where
  "cw_min_ec = \<lparr>base = 0, has_lower = False, enumerators = [CWMIN_0, CWMIN_8, CWMIN_16, CWMIN_24,
     CWMIN_32, CWMIN_40, CWMIN_48, CWMIN_56, CWMIN_upper], not_defined =
     CWMIN_not_defined\<rparr>"

definition cw_max_ec :: "cw_max coded" where
  "cw_max_ec = \<lparr>base = 0, has_lower = False, enumerators = [CWMAX_0, CWMAX_256, CWMAX_512,
     CWMAX_768, CWMAX_1024, CWMAX_1280, CWMAX_1536, CWMAX_1792, CWMAX_upper], not_defined =
     CWMAX_not_defined\<rparr>"

interpretation resource_failure_coding: coded_enum resource_failure_ec
  by unfold_locales
    ((simp add: resource_failure_ec_def upper_value_def) | (rename_tac e, case_tac e; simp))+

interpretation cw_min_coding: coded_enum cw_min_ec
  by unfold_locales
    ((simp add: cw_min_ec_def upper_value_def) | (rename_tac e, case_tac e; simp))+

interpretation cw_max_coding: coded_enum cw_max_ec
  by unfold_locales
    ((simp add: cw_max_ec_def upper_value_def) | (rename_tac e, case_tac e; simp))+

lemma resource_upper_values [simp, enum_simps]:
  "upper_value resource_failure_ec = 12"
  "upper_value cw_min_ec = 8"
  "upper_value cw_max_ec = 8"
  by (simp_all add: upper_value_def resource_failure_ec_def cw_min_ec_def cw_max_ec_def)

text \<open>The enumerations with the underlying type \<open>bool\<close>; the second enumerator is true.\<close>

datatype length_type = length_in_subslots | length_in_slots

datatype repeat_type = in_following_frames | in_following_subslots

datatype dect_delay = after_3_subslots | after_half_frame

definition length_type_bit :: "length_type \<Rightarrow> bool" where
  "length_type_bit t \<longleftrightarrow> t = length_in_slots"

definition length_type_of :: "bool \<Rightarrow> length_type" where
  "length_type_of b = (if b then length_in_slots else length_in_subslots)"

definition delay_bit :: "dect_delay \<Rightarrow> bool" where
  "delay_bit d \<longleftrightarrow> d = after_half_frame"

definition delay_of :: "bool \<Rightarrow> dect_delay" where
  "delay_of b = (if b then after_half_frame else after_3_subslots)"

lemma bool_enum_inverse [simp]:
  "length_type_of (length_type_bit t) = t" "delay_of (delay_bit d) = d"
  by (cases t; simp add: length_type_of_def length_type_bit_def)
    (cases d; simp add: delay_of_def delay_bit_def)

record allocation =
  al_start_subslot :: u32
  al_length_type :: length_type
  al_length :: u32

definition start_bytes :: "u32 \<Rightarrow> nat" where
  "start_bytes mu = (if mu \<le> 4 then 1 else 2)"

definition allocation_valid :: "u32 \<Rightarrow> allocation \<Rightarrow> bool" where
  "allocation_valid mu a \<longleftrightarrow>
     al_start_subslot a \<le> (if mu \<le> 4 then 0xff else 0xffff) \<and> al_length a \<le> bitmask_lsb 7"

definition pack_allocation :: "u32 \<Rightarrow> allocation \<Rightarrow> bytes" where
  "pack_allocation mu a =
     l2b_lower (al_start_subslot a) (start_bytes mu)
     @ [to_byte (push_bit 7 (b2u (length_type_bit (al_length_type a)))) OR to_byte (al_length a)]"

definition unpack_allocation :: "u32 \<Rightarrow> bytes \<Rightarrow> nat \<Rightarrow> allocation res" where
  "unpack_allocation mu a off =
     bindE (b2l_lower a off (start_bytes mu)) (\<lambda>start.
     bindE (rd a (off + start_bytes mu)) (\<lambda>b.
     Inr \<lparr>al_start_subslot = start, al_length_type = length_type_of (drop_bit 7 b \<noteq> 0),
          al_length = b AND bitmask_lsb 7\<rparr>))"

lemma start_bytes_le [simp]: "start_bytes mu \<le> 4" "start_bytes mu \<le> 2"
  by (simp_all add: start_bytes_def)

lemma length_pack_allocation [simp]: "length (pack_allocation mu a) = start_bytes mu + 1"
  by (simp add: pack_allocation_def)

lemma unpack_allocation_append [simp]:
  "length xs \<le> i \<Longrightarrow> unpack_allocation mu (xs @ ys) i = unpack_allocation mu ys (i - length xs)"
  by (simp add: unpack_allocation_def)

lemma unpack_allocation_cons [simp]:
  "unpack_allocation mu (b # bs) (numeral k) = unpack_allocation mu bs (pred_numeral k)"
  "unpack_allocation mu (b # bs) (Suc i) = unpack_allocation mu bs i"
  "unpack_allocation mu (b # bs) (numeral k + i) = unpack_allocation mu bs (pred_numeral k + i)"
  by (simp_all add: unpack_allocation_def numeral_eq_Suc)

lemma unpack_allocation_written [simp]:
  assumes "allocation_valid mu a"
  shows "unpack_allocation mu (pack_allocation mu a @ r) 0 = Inr a"
proof -
  obtain s t l where a: "a = \<lparr>al_start_subslot = s, al_length_type = t, al_length = l\<rparr>"
    by (cases a)
  have f: "fits (8 * start_bytes mu) s" "fits 7 l"
    using assms by (auto simp: a allocation_valid_def field_simps_bits start_bytes_def split: if_splits)
  define b where "b = to_byte (push_bit 7 (b2u (length_type_bit t))) OR to_byte l"
  have b: "bit b 7 = length_type_bit t" "ucast b AND mask 7 = l"
    using f(2) fits_bit [OF f(2)] by (simp_all add: b_def flag_simps, simp add: field_simps_bits)
  show ?thesis
    using f(1) b by (simp add: a pack_allocation_def unpack_allocation_def flag_simps flip: b_def)
qed

lemma okE_unpack_allocation [ok_intros]:
  "i + (start_bytes mu + 1) \<le> length a \<Longrightarrow> (\<And>x. P x) \<Longrightarrow> okE F (unpack_allocation mu a i) P"
  unfolding unpack_allocation_def by (intro ok_intros) simp_all

subsection \<open>Resource allocation IE\<close>

record repeat_info =
  rep_type :: repeat_type
  rep_allow_specific :: bool
  rep_repetition :: u32
  rep_validity :: u32

record resource_allocation =
  ra_mu :: u32
  ra_allocation_dl :: "allocation option"
  ra_allocation_ul :: "allocation option"
  ra_is_additional :: bool
  ra_short_rd_id :: "u32 option"
  ra_repeat_info :: "repeat_info option"
  ra_sfn_offset :: "u32 option"
  ra_channel :: "u32 option"
  ra_failure :: "scheduled_resource_failure option"

definition ra_zero :: "u32 \<Rightarrow> resource_allocation" where
  "ra_zero mu = \<lparr>ra_mu = mu, ra_allocation_dl = None, ra_allocation_ul = None,
     ra_is_additional = False, ra_short_rd_id = None, ra_repeat_info = None,
     ra_sfn_offset = None, ra_channel = None, ra_failure = None\<rparr>"

definition repeat_ok :: "repeat_info \<Rightarrow> bool" where
  "repeat_ok r \<longleftrightarrow> \<not> (rep_repetition r > 0xff \<or> rep_repetition r = 0 \<or> rep_validity r > 0xff)"

definition ra_valid :: "resource_allocation \<Rightarrow> bool res" where
  "ra_valid m =
     (if \<not> has_value (ra_allocation_dl m) \<and> \<not> has_value (ra_allocation_ul m) then Inr True
      else bindE (valueE (ra_allocation_dl m)) (\<lambda>dl.
      if has_value (ra_allocation_dl m) \<and> \<not> allocation_valid (ra_mu m) dl then Inr False
      else bindE (valueE (ra_allocation_ul m)) (\<lambda>ul.
      if has_value (ra_allocation_ul m) \<and> \<not> allocation_valid (ra_mu m) ul then Inr False
      else if \<not> opt_ok (\<lambda>v. \<not> v > 0xffff) (ra_short_rd_id m) then Inr False
      else bindE (valueE (ra_repeat_info m)) (\<lambda>r.
      if has_value (ra_repeat_info m) \<and> \<not> repeat_ok r then Inr False
      else if \<not> opt_ok (\<lambda>v. \<not> v > 0xff) (ra_sfn_offset m) then Inr False
      else if \<not> opt_ok is_absolute_channel_number_in_range (ra_channel m) then Inr False
      else if \<not> opt_ok (enum_valid resource_failure_ec) (ra_failure m) then Inr False
      else Inr True))))"

definition ra_size :: "resource_allocation \<Rightarrow> nat" where
  "ra_size m =
     (if \<not> has_value (ra_allocation_dl m) \<and> \<not> has_value (ra_allocation_ul m) then 1
      else (if ra_mu m \<le> 4 then 4 else 5)
         + (if has_value (ra_allocation_dl m) \<and> has_value (ra_allocation_ul m)
            then (if ra_mu m \<le> 4 then 2 else 3) else 0)
         + osz (ra_short_rd_id m) 2 + osz (ra_repeat_info m) 2 + osz (ra_sfn_offset m) 1
         + osz (ra_channel m) 2 + osz (ra_failure m) 1)"

definition ra_packed_size :: "resource_allocation \<Rightarrow> nat res" where
  "ra_packed_size m = bindE (ra_valid m) (\<lambda>v. assertE v (Inr (ra_size m)))"

definition ra_peek :: "u32 \<Rightarrow> bytes \<Rightarrow> peek_result res" where
  "ra_peek mu a =
     bindE (rd a 0) (\<lambda>b0.
     if drop_bit 6 b0 = 0 then Inr (Inr 1)
     else let n0 = (if drop_bit 6 b0 = 1 \<or> drop_bit 6 b0 = 2 then (if mu \<le> 4 then 4 else 5)
                    else (if mu \<le> 4 then 6 else 8));
              n1 = n0 + (if drop_bit 4 b0 AND 1 \<noteq> 0 then 2 else 0);
              rep = drop_bit 1 b0 AND 7
          in if rep > 4 then Inr (Inl NONRESERVED_FIELD_SET_TO_RESERVED)
             else bindE (rd a 1) (\<lambda>b1. Inr (Inr
               (n1 + (if rep = 0 then 0 else 2) + unat (b0 AND 1) + unat (drop_bit 7 b1) * 2
                + unat (drop_bit 6 b1 AND 1)))))"

definition repeat_code :: "repeat_info option \<Rightarrow> u32" where
  "repeat_code r = (case r of
     None \<Rightarrow> 0
   | Some v \<Rightarrow> (if rep_type v = in_following_frames then (if rep_allow_specific v then 3 else 1)
               else (if rep_allow_specific v then 4 else 2)))"

definition ra_pack :: "resource_allocation \<Rightarrow> bytes res" where
  "ra_pack m = bindE (ra_valid m) (\<lambda>v. assertE v (
     if \<not> has_value (ra_allocation_ul m) \<and> \<not> has_value (ra_allocation_dl m)
     then assert_peek (ra_peek (ra_mu m)) [0]
     else bindE (valueE (ra_repeat_info m)) (\<lambda>r. assert_peek (ra_peek (ra_mu m)) (
       [to_byte (push_bit 7 (b2u (has_value (ra_allocation_ul m))))
          OR to_byte (push_bit 6 (b2u (has_value (ra_allocation_dl m))))
          OR to_byte (push_bit 5 (b2u (ra_is_additional m)))
          OR to_byte (push_bit 4 (b2u (has_value (ra_short_rd_id m))))
          OR to_byte (push_bit 1 (repeat_code (ra_repeat_info m)))
          OR to_byte (b2u (has_value (ra_sfn_offset m))),
        to_byte (push_bit 7 (b2u (has_value (ra_channel m))))
          OR to_byte (push_bit 6 (b2u (has_value (ra_failure m))))]
       @ wr_opt (ra_allocation_dl m) (pack_allocation (ra_mu m))
       @ wr_opt (ra_allocation_ul m) (pack_allocation (ra_mu m))
       @ wr_opt (ra_short_rd_id m) (\<lambda>v. l2b_lower v 2)
       @ wr_opt (ra_repeat_info m) (\<lambda>x. [to_byte (rep_repetition x), to_byte (rep_validity x)])
       @ wr_opt (ra_sfn_offset m) (\<lambda>v. [to_byte v])
       @ wr_opt (ra_channel m) wr_channel
       @ wr_opt (ra_failure m) (\<lambda>v. [to_byte (to_underlying resource_failure_ec v)])))))"

definition rd_channel_16 :: "bytes \<Rightarrow> nat \<Rightarrow> u32 res" where
  "rd_channel_16 a i = bindE (rd a i) (\<lambda>hi. bindE (rd a (i + 1)) (\<lambda>lo.
     Inr ((push_bit 8 hi OR lo) AND bitmask_lsb 13)))"

definition ra_unpack :: "u32 \<Rightarrow> bytes \<Rightarrow> (bool \<times> resource_allocation) res" where
  "ra_unpack mu a =
     bindE (rd a 0) (\<lambda>b0.
     let t = drop_bit 6 b0; n = start_bytes mu + 1; rep = drop_bit 1 b0 AND 7 in
     if t = 0 then Inr (True, ra_zero mu)
     else
     bindE (rd_opt (t = 1 \<or> t = 3) 2 n (unpack_allocation mu a)) (\<lambda>(dl, off).
     bindE (rd_opt (t = 2 \<or> t = 3) off n (unpack_allocation mu a)) (\<lambda>(ul, off).
     bindE (rd_opt (drop_bit 4 b0 AND 1 \<noteq> 0) off 2 (\<lambda>i. b2l_lower a i 2)) (\<lambda>(sid, off).
     let m = (ra_zero mu)\<lparr>ra_allocation_dl := dl, ra_allocation_ul := ul,
               ra_is_additional := (drop_bit 5 b0 AND 1 \<noteq> 0), ra_short_rd_id := sid\<rparr> in
     if rep > 4 then Inr (False, m)
     else
     bindE (rd_opt (rep \<noteq> 0) off 2 (\<lambda>i. bindE (rd a i) (\<lambda>x. bindE (rd a (i + 1)) (\<lambda>y.
              Inr \<lparr>rep_type = (if rep = 1 \<or> rep = 3 then in_following_frames else in_following_subslots),
                   rep_allow_specific = (rep = 3 \<or> rep = 4), rep_repetition = x, rep_validity = y\<rparr>))))
       (\<lambda>(r, off).
     bindE (rd_opt (b0 AND 1 \<noteq> 0) off 1 (rd a)) (\<lambda>(sfn, off).
     bindE (rd a 1) (\<lambda>b1.
     bindE (rd_opt (drop_bit 7 b1 \<noteq> 0) off 2 (rd_channel_16 a)) (\<lambda>(ch, off).
     bindE (rd_opt (drop_bit 6 b1 AND 1 \<noteq> 0) off 1 (rd_enum resource_failure_ec 4 0 a)) (\<lambda>(fl, off).
     let m = m\<lparr>ra_repeat_info := r, ra_sfn_offset := sfn, ra_channel := ch, ra_failure := fl\<rparr>
     in bindE (ra_packed_size m) (\<lambda>k. assertE (k = off) (bindE (ra_valid m) (\<lambda>v. Inr (v, m)))))))))))))"

lemma top_two_bits:
  "drop_bit 6 (ucast (b :: u8)) = ((if bit b 7 then if bit b 6 then 3 else 2
     else if bit b 6 then 1 else 0) :: u32)"
  by (rule word_eqI_upt) (simp add: upt_width bit_simps)

lemma repeat_code_le: "fits 3 (repeat_code r)" "\<not> repeat_code r > 4"
  "repeat_code r = 0 \<longleftrightarrow> r = None"
  by (auto simp: repeat_code_def field_simps_bits fits_iff_unat split: option.splits)

text \<open>
  A resource allocation can only be packed as a release of all resources, or with both
  allocations and a repetition.
\<close>

lemma ra_valid_iff:
  "ra_valid m = Inr True \<longleftrightarrow>
     ra_allocation_dl m = None \<and> ra_allocation_ul m = None
   \<or> (\<exists>dl ul r. ra_allocation_dl m = Some dl \<and> ra_allocation_ul m = Some ul
       \<and> ra_repeat_info m = Some r \<and> allocation_valid (ra_mu m) dl \<and> allocation_valid (ra_mu m) ul
       \<and> repeat_ok r \<and> opt_ok (\<lambda>v. v \<le> 0xffff) (ra_short_rd_id m)
       \<and> opt_ok (\<lambda>v. v \<le> 0xff) (ra_sfn_offset m)
       \<and> opt_ok is_absolute_channel_number_in_range (ra_channel m)
       \<and> opt_ok (enum_valid resource_failure_ec) (ra_failure m))"
  by (cases "ra_allocation_dl m"; cases "ra_allocation_ul m"; cases "ra_repeat_info m")
    (auto simp: ra_valid_def not_less)

lemma ra_pack_valid: "ra_pack m = Inr bs \<Longrightarrow> ra_valid m = Inr True"
  by (auto simp: ra_pack_def bindE_eq_Inr)

text \<open>One direction without the other, or no repetition, is no valid allocation.\<close>

lemma ra_pack_incomplete:
  assumes "ra_pack m = Inr bs" "ra_allocation_dl m \<noteq> None \<or> ra_allocation_ul m \<noteq> None"
  shows "ra_valid m = Inr True" "ra_allocation_dl m \<noteq> None" "ra_allocation_ul m \<noteq> None" "ra_repeat_info m \<noteq> None"
  using ra_pack_valid [OF assms(1)] assms(2) by (auto simp: ra_valid_iff)

definition ra_head :: "resource_allocation \<Rightarrow> u8" where
  "ra_head m = to_byte (push_bit 7 (b2u (has_value (ra_allocation_ul m))))
     OR to_byte (push_bit 6 (b2u (has_value (ra_allocation_dl m))))
     OR to_byte (push_bit 5 (b2u (ra_is_additional m)))
     OR to_byte (push_bit 4 (b2u (has_value (ra_short_rd_id m))))
     OR to_byte (push_bit 1 (repeat_code (ra_repeat_info m)))
     OR to_byte (b2u (has_value (ra_sfn_offset m)))"

lemma ra_head_bits:
  "bit (ra_head m) 7 = has_value (ra_allocation_ul m)"
  "bit (ra_head m) 6 = has_value (ra_allocation_dl m)" "bit (ra_head m) 5 = ra_is_additional m"
  "bit (ra_head m) 4 = has_value (ra_short_rd_id m)"
  "bit (ra_head m) 0 = has_value (ra_sfn_offset m)"
  "drop_bit (Suc 0) (ucast (ra_head m)) AND 7 = repeat_code (ra_repeat_info m)"
proof -
  note f = repeat_code_le(1) [of "ra_repeat_info m"]
  show "bit (ra_head m) 7 = has_value (ra_allocation_ul m)"
    "bit (ra_head m) 6 = has_value (ra_allocation_dl m)" "bit (ra_head m) 5 = ra_is_additional m"
    "bit (ra_head m) 4 = has_value (ra_short_rd_id m)"
    "bit (ra_head m) 0 = has_value (ra_sfn_offset m)"
    using fits_bit [OF f] by (simp_all add: ra_head_def flag_simps)
  show "drop_bit (Suc 0) (ucast (ra_head m)) AND 7 = repeat_code (ra_repeat_info m)"
    using f by (simp add: ra_head_def field_simps_bits)
qed

definition ra_tail :: "resource_allocation \<Rightarrow> bytes" where
  "ra_tail m = wr_opt (ra_short_rd_id m) (\<lambda>v. l2b_lower v 2)
       @ wr_opt (ra_repeat_info m) (\<lambda>x. [to_byte (rep_repetition x), to_byte (rep_validity x)])
       @ wr_opt (ra_sfn_offset m) (\<lambda>v. [to_byte v])
       @ wr_opt (ra_channel m) wr_channel
       @ wr_opt (ra_failure m) (\<lambda>v. [to_byte (to_underlying resource_failure_ec v)])"

lemma length_wr_opt_2 [simp]: "length (wr_opt x (\<lambda>v. [f v, g v])) = osz x 2"
  by (rule length_wr_opt) simp

lemma length_ra_tail [simp]:
  "length (ra_tail m) = osz (ra_short_rd_id m) 2 + osz (ra_repeat_info m) 2
     + osz (ra_sfn_offset m) 1 + osz (ra_channel m) 2 + osz (ra_failure m) 1"
  by (simp add: ra_tail_def)

lemma ra_pack_complete:
  assumes "ra_valid m = Inr True" "ra_allocation_dl m = Some dl"
  obtains ul r b1 where "ra_allocation_ul m = Some ul" "ra_repeat_info m = Some r"
    "bit b1 7 = has_value (ra_channel m)" "bit b1 6 = has_value (ra_failure m)"
    "ra_pack m = Inr (ra_head m # b1 # pack_allocation (ra_mu m) dl @ pack_allocation (ra_mu m) ul
       @ ra_tail m)"
    "length (ra_head m # b1 # pack_allocation (ra_mu m) dl @ pack_allocation (ra_mu m) ul
       @ ra_tail m) = ra_size m"
    "\<And>bs. ra_peek (ra_mu m) (ra_head m # b1 # bs) = Inr (Inr (ra_size m))"
proof -
  obtain ul r where v: "ra_allocation_ul m = Some ul" "ra_repeat_info m = Some r"
    using assms by (auto simp: ra_valid_iff)
  define b1 where "b1 = to_byte (push_bit 7 (b2u (has_value (ra_channel m))))
          OR to_byte (push_bit 6 (b2u (has_value (ra_failure m))))"
  have b1: "bit b1 7 = has_value (ra_channel m)" "bit b1 6 = has_value (ra_failure m)"
    by (simp_all add: b1_def flag_simps)
  have len: "length (ra_head m # b1 # pack_allocation (ra_mu m) dl @ pack_allocation (ra_mu m) ul
       @ ra_tail m) = ra_size m"
    using assms(2) v by (simp add: ra_size_def start_bytes_def)
  have peek: "ra_peek (ra_mu m) (ra_head m # b1 # bs) = Inr (Inr (ra_size m))" for bs
    using v assms(2) repeat_code_le(2,3) [of "ra_repeat_info m"]
    by (simp add: ra_peek_def top_two_bits ra_head_bits b1 flag_simps Let_def ra_size_def osz_def)
  have "ra_pack m = assert_peek (ra_peek (ra_mu m)) (ra_head m # b1 #
      pack_allocation (ra_mu m) dl @ pack_allocation (ra_mu m) ul @ ra_tail m)"
    using assms v by (simp add: ra_pack_def ra_head_def b1_def ra_tail_def)
  then have "ra_pack m = Inr (ra_head m # b1 # pack_allocation (ra_mu m) dl
      @ pack_allocation (ra_mu m) ul @ ra_tail m)"
    using peek len by (simp add: assert_peek_ok)
  then show ?thesis by (intro that [of ul r b1] v b1 len peek)
qed

lemma rd_channel_16_append [simp]:
  "length xs \<le> i \<Longrightarrow> rd_channel_16 (xs @ ys) i = rd_channel_16 ys (i - length xs)"
  by (simp add: rd_channel_16_def Suc_diff_le)

lemma rd_channel_16_cons [simp]:
  "rd_channel_16 (b # bs) (Suc i) = rd_channel_16 bs i"
  by (simp add: rd_channel_16_def)

lemma rd_channel_16_written [simp]:
  assumes "is_absolute_channel_number_in_range c"
  shows "rd_channel_16 (wr_channel c @ r) 0 = Inr c"
proof -
  have f: "fits 13 c" by (rule in_range_fits [OF assms])
  then have "fits 5 (drop_bit 8 c)" by (intro fits_drop_bit) simp
  then have "fits 8 (drop_bit 8 c)" by (rule fits_mono) simp
  moreover have "push_bit 8 (drop_bit 8 c) OR fld 8 0 c = c"
    by (rule split_byte_or)
  ultimately show ?thesis
    using f by (simp add: rd_channel_16_def wr_channel_def and_mask_fld fld_fits
        ucast_to_byte_fits)
qed

lemma okE_rd_channel_16 [ok_intros]:
  "i + 2 \<le> length a \<Longrightarrow> (\<And>c. P c) \<Longrightarrow> okE F (rd_channel_16 a i) P"
  unfolding rd_channel_16_def by (intro ok_intros) simp_all

lemma ra_unpack_pack:
  assumes "ra_valid m = Inr True" "ra_allocation_dl m = Some dl" "ra_pack m = Inr bs"
  shows "ra_unpack (ra_mu m) (bs @ s) = Inr (True, m)"
proof -
  obtain ul r b1 where c: "ra_allocation_ul m = Some ul" "ra_repeat_info m = Some r"
    "bit b1 7 = has_value (ra_channel m)" "bit b1 6 = has_value (ra_failure m)"
    "ra_pack m = Inr (ra_head m # b1 # pack_allocation (ra_mu m) dl @ pack_allocation (ra_mu m) ul
       @ ra_tail m)"
    "length (ra_head m # b1 # pack_allocation (ra_mu m) dl @ pack_allocation (ra_mu m) ul
       @ ra_tail m) = ra_size m"
    using ra_pack_complete [OF assms(1,2)] by metis
  obtain mu ad sid sfn ch fl where m: "m = \<lparr>ra_mu = mu, ra_allocation_dl = Some dl,
     ra_allocation_ul = Some ul, ra_is_additional = ad, ra_short_rd_id = sid,
     ra_repeat_info = Some r, ra_sfn_offset = sfn, ra_channel = ch, ra_failure = fl\<rparr>"
    using assms(2) c(1,2) by (cases m) simp
  obtain rt rs rr rv where r: "r = \<lparr>rep_type = rt, rep_allow_specific = rs, rep_repetition = rr,
     rep_validity = rv\<rparr>" by (cases r)
  have v: "allocation_valid mu dl" "allocation_valid mu ul" "repeat_ok r" "opt_ok (fits 16) sid"
    "opt_ok (fits 8) sfn" "opt_ok is_absolute_channel_number_in_range ch"
    "opt_ok (enum_valid resource_failure_ec) fl"
    using assms(1) by (auto simp: ra_valid_iff m field_simps_bits elim!: opt_ok_mono)
  have rf: "fits 8 rr" "fits 8 rv"
    using v(3) by (auto simp: repeat_ok_def r field_simps_bits not_less)
  let ?n = "start_bytes mu + 1"
  let ?rw = "wr_opt (Some r) (\<lambda>x. [to_byte (rep_repetition x), to_byte (rep_validity x)])"
  have bs: "bs = ra_head m # b1 # pack_allocation mu dl @ pack_allocation mu ul
     @ wr_opt sid (\<lambda>v. l2b_lower v 2) @ [to_byte rr, to_byte rv] @ wr_opt sfn (\<lambda>v. [to_byte v])
     @ wr_opt ch wr_channel @ wr_opt fl (\<lambda>v. [to_byte (to_underlying resource_failure_ec v)])"
    using c(5) assms(3) by (simp add: ra_tail_def m r)
  define A where "A = bs @ s"
  let ?b0 = "ucast (ra_head m) :: u32" and ?b1 = "ucast b1 :: u32"
  let ?rep = "drop_bit 1 ?b0 AND 7"
  have t: "drop_bit 6 ?b0 = 3" and rep: "?rep = repeat_code (Some r)"
    by (simp_all add: top_two_bits ra_head_bits c(1) assms(2) c(2))
  have a0: "rd A 0 = Inr ?b0" and b1: "rd A 1 = Inr ?b1"
    by (simp_all add: A_def bs)
  have fields: "ra_short_rd_id m = sid" "ra_is_additional m = ad" "ra_sfn_offset m = sfn"
    "ra_channel m = ch" "ra_failure m = fl"
    by (simp_all add: m)
  have flags: "(drop_bit 4 ?b0 AND 1 \<noteq> 0) = has_value sid" "(drop_bit 5 ?b0 AND 1 \<noteq> 0) = ad"
    "(?b0 AND 1 \<noteq> 0) = has_value sfn" "(drop_bit 7 ?b1 \<noteq> 0) = has_value ch"
    "(drop_bit 6 ?b1 AND 1 \<noteq> 0) = has_value fl"
    by (simp_all add: flag_simps ra_head_bits c(3,4) fields)
  have dl: "rd_opt (drop_bit 6 ?b0 = 1 \<or> drop_bit 6 ?b0 = 3) 2 ?n (unpack_allocation mu A)
      = Inr (Some dl, 2 + ?n)"
    using v(1) by (simp add: t rd_opt_def A_def bs)
  have ul: "rd_opt (drop_bit 6 ?b0 = 2 \<or> drop_bit 6 ?b0 = 3) (2 + ?n) ?n (unpack_allocation mu A)
      = Inr (Some ul, 2 + ?n + ?n)"
    using v(2) by (simp add: t rd_opt_def A_def bs)
  have sid: "rd_opt (drop_bit 4 ?b0 AND 1 \<noteq> 0) (2 + ?n + ?n) 2 (\<lambda>i. b2l_lower A i 2)
      = Inr (sid, 2 + ?n + ?n + osz sid 2)"
    unfolding flags using v by (intro rd_opt_has_value) (simp add: A_def bs)
  have rpt: "rd_opt (?rep \<noteq> 0) (2 + ?n + ?n + osz sid 2) 2
       (\<lambda>i. bindE (rd A i) (\<lambda>x. bindE (rd A (i + 1)) (\<lambda>y.
         Inr \<lparr>rep_type = (if ?rep = 1 \<or> ?rep = 3 then in_following_frames else in_following_subslots),
              rep_allow_specific = (?rep = 3 \<or> ?rep = 4), rep_repetition = x, rep_validity = y\<rparr>)))
      = Inr (Some r, 2 + ?n + ?n + osz sid 2 + 2)"
    unfolding rep using rf
    by (cases rt; cases rs) (simp_all add: rd_opt_def repeat_code_def r A_def bs ucast_to_byte_fits)
  let ?o = "2 + ?n + ?n + osz sid 2 + 2"
  have sfn: "rd_opt (?b0 AND 1 \<noteq> 0) ?o 1 (rd A) = Inr (sfn, ?o + osz sfn 1)"
    unfolding flags using v by (intro rd_opt_has_value) (simp add: A_def bs ucast_to_byte_fits)
  have ch: "rd_opt (drop_bit 7 ?b1 \<noteq> 0) (?o + osz sfn 1) 2 (rd_channel_16 A)
      = Inr (ch, ?o + osz sfn 1 + osz ch 2)"
    unfolding flags using v by (intro rd_opt_has_value) (simp add: A_def bs)
  have fl: "rd_opt (drop_bit 6 ?b1 AND 1 \<noteq> 0) (?o + osz sfn 1 + osz ch 2) 1
       (rd_enum resource_failure_ec 4 0 A)
      = Inr (fl, ?o + osz sfn 1 + osz ch 2 + osz fl 1)"
    unfolding flags using v by (intro rd_opt_has_value) (simp add: A_def bs)
  have gt: "\<not> ?rep > 4" unfolding rep by (rule repeat_code_le)
  have ne: "(drop_bit 6 ?b0 = 0) = False" by (simp add: t)
  have eq: "(ra_zero mu)\<lparr>ra_allocation_dl := Some dl, ra_allocation_ul := Some ul,
      ra_is_additional := (drop_bit 5 ?b0 AND 1 \<noteq> 0), ra_short_rd_id := sid,
      ra_repeat_info := Some r, ra_sfn_offset := sfn, ra_channel := ch, ra_failure := fl\<rparr> = m"
    unfolding flags by (simp add: ra_zero_def m)
  have sz: "ra_packed_size m = Inr (?o + osz sfn 1 + osz ch 2 + osz fl 1)"
    using assms(1) by (simp add: ra_packed_size_def ra_size_def m start_bytes_def)
  have mu: "ra_mu m = mu" by (simp add: m)
  show ?thesis
    unfolding mu A_def [symmetric]
    by (simp only: ra_unpack_def Let_def a0 b1 dl ul sid rpt sfn ch fl gt ne eq sz assms(1)
        bindE.simps prod.case if_False assertE_True simp_thms)
qed

lemma ra_pack_release:
  "ra_allocation_dl m = None \<Longrightarrow> ra_allocation_ul m = None \<Longrightarrow> ra_pack m = Inr [0]"
  by (simp add: ra_pack_def ra_valid_def assert_peek_ok ra_peek_def)

lemma ra_packable_iff: "(\<exists>bs. ra_pack m = Inr bs) \<longleftrightarrow> ra_valid m = Inr True"
proof
  assume v: "ra_valid m = Inr True"
  show "\<exists>bs. ra_pack m = Inr bs"
  proof (cases "ra_allocation_dl m")
    case None
    with v have "ra_allocation_ul m = None" by (auto simp: ra_valid_iff)
    with None show ?thesis by (simp add: ra_pack_release)
  next
    case (Some dl)
    with ra_pack_complete [OF v Some] show ?thesis by metis
  qed
qed (use ra_pack_valid in blast)

lemma ra_release_roundtrip:
  "ra_pack (ra_zero mu) = Inr [0]" "ra_unpack mu ([0] @ s) = Inr (True, ra_zero mu)"
  by (simp_all add: ra_pack_def ra_valid_def ra_zero_def ra_unpack_def assert_peek_ok ra_peek_def)

lemma okE_repeat [ok_intros]:
  "i + 2 \<le> length a \<Longrightarrow> (\<And>x y. P \<lparr>rep_type = t, rep_allow_specific = s, rep_repetition = x,
     rep_validity = y\<rparr>) \<Longrightarrow>
   okE F (bindE (rd a i) (\<lambda>x. bindE (rd a (i + 1)) (\<lambda>y.
     Inr \<lparr>rep_type = t, rep_allow_specific = s, rep_repetition = x, rep_validity = y\<rparr>))) P"
  by (simp add: rd_ok)

lemma top_two_tests:
  "drop_bit 6 (ucast b :: u32) = 0 \<longleftrightarrow> \<not> (bit b 7 \<or> bit b 6)"
  "(drop_bit 6 (ucast b :: u32) = 1 \<or> drop_bit 6 (ucast b :: u32) = 3) \<longleftrightarrow> bit b 6"
  "(drop_bit 6 (ucast b :: u32) = 2 \<or> drop_bit 6 (ucast b :: u32) = 3) \<longleftrightarrow> bit b 7" for b :: u8
  by (simp_all add: top_two_bits)

lemma ra_start_size:
  "bit b 7 \<or> bit b 6 \<Longrightarrow>
   (if drop_bit 6 (ucast b) = (1::u32) \<or> drop_bit 6 (ucast b) = (2::u32) then (if mu \<le> 4 then 4 else 5)
    else (if mu \<le> 4 then 6 else 8)) = 2 + csz (bit b 6) (start_bytes mu + 1) + csz (bit b 7) (start_bytes mu + 1)"
  for b :: u8 and mu :: u32
  by (auto simp: top_two_bits csz_def start_bytes_def)

lemma ra_peeked_size:
  assumes "ra_peek mu a = Inr (Inr k)" "bit (a ! 0) 7 \<or> bit (a ! 0) 6"
  shows "2 \<le> length a" and "\<not> drop_bit 1 (ucast (a ! 0)) AND 7 > (4 :: u32)"
    and "k = 2 + csz (bit (a ! 0) 6) (start_bytes mu + 1) + csz (bit (a ! 0) 7) (start_bytes mu + 1)
      + csz (bit (a ! 0) 4) 2 + csz (drop_bit 1 (ucast (a ! 0)) AND 7 \<noteq> (0 :: u32)) 2 + csz (bit (a ! 0) 0) 1
      + csz (bit (a ! 1) 7) 2 + csz (bit (a ! 1) 6) 1"
proof -
  have l: "Suc 0 \<le> length a" "Suc 1 \<le> length a"
    using assms by (auto simp: ra_peek_def bindE_eq_Inr rd_def Let_def ra_start_size top_two_tests
      simp del: One_nat_def split: if_splits)
  then show "2 \<le> length a" by simp
  note p = assms(1) [unfolded ra_peek_def, unfolded rd_ok [OF l(1)] rd_ok [OF l(2)] bindE.simps Let_def
      ra_start_size [OF assms(2)]]
  show r: "\<not> drop_bit 1 (ucast (a ! 0)) AND 7 > (4 :: u32)"
    using p assms(2) by (simp add: top_two_tests split: if_splits)
  show "k = 2 + csz (bit (a ! 0) 6) (start_bytes mu + 1) + csz (bit (a ! 0) 7) (start_bytes mu + 1)
      + csz (bit (a ! 0) 4) 2 + csz (drop_bit 1 (ucast (a ! 0)) AND 7 \<noteq> (0 :: u32)) 2 + csz (bit (a ! 0) 0) 1
      + csz (bit (a ! 1) 7) 2 + csz (bit (a ! 1) 6) 1"
    using p assms(2) r by (simp add: top_two_tests flag_simps csz_if)
qed

lemma ra_checks_ok:
  assumes "\<And>x. P x" shows "okE {Assertion_failed, Bad_optional_access} (ra_valid m) P"
proof -
  have "okE {Assertion_failed, Bad_optional_access} (ra_valid m) (\<lambda>_. True)"
    unfolding ra_valid_def by (intro ok_intros) simp_all
  then show ?thesis by (rule okE_any) (rule assms)
qed

lemma ra_unpack_in_bounds:
  assumes "ra_peek mu a = Inr (Inr k)" "k \<le> length a"
  shows "ra_unpack mu a \<noteq> Inl Out_of_bounds_read"
proof (cases "bit (a ! 0) 7 \<or> bit (a ! 0) 6")
  case False
  have "1 \<le> length a" using assms by (auto simp: ra_peek_def bindE_eq_Inr rd_def Suc_le_eq split: if_splits)
  with False show ?thesis by (simp add: ra_unpack_def rd_ok top_two_bits)
next
  case True
  note l = ra_peeked_size [OF assms(1) True]
  have "okE {Assertion_failed, Bad_optional_access} (ra_unpack mu a) (\<lambda>_. True)"
    unfolding ra_unpack_def Let_def ra_packed_size_def
    apply (intro ok_intros ra_checks_ok)
    using l True assms(2) by (simp_all add: flag_simps top_two_tests)
  then show ?thesis by (rule okE_in_bounds) simp
qed

subsection \<open>Random access resource IE\<close>

record rach_repeat =
  rh_repeat_type :: repeat_type
  rh_repetition :: u32
  rh_validity :: u32

record random_access_resource =
  rr_mu :: u32
  rr_repeat_info :: "rach_repeat option"
  rr_sfn_offset :: "u32 option"
  rr_channel :: "u32 option"
  rr_channel_2 :: "u32 option"
  rr_allocation :: allocation
  rr_max_rach_length_type :: length_type
  rr_max_rach_length :: u32
  rr_cw_min :: cw_min
  rr_dect_delay :: dect_delay
  rr_response_window_length :: u32
  rr_cw_max :: cw_max

definition rach_repeat_ok :: "rach_repeat \<Rightarrow> bool" where
  "rach_repeat_ok r \<longleftrightarrow> \<not> (rh_repetition r > 0xff \<or> rh_repetition r = 0 \<or> rh_validity r > 0xff)"

text \<open>The fields that \<open>zero\<close> does not touch keep their value.\<close>

definition rr_zero :: "random_access_resource \<Rightarrow> random_access_resource" where
  "rr_zero m = m\<lparr>rr_repeat_info := None, rr_sfn_offset := None, rr_channel := None,
     rr_channel_2 := None, rr_allocation := (rr_allocation m)\<lparr>al_start_subslot := UNDEFINED_NUMERIC_32,
       al_length := UNDEFINED_NUMERIC_32\<rparr>, rr_max_rach_length := UNDEFINED_NUMERIC_32,
     rr_cw_min := not_defined cw_min_ec, rr_response_window_length := UNDEFINED_NUMERIC_32,
     rr_cw_max := not_defined cw_max_ec\<rparr>"

definition rr_valid :: "random_access_resource \<Rightarrow> bool res" where
  "rr_valid m =
     bindE (valueE (rr_repeat_info m)) (\<lambda>r.
     if has_value (rr_repeat_info m) \<and> \<not> rach_repeat_ok r then Inr False
     else if \<not> opt_ok (\<lambda>v. \<not> v > 0xff) (rr_sfn_offset m) then Inr False
     else if \<not> opt_ok is_absolute_channel_number_in_range (rr_channel m) then Inr False
     else if \<not> opt_ok is_absolute_channel_number_in_range (rr_channel_2 m) then Inr False
     else if al_start_subslot (rr_allocation m) > (if rr_mu m \<le> 4 then 0xff else 0xffff)
             \<or> al_length (rr_allocation m) > bitmask_lsb 7 then Inr False
     else if rr_max_rach_length m > 0xf \<or> \<not> enum_valid cw_min_ec (rr_cw_min m)
             \<or> rr_response_window_length m > 0xf \<or> \<not> enum_valid cw_max_ec (rr_cw_max m) then Inr False
     else Inr True)"

definition rr_size :: "random_access_resource \<Rightarrow> nat" where
  "rr_size m = (if rr_mu m \<le> 4 then 5 else 6) + osz (rr_repeat_info m) 2 + osz (rr_sfn_offset m) 1
     + osz (rr_channel m) 2 + osz (rr_channel_2 m) 2"

definition rr_packed_size :: "random_access_resource \<Rightarrow> nat res" where
  "rr_packed_size m = bindE (rr_valid m) (\<lambda>v. assertE v (Inr (rr_size m)))"

definition rr_peek :: "u32 \<Rightarrow> bytes \<Rightarrow> peek_result res" where
  "rr_peek mu a =
     bindE (rd a 0) (\<lambda>b0.
     let n0 = (if mu \<le> 4 then 5 else 6); rep = drop_bit 3 b0 AND 3 in
     if rep > 2 then Inr (Inl NONRESERVED_FIELD_SET_TO_RESERVED)
     else Inr (Inr (n0 + (if rep = 0 then 0 else 2) + unat (b0 AND 4) + unat (b0 AND 2) * 2
                    + unat (b0 AND 1) * 2)))"

definition rach_repeat_code :: "rach_repeat option \<Rightarrow> u32" where
  "rach_repeat_code r = (case r of
     None \<Rightarrow> 0 | Some v \<Rightarrow> (if rh_repeat_type v = in_following_frames then 1 else 2))"

text \<open>The bytes that \<open>pack\<close> writes before it checks their number.\<close>

definition rr_bytes :: "random_access_resource \<Rightarrow> bytes" where
  "rr_bytes m =
     [to_byte (push_bit 2 (b2u (has_value (rr_sfn_offset m))))
        OR to_byte (push_bit 1 (b2u (has_value (rr_channel m))))
        OR to_byte (b2u (has_value (rr_channel_2 m)))
        OR to_byte (push_bit 3 (rach_repeat_code (rr_repeat_info m)))]
     @ pack_allocation (rr_mu m) (rr_allocation m)
     @ [to_byte (push_bit 7 (b2u (length_type_bit (rr_max_rach_length_type m))))
          OR to_byte (push_bit 3 (rr_max_rach_length m))
          OR to_byte (to_underlying cw_min_ec (rr_cw_min m)),
        to_byte (push_bit 7 (b2u (delay_bit (rr_dect_delay m))))
          OR to_byte (push_bit 3 (rr_response_window_length m))
          OR to_byte (to_underlying cw_max_ec (rr_cw_max m))]
     @ wr_opt (rr_repeat_info m) (\<lambda>x. [to_byte (rh_repetition x), to_byte (rh_validity x)])
     @ wr_opt (rr_sfn_offset m) (\<lambda>v. [to_byte v])
     @ wr_opt (rr_channel m) wr_channel
     @ wr_opt (rr_channel_2 m) wr_channel"

definition rr_pack :: "random_access_resource \<Rightarrow> bytes res" where
  "rr_pack m = bindE (rr_valid m) (\<lambda>v. assertE v (
     bindE (valueE (rr_repeat_info m)) (\<lambda>r. assert_peek (rr_peek (rr_mu m)) (rr_bytes m))))"

definition rr_unpack :: "u32 \<Rightarrow> bytes \<Rightarrow> (bool \<times> random_access_resource) res" where
  "rr_unpack mu a =
     bindE (unpack_allocation mu a 1) (\<lambda>al.
     let off = start_bytes mu + 2 in
     bindE (rd a off) (\<lambda>c1.
     bindE (rd a (off + 1)) (\<lambda>c2.
     bindE (rd a 0) (\<lambda>b0.
     let rep = drop_bit 3 b0 AND 3;
         m = \<lparr>rr_mu = mu, rr_repeat_info = None, rr_sfn_offset = None, rr_channel = None,
              rr_channel_2 = None, rr_allocation = al,
              rr_max_rach_length_type = length_type_of (drop_bit 7 c1 \<noteq> 0),
              rr_max_rach_length = drop_bit 3 c1 AND 15,
              rr_cw_min = from_coded_value cw_min_ec (c1 AND 7),
              rr_dect_delay = delay_of (drop_bit 7 c2 \<noteq> 0),
              rr_response_window_length = drop_bit 3 c2 AND 15,
              rr_cw_max = from_coded_value cw_max_ec (c2 AND 7)\<rparr> in
     if rep > 2 then Inr (False, m)
     else
     bindE (rd_opt (rep \<noteq> 0) (off + 2) 2 (\<lambda>i. bindE (rd a i) (\<lambda>x. bindE (rd a (i + 1)) (\<lambda>y.
              Inr \<lparr>rh_repeat_type = (if rep = 1 then in_following_frames else in_following_subslots),
                   rh_repetition = x, rh_validity = y\<rparr>)))) (\<lambda>(r, off).
     bindE (rd_opt (b0 AND 4 \<noteq> 0) off 1 (rd a)) (\<lambda>(sfn, off).
     bindE (rd_opt (b0 AND 2 \<noteq> 0) off 2 (rd_channel a)) (\<lambda>(ch, off).
     bindE (rd_opt (b0 AND 1 \<noteq> 0) off 2 (rd_channel a)) (\<lambda>(ch2, off).
     let m = m\<lparr>rr_repeat_info := r, rr_sfn_offset := sfn, rr_channel := ch, rr_channel_2 := ch2\<rparr>
     in bindE (rr_packed_size m) (\<lambda>k. assertE (k = off) (bindE (rr_valid m) (\<lambda>v. Inr (v, m))))))))))))"

lemma rach_repeat_code_le: "fits 2 (rach_repeat_code r)" "\<not> rach_repeat_code r > 2"
  "rach_repeat_code r = 0 \<longleftrightarrow> r = None"
  by (auto simp: rach_repeat_code_def fits_iff_unat split: option.splits)

definition rr_head :: "random_access_resource \<Rightarrow> u8" where
  "rr_head m = to_byte (push_bit 2 (b2u (has_value (rr_sfn_offset m))))
        OR to_byte (push_bit 1 (b2u (has_value (rr_channel m))))
        OR to_byte (b2u (has_value (rr_channel_2 m)))
        OR to_byte (push_bit 3 (rach_repeat_code (rr_repeat_info m)))"

lemma rr_head_bits:
  "bit (rr_head m) 2 = has_value (rr_sfn_offset m)"
  "bit (rr_head m) (Suc 0) = has_value (rr_channel m)"
  "bit (rr_head m) 0 = has_value (rr_channel_2 m)"
  "drop_bit 3 (ucast (rr_head m)) AND 3 = rach_repeat_code (rr_repeat_info m)"
proof -
  note f = rach_repeat_code_le(1) [of "rr_repeat_info m"]
  show "bit (rr_head m) 2 = has_value (rr_sfn_offset m)"
    "bit (rr_head m) (Suc 0) = has_value (rr_channel m)"
    "bit (rr_head m) 0 = has_value (rr_channel_2 m)"
    by (simp_all add: rr_head_def flag_simps)
  show "drop_bit 3 (ucast (rr_head m)) AND 3 = rach_repeat_code (rr_repeat_info m)"
    using f by (simp add: rr_head_def field_simps_bits)
qed

text \<open>
  Peeking counts four bytes for an SFN offset and four for a channel, which take one and two.
  The element can be packed exactly when it has a repetition and neither of them.
\<close>

lemma rr_bytes_size:
  shows "length (rr_bytes m) = rr_size m"
    and "rr_peek (rr_mu m) (rr_bytes m @ s)
      = Inr (Inr (rr_size m + osz (rr_sfn_offset m) 3 + osz (rr_channel m) 2))"
proof -
  show "length (rr_bytes m) = rr_size m"
    by (simp add: rr_bytes_def rr_size_def start_bytes_def)
  obtain tl where "rr_bytes m = rr_head m # tl"
    by (simp add: rr_bytes_def rr_head_def)
  then show "rr_peek (rr_mu m) (rr_bytes m @ s)
      = Inr (Inr (rr_size m + osz (rr_sfn_offset m) 3 + osz (rr_channel m) 2))"
    using rach_repeat_code_le(2,3) [of "rr_repeat_info m"]
    by (cases "rr_repeat_info m"; cases "rr_sfn_offset m"; cases "rr_channel m")
      (simp_all add: rr_peek_def flag_simps rr_head_bits rr_size_def osz_def)
qed

lemma rr_pack_iff:
  "rr_pack m = Inr bs \<longleftrightarrow> rr_valid m = Inr True \<and> rr_sfn_offset m = None \<and> rr_channel m = None
     \<and> bs = rr_bytes m"
proof (cases "rr_valid m = Inr True")
  case True
  then obtain r where "rr_repeat_info m = Some r"
    by (cases "rr_repeat_info m") (auto simp: rr_valid_def)
  with True show ?thesis
    using rr_bytes_size(1) [of m] rr_bytes_size(2) [of m "[]"]
    by (cases "rr_sfn_offset m"; cases "rr_channel m") (auto simp: rr_pack_def)
qed (auto simp: rr_pack_def bindE_eq_Inr)

lemma rach_octet:
  fixes p :: bool
  assumes "l \<le> 15" "fits 3 e"
  defines "b \<equiv> to_byte (push_bit 7 (b2u p)) OR to_byte (push_bit 3 l) OR to_byte e"
  shows "bit b 7 = p" "drop_bit 3 (ucast b) AND 15 = l" "ucast b AND 7 = e"
proof -
  have l: "fits 4 l" using assms(1) by (simp add: field_simps_bits)
  then have "\<not> bit l 4" "\<not> bit e 7"
    using fits_bit [OF l] fits_bit [OF assms(2)] by simp_all
  then show "bit b 7 = p" by (simp add: b_def flag_simps)
  show "drop_bit 3 (ucast b) AND 15 = l" "ucast b AND 7 = e"
    using l assms(2) by (simp_all add: b_def field_simps_bits)
qed

lemma rr_unpack_pack:
  assumes "rr_pack m = Inr bs"
  shows "rr_unpack (rr_mu m) (bs @ s) = Inr (True, m)"
proof -
  have p: "rr_valid m = Inr True" "rr_sfn_offset m = None" "rr_channel m = None" "bs = rr_bytes m"
    using assms by (simp_all add: rr_pack_iff)
  then obtain r where "rr_repeat_info m = Some r"
    by (cases "rr_repeat_info m") (auto simp: rr_valid_def)
  then obtain mu ch2 al lt ln mn dd rw mx where m: "m = \<lparr>rr_mu = mu, rr_repeat_info = Some r,
     rr_sfn_offset = None, rr_channel = None, rr_channel_2 = ch2, rr_allocation = al,
     rr_max_rach_length_type = lt, rr_max_rach_length = ln, rr_cw_min = mn, rr_dect_delay = dd,
     rr_response_window_length = rw, rr_cw_max = mx\<rparr>"
    using p by (cases m) simp
  obtain rt rp rv where r: "r = \<lparr>rh_repeat_type = rt, rh_repetition = rp, rh_validity = rv\<rparr>"
    by (cases r)
  have v: "rach_repeat_ok r" "opt_ok is_absolute_channel_number_in_range ch2"
    "allocation_valid mu al" "ln \<le> 15" "enum_valid cw_min_ec mn" "rw \<le> 15" "enum_valid cw_max_ec mx"
    using p(1) by (auto simp: m rr_valid_def allocation_valid_def not_less split: if_splits)
  have rf: "fits 8 rp" "fits 8 rv"
    using v(1) by (auto simp: rach_repeat_ok_def r field_simps_bits not_less)
  define c1 where "c1 = to_byte (push_bit 7 (b2u (length_type_bit lt))) OR to_byte (push_bit 3 ln)
    OR to_byte (to_underlying cw_min_ec mn)"
  define c2 where "c2 = to_byte (push_bit 7 (b2u (delay_bit dd))) OR to_byte (push_bit 3 rw)
    OR to_byte (to_underlying cw_max_ec mx)"
  have fe: "fits 3 (to_underlying cw_min_ec mn)" "fits 3 (to_underlying cw_max_ec mx)"
    using v by simp_all
  note c1 = rach_octet [OF v(4) fe(1), of "length_type_bit lt", folded c1_def]
  note c2 = rach_octet [OF v(6) fe(2), of "delay_bit dd", folded c2_def]
  define h where "h = rr_head m"
  have bs: "bs = h # pack_allocation mu al @ [c1, c2, to_byte rp, to_byte rv]
      @ wr_opt ch2 wr_channel"
    unfolding p(4) c1_def c2_def h_def by (simp add: rr_bytes_def rr_head_def m r)
  have h: "\<not> bit h 2" "\<not> bit h (Suc 0)" "bit h 0 = has_value ch2"
    "drop_bit 3 (ucast h) AND 3 = rach_repeat_code (Some r)"
    unfolding h_def rr_head_bits by (simp_all add: m)
  have e: "from_coded_value cw_min_ec (to_underlying cw_min_ec mn) = mn"
    "from_coded_value cw_max_ec (to_underlying cw_max_ec mx) = mx"
    using v(5,7) by simp_all
  have size: "rr_packed_size m = Inr (start_bytes mu + 6 + osz ch2 2)"
    using p(1) by (simp add: rr_packed_size_def rr_size_def m start_bytes_def)
  show ?thesis
    using v(2,3) rf p(1) size
    by (cases rt; cases ch2)
      (simp_all add: rr_unpack_def bs m h flag_simps c1 c2 e Let_def rd_opt_def
         rach_repeat_code_def r ucast_to_byte_fits)
qed

lemma okE_rach_repeat [ok_intros]:
  "i + 2 \<le> length a \<Longrightarrow> (\<And>x y. P \<lparr>rh_repeat_type = t, rh_repetition = x, rh_validity = y\<rparr>) \<Longrightarrow>
   okE F (bindE (rd a i) (\<lambda>x. bindE (rd a (i + 1)) (\<lambda>y.
     Inr \<lparr>rh_repeat_type = t, rh_repetition = x, rh_validity = y\<rparr>))) P"
  by (simp add: rd_ok)

lemma start_bytes_5: "(if mu \<le> 4 then 5 else 6) = start_bytes mu + 4"
  by (simp add: start_bytes_def)

lemma rr_peeked_size:
  assumes "rr_peek mu a = Inr (Inr k)"
  shows "\<not> drop_bit 3 (ucast (a ! 0)) AND 3 > (2 :: u32)"
    and "k = start_bytes mu + 4 + csz (drop_bit 3 (ucast (a ! 0)) AND 3 \<noteq> (0 :: u32)) 2 + csz (bit (a ! 0) 2) 4
      + csz (bit (a ! 0) 1) 4 + csz (bit (a ! 0) 0) 2"
proof -
  have l: "Suc 0 \<le> length a" using assms by (auto simp: rr_peek_def bindE_eq_Inr rd_def Suc_le_eq split: if_splits)
  note p = assms [unfolded rr_peek_def Let_def, unfolded rd_ok [OF l] bindE.simps]
  show r: "\<not> drop_bit 3 (ucast (a ! 0)) AND 3 > (2 :: u32)"
    using p by (simp split: if_splits)
  show "k = start_bytes mu + 4 + csz (drop_bit 3 (ucast (a ! 0)) AND 3 \<noteq> (0 :: u32)) 2 + csz (bit (a ! 0) 2) 4
      + csz (bit (a ! 0) 1) 4 + csz (bit (a ! 0) 0) 2"
    using p r start_bytes_5 [of mu] by (simp add: flag_simps csz_if csz_units)
qed

lemma rr_checks_ok:
  assumes "\<And>x. P x" shows "okE {Assertion_failed, Bad_optional_access} (rr_valid m) P"
proof -
  have "okE {Assertion_failed, Bad_optional_access} (rr_valid m) (\<lambda>_. True)"
    unfolding rr_valid_def by (intro ok_intros) simp_all
  then show ?thesis by (rule okE_any) (rule assms)
qed

lemma rr_unpack_in_bounds:
  assumes "rr_peek mu a = Inr (Inr k)" "k \<le> length a"
  shows "rr_unpack mu a \<noteq> Inl Out_of_bounds_read"
proof -
  note l = rr_peeked_size [OF assms(1)]
  have "okE {Assertion_failed, Bad_optional_access} (rr_unpack mu a) (\<lambda>_. True)"
    unfolding rr_unpack_def Let_def rr_packed_size_def
    apply (intro ok_intros rr_checks_ok)
    using l assms(2) by (simp_all add: flag_simps csz_units)
  then show ?thesis by (rule okE_in_bounds) simp
qed

end
