(* ===== verification/Codec_Properties.thy ===== *)
theory Codec_Properties
  imports Plcf Mac_Header Simple_Messages Reconfiguration_Messages Capability Report_Elements
    Resource_Elements
begin

text \<open>
  What the encodings of section 4 promise to their users, one statement per group of headers or
  messages, each with an instance that is evaluated. The proofs only combine the lemmas of the
  theories of the components and the facts of their interpretations.
\<close>

lemma not_isl_projr: "\<not> isl r \<Longrightarrow> r = Inr (projr r)"
  by (cases r) simp_all

subsection \<open>Physical header field\<close>

lemma in_rdc_configured [simp]:
  "check_rdc_limits (pd_set_configuration d) p n = check_rdc_limits d p n"
  "pd_plcf_20 (pd_set_configuration d) = pd_plcf_20 d"
  "pd_plcf_21 (pd_set_configuration d) = pd_plcf_21 d"
  by (simp_all add: pd_set_configuration_def check_rdc_limits_def)

lemma configured_format [simp]:
  "HeaderFormat_type1 (pd_set_configuration d) = UNDEFINED_NUMERIC_32"
  "HeaderFormat_type2 (pd_set_configuration d) = UNDEFINED_NUMERIC_32"
  by (simp_all add: pd_set_configuration_def)

text \<open>C20: A control field of type 1 that passes the checks of its sender is found by the decoder
of a receiver whose limits it respects, with every field as it was set, whatever follows it in the
buffer.\<close>

theorem plcf_type_1_received:
  assumes "plcf_10_pack p = Inr bs" and "plcf_in_rdc d (Plcf10 p)"
  shows "bindE (decode_and_rdc_check (pd_set_configuration d) 1 (bs @ r)) (\<lambda>d'. get_plcf_base d' 1)
       = Inr (Some (Plcf10 p))"
  using decode_plcf_10 [of p bs "pd_set_configuration d" r] assms
  by (simp add: get_plcf_base_def array_at_def) (simp add: UNDEFINED_NUMERIC_32_def)

definition sample_plcf_10 :: plcf_10 where
  "sample_plcf_10 = \<lparr>HeaderFormat = 0, PacketLengthType = 0, PacketLength_m1 = 3,
     TransmitPower = 7, DFMCS = 2, p10_ShortNetworkID = 0x44, p10_TransmitterIdentity = 0x1234,
     p10_Reserved = 0\<rparr>"

definition sample_pool :: feedback_info_pool where
  "sample_pool = \<lparr>pool_f1 = \<lparr>f1_HARQ_Process_number = 5, f1_Transmission_feedback = TF_ACK,
       f1_Buffer_Size = 100, f1_MCS = 4\<rparr>,
     pool_f2 = \<lparr>f2_Codebook_index = 0, f2_MIMO_feedback = MIMO_not_defined, f2_Buffer_Size = 0,
       f2_MCS = 0\<rparr>,
     pool_f3 = \<lparr>f3_HARQ_Process_number_0 = 0, f3_Transmission_feedback_0 = TF_NACK,
       f3_HARQ_Process_number_1 = 0, f3_Transmission_feedback_1 = TF_NACK, f3_MCS = 0\<rparr>,
     pool_f4 = \<lparr>f4_HARQ_feedback_bitmap = 0, f4_MCS = 0\<rparr>,
     pool_f5 = \<lparr>f5_HARQ_Process_number = 0, f5_Transmission_feedback = TF_NACK,
       f5_MIMO_feedback = MIMO_not_defined, f5_Codebook_index = 0\<rparr>,
     pool_f6 = \<lparr>f6_HARQ_Process_number = 0, f6_Reserved = 0, f6_Buffer_Size = 0, f6_MCS = 0\<rparr>\<rparr>"

definition sample_plcf_20 :: plcf_20 where
  "sample_plcf_20 = \<lparr>HeaderFormat = 0, PacketLengthType = 1, PacketLength_m1 = 2,
     TransmitPower = 9, DFMCS = 4, p20_ShortNetworkID = 0x44, p20_TransmitterIdentity = 0x1234,
     p20_ReceiverIdentity = 0x4321, p20_NumberOfSpatialStreams = 1, p20_DFRedundancyVersion = 2,
     p20_DFNewDataIndication = 1, p20_DFHARQProcessNumber = 5, p20_FeedbackFormat = 1,
     p20_feedback_info_pool = sample_pool\<rparr>"

definition sample_plcf_21 :: plcf_21 where
  "sample_plcf_21 = \<lparr>HeaderFormat = 1, PacketLengthType = 0, PacketLength_m1 = 7,
     TransmitPower = 3, DFMCS = 1, p21_ShortNetworkID = 0x44, p21_TransmitterIdentity = 0x1234,
     p21_ReceiverIdentity = 0x4321, p21_NumberOfSpatialStreams = 0, p21_Reserved = 0,
     p21_FeedbackFormat = 0, p21_feedback_info_pool = sample_pool\<rparr>"

definition sample_decoder :: plcf_decoder where
  "sample_decoder = \<lparr>PacketLength_max = 16, mcs_index_max = 11, N_SS_max = 2,
     HeaderFormat_type1 = UNDEFINED_NUMERIC_32, pd_plcf_10 = sample_plcf_10,
     HeaderFormat_type2 = UNDEFINED_NUMERIC_32, pd_plcf_20 = sample_plcf_20,
     pd_plcf_21 = sample_plcf_21\<rparr>"

theorem plcf_type_1_received_witness:
  "bindE (decode_and_rdc_check (pd_set_configuration sample_decoder) 1 ([3, 0x44, 0x12, 0x34, 0x72] @ [9]))
     (\<lambda>d'. get_plcf_base d' 1) = Inr (Some (Plcf10 sample_plcf_10))"
  by (rule plcf_type_1_received) code_simp+

text \<open>C21: The same for both formats of type 2. The feedback information arrives quantised: the
buffer size is the lower bound of the interval it was put into.\<close>

theorem plcf_type_2_received:
  assumes "plcf_20_pack p = Inr bs" and "plcf_in_rdc d (Plcf20 p)"
    and "plcf_21_pack q = Inr cs" and "plcf_in_rdc d (Plcf21 q)"
  shows "bindE (decode_and_rdc_check (pd_set_configuration d) 2 (bs @ r)) (\<lambda>d'. get_plcf_base d' 2)
       = Inr (Some (Plcf20 (p\<lparr>p20_feedback_info_pool := pool_received (p20_FeedbackFormat p)
           (p20_feedback_info_pool p) (p20_feedback_info_pool (pd_plcf_20 d))\<rparr>)))
    \<and> bindE (decode_and_rdc_check (pd_set_configuration d) 2 (cs @ r)) (\<lambda>d'. get_plcf_base d' 2)
       = Inr (Some (Plcf21 (q\<lparr>p21_feedback_info_pool := pool_received (p21_FeedbackFormat q)
           (p21_feedback_info_pool q) (p21_feedback_info_pool (pd_plcf_21 d))\<rparr>)))"
  using decode_plcf_20 [of p bs "pd_set_configuration d" r]
    decode_plcf_21 [of q cs "pd_set_configuration d" r] assms
  by (simp add: get_plcf_base_def array_at_def) (simp add: UNDEFINED_NUMERIC_32_def)

theorem plcf_type_2_received_witness:
  "bindE (decode_and_rdc_check (pd_set_configuration sample_decoder) 2
      (projr (plcf_20_pack sample_plcf_20) @ [])) (\<lambda>d'. get_plcf_base d' 2)
    = Inr (Some (Plcf20 (sample_plcf_20\<lparr>p20_feedback_info_pool := pool_received 1
        (p20_feedback_info_pool sample_plcf_20) (p20_feedback_info_pool (pd_plcf_20 sample_decoder))\<rparr>)))"
proof -
  have p: "plcf_20_pack sample_plcf_20 = Inr (projr (plcf_20_pack sample_plcf_20))"
    "plcf_21_pack sample_plcf_21 = Inr (projr (plcf_21_pack sample_plcf_21))"
    by (rule not_isl_projr; code_simp)+
  have "plcf_in_rdc sample_decoder (Plcf20 sample_plcf_20)"
    "plcf_in_rdc sample_decoder (Plcf21 sample_plcf_21)" "p20_FeedbackFormat sample_plcf_20 = 1"
    by code_simp+
  with plcf_type_2_received [OF p(1) _ p(2), of sample_decoder "[]"] show ?thesis by simp
qed

text \<open>C22: Once a decoder has announced a control field it keeps announcing a valid one within the
limits of the receiver, whatever is decoded next, and reading it back cannot fail. Decoding stops
abnormally on no received bytes as long as the field of that type has not been found yet.\<close>

theorem plcf_decoder_safe:
  assumes "plcf_decoder_inv d"
  shows "(\<forall>t a d'. decode_and_rdc_check d t a = Inr d' \<longrightarrow> plcf_decoder_inv d')
    \<and> (\<forall>t. t = 1 \<or> t = 2 \<longrightarrow> (\<exists>p. get_plcf_base d t = Inr p
          \<and> (\<forall>q. p = Some q \<longrightarrow> plcf_valid q \<and> plcf_in_rdc d q)))
    \<and> (\<forall>t a. t = 1 \<and> HeaderFormat_type1 d = UNDEFINED_NUMERIC_32
             \<or> t = 2 \<and> HeaderFormat_type2 d = UNDEFINED_NUMERIC_32 \<longrightarrow>
          plcf_type_bytes t \<le> length a \<longrightarrow> (\<exists>d'. decode_and_rdc_check d t a = Inr d'))"
proof (intro conjI allI impI)
  fix t :: u32
  assume "t = 1 \<or> t = 2"
  then show "\<exists>p. get_plcf_base d t = Inr p \<and> (\<forall>q. p = Some q \<longrightarrow> plcf_valid q \<and> plcf_in_rdc d q)"
    using get_plcf_base_inv [OF assms] by auto
qed (use decode_inv [OF assms] decode_total [of _ d] in blast)+

theorem plcf_decoder_safe_witness:
  "\<exists>p. get_plcf_base (sample_decoder\<lparr>HeaderFormat_type2 := 1\<rparr>) 2 = Inr p
     \<and> (\<forall>q. p = Some q \<longrightarrow> plcf_valid q \<and> plcf_in_rdc (sample_decoder\<lparr>HeaderFormat_type2 := 1\<rparr>) q)"
proof -
  have "plcf_decoder_inv (sample_decoder\<lparr>HeaderFormat_type2 := 1\<rparr>)" by code_simp
  from plcf_decoder_safe [OF this] show ?thesis by blast
qed

text \<open>The feedback information of every format is received as it was sent, up to the coded
buffer size; packing it leaves the upper half of the first octet, which belongs to the control
field, alone; and the coded buffer size stands for an interval that contains the true one.\<close>

theorem feedback_received:
  assumes "feedback_pack p fmt a0 = Inr (x, y)"
  shows "feedback_unpack q fmt (ucast x) (ucast y) = (True, pool_received fmt p q)
    \<and> fld 4 4 (ucast x) = fld 4 4 (ucast a0)
    \<and> quantise s \<le> s
    \<and> s \<le> buffer_status_2_buffer_size_upper ! unat (buffer_size_2_buffer_status s)"
  using feedback_roundtrip [OF assms] quantise_bounds [of s] by simp

theorem feedback_received_witness:
  "feedback_unpack sample_pool 1 (ucast (0xab :: u8)) (ucast (0x45 :: u8))
     = (True, pool_received 1 sample_pool sample_pool)"
proof -
  have "feedback_pack sample_pool 1 0xa0 = Inr (0xab, 0x45)" by code_simp
  from feedback_received [OF this] show ?thesis by blast
qed

subsection \<open>MAC headers\<close>

text \<open>A valid common header of any type is packed into as many bytes as announced and read
back as it was, except for the network identity of a beacon, whose least significant byte is always
received as zero.\<close>

theorem mac_common_header_received:
  assumes "mch_valid h"
  shows "\<exists>bs. mch_pack h = Inr bs \<and> length bs = mch_packed_size h
     \<and> mch_unpack h (bs @ r) = Inr (True, mch_received h)"
  by (rule mch_roundtrip [OF assms])

theorem mac_common_header_received_witness:
  "\<exists>bs. mch_pack (MCH_beacon \<lparr>bh_Network_ID_3_lsb = 0x123456, bh_Transmitter_Address = 0x99\<rparr>) = Inr bs
    \<and> length bs = 7
    \<and> mch_unpack (MCH_beacon \<lparr>bh_Network_ID_3_lsb = 0x123456, bh_Transmitter_Address = 0x99\<rparr>) (bs @ [])
      = Inr (True, MCH_beacon \<lparr>bh_Network_ID_3_lsb = 0x123400, bh_Transmitter_Address = 0x99\<rparr>)"
proof -
  let ?h = "MCH_beacon \<lparr>bh_Network_ID_3_lsb = 0x123456, bh_Transmitter_Address = 0x99\<rparr>"
  have "mch_valid ?h" "mch_packed_size ?h = 7"
    "mch_received ?h = MCH_beacon \<lparr>bh_Network_ID_3_lsb = 0x123400, bh_Transmitter_Address = 0x99\<rparr>"
    by code_simp+
  with mac_common_header_received [of ?h "[]"] show ?thesis by simp
qed

subsection \<open>Beacon messages\<close>

text \<open>C25: A valid network or cluster beacon message is packed into as many bytes as announced,
its size can be read from its first bytes, and it is read back as it was, except that the additional
channels of a network beacon move up when one before them is missing: only their number is sent. What is
received as a beacon, however damaged, is unpacked without a fault once the announced number of bytes is
there.\<close>

theorem beacon_messages_received:
  assumes "nb_valid m" "cb_valid c"
  shows "(\<exists>bs. nb_pack m = Inr bs \<and> length bs = nb_packed_size m
        \<and> nb_peek (bs @ r) = Inr (Inr (length bs)) \<and> nb_unpack (bs @ r) = Inr (True, nb_received m))
    \<and> (nb_received m = m \<longleftrightarrow> nb_channels_in_order m)
    \<and> (\<exists>bs. cb_pack c = Inr bs \<and> length bs = cb_packed_size c
        \<and> cb_peek (cb_mu c) (bs @ r) = Inr (Inr (length bs))
        \<and> cb_unpack (cb_mu c) (bs @ r) = Inr (True, c))
    \<and> (\<forall>a k. nb_peek a = Inr (Inr k) \<and> k \<le> length a \<longrightarrow> (\<exists>v m'. nb_unpack a = Inr (v, m')))
    \<and> (\<forall>a k mu. cb_peek mu a = Inr (Inr k) \<and> k \<le> length a \<longrightarrow> (\<exists>v c'. cb_unpack mu a = Inr (v, c')))"
proof (intro conjI)
  show "\<exists>bs. nb_pack m = Inr bs \<and> length bs = nb_packed_size m
      \<and> nb_peek (bs @ r) = Inr (Inr (length bs)) \<and> nb_unpack (bs @ r) = Inr (True, nb_received m)"
    using nb_pack_ok [OF assms(1)] nb_unpack_received [OF assms(1)] by metis
  show "nb_received m = m \<longleftrightarrow> nb_channels_in_order m" by (rule nb_received(4))
  show "\<exists>bs. cb_pack c = Inr bs \<and> length bs = cb_packed_size c
      \<and> cb_peek (cb_mu c) (bs @ r) = Inr (Inr (length bs)) \<and> cb_unpack (cb_mu c) (bs @ r) = Inr (True, c)"
    using cb.roundtrip [of c "cb_mu c" r] cb.peek_size [of c "cb_mu c" _ r] assms(2) by metis
qed (use nb_peek_unpack cb_peek_unpack in blast)+

definition sample_network_beacon :: network_beacon where
  "sample_network_beacon = \<lparr>nb_clusters_max_tx_power = Some p_19_dBm, nb_has_power_constraints = True,
     nb_current_cluster_channel = None, nb_channel_0 = None, nb_channel_1 = Some 1657,
     nb_channel_2 = None, nb_network_beacon_period = NBP_500_ms, nb_cluster_beacon_period = CBP_100_ms,
     nb_next_cluster_channel = 1659, nb_time_to_next = 100000\<rparr>"

definition sample_cluster_beacon :: cluster_beacon where
  "sample_cluster_beacon = \<lparr>cb_mu = 8, cb_system_frame_number = 255, cb_clusters_max_tx_power = None,
     cb_has_power_constraints = False, cb_frame_offset = Some 300, cb_next_cluster_channel = Some 1661,
     cb_time_to_next = None, cb_network_beacon_period = NBP_100_ms, cb_cluster_beacon_period = CBP_10_ms,
     cb_count_to_trigger = CTT_3_times, cb_rel_quality = QT_3_dB, cb_min_quality = QT_9_dB\<rparr>"

theorem beacon_messages_received_witness:
  "(\<exists>bs. nb_pack sample_network_beacon = Inr bs \<and> nb_unpack (bs @ [7]) = Inr (True,
        sample_network_beacon\<lparr>nb_channel_0 := Some 1657, nb_channel_1 := None\<rparr>))
   \<and> (\<exists>bs. cb_pack sample_cluster_beacon = Inr bs
      \<and> cb_unpack (cb_mu sample_cluster_beacon) (bs @ [7]) = Inr (True, sample_cluster_beacon))"
proof -
  have "nb_valid sample_network_beacon" "cb_valid sample_cluster_beacon" by code_simp+
  moreover have "nb_received sample_network_beacon =
      sample_network_beacon\<lparr>nb_channel_0 := Some 1657, nb_channel_1 := None\<rparr>"
    by (simp add: nb_received_def sample_network_beacon_def)
  ultimately show ?thesis
    using beacon_messages_received [of sample_network_beacon sample_cluster_beacon "[7]"] by metis
qed

subsection \<open>Messages and information elements of fixed size\<close>

text \<open>C26: Association release, route info, MAC security info, radio device status and the two
extensions are packed into their fixed number of bytes and read back as they were, and the same
number of bytes with any contents is unpacked without a fault.\<close>

theorem fixed_size_elements_received:
  assumes "ar_valid a" "ri_valid i" "si_valid s" "rs_valid d" "pt_valid p" "ta_valid t"
  shows "(\<exists>bs. ar_pack a = Inr bs \<and> length bs = 1 \<and> ar_unpack (bs @ r) = Inr (True, a))
    \<and> (\<exists>bs. ri_pack i = Inr bs \<and> length bs = 6 \<and> ri_unpack (bs @ r) = Inr (True, i))
    \<and> (\<exists>bs. si_pack s = Inr bs \<and> length bs = 5 \<and> si_unpack (bs @ r) = Inr (True, s))
    \<and> (\<exists>bs. rs_pack d = Inr bs \<and> length bs = 1 \<and> rs_unpack (bs @ r) = Inr (True, d))
    \<and> (\<exists>bs. pt_pack p = Inr bs \<and> length bs = 1 \<and> pt_unpack (bs @ r) = Inr (True, p))
    \<and> (\<exists>bs. ta_pack t = Inr bs \<and> length bs = 11 \<and> ta_unpack (bs @ r) = Inr (True, t))
    \<and> (\<forall>b. (1 \<le> length b \<longrightarrow> ar_unpack b \<noteq> Inl e \<and> rs_unpack b \<noteq> Inl e \<and> pt_unpack b \<noteq> Inl e)
        \<and> (5 \<le> length b \<longrightarrow> si_unpack b \<noteq> Inl e) \<and> (6 \<le> length b \<longrightarrow> ri_unpack b \<noteq> Inl e)
        \<and> (11 \<le> length b \<longrightarrow> ta_unpack b \<noteq> Inl e))"
  using ar.roundtrip [of a r] ri.roundtrip [of i r] si.roundtrip [of s r] rs.roundtrip [of d r]
    pt.roundtrip [of p r] ta.roundtrip [of t r] assms
    ar.unpack_no_fault ri.unpack_no_fault si.unpack_no_fault rs.unpack_no_fault pt.unpack_no_fault
    ta.unpack_no_fault
  by (simp add: ar.size_fixed ri.size_fixed si.size_fixed rs.size_fixed pt.size_fixed ta.size_fixed)

theorem fixed_size_elements_received_witness:
  "\<exists>bs. ta_pack \<lparr>ta_time_type = TAI, ta_N_frames_until_full_sec = 17, ta_full_sec = 1700000000,
       ta_tai_minus_utc_seconds = 37\<rparr> = Inr bs \<and> length bs = 11
    \<and> ta_unpack (bs @ []) = Inr (True, \<lparr>ta_time_type = TAI, ta_N_frames_until_full_sec = 17,
       ta_full_sec = 1700000000, ta_tai_minus_utc_seconds = 37\<rparr>)"
proof -
  have "ar_valid \<lparr>ar_release_cause = mobility\<rparr>"
    "ri_valid \<lparr>ri_sink_address = 1, ri_route_cost = 2, ri_application_sequence_number = 3\<rparr>"
    "si_valid \<lparr>si_key_index = 1, si_security_iv_type = one_time_hpc, si_hpc = 77\<rparr>"
    "rs_valid \<lparr>rs_status_flag = memory_full, rs_duration = SD_400_ms\<rparr>"
    "pt_valid \<lparr>pt_power_target_dBm_coded = 50\<rparr>"
    "ta_valid \<lparr>ta_time_type = TAI, ta_N_frames_until_full_sec = 17, ta_full_sec = 1700000000,
       ta_tai_minus_utc_seconds = 37\<rparr>"
    by code_simp+
  from fixed_size_elements_received [OF this, of "[]"] show ?thesis by blast
qed

subsection \<open>Association and reconfiguration\<close>

text \<open>C27: A valid association request with a set of flow identities is packed into as many bytes
as announced and peeked, and it is received as it was sent except for the network beacon period of
an FT configuration, which the receiver always reads as 50 ms.\<close>

theorem association_request_received:
  assumes "aq_valid m" "set_wf flow_key (aq_flow_ids m)"
  shows "\<exists>bs. aq_pack m = Inr bs \<and> length bs = aq_size m \<and> aq_peek (bs @ r) = Inr (Inr (length bs))
     \<and> aq_unpack (bs @ r) = Inr (True, aq_received m)"
  using aq_pack_ok [OF assms] aq_unpack_pack [OF assms] by metis

definition sample_harq :: harq_configuration where
  "sample_harq = \<lparr>N_harq_processes = 3, max_harq_retransmission_delay = enumerators harq_delay_ec ! 4\<rparr>"

definition sample_request :: association_request where
  "sample_request = \<lparr>aq_setup_cause = enumerators setup_cause_ec ! 1,
     aq_flow_ids = [higher_layer_signalling_flow_1, user_plane_data_flow_1],
     aq_has_power_constraints = False,
     aq_ft_configuration = Some \<lparr>ft_network_beacon_period = NBP_1000_ms,
       ft_cluster_beacon_period = CBP_100_ms, ft_next_cluster_channel = 1661, ft_time_to_next = 12345\<rparr>,
     aq_current_cluster_channel = Some 1657, aq_harq_tx = sample_harq, aq_harq_rx = sample_harq\<rparr>"

theorem association_request_received_witness:
  "\<exists>bs. aq_pack sample_request = Inr bs \<and> length bs = 15
     \<and> (case aq_unpack (bs @ []) of Inr (v, m) \<Rightarrow> v \<and> map_option ft_network_beacon_period
           (aq_ft_configuration m) = Some NBP_50_ms | Inl e \<Rightarrow> False)"
proof -
  have v: "aq_valid sample_request" "set_wf flow_key (aq_flow_ids sample_request)"
    and n: "aq_size sample_request = 15"
    "map_option ft_network_beacon_period (aq_ft_configuration (aq_received sample_request))
       = Some NBP_50_ms"
    by code_simp+
  from association_request_received [OF v, of "[]"] n show ?thesis by auto
qed

text \<open>C28: No association is ever accepted over the air. The test for the acceptance bit is always
true, so whatever bytes arrive are unpacked as a rejection, and only responses of the two bytes of a
rejection can be packed: rejections, whose cause and time are received, and acceptances with a single flow
identity and nothing else, which are received as a rejection that has the code of the flow identity as
its time.\<close>

theorem association_response_rejects:
  shows "(\<forall>a v m. ap_unpack a = Inr (v, m) \<longrightarrow> has_value (ap_reject_info m))
    \<and> (\<forall>m. (\<exists>bs. ap_pack m = Inr bs) \<longleftrightarrow> ap_valid m \<and> (has_value (ap_reject_info m)
          \<or> (\<exists>f. ap_flow_ids m = [f]) \<and> ap_harq_configuration m = None \<and> ap_group_info m = None))
    \<and> (\<forall>m bs s. ap_pack m = Inr bs \<longrightarrow> ap_unpack (bs @ s) = Inr (True, ap_zero\<lparr>ap_reject_info := Some
          (case ap_reject_info m of Some r \<Rightarrow> r
           | None \<Rightarrow> \<lparr>rj_reject_cause = from_coded_value reject_cause_ec 0,
               rj_reject_time = from_coded_value reject_time_ec (flow_key (hd (ap_flow_ids m)))\<rparr>)\<rparr>))"
  unfolding ap_received_def [symmetric]
  by (intro conjI allI impI ap_packable_iff ap_pack_received ap_unpack_reject)

theorem association_response_rejects_witness:
  "ap_unpack (projr (ap_pack (ap_zero\<lparr>ap_nof_flows_accepted := as_included,
      ap_flow_ids := [user_plane_data_flow_1]\<rparr>)) @ [9]) =
    Inr (True, ap_zero\<lparr>ap_reject_info := Some \<lparr>rj_reject_cause = from_coded_value reject_cause_ec 0,
      rj_reject_time = from_coded_value reject_time_ec 3\<rparr>\<rparr>)"
proof -
  let ?m = "ap_zero\<lparr>ap_nof_flows_accepted := as_included, ap_flow_ids := [user_plane_data_flow_1]\<rparr>"
  have "ap_pack ?m = Inr (projr (ap_pack ?m))" by (rule not_isl_projr) code_simp
  moreover have "ap_reject_info ?m = None" "flow_key (hd (ap_flow_ids ?m)) = 3" by code_simp+
  ultimately show ?thesis using association_response_rejects by force
qed

definition sample_reconfiguration :: reconfiguration_request where
  "sample_reconfiguration = \<lparr>rq_harq_configuration_tx = Some sample_harq, rq_harq_configuration_rx = Some sample_harq,
      rq_rd_capability_ie_follows = True,
      rq_flows = [\<lparr>fl_id = user_plane_data_flow_2, fl_is_released = True\<rparr>],
      rq_radio_resource_change = enumerators radio_resource_ec ! 1\<rparr>"

text \<open>C29: Reconfiguration requests and responses that carry both HARQ configurations are packed,
peeked and read back as they were, except for responses that hold flows without being of the kind
\<open>as_included\<close>: their flows are written but not counted, and packing them fails an assertion. A
message that lacks one of the HARQ configurations, although the fields are optional, ends in
\<open>std::bad_optional_access\<close> when it is packed, unless the first of them is invalid.\<close>

theorem reconfiguration_received:
  assumes "set_wf (\<lambda>f. flow_order f) (rq_flows m)" "set_wf (\<lambda>f. flow_order f) (rp_flows n)"
  shows "(rq_valid m = Inr True \<longrightarrow>
        (\<exists>bs. rq_pack m = Inr bs \<and> length bs = rq_size m \<and> rq_peek (bs @ r) = Inr (Inr (length bs))
          \<and> rq_unpack (bs @ r) = Inr (True, m)))
    \<and> (rp_valid n = Inr True \<longrightarrow> rp_nof_flows_accepted n = as_included \<or> rp_flows n = [] \<longrightarrow>
        (\<exists>bs. rp_pack n = Inr bs \<and> length bs = rp_size n \<and> rp_peek (bs @ r) = Inr (Inr (length bs))
          \<and> rp_unpack (bs @ r) = Inr (True, n)))
    \<and> (rp_valid n = Inr True \<longrightarrow> rp_nof_flows_accepted n \<noteq> as_included \<and> rp_flows n \<noteq> [] \<longrightarrow>
        rp_pack n = Inl Assertion_failed)
    \<and> ((rq_harq_configuration_tx m = None \<or> rq_harq_configuration_rx m = None) \<longrightarrow>
        opt_ok harq_ok (rq_harq_configuration_tx m) \<longrightarrow> rq_pack m = Inl Bad_optional_access)
    \<and> ((rp_harq_configuration_tx n = None \<or> rp_harq_configuration_rx n = None) \<longrightarrow>
        opt_ok harq_ok (rp_harq_configuration_tx n) \<longrightarrow> rp_pack n = Inl Bad_optional_access)"
proof (intro conjI impI)
  show "\<exists>bs. rq_pack m = Inr bs \<and> length bs = rq_size m \<and> rq_peek (bs @ r) = Inr (Inr (length bs))
      \<and> rq_unpack (bs @ r) = Inr (True, m)" if "rq_valid m = Inr True"
    using rq_pack_ok [OF that assms(1)] by auto
  show "\<exists>bs. rp_pack n = Inr bs \<and> length bs = rp_size n \<and> rp_peek (bs @ r) = Inr (Inr (length bs))
      \<and> rp_unpack (bs @ r) = Inr (True, n)"
    if "rp_valid n = Inr True" "rp_nof_flows_accepted n = as_included \<or> rp_flows n = []"
    using rp_pack_ok [of n] that assms(2) by (auto simp: rp_wf_def)
qed (use rp_pack_uncounted rq_pack_missing rp_pack_missing in blast)+

theorem reconfiguration_received_witness:
  "(\<exists>bs. rq_pack sample_reconfiguration = Inr bs \<and> length bs = 4
      \<and> rq_unpack (bs @ [7]) = Inr (True, sample_reconfiguration))
    \<and> rp_pack (rp_zero\<lparr>rp_harq_configuration_tx := Some sample_harq\<rparr>) = Inl Bad_optional_access"
proof -
  let ?n = "rp_zero\<lparr>rp_harq_configuration_tx := Some sample_harq\<rparr>"
  have "rq_valid sample_reconfiguration = Inr True" "rq_size sample_reconfiguration = 4"
    "set_wf (\<lambda>f. flow_order f) (rq_flows sample_reconfiguration)" "set_wf (\<lambda>f. flow_order f) (rp_flows ?n)"
    "rp_harq_configuration_rx ?n = None" "opt_ok harq_ok (rp_harq_configuration_tx ?n)"
    by code_simp+
  with reconfiguration_received [of sample_reconfiguration ?n "[7]"] show ?thesis by auto
qed

subsection \<open>Capabilities, reports and resources\<close>

text \<open>C30: An RD capability element with up to seven additional numerologies is packed, peeked and
read back as it was, the loop over the numerologies ends, and no received bytes make the loop read
outside of the announced size.\<close>

theorem rd_capability_received:
  assumes "rc_valid m"
  shows "(\<exists>bs. rc_pack m = Inr bs \<and> length bs = 7 + 5 * length (rc_additional_phy_capabilities m)
        \<and> rc_peek (bs @ r) = Inr (Inr (length bs)) \<and> rc_unpack (bs @ r) = Inr (True, m))
    \<and> (\<forall>a k. rc_peek a = Inr (Inr k) \<and> k \<le> length a \<longrightarrow> rc_unpack a \<noteq> Inl Out_of_bounds_read)"
  using rc_pack_ok [OF assms] rc_unpack_in_bounds by (auto simp: rc_size_def)

definition sample_phy :: phy_capability where
  "sample_phy = \<lparr>pc_rd_power_class = power_class_2, pc_max_nss_for_rx = SS_2,
     pc_rx_for_tx_diversity = TA_2, pc_rx_gain_index = 3, pc_max_mcs = MCS_7,
     pc_soft_buffer_size = SB_64000, pc_nof_harq_processes = HP_4, pc_harq_feedback_delay = FD_2\<rparr>"

definition sample_capability :: rd_capability where
  "sample_capability = \<lparr>rc_additional_phy_capabilities =
       [\<lparr>rdc_mu = W_54_kHz, rdc_beta = DFT_256, pa_capability = sample_phy\<rparr>],
     rc_release = release_2, rc_operating_modes = ft_operation, rc_supports_mesh = False,
     rc_supports_scheduled = True, rc_mac_security = MS_mode_1, rc_dlc_service_type = DLC_type_0,
     rc_phy_capability = sample_phy\<rparr>"

theorem rd_capability_received_witness:
  "\<exists>bs. rc_pack sample_capability = Inr bs \<and> length bs = 12
     \<and> rc_unpack (bs @ [1]) = Inr (True, sample_capability)"
proof -
  have "rc_valid sample_capability" "length (rc_additional_phy_capabilities sample_capability) = 1"
    by code_simp+
  with rd_capability_received [of sample_capability "[1]"] show ?thesis by auto
qed

text \<open>C31: Load info elements can be packed exactly when they carry neither of two of their three
optional fields, measurement reports exactly when they carry no transmission count, and random access
resources exactly when they carry neither an SFN offset nor a channel, because the size that is peeked
after packing counts these fields wrongly. What is packed is read back as it was.\<close>

theorem optional_field_miscounts:
  shows "((\<exists>bs. li_pack l = Inr bs) \<longleftrightarrow> li_valid l \<and> li_rd_pt_load l = None \<and> li_rach_load l = None)
    \<and> ((\<exists>bs. mr_pack m = Inr bs) \<longleftrightarrow> mr_valid m \<and> mr_tx_count m = None)
    \<and> ((\<exists>bs. rr_pack x = Inr bs) \<longleftrightarrow>
         rr_valid x = Inr True \<and> rr_sfn_offset x = None \<and> rr_channel x = None)
    \<and> (li_pack l = Inr b1 \<longrightarrow> li_unpack (b1 @ r) = Inr (True, l))
    \<and> (mr_pack m = Inr b2 \<longrightarrow> mr_unpack (b2 @ r) = Inr (True, m))
    \<and> (rr_pack x = Inr b3 \<longrightarrow> rr_unpack (rr_mu x) (b3 @ r) = Inr (True, x))"
  using li_unpack_pack [of l b1 r] mr_unpack_pack [of m b2 r] rr_unpack_pack [of x b3 r]
  by (simp add: li_pack_iff mr_pack_iff rr_pack_iff)

theorem optional_field_miscounts_witness:
  "\<not> (\<exists>bs. mr_pack \<lparr>mr_snr = Some 1, mr_rssi_2 = None, mr_rssi_1 = None, mr_tx_count = Some 4,
      mr_rach = dl_scheduled_resources\<rparr> = Inr bs)
   \<and> mr_unpack ([0x10, 1] @ []) = Inr (True, \<lparr>mr_snr = Some 1, mr_rssi_2 = None, mr_rssi_1 = None,
      mr_tx_count = None, mr_rach = dl_scheduled_resources\<rparr>)"
proof -
  let ?m = "\<lparr>mr_snr = Some 1, mr_rssi_2 = None, mr_rssi_1 = None, mr_tx_count = None,
      mr_rach = dl_scheduled_resources\<rparr> :: measurement_report"
  have "mr_pack ?m = Inr [0x10, 1]" by code_simp
  with optional_field_miscounts [of _ ?m _ _ "[]" "[0x10, 1]"]
    optional_field_miscounts [of _ "?m\<lparr>mr_tx_count := Some 4\<rparr>"]
  show ?thesis by auto
qed

text \<open>C32: A resource allocation can be packed exactly when it is valid, for every subcarrier
scaling: as a release of all resources, which takes one byte, or with both directions and a repetition,
which is read back as it was. An allocation for only one of the directions, which the element has a code
for, or without a repetition, which is optional, cannot be packed.\<close>

theorem resource_allocation_received:
  shows "((\<exists>bs. ra_pack m = Inr bs) \<longleftrightarrow> ra_valid m = Inr True)
    \<and> (ra_allocation_dl m = None \<and> ra_allocation_ul m = None \<longrightarrow>
        ra_pack m = Inr [0] \<and> ra_unpack (ra_mu m) ([0] @ s) = Inr (True, ra_zero (ra_mu m)))
    \<and> (ra_pack m = Inr bs \<and> ra_allocation_dl m \<noteq> None \<longrightarrow> ra_unpack (ra_mu m) (bs @ s) = Inr (True, m))
    \<and> ((ra_allocation_dl m = None) \<noteq> (ra_allocation_ul m = None) \<longrightarrow> (\<exists>e. ra_pack m = Inl e))
    \<and> (ra_allocation_dl m \<noteq> None \<and> ra_repeat_info m = None \<longrightarrow> (\<exists>e. ra_pack m = Inl e))"
proof -
  have fails: "\<exists>e. ra_pack m = Inl e" if "\<And>bs. ra_pack m \<noteq> Inr bs" using that by (cases "ra_pack m") auto
  show ?thesis
  proof (intro conjI impI)
    show "(\<exists>bs. ra_pack m = Inr bs) \<longleftrightarrow> ra_valid m = Inr True" by (rule ra_packable_iff)
    show "ra_unpack (ra_mu m) (bs @ s) = Inr (True, m)" if "ra_pack m = Inr bs \<and> ra_allocation_dl m \<noteq> None"
      using that ra_pack_valid ra_unpack_pack by blast
    show "\<exists>e. ra_pack m = Inl e" if "(ra_allocation_dl m = None) \<noteq> (ra_allocation_ul m = None)"
      using ra_pack_incomplete(2,3) that by (intro fails) blast
    show "\<exists>e. ra_pack m = Inl e" if "ra_allocation_dl m \<noteq> None \<and> ra_repeat_info m = None"
      using ra_pack_incomplete(4) that by (intro fails) blast
  qed (use ra_pack_release ra_release_roundtrip in blast)+
qed

definition sample_allocation :: resource_allocation where
  "sample_allocation =
     (let al = \<lparr>al_start_subslot = 300, al_length_type = length_type_of True, al_length = 5\<rparr>
      in \<lparr>ra_mu = 8, ra_allocation_dl = Some al, ra_allocation_ul = Some al, ra_is_additional = True,
          ra_short_rd_id = Some 0x1234,
          ra_repeat_info = Some \<lparr>rep_type = in_following_frames, rep_allow_specific = True,
            rep_repetition = 2, rep_validity = 20\<rparr>,
          ra_sfn_offset = Some 9, ra_channel = Some 1657, ra_failure = None\<rparr>)"

theorem resource_allocation_received_witness:
  "ra_unpack 8 (projr (ra_pack sample_allocation) @ [5]) = Inr (True, sample_allocation)
    \<and> (\<exists>e. ra_pack (sample_allocation\<lparr>ra_allocation_dl := None\<rparr>) = Inl e)"
proof -
  have "ra_pack sample_allocation = Inr (projr (ra_pack sample_allocation))"
    by (rule not_isl_projr) code_simp
  moreover have "ra_mu sample_allocation = 8" "ra_allocation_dl sample_allocation \<noteq> None"
    "ra_allocation_ul sample_allocation \<noteq> None"
    by code_simp+
  ultimately show ?thesis
    using resource_allocation_received [of sample_allocation "[5]"]
      resource_allocation_received [of "sample_allocation\<lparr>ra_allocation_dl := None\<rparr>"] by auto
qed

text \<open>C33: A neighbouring element can never be packed, and a received one is unpacked without
leaving the announced bytes; a broadcast indication is never received with MCS or four-antenna MIMO
feedback, because the feedback type is read from the wrong bits, and a reserved indication type is
peeked as an element of \<open>2 ^ 32 - 1\<close> bytes.\<close>

theorem neighbouring_and_broadcast_errors:
  shows "(\<exists>e. ne_pack m = Inl e)
    \<and> (ne_peek a = Inr (Inr k) \<and> k \<le> length a \<longrightarrow> ne_unpack a \<noteq> Inl Out_of_bounds_read)
    \<and> (bi_unpack a = Inr (v, b) \<longrightarrow> bi_feedback b \<noteq> FT_mcs \<and> bi_feedback b \<noteq> mimo_4_antennas)
    \<and> (1 \<le> length a \<and> 64 \<le> a ! 0 \<longrightarrow> bi_peek a = Inr (Inr 4294967295))"
  using ne_pack_fails [of m] ne_unpack_in_bounds [of a k] bi_feedback_received [of a v b]
    bi_peek_reserved [of a] by blast

theorem neighbouring_and_broadcast_errors_witness: "bi_peek [0xe0] = Inr (Inr 4294967295)"
proof -
  have "64 \<le> ([0xe0] :: bytes) ! 0" by code_simp
  with neighbouring_and_broadcast_errors [of _ "[0xe0]"] show ?thesis by simp
qed

text \<open>Paging indications and group assignments are read back as they were.\<close>

theorem paging_and_group_assignment_received:
  assumes "bi_valid m" "bi_indication_type m = paging" "bi_ack_nack m = BI_TF_not_defined"
    "bi_feedback m = FT_not_defined" "bi_mcs_mimo_feedback m = Monostate" "ga_valid g"
  shows "(\<exists>bs. bi_pack m = Inr bs \<and> length bs = bi_size m \<and> bi_unpack (bs @ r) = Inr (True, m))
    \<and> (\<exists>bs. ga_pack g = Inr bs \<and> length bs = ga_size g
         \<and> ga_unpack (ga_size g) (bs @ r) = Inr (True, g))"
  using bi_paging_roundtrip [OF assms(1-5)] ga_pack_ok [OF assms(6)] by metis

theorem paging_and_group_assignment_received_witness:
  "\<exists>bs. bi_pack \<lparr>bi_indication_type = paging, bi_id_type = long_rd_id, bi_ack_nack = BI_TF_not_defined,
      bi_feedback = FT_not_defined, bi_resource_allocation_ie_follows = True, bi_rd_id = 0x12345678,
      bi_mcs_mimo_feedback = Monostate\<rparr> = Inr bs \<and> length bs = 5"
proof -
  let ?m = "\<lparr>bi_indication_type = paging, bi_id_type = long_rd_id, bi_ack_nack = BI_TF_not_defined,
      bi_feedback = FT_not_defined, bi_resource_allocation_ie_follows = True, bi_rd_id = 0x12345678,
      bi_mcs_mimo_feedback = Monostate\<rparr>"
  let ?g = "\<lparr>ga_single = single_assignment, ga_group_id = 3,
      ga_resource_assignments = [\<lparr>as_direct = hd (enumerators direction_ec), as_resource_tag = 7\<rparr>]\<rparr>"
  have "bi_valid ?m" "ga_valid ?g" "bi_size ?m = 5" by code_simp+
  with paging_and_group_assignment_received [of ?m ?g "[]"] show ?thesis by auto
qed

end
