(* ===== verification/Mac_Mux_Header.thy ===== *)
theory Mac_Mux_Header
  imports Packing Enumeration
begin

text \<open>
  \<open>sections_part4/mac_pdu/mac_multiplexing_header.cpp\<close>: the header in front of every MAC
  message or information element (MMIE). The union \<open>ie_type_t\<close> of three enumerations is modelled
  by its storage, the 32-bit code. \<open>tinfo\<close>, the type information that the receiver stores, is a
  value of \<open>mmie_type\<close>.

  The macros of \<open>mmie_activate.hpp\<close> select at compile time which MMIEs a receiver knows. They
  are the parameter \<open>act\<close>; \<open>shipped\<close> is the selection of the repository.
\<close>

subsection \<open>Types\<close>

datatype mac_ext =
  ME_not_defined | No_Length_Field | Length_Field_8_Bit | Length_Field_16_Bit | Length_Field_1_Bit
| ME_upper

definition mac_ext_ec :: "mac_ext coded" where
  "mac_ext_ec = \<lparr>base = 0, has_lower = False, enumerators = [No_Length_Field, Length_Field_8_Bit,
     Length_Field_16_Bit, Length_Field_1_Bit, ME_upper], not_defined = ME_not_defined\<rparr>"

interpretation mac_ext_coding: coded_enum mac_ext_ec
proof
  show "e = not_defined mac_ext_ec \<or> e \<in> set (enumerators mac_ext_ec)" for e
    by (cases e) (simp_all add: mac_ext_ec_def)
qed (simp_all add: mac_ext_ec_def upper_value_def)

datatype ie_type_00_01_10 =
  IE_not_defined | Padding_IE | Higher_Layer_Signalling_Flow_1 | Higher_Layer_Signalling_Flow_2
| User_Plane_Data_Flow_1 | User_Plane_Data_Flow_2 | User_Plane_Data_Flow_3 | User_Plane_Data_Flow_4
| Network_Beacon_Message | Cluster_Beacon_Message | Association_Request_Message
| Association_Response_Message | Association_Release_Message | Reconfiguration_Request_Message
| Reconfiguration_Response_Message | Additional_MAC_Messages | Security_Info_IE | Route_Info_IE
| Resource_Allocation_IE | Random_Access_Resource_IE | RD_Capability_IE | Neighbouring_IE
| Broadcast_Indication_IE | Group_Assignment_IE | Load_Info_IE | Measurement_Report_IE
| IE_Escape | IE_Type_Extension | Power_Target_IE | Time_Announce_IE

definition ie_00_01_10_codes :: "(ie_type_00_01_10 \<times> u32) list" where
  "ie_00_01_10_codes =
    [(Padding_IE, 0), (Higher_Layer_Signalling_Flow_1, 1), (Higher_Layer_Signalling_Flow_2, 2),
     (User_Plane_Data_Flow_1, 3), (User_Plane_Data_Flow_2, 4), (User_Plane_Data_Flow_3, 5),
     (User_Plane_Data_Flow_4, 6), (Network_Beacon_Message, 8), (Cluster_Beacon_Message, 9),
     (Association_Request_Message, 10), (Association_Response_Message, 11),
     (Association_Release_Message, 12), (Reconfiguration_Request_Message, 13),
     (Reconfiguration_Response_Message, 14), (Additional_MAC_Messages, 15), (Security_Info_IE, 16),
     (Route_Info_IE, 17), (Resource_Allocation_IE, 18), (Random_Access_Resource_IE, 19),
     (RD_Capability_IE, 20), (Neighbouring_IE, 21), (Broadcast_Indication_IE, 22),
     (Group_Assignment_IE, 23), (Load_Info_IE, 24), (Measurement_Report_IE, 25),
     (IE_Escape, 62), (IE_Type_Extension, 63), (Power_Target_IE, 29), (Time_Announce_IE, 30)]"

datatype ie_type_11_len_0 =
  IE0_not_defined | IE0_Padding_IE | Configuration_Request_IE | MAC_Security_Info_IE | IE0_Escape

definition ie_11_len_0_codes :: "(ie_type_11_len_0 \<times> u32) list" where
  "ie_11_len_0_codes = [(IE0_Padding_IE, 0), (Configuration_Request_IE, 1),
     (MAC_Security_Info_IE, 16), (IE0_Escape, 30)]"

datatype ie_type_11_len_1 =
  IE1_not_defined | IE1_Padding_IE | Radio_Device_Status_IE | IE1_Escape

definition ie_11_len_1_codes :: "(ie_type_11_len_1 \<times> u32) list" where
  "ie_11_len_1_codes = [(IE1_Padding_IE, 0), (Radio_Device_Status_IE, 1), (IE1_Escape, 30)]"

text \<open>\<open>std::to_underlying\<close>, the three switches of \<open>from_coded_value\<close>, and reading a
member of the union.\<close>

definition ie_code :: "('e \<times> u32) list \<Rightarrow> 'e \<Rightarrow> u32" where
  "ie_code cs e = (case map_of cs e of Some c \<Rightarrow> c | None \<Rightarrow> UNDEFINED_NUMERIC_32)"

definition ie_from_code :: "('e \<times> u32) list \<Rightarrow> 'e \<Rightarrow> u32 \<Rightarrow> 'e" where
  "ie_from_code cs nd v = (case map_of (map prod.swap cs) v of Some e \<Rightarrow> e | None \<Rightarrow> nd)"

abbreviation ie_A_from_code :: "u32 \<Rightarrow> ie_type_00_01_10" where
  "ie_A_from_code \<equiv> ie_from_code ie_00_01_10_codes IE_not_defined"

abbreviation ie_0_from_code :: "u32 \<Rightarrow> ie_type_11_len_0" where
  "ie_0_from_code \<equiv> ie_from_code ie_11_len_0_codes IE0_not_defined"

abbreviation ie_1_from_code :: "u32 \<Rightarrow> ie_type_11_len_1" where
  "ie_1_from_code \<equiv> ie_from_code ie_11_len_1_codes IE1_not_defined"

text \<open>The classes derived from \<open>mmie_t\<close>.\<close>

datatype mmie_type =
  T_padding | T_higher_layer_signalling | T_user_plane_data | T_network_beacon | T_cluster_beacon
| T_association_request | T_association_response | T_association_release
| T_reconfiguration_request | T_reconfiguration_response | T_mac_security_info | T_route_info
| T_resource_allocation | T_random_access_resource | T_rd_capability | T_neighbouring
| T_broadcast_indication | T_group_assignment | T_load_info | T_measurement_report
| T_configuration_request | T_radio_device_status | T_power_target | T_time_announce

definition shipped :: "mmie_type \<Rightarrow> bool" where
  "shipped t \<longleftrightarrow>
     t \<in> {T_padding, T_user_plane_data, T_cluster_beacon, T_power_target, T_time_announce}"

record mac_mux_header =
  mmh_mac_ext :: mac_ext
  mmh_ie_type :: u32
  mmh_length :: u32
  mmh_tinfo :: "mmie_type option"

subsection \<open>Operations\<close>

definition mmh_zero :: mac_mux_header where
  "mmh_zero = \<lparr>mmh_mac_ext = ME_not_defined, mmh_ie_type = UNDEFINED_NUMERIC_32,
     mmh_length = UNDEFINED_NUMERIC_32, mmh_tinfo = None\<rparr>"

text \<open>\<open>is_valid\<close> of the three enumerations compares with \<open>not_defined\<close> only.\<close>

definition mmh_valid :: "mac_mux_header \<Rightarrow> bool" where
  "mmh_valid h =
     (case mmh_mac_ext h of
        Length_Field_1_Bit \<Rightarrow>
          (if mmh_length h = 0 \<or> mmh_length h = 1 then mmh_ie_type h \<noteq> UNDEFINED_NUMERIC_32 else False)
      | Length_Field_8_Bit \<Rightarrow>
          (if mmh_length h > bitmask_lsb 8 then False
           else if mmh_length h > bitmask_lsb 16 then False
           else mmh_ie_type h \<noteq> UNDEFINED_NUMERIC_32)
      | Length_Field_16_Bit \<Rightarrow>
          (if mmh_length h > bitmask_lsb 16 then False else mmh_ie_type h \<noteq> UNDEFINED_NUMERIC_32)
      | No_Length_Field \<Rightarrow> mmh_ie_type h \<noteq> UNDEFINED_NUMERIC_32
      | _ \<Rightarrow> False)"

definition mmh_packed_size :: "mac_mux_header \<Rightarrow> u32 res" where
  "mmh_packed_size h =
     assertE (enum_valid mac_ext_ec (mmh_mac_ext h)) (Inr
       (case mmh_mac_ext h of
          Length_Field_8_Bit \<Rightarrow> 2
        | Length_Field_16_Bit \<Rightarrow> 3
        | _ \<Rightarrow> 1))"

definition mmh_pack :: "mac_mux_header \<Rightarrow> bytes res" where
  "mmh_pack h =
     assertE (mmh_valid h) (Inr
       (let ext = to_byte (push_bit 6 (to_underlying mac_ext_ec (mmh_mac_ext h)));
            ie = to_byte (mmh_ie_type h)
        in case mmh_mac_ext h of
             Length_Field_1_Bit \<Rightarrow> [ext OR to_byte (push_bit 5 (mmh_length h)) OR ie]
           | No_Length_Field \<Rightarrow> [ext OR ie]
           | Length_Field_8_Bit \<Rightarrow> [ext OR ie, to_byte (mmh_length h AND bitmask_lsb 8)]
           | _ \<Rightarrow> (ext OR ie) # l2b_lower (mmh_length h) 2))"

text \<open>Which class, if any, the receiver assigns to an IE type, one function per case of the
switch over the MAC extension field.\<close>

fun tinfo_no_length :: "ie_type_00_01_10 \<Rightarrow> mmie_type option" where
  "tinfo_no_length Padding_IE = Some T_padding"
| "tinfo_no_length Network_Beacon_Message = Some T_network_beacon"
| "tinfo_no_length Cluster_Beacon_Message = Some T_cluster_beacon"
| "tinfo_no_length Association_Request_Message = Some T_association_request"
| "tinfo_no_length Association_Response_Message = Some T_association_response"
| "tinfo_no_length Association_Release_Message = Some T_association_release"
| "tinfo_no_length Reconfiguration_Request_Message = Some T_reconfiguration_request"
| "tinfo_no_length Reconfiguration_Response_Message = Some T_reconfiguration_response"
| "tinfo_no_length Security_Info_IE = Some T_mac_security_info"
| "tinfo_no_length Route_Info_IE = Some T_route_info"
| "tinfo_no_length Resource_Allocation_IE = Some T_resource_allocation"
| "tinfo_no_length Random_Access_Resource_IE = Some T_random_access_resource"
| "tinfo_no_length RD_Capability_IE = Some T_rd_capability"
| "tinfo_no_length Neighbouring_IE = Some T_neighbouring"
| "tinfo_no_length Broadcast_Indication_IE = Some T_broadcast_indication"
| "tinfo_no_length Load_Info_IE = Some T_load_info"
| "tinfo_no_length Measurement_Report_IE = Some T_measurement_report"
| "tinfo_no_length Power_Target_IE = Some T_power_target"
| "tinfo_no_length Time_Announce_IE = Some T_time_announce"
| "tinfo_no_length _ = None"

fun tinfo_16_bit :: "ie_type_00_01_10 \<Rightarrow> mmie_type option" where
  "tinfo_16_bit Higher_Layer_Signalling_Flow_1 = Some T_higher_layer_signalling"
| "tinfo_16_bit Higher_Layer_Signalling_Flow_2 = Some T_higher_layer_signalling"
| "tinfo_16_bit User_Plane_Data_Flow_1 = Some T_user_plane_data"
| "tinfo_16_bit User_Plane_Data_Flow_2 = Some T_user_plane_data"
| "tinfo_16_bit User_Plane_Data_Flow_3 = Some T_user_plane_data"
| "tinfo_16_bit User_Plane_Data_Flow_4 = Some T_user_plane_data"
| "tinfo_16_bit Group_Assignment_IE = Some T_group_assignment"
| "tinfo_16_bit _ = None"

fun tinfo_8_bit :: "ie_type_00_01_10 \<Rightarrow> mmie_type option" where
  "tinfo_8_bit Padding_IE = Some T_padding"
| "tinfo_8_bit e = tinfo_16_bit e"

fun tinfo_len_0 :: "ie_type_11_len_0 \<Rightarrow> mmie_type option" where
  "tinfo_len_0 IE0_Padding_IE = Some T_padding"
| "tinfo_len_0 Configuration_Request_IE = Some T_configuration_request"
| "tinfo_len_0 _ = None"

fun tinfo_len_1 :: "ie_type_11_len_1 \<Rightarrow> mmie_type option" where
  "tinfo_len_1 IE1_Padding_IE = Some T_padding"
| "tinfo_len_1 Radio_Device_Status_IE = Some T_radio_device_status"
| "tinfo_len_1 _ = None"

text \<open>A case that is not compiled in falls through to \<open>default\<close>.\<close>

definition activated :: "(mmie_type \<Rightarrow> bool) \<Rightarrow> mmie_type option \<Rightarrow> mmie_type option" where
  "activated act t = (case t of Some u \<Rightarrow> if act u then Some u else None | None \<Rightarrow> None)"

definition mmh_unpack_mac_ext_ie_type ::
  "(mmie_type \<Rightarrow> bool) \<Rightarrow> mac_mux_header \<Rightarrow> bytes \<Rightarrow> (bool \<times> mac_mux_header) res" where
  "mmh_unpack_mac_ext_ie_type act h a =
     assertE (mmh_mac_ext h = ME_not_defined \<and> mmh_length h = UNDEFINED_NUMERIC_32
              \<and> mmh_tinfo h = None) (
     bindE (rd a 0) (\<lambda>b.
     let ext = from_coded_value mac_ext_ec (drop_bit 6 b);
         A = b AND bitmask_lsb 6;
         A5 = b AND bitmask_lsb 5;
         h = h\<lparr>mmh_mac_ext := ext\<rparr>;
         h = (case ext of
                No_Length_Field \<Rightarrow>
                  h\<lparr>mmh_ie_type := ie_code ie_00_01_10_codes (ie_A_from_code A),
                    mmh_tinfo := activated act (tinfo_no_length (ie_A_from_code A))\<rparr>
              | Length_Field_8_Bit \<Rightarrow>
                  h\<lparr>mmh_ie_type := ie_code ie_00_01_10_codes (ie_A_from_code A),
                    mmh_tinfo := activated act (tinfo_8_bit (ie_A_from_code A))\<rparr>
              | Length_Field_16_Bit \<Rightarrow>
                  h\<lparr>mmh_ie_type := ie_code ie_00_01_10_codes (ie_A_from_code A),
                    mmh_tinfo := activated act (tinfo_16_bit (ie_A_from_code A))\<rparr>
              | Length_Field_1_Bit \<Rightarrow>
                  (if drop_bit 5 b AND 1 = 0
                   then h\<lparr>mmh_ie_type := ie_code ie_11_len_0_codes (ie_0_from_code A5),
                          mmh_tinfo := activated act (tinfo_len_0 (ie_0_from_code A5))\<rparr>
                   else h\<lparr>mmh_ie_type := ie_code ie_11_len_1_codes (ie_1_from_code A5),
                          mmh_tinfo := activated act (tinfo_len_1 (ie_1_from_code A5))\<rparr>)
              | _ \<Rightarrow> h)
     in Inr (mmh_tinfo h \<noteq> None, h)))"

definition mmh_unpack_length :: "mac_mux_header \<Rightarrow> bytes \<Rightarrow> mac_mux_header res" where
  "mmh_unpack_length h a =
     assertE (mmh_length h = UNDEFINED_NUMERIC_32)
       (case mmh_mac_ext h of
          No_Length_Field \<Rightarrow> Inr (h\<lparr>mmh_length := UNDEFINED_NUMERIC_32\<rparr>)
        | Length_Field_8_Bit \<Rightarrow> bindE (rd a 1) (\<lambda>b. Inr (h\<lparr>mmh_length := b\<rparr>))
        | Length_Field_16_Bit \<Rightarrow> bindE (b2l_lower a 1 2) (\<lambda>v. Inr (h\<lparr>mmh_length := v\<rparr>))
        | Length_Field_1_Bit \<Rightarrow> bindE (rd a 0) (\<lambda>b. Inr (h\<lparr>mmh_length := drop_bit 5 b AND 1\<rparr>))
        | _ \<Rightarrow> Inl Assertion_failed)"

subsection \<open>Codes\<close>

lemma ie_from_code_in:
  assumes "ie_from_code cs nd v \<noteq> nd"
  shows "(ie_from_code cs nd v, v) \<in> set cs"
  using assms by (auto simp: ie_from_code_def split: option.splits dest!: map_of_SomeD)

lemma ie_code_from_code:
  assumes "distinct (map fst cs)" "ie_from_code cs nd v \<noteq> nd"
  shows "ie_code cs (ie_from_code cs nd v) = v"
  using ie_from_code_in [OF assms(2)] assms(1) by (simp add: ie_code_def)

lemma ie_codes_fit:
  "(e, v) \<in> set ie_00_01_10_codes \<Longrightarrow> fits 6 v"
  "(e0, v) \<in> set ie_11_len_0_codes \<Longrightarrow> fits 5 v"
  "(e1, v) \<in> set ie_11_len_1_codes \<Longrightarrow> fits 5 v"
  by (auto simp: ie_00_01_10_codes_def ie_11_len_0_codes_def ie_11_len_1_codes_def fits_iff_unat)

lemma ie_codes_distinct [simp]:
  "distinct (map fst ie_00_01_10_codes)" "distinct (map fst ie_11_len_0_codes)"
  "distinct (map fst ie_11_len_1_codes)"
  by (simp_all add: ie_00_01_10_codes_def ie_11_len_0_codes_def ie_11_len_1_codes_def)

lemma tinfo_defined:
  "tinfo_no_length e = Some t \<Longrightarrow> e \<noteq> IE_not_defined"
  "tinfo_16_bit e = Some t \<Longrightarrow> e \<noteq> IE_not_defined"
  "tinfo_8_bit e = Some t \<Longrightarrow> e \<noteq> IE_not_defined"
  "tinfo_len_0 e0 = Some t \<Longrightarrow> e0 \<noteq> IE0_not_defined"
  "tinfo_len_1 e1 = Some t \<Longrightarrow> e1 \<noteq> IE1_not_defined"
  by auto

text \<open>A code to which a class belongs is recovered from its low bits.\<close>

lemma ie_A_recovered:
  assumes "ie_A_from_code v \<noteq> IE_not_defined"
  shows "fits 6 v" "ie_code ie_00_01_10_codes (ie_A_from_code v) = v"
  using ie_codes_fit(1) [OF ie_from_code_in [OF assms]] ie_code_from_code [OF _ assms] by simp_all

lemma ie_0_recovered:
  assumes "ie_0_from_code v \<noteq> IE0_not_defined"
  shows "fits 5 v" "ie_code ie_11_len_0_codes (ie_0_from_code v) = v"
  using ie_codes_fit(2) [OF ie_from_code_in [OF assms]] ie_code_from_code [OF _ assms] by simp_all

lemma ie_1_recovered:
  assumes "ie_1_from_code v \<noteq> IE1_not_defined"
  shows "fits 5 v" "ie_code ie_11_len_1_codes (ie_1_from_code v) = v"
  using ie_codes_fit(3) [OF ie_from_code_in [OF assms]] ie_code_from_code [OF _ assms] by simp_all

lemma mac_ext_code [simp]:
  "to_underlying mac_ext_ec No_Length_Field = 0" "to_underlying mac_ext_ec Length_Field_8_Bit = 1"
  "to_underlying mac_ext_ec Length_Field_16_Bit = 2" "to_underlying mac_ext_ec Length_Field_1_Bit = 3"
  "from_coded_value mac_ext_ec 0 = No_Length_Field" "from_coded_value mac_ext_ec 1 = Length_Field_8_Bit"
  "from_coded_value mac_ext_ec 2 = Length_Field_16_Bit"
  "from_coded_value mac_ext_ec 3 = Length_Field_1_Bit"
  by (simp_all add: to_underlying_def from_coded_value_def mac_ext_ec_def upper_value_def)

lemma mac_ext_valid_iff:
  "enum_valid mac_ext_ec e \<longleftrightarrow> e \<noteq> ME_not_defined \<and> e \<noteq> ME_upper"
  by (simp add: enum_valid_def mac_ext_ec_def)

lemma mac_ext_received: "enum_valid mac_ext_ec (from_coded_value mac_ext_ec (drop_bit 6 (ucast (b :: u8))))"
proof -
  have "fits 2 (drop_bit 6 (ucast b :: u32))"
    by (rule fits_drop_bit) (simp add: fits_ucast_u8)
  then show ?thesis
    by (simp only: mac_ext_coding.valid_from fits_iff_unat)
      (simp add: mac_ext_ec_def upper_value_def)
qed

subsection \<open>What the receiver sees\<close>

text \<open>The class a receiver assigns to a header that is sent.\<close>

definition mmh_class :: "mac_mux_header \<Rightarrow> mmie_type option" where
  "mmh_class h =
     (case mmh_mac_ext h of
        No_Length_Field \<Rightarrow> tinfo_no_length (ie_A_from_code (mmh_ie_type h))
      | Length_Field_8_Bit \<Rightarrow> tinfo_8_bit (ie_A_from_code (mmh_ie_type h))
      | Length_Field_16_Bit \<Rightarrow> tinfo_16_bit (ie_A_from_code (mmh_ie_type h))
      | Length_Field_1_Bit \<Rightarrow>
          (if mmh_length h = 0 then tinfo_len_0 (ie_0_from_code (mmh_ie_type h))
           else tinfo_len_1 (ie_1_from_code (mmh_ie_type h)))
      | _ \<Rightarrow> None)"

lemma mmh_pack_size:
  assumes "mmh_pack h = Inr bs"
  shows "mmh_packed_size h = Inr (of_nat (length bs))" "1 \<le> length bs" "length bs \<le> 3"
  using assms
  by (auto simp: mmh_pack_def mmh_packed_size_def mmh_valid_def mac_ext_valid_iff Let_def
      split: mac_ext.splits)

lemma mmh_size_range:
  assumes "mmh_packed_size h = Inr n"
  shows "1 \<le> unat n" "unat n \<le> 3"
  using assms by (auto simp: mmh_packed_size_def split: mac_ext.splits)

text \<open>The first octet.\<close>

lemma mux_octet_6:
  fixes e v :: u32
  assumes "fits 2 e" "fits 6 v"
  defines "b \<equiv> to_byte (push_bit 6 e) OR to_byte v"
  shows "drop_bit 6 (ucast b) = e" "ucast b AND mask 6 = v"
  using assms by (simp_all add: field_simps_bits)

lemma mux_octet_5:
  fixes e l v :: u32
  assumes "fits 2 e" "fits 1 l" "fits 5 v"
  defines "b \<equiv> to_byte (push_bit 6 e) OR to_byte (push_bit 5 l) OR to_byte v"
  shows "drop_bit 6 (ucast b) = e" "drop_bit 5 (ucast b) AND 1 = l" "ucast b AND mask 5 = v"
  using assms fits_mono [of 5 v 6] by (simp_all add: field_simps_bits)

lemma mac_ext_fits [simp]: "enum_valid mac_ext_ec e \<Longrightarrow> fits 2 (to_underlying mac_ext_ec e)"
  by (rule mac_ext_coding.fits_to) (simp_all add: mac_ext_ec_def upper_value_def)

lemma activated_Some [simp]: "activated act (Some t) = (if act t then Some t else None)"
  "activated act None = None"
  by (simp_all add: activated_def)

lemma mmh_received_A:
  fixes e v :: u32
  assumes v: "ie_A_from_code v \<noteq> IE_not_defined" and e: "fits 2 e"
  defines "b \<equiv> to_byte (push_bit 6 e) OR to_byte v"
  shows "drop_bit 6 (ucast b) = e" "ucast b AND mask 6 = v"
    "ie_code ie_00_01_10_codes (ie_A_from_code v) = v"
  using mux_octet_6 [OF e ie_A_recovered(1) [OF v]] ie_A_recovered(2) [OF v] by (simp_all add: b_def)

lemma mmh_received:
  assumes p: "mmh_pack h = Inr bs" and c: "mmh_class h = Some t" and act: "act t"
    and u: "mmh_mac_ext h = No_Length_Field \<longrightarrow> mmh_length h = UNDEFINED_NUMERIC_32"
  shows "mmh_unpack_mac_ext_ie_type act mmh_zero (bs @ r)
      = Inr (True, h\<lparr>mmh_length := UNDEFINED_NUMERIC_32, mmh_tinfo := Some t\<rparr>)"
    and "mmh_unpack_length (h\<lparr>mmh_length := UNDEFINED_NUMERIC_32, mmh_tinfo := Some t\<rparr>) (bs @ r)
      = Inr (h\<lparr>mmh_tinfo := Some t\<rparr>)"
proof -
  obtain ext ie len ti where h: "h = \<lparr>mmh_mac_ext = ext, mmh_ie_type = ie, mmh_length = len,
      mmh_tinfo = ti\<rparr>" by (cases h)
  have V: "mmh_valid h" using p by (simp add: mmh_pack_def)
  have "mmh_unpack_mac_ext_ie_type act mmh_zero (bs @ r)
      = Inr (True, h\<lparr>mmh_length := UNDEFINED_NUMERIC_32, mmh_tinfo := Some t\<rparr>)
    \<and> mmh_unpack_length (h\<lparr>mmh_length := UNDEFINED_NUMERIC_32, mmh_tinfo := Some t\<rparr>) (bs @ r)
      = Inr (h\<lparr>mmh_tinfo := Some t\<rparr>)"
  proof (cases ext)
    case No_Length_Field
    then have t: "tinfo_no_length (ie_A_from_code ie) = Some t" using c by (simp add: mmh_class_def h)
    define b0 where "b0 = to_byte (push_bit 6 (0 :: u32)) OR to_byte ie"
    have "fits 2 (0 :: u32)" by (simp add: fits_iff_unat)
    note b = mmh_received_A [OF tinfo_defined(1) [OF t] this, folded b0_def]
    have bs: "bs = [b0]"
      using p by (simp add: h No_Length_Field mmh_pack_def b0_def)
    show ?thesis using t b act u
      by (simp add: h No_Length_Field bs mmh_unpack_mac_ext_ie_type_def mmh_zero_def Let_def mmh_unpack_length_def)
  next
    case Length_Field_8_Bit
    then have t: "tinfo_8_bit (ie_A_from_code ie) = Some t" using c by (simp add: mmh_class_def h)
    define b0 where "b0 = to_byte (push_bit 6 (1 :: u32)) OR to_byte ie"
    have "fits 2 (1 :: u32)" by (simp add: fits_iff_unat)
    note b = mmh_received_A [OF tinfo_defined(3) [OF t] this, folded b0_def]
    have bs: "bs = [b0, to_byte (len AND mask 8)]"
      using p by (simp add: h Length_Field_8_Bit mmh_pack_def b0_def)
    have "fits 8 len"
      using V by (simp add: h Length_Field_8_Bit mmh_valid_def field_simps_bits split: if_splits)
    then have "ucast (to_byte (len AND mask 8)) = len" by (simp add: field_simps_bits)
    then show ?thesis using t b act
      by (simp add: h Length_Field_8_Bit bs mmh_unpack_mac_ext_ie_type_def mmh_zero_def Let_def mmh_unpack_length_def)
  next
    case Length_Field_16_Bit
    then have t: "tinfo_16_bit (ie_A_from_code ie) = Some t" using c by (simp add: mmh_class_def h)
    define b0 where "b0 = to_byte (push_bit 6 (2 :: u32)) OR to_byte ie"
    have "fits 2 (2 :: u32)" by (simp add: fits_iff_unat)
    note b = mmh_received_A [OF tinfo_defined(2) [OF t] this, folded b0_def]
    have bs: "bs = b0 # l2b_lower len 2"
      using p by (simp add: h Length_Field_16_Bit mmh_pack_def b0_def)
    have "fits 16 len"
      using V by (simp add: h Length_Field_16_Bit mmh_valid_def field_simps_bits split: if_splits)
    then show ?thesis using t b act
      by (simp add: h Length_Field_16_Bit bs mmh_unpack_mac_ext_ie_type_def mmh_zero_def Let_def mmh_unpack_length_def)
  next
    case Length_Field_1_Bit
    then have len: "len = 0 \<or> len = 1" using V by (simp add: h mmh_valid_def split: if_splits)
    define b0 where "b0 = to_byte (push_bit 6 (3 :: u32)) OR to_byte (push_bit 5 len) OR to_byte ie"
    have bs: "bs = [b0]" using p by (simp add: h Length_Field_1_Bit mmh_pack_def b0_def)
    have f: "fits 2 (3 :: u32)" "fits 1 len" using len by (auto simp: fits_iff_unat)
    show ?thesis using len
    proof
      assume l: "len = 0"
      then have t: "tinfo_len_0 (ie_0_from_code ie) = Some t" using c
        by (simp add: mmh_class_def h Length_Field_1_Bit)
      note b = mux_octet_5 [OF f ie_0_recovered(1) [OF tinfo_defined(4) [OF t]], folded b0_def]
        ie_0_recovered(2) [OF tinfo_defined(4) [OF t]]
      show ?thesis using t b act l
        by (simp add: h Length_Field_1_Bit bs mmh_unpack_mac_ext_ie_type_def mmh_zero_def Let_def mmh_unpack_length_def)
    next
      assume l: "len = 1"
      then have t: "tinfo_len_1 (ie_1_from_code ie) = Some t" using c
        by (simp add: mmh_class_def h Length_Field_1_Bit)
      note b = mux_octet_5 [OF f ie_1_recovered(1) [OF tinfo_defined(5) [OF t]], folded b0_def]
        ie_1_recovered(2) [OF tinfo_defined(5) [OF t]]
      show ?thesis using t b act l
        by (simp add: h Length_Field_1_Bit bs mmh_unpack_mac_ext_ie_type_def mmh_zero_def Let_def mmh_unpack_length_def)
    qed
  qed (use V in \<open>simp_all add: h mmh_valid_def\<close>)
  then show "mmh_unpack_mac_ext_ie_type act mmh_zero (bs @ r)
      = Inr (True, h\<lparr>mmh_length := UNDEFINED_NUMERIC_32, mmh_tinfo := Some t\<rparr>)"
    and "mmh_unpack_length (h\<lparr>mmh_length := UNDEFINED_NUMERIC_32, mmh_tinfo := Some t\<rparr>) (bs @ r)
      = Inr (h\<lparr>mmh_tinfo := Some t\<rparr>)"
    by simp_all
qed

end
