(* ===== verification/Mmie.thy ===== *)
theory Mmie
  imports Mac_Mux_Header Simple_Messages Reconfiguration_Messages Capability Report_Elements
    Resource_Elements
begin

text \<open>
  \<open>mac_messages_and_ie/mmie.cpp\<close>, \<open>padding_ie.cpp\<close>, \<open>user_plane_data.cpp\<close>,
  \<open>higher_layer_signalling.cpp\<close>, \<open>configuration_request_ie.cpp\<close> and
  \<open>mmie_pool_tx.cpp\<close>: MAC messages and information elements (MMIEs) as objects. An object is its
  multiplexing header and the members of its class, a value of \<open>mmie_content\<close>; the virtual
  functions are functions by cases on it. The data pointer of a flow is the offset into the buffer
  it points to, or \<open>None\<close> for \<open>nullptr\<close>.
\<close>

subsection \<open>Classes\<close>

datatype mmie_content =
  C_padding
| C_configuration_request
| C_higher_layer_signalling "nat option"
| C_user_plane_data "nat option"
| C_network_beacon network_beacon
| C_cluster_beacon cluster_beacon
| C_association_request association_request
| C_association_response association_response
| C_association_release association_release
| C_reconfiguration_request reconfiguration_request
| C_reconfiguration_response reconfiguration_response
| C_mac_security_info mac_security_info
| C_route_info route_info
| C_resource_allocation resource_allocation
| C_random_access_resource random_access_resource
| C_rd_capability rd_capability
| C_neighbouring neighbouring
| C_broadcast_indication broadcast_indication
| C_group_assignment group_assignment
| C_load_info load_info
| C_measurement_report measurement_report
| C_radio_device_status radio_device_status
| C_power_target power_target
| C_time_announce time_announce

record mmie =
  mm_header :: mac_mux_header
  mm_content :: mmie_content

fun content_type :: "mmie_content \<Rightarrow> mmie_type" where
  "content_type C_padding = T_padding"
| "content_type C_configuration_request = T_configuration_request"
| "content_type (C_higher_layer_signalling _) = T_higher_layer_signalling"
| "content_type (C_user_plane_data _) = T_user_plane_data"
| "content_type (C_network_beacon _) = T_network_beacon"
| "content_type (C_cluster_beacon _) = T_cluster_beacon"
| "content_type (C_association_request _) = T_association_request"
| "content_type (C_association_response _) = T_association_response"
| "content_type (C_association_release _) = T_association_release"
| "content_type (C_reconfiguration_request _) = T_reconfiguration_request"
| "content_type (C_reconfiguration_response _) = T_reconfiguration_response"
| "content_type (C_mac_security_info _) = T_mac_security_info"
| "content_type (C_route_info _) = T_route_info"
| "content_type (C_resource_allocation _) = T_resource_allocation"
| "content_type (C_random_access_resource _) = T_random_access_resource"
| "content_type (C_rd_capability _) = T_rd_capability"
| "content_type (C_neighbouring _) = T_neighbouring"
| "content_type (C_broadcast_indication _) = T_broadcast_indication"
| "content_type (C_group_assignment _) = T_group_assignment"
| "content_type (C_load_info _) = T_load_info"
| "content_type (C_measurement_report _) = T_measurement_report"
| "content_type (C_radio_device_status _) = T_radio_device_status"
| "content_type (C_power_target _) = T_power_target"
| "content_type (C_time_announce _) = T_time_announce"

text \<open>The inheritance, tested with \<open>dynamic_cast\<close> in the code.\<close>

definition is_flowing :: "mmie_type \<Rightarrow> bool" where
  "is_flowing t \<longleftrightarrow> t \<in> {T_higher_layer_signalling, T_user_plane_data}"

definition is_packing :: "mmie_type \<Rightarrow> bool" where
  "is_packing t \<longleftrightarrow>
     t \<notin> {T_padding, T_configuration_request, T_higher_layer_signalling, T_user_plane_data}"

definition is_packing_peeking :: "mmie_type \<Rightarrow> bool" where
  "is_packing_peeking t \<longleftrightarrow> t \<in> {T_network_beacon, T_cluster_beacon, T_association_request, T_association_response, T_reconfiguration_request, T_reconfiguration_response, T_resource_allocation, T_random_access_resource, T_rd_capability, T_neighbouring, T_broadcast_indication, T_load_info, T_measurement_report}"

definition is_mu_depending :: "mmie_type \<Rightarrow> bool" where
  "is_mu_depending t \<longleftrightarrow> t \<in> {T_cluster_beacon, T_resource_allocation, T_random_access_resource}"

definition has_valid_inheritance_and_properties :: "mmie \<Rightarrow> bool" where
  "has_valid_inheritance_and_properties m =
     (let t = content_type (mm_content m)
      in if is_packing t \<and> is_flowing t then False
         else if is_packing_peeking t \<and> is_flowing t then False
         else if is_flowing t \<and> is_mu_depending t then False
         else if is_packing_peeking t \<and> mmh_mac_ext (mm_header m) \<noteq> No_Length_Field then False
         else True)"

subsection \<open>Constructors\<close>

definition mmh_of :: "mac_ext \<Rightarrow> u32 \<Rightarrow> u32 \<Rightarrow> mac_mux_header" where
  "mmh_of ext ie len = \<lparr>mmh_mac_ext = ext, mmh_ie_type = ie, mmh_length = len, mmh_tinfo = None\<rparr>"

text \<open>Every constructor ends with the assertion on the inheritance.\<close>

definition constructed :: "mac_mux_header \<Rightarrow> mmie_content \<Rightarrow> mmie res" where
  "constructed h c = (let m = \<lparr>mm_header = h, mm_content = c\<rparr>
     in assertE (has_valid_inheritance_and_properties m) (Inr m))"

definition new_padding :: "mmie res" where
  "new_padding = constructed mmh_zero C_padding"

definition new_configuration_request :: "mmie res" where
  "new_configuration_request = constructed
     (mmh_of Length_Field_1_Bit (ie_code ie_11_len_0_codes Configuration_Request_IE) 0)
     C_configuration_request"

definition new_higher_layer_signalling :: "mmie res" where
  "new_higher_layer_signalling = constructed mmh_zero (C_higher_layer_signalling None)"

definition new_user_plane_data :: "mmie res" where
  "new_user_plane_data = constructed mmh_zero (C_user_plane_data None)"

definition new_network_beacon :: "mmie res" where
  "new_network_beacon = constructed
     (mmh_of No_Length_Field (ie_code ie_00_01_10_codes Network_Beacon_Message) UNDEFINED_NUMERIC_32)
     (C_network_beacon nb_zero)"

definition new_cluster_beacon :: "u32 \<Rightarrow> mmie res" where
  "new_cluster_beacon mu0 = constructed
     (mmh_of No_Length_Field (ie_code ie_00_01_10_codes Cluster_Beacon_Message) UNDEFINED_NUMERIC_32)
     (C_cluster_beacon (cb_zero mu0))"

definition new_association_request :: "mmie res" where
  "new_association_request = constructed
     (mmh_of No_Length_Field (ie_code ie_00_01_10_codes Association_Request_Message) UNDEFINED_NUMERIC_32)
     (C_association_request aq_zero)"

definition new_association_response :: "mmie res" where
  "new_association_response = constructed
     (mmh_of No_Length_Field (ie_code ie_00_01_10_codes Association_Response_Message) UNDEFINED_NUMERIC_32)
     (C_association_response ap_zero)"

definition new_association_release :: "mmie res" where
  "new_association_release = constructed
     (mmh_of No_Length_Field (ie_code ie_00_01_10_codes Association_Release_Message) UNDEFINED_NUMERIC_32)
     (C_association_release ar_zero)"

definition new_reconfiguration_request :: "mmie res" where
  "new_reconfiguration_request = constructed
     (mmh_of No_Length_Field (ie_code ie_00_01_10_codes Reconfiguration_Request_Message) UNDEFINED_NUMERIC_32)
     (C_reconfiguration_request rq_zero)"

definition new_reconfiguration_response :: "mmie res" where
  "new_reconfiguration_response = constructed
     (mmh_of No_Length_Field (ie_code ie_00_01_10_codes Reconfiguration_Response_Message) UNDEFINED_NUMERIC_32)
     (C_reconfiguration_response rp_zero)"

definition new_mac_security_info :: "mmie res" where
  "new_mac_security_info = constructed
     (mmh_of No_Length_Field (ie_code ie_00_01_10_codes Security_Info_IE) UNDEFINED_NUMERIC_32)
     (C_mac_security_info si_zero)"

definition new_route_info :: "mmie res" where
  "new_route_info = constructed
     (mmh_of No_Length_Field (ie_code ie_00_01_10_codes Route_Info_IE) UNDEFINED_NUMERIC_32)
     (C_route_info ri_zero)"

definition new_resource_allocation :: "u32 \<Rightarrow> mmie res" where
  "new_resource_allocation mu0 = constructed
     (mmh_of No_Length_Field (ie_code ie_00_01_10_codes Resource_Allocation_IE) UNDEFINED_NUMERIC_32)
     (C_resource_allocation (ra_zero mu0))"

definition new_random_access_resource :: "random_access_resource \<Rightarrow> mmie res" where
  "new_random_access_resource m0 = constructed
     (mmh_of No_Length_Field (ie_code ie_00_01_10_codes Random_Access_Resource_IE) UNDEFINED_NUMERIC_32)
     (C_random_access_resource (rr_zero m0))"

definition new_rd_capability :: "mmie res" where
  "new_rd_capability = constructed
     (mmh_of No_Length_Field (ie_code ie_00_01_10_codes RD_Capability_IE) UNDEFINED_NUMERIC_32)
     (C_rd_capability rc_zero)"

definition new_neighbouring :: "mmie res" where
  "new_neighbouring = constructed
     (mmh_of No_Length_Field (ie_code ie_00_01_10_codes Neighbouring_IE) UNDEFINED_NUMERIC_32)
     (C_neighbouring ne_zero)"

definition new_broadcast_indication :: "mmie res" where
  "new_broadcast_indication = constructed
     (mmh_of No_Length_Field (ie_code ie_00_01_10_codes Broadcast_Indication_IE) UNDEFINED_NUMERIC_32)
     (C_broadcast_indication bi_zero)"

definition new_group_assignment :: "mmie res" where
  "new_group_assignment = constructed
     (mmh_of ME_not_defined (ie_code ie_00_01_10_codes Group_Assignment_IE) UNDEFINED_NUMERIC_32)
     (C_group_assignment ga_zero)"

definition new_load_info :: "mmie res" where
  "new_load_info = constructed
     (mmh_of No_Length_Field (ie_code ie_00_01_10_codes Load_Info_IE) UNDEFINED_NUMERIC_32)
     (C_load_info li_zero)"

definition new_measurement_report :: "mmie res" where
  "new_measurement_report = constructed
     (mmh_of No_Length_Field (ie_code ie_00_01_10_codes Measurement_Report_IE) UNDEFINED_NUMERIC_32)
     (C_measurement_report mr_zero)"

definition new_radio_device_status :: "mmie res" where
  "new_radio_device_status = constructed
     (mmh_of Length_Field_1_Bit (ie_code ie_11_len_1_codes Radio_Device_Status_IE) 1)
     (C_radio_device_status rs_zero)"

definition new_power_target :: "mmie res" where
  "new_power_target = constructed
     (mmh_of No_Length_Field (ie_code ie_00_01_10_codes Power_Target_IE) UNDEFINED_NUMERIC_32)
     (C_power_target pt_zero)"

definition new_time_announce :: "mmie res" where
  "new_time_announce = constructed
     (mmh_of No_Length_Field (ie_code ie_00_01_10_codes Time_Announce_IE) UNDEFINED_NUMERIC_32)
     (C_time_announce ta_zero)"

subsection \<open>Virtual functions\<close>

text \<open>\<open>packing_t::get_packed_size\<close>, \<open>pack\<close> and \<open>unpack\<close>; other classes do not have them.\<close>

fun content_packed_size :: "mmie_content \<Rightarrow> nat res" where
  "content_packed_size (C_network_beacon m) = Inr (nb_packed_size m)"
| "content_packed_size (C_cluster_beacon m) = Inr (cb_packed_size m)"
| "content_packed_size (C_association_request m) = aq_packed_size m"
| "content_packed_size (C_association_response m) = ap_packed_size m"
| "content_packed_size (C_association_release m) = Inr (ar_packed_size m)"
| "content_packed_size (C_reconfiguration_request m) = rq_packed_size m"
| "content_packed_size (C_reconfiguration_response m) = rp_packed_size m"
| "content_packed_size (C_mac_security_info m) = Inr (si_packed_size m)"
| "content_packed_size (C_route_info m) = Inr (ri_packed_size m)"
| "content_packed_size (C_resource_allocation m) = ra_packed_size m"
| "content_packed_size (C_random_access_resource m) = rr_packed_size m"
| "content_packed_size (C_rd_capability m) = rc_packed_size m"
| "content_packed_size (C_neighbouring m) = Inr (ne_packed_size m)"
| "content_packed_size (C_broadcast_indication m) = bi_packed_size m"
| "content_packed_size (C_group_assignment m) = ga_packed_size m"
| "content_packed_size (C_load_info m) = li_packed_size m"
| "content_packed_size (C_measurement_report m) = Inr (mr_packed_size m)"
| "content_packed_size (C_radio_device_status m) = Inr (rs_packed_size m)"
| "content_packed_size (C_power_target m) = Inr (pt_packed_size m)"
| "content_packed_size (C_time_announce m) = Inr (ta_packed_size m)"
| "content_packed_size _ = Inl Assertion_failed"

fun content_pack :: "mmie_content \<Rightarrow> bytes res" where
  "content_pack (C_network_beacon m) = nb_pack m"
| "content_pack (C_cluster_beacon m) = cb_pack m"
| "content_pack (C_association_request m) = aq_pack m"
| "content_pack (C_association_response m) = ap_pack m"
| "content_pack (C_association_release m) = ar_pack m"
| "content_pack (C_reconfiguration_request m) = rq_pack m"
| "content_pack (C_reconfiguration_response m) = rp_pack m"
| "content_pack (C_mac_security_info m) = si_pack m"
| "content_pack (C_route_info m) = ri_pack m"
| "content_pack (C_resource_allocation m) = ra_pack m"
| "content_pack (C_random_access_resource m) = rr_pack m"
| "content_pack (C_rd_capability m) = rc_pack m"
| "content_pack (C_neighbouring m) = ne_pack m"
| "content_pack (C_broadcast_indication m) = bi_pack m"
| "content_pack (C_group_assignment m) = ga_pack m"
| "content_pack (C_load_info m) = li_pack m"
| "content_pack (C_measurement_report m) = mr_pack m"
| "content_pack (C_radio_device_status m) = rs_pack m"
| "content_pack (C_power_target m) = pt_pack m"
| "content_pack (C_time_announce m) = ta_pack m"
| "content_pack _ = Inl Assertion_failed"

text \<open>Unpacking overwrites all members but the subcarrier scaling; group assignments read as many
bytes as the multiplexing header says.\<close>

definition with_content :: "('m \<Rightarrow> mmie_content) \<Rightarrow> (bool \<times> 'm) res \<Rightarrow> (bool \<times> mmie_content) res" where
  "with_content C r = bindE r (\<lambda>(v, m). Inr (v, C m))"

fun content_unpack :: "mmie_content \<Rightarrow> u32 \<Rightarrow> bytes \<Rightarrow> (bool \<times> mmie_content) res" where
  "content_unpack (C_network_beacon m) len a = with_content C_network_beacon (nb_unpack a)"
| "content_unpack (C_cluster_beacon m) len a = with_content C_cluster_beacon (cb_unpack (cb_mu m) a)"
| "content_unpack (C_association_request m) len a = with_content C_association_request (aq_unpack a)"
| "content_unpack (C_association_response m) len a = with_content C_association_response (ap_unpack a)"
| "content_unpack (C_association_release m) len a = with_content C_association_release (ar_unpack a)"
| "content_unpack (C_reconfiguration_request m) len a = with_content C_reconfiguration_request (rq_unpack a)"
| "content_unpack (C_reconfiguration_response m) len a = with_content C_reconfiguration_response (rp_unpack a)"
| "content_unpack (C_mac_security_info m) len a = with_content C_mac_security_info (si_unpack a)"
| "content_unpack (C_route_info m) len a = with_content C_route_info (ri_unpack a)"
| "content_unpack (C_resource_allocation m) len a = with_content C_resource_allocation (ra_unpack (ra_mu m) a)"
| "content_unpack (C_random_access_resource m) len a = with_content C_random_access_resource (rr_unpack (rr_mu m) a)"
| "content_unpack (C_rd_capability m) len a = with_content C_rd_capability (rc_unpack a)"
| "content_unpack (C_neighbouring m) len a = with_content C_neighbouring (ne_unpack a)"
| "content_unpack (C_broadcast_indication m) len a = with_content C_broadcast_indication (bi_unpack a)"
| "content_unpack (C_group_assignment m) len a = with_content C_group_assignment (ga_unpack (unat len) a)"
| "content_unpack (C_load_info m) len a = with_content C_load_info (li_unpack a)"
| "content_unpack (C_measurement_report m) len a = with_content C_measurement_report (mr_unpack a)"
| "content_unpack (C_radio_device_status m) len a = with_content C_radio_device_status (rs_unpack a)"
| "content_unpack (C_power_target m) len a = with_content C_power_target (pt_unpack a)"
| "content_unpack (C_time_announce m) len a = with_content C_time_announce (ta_unpack a)"
| "content_unpack _ len a = Inl Assertion_failed"

text \<open>\<open>mmie_packing_peeking_t\<close>\<close>

fun get_packed_size_min_to_peek :: "mmie_content \<Rightarrow> u32" where
  "get_packed_size_min_to_peek (C_network_beacon _) = 1"
| "get_packed_size_min_to_peek (C_cluster_beacon _) = 2"
| "get_packed_size_min_to_peek (C_association_request _) = 2"
| "get_packed_size_min_to_peek (C_association_response _) = 1"
| "get_packed_size_min_to_peek (C_reconfiguration_request _) = 1"
| "get_packed_size_min_to_peek (C_reconfiguration_response _) = 1"
| "get_packed_size_min_to_peek (C_resource_allocation _) = 2"
| "get_packed_size_min_to_peek (C_random_access_resource _) = 1"
| "get_packed_size_min_to_peek (C_rd_capability _) = 1"
| "get_packed_size_min_to_peek (C_neighbouring _) = 3"
| "get_packed_size_min_to_peek (C_broadcast_indication _) = 1"
| "get_packed_size_min_to_peek (C_load_info _) = 1"
| "get_packed_size_min_to_peek (C_measurement_report _) = 1"
| "get_packed_size_min_to_peek _ = 0"

fun content_peek :: "mmie_content \<Rightarrow> bytes \<Rightarrow> peek_result res" where
  "content_peek (C_network_beacon m) a = nb_peek a"
| "content_peek (C_cluster_beacon m) a = cb_peek (cb_mu m) a"
| "content_peek (C_association_request m) a = aq_peek a"
| "content_peek (C_association_response m) a = ap_peek a"
| "content_peek (C_reconfiguration_request m) a = rq_peek a"
| "content_peek (C_reconfiguration_response m) a = rp_peek a"
| "content_peek (C_resource_allocation m) a = ra_peek (ra_mu m) a"
| "content_peek (C_random_access_resource m) a = rr_peek (rr_mu m) a"
| "content_peek (C_rd_capability m) a = rc_peek a"
| "content_peek (C_neighbouring m) a = ne_peek a"
| "content_peek (C_broadcast_indication m) a = bi_peek a"
| "content_peek (C_load_info m) a = li_peek a"
| "content_peek (C_measurement_report m) a = mr_peek a"
| "content_peek _ a = Inl Assertion_failed"

text \<open>\<open>mu_depending_t::set_mu\<close>: \<open>std::has_single_bit(mu) && mu <= 8\<close>.\<close>

definition mu_ok :: "u32 \<Rightarrow> bool" where
  "mu_ok mu \<longleftrightarrow> mu = 1 \<or> mu = 2 \<or> mu = 4 \<or> mu = 8"

fun content_set_mu :: "u32 \<Rightarrow> mmie_content \<Rightarrow> mmie_content res" where
  "content_set_mu mu (C_cluster_beacon m) = assertE (mu_ok mu) (Inr (C_cluster_beacon (m\<lparr>cb_mu := mu\<rparr>)))"
| "content_set_mu mu (C_resource_allocation m) =
     assertE (mu_ok mu) (Inr (C_resource_allocation (m\<lparr>ra_mu := mu\<rparr>)))"
| "content_set_mu mu (C_random_access_resource m) =
     assertE (mu_ok mu) (Inr (C_random_access_resource (m\<lparr>rr_mu := mu\<rparr>)))"
| "content_set_mu mu c = Inr c"

text \<open>\<open>get_packed_size_of_sdu\<close> and \<open>get_packed_size_of_mmh_sdu\<close> of \<open>mmie_packing_t\<close>,
\<open>mmie_flowing_t\<close>, \<open>padding_ie_t\<close> and \<open>configuration_request_ie_t\<close>.\<close>

definition mmie_packed_size_of_sdu :: "mmie \<Rightarrow> u32 res" where
  "mmie_packed_size_of_sdu m =
     (case mm_content m of
        C_padding \<Rightarrow> Inr (mmh_length (mm_header m))
      | C_configuration_request \<Rightarrow> Inr 0
      | C_higher_layer_signalling _ \<Rightarrow> Inr (mmh_length (mm_header m))
      | C_user_plane_data _ \<Rightarrow> Inr (mmh_length (mm_header m))
      | c \<Rightarrow> bindE (content_packed_size c) (\<lambda>n. Inr (of_nat n)))"

definition mmie_packed_size_of_mmh_sdu :: "mmie \<Rightarrow> u32 res" where
  "mmie_packed_size_of_mmh_sdu m =
     (case mm_content m of
        C_configuration_request \<Rightarrow> Inr 1
      | _ \<Rightarrow> bindE (mmh_packed_size (mm_header m)) (\<lambda>h.
            bindE (mmie_packed_size_of_sdu m) (\<lambda>n. Inr (h + n))))"

definition is_mmh_sdu_fitting :: "mmie \<Rightarrow> u32 \<Rightarrow> u32 \<Rightarrow> bool res" where
  "is_mmh_sdu_fitting m a_cnt_w N_TB_byte =
     bindE (mmie_packed_size_of_mmh_sdu m) (\<lambda>n. Inr (a_cnt_w + n \<le> N_TB_byte))"

text \<open>\<open>pack_mmh_sdu\<close> at the offset \<open>off\<close> of the MAC PDU: the bytes written, and the object,
in which a flow has stored where its data have to be copied to.\<close>

definition pack_mmh_sdu :: "nat \<Rightarrow> mmie \<Rightarrow> (bytes \<times> mmie) res" where
  "pack_mmh_sdu off m =
     bindE (mmh_pack (mm_header m)) (\<lambda>h.
     case mm_content m of
       C_padding \<Rightarrow> Inr (h @ replicate (unat (mmh_length (mm_header m))) 0, m)
     | C_configuration_request \<Rightarrow> Inr (h, m)
     | C_higher_layer_signalling _ \<Rightarrow>
         Inr (h, m\<lparr>mm_content := C_higher_layer_signalling (Some (off + length h))\<rparr>)
     | C_user_plane_data _ \<Rightarrow> Inr (h, m\<lparr>mm_content := C_user_plane_data (Some (off + length h))\<rparr>)
     | c \<Rightarrow> bindE (content_pack c) (\<lambda>bs. Inr (h @ bs, m)))"

subsection \<open>Flows\<close>

definition set_data_size :: "u32 \<Rightarrow> mmie \<Rightarrow> mmie res" where
  "set_data_size N m =
     assertE (0 < N \<and> N \<le> bitmask_lsb 16)
       (Inr (m\<lparr>mm_header := (mm_header m)\<lparr>
          mmh_mac_ext := (if N \<le> bitmask_lsb 8 then Length_Field_8_Bit else Length_Field_16_Bit),
          mmh_length := N\<rparr>\<rparr>))"

definition get_data_size :: "mmie \<Rightarrow> u32" where
  "get_data_size m = mmh_length (mm_header m)"

fun get_data_ptr :: "mmie_content \<Rightarrow> nat res" where
  "get_data_ptr (C_higher_layer_signalling (Some p)) = Inr p"
| "get_data_ptr (C_user_plane_data (Some p)) = Inr p"
| "get_data_ptr _ = Inl Assertion_failed"

definition with_ie :: "ie_type_00_01_10 \<Rightarrow> mmie \<Rightarrow> mmie" where
  "with_ie e m = m\<lparr>mm_header := (mm_header m)\<lparr>mmh_ie_type := ie_code ie_00_01_10_codes e\<rparr>\<rparr>"

definition upd_set_flow_id :: "u32 \<Rightarrow> mmie \<Rightarrow> mmie res" where
  "upd_set_flow_id flow_id m =
     (if flow_id = 1 then Inr (with_ie User_Plane_Data_Flow_1 m)
      else if flow_id = 2 then Inr (with_ie User_Plane_Data_Flow_2 m)
      else if flow_id = 3 then Inr (with_ie User_Plane_Data_Flow_3 m)
      else if flow_id = 4 then Inr (with_ie User_Plane_Data_Flow_4 m)
      else Inl Assertion_failed)"

definition upd_get_flow_id :: "mmie \<Rightarrow> u32" where
  "upd_get_flow_id m =
     (case ie_A_from_code (mmh_ie_type (mm_header m)) of
        User_Plane_Data_Flow_1 \<Rightarrow> 1
      | User_Plane_Data_Flow_2 \<Rightarrow> 2
      | User_Plane_Data_Flow_3 \<Rightarrow> 3
      | User_Plane_Data_Flow_4 \<Rightarrow> 4
      | _ \<Rightarrow> UNDEFINED_NUMERIC_32)"

definition hls_set_flow_id :: "u32 \<Rightarrow> mmie \<Rightarrow> mmie res" where
  "hls_set_flow_id flow_id m =
     (if flow_id = 1 then Inr (with_ie Higher_Layer_Signalling_Flow_1 m)
      else if flow_id = 2 then Inr (with_ie Higher_Layer_Signalling_Flow_2 m)
      else Inl Assertion_failed)"

definition hls_get_flow_id :: "mmie \<Rightarrow> u32" where
  "hls_get_flow_id m =
     (case ie_A_from_code (mmh_ie_type (mm_header m)) of
        Higher_Layer_Signalling_Flow_1 \<Rightarrow> 1
      | Higher_Layer_Signalling_Flow_2 \<Rightarrow> 2
      | _ \<Rightarrow> UNDEFINED_NUMERIC_32)"

subsection \<open>Padding\<close>

definition N_PADDING_BYTES_MAX :: u32 where
  "N_PADDING_BYTES_MAX = bitmask_lsb 8 + 2"

definition set_nof_padding_bytes :: "u32 \<Rightarrow> mmie \<Rightarrow> mmie res" where
  "set_nof_padding_bytes N m =
     assertE (1 \<le> N \<and> N \<le> N_PADDING_BYTES_MAX)
       (if N = 1
        then Inr (m\<lparr>mm_header := (mm_header m)\<lparr>mmh_mac_ext := Length_Field_1_Bit,
               mmh_ie_type := ie_code ie_11_len_0_codes IE0_Padding_IE, mmh_length := 0\<rparr>\<rparr>)
        else if N = 2
        then Inr (m\<lparr>mm_header := (mm_header m)\<lparr>mmh_mac_ext := Length_Field_1_Bit,
               mmh_ie_type := ie_code ie_11_len_1_codes IE1_Padding_IE, mmh_length := 1\<rparr>\<rparr>)
        else let h = (mm_header m)\<lparr>mmh_mac_ext := Length_Field_8_Bit,
                 mmh_ie_type := ie_code ie_00_01_10_codes Padding_IE\<rparr>
             in bindE (mmh_packed_size h) (\<lambda>n.
                Inr (m\<lparr>mm_header := h\<lparr>mmh_length := N - n\<rparr>\<rparr>)))"

text \<open>The loop of \<open>fill_with_padding_ies\<close>.\<close>

function fill_loop :: "mmie \<Rightarrow> u32 \<Rightarrow> bytes res" where
  "fill_loop padding_ie N_bytes_to_fill =
     (if N_bytes_to_fill = 0 then Inr []
      else let N = (if N_bytes_to_fill > N_PADDING_BYTES_MAX then N_PADDING_BYTES_MAX
                    else N_bytes_to_fill)
           in bindE (set_nof_padding_bytes N padding_ie) (\<lambda>p.
              bindE (pack_mmh_sdu 0 p) (\<lambda>(bs, p').
              bindE (fill_loop p' (N_bytes_to_fill - N)) (\<lambda>rest. Inr (bs @ rest)))))"
  by pat_completeness auto

lemma fill_decreases:
  fixes n :: u32
  assumes "n \<noteq> 0"
  shows "unat (n - (if n > N_PADDING_BYTES_MAX then N_PADDING_BYTES_MAX else n)) < unat n"
proof (cases "n > N_PADDING_BYTES_MAX")
  case True
  have "unat (N_PADDING_BYTES_MAX) = 257"
    by (simp add: N_PADDING_BYTES_MAX_def unat_mask32 unat_word_ariths)
  with True show ?thesis by (simp add: unat_sub word_less_nat_alt word_le_nat_alt)
qed (use assms in \<open>simp add: unat_gt_0\<close>)

termination fill_loop
  by (relation "measure (\<lambda>(_, n). unat n)") (simp_all add: fill_decreases Let_def)

definition fill_with_padding_ies :: "u32 \<Rightarrow> bytes res" where
  "fill_with_padding_ies N_bytes_to_fill =
     bindE new_padding (\<lambda>p. fill_loop p N_bytes_to_fill)"

end
