(* ===== verification/Mmie_Pool.thy ===== *)
theory Mmie_Pool
  imports Mmie
begin

text \<open>
  \<open>mmie_pool_tx.cpp\<close>: for every class of MMIEs the vector of objects that are reused for every
  transmission, or by the decoder for every reception. A pointer to an object is its class and its
  index. Some constructors leave members uninitialised; their values are the parameters \<open>mu0\<close>
  and \<open>m0\<close>.
\<close>

type_synonym mmie_pool = "mmie_type \<Rightarrow> mmie list"
type_synonym mmie_ptr = "mmie_type \<times> nat"

fun new_mmie :: "u32 \<Rightarrow> random_access_resource \<Rightarrow> mmie_type \<Rightarrow> mmie res" where
  "new_mmie mu0 m0 T_padding = new_padding"
| "new_mmie mu0 m0 T_higher_layer_signalling = new_higher_layer_signalling"
| "new_mmie mu0 m0 T_user_plane_data = new_user_plane_data"
| "new_mmie mu0 m0 T_network_beacon = new_network_beacon"
| "new_mmie mu0 m0 T_cluster_beacon = new_cluster_beacon mu0"
| "new_mmie mu0 m0 T_association_request = new_association_request"
| "new_mmie mu0 m0 T_association_response = new_association_response"
| "new_mmie mu0 m0 T_association_release = new_association_release"
| "new_mmie mu0 m0 T_reconfiguration_request = new_reconfiguration_request"
| "new_mmie mu0 m0 T_reconfiguration_response = new_reconfiguration_response"
| "new_mmie mu0 m0 T_mac_security_info = new_mac_security_info"
| "new_mmie mu0 m0 T_route_info = new_route_info"
| "new_mmie mu0 m0 T_resource_allocation = new_resource_allocation mu0"
| "new_mmie mu0 m0 T_random_access_resource = new_random_access_resource m0"
| "new_mmie mu0 m0 T_rd_capability = new_rd_capability"
| "new_mmie mu0 m0 T_neighbouring = new_neighbouring"
| "new_mmie mu0 m0 T_broadcast_indication = new_broadcast_indication"
| "new_mmie mu0 m0 T_group_assignment = new_group_assignment"
| "new_mmie mu0 m0 T_load_info = new_load_info"
| "new_mmie mu0 m0 T_measurement_report = new_measurement_report"
| "new_mmie mu0 m0 T_configuration_request = new_configuration_request"
| "new_mmie mu0 m0 T_radio_device_status = new_radio_device_status"
| "new_mmie mu0 m0 T_power_target = new_power_target"
| "new_mmie mu0 m0 T_time_announce = new_time_announce"

text \<open>The two loops of \<open>set_nof_elements\<close> grow and shrink the vector to \<open>n\<close> elements.\<close>

definition set_nof_elements ::
  "u32 \<Rightarrow> random_access_resource \<Rightarrow> mmie_type \<Rightarrow> nat \<Rightarrow> mmie_pool \<Rightarrow> mmie_pool res" where
  "set_nof_elements mu0 m0 t n pool =
     assertE (n > 0) (
     bindE (new_mmie mu0 m0 t) (\<lambda>m.
     Inr (pool(t := take n (pool t @ replicate (n - length (pool t)) m)))))"

definition pool_types :: "mmie_type list" where
  "pool_types = [T_higher_layer_signalling, T_user_plane_data, T_network_beacon, T_cluster_beacon,
     T_association_request, T_association_response, T_association_release,
     T_reconfiguration_request, T_reconfiguration_response, T_mac_security_info, T_route_info,
     T_resource_allocation, T_random_access_resource, T_rd_capability, T_neighbouring,
     T_broadcast_indication, T_group_assignment, T_load_info, T_measurement_report,
     T_configuration_request, T_radio_device_status, T_power_target, T_time_announce]"

definition new_pool_tx :: "u32 \<Rightarrow> random_access_resource \<Rightarrow> mmie_pool res" where
  "new_pool_tx mu0 m0 =
     foldl (\<lambda>r t. bindE r (set_nof_elements mu0 m0 t 1)) (Inr (\<lambda>_. [])) pool_types"

text \<open>The pool of a receiver has several objects for flows.\<close>

definition max_nof_higher_layer_signalling :: nat where
  "max_nof_higher_layer_signalling = 8"

definition max_nof_user_plane_data_per_mac_pdu :: nat where
  "max_nof_user_plane_data_per_mac_pdu = 8"

definition new_pool_rx :: "u32 \<Rightarrow> random_access_resource \<Rightarrow> mmie_pool res" where
  "new_pool_rx mu0 m0 =
     bindE (new_pool_tx mu0 m0) (\<lambda>p.
     bindE (set_nof_elements mu0 m0 T_higher_layer_signalling max_nof_higher_layer_signalling p)
       (set_nof_elements mu0 m0 T_user_plane_data max_nof_user_plane_data_per_mac_pdu))"

definition get_nof_mmie_elements :: "mmie_pool \<Rightarrow> nat" where
  "get_nof_mmie_elements pool = sum_list (map (\<lambda>t. length (pool t)) pool_types)"

text \<open>The two overloads of \<open>get\<close>.\<close>

definition pool_at :: "mmie_pool \<Rightarrow> mmie_ptr \<Rightarrow> mmie res" where
  "pool_at pool p = array_at (pool (fst p)) (snd p)"

definition pool_update :: "mmie_ptr \<Rightarrow> mmie \<Rightarrow> mmie_pool \<Rightarrow> mmie_pool" where
  "pool_update p m pool = pool(fst p := (pool (fst p))[snd p := m])"

definition pool_get :: "mmie_type \<Rightarrow> nat \<Rightarrow> mmie_pool \<Rightarrow> mmie_ptr res" where
  "pool_get t i pool = bindE (pool_at pool (t, i)) (\<lambda>_. Inr (t, i))"

definition pool_get_mu :: "mmie_type \<Rightarrow> nat \<Rightarrow> u32 \<Rightarrow> mmie_pool \<Rightarrow> (mmie_ptr \<times> mmie_pool) res" where
  "pool_get_mu t i mu pool =
     bindE (pool_at pool (t, i)) (\<lambda>m.
     bindE (content_set_mu mu (mm_content m)) (\<lambda>c.
     Inr ((t, i), pool_update (t, i) (m\<lparr>mm_content := c\<rparr>) pool)))"

subsection \<open>Lemmas\<close>

text \<open>Every constructor passes its assertion, and an object is of the class it was made for.\<close>

lemma new_mmie_ok:
  obtains h c where "new_mmie mu0 m0 t = Inr \<lparr>mm_header = h, mm_content = c\<rparr>" "content_type c = t"
proof (cases t)
qed (auto simp: new_padding_def new_configuration_request_def new_higher_layer_signalling_def
    new_user_plane_data_def new_network_beacon_def new_cluster_beacon_def new_association_request_def
    new_association_response_def new_association_release_def new_reconfiguration_request_def
    new_reconfiguration_response_def new_mac_security_info_def new_route_info_def
    new_resource_allocation_def new_random_access_resource_def new_rd_capability_def
    new_neighbouring_def new_broadcast_indication_def new_group_assignment_def new_load_info_def
    new_measurement_report_def new_radio_device_status_def new_power_target_def new_time_announce_def
    constructed_def has_valid_inheritance_and_properties_def mmh_of_def is_packing_def is_flowing_def
    is_packing_peeking_def is_mu_depending_def Let_def intro: that)

definition pool_wf :: "mmie_pool \<Rightarrow> bool" where
  "pool_wf pool \<longleftrightarrow> (\<forall>t. \<forall>m\<in>set (pool t). content_type (mm_content m) = t)"

lemma set_nof_elements_ok:
  assumes "n > 0" "pool_wf pool"
  obtains pool' where "set_nof_elements mu0 m0 t n pool = Inr pool'" "pool_wf pool'"
    "length (pool' t) = n" "\<And>u. u \<noteq> t \<Longrightarrow> pool' u = pool u"
proof -
  obtain h c where m: "new_mmie mu0 m0 t = Inr \<lparr>mm_header = h, mm_content = c\<rparr>" "content_type c = t"
    by (rule new_mmie_ok)
  show ?thesis
  proof (rule that)
    show "set_nof_elements mu0 m0 t n pool = Inr (pool(t := take n (pool t @
        replicate (n - length (pool t)) \<lparr>mm_header = h, mm_content = c\<rparr>)))"
      using assms by (simp add: set_nof_elements_def m)
    show "pool_wf (pool(t := take n (pool t @
        replicate (n - length (pool t)) \<lparr>mm_header = h, mm_content = c\<rparr>)))"
      using assms(2) m(2) by (auto simp: pool_wf_def dest!: in_set_takeD split: if_splits)
  qed simp_all
qed

lemma new_pool_fold:
  assumes "pool_wf pool"
  shows "\<exists>pool'. foldl (\<lambda>r t. bindE r (set_nof_elements mu0 m0 t 1)) (Inr pool) ts = Inr pool'
    \<and> pool_wf pool' \<and> (\<forall>t. length (pool' t) = (if t \<in> set ts then 1 else length (pool t)))"
  using assms
proof (induction ts arbitrary: pool)
  case (Cons t ts)
  obtain p where p: "set_nof_elements mu0 m0 t 1 pool = Inr p" "pool_wf p" "length (p t) = 1"
    "\<And>u. u \<noteq> t \<Longrightarrow> p u = pool u"
    by (rule set_nof_elements_ok [of 1 pool mu0 m0 t]) (use Cons.prems in auto)
  from Cons.IH [OF p(2)] p show ?case by (auto simp: One_nat_def [symmetric] simp del: One_nat_def)
qed simp

definition rx_pool_size :: "mmie_type \<Rightarrow> nat" where
  "rx_pool_size t =
     (if t = T_higher_layer_signalling then 8 else if t = T_user_plane_data then 8
      else if t = T_padding then 0 else 1)"

lemma new_pool_tx_ok:
  "\<exists>p. new_pool_tx mu0 m0 = Inr p \<and> pool_wf p \<and> (\<forall>t. length (p t) = (if t = T_padding then 0 else 1))"
proof -
  have "t \<in> set pool_types \<longleftrightarrow> t \<noteq> T_padding" for t
    by (cases t) (simp_all add: pool_types_def)
  moreover obtain p where "new_pool_tx mu0 m0 = Inr p" "pool_wf p"
    "\<And>t. length (p t) = (if t \<in> set pool_types then 1 else 0)"
    using new_pool_fold [of "\<lambda>_. []" mu0 m0 pool_types]
    by (auto simp: new_pool_tx_def pool_wf_def)
  ultimately show ?thesis by auto
qed

lemma new_pool_rx_ok:
  "\<exists>p. new_pool_rx mu0 m0 = Inr p \<and> pool_wf p \<and> (\<forall>t. length (p t) = rx_pool_size t)"
proof -
  obtain p where p: "new_pool_tx mu0 m0 = Inr p" "pool_wf p"
    "\<And>t. length (p t) = (if t = T_padding then 0 else 1)" using new_pool_tx_ok by blast
  obtain q where q: "set_nof_elements mu0 m0 T_higher_layer_signalling 8 p = Inr q" "pool_wf q"
    "length (q T_higher_layer_signalling) = 8" "\<And>u. u \<noteq> T_higher_layer_signalling \<Longrightarrow> q u = p u"
    by (rule set_nof_elements_ok [OF _ p(2), of 8 mu0 m0 T_higher_layer_signalling]) auto
  obtain r where "set_nof_elements mu0 m0 T_user_plane_data 8 q = Inr r" "pool_wf r"
    "length (r T_user_plane_data) = 8" "\<And>u. u \<noteq> T_user_plane_data \<Longrightarrow> r u = q u"
    by (rule set_nof_elements_ok [OF _ q(2), of 8 mu0 m0 T_user_plane_data]) auto
  with p q show ?thesis
    by (auto simp: new_pool_rx_def max_nof_higher_layer_signalling_def
        max_nof_user_plane_data_per_mac_pdu_def rx_pool_size_def)
qed

lemma pool_wf_update:
  "pool_wf pool \<Longrightarrow> content_type (mm_content m) = fst p \<Longrightarrow> pool_wf (pool_update p m pool)"
  by (auto simp: pool_wf_def pool_update_def dest: set_update_subset_insert [THEN subsetD])

lemma pool_update_length [simp]: "length (pool_update p m pool t) = length (pool t)"
  by (simp add: pool_update_def)

lemma pool_at_update [simp]:
  "pool_at (pool_update p m pool) p = (if snd p < length (pool (fst p)) then Inr m else Inl Out_of_range)"
  "q \<noteq> p \<Longrightarrow> pool_at (pool_update p m pool) q = pool_at pool q"
  by (cases p, cases q, auto simp: pool_at_def pool_update_def array_at_def)+

lemma pool_at_type: "pool_wf pool \<Longrightarrow> pool_at pool p = Inr m \<Longrightarrow> content_type (mm_content m) = fst p"
  by (auto simp: pool_wf_def pool_at_def array_at_def split: if_splits)

end
