(* ===== verification/Mac_Pdu_Decoder.thy ===== *)
theory Mac_Pdu_Decoder
  imports Mmie_Pool Mac_Header
begin

text \<open>
  \<open>mac_pdu/mac_pdu_decoder.cpp\<close>: the state machine that takes a MAC PDU apart while its bytes
  arrive. \<open>a\<close> is the part of the HARQ buffer that has been written when \<open>decode\<close> is called,
  so that \<open>a_cnt_w_\<close> is its length and reading a byte that has not arrived yet is an
  \<open>Out_of_bounds_read\<close>. Counters are kept at 32 bits.
\<close>

subsection \<open>State\<close>

datatype decoder_state =
  MAC_HEADER_TYPE | MAC_COMMON_HEADER | MAC_MUX_HEADER_UNPACK_MAC_EXT_IE_TYPE
| A_MAC_MUX_HEADER_UNPACK_LENGTH_OR_FIXED_SIZE | B_MAC_MESSAGE_IE_PEEK | MAC_MESSAGE_IE_UNPACK
| MAC_PDU_CHECK_IF_DONE | MAC_PDU_DONE | MAC_PDU_PREMATURE_ABORT

text \<open>The pointers to the decoder's own headers are either null or set, \<open>dec_mmie\<close> and the
elements of \<open>mmie_decoded_vec\<close> point into the pool.\<close>

record mac_pdu_decoder =
  a_cnt_w_tb :: u32
  a_cnt_r :: u32
  dstate :: decoder_state
  mht_effective :: bool
  dec_mht :: mac_header_type
  mch_effective :: bool
  mch_variant :: mac_common_header
  dec_mu :: u32
  N_bytes_required :: u32
  dec_mmh :: mac_mux_header
  dec_mmie :: "mmie_ptr option"
  index_next_ie :: "mmie_type \<Rightarrow> nat"
  dec_pool :: mmie_pool
  mmie_decoded_vec :: "mmie_ptr list"

definition set_configuration :: "u32 \<Rightarrow> u32 \<Rightarrow> mac_pdu_decoder \<Rightarrow> mac_pdu_decoder res" where
  "set_configuration tb mu d =
     assertE (tb > 0) (
     let d' = d\<lparr>a_cnt_w_tb := tb, dstate := MAC_HEADER_TYPE, a_cnt_r := 0, mht_effective := False,
                dec_mht := mht_zero, mch_effective := False, dec_mu := mu, N_bytes_required := 1,
                dec_mmh := mmh_zero, dec_mmie := None, index_next_ie := (\<lambda>_. 0),
                mmie_decoded_vec := []\<rparr>
     in assertE (a_cnt_r d' + N_bytes_required d' \<le> a_cnt_w_tb d') (Inr d'))"

definition prepare_mac_pdu_check_if_done :: "mac_pdu_decoder \<Rightarrow> mac_pdu_decoder" where
  "prepare_mac_pdu_check_if_done d = d\<lparr>dstate := MAC_PDU_CHECK_IF_DONE, N_bytes_required := 0\<rparr>"

definition prepare_mac_pdu_premature_abort :: "mac_pdu_decoder \<Rightarrow> mac_pdu_decoder" where
  "prepare_mac_pdu_premature_abort d = d\<lparr>dstate := MAC_PDU_PREMATURE_ABORT, N_bytes_required := 0\<rparr>"

definition get_mmie_from_pool :: "mac_pdu_decoder \<Rightarrow> mmie_type \<Rightarrow> mmie_ptr option" where
  "get_mmie_from_pool d t =
     (let i = index_next_ie d t in if i < length (dec_pool d t) then Some (t, i) else None)"

text \<open>\<open>*mmie\<close>\<close>

definition deref :: "mac_pdu_decoder \<Rightarrow> mmie_ptr \<Rightarrow> mmie res" where
  "deref d p = (case pool_at (dec_pool d) p of Inr m \<Rightarrow> Inr m | Inl _ \<Rightarrow> Inl Invalid_pointer)"

definition current :: "mac_pdu_decoder \<Rightarrow> (mmie_ptr \<times> mmie) res" where
  "current d = (case dec_mmie d of
     Some p \<Rightarrow> bindE (deref d p) (\<lambda>m. Inr (p, m))
   | None \<Rightarrow> Inl Invalid_pointer)"

definition store :: "mmie_ptr \<Rightarrow> mmie \<Rightarrow> mac_pdu_decoder \<Rightarrow> mac_pdu_decoder" where
  "store p m d = d\<lparr>dec_pool := pool_update p m (dec_pool d)\<rparr>"

subsection \<open>The cases of the switch\<close>

definition emplaced :: "mac_header_type_ec \<Rightarrow> mac_common_header res" where
  "emplaced t =
     (case t of
        DATA_MAC_PDU \<Rightarrow> Inr (MCH_data dh_zero)
      | Beacon \<Rightarrow> Inr (MCH_beacon bh_zero)
      | Unicast \<Rightarrow> Inr (MCH_unicast uh_zero)
      | RD_Broadcasting \<Rightarrow> Inr (MCH_rd_broadcasting rh_zero)
      | mch_empty \<Rightarrow> Inr MCH_empty
      | _ \<Rightarrow> Inl Assertion_failed)"

definition on_mac_header_type :: "bytes \<Rightarrow> mac_pdu_decoder \<Rightarrow> mac_pdu_decoder res" where
  "on_mac_header_type a d =
     assertE (a_cnt_r d = 0) (
     assertE (0 < length a) (
     bindE (mht_unpack (drop (unat (a_cnt_r d)) a)) (\<lambda>(v, h).
     let d = d\<lparr>dec_mht := h\<rparr> in
     if \<not> v then Inr (prepare_mac_pdu_premature_abort d)
     else
       let d = d\<lparr>mht_effective := True, a_cnt_r := a_cnt_r d + N_bytes_required d\<rparr> in
       assertE (a_cnt_r d = 1) (
       bindE (emplaced (mht_MAC_header_type (dec_mht d))) (\<lambda>m.
       Inr (d\<lparr>dstate := MAC_COMMON_HEADER, mch_effective := True, mch_variant := m,
              N_bytes_required := of_nat (mch_packed_size m)\<rparr>))))))"

definition on_mac_common_header :: "bytes \<Rightarrow> mac_pdu_decoder \<Rightarrow> mac_pdu_decoder res" where
  "on_mac_common_header a d =
     bindE (if mch_effective d then mch_unpack (mch_variant d) (drop (unat (a_cnt_r d)) a)
            else Inl Invalid_pointer) (\<lambda>(v, m).
     let d = d\<lparr>mch_variant := m\<rparr> in
     if \<not> v then Inr (prepare_mac_pdu_premature_abort (d\<lparr>mch_effective := False\<rparr>))
     else Inr (d\<lparr>a_cnt_r := a_cnt_r d + N_bytes_required d,
                 dstate := MAC_MUX_HEADER_UNPACK_MAC_EXT_IE_TYPE, N_bytes_required := 1\<rparr>))"

definition on_mac_ext_ie_type ::
  "(mmie_type \<Rightarrow> bool) \<Rightarrow> bytes \<Rightarrow> mac_pdu_decoder \<Rightarrow> mac_pdu_decoder res" where
  "on_mac_ext_ie_type act a d =
     bindE (mmh_unpack_mac_ext_ie_type act mmh_zero (drop (unat (a_cnt_r d)) a)) (\<lambda>(v, h).
     let d = d\<lparr>dec_mmh := h\<rparr> in
     case mmh_tinfo h of
       None \<Rightarrow> Inr (prepare_mac_pdu_premature_abort d)
     | Some t \<Rightarrow>
         if t = T_padding then Inr (prepare_mac_pdu_premature_abort d)
         else
           let p = get_mmie_from_pool d t; d = d\<lparr>dec_mmie := p\<rparr> in
           if p = None then Inr (prepare_mac_pdu_premature_abort d)
           else bindE (current d) (\<lambda>(q, m).
             if is_packing_peeking (content_type (mm_content m))
             then let d = store q (m\<lparr>mm_header := dec_mmh d\<rparr>) d
                  in Inr (d\<lparr>a_cnt_r := a_cnt_r d + N_bytes_required d, dstate := B_MAC_MESSAGE_IE_PEEK,
                           N_bytes_required := get_packed_size_min_to_peek (mm_content m)\<rparr>)
             else bindE (mmh_packed_size (dec_mmh d)) (\<lambda>n.
                  Inr (d\<lparr>dstate := A_MAC_MUX_HEADER_UNPACK_LENGTH_OR_FIXED_SIZE,
                         N_bytes_required := n\<rparr>))))"

definition on_length_or_fixed_size :: "bytes \<Rightarrow> mac_pdu_decoder \<Rightarrow> mac_pdu_decoder res" where
  "on_length_or_fixed_size a d =
     bindE (mmh_unpack_length (dec_mmh d) (drop (unat (a_cnt_r d)) a)) (\<lambda>h.
     bindE (current d) (\<lambda>(p, m).
     let d = d\<lparr>dec_mmh := h\<rparr>;
         m = m\<lparr>mm_header := h\<rparr>;
         d = store p m d;
         d = d\<lparr>a_cnt_r := a_cnt_r d + N_bytes_required d, dstate := MAC_MESSAGE_IE_UNPACK\<rparr> in
     if mmh_length (mm_header m) < UNDEFINED_NUMERIC_32
     then Inr (d\<lparr>N_bytes_required := mmh_length (mm_header m)\<rparr>)
     else bindE (mmie_packed_size_of_sdu m) (\<lambda>n. Inr (d\<lparr>N_bytes_required := n\<rparr>))))"

definition on_peek :: "bytes \<Rightarrow> mac_pdu_decoder \<Rightarrow> mac_pdu_decoder res" where
  "on_peek a d =
     bindE (current d) (\<lambda>(p, m).
     bindE (content_set_mu (dec_mu d) (mm_content m)) (\<lambda>c.
     let d = store p (m\<lparr>mm_content := c\<rparr>) d; d = d\<lparr>dstate := MAC_MESSAGE_IE_UNPACK\<rparr> in
     bindE (if is_packing_peeking (content_type c)
            then content_peek c (drop (unat (a_cnt_r d)) a) else Inl Invalid_pointer) (\<lambda>r.
     case r of
       Inr n \<Rightarrow> Inr (d\<lparr>N_bytes_required := of_nat n\<rparr>)
     | Inl _ \<Rightarrow> Inr (prepare_mac_pdu_premature_abort d))))"

definition set_data_ptr :: "nat \<Rightarrow> mmie_content \<Rightarrow> mmie_content res" where
  "set_data_ptr off c =
     (case c of
        C_higher_layer_signalling _ \<Rightarrow> Inr (C_higher_layer_signalling (Some off))
      | C_user_plane_data _ \<Rightarrow> Inr (C_user_plane_data (Some off))
      | _ \<Rightarrow> Inl Assertion_failed)"

definition on_unpack :: "bytes \<Rightarrow> mac_pdu_decoder \<Rightarrow> mac_pdu_decoder res" where
  "on_unpack a d =
     bindE (current d) (\<lambda>(p, m).
     bindE (if is_packing (content_type (mm_content m))
            then content_unpack (mm_content m) (mmh_length (mm_header m)) (drop (unat (a_cnt_r d)) a)
            else bindE (set_data_ptr (unat (a_cnt_r d)) (mm_content m)) (\<lambda>c. Inr (True, c))) (\<lambda>(v, c).
     let d = store p (m\<lparr>mm_content := c\<rparr>) d in
     bindE (if v
            then (case mmh_tinfo (mm_header m) of
                    Some t \<Rightarrow> Inr (d\<lparr>index_next_ie := (index_next_ie d)(t := index_next_ie d t + 1),
                                     mmie_decoded_vec := mmie_decoded_vec d @ [p]\<rparr>)
                  | None \<Rightarrow> Inl Invalid_pointer)
            else Inr d) (\<lambda>d.
     Inr (prepare_mac_pdu_check_if_done (d\<lparr>a_cnt_r := a_cnt_r d + N_bytes_required d\<rparr>)))))"

subsection \<open>The loop\<close>

text \<open>One round of the loop; the result says whether the function returns.\<close>

definition exec_state ::
  "(mmie_type \<Rightarrow> bool) \<Rightarrow> bytes \<Rightarrow> mac_pdu_decoder \<Rightarrow> (bool \<times> mac_pdu_decoder) res" where
  "exec_state act a d =
     (let goon = (\<lambda>r. bindE r (\<lambda>d'. Inr (False, d'))) in
      case dstate d of
        MAC_HEADER_TYPE \<Rightarrow> goon (on_mac_header_type a d)
      | MAC_COMMON_HEADER \<Rightarrow> goon (on_mac_common_header a d)
      | MAC_MUX_HEADER_UNPACK_MAC_EXT_IE_TYPE \<Rightarrow> goon (on_mac_ext_ie_type act a d)
      | A_MAC_MUX_HEADER_UNPACK_LENGTH_OR_FIXED_SIZE \<Rightarrow> goon (on_length_or_fixed_size a d)
      | B_MAC_MESSAGE_IE_PEEK \<Rightarrow> goon (on_peek a d)
      | MAC_MESSAGE_IE_UNPACK \<Rightarrow> goon (on_unpack a d)
      | MAC_PDU_CHECK_IF_DONE \<Rightarrow>
          (if a_cnt_r d < a_cnt_w_tb d
           then Inr (False, d\<lparr>dstate := MAC_MUX_HEADER_UNPACK_MAC_EXT_IE_TYPE, N_bytes_required := 1\<rparr>)
           else Inr (True, d\<lparr>dstate := MAC_PDU_DONE\<rparr>))
      | MAC_PDU_DONE \<Rightarrow> Inl Assertion_failed
      | MAC_PDU_PREMATURE_ABORT \<Rightarrow> Inr (True, d\<lparr>a_cnt_r := of_nat (length a)\<rparr>))"

definition decode_round ::
  "(mmie_type \<Rightarrow> bool) \<Rightarrow> bytes \<Rightarrow> mac_pdu_decoder \<Rightarrow> (bool \<times> mac_pdu_decoder) res" where
  "decode_round act a d =
     (if a_cnt_r d + N_bytes_required d > a_cnt_w_tb d
      then exec_state act a (prepare_mac_pdu_premature_abort d)
      else if of_nat (length a) - a_cnt_r d < N_bytes_required d then Inr (True, d)
      else exec_state act a d)"

partial_function (option) decode_loop ::
  "(mmie_type \<Rightarrow> bool) \<Rightarrow> bytes \<Rightarrow> mac_pdu_decoder \<Rightarrow> mac_pdu_decoder res option" where
  [code]: "decode_loop act a d =
     (case decode_round act a d of
        Inl e \<Rightarrow> Some (Inl e)
      | Inr (returns, d') \<Rightarrow> (if returns then Some (Inr d') else decode_loop act a d'))"

definition decode ::
  "(mmie_type \<Rightarrow> bool) \<Rightarrow> bytes \<Rightarrow> mac_pdu_decoder \<Rightarrow> mac_pdu_decoder res option" where
  "decode act a d =
     (if \<not> length a \<le> unat (a_cnt_w_tb d) then Some (Inl Assertion_failed)
      else if \<not> unat (a_cnt_r d) \<le> length a then Some (Inl Assertion_failed)
      else decode_loop act a d)"

definition has_reached_valid_final_state :: "mac_pdu_decoder \<Rightarrow> bool res" where
  "has_reached_valid_final_state d =
     assertE (a_cnt_r d = a_cnt_w_tb d) (
     assertE (dstate d = MAC_PDU_DONE \<or> dstate d = MAC_PDU_PREMATURE_ABORT) (
     Inr (a_cnt_r d = a_cnt_w_tb d \<and> (dstate d = MAC_PDU_DONE \<or> dstate d = MAC_PDU_PREMATURE_ABORT))))"

definition get_mac_header_type :: "mac_pdu_decoder \<Rightarrow> mac_header_type option" where
  "get_mac_header_type d = (if mht_effective d then Some (dec_mht d) else None)"

definition get_mac_common_header :: "mac_pdu_decoder \<Rightarrow> mac_common_header option" where
  "get_mac_common_header d = (if mch_effective d then Some (mch_variant d) else None)"

definition has_any_data :: "mac_pdu_decoder \<Rightarrow> bool" where
  "has_any_data d \<longleftrightarrow> mmie_decoded_vec d \<noteq> []"

definition get_N_mmie :: "mmie_type \<Rightarrow> mac_pdu_decoder \<Rightarrow> nat" where
  "get_N_mmie t d = length (filter (\<lambda>p. fst p = t) (mmie_decoded_vec d))"

end
