(* ===== verification/Stable_Reads.thy ===== *)
theory Stable_Reads
  imports Mmie_Pool Mac_Header
begin

text \<open>
  The decoder looks at a buffer that is still growing. \<open>agree r r'\<close>: when \<open>r\<close> ends
  normally, \<open>r'\<close> ends with the same result. Every reading operation of the program agrees with
  itself on a longer buffer: what has once been read does not change when more bytes arrive.
\<close>

definition agree :: "'a res \<Rightarrow> 'a res \<Rightarrow> bool" where
  "agree r r' \<longleftrightarrow> (\<forall>x. r = Inr x \<longrightarrow> r' = Inr x)"

named_theorems agree_intros \<open>the reading operations agree with themselves on a longer buffer\<close>

lemma agreeD: "agree r r' \<Longrightarrow> r = Inr x \<Longrightarrow> r' = Inr x"
  by (simp add: agree_def)

lemma agree_refl [simp, agree_intros]: "agree r r"
  by (simp add: agree_def)

lemma agree_Inl [simp]: "agree (Inl e) r"
  by (simp add: agree_def)

lemma agree_bind [agree_intros]:
  "agree r r' \<Longrightarrow> (\<And>x. r = Inr x \<Longrightarrow> agree (f x) (f' x)) \<Longrightarrow> agree (bindE r f) (bindE r' f')"
  by (auto simp: agree_def bindE_eq_Inr)

lemma agree_assert [agree_intros]: "agree r r' \<Longrightarrow> agree (assertE c r) (assertE c r')"
  by (simp add: agree_def)

lemma agree_if [agree_intros]:
  "agree r r' \<Longrightarrow> agree s s' \<Longrightarrow> agree (if c then r else s) (if c then r' else s')"
  by simp

lemma agree_prod [agree_intros]:
  "(\<And>x y. agree (f x y) (f' x y)) \<Longrightarrow> agree (case p of (x, y) \<Rightarrow> f x y) (case p of (x, y) \<Rightarrow> f' x y)"
  by (cases p) simp

lemma agree_sum [agree_intros]:
  "(\<And>x. agree (f x) (f' x)) \<Longrightarrow> (\<And>y. agree (g y) (g' y)) \<Longrightarrow>
   agree (case s of Inl x \<Rightarrow> f x | Inr y \<Rightarrow> g y) (case s of Inl x \<Rightarrow> f' x | Inr y \<Rightarrow> g' y)"
  by (cases s) simp_all

lemma agree_option [agree_intros]:
  "agree f f' \<Longrightarrow> (\<And>y. agree (g y) (g' y)) \<Longrightarrow>
   agree (case s of None \<Rightarrow> f | Some y \<Rightarrow> g y) (case s of None \<Rightarrow> f' | Some y \<Rightarrow> g' y)"
  by (cases s) simp_all

lemma agree_rd [agree_intros]: "agree (rd a i) (rd (a @ b) i)"
  by (auto simp: agree_def rd_def nth_append)

lemma agree_b2l_lower [agree_intros]: "agree (b2l_lower a i n) (b2l_lower (a @ b) i n)"
  by (simp add: agree_def b2l_lower_def)

lemma agree_b2l_upper [agree_intros]: "agree (b2l_upper a i n) (b2l_upper (a @ b) i n)"
  by (simp add: agree_def b2l_upper_def)

lemma agree_rd_channel [agree_intros]: "agree (rd_channel a i) (rd_channel (a @ b) i)"
  unfolding rd_channel_def by (intro agree_intros)

lemma agree_rd_enum [agree_intros]: "agree (rd_enum c k s a i) (rd_enum c k s (a @ b) i)"
  unfolding rd_enum_def by (intro agree_intros)

lemma agree_rd_opt [agree_intros]:
  "(\<And>i. agree (f i) (f' i)) \<Longrightarrow> agree (rd_opt c off k f) (rd_opt c off k f')"
  unfolding rd_opt_def by (intro agree_intros)

lemma agree_rd_loop [agree_intros]:
  "(\<And>i. agree (f i) (f' i)) \<Longrightarrow> agree (rd_loop f ins n off s) (rd_loop f' ins n off s)"
  by (induction n arbitrary: off s) (simp_all, intro agree_intros)

subsection \<open>Peeking and unpacking\<close>

lemma agree_peeks [agree_intros]:
  "agree (nb_peek a) (nb_peek (a @ b))" "agree (cb_peek mu a) (cb_peek mu (a @ b))"
  "agree (aq_peek a) (aq_peek (a @ b))" "agree (ap_peek a) (ap_peek (a @ b))"
  "agree (rq_peek a) (rq_peek (a @ b))" "agree (rp_peek a) (rp_peek (a @ b))"
  "agree (ra_peek mu a) (ra_peek mu (a @ b))" "agree (rr_peek mu a) (rr_peek mu (a @ b))"
  "agree (rc_peek a) (rc_peek (a @ b))" "agree (ne_peek a) (ne_peek (a @ b))"
  "agree (bi_peek a) (bi_peek (a @ b))" "agree (li_peek a) (li_peek (a @ b))"
  "agree (mr_peek a) (mr_peek (a @ b))"
  unfolding nb_peek_def cb_peek_def aq_peek_def ap_peek_def rq_peek_def rp_peek_def ra_peek_def
    rr_peek_def rc_peek_def ne_peek_def bi_peek_def li_peek_def mr_peek_def Let_def
  by (intro agree_intros)+

lemma agree_parts [agree_intros]:
  "agree (unpack_harq_config a i) (unpack_harq_config (a @ b) i)"
  "agree (rd_ft a i) (rd_ft (a @ b) i)" "agree (rd_flow a i) (rd_flow (a @ b) i)"
  "agree (unpack_phy_capability a i) (unpack_phy_capability (a @ b) i)"
  "agree (unpack_allocation mu a i) (unpack_allocation mu (a @ b) i)"
  "agree (rd_channel_16 a i) (rd_channel_16 (a @ b) i)"
  "agree (rd_assignment a i) (rd_assignment (a @ b) i)"
  "agree (bi_unpack_feedback a i t) (bi_unpack_feedback (a @ b) i t)"
  unfolding unpack_harq_config_def rd_ft_def rd_flow_def unpack_phy_capability_def
    unpack_allocation_def rd_channel_16_def rd_assignment_def bi_unpack_feedback_def Let_def
       apply (intro agree_intros)+
  by (cases t; simp; intro agree_intros)

lemma agree_unpack_additional [agree_intros]:
  "agree (unpack_additional a sz off acc) (unpack_additional (a @ b) sz off acc)"
proof (induction a sz off acc rule: unpack_additional.induct)
  case (1 a sz off acc)
  show ?case
  proof (cases "off < sz")
    case True
    then show ?thesis
      apply (subst unpack_additional.simps [of a], subst unpack_additional.simps [of "a @ b"])
      apply (simp only: if_True, intro agree_intros)
      by (rule 1)
  next
    case False
    then show ?thesis by (subst (1 2) unpack_additional.simps) simp
  qed
qed

lemma agree_unpacks [agree_intros]:
  "agree (nb_unpack a) (nb_unpack (a @ b))" "agree (cb_unpack mu a) (cb_unpack mu (a @ b))"
  "agree (aq_unpack a) (aq_unpack (a @ b))" "agree (ap_unpack a) (ap_unpack (a @ b))"
  "agree (ar_unpack a) (ar_unpack (a @ b))" "agree (rq_unpack a) (rq_unpack (a @ b))"
  "agree (rp_unpack a) (rp_unpack (a @ b))" "agree (si_unpack a) (si_unpack (a @ b))"
  "agree (ri_unpack a) (ri_unpack (a @ b))" "agree (ra_unpack mu a) (ra_unpack mu (a @ b))"
  "agree (rr_unpack mu a) (rr_unpack mu (a @ b))" "agree (rc_unpack a) (rc_unpack (a @ b))"
  "agree (ne_unpack a) (ne_unpack (a @ b))" "agree (bi_unpack a) (bi_unpack (a @ b))"
  "agree (ga_unpack n a) (ga_unpack n (a @ b))" "agree (li_unpack a) (li_unpack (a @ b))"
  "agree (mr_unpack a) (mr_unpack (a @ b))" "agree (rs_unpack a) (rs_unpack (a @ b))"
  "agree (pt_unpack a) (pt_unpack (a @ b))" "agree (ta_unpack a) (ta_unpack (a @ b))"
  unfolding nb_unpack_def cb_unpack_def aq_unpack_def ap_unpack_def ar_unpack_def rq_unpack_def
    rp_unpack_def si_unpack_def ri_unpack_def ra_unpack_def rr_unpack_def rc_unpack_def
    ne_unpack_def bi_unpack_def ga_unpack_def li_unpack_def mr_unpack_def rs_unpack_def
    pt_unpack_def ta_unpack_def Let_def
  by (intro agree_intros)+

lemma agree_headers [agree_intros]:
  "agree (mht_unpack a) (mht_unpack (a @ b))" "agree (dh_unpack a) (dh_unpack (a @ b))"
  "agree (bh_unpack a) (bh_unpack (a @ b))" "agree (uh_unpack a) (uh_unpack (a @ b))"
  "agree (rh_unpack a) (rh_unpack (a @ b))"
  unfolding mht_unpack_def dh_unpack_def bh_unpack_def uh_unpack_def rh_unpack_def Let_def
  by (intro agree_intros)+

lemma agree_mch_unpack [agree_intros]: "agree (mch_unpack h a) (mch_unpack h (a @ b))"
  by (cases h) (simp_all, (intro agree_intros)+)

lemma agree_mux_header [agree_intros]:
  "agree (mmh_unpack_mac_ext_ie_type act h a) (mmh_unpack_mac_ext_ie_type act h (a @ b))"
  "agree (mmh_unpack_length h a) (mmh_unpack_length h (a @ b))"
  unfolding mmh_unpack_mac_ext_ie_type_def mmh_unpack_length_def Let_def
   apply (intro agree_intros)
  by (cases "mmh_mac_ext h"; simp; intro agree_intros)

lemma agree_content_peek [agree_intros]: "agree (content_peek c a) (content_peek c (a @ b))"
  by (cases c) (simp_all add: agree_peeks)

lemma agree_content_unpack [agree_intros]:
  "agree (content_unpack c len a) (content_unpack c len (a @ b))"
  by (cases c) (simp_all add: with_content_def, (intro agree_intros)+)

end
