(* ===== verification/Mac_Pdu_Reception.thy ===== *)
theory Mac_Pdu_Reception
  imports Mac_Pdu_Decoder Stable_Reads
begin

text \<open>
  What holds of the decoder of \<open>mac_pdu/mac_pdu_decoder.cpp\<close> in every state, for every
  selection of classes it is compiled with: the invariant \<open>receiving\<close>, termination, the
  absence of faults, and independence of the portions in which the bytes arrive. What is assumed of
  the classes is the locale \<open>mmie_codecs\<close>.
\<close>

subsection \<open>The header in front of a class\<close>

text \<open>What the multiplexing header of a class can look like once its length is known.\<close>

definition header_ok :: "mmie_type \<Rightarrow> mac_mux_header \<Rightarrow> bool" where
  "header_ok t h \<longleftrightarrow> mmh_tinfo h = Some t
     \<and> (is_flowing t \<or> t = T_group_assignment \<longrightarrow> unat (mmh_length h) < 2 ^ 16)
     \<and> (t = T_radio_device_status \<longrightarrow> mmh_length h = 1)
     \<and> (t = T_configuration_request \<longrightarrow> mmh_length h = 0)
     \<and> (is_packing t \<and> t \<noteq> T_group_assignment \<and> t \<noteq> T_radio_device_status \<longrightarrow>
          mmh_length h = UNDEFINED_NUMERIC_32)"

lemma tinfo_16_bit_range:
  "tinfo_16_bit e = Some t \<Longrightarrow> t \<in> {T_higher_layer_signalling, T_user_plane_data, T_group_assignment}"
  by (cases e) auto

lemma tinfo_8_bit_range:
  "tinfo_8_bit e = Some t \<Longrightarrow>
     t \<in> {T_padding, T_higher_layer_signalling, T_user_plane_data, T_group_assignment}"
  by (cases e) auto

lemma tinfo_no_length_range:
  "tinfo_no_length e = Some t \<Longrightarrow> t \<noteq> T_padding \<Longrightarrow> t \<noteq> T_configuration_request
     \<and> t \<noteq> T_radio_device_status \<and> t \<noteq> T_group_assignment \<and> \<not> is_flowing t"
  by (cases e) (auto simp: is_flowing_def)

lemma tinfo_len_range:
  "tinfo_len_0 e0 = Some t \<Longrightarrow> t \<in> {T_padding, T_configuration_request}"
  "tinfo_len_1 e1 = Some t \<Longrightarrow> t \<in> {T_padding, T_radio_device_status}"
  by (cases e0; auto) (cases e1; auto)

lemma activated_eq_Some: "activated act x = Some t \<longleftrightarrow> x = Some t \<and> act t"
  by (auto simp: activated_def split: option.splits)

lemma UNDEFINED_not_less: "\<not> UNDEFINED_NUMERIC_32 < (x :: u32)"
  using u32_less [of x] by (simp add: UNDEFINED_NUMERIC_32_def not_less word_le_nat_alt)

lemma UNDEFINED_less_iff: "(x :: u32) < UNDEFINED_NUMERIC_32 \<longleftrightarrow> x \<noteq> UNDEFINED_NUMERIC_32"
  using UNDEFINED_not_less [of x] by (auto simp: not_less)

lemma header_received:
  assumes e: "mmh_unpack_mac_ext_ie_type act mmh_zero a = Inr (v, h)" and t: "mmh_tinfo h = Some t"
    and p: "t \<noteq> T_padding"
  shows "act t" "enum_valid mac_ext_ec (mmh_mac_ext h)" "1 \<le> length a"
    and "mmh_unpack_length h a = Inr h' \<Longrightarrow> header_ok t h'"
    and "mmh_packed_size h = Inr n \<Longrightarrow> unat n \<le> length a \<Longrightarrow> \<exists>h'. mmh_unpack_length h a = Inr h'"
proof -
  obtain b where b: "rd a 0 = Inr b" using e by (auto simp: mmh_unpack_mac_ext_ie_type_def bindE_eq_Inr)
  have ba: "b = ucast (a ! 0)" "1 \<le> length a" using b by (auto simp: rd_def Suc_le_eq split: if_splits)
  let ?x = "from_coded_value mac_ext_ec (drop_bit 6 b)"
  have x: "enum_valid mac_ext_ec ?x" unfolding ba by (rule mac_ext_received)
  then consider "?x = No_Length_Field" | "?x = Length_Field_8_Bit" | "?x = Length_Field_16_Bit"
    | "?x = Length_Field_1_Bit" by (cases ?x) (auto simp: mac_ext_valid_iff)
  then have "act t \<and> mmh_mac_ext h = ?x \<and> mmh_length h = UNDEFINED_NUMERIC_32 \<and>
     (?x = No_Length_Field \<longrightarrow> (\<exists>e. tinfo_no_length e = Some t)) \<and>
     (?x = Length_Field_8_Bit \<longrightarrow> (\<exists>e. tinfo_8_bit e = Some t)) \<and>
     (?x = Length_Field_16_Bit \<longrightarrow> (\<exists>e. tinfo_16_bit e = Some t)) \<and>
     (?x = Length_Field_1_Bit \<longrightarrow> (if drop_bit 5 b AND 1 = 0 then \<exists>e. tinfo_len_0 e = Some t
         else \<exists>e. tinfo_len_1 e = Some t))"
    using e t by cases (auto simp: mmh_unpack_mac_ext_ie_type_def b mmh_zero_def Let_def activated_eq_Some split: if_splits)
  note F = this
  show "act t" "enum_valid mac_ext_ec (mmh_mac_ext h)" "1 \<le> length a"
    using F x ba by auto
  have len: "mmh_mac_ext h = ?x" "mmh_length h = UNDEFINED_NUMERIC_32" using F by auto
  have b16: "unat c < 2 ^ 16" if "rd a i = Inr c \<or> b2l_lower a 1 2 = Inr c" for c i
  proof -
    have "fits 16 c"
      using that fits_b2l_lower [of a 1 2 c]
      by (auto simp: rd_def fits_ucast_u8 split: if_splits)
    then show ?thesis by (simp add: fits_iff_unat)
  qed
  have ti: "mmh_tinfo h' = Some t" if "mmh_unpack_length h a = Inr h'" for h'
    using that t x by (auto simp: mmh_unpack_length_def bindE_eq_Inr split: mac_ext.splits)
  show "header_ok t h'" if u: "mmh_unpack_length h a = Inr h'"
  proof (cases ?x)
    case No_Length_Field
    then show ?thesis
      using F u ti [OF u] tinfo_no_length_range [of _ t] p
      by (auto simp: mmh_unpack_length_def header_ok_def)
  next
    case Length_Field_8_Bit
    then show ?thesis
      using F u ti [OF u] tinfo_8_bit_range [of _ t] p b16
      by (fastforce simp: mmh_unpack_length_def header_ok_def bindE_eq_Inr is_packing_def)
  next
    case Length_Field_16_Bit
    then show ?thesis
      using F u ti [OF u] tinfo_16_bit_range [of _ t] p b16
      by (fastforce simp: mmh_unpack_length_def header_ok_def bindE_eq_Inr is_packing_def)
  next
    case Length_Field_1_Bit
    have l: "drop_bit 5 b AND 1 = 0 \<or> drop_bit 5 b AND 1 = 1"
      by (simp add: and_one_eq mod_2_eq_odd)
    then show ?thesis
      using F u ti [OF u] tinfo_len_range [of _ t] p Length_Field_1_Bit b
      by (auto simp: mmh_unpack_length_def header_ok_def bindE_eq_Inr is_packing_def is_flowing_def
          split: if_splits)
  qed (use x in \<open>simp_all add: mac_ext_valid_iff\<close>)
  show "\<exists>h'. mmh_unpack_length h a = Inr h'" if "mmh_packed_size h = Inr n" "unat n \<le> length a"
    using that len x ba by (cases ?x)
      (auto simp: mmh_packed_size_def mmh_unpack_length_def mac_ext_valid_iff rd_ok b2l_lower_def)
qed

subsection \<open>What is assumed of the classes\<close>

text \<open>
  \<open>act\<close> are the classes the decoder is compiled with, \<open>F\<close> the faults with which their
  unpacking may stop on bytes that have arrived, \<open>B\<close> a bound on the number of bytes a message
  asks for. Peeking and unpacking keep within the bytes asked for.
\<close>

definition sdu_size :: "mmie_content \<Rightarrow> u32 \<Rightarrow> u32 res" where
  "sdu_size c len = (if len < UNDEFINED_NUMERIC_32 then Inr len
     else bindE (content_packed_size c) (\<lambda>n. Inr (of_nat n)))"

locale mmie_codecs =
  fixes act :: "mmie_type \<Rightarrow> bool" and F :: "fault set" and B :: nat
  assumes peek_ok: "act (content_type c) \<Longrightarrow> is_packing_peeking (content_type c) \<Longrightarrow>
      unat (get_packed_size_min_to_peek c) \<le> length a \<Longrightarrow>
      okE F (content_peek c a) (\<lambda>_. True)"
    and peek_bound: "act (content_type c) \<Longrightarrow> is_packing_peeking (content_type c) \<Longrightarrow>
      content_peek c a = Inr (Inr n) \<Longrightarrow> n \<le> B"
    and peeked_ok: "act (content_type c) \<Longrightarrow> is_packing_peeking (content_type c) \<Longrightarrow>
      content_peek c a = Inr (Inr n) \<Longrightarrow> n \<le> length a \<Longrightarrow>
      okE F (content_unpack c len a) (\<lambda>_. True)"
    and fixed_ok: "act (content_type c) \<Longrightarrow> is_packing (content_type c) \<Longrightarrow>
      \<not> is_packing_peeking (content_type c) \<Longrightarrow> header_ok (content_type c) h \<Longrightarrow>
      sdu_size c (mmh_length h) = Inr k \<Longrightarrow> unat k \<le> length a \<Longrightarrow>
      okE F (content_unpack c (mmh_length h) a) (\<lambda>_. True)"
    and size_ok: "act (content_type c) \<Longrightarrow> is_packing (content_type c) \<Longrightarrow>
      \<not> is_packing_peeking (content_type c) \<Longrightarrow> header_ok (content_type c) h \<Longrightarrow>
      okE F (sdu_size c (mmh_length h)) (\<lambda>n. unat n \<le> B)"
    and bound_range: "2 ^ 16 - 1 \<le> B \<and> B < 2 ^ 32"
    and no_configuration: "act T_configuration_request \<Longrightarrow> Assertion_failed \<in> F"

lemma content_unpack_type:
  "content_unpack c len a = Inr (v, c') \<Longrightarrow> content_type c' = content_type c"
  by (cases c) (auto simp: with_content_def bindE_eq_Inr)

lemma content_set_mu_type: "content_set_mu mu c = Inr c' \<Longrightarrow> content_type c' = content_type c"
  by (cases c) auto

lemma content_set_mu_ok: "mu_ok mu \<Longrightarrow> \<exists>c'. content_set_mu mu c = Inr c'"
  by (cases c) auto

lemma content_set_mu_min [simp]:
  "content_set_mu mu c = Inr c' \<Longrightarrow> get_packed_size_min_to_peek c' = get_packed_size_min_to_peek c"
  by (cases c) auto

subsection \<open>The invariant\<close>

text \<open>The objects that were decoded: the \<open>i\<close>-th one of a class is the \<open>i\<close>-th of the pool,
and the data of a flow lie within the bytes that have been read.\<close>

definition flow_ok :: "nat \<Rightarrow> mmie \<Rightarrow> bool" where
  "flow_ok r m \<longleftrightarrow> (is_flowing (content_type (mm_content m)) \<longrightarrow>
     (\<exists>off. get_data_ptr (mm_content m) = Inr off \<and> off + unat (get_data_size m) \<le> r))"

definition decoded_ok :: "(mmie_type \<Rightarrow> bool) \<Rightarrow> mac_pdu_decoder \<Rightarrow> bool" where
  "decoded_ok act d \<longleftrightarrow>
     (\<forall>t. filter (\<lambda>p. fst p = t) (mmie_decoded_vec d) = map (Pair t) [0..<index_next_ie d t]
        \<and> index_next_ie d t \<le> length (dec_pool d t))
   \<and> (\<forall>p\<in>set (mmie_decoded_vec d). act (fst p) \<and> fst p \<noteq> T_padding
        \<and> (\<exists>m. deref d p = Inr m \<and> flow_ok (unat (a_cnt_r d)) m))"

text \<open>The object that is being filled is the next one of its class.\<close>

definition filling :: "(mmie_type \<Rightarrow> bool) \<Rightarrow> mmie_type \<Rightarrow> mac_pdu_decoder \<Rightarrow> bool" where
  "filling act t d \<longleftrightarrow> act t \<and> t \<noteq> T_padding \<and> dec_mmie d = Some (t, index_next_ie d t)
     \<and> index_next_ie d t < length (dec_pool d t)"

definition state_ok :: "(mmie_type \<Rightarrow> bool) \<Rightarrow> bytes \<Rightarrow> mac_pdu_decoder \<Rightarrow> bool" where
  "state_ok act a d =
     (case dstate d of
        MAC_HEADER_TYPE \<Rightarrow> a_cnt_r d = 0 \<and> N_bytes_required d = 1
      | MAC_COMMON_HEADER \<Rightarrow>
          mch_effective d \<and> N_bytes_required d = of_nat (mch_packed_size (mch_variant d))
      | MAC_MUX_HEADER_UNPACK_MAC_EXT_IE_TYPE \<Rightarrow> N_bytes_required d = 1
      | A_MAC_MUX_HEADER_UNPACK_LENGTH_OR_FIXED_SIZE \<Rightarrow>
          (\<exists>t. filling act t d \<and> \<not> is_packing_peeking t \<and> mmh_tinfo (dec_mmh d) = Some t
             \<and> mmh_unpack_mac_ext_ie_type act mmh_zero (drop (unat (a_cnt_r d)) a) = Inr (True, dec_mmh d)
             \<and> mmh_packed_size (dec_mmh d) = Inr (N_bytes_required d))
      | B_MAC_MESSAGE_IE_PEEK \<Rightarrow>
          (\<exists>t m. filling act t d \<and> is_packing_peeking t \<and> deref d (t, index_next_ie d t) = Inr m
             \<and> mmh_tinfo (mm_header m) = Some t
             \<and> N_bytes_required d = get_packed_size_min_to_peek (mm_content m))
      | MAC_MESSAGE_IE_UNPACK \<Rightarrow>
          (\<exists>t m. filling act t d \<and> deref d (t, index_next_ie d t) = Inr m
             \<and> mmh_tinfo (mm_header m) = Some t
             \<and> (if is_packing_peeking t
                then \<exists>n. content_peek (mm_content m) (drop (unat (a_cnt_r d)) a) = Inr (Inr n)
                   \<and> n < 2 ^ 32 \<and> N_bytes_required d = of_nat n
                else header_ok t (mm_header m)
                   \<and> (is_packing t \<longrightarrow>
                        sdu_size (mm_content m) (mmh_length (mm_header m)) = Inr (N_bytes_required d))
                   \<and> (\<not> is_packing t \<longrightarrow> N_bytes_required d = mmh_length (mm_header m))))
      | MAC_PDU_DONE \<Rightarrow> N_bytes_required d = 0 \<and> a_cnt_r d = a_cnt_w_tb d
      | _ \<Rightarrow> N_bytes_required d = 0)"

definition receiving :: "(mmie_type \<Rightarrow> bool) \<Rightarrow> bytes \<Rightarrow> mac_pdu_decoder \<Rightarrow> bool" where
  "receiving act a d \<longleftrightarrow> unat (a_cnt_r d) \<le> length a \<and> length a \<le> unat (a_cnt_w_tb d)
     \<and> pool_wf (dec_pool d) \<and> decoded_ok act d \<and> state_ok act a d"

subsection \<open>Counting\<close>

lemma counter_advance:
  fixes r N :: u32
  assumes "unat N \<le> n - unat r" "unat r \<le> n" "n \<le> unat (tb :: u32)"
  shows "unat (r + N) = unat r + unat N" "unat (r + N) \<le> n"
proof -
  have "unat tb < 2 ^ 32" by (rule u32_less)
  with assms show "unat (r + N) = unat r + unat N" by (simp add: unat_word_ariths)
  with assms show "unat (r + N) \<le> n" by simp
qed

lemma counter_available:
  fixes r N :: u32
  assumes "\<not> of_nat n - r < N" "unat r \<le> n" "n \<le> unat (tb :: u32)"
  shows "unat N \<le> n - unat r"
proof -
  have n: "n < 2 ^ 32" using u32_less [of tb] assms(3) by linarith
  then have "unat (of_nat n :: u32) = n" by (simp add: unat_of_nat take_bit_nat_eq_self)
  moreover from this have "r \<le> of_nat n" using assms(2) by (simp add: word_le_nat_alt)
  ultimately have "unat (of_nat n - r) = n - unat r" by (simp add: unat_sub)
  with assms(1) show ?thesis by (simp add: not_less word_le_nat_alt)
qed

text \<open>Every round makes progress: bytes are consumed, or the state comes closer to the end.\<close>

fun state_rank :: "decoder_state \<Rightarrow> nat" where
  "state_rank B_MAC_MESSAGE_IE_PEEK = 8"
| "state_rank MAC_MESSAGE_IE_UNPACK = 7"
| "state_rank MAC_PDU_CHECK_IF_DONE = 6"
| "state_rank MAC_HEADER_TYPE = 6"
| "state_rank MAC_COMMON_HEADER = 5"
| "state_rank MAC_MUX_HEADER_UNPACK_MAC_EXT_IE_TYPE = 4"
| "state_rank A_MAC_MUX_HEADER_UNPACK_LENGTH_OR_FIXED_SIZE = 3"
| "state_rank _ = 0"

definition remaining :: "bytes \<Rightarrow> mac_pdu_decoder \<Rightarrow> nat" where
  "remaining a d = 9 * (length a - unat (a_cnt_r d)) + state_rank (dstate d)"

text \<open>What a round keeps.\<close>

definition same_pdu :: "mac_pdu_decoder \<Rightarrow> mac_pdu_decoder \<Rightarrow> bool" where
  "same_pdu d d' \<longleftrightarrow> a_cnt_w_tb d' = a_cnt_w_tb d \<and> dec_mu d' = dec_mu d"

definition round_ok :: "(mmie_type \<Rightarrow> bool) \<Rightarrow> bytes \<Rightarrow> mac_pdu_decoder \<Rightarrow> mac_pdu_decoder \<Rightarrow> bool" where
  "round_ok act a d d' \<longleftrightarrow> receiving act a d' \<and> same_pdu d d' \<and> remaining a d' < remaining a d
     \<and> dstate d' \<noteq> MAC_PDU_DONE"

definition enough :: "bytes \<Rightarrow> mac_pdu_decoder \<Rightarrow> bool" where
  "enough a d \<longleftrightarrow> unat (N_bytes_required d) \<le> length a - unat (a_cnt_r d)"

text \<open>Consuming the bytes that were asked for.\<close>

lemma consumed:
  assumes "receiving act a d" "enough a d"
  shows "unat (a_cnt_r d + N_bytes_required d) = unat (a_cnt_r d) + unat (N_bytes_required d)"
    "unat (a_cnt_r d + N_bytes_required d) \<le> length a"
  using counter_advance [of "N_bytes_required d" "length a" "a_cnt_r d" "a_cnt_w_tb d"] assms
  by (auto simp: receiving_def enough_def)

lemma receivingD:
  assumes "receiving act a d"
  shows "unat (a_cnt_r d) \<le> length a" "length a \<le> unat (a_cnt_w_tb d)" "pool_wf (dec_pool d)"
    "decoded_ok act d" "state_ok act a d"
  using assms by (auto simp: receiving_def)

lemma flow_ok_mono: "flow_ok r m \<Longrightarrow> r \<le> r' \<Longrightarrow> flow_ok r' m"
  by (auto simp: flow_ok_def)

text \<open>\<open>decoded_ok\<close> looks at four components only and survives advancing the counter.\<close>

lemma decoded_ok_cong:
  assumes "decoded_ok act d" "mmie_decoded_vec d' = mmie_decoded_vec d"
    "index_next_ie d' = index_next_ie d" "dec_pool d' = dec_pool d"
    "unat (a_cnt_r d) \<le> unat (a_cnt_r d')"
  shows "decoded_ok act d'"
  using assms flow_ok_mono [OF _ assms(5)] unfolding decoded_ok_def deref_def by fastforce

lemma receiving_abort:
  "receiving act a d \<Longrightarrow> receiving act a (prepare_mac_pdu_premature_abort d)"
  by (auto simp: receiving_def state_ok_def prepare_mac_pdu_premature_abort_def
      elim!: decoded_ok_cong)

lemma mht_received_emplaced:
  assumes "mht_unpack a = Inr (True, h)"
  obtains m where "emplaced (mht_MAC_header_type h) = Inr m"
proof -
  obtain b :: u32 where h: "mht_MAC_header_type h = get_mac_header_type_ec (b AND 15)"
    and v: "mht_valid h" using assms by (auto simp: mht_unpack_def bindE_eq_Inr Let_def)
  let ?v = "b AND 15"
  have "?v \<le> 4" using v h by (auto simp: mht_valid_def get_mac_header_type_ec_def split: if_splits)
  then have "unat ?v \<le> 4" by (simp add: word_le_nat_alt)
  then consider "unat ?v = 0" | "unat ?v = 1" | "unat ?v = 2" | "unat ?v = 3" | "unat ?v = 4" by linarith
  then show ?thesis
    by cases (use h \<open>?v \<le> 4\<close> that in \<open>auto simp: get_mac_header_type_ec_def emplaced_def\<close>)
qed

lemma okE_simps [simp]: "okE F (Inr x) P \<longleftrightarrow> P x" "okE F (Inl e) P \<longleftrightarrow> e \<in> F"
  by (simp_all add: okE_def)

lemma on_mac_header_type_ok:
  assumes "receiving act a d" "enough a d" "dstate d = MAC_HEADER_TYPE"
  shows "okE F (on_mac_header_type a d) (round_ok act a d)"
proof -
  note r = receivingD [OF assms(1)]
  have z: "a_cnt_r d = 0" "N_bytes_required d = 1" "1 \<le> length a" "a \<noteq> []"
    using r(5) assms(2,3) by (auto simp: state_ok_def enough_def)
  obtain v h where u: "mht_unpack a = Inr (v, h)" using mht.unpack_total [OF z(3)] by blast
  show ?thesis
  proof (cases v)
    case False
    with z u r show ?thesis
      by (auto simp: on_mac_header_type_def Let_def round_ok_def receiving_def same_pdu_def
          prepare_mac_pdu_premature_abort_def state_ok_def remaining_def assms(3) elim!: decoded_ok_cong)
  next
    case True
    with u obtain m where "emplaced (mht_MAC_header_type h) = Inr m"
      by (auto elim: mht_received_emplaced)
    with z u True r show ?thesis
      by (auto simp: on_mac_header_type_def Let_def round_ok_def receiving_def same_pdu_def
          state_ok_def remaining_def assms(3) elim!: decoded_ok_cong)
  qed
qed

lemma on_mac_common_header_ok:
  assumes "receiving act a d" "enough a d" "dstate d = MAC_COMMON_HEADER"
  shows "okE F (on_mac_common_header a d) (round_ok act a d)"
proof -
  note r = receivingD [OF assms(1)] and c = consumed [OF assms(1,2)]
  have z: "mch_effective d" "N_bytes_required d = of_nat (mch_packed_size (mch_variant d))"
    using r(5) assms(3) by (auto simp: state_ok_def)
  have "mch_packed_size (mch_variant d) \<le> 10" by (cases "mch_variant d") auto
  then have N: "unat (N_bytes_required d) = mch_packed_size (mch_variant d)"
    by (simp add: z(2) unat_of_nat take_bit_nat_eq_self)
  have "mch_packed_size (mch_variant d) \<le> length (drop (unat (a_cnt_r d)) a)"
    using assms(2) N by (simp add: enough_def)
  then obtain v m where u: "mch_unpack (mch_variant d) (drop (unat (a_cnt_r d)) a) = Inr (v, m)"
    using mch_unpack_total by blast
  show ?thesis
  proof (cases v)
    case False
    with z u r show ?thesis
      by (auto simp: on_mac_common_header_def Let_def round_ok_def receiving_def same_pdu_def
          prepare_mac_pdu_premature_abort_def state_ok_def remaining_def assms(3) elim!: decoded_ok_cong)
  next
    case True
    have "decoded_ok act (d\<lparr>mch_variant := m, a_cnt_r := a_cnt_r d + N_bytes_required d,
        dstate := MAC_MUX_HEADER_UNPACK_MAC_EXT_IE_TYPE, N_bytes_required := 1\<rparr>)"
      by (rule decoded_ok_cong [OF r(4)]) (simp_all add: c)
    with z(1) u True r c show ?thesis
      by (simp add: on_mac_common_header_def round_ok_def receiving_def same_pdu_def
          state_ok_def remaining_def assms(3))
  qed
qed

text \<open>Writing to the object that is being filled leaves the decoded ones alone.\<close>

lemma not_decoded:
  assumes "decoded_ok act d"
  shows "(t, index_next_ie d t) \<notin> set (mmie_decoded_vec d)"
proof
  assume "(t, index_next_ie d t) \<in> set (mmie_decoded_vec d)"
  then have "(t, index_next_ie d t) \<in> set (filter (\<lambda>p. fst p = t) (mmie_decoded_vec d))" by simp
  with assms show False by (auto simp: decoded_ok_def simp del: set_filter)
qed

lemma deref_update:
  assumes "dec_pool d' = pool_update p m (dec_pool d)"
  shows "q \<noteq> p \<Longrightarrow> deref d' q = deref d q"
    and "snd p < length (dec_pool d (fst p)) \<Longrightarrow> deref d' p = Inr m"
  by (simp_all add: deref_def assms)

lemma decoded_ok_filling:
  assumes "decoded_ok act d" "mmie_decoded_vec d' = mmie_decoded_vec d"
    "index_next_ie d' = index_next_ie d"
    "dec_pool d' = pool_update (t, index_next_ie d t) m (dec_pool d)"
    "unat (a_cnt_r d) \<le> unat (a_cnt_r d')"
  shows "decoded_ok act d'"
proof -
  have "deref d' q = deref d q" if "q \<in> set (mmie_decoded_vec d)" for q
    using that not_decoded [OF assms(1), of t] by (intro deref_update(1) [OF assms(4)]) auto
  with assms flow_ok_mono [OF _ assms(5)] show ?thesis unfolding decoded_ok_def by fastforce
qed

lemma filling_deref:
  assumes "pool_wf (dec_pool d)" "filling act t d"
  obtains m where "current d = Inr ((t, index_next_ie d t), m)"
    "deref d (t, index_next_ie d t) = Inr m" "content_type (mm_content m) = t"
proof -
  have i: "index_next_ie d t < length (dec_pool d t)" and c: "dec_mmie d = Some (t, index_next_ie d t)"
    using assms(2) by (auto simp: filling_def)
  let ?m = "dec_pool d t ! index_next_ie d t"
  have m: "deref d (t, index_next_ie d t) = Inr ?m" using i by (simp add: deref_def pool_at_def array_at_def)
  moreover have "content_type (mm_content ?m) = t" using assms(1) i by (auto simp: pool_wf_def)
  ultimately show ?thesis using c by (intro that [of ?m]) (simp_all add: current_def)
qed

lemma mmh_unpack_tinfo:
  "mmh_unpack_mac_ext_ie_type act h a = Inr (v, h') \<Longrightarrow> v = (mmh_tinfo h' \<noteq> None)"
  by (auto simp: mmh_unpack_mac_ext_ie_type_def bindE_eq_Inr Let_def)

lemma mmh_unpack_total:
  "1 \<le> length a \<Longrightarrow> \<exists>v h. mmh_unpack_mac_ext_ie_type act mmh_zero a = Inr (v, h)"
  by (simp add: mmh_unpack_mac_ext_ie_type_def mmh_zero_def rd_ok Let_def)

lemma on_mac_ext_ie_type_ok:
  assumes "receiving act a d" "enough a d" "dstate d = MAC_MUX_HEADER_UNPACK_MAC_EXT_IE_TYPE"
  shows "okE F (on_mac_ext_ie_type act a d) (round_ok act a d)"
proof -
  note r = receivingD [OF assms(1)] and c = consumed [OF assms(1,2)]
  have N: "N_bytes_required d = 1" using r(5) assms(3) by (auto simp: state_ok_def)
  let ?a = "drop (unat (a_cnt_r d)) a"
  have l: "1 \<le> length ?a" using assms(2) N by (simp add: enough_def)
  obtain v h where u: "mmh_unpack_mac_ext_ie_type act mmh_zero ?a = Inr (v, h)"
    using mmh_unpack_total [OF l] by blast
  have abort: "round_ok act a d (prepare_mac_pdu_premature_abort (d\<lparr>dec_mmh := h\<rparr>))"
    "round_ok act a d (prepare_mac_pdu_premature_abort (d\<lparr>dec_mmh := h, dec_mmie := x\<rparr>))" for x
    using r by (auto simp: round_ok_def receiving_def same_pdu_def state_ok_def remaining_def assms(3)
        prepare_mac_pdu_premature_abort_def elim!: decoded_ok_cong)
  show ?thesis
  proof (cases "mmh_tinfo h")
    case None
    with u abort show ?thesis by (simp add: on_mac_ext_ie_type_def)
  next
    case (Some t)
    show ?thesis
    proof (cases "t = T_padding \<or> get_mmie_from_pool d t = None")
      case True
      with u abort Some show ?thesis
        by (auto simp: on_mac_ext_ie_type_def get_mmie_from_pool_def Let_def)
    next
      case False
      let ?d = "d\<lparr>dec_mmh := h, dec_mmie := Some (t, index_next_ie d t)\<rparr>"
      have v: v using mmh_unpack_tinfo [OF u] Some by simp
      have g: "get_mmie_from_pool d t = Some (t, index_next_ie d t)"
        "get_mmie_from_pool (d\<lparr>dec_mmh := h\<rparr>) t = Some (t, index_next_ie d t)"
        "index_next_ie d t < length (dec_pool d t)"
        using False by (auto simp: get_mmie_from_pool_def Let_def split: if_splits)
      have "act t" "enum_valid mac_ext_ec (mmh_mac_ext h)"
        using header_received(1,2) [OF u Some] False by auto
      then obtain n where n: "mmh_packed_size h = Inr n" by (simp add: mmh_packed_size_def)
      have fill: "filling act t ?d" using \<open>act t\<close> False g by (simp add: filling_def)
      have w: "pool_wf (dec_pool ?d)" using r(3) by simp
      obtain m where m0: "current ?d = Inr ((t, index_next_ie ?d t), m)"
        "deref ?d (t, index_next_ie ?d t) = Inr m" "content_type (mm_content m) = t"
        by (rule filling_deref [OF w fill])
      then have m: "current ?d = Inr ((t, index_next_ie d t), m)"
        "deref d (t, index_next_ie d t) = Inr m" "content_type (mm_content m) = t"
        by (simp_all add: deref_def)
      show ?thesis
      proof (cases "is_packing_peeking t")
        case True
        let ?d' = "?d\<lparr>dec_pool := pool_update (t, index_next_ie d t) (m\<lparr>mm_header := h\<rparr>) (dec_pool d),
          a_cnt_r := a_cnt_r d + N_bytes_required d, dstate := B_MAC_MESSAGE_IE_PEEK,
          N_bytes_required := get_packed_size_min_to_peek (mm_content m)\<rparr>"
        have "decoded_ok act ?d'" by (rule decoded_ok_filling [OF r(4)]) (simp_all add: c)
        moreover have "deref ?d' (t, index_next_ie d t) = Inr (m\<lparr>mm_header := h\<rparr>)"
          by (rule deref_update(2) [of _ _ _ d]) (use g in simp_all)
        ultimately have "round_ok act a d ?d'" using r c fill True Some m(3) N
          by (auto simp: round_ok_def receiving_def same_pdu_def state_ok_def remaining_def assms(3)
              filling_def pool_wf_update)
        with u Some False m g True show ?thesis by (simp add: on_mac_ext_ie_type_def store_def)
      next
        case p: False
        let ?d' = "?d\<lparr>dstate := A_MAC_MUX_HEADER_UNPACK_LENGTH_OR_FIXED_SIZE, N_bytes_required := n\<rparr>"
        have "decoded_ok act ?d'" by (rule decoded_ok_cong [OF r(4)]) simp_all
        then have "round_ok act a d ?d'" using r fill p Some u v n
          by (auto simp: round_ok_def receiving_def same_pdu_def state_ok_def remaining_def assms(3)
              filling_def)
        with u Some False m g p n show ?thesis by (simp add: on_mac_ext_ie_type_def)
      qed
    qed
  qed
qed

lemma sdu_size_packing:
  "is_packing (content_type (mm_content m)) \<Longrightarrow>
   mmie_packed_size_of_sdu m = bindE (content_packed_size (mm_content m)) (\<lambda>n. Inr (of_nat n))"
  by (cases "mm_content m") (simp_all add: mmie_packed_size_of_sdu_def is_packing_def)

lemma type_kinds:
  "is_packing t \<or> is_flowing t \<or> t = T_padding \<or> t = T_configuration_request"
  "is_flowing t \<Longrightarrow> \<not> is_packing t"
  by (auto simp: is_packing_def is_flowing_def)

text \<open>Filling the object, whatever its class, ends normally or with a fault of \<open>F\<close>.\<close>

definition filled :: "bytes \<Rightarrow> nat \<Rightarrow> mmie \<Rightarrow> (bool \<times> mmie_content) res" where
  "filled a r m =
     (if is_packing (content_type (mm_content m))
      then content_unpack (mm_content m) (mmh_length (mm_header m)) (drop r a)
      else bindE (set_data_ptr r (mm_content m)) (\<lambda>c. Inr (True, c)))"

text \<open>When the loop returns, the PDU is done, it was given up, or bytes are missing.\<close>

definition stopped :: "bytes \<Rightarrow> mac_pdu_decoder \<Rightarrow> bool" where
  "stopped a d \<longleftrightarrow> dstate d = MAC_PDU_DONE
     \<or> dstate d = MAC_PDU_PREMATURE_ABORT \<and> unat (a_cnt_r d) = length a
     \<or> dstate d \<noteq> MAC_PDU_DONE \<and> \<not> a_cnt_r d + N_bytes_required d > a_cnt_w_tb d \<and> \<not> enough a d"

context mmie_codecs
begin

lemma on_length_ok:
  assumes "receiving act a d" "enough a d" "dstate d = A_MAC_MUX_HEADER_UNPACK_LENGTH_OR_FIXED_SIZE"
  shows "okE F (on_length_or_fixed_size a d) (round_ok act a d)"
proof -
  note r = receivingD [OF assms(1)] and c = consumed [OF assms(1,2)]
  let ?a = "drop (unat (a_cnt_r d)) a"
  obtain t where t: "filling act t d" "\<not> is_packing_peeking t" "mmh_tinfo (dec_mmh d) = Some t"
    "mmh_unpack_mac_ext_ie_type act mmh_zero ?a = Inr (True, dec_mmh d)"
    "mmh_packed_size (dec_mmh d) = Inr (N_bytes_required d)"
    using r(5) assms(3) by (auto simp: state_ok_def)
  have p: "t \<noteq> T_padding" "act t" using t(1) by (auto simp: filling_def)
  have N: "1 \<le> unat (N_bytes_required d)" by (rule mmh_size_range(1) [OF t(5)])
  have "unat (N_bytes_required d) \<le> length ?a" using assms(2) by (simp add: enough_def)
  then obtain h where h: "mmh_unpack_length (dec_mmh d) ?a = Inr h"
    using header_received(5) [OF t(4,3) p(1) t(5)] by blast
  have ok: "header_ok t h" by (rule header_received(4) [OF t(4,3) p(1) h])
  obtain m where m: "current d = Inr ((t, index_next_ie d t), m)"
    "deref d (t, index_next_ie d t) = Inr m" "content_type (mm_content m) = t"
    by (rule filling_deref [OF r(3) t(1)])
  let ?d = "\<lambda>n. d\<lparr>dec_mmh := h,
      dec_pool := pool_update (t, index_next_ie d t) (m\<lparr>mm_header := h\<rparr>) (dec_pool d),
      a_cnt_r := a_cnt_r d + N_bytes_required d, dstate := MAC_MESSAGE_IE_UNPACK,
      N_bytes_required := n\<rparr>"
  have post: "round_ok act a d (?d n)"
    if "is_packing t \<Longrightarrow> sdu_size (mm_content m) (mmh_length h) = Inr n"
      "\<not> is_packing t \<Longrightarrow> n = mmh_length h" for n
  proof -
    have "decoded_ok act (?d n)" by (rule decoded_ok_filling [OF r(4)]) (simp_all add: c)
    moreover have "deref (?d n) (t, index_next_ie d t) = Inr (m\<lparr>mm_header := h\<rparr>)"
      by (rule deref_update(2) [of _ _ _ d]) (use t(1) in \<open>simp_all add: filling_def\<close>)
    moreover have "filling act t (?d n)" using t(1) by (simp add: filling_def)
    moreover have "remaining a (?d n) < remaining a d" using N c r(1) by (simp add: remaining_def assms(3))
    ultimately show ?thesis using that ok r(2,3) c t(2) m(3)
      by (auto simp: round_ok_def receiving_def same_pdu_def state_ok_def pool_wf_update header_ok_def)
  qed
  show ?thesis
  proof (cases "mmh_length h < UNDEFINED_NUMERIC_32")
    case True
    with h m post [of "mmh_length h"] show ?thesis
      by (simp add: on_length_or_fixed_size_def store_def sdu_size_def)
  next
    case False
    then have l: "mmh_length h = UNDEFINED_NUMERIC_32" by (simp add: UNDEFINED_less_iff)
    then have k: "is_packing t" "\<not> is_flowing t"
      using ok type_kinds [of t] p(1) by (auto simp: header_ok_def UNDEFINED_NUMERIC_32_def)
    have "mmie_packed_size_of_sdu (m\<lparr>mm_header := h\<rparr>) = sdu_size (mm_content m) (mmh_length h)"
      using k m(3) False by (simp add: sdu_size_packing sdu_size_def)
    moreover have "okE F (sdu_size (mm_content m) (mmh_length h)) (\<lambda>n. unat n \<le> B)"
      using size_ok [of "mm_content m" h] m(3) p(2) k t(2) ok by simp
    ultimately show ?thesis using h m post k False
      by (cases "sdu_size (mm_content m) (mmh_length h)")
        (simp_all add: on_length_or_fixed_size_def store_def)
  qed
qed

lemma on_peek_ok:
  assumes "receiving act a d" "enough a d" "dstate d = B_MAC_MESSAGE_IE_PEEK"
    and "mu_ok (dec_mu d) \<or> Assertion_failed \<in> F"
  shows "okE F (on_peek a d) (round_ok act a d)"
proof -
  note r = receivingD [OF assms(1)] and c = consumed [OF assms(1,2)]
  let ?a = "drop (unat (a_cnt_r d)) a"
  obtain t m where t: "filling act t d" "is_packing_peeking t" "deref d (t, index_next_ie d t) = Inr m"
    "mmh_tinfo (mm_header m) = Some t" "N_bytes_required d = get_packed_size_min_to_peek (mm_content m)"
    using r(5) assms(3) by (auto simp: state_ok_def)
  have m: "current d = Inr ((t, index_next_ie d t), m)" "content_type (mm_content m) = t"
    using filling_deref [OF r(3) t(1)] t(3) by auto
  show ?thesis
  proof (cases "content_set_mu (dec_mu d) (mm_content m)")
    case (Inl e)
    then have "e = Assertion_failed \<and> \<not> mu_ok (dec_mu d)"
      by (cases "mm_content m") (auto simp: assertE_def split: if_splits)
    with assms(4) m Inl show ?thesis by (simp add: on_peek_def)
  next
    case (Inr co)
    have ty: "content_type co = t" using content_set_mu_type [OF Inr] m(2) by simp
    have min: "unat (get_packed_size_min_to_peek co) \<le> length ?a"
      using assms(2) t(5) content_set_mu_min [OF Inr] by (simp add: enough_def)
    let ?d = "\<lambda>n s. d\<lparr>dec_pool := pool_update (t, index_next_ie d t) (m\<lparr>mm_content := co\<rparr>) (dec_pool d),
      dstate := s, N_bytes_required := n\<rparr>"
    have dec: "decoded_ok act (?d n s)" for n s by (rule decoded_ok_filling [OF r(4)]) simp_all
    have "deref (?d n s) (t, index_next_ie d t) = Inr (m\<lparr>mm_content := co\<rparr>)" for n s
      by (rule deref_update(2) [of _ _ _ d]) (use t(1) in \<open>simp_all add: filling_def\<close>)
    then have post: "round_ok act a d (?d (of_nat n) MAC_MESSAGE_IE_UNPACK)"
      if "content_peek co ?a = Inr (Inr n)" "n < 2 ^ 32" for n
      using dec t(1,2,4) r(1-3) ty that
      by (auto simp: round_ok_def receiving_def same_pdu_def state_ok_def pool_wf_update filling_def
          remaining_def assms(3))
    have abort: "round_ok act a d (?d 0 MAC_PDU_PREMATURE_ABORT)"
      using dec r(1-3) ty
      by (auto simp: round_ok_def receiving_def same_pdu_def state_ok_def pool_wf_update
          remaining_def assms(3))
    have "act (content_type co)" "is_packing_peeking (content_type co)"
      using t(1,2) ty by (simp_all add: filling_def)
    then have "okE F (content_peek co ?a) (\<lambda>_. True)"
      "content_peek co ?a = Inr (Inr n) \<Longrightarrow> n < 2 ^ 32" for n
      using peek_ok [OF _ _ min] peek_bound [of co ?a n] bound_range by fastforce+
    then show ?thesis using m Inr t(2) ty post abort
      by (cases "content_peek co ?a")
        (auto simp: on_peek_def store_def prepare_mac_pdu_premature_abort_def Let_def split: sum.splits)
  qed
qed

lemma filled_ok:
  assumes "receiving act a d" "enough a d" "filling act t d"
    "content_type (mm_content m) = t"
    and "if is_packing_peeking t
         then \<exists>n. content_peek (mm_content m) (drop (unat (a_cnt_r d)) a) = Inr (Inr n)
           \<and> n < 2 ^ 32 \<and> N_bytes_required d = of_nat n
         else header_ok t (mm_header m)
           \<and> (is_packing t \<longrightarrow>
                sdu_size (mm_content m) (mmh_length (mm_header m)) = Inr (N_bytes_required d))
           \<and> (\<not> is_packing t \<longrightarrow> N_bytes_required d = mmh_length (mm_header m))"
  shows "okE F (filled a (unat (a_cnt_r d)) m) (\<lambda>(v, c). content_type c = t
     \<and> flow_ok (unat (a_cnt_r d + N_bytes_required d)) (m\<lparr>mm_content := c\<rparr>))"
proof -
  let ?a = "drop (unat (a_cnt_r d)) a"
  note c = consumed [OF assms(1,2)]
  have act: "act t" and p: "t \<noteq> T_padding" using assms(3) by (auto simp: filling_def)
  have av: "unat (N_bytes_required d) \<le> length ?a" using assms(2) by (simp add: enough_def)
  show ?thesis
  proof (cases "is_packing t")
    case True
    have "okE F (content_unpack (mm_content m) (mmh_length (mm_header m)) ?a) (\<lambda>_. True)"
    proof (cases "is_packing_peeking t")
      case True
      then obtain n where n: "content_peek (mm_content m) ?a = Inr (Inr n)" "n < 2 ^ 32"
        "N_bytes_required d = of_nat n" using assms(5) by auto
      then have "n \<le> length ?a" using av by (simp add: unat_of_nat take_bit_nat_eq_self)
      with n True act assms(4) show ?thesis by (intro peeked_ok) auto
    next
      case False
      with assms(5) True act assms(4) av show ?thesis by (intro fixed_ok [where k = "N_bytes_required d"]) auto
    qed
    moreover have "flow_ok k (m\<lparr>mm_content := c'\<rparr>)" if "content_type c' = t" for k c'
      using that True type_kinds(2) by (auto simp: flow_ok_def)
    ultimately show ?thesis using True assms(4)
      by (auto simp: filled_def okE_def split: sum.splits dest: content_unpack_type)
  next
    case False
    with type_kinds(1) [of t] p consider "is_flowing t" | "t = T_configuration_request" by blast
    then show ?thesis
    proof cases
      case 1
      then have "\<not> is_packing_peeking t" by (auto simp: is_packing_peeking_def is_flowing_def)
      then have "N_bytes_required d = mmh_length (mm_header m)" using assms(5) False by simp
      with 1 False assms(4) c show ?thesis
        by (cases "mm_content m")
          (auto simp: filled_def is_flowing_def set_data_ptr_def flow_ok_def get_data_size_def)
    next
      case 2
      with False assms(4) act no_configuration show ?thesis
        by (cases "mm_content m") (auto simp: filled_def set_data_ptr_def)
    qed
  qed
qed

lemma on_unpack_ok:
  assumes "receiving act a d" "enough a d" "dstate d = MAC_MESSAGE_IE_UNPACK"
  shows "okE F (on_unpack a d) (round_ok act a d)"
proof -
  note r = receivingD [OF assms(1)] and c = consumed [OF assms(1,2)]
  let ?r = "unat (a_cnt_r d)"
  obtain t m where t: "filling act t d" "deref d (t, index_next_ie d t) = Inr m"
    "mmh_tinfo (mm_header m) = Some t"
    and s: "if is_packing_peeking t
         then \<exists>n. content_peek (mm_content m) (drop ?r a) = Inr (Inr n)
           \<and> n < 2 ^ 32 \<and> N_bytes_required d = of_nat n
         else header_ok t (mm_header m)
           \<and> (is_packing t \<longrightarrow>
                sdu_size (mm_content m) (mmh_length (mm_header m)) = Inr (N_bytes_required d))
           \<and> (\<not> is_packing t \<longrightarrow> N_bytes_required d = mmh_length (mm_header m))"
    using r(5) assms(3) by (auto simp: state_ok_def)
  have m: "current d = Inr ((t, index_next_ie d t), m)" "content_type (mm_content m) = t"
    using filling_deref [OF r(3) t(1)] t(2) by auto
  let ?p = "(t, index_next_ie d t)"
  define d1 where "d1 = (\<lambda>co :: mmie_content. d\<lparr>dec_pool := pool_update ?p (m\<lparr>mm_content := co\<rparr>) (dec_pool d),
      a_cnt_r := a_cnt_r d + N_bytes_required d, dstate := MAC_PDU_CHECK_IF_DONE,
      N_bytes_required := 0\<rparr>)"
  define d2 where "d2 = (\<lambda>co :: mmie_content. d\<lparr>dec_pool := pool_update ?p (m\<lparr>mm_content := co\<rparr>) (dec_pool d),
      index_next_ie := (index_next_ie d)(t := index_next_ie d t + 1),
      mmie_decoded_vec := mmie_decoded_vec d @ [?p],
      a_cnt_r := a_cnt_r d + N_bytes_required d, dstate := MAC_PDU_CHECK_IF_DONE,
      N_bytes_required := 0\<rparr>)"
  have on: "on_unpack a d = bindE (filled a ?r m) (\<lambda>(v, co). Inr (if v then d2 co else d1 co))"
    by (cases "filled a ?r m")
      (auto simp: on_unpack_def filled_def m t(3) d1_def d2_def store_def Let_def
        prepare_mac_pdu_check_if_done_def split: if_splits)
  have rem: "remaining a (d1 co) < remaining a d" for co
    using c r(1) by (simp add: d1_def remaining_def assms(3))
  have deref1: "deref (d1 co) ?p = Inr (m\<lparr>mm_content := co\<rparr>)" for co
    by (rule deref_update(2) [of _ _ _ d]) (use t(1) in \<open>simp_all add: filling_def d1_def\<close>)
  have dec1: "decoded_ok act (d1 co)" for co
    by (rule decoded_ok_filling [OF r(4)]) (simp_all add: c d1_def)
  have post1: "round_ok act a d (d1 co)" if "content_type co = t" for co
    using that dec1 [of co] rem [of co] r c
    by (auto simp: round_ok_def receiving_def same_pdu_def state_ok_def pool_wf_update d1_def)
  have dec2: "decoded_ok act (d2 co)"
    if "flow_ok (unat (a_cnt_r d + N_bytes_required d)) (m\<lparr>mm_content := co\<rparr>)" for co
    using dec1 [of co] deref1 [of co] t(1) that
    by (auto simp: decoded_ok_def d2_def filling_def deref_def d1_def)
  have post2: "round_ok act a d (d2 co)" if "content_type co = t"
    "flow_ok (unat (a_cnt_r d + N_bytes_required d)) (m\<lparr>mm_content := co\<rparr>)" for co
    using post1 [OF that(1)] dec2 [OF that(2)]
    by (auto simp: round_ok_def receiving_def same_pdu_def state_ok_def d1_def d2_def remaining_def)
  show ?thesis
    using filled_ok [OF assms(1,2) t(1) m(2) s] post1 post2
    unfolding on by (cases "filled a ?r m") auto
qed

text \<open>The number of bytes asked for is bounded in every state.\<close>

lemma N_bound:
  assumes "receiving act a d"
  shows "unat (N_bytes_required d) \<le> B"
proof -
  have N: "unat (N_bytes_required d) \<le> B" if "unat (N_bytes_required d) \<le> 100"
    using that bound_range by simp
  note s = receivingD(5) [OF assms]
  have p: "pool_wf (dec_pool d)" by (rule receivingD(3) [OF assms])
  show ?thesis
  proof (cases "dstate d")
    case MAC_COMMON_HEADER
    then show ?thesis using s
      by (intro N) (cases "mch_variant d"; simp add: state_ok_def)
  next
    case A_MAC_MUX_HEADER_UNPACK_LENGTH_OR_FIXED_SIZE
    then have "unat (N_bytes_required d) \<le> 3" using s mmh_size_range(2) by (auto simp: state_ok_def)
    then show ?thesis by (intro N) simp
  next
    case B_MAC_MESSAGE_IE_PEEK
    have "unat (get_packed_size_min_to_peek c) \<le> 3" for c by (cases c) simp_all
    then show ?thesis using s B_MAC_MESSAGE_IE_PEEK by (intro N) (fastforce simp: state_ok_def intro: le_trans [of _ 3])
  next
    case MAC_MESSAGE_IE_UNPACK
    then obtain t m where t: "filling act t d" "deref d (t, index_next_ie d t) = Inr m"
      and st: "if is_packing_peeking t
         then \<exists>n. content_peek (mm_content m) (drop (unat (a_cnt_r d)) a) = Inr (Inr n)
           \<and> n < 2 ^ 32 \<and> N_bytes_required d = of_nat n
         else header_ok t (mm_header m)
           \<and> (is_packing t \<longrightarrow>
                sdu_size (mm_content m) (mmh_length (mm_header m)) = Inr (N_bytes_required d))
           \<and> (\<not> is_packing t \<longrightarrow> N_bytes_required d = mmh_length (mm_header m))"
      using s by (auto simp: state_ok_def)
    have ty: "content_type (mm_content m) = t" using filling_deref [OF p t(1)] t(2) by auto
    have act: "act t" "t \<noteq> T_padding" using t(1) by (auto simp: filling_def)
    show ?thesis
    proof (cases "is_packing_peeking t")
      case True
      then show ?thesis using st peek_bound [of "mm_content m"] ty act
        by (auto simp: unat_of_nat take_bit_nat_eq_self)
    next
      case False
      show ?thesis
      proof (cases "is_packing t")
        case True
        with False st show ?thesis using size_ok [of "mm_content m" "mm_header m"] ty act by simp
      next
        case f: False
        with type_kinds(1) [of t] act have "is_flowing t \<or> t = T_configuration_request" by blast
        with f False st have "unat (N_bytes_required d) < 2 ^ 16" by (auto simp: header_ok_def)
        then show ?thesis using bound_range by simp
      qed
    qed
  qed (use s N in \<open>auto simp: state_ok_def\<close>)
qed

lemma exec_state_ok:
  assumes "receiving act a d" "enough a d" "dstate d \<noteq> MAC_PDU_DONE"
    and "mu_ok (dec_mu d) \<or> Assertion_failed \<in> F"
  shows "okE F (exec_state act a d)
     (\<lambda>(ret, d'). if ret then receiving act a d' \<and> same_pdu d d' \<and> stopped a d' else round_ok act a d d')"
    (is "okE F _ ?P")
proof -
  note r = receivingD [OF assms(1)]
  have goon: "okE F (bindE x (\<lambda>d'. Inr (False, d'))) ?P" if "okE F x (round_ok act a d)" for x
    using that by (cases x) auto
  note g = goon [OF on_mac_header_type_ok [OF assms(1,2)]]
    goon [OF on_mac_common_header_ok [OF assms(1,2)]]
    goon [OF on_mac_ext_ie_type_ok [OF assms(1,2)]] goon [OF on_length_ok [OF assms(1,2)]]
    goon [OF on_peek_ok [OF assms(1,2) _ assms(4)]] goon [OF on_unpack_ok [OF assms(1,2)]]
  show ?thesis
  proof (cases "dstate d")
    case MAC_PDU_CHECK_IF_DONE
    have N: "N_bytes_required d = 0" using r(5) by (simp add: state_ok_def MAC_PDU_CHECK_IF_DONE)
    let ?e = "d\<lparr>dstate := MAC_MUX_HEADER_UNPACK_MAC_EXT_IE_TYPE, N_bytes_required := 1\<rparr>"
    have "decoded_ok act ?e" "decoded_ok act (d\<lparr>dstate := MAC_PDU_DONE\<rparr>)"
      by (rule decoded_ok_cong [OF r(4)]; simp)+
    moreover have "a_cnt_r d = a_cnt_w_tb d" if "\<not> a_cnt_r d < a_cnt_w_tb d"
      using that r(1,2) by (simp add: not_less word_le_nat_alt word_unat_eq_iff)
    ultimately show ?thesis using r(1-3) N MAC_PDU_CHECK_IF_DONE
      by (auto simp: exec_state_def round_ok_def receiving_def same_pdu_def state_ok_def remaining_def
          stopped_def)
  next
    case MAC_PDU_PREMATURE_ABORT
    let ?e = "d\<lparr>a_cnt_r := of_nat (length a)\<rparr>"
    have "length a < 2 ^ 32" using r(2) u32_less [of "a_cnt_w_tb d"] by linarith
    then have n: "unat (of_nat (length a) :: u32) = length a"
      by (simp add: unat_of_nat take_bit_nat_eq_self)
    have "decoded_ok act ?e" by (rule decoded_ok_cong [OF r(4)]) (use r(1) n in simp_all)
    with r(1-3,5) n show ?thesis
      by (auto simp: exec_state_def receiving_def same_pdu_def state_ok_def stopped_def
          MAC_PDU_PREMATURE_ABORT)
  qed (use g assms(3) in \<open>simp_all add: exec_state_def\<close>)
qed

lemma decode_round_ok:
  assumes "receiving act a d" "dstate d \<noteq> MAC_PDU_DONE"
    and "mu_ok (dec_mu d) \<or> Assertion_failed \<in> F"
  shows "okE F (decode_round act a d)
     (\<lambda>(ret, d'). if ret then receiving act a d' \<and> same_pdu d d' \<and> stopped a d' else round_ok act a d d')"
proof -
  note r = receivingD [OF assms(1)]
  let ?e = "prepare_mac_pdu_premature_abort d"
  consider "a_cnt_r d + N_bytes_required d > a_cnt_w_tb d"
    | "\<not> a_cnt_r d + N_bytes_required d > a_cnt_w_tb d" "of_nat (length a) - a_cnt_r d < N_bytes_required d"
    | "\<not> a_cnt_r d + N_bytes_required d > a_cnt_w_tb d" "\<not> of_nat (length a) - a_cnt_r d < N_bytes_required d"
    by blast
  then show ?thesis
  proof cases
    case 1
    have "receiving act a ?e" by (rule receiving_abort [OF assms(1)])
    then have "okE F (exec_state act a ?e) (\<lambda>(ret, d'). if ret
        then receiving act a d' \<and> same_pdu ?e d' \<and> stopped a d' else round_ok act a ?e d')"
      by (rule exec_state_ok) (use assms(3) in \<open>simp_all add: prepare_mac_pdu_premature_abort_def enough_def\<close>)
    moreover have "exec_state act a ?e = Inr (True, ?e\<lparr>a_cnt_r := of_nat (length a)\<rparr>)"
      by (simp add: exec_state_def prepare_mac_pdu_premature_abort_def)
    ultimately show ?thesis using 1
      by (simp add: decode_round_def same_pdu_def prepare_mac_pdu_premature_abort_def)
  next
    case 2
    have "\<not> enough a d"
    proof
      assume "enough a d"
      moreover have "length a < 2 ^ 32" using r(2) u32_less [of "a_cnt_w_tb d"] by linarith
      then have "unat (of_nat (length a) :: u32) = length a"
        by (simp add: unat_of_nat take_bit_nat_eq_self)
      then have "unat (of_nat (length a) - a_cnt_r d) = length a - unat (a_cnt_r d)"
        using r(1) by (simp add: unat_sub word_le_nat_alt)
      ultimately show False using 2(2) by (simp add: enough_def word_less_nat_alt)
    qed
    with 2 assms(1,2) show ?thesis by (simp add: decode_round_def same_pdu_def stopped_def)
  next
    case 3
    have "enough a d" using counter_available [OF 3(2) r(1,2)] by (simp add: enough_def)
    then have "okE F (exec_state act a d)
     (\<lambda>(ret, d'). if ret then receiving act a d' \<and> same_pdu d d' \<and> stopped a d' else round_ok act a d d')"
      by (rule exec_state_ok [OF assms(1) _ assms(2,3)])
    with 3 show ?thesis by (simp add: decode_round_def)
  qed
qed

lemma decode_loop_ok:
  assumes "receiving act a d" "dstate d \<noteq> MAC_PDU_DONE"
    and "mu_ok (dec_mu d) \<or> Assertion_failed \<in> F"
  shows "\<exists>r. decode_loop act a d = Some r
     \<and> okE F r (\<lambda>d'. receiving act a d' \<and> same_pdu d d' \<and> stopped a d')"
  using assms
proof (induction "remaining a d" arbitrary: d rule: less_induct)
  case less
  note ok = decode_round_ok [OF less.prems]
  show ?case
  proof (cases "decode_round act a d")
    case (Inl e)
    with ok show ?thesis by (subst decode_loop.simps) simp
  next
    case (Inr x)
    obtain ret d' where x: "x = (ret, d')" by (cases x)
    show ?thesis
    proof (cases ret)
      case True
      with ok Inr x show ?thesis by (subst decode_loop.simps) simp
    next
      case False
      then have d': "round_ok act a d d'" using ok Inr x by simp
      then have "\<exists>r. decode_loop act a d' = Some r
        \<and> okE F r (\<lambda>d''. receiving act a d'' \<and> same_pdu d' d'' \<and> stopped a d'')"
        using less.prems(3) by (intro less.hyps) (auto simp: round_ok_def same_pdu_def)
      moreover have "decode_loop act a d = decode_loop act a d'"
        using Inr x False by (subst decode_loop.simps) simp
      ultimately show ?thesis using d'
        by (auto simp: round_ok_def same_pdu_def okE_def split: sum.splits)
    qed
  qed
qed

lemma decode_ok:
  assumes "receiving act a d" "dstate d \<noteq> MAC_PDU_DONE"
    and "mu_ok (dec_mu d) \<or> Assertion_failed \<in> F"
  shows "\<exists>r. decode act a d = Some r
     \<and> okE F r (\<lambda>d'. receiving act a d' \<and> same_pdu d d' \<and> stopped a d')"
  using decode_loop_ok [OF assms] receivingD(1,2) [OF assms(1)] by (simp add: decode_def)

text \<open>With all bytes of a PDU that is not too large, a final state is reached.\<close>

lemma stopped_final:
  assumes "receiving act a d" "stopped a d" "length a = unat (a_cnt_w_tb d)"
    and "unat (a_cnt_w_tb d) + B < 2 ^ 32"
  shows "has_reached_valid_final_state d = Inr True"
proof -
  note r = receivingD [OF assms(1)]
  have "enough a d" if "\<not> a_cnt_r d + N_bytes_required d > a_cnt_w_tb d"
  proof -
    have "unat (a_cnt_r d) + unat (N_bytes_required d) < 2 ^ 32"
      using N_bound [OF assms(1)] r(1,2) assms(4) by linarith
    then have "unat (a_cnt_r d + N_bytes_required d) = unat (a_cnt_r d) + unat (N_bytes_required d)"
      by (simp add: unat_word_ariths)
    with that assms(3) show ?thesis by (simp add: not_less word_le_nat_alt enough_def)
  qed
  with assms(2) have "dstate d = MAC_PDU_DONE
     \<or> dstate d = MAC_PDU_PREMATURE_ABORT \<and> unat (a_cnt_r d) = length a"
    by (auto simp: stopped_def)
  then show ?thesis
    using r(5) assms(3)
    by (auto simp: has_reached_valid_final_state_def state_ok_def word_unat_eq_iff)
qed

end

end
