(* ===== verification/Receiver_Classes.thy ===== *)
theory Receiver_Classes
  imports Mac_Pdu_Reception
begin

text \<open>
  The classes of MMIEs as the decoder uses them: the interpretations of \<open>mmie_codecs\<close> for the
  classes the repository compiles in, which never stop abnormally, for every selection without the
  group assignment IE, which never reads a byte that has not arrived, and for every selection.
\<close>

subsection \<open>Peeking\<close>

text \<open>Bounds on the sizes that peeking adds up, field by field.\<close>

named_theorems size_bounds

lemma unat_and_bounds [size_bounds]:
  "unat (x AND 1 :: u32) \<le> 1" "unat (x AND 2 :: u32) \<le> 2" "unat (x AND 4 :: u32) \<le> 4"
  "unat (x AND 7 :: u32) \<le> 7" "unat (x AND mask 2 :: u32) \<le> 3"
  using word_and_le1 [of x 1] word_and_le1 [of x 2] word_and_le1 [of x 4] word_and_le1 [of x 7]
    word_and_le1 [of x "mask 2"]
  by (simp_all add: word_le_nat_alt mask_eq_exp_minus_1)

lemma unat_shifted_byte [size_bounds]: "rd a i = Inr b \<Longrightarrow> unat (drop_bit s b) \<le> 255"
proof -
  assume "rd a i = Inr b"
  then have "fits 8 (drop_bit s b)"
    by (auto simp: rd_def fits_def bit_simps split: if_splits dest: bit_imp_le_length)
  then show ?thesis by (simp add: fits_iff_unat)
qed

lemma sum_bounds [size_bounds]:
  "i \<le> j \<Longrightarrow> k \<le> l \<Longrightarrow> i + k \<le> j + l" "i \<le> j \<Longrightarrow> k \<le> l \<Longrightarrow> i * k \<le> j * l"
  "i \<le> j \<Longrightarrow> k \<le> l \<Longrightarrow> (if c then i else k) \<le> j + l" "(1::nat) \<le> 1" "(0::nat) \<le> 0"
  "numeral m \<le> (numeral m :: nat)" "fo_size mu \<le> 4" for i j k l :: nat
  by (auto intro: mult_le_mono)

definition sized :: "peek_result res \<Rightarrow> bool" where
  "sized r \<longleftrightarrow> (\<forall>n. r = Inr (Inr n) \<longrightarrow> n \<le> 2 ^ 16 - 1)"

lemma sized_intros [size_bounds]:
  "(\<And>x. r = Inr x \<Longrightarrow> sized (f x)) \<Longrightarrow> sized (bindE r f)"
  "n \<le> k \<Longrightarrow> k \<le> 2 ^ 16 - 1 \<Longrightarrow> sized (Inr (Inr n))" "sized (Inr (Inl e))" "sized (Inl e')"
  "sized p \<Longrightarrow> sized q \<Longrightarrow> sized (if c then p else q)"
  by (auto simp: sized_def bindE_eq_Inr)

lemma peeks_sized:
  "sized (nb_peek a)" "sized (cb_peek mu a)" "sized (aq_peek a)" "sized (ap_peek a)"
  "sized (rq_peek a)" "sized (rp_peek a)" "sized (ra_peek mu a)" "sized (rr_peek mu a)"
  "sized (rc_peek a)" "sized (ne_peek a)" "sized (li_peek a)" "sized (mr_peek a)"
  unfolding nb_peek_def cb_peek_def aq_peek_def ap_peek_def rq_peek_def rp_peek_def ra_peek_def
    rr_peek_def rc_peek_def ne_peek_def li_peek_def mr_peek_def Let_def bitmask_lsb_eq_mask
  by ((rule size_bounds | assumption)+, simp?)+

lemma content_peek_bound:
  assumes "content_peek c a = Inr (Inr n)"
  shows "n \<le> 2 ^ 32 - 1" "content_type c \<noteq> T_broadcast_indication \<Longrightarrow> n \<le> 2 ^ 16 - 1"
proof -
  have bi: "n \<le> 2 ^ 32 - 1" if "bi_peek a = Inr (Inr n)"
    using that by (auto simp: bi_peek_def bindE_eq_Inr Let_def UNDEFINED_NUMERIC_32_def split: if_splits)
  have m: "n \<le> 2 ^ 16 - 1 \<Longrightarrow> n \<le> 2 ^ 32 - 1" by simp
  show "n \<le> 2 ^ 16 - 1" if "content_type c \<noteq> T_broadcast_indication"
    using that assms peeks_sized unfolding sized_def by (cases c) auto
  with bi assms m show "n \<le> 2 ^ 32 - 1"
    by (cases "content_type c = T_broadcast_indication"; cases c) auto
qed

subsection \<open>Every selection\<close>

lemma okE_UNIV: "(\<And>x. r = Inr x \<Longrightarrow> P x) \<Longrightarrow> okE UNIV r P"
  by (auto simp: okE_def split: sum.split)

lemma u32_le: "unat (x :: u32) \<le> 2 ^ 32 - 1"
  using u32_less [of x] by linarith

interpretation any: mmie_codecs act UNIV "2 ^ 32 - 1" for act
  by unfold_locales (blast intro: okE_UNIV content_peek_bound(1) u32_le | simp)+

subsection \<open>Selections without the group assignment IE\<close>

definition without_group :: "(mmie_type \<Rightarrow> bool) \<Rightarrow> mmie_type \<Rightarrow> bool" where
  "without_group act t \<longleftrightarrow> act t \<and> t \<noteq> T_group_assignment"

lemma okE_no_read: "r \<noteq> Inl Out_of_bounds_read \<Longrightarrow> okE (- {Out_of_bounds_read}) r (\<lambda>_. True)"
  by (auto simp: okE_def split: sum.split)

lemma okE_mono_faults: "okE F r P \<Longrightarrow> F \<subseteq> G \<Longrightarrow> okE G r P"
  by (auto simp: okE_def split: sum.splits)

lemma bi_codes:
  "from_coded_value rd_id_type_ec c = short_rd_id \<longleftrightarrow> c = 0"
  "from_coded_value indication_ec c = random_access_response \<longleftrightarrow> c = 1"
  "from_coded_value feedback_type_ec 0 = no_feedback"
  "to_underlying rd_id_type_ec short_rd_id = 0" "to_underlying indication_ec random_access_response = 1"
  "to_underlying feedback_type_ec no_feedback = 0"
proof -
  have "unat c < 2 \<Longrightarrow> c = 0 \<or> c = 1"
    by (auto simp: word_unat_eq_iff)
  then show "from_coded_value rd_id_type_ec c = short_rd_id \<longleftrightarrow> c = 0"
    "from_coded_value indication_ec c = random_access_response \<longleftrightarrow> c = 1"
    by (auto simp: from_coded_value_def rd_id_type_ec_def indication_ec_def upper_value_def)
qed (simp_all add: from_coded_value_def to_underlying_def rd_id_type_ec_def indication_ec_def
    feedback_type_ec_def upper_value_def)

lemma bi_unpack_in_bounds:
  assumes "bi_peek a = Inr (Inr k)" "k \<le> length a"
  shows "bi_unpack a \<noteq> Inl Out_of_bounds_read"
proof -
  let ?b = "ucast (a ! 0) :: u32"
  let ?t = "from_coded_value rd_id_type_ec (drop_bit 4 ?b AND 1)"
  let ?rar = "from_coded_value indication_ec (drop_bit 5 ?b) = random_access_response"
  let ?f = "from_coded_value feedback_type_ec (?b AND 6)"
  have a: "1 \<le> length a" using assms(1) by (auto simp: bi_peek_def bindE_eq_Inr rd_def Suc_le_eq split: if_splits)
  have l: "rd_id_bytes ?t + 1 + (if ?rar \<and> ?f \<noteq> no_feedback then 1 else 0) \<le> length a"
  proof (cases "drop_bit 5 ?b \<ge> to_underlying indication_ec IT_upper")
    case True
    then have "6 \<le> length a" using assms a
      by (simp add: bi_peek_def rd_ok Let_def UNDEFINED_NUMERIC_32_def)
    moreover have "rd_id_bytes ?t \<le> 4" by (simp add: rd_id_bytes_def)
    ultimately show ?thesis by simp
  next
    case False
    have "?f \<noteq> no_feedback \<Longrightarrow> ?b AND 6 \<noteq> 0" using bi_codes(3) by metis
    with False assms a show ?thesis
      by (auto simp: bi_peek_def rd_ok Let_def bi_codes rd_id_bytes_def split: if_splits)
  qed
  have fb: "okE {Assertion_failed} (bi_unpack_feedback a (rd_id_bytes ?t + 1) ?f) (\<lambda>_. True)" if ?rar
    using that l by (cases ?f) (simp_all add: bi_unpack_feedback_def rd_ok)
  have ps: "okE {Assertion_failed} (bindE (bi_packed_size m) (\<lambda>k. assertE (k = off) (Inr (bi_valid m, m)))) (\<lambda>_. True)"
    for m off by (simp add: bi_packed_size_def assertE_def)
  have "okE {Assertion_failed} (bi_unpack a) (\<lambda>_. True)"
  proof (cases ?rar)
    case True
    with fb l a ps show ?thesis
      by (cases "bi_unpack_feedback a (rd_id_bytes ?t + 1) ?f")
        (auto simp: bi_unpack_def rd_ok Let_def b2l_lower_def)
  next
    case False
    with l a ps show ?thesis by (simp add: bi_unpack_def rd_ok Let_def b2l_lower_def)
  qed
  then show ?thesis by (rule okE_in_bounds) simp
qed

lemma ap_unpack_in_bounds:
  assumes "ap_peek a = Inr (Inr k)" "k \<le> length a"
  shows "ap_unpack a \<noteq> Inl Out_of_bounds_read"
proof -
  have "1 \<le> length a" using assms(1) by (auto simp: ap_peek_def bindE_eq_Inr rd_def Suc_le_eq split: if_splits)
  then have "2 \<le> length a" using assms by (simp add: ap_peek_2)
  then show ?thesis by (simp add: ap_unpack_def rd_ok Let_def ap_packed_size_def assertE_def)
qed

lemma content_peek_total:
  "is_packing_peeking (content_type c) \<Longrightarrow> unat (get_packed_size_min_to_peek c) \<le> length a \<Longrightarrow>
   \<exists>r. content_peek c a = Inr r"
  by (cases c)
    (simp_all add: is_packing_peeking_def nb_peek_def cb_peek_def aq_peek_def ap_peek_def rq_peek_def
      rp_peek_def ra_peek_def rr_peek_def rc_peek_def ne_peek_def bi_peek_def li_peek_def mr_peek_def
      rd_ok Let_def)

lemma content_unpack_in_bounds:
  assumes "content_peek c a = Inr (Inr n)" "n \<le> length a"
  shows "content_unpack c len a \<noteq> Inl Out_of_bounds_read"
proof -
  have w: "r \<noteq> Inl Out_of_bounds_read \<Longrightarrow> with_content C r \<noteq> Inl Out_of_bounds_read"
    for C :: "'m \<Rightarrow> mmie_content" and r by (cases r) (auto simp: with_content_def)
  have cb: "cb_unpack mu a \<noteq> Inl Out_of_bounds_read" if "cb_peek mu a = Inr (Inr n)" for mu
    using cb_peek_unpack [OF that] assms(2) by auto
  show ?thesis
    using assms nb_peek_unpack [of a n] cb aq_unpack_in_bounds [of a n]
      ap_unpack_in_bounds [of a n] rq_unpack_in_bounds [of a n] rp_unpack_in_bounds [of a n]
      ra_unpack_in_bounds [of _ a n] rr_unpack_in_bounds [of _ a n] rc_unpack_in_bounds [of a n]
      ne_unpack_in_bounds [of a n] bi_unpack_in_bounds [of a n] li_unpack_in_bounds [of a n]
      mr_unpack_total [of a n]
    by (cases c) (auto intro!: w)
qed

text \<open>Messages and elements of a fixed size.\<close>

lemma fixed_content:
  assumes "is_packing (content_type c)" "\<not> is_packing_peeking (content_type c)"
    "content_type c \<noteq> T_group_assignment" "header_ok (content_type c) h"
  shows "\<exists>k. sdu_size c (mmh_length h) = Inr k \<and> unat k \<le> 2 ^ 16 - 1 \<and>
    (\<forall>a. unat k \<le> length a \<longrightarrow> (\<exists>v c'. content_unpack c (mmh_length h) a = Inr (v, c')))"
proof -
  have t: "\<exists>v c'. with_content C r = Inr (v, c')" if "\<exists>v m. r = Inr (v, m)"
    for C :: "'m \<Rightarrow> mmie_content" and r using that by (auto simp: with_content_def)
  show ?thesis
  proof (cases c)
    case (C_association_release m)
    have "1 \<le> length a \<Longrightarrow> \<exists>v c'. with_content C_association_release (ar_unpack a) = Inr (v, c')" for a
      by (intro t ar.unpack_total)
    with C_association_release assms show ?thesis
      by (simp add: header_ok_def sdu_size_def UNDEFINED_NUMERIC_32_def ar.size_fixed)
  next
    case (C_mac_security_info m)
    have "5 \<le> length a \<Longrightarrow> \<exists>v c'. with_content C_mac_security_info (si_unpack a) = Inr (v, c')" for a
      by (intro t si.unpack_total)
    with C_mac_security_info assms show ?thesis
      by (simp add: header_ok_def sdu_size_def UNDEFINED_NUMERIC_32_def si.size_fixed)
  next
    case (C_route_info m)
    have "6 \<le> length a \<Longrightarrow> \<exists>v c'. with_content C_route_info (ri_unpack a) = Inr (v, c')" for a
      by (intro t ri.unpack_total)
    with C_route_info assms show ?thesis
      by (simp add: header_ok_def sdu_size_def UNDEFINED_NUMERIC_32_def ri.size_fixed)
  next
    case (C_radio_device_status m)
    have "1 \<le> length a \<Longrightarrow> \<exists>v c'. with_content C_radio_device_status (rs_unpack a) = Inr (v, c')" for a
      by (intro t rs.unpack_total)
    with C_radio_device_status assms show ?thesis
      by (simp add: header_ok_def sdu_size_def UNDEFINED_NUMERIC_32_def word_less_nat_alt)
  next
    case (C_power_target m)
    have "1 \<le> length a \<Longrightarrow> \<exists>v c'. with_content C_power_target (pt_unpack a) = Inr (v, c')" for a
      by (intro t pt.unpack_total)
    with C_power_target assms show ?thesis
      by (simp add: header_ok_def sdu_size_def UNDEFINED_NUMERIC_32_def pt.size_fixed)
  next
    case (C_time_announce m)
    have "11 \<le> length a \<Longrightarrow> \<exists>v c'. with_content C_time_announce (ta_unpack a) = Inr (v, c')" for a
      by (intro t ta.unpack_total)
    with C_time_announce assms show ?thesis
      by (simp add: header_ok_def sdu_size_def UNDEFINED_NUMERIC_32_def ta.size_fixed)
  qed (use assms in \<open>simp_all add: is_packing_def is_packing_peeking_def\<close>)
qed

lemma fixed_content_ok:
  assumes "is_packing (content_type c)" "\<not> is_packing_peeking (content_type c)"
    "content_type c \<noteq> T_group_assignment" "header_ok (content_type c) h"
  shows "sdu_size c (mmh_length h) = Inr k \<Longrightarrow> unat k \<le> length a \<Longrightarrow>
      okE F (content_unpack c (mmh_length h) a) (\<lambda>_. True)"
    and "okE F (sdu_size c (mmh_length h)) (\<lambda>n. unat n \<le> 2 ^ 16 - 1)"
  using fixed_content [OF assms] by fastforce+

interpretation no_group: mmie_codecs "without_group act" "- {Out_of_bounds_read}" "2 ^ 32 - 1" for act
proof (unfold_locales, goal_cases)
  case (1 c a)
  then show ?case using content_peek_total [of c a] by auto
next
  case (2 c a n)
  then show ?case by (intro content_peek_bound(1))
next
  case (3 c a n len)
  then show ?case by (intro okE_no_read content_unpack_in_bounds)
next
  case (4 c h k a)
  then show ?case using fixed_content [of c h] by (auto simp: without_group_def)
next
  case (5 c h)
  then show ?case using fixed_content [of c h] by (auto simp: without_group_def)
qed auto

subsection \<open>The classes that are compiled in\<close>

interpretation repo: mmie_codecs shipped "{}" "2 ^ 16 - 1"
proof (unfold_locales, goal_cases)
  case (1 c a)
  then show ?case using content_peek_total [of c a] by auto
next
  case (2 c a n)
  then show ?case by (intro content_peek_bound(2)) (auto simp: shipped_def)
next
  case (3 c a n len)
  then obtain m where c: "c = C_cluster_beacon m"
    by (cases c) (auto simp: shipped_def is_packing_peeking_def)
  with 3(3,4) obtain v m' where "cb_unpack (cb_mu m) a = Inr (v, m')"
    using cb_peek_unpack [of "cb_mu m" a n] by auto
  with c show ?case by (simp add: with_content_def)
next
  case (4 c h k a)
  then show ?case by (intro fixed_content_ok(1) [where k = k]) (auto simp: shipped_def)
next
  case (5 c h)
  then show ?case by (intro fixed_content_ok(2)) (auto simp: shipped_def)
qed (auto simp: shipped_def)

end
