(* ===== verification/Reception.thy ===== *)
theory Reception
  imports Receiver_Classes
begin

text \<open>
  A PDU arrives in portions: the relation \<open>reception\<close> between the bytes that have arrived and the
  decoder after calls of \<open>decode\<close> of \<open>mac_pdu/mac_pdu_decoder.cpp\<close>, and the proof that
  the portions do not matter.
\<close>

subsection \<open>A longer buffer\<close>

lemma receiving_append:
  assumes "receiving act a d" "length (a @ b) \<le> unat (a_cnt_w_tb d)"
  shows "receiving act (a @ b) d"
proof -
  note r = receivingD [OF assms(1)]
  have d: "drop (unat (a_cnt_r d)) (a @ b) = drop (unat (a_cnt_r d)) a @ b" using r(1) by simp
  have e: "mmh_unpack_mac_ext_ie_type act mmh_zero (x @ b) = Inr y"
    if "mmh_unpack_mac_ext_ie_type act mmh_zero x = Inr y" for x y
    by (rule agreeD [OF agree_mux_header(1) that])
  have p: "content_peek c (x @ b) = Inr y" if "content_peek c x = Inr y" for c x y
    by (rule agreeD [OF agree_content_peek that])
  have "state_ok act (a @ b) d"
  proof (cases "dstate d = MAC_MESSAGE_IE_UNPACK")
    case True
    let ?P = "\<lambda>t m a. filling act t d \<and> deref d (t, index_next_ie d t) = Inr m
      \<and> mmh_tinfo (mm_header m) = Some t
      \<and> (if is_packing_peeking t
         then \<exists>n. content_peek (mm_content m) (drop (unat (a_cnt_r d)) a) = Inr (Inr n)
            \<and> n < 2 ^ 32 \<and> N_bytes_required d = of_nat n
         else header_ok t (mm_header m)
            \<and> (is_packing t \<longrightarrow>
                 sdu_size (mm_content m) (mmh_length (mm_header m)) = Inr (N_bytes_required d))
            \<and> (\<not> is_packing t \<longrightarrow> N_bytes_required d = mmh_length (mm_header m)))"
    obtain t m where P: "?P t m a" using r(5) True by (auto simp: state_ok_def)
    then have "?P t m (a @ b)" by (cases "is_packing_peeking t") (use d p in auto)
    with True show ?thesis by (simp only: state_ok_def decoder_state.case) blast
  qed (use r(1,5) e in \<open>auto simp: state_ok_def d split: decoder_state.splits\<close>)
  with r assms(2) show ?thesis by (auto simp: receiving_def)
qed

lemma agree_handlers:
  assumes "unat (a_cnt_r d) \<le> length a"
  shows "agree (on_mac_header_type a d) (on_mac_header_type (a @ b) d)"
    "agree (on_mac_common_header a d) (on_mac_common_header (a @ b) d)"
    "agree (on_mac_ext_ie_type act a d) (on_mac_ext_ie_type act (a @ b) d)"
    "agree (on_length_or_fixed_size a d) (on_length_or_fixed_size (a @ b) d)"
    "agree (on_peek a d) (on_peek (a @ b) d)" "agree (on_unpack a d) (on_unpack (a @ b) d)"
proof -
  have d: "drop (unat (a_cnt_r d)) (a @ b) = drop (unat (a_cnt_r d)) a @ b" using assms by simp
  have l: "agree (assertE (0 < length a) r) (assertE (0 < length (a @ b)) r')" if "agree r r'"
    for r r' :: "mac_pdu_decoder res"
    using that by (auto simp: agree_def)
  have st: "a_cnt_r ((store p m d)\<lparr>dstate := s\<rparr>) = a_cnt_r d" for p m s by (simp add: store_def)
  show "agree (on_mac_header_type a d) (on_mac_header_type (a @ b) d)"
    unfolding on_mac_header_type_def d by (rule agree_assert, rule l, intro agree_intros)
  show "agree (on_mac_common_header a d) (on_mac_common_header (a @ b) d)"
    "agree (on_mac_ext_ie_type act a d) (on_mac_ext_ie_type act (a @ b) d)"
    "agree (on_length_or_fixed_size a d) (on_length_or_fixed_size (a @ b) d)"
    "agree (on_peek a d) (on_peek (a @ b) d)" "agree (on_unpack a d) (on_unpack (a @ b) d)"
    unfolding on_mac_common_header_def on_mac_ext_ie_type_def on_length_or_fixed_size_def on_peek_def
      on_unpack_def Let_def st d
    by (intro agree_intros)+
qed

lemma agree_False:
  "agree (bindE x (\<lambda>d'. Inr (False, d'))) (bindE y (\<lambda>d'. Inr (False, d')))" if "agree x y"
  for x y :: "mac_pdu_decoder res"
  using that by (intro agree_intros)

lemma decode_round_append:
  assumes "receiving act a d" "decode_round act a d = Inr (False, d')"
    "length (a @ b) \<le> unat (a_cnt_w_tb d)"
  shows "decode_round act (a @ b) d = Inr (False, d')"
proof -
  note r = receivingD [OF assms(1)]
  have le: "\<not> a_cnt_r d + N_bytes_required d > a_cnt_w_tb d"
  proof
    assume "a_cnt_r d + N_bytes_required d > a_cnt_w_tb d"
    with assms(2) show False
      by (simp add: decode_round_def exec_state_def prepare_mac_pdu_premature_abort_def)
  qed
  have av: "\<not> of_nat (length a) - a_cnt_r d < N_bytes_required d"
    using assms(2) le by (auto simp: decode_round_def split: if_splits)
  have u: "unat (of_nat n - a_cnt_r d) = n - unat (a_cnt_r d)"
    if "n \<le> unat (a_cnt_w_tb d)" "unat (a_cnt_r d) \<le> n" for n
  proof -
    have "n < 2 ^ 32" using that(1) u32_less [of "a_cnt_w_tb d"] by linarith
    then have "unat (of_nat n :: u32) = n" by (simp add: unat_of_nat take_bit_nat_eq_self)
    then show ?thesis using that(2) by (simp add: unat_sub word_le_nat_alt)
  qed
  have "\<not> of_nat (length (a @ b)) - a_cnt_r d < N_bytes_required d"
    using av u [OF r(2,1)] u [OF assms(3)] r(1) by (simp add: word_less_nat_alt)
  with le have rb: "decode_round act (a @ b) d = exec_state act (a @ b) d"
    by (simp add: decode_round_def)
  have ea: "exec_state act a d = Inr (False, d')" using assms(2) le av by (simp add: decode_round_def)
  note g = agree_handlers [OF r(1), THEN agree_False, THEN agreeD]
  have "exec_state act (a @ b) d = Inr (False, d')"
    using ea g by (cases "dstate d") (auto simp: exec_state_def split: if_splits)
  with rb show ?thesis by simp
qed

lemma decode_loop_abort:
  assumes "receiving act a d" "dstate d = MAC_PDU_PREMATURE_ABORT"
  shows "decode_loop act a d = Some (Inr (d\<lparr>a_cnt_r := of_nat (length a)\<rparr>))"
proof -
  have "N_bytes_required d = 0" "\<not> a_cnt_w_tb d < a_cnt_r d"
    using receivingD(1,2,5) [OF assms(1)] assms(2) by (auto simp: state_ok_def not_less word_le_nat_alt)
  then show ?thesis using assms(2)
    by (subst decode_loop.simps) (simp add: decode_round_def exec_state_def)
qed

text \<open>Decoding what has arrived and then the rest is decoding all of it.\<close>

lemma decode_loop_append:
  assumes "receiving act a d" "dstate d \<noteq> MAC_PDU_DONE" "decode_loop act a d = Some (Inr d')"
    "dstate d' \<noteq> MAC_PDU_DONE" "length (a @ b) \<le> unat (a_cnt_w_tb d)"
  shows "decode_loop act (a @ b) d = decode_loop act (a @ b) d'"
  using assms
proof (induction "remaining a d" arbitrary: d rule: less_induct)
  case less
  have "\<exists>x. decode_round act a d = Inr x"
    using less.prems(3) by (subst (asm) decode_loop.simps) (auto split: sum.splits)
  then obtain ret e where e: "decode_round act a d = Inr (ret, e)" by auto
  have ok: "if ret then receiving act a e \<and> same_pdu d e \<and> stopped a e else round_ok act a d e"
    using any.decode_round_ok [OF less.prems(1,2)] e by auto
  show ?case
  proof (cases ret)
    case False
    have "decode_loop act a e = Some (Inr d')"
      using less.prems(3) e False by (subst (asm) decode_loop.simps) simp
    moreover have "decode_loop act (a @ b) d = decode_loop act (a @ b) e"
      using decode_round_append [OF less.prems(1) _ less.prems(5)] e False
      by (subst decode_loop.simps) simp
    ultimately show ?thesis using less ok False
      by (auto simp: round_ok_def same_pdu_def)
  next
    case True
    then have d': "d' = e" using less.prems(3) e by (subst (asm) decode_loop.simps) simp
    have rb: "receiving act (a @ b) d" by (rule receiving_append [OF less.prems(1,5)])
    show ?thesis
    proof (cases "a_cnt_r d + N_bytes_required d > a_cnt_w_tb d \<or> dstate d = MAC_PDU_PREMATURE_ABORT")
      case True
      let ?p = "prepare_mac_pdu_premature_abort d"
      have N: "d = ?p" "N_bytes_required d = 0" "\<not> a_cnt_w_tb d < a_cnt_r d"
        if "dstate d = MAC_PDU_PREMATURE_ABORT"
        using that receivingD(1,2,5) [OF less.prems(1)]
        by (auto simp: state_ok_def prepare_mac_pdu_premature_abort_def not_less word_le_nat_alt)
      have e': "e = ?p\<lparr>a_cnt_r := of_nat (length a)\<rparr>"
      proof (cases "dstate d = MAC_PDU_PREMATURE_ABORT")
        case True
        then have "e = d\<lparr>a_cnt_r := of_nat (length a)\<rparr>"
          using e N(2,3) by (simp add: decode_round_def exec_state_def)
        with N(1) True show ?thesis by simp
      next
        case False
        with e True show ?thesis
          by (simp add: decode_round_def exec_state_def prepare_mac_pdu_premature_abort_def)
      qed
      have re: "receiving act (a @ b) e"
        using ok \<open>ret\<close> less.prems(5) by (intro receiving_append) (auto simp: same_pdu_def)
      have "decode_loop act (a @ b) e = Some (Inr (e\<lparr>a_cnt_r := of_nat (length (a @ b))\<rparr>))"
        by (rule decode_loop_abort [OF re]) (simp add: e' prepare_mac_pdu_premature_abort_def)
      moreover have "decode_loop act (a @ b) d = Some (Inr (?p\<lparr>a_cnt_r := of_nat (length (a @ b))\<rparr>))"
      proof (cases "dstate d = MAC_PDU_PREMATURE_ABORT")
        case True
        with decode_loop_abort [OF rb True] N show ?thesis by simp
      next
        case False
        with True show ?thesis
          by (subst decode_loop.simps)
            (simp add: decode_round_def exec_state_def prepare_mac_pdu_premature_abort_def)
      qed
      ultimately show ?thesis by (simp add: d' e')
    next
      case False
      then have "e = d"
        using e True less.prems(4) ok d'
        by (cases "dstate d")
          (auto simp: decode_round_def exec_state_def bindE_eq_Inr stopped_def split: if_splits)
      with d' show ?thesis by simp
    qed
  qed
qed

subsection \<open>Receptions\<close>

text \<open>\<open>set_configuration\<close> for a transport block of \<open>tb\<close> bytes, then calls of \<open>decode\<close>
whenever more bytes have arrived, none of them after the PDU is done.\<close>

inductive reception ::
  "(mmie_type \<Rightarrow> bool) \<Rightarrow> u32 \<Rightarrow> u32 \<Rightarrow> mac_pdu_decoder \<Rightarrow> bytes \<Rightarrow> mac_pdu_decoder \<Rightarrow> bool"
  for act tb mu d0 where
  configured: "set_configuration tb mu d0 = Inr d \<Longrightarrow> reception act tb mu d0 [] d"
| arrived: "reception act tb mu d0 a d \<Longrightarrow> dstate d \<noteq> MAC_PDU_DONE \<Longrightarrow> length (a @ b) \<le> unat tb \<Longrightarrow>
    decode act (a @ b) d = Some (Inr d') \<Longrightarrow> reception act tb mu d0 (a @ b) d'"

inductive_cases reception_cases: "reception act tb mu d0 a d"

lemma set_configuration_cases:
  assumes "set_configuration tb mu d0 = Inr d"
  shows "tb > 0" "dstate d = MAC_HEADER_TYPE" "a_cnt_w_tb d = tb" "dec_mu d = mu" "a_cnt_r d = 0"
    "N_bytes_required d = 1" "dec_pool d = dec_pool d0" "mmie_decoded_vec d = []"
    "index_next_ie d = (\<lambda>_. 0)"
  using assms by (auto simp: set_configuration_def)

lemma set_configuration_ok: "tb > 0 \<Longrightarrow> \<exists>d. set_configuration tb mu d0 = Inr d"
proof -
  assume "tb > 0"
  then have "1 \<le> tb" by (simp add: word_le_nat_alt word_less_nat_alt)
  with \<open>tb > 0\<close> show ?thesis by (simp add: set_configuration_def)
qed

lemma set_configuration_receiving:
  assumes "set_configuration tb mu d0 = Inr d" "pool_wf (dec_pool d0)"
  shows "receiving act [] d"
  using set_configuration_cases [OF assms(1)] assms(2)
  by (simp add: receiving_def state_ok_def decoded_ok_def)

lemma reception_receiving:
  assumes "reception act tb mu d0 a d" "pool_wf (dec_pool d0)"
  shows "receiving act a d \<and> a_cnt_w_tb d = tb \<and> dec_mu d = mu
     \<and> (stopped a d \<or> a = [] \<and> set_configuration tb mu d0 = Inr d)"
  using assms(1)
proof (induction rule: reception.induct)
  case (configured d)
  then show ?case
    using set_configuration_cases [OF configured] set_configuration_receiving [OF configured assms(2)] by simp
next
  case (arrived a d b d')
  then have r: "receiving act (a @ b) d" by (intro receiving_append) auto
  from any.decode_ok [OF r arrived.hyps(2)] arrived show ?case by (auto simp: same_pdu_def)
qed

lemma decode_eq_loop: "receiving act a d \<Longrightarrow> decode act a d = decode_loop act a d"
  by (simp add: decode_def receiving_def)

text \<open>However the bytes were portioned, the result is that of one call.\<close>

lemma reception_one_call:
  assumes "reception act tb mu d0 a d" "set_configuration tb mu d0 = Inr s" "pool_wf (dec_pool d0)"
  shows "d = s \<and> a = [] \<or> decode act a s = Some (Inr d)"
  using assms(1)
proof (induction rule: reception.induct)
  case (configured d)
  then show ?case using assms(2) by simp
next
  case (arrived a d b d')
  note S = set_configuration_cases [OF assms(2)]
  note R = reception_receiving [OF arrived.hyps(1) assms(3)]
  have s: "receiving act x s" if "length x \<le> unat tb" for x
    using receiving_append [OF set_configuration_receiving [OF assms(2,3)], of x] that S(3) by simp
  have la: "length a \<le> unat tb" using arrived.hyps(3) by simp
  have dab: "decode act (a @ b) d = decode_loop act (a @ b) d"
    using R arrived.hyps(3) by (intro decode_eq_loop receiving_append) auto
  show ?case
  proof (cases "d = s \<and> a = []")
    case True
    with arrived.hyps(4) show ?thesis by simp
  next
    case False
    with arrived.IH have "decode_loop act a s = Some (Inr d)"
      using decode_eq_loop [OF s [OF la]] by simp
    then have "decode_loop act (a @ b) s = decode_loop act (a @ b) d"
      using arrived.hyps(2,3) S(2,3) by (intro decode_loop_append [OF s [OF la]]) auto
    with dab arrived.hyps(4) decode_eq_loop [OF s [OF arrived.hyps(3)]] show ?thesis by simp
  qed
qed

subsection \<open>The next call\<close>

context mmie_codecs
begin

lemma reception_next:
  assumes "reception act tb mu d0 a d" "pool_wf (dec_pool d0)" "dstate d \<noteq> MAC_PDU_DONE"
    "length (a @ b) \<le> unat tb" "mu_ok mu \<or> Assertion_failed \<in> F"
  shows "\<exists>r. decode act (a @ b) d = Some r
    \<and> okE F r (\<lambda>d'. reception act tb mu d0 (a @ b) d' \<and> stopped (a @ b) d')"
proof -
  have R: "receiving act a d" "a_cnt_w_tb d = tb" "dec_mu d = mu"
    using reception_receiving [OF assms(1,2)] by auto
  have "receiving act (a @ b) d" using R assms(4) by (intro receiving_append) auto
  then obtain r where r: "decode act (a @ b) d = Some r"
    "okE F r (\<lambda>d'. receiving act (a @ b) d' \<and> same_pdu d d' \<and> stopped (a @ b) d')"
    using decode_ok [of "a @ b" d] assms(3,5) R(3) by auto
  then show ?thesis using reception.arrived [OF assms(1,3,4)] by (auto simp: okE_def split: sum.splits)
qed

end

end
