(* ===== verification/Mmie_Roundtrip.thy ===== *)
theory Mmie_Roundtrip
  imports Stable_Reads
begin

text \<open>
  Which objects of the classes of \<open>mac_messages_and_ie\<close> can be packed, and what a receiver makes of
  them, for all classes at once, and that the object into which is unpacked does not matter. Three kinds
  of objects that can be packed are left out: random access responses, whose feedback is read from the
  wrong bits, group assignments, which cannot be read without the size in their header, and the release
  of all resources, whose single byte is less than the decoder asks for before it looks at the element.
\<close>

fun receivable :: "mmie_content \<Rightarrow> bool" where
  "receivable (C_network_beacon m) = nb_valid m"
| "receivable (C_cluster_beacon m) = cb_valid m"
| "receivable (C_association_request m) =
     (aq_valid m \<and> set_wf flow_key (aq_flow_ids m))"
| "receivable (C_association_response m) = (ap_valid m \<and> ap_size m = 2)"
| "receivable (C_association_release m) = ar_valid m"
| "receivable (C_reconfiguration_request m) =
     (rq_valid m = Inr True \<and> set_wf (\<lambda>f. flow_order f) (rq_flows m))"
| "receivable (C_reconfiguration_response m) = rp_wf m"
| "receivable (C_mac_security_info m) = si_valid m"
| "receivable (C_route_info m) = ri_valid m"
| "receivable (C_resource_allocation m) = (ra_valid m = Inr True \<and> has_value (ra_allocation_dl m))"
| "receivable (C_random_access_resource m) =
     (rr_valid m = Inr True \<and> rr_sfn_offset m = None \<and> rr_channel m = None)"
| "receivable (C_rd_capability m) = rc_valid m"
| "receivable (C_broadcast_indication m) =
     (bi_valid m \<and> bi_indication_type m = paging)"
| "receivable (C_load_info m) = (li_valid m \<and> li_rd_pt_load m = None \<and> li_rach_load m = None)"
| "receivable (C_measurement_report m) = (mr_valid m \<and> mr_tx_count m = None)"
| "receivable (C_radio_device_status m) = rs_valid m"
| "receivable (C_power_target m) = pt_valid m"
| "receivable (C_time_announce m) = ta_valid m"
| "receivable _ = False"

definition received_as :: "mmie_content \<Rightarrow> mmie_content" where
  "received_as c =
     (case c of
        C_network_beacon m \<Rightarrow> C_network_beacon (nb_received m)
      | C_association_request m \<Rightarrow> C_association_request (aq_received m)
      | C_association_response m \<Rightarrow> C_association_response (ap_received m)
      | C_broadcast_indication m \<Rightarrow> C_broadcast_indication (bi_received m)
      | _ \<Rightarrow> c)"

lemma received_as_type [simp]: "content_type (received_as c) = content_type c"
  by (cases c) (simp_all add: received_as_def)

text \<open>Peeking reads as many bytes as it asks for.\<close>

lemma rd_in: "rd a i = Inr x \<Longrightarrow> i < length a"
  by (simp add: rd_def split: if_splits)

lemma peek_min:
  "content_peek c a = Inr (Inr n) \<Longrightarrow> n \<noteq> 1 \<or> content_type c \<noteq> T_resource_allocation \<Longrightarrow>
   unat (get_packed_size_min_to_peek c) \<le> length a"
  by (cases c)
    (auto simp: nb_peek_def cb_peek_def aq_peek_def ap_peek_def rq_peek_def rp_peek_def ra_peek_def
      rr_peek_def rc_peek_def ne_peek_def bi_peek_def li_peek_def mr_peek_def bindE_eq_Inr Let_def
      Suc_le_eq dest!: rd_in split: if_splits)

text \<open>Every \<open>pack\<close> ends with peeking at what was written.\<close>

lemma assert_peek_all:
  "assert_peek p bs = Inr bs' \<Longrightarrow> p bs' = Inr (Inr (length bs'))"
  by simp

lemma pack_peek:
  "content_pack c = Inr bs \<Longrightarrow> is_packing_peeking (content_type c) \<Longrightarrow>
   content_type c \<noteq> T_neighbouring \<Longrightarrow> content_peek c bs = Inr (Inr (length bs))"
  by (cases c)
    (auto simp: is_packing_peeking_def nb_pack_def cb_pack_def aq_pack_def ap_pack_def rq_pack_def
      rp_pack_def ra_pack_def rr_pack_def rc_pack_def li_pack_def mr_pack_def bi_pack_def bindE_eq_Inr Let_def
      simp del: append.simps split: if_splits option.splits dest!: assert_peek_all)

lemma with_content_True: "r = Inr (True, m) \<Longrightarrow> with_content C r = Inr (True, C m)"
  by (simp add: with_content_def)

lemma li_packed: "li_valid m \<Longrightarrow> li_rd_pt_load m = None \<Longrightarrow> li_rach_load m = None \<Longrightarrow>
    li_pack m = Inr (li_bytes m) \<and> li_packed_size m = Inr (length (li_bytes m))"
  using li_bytes_size(2) [of m] by (simp add: li_pack_iff li_packed_size_def)

lemma rr_packed: "rr_valid m = Inr True \<Longrightarrow> rr_sfn_offset m = None \<Longrightarrow> rr_channel m = None \<Longrightarrow>
    rr_pack m = Inr (rr_bytes m) \<and> rr_packed_size m = Inr (length (rr_bytes m))"
  using rr_bytes_size(1) [of m] by (simp add: rr_pack_iff rr_packed_size_def)

lemma mr_packed:
  assumes "mr_valid m" "mr_tx_count m = None"
  shows "\<exists>bs. mr_pack m = Inr bs \<and> mr_packed_size m = length bs"
  using assms mr_pack_iff [of m] mr_peek_head [of m] by (auto simp: mr_pack_eq)

lemma ra_packed:
  assumes "ra_valid m = Inr True" "has_value (ra_allocation_dl m)"
  shows "\<exists>bs. ra_pack m = Inr bs \<and> ra_packed_size m = Inr (length bs) \<and>
    (\<forall>r. ra_unpack (ra_mu m) (bs @ r) = Inr (True, m))"
proof -
  obtain dl where dl: "ra_allocation_dl m = Some dl" using assms(2) by (cases "ra_allocation_dl m") auto
  obtain bs where bs: "ra_pack m = Inr bs" "length bs = ra_size m"
    using ra_pack_complete [OF assms(1) dl] by metis
  with ra_unpack_pack [OF assms(1) dl bs(1)] assms(1) show ?thesis
    by (simp add: ra_packed_size_def)
qed

lemma ap_packed:
  assumes "ap_valid m" "ap_size m = 2"
  shows "\<exists>bs. ap_pack m = Inr bs \<and> ap_packed_size m = Inr (length bs)"
proof -
  obtain bs where bs: "ap_pack m = Inr bs" using assms ap_pack_iff [of m] by blast
  then have "length bs = 2"
    by (cases "ap_reject_info m") (auto simp: ap_pack_def ap_peek_2)
  with bs assms show ?thesis by (simp add: ap_packed_size_def)
qed

lemma receivable_packed:
  assumes "receivable c"
  shows "\<exists>bs. content_pack c = Inr bs \<and> content_packed_size c = Inr (length bs)
    \<and> (\<forall>r len. content_unpack c len (bs @ r) = Inr (True, received_as c))"
proof (cases c)
  case (C_network_beacon m)
  with assms nb_pack_ok(1) [of m] nb_unpack_received [of m] show ?thesis
    by (auto intro!: with_content_True simp: received_as_def)
next
  case (C_cluster_beacon m)
  with assms cb.pack_ok [of m "cb_mu m"] cb.unpack_pack [of m "cb_mu m"] show ?thesis
    by (auto intro!: with_content_True simp: received_as_def)
next
  case (C_association_request m)
  with assms aq_pack_ok(1) [of m] aq_unpack_pack [of m] show ?thesis
    by (auto intro!: with_content_True simp: aq_packed_size_def received_as_def)
next
  case (C_association_response m)
  with assms ap_packed [of m] ap_pack_received [of m] show ?thesis
    by (auto intro!: with_content_True simp: received_as_def)
next
  case (C_association_release m)
  with assms ar.pack_ok [of m] ar.unpack_pack [of m] show ?thesis by (auto intro!: with_content_True simp: received_as_def)
next
  case (C_reconfiguration_request m)
  with assms rq.pack_ok [of m] rq.unpack_pack [of m] show ?thesis
    by (auto intro!: with_content_True simp: rq_packed_size_def received_as_def)
next
  case (C_reconfiguration_response m)
  with assms rp.pack_ok [of m] rp.unpack_pack [of m] show ?thesis
    by (auto intro!: with_content_True simp: rp_packed_size_def rp_wf_def received_as_def)
next
  case (C_mac_security_info m)
  with assms si.pack_ok [of m] si.unpack_pack [of m] show ?thesis by (auto intro!: with_content_True simp: received_as_def)
next
  case (C_route_info m)
  with assms ri.pack_ok [of m] ri.unpack_pack [of m] show ?thesis by (auto intro!: with_content_True simp: received_as_def)
next
  case (C_resource_allocation m)
  with assms ra_packed [of m] show ?thesis by (auto intro!: with_content_True simp: received_as_def)
next
  case (C_random_access_resource m)
  with assms rr_packed [of m] rr_unpack_pack [of m] show ?thesis by (auto intro!: with_content_True simp: received_as_def)
next
  case (C_rd_capability m)
  with assms rc.pack_ok [of m] rc.unpack_pack [of m] show ?thesis
    by (auto intro!: with_content_True simp: rc_packed_size_def received_as_def)
next
  case (C_broadcast_indication m)
  with assms have p: "\<exists>bs. bi_pack m = Inr bs \<and> length bs = bi_size m \<and> bi_unpack (bs @ r) = Inr (True, bi_received m)"
    and v: "bi_valid m" for r by (auto intro: bi_paging_received)
  obtain bs where bs: "bi_pack m = Inr bs" "length bs = bi_size m" using p [of "[]"] by blast
  have "bi_unpack (bs @ r) = Inr (True, bi_received m)" for r using p [of r] bs(1) by auto
  with bs v C_broadcast_indication show ?thesis by (auto intro!: with_content_True simp: bi_packed_size_def received_as_def)
next
  case (C_load_info m)
  with assms li_packed [of m] li_unpack_pack [of m] show ?thesis by (auto intro!: with_content_True simp: received_as_def)
next
  case (C_measurement_report m)
  with assms mr_packed [of m] mr_unpack_pack [of m] show ?thesis by (auto intro!: with_content_True simp: received_as_def)
next
  case (C_radio_device_status m)
  with assms rs.pack_ok [of m] rs.unpack_pack [of m] show ?thesis by (auto intro!: with_content_True simp: received_as_def)
next
  case (C_power_target m)
  with assms pt.pack_ok [of m] pt.unpack_pack [of m] show ?thesis by (auto intro!: with_content_True simp: received_as_def)
next
  case (C_time_announce m)
  with assms ta.pack_ok [of m] ta.unpack_pack [of m] show ?thesis by (auto intro!: with_content_True simp: received_as_def)
qed (use assms in simp_all)

text \<open>These are all the objects that can be packed, apart from the kinds that are left out. The members
that are of type \<open>std::set\<close> are sorted.\<close>

fun sets_wf :: "mmie_content \<Rightarrow> bool" where
  "sets_wf (C_association_request m) = set_wf flow_key (aq_flow_ids m)"
| "sets_wf (C_reconfiguration_request m) = set_wf (\<lambda>f. flow_order f) (rq_flows m)"
| "sets_wf (C_reconfiguration_response m) = set_wf (\<lambda>f. flow_order f) (rp_flows m)"
| "sets_wf _ = True"

fun left_out :: "mmie_content \<Rightarrow> bool" where
  "left_out (C_resource_allocation m) = (ra_allocation_dl m = None)"
| "left_out (C_broadcast_indication m) = (bi_indication_type m = random_access_response)"
| "left_out (C_group_assignment m) = True"
| "left_out _ = False"

lemma packable_receivable:
  assumes "content_pack c = Inr bs" "sets_wf c" "\<not> left_out c"
  shows "receivable c"
proof (cases c)
  case (C_association_response m)
  with assms ap_pack_iff [of m] show ?thesis by auto
next
  case (C_reconfiguration_response m)
  then have "rp_valid m = Inr True" using assms(1) by (auto simp: rp_pack_def bindE_eq_Inr simp del: append.simps)
  moreover from this have "rp_nof_flows_accepted m = as_included \<or> rp_flows m = []"
    using assms(1) C_reconfiguration_response rp_pack_uncounted [of m] by auto
  ultimately show ?thesis using assms(2) C_reconfiguration_response by (auto simp: rp_wf_def)
next
  case (C_resource_allocation m)
  with assms ra_packable_iff [of m] show ?thesis by auto
next
  case (C_random_access_resource m)
  with assms rr_pack_iff [of m bs] show ?thesis by auto
next
  case (C_load_info m)
  with assms li_pack_iff [of m bs] show ?thesis by auto
next
  case (C_measurement_report m)
  with assms mr_pack_iff [of m] show ?thesis by auto
next
  case (C_neighbouring m)
  with assms ne_pack_fails [of m] show ?thesis by auto
next
  case (C_broadcast_indication m)
  then have "bi_valid m" using assms by (simp add: bi_pack_def)
  moreover have "enum_valid indication_ec t \<longleftrightarrow> t = paging \<or> t = random_access_response" for t
    by (cases t) (simp_all add: enum_valid_def indication_ec_def)
  ultimately show ?thesis using assms C_broadcast_indication by (auto simp: bi_valid_def split: if_splits)
qed (use assms in \<open>auto simp: nb_pack_def cb_pack_def aq_pack_def ar_pack_def rq_pack_def si_pack_def ri_pack_def
      rc_pack_def rs_pack_def pt_pack_def ta_pack_def bindE_eq_Inr\<close>)

text \<open>The class of an object determines its constructor, and unpacking depends on the class and the
subcarrier scaling of the object only.\<close>

lemma content_type_iff:
  "content_type c = T_padding \<longleftrightarrow> c = C_padding"
  "content_type c = T_configuration_request \<longleftrightarrow> c = C_configuration_request"
  "content_type c = T_higher_layer_signalling \<longleftrightarrow> (\<exists>m. c = C_higher_layer_signalling m)"
  "content_type c = T_user_plane_data \<longleftrightarrow> (\<exists>m. c = C_user_plane_data m)"
  "content_type c = T_network_beacon \<longleftrightarrow> (\<exists>m. c = C_network_beacon m)"
  "content_type c = T_cluster_beacon \<longleftrightarrow> (\<exists>m. c = C_cluster_beacon m)"
  "content_type c = T_association_request \<longleftrightarrow> (\<exists>m. c = C_association_request m)"
  "content_type c = T_association_response \<longleftrightarrow> (\<exists>m. c = C_association_response m)"
  "content_type c = T_association_release \<longleftrightarrow> (\<exists>m. c = C_association_release m)"
  "content_type c = T_reconfiguration_request \<longleftrightarrow> (\<exists>m. c = C_reconfiguration_request m)"
  "content_type c = T_reconfiguration_response \<longleftrightarrow> (\<exists>m. c = C_reconfiguration_response m)"
  "content_type c = T_mac_security_info \<longleftrightarrow> (\<exists>m. c = C_mac_security_info m)"
  "content_type c = T_route_info \<longleftrightarrow> (\<exists>m. c = C_route_info m)"
  "content_type c = T_resource_allocation \<longleftrightarrow> (\<exists>m. c = C_resource_allocation m)"
  "content_type c = T_random_access_resource \<longleftrightarrow> (\<exists>m. c = C_random_access_resource m)"
  "content_type c = T_rd_capability \<longleftrightarrow> (\<exists>m. c = C_rd_capability m)"
  "content_type c = T_neighbouring \<longleftrightarrow> (\<exists>m. c = C_neighbouring m)"
  "content_type c = T_broadcast_indication \<longleftrightarrow> (\<exists>m. c = C_broadcast_indication m)"
  "content_type c = T_group_assignment \<longleftrightarrow> (\<exists>m. c = C_group_assignment m)"
  "content_type c = T_load_info \<longleftrightarrow> (\<exists>m. c = C_load_info m)"
  "content_type c = T_measurement_report \<longleftrightarrow> (\<exists>m. c = C_measurement_report m)"
  "content_type c = T_radio_device_status \<longleftrightarrow> (\<exists>m. c = C_radio_device_status m)"
  "content_type c = T_power_target \<longleftrightarrow> (\<exists>m. c = C_power_target m)"
  "content_type c = T_time_announce \<longleftrightarrow> (\<exists>m. c = C_time_announce m)"
  by (cases c; simp)+

lemma unpack_same_type:
  assumes "content_type c0 = content_type c" "\<not> is_mu_depending (content_type c)"
  shows "content_unpack c0 len a = content_unpack c len a" "content_peek c0 a = content_peek c a"
    "get_packed_size_min_to_peek c0 = get_packed_size_min_to_peek c" "content_set_mu mu c0 = Inr c0"
  using assms by (cases c; auto simp: content_type_iff is_mu_depending_def)+

lemma unpack_same:
  assumes "content_type c0 = content_type c" "content_set_mu mu c = Inr c"
    "content_set_mu mu c0 = Inr c1"
  shows "content_unpack c1 len a = content_unpack c len a" "content_peek c1 a = content_peek c a"
    "get_packed_size_min_to_peek c1 = get_packed_size_min_to_peek c"
proof -
  have "content_unpack c1 len a = content_unpack c len a \<and> content_peek c1 a = content_peek c a
     \<and> get_packed_size_min_to_peek c1 = get_packed_size_min_to_peek c"
  proof (cases "is_mu_depending (content_type c)")
    case False
    with unpack_same_type [OF assms(1) False] assms(3) show ?thesis by simp
  next
    case True
    then consider m m0 where "c = C_cluster_beacon m" "c0 = C_cluster_beacon m0"
      | m m0 where "c = C_resource_allocation m" "c0 = C_resource_allocation m0"
      | m m0 where "c = C_random_access_resource m" "c0 = C_random_access_resource m0"
      using assms(1) by (cases c) (simp_all add: is_mu_depending_def content_type_iff, blast+)
    then show ?thesis
    proof cases
      case (1 m m0)
      then have "c1 = C_cluster_beacon (m0\<lparr>cb_mu := mu\<rparr>)" "m\<lparr>cb_mu := mu\<rparr> = m"
        using assms(2,3) by simp_all
      moreover from this(2) have "cb_mu m = mu" by (metis cluster_beacon.select_convs(1) cluster_beacon.surjective cluster_beacon.update_convs(1))
      ultimately show ?thesis using 1 by simp
    next
      case (2 m m0)
      then have "c1 = C_resource_allocation (m0\<lparr>ra_mu := mu\<rparr>)" "m\<lparr>ra_mu := mu\<rparr> = m"
        using assms(2,3) by simp_all
      moreover from this(2) have "ra_mu m = mu" by (metis resource_allocation.select_convs(1) resource_allocation.surjective resource_allocation.update_convs(1))
      ultimately show ?thesis using 2 by simp
    next
      case (3 m m0)
      then have "c1 = C_random_access_resource (m0\<lparr>rr_mu := mu\<rparr>)" "m\<lparr>rr_mu := mu\<rparr> = m"
        using assms(2,3) by simp_all
      moreover from this(2) have "rr_mu m = mu" by (metis random_access_resource.select_convs(1) random_access_resource.surjective random_access_resource.update_convs(1))
      ultimately show ?thesis using 3 by simp
    qed
  qed
  then show "content_unpack c1 len a = content_unpack c len a" "content_peek c1 a = content_peek c a"
    "get_packed_size_min_to_peek c1 = get_packed_size_min_to_peek c"
    by simp_all
qed

lemma set_mu_not_peeking:
  "\<not> is_packing_peeking (content_type c) \<Longrightarrow> content_set_mu mu c = Inr c"
  by (cases c) (simp_all add: is_packing_peeking_def)

lemma receivable_kinds:
  "receivable c \<Longrightarrow> is_packing (content_type c) \<and> content_type c \<noteq> T_neighbouring
     \<and> content_type c \<noteq> T_group_assignment \<and> content_type c \<noteq> T_padding"
  by (cases c) (simp_all add: is_packing_def)

end
