(* ===== verification/Mac_Pdu_Encoder.thy ===== *)
theory Mac_Pdu_Encoder
  imports Mmie_Pool Mac_Header Plcf
begin

text \<open>
  Writing a MAC PDU: \<open>sections_part4/psdef_plcf_mac_pdu.cpp\<close> packs the three headers, the
  firmware attaches MMIEs one after the other (\<open>upper/p2p/procedure/steady_ft.cpp\<close>), and padding
  MMIEs fill the transport block. The buffer of the transport block is a list of bytes; a write beyond
  its end is a fault.
\<close>

subsection \<open>The buffer\<close>

definition put :: "nat \<Rightarrow> bytes \<Rightarrow> bytes \<Rightarrow> bytes res" where
  "put off bs buf =
     (if off + length bs \<le> length buf
      then Inr (take off buf @ bs @ drop (off + length bs) buf) else Inl Out_of_bounds_write)"

lemma put_append [simp]:
  "length bs \<le> length r \<Longrightarrow> put (length xs) bs (xs @ r) = Inr (xs @ bs @ drop (length bs) r)"
  by (simp add: put_def)

lemma put_0 [simp]: "length bs \<le> length r \<Longrightarrow> put 0 bs r = Inr (bs @ drop (length bs) r)"
  by (simp add: put_def)

subsection \<open>The three headers\<close>

record psdef_plcf_mac_pdu =
  plcf_base_effective :: "any_plcf option"
  ppm_mac_header_type :: mac_header_type
  mch_base_effective :: "mac_common_header option"

text \<open>The bytes of the PLCF, the buffer of the transport block, and the number of bytes used.\<close>

definition pack_first_3_header :: "psdef_plcf_mac_pdu \<Rightarrow> bytes \<Rightarrow> (bytes \<times> bytes \<times> u32) res" where
  "pack_first_3_header p buf =
     (case plcf_base_effective p of
        None \<Rightarrow> Inl Assertion_failed
      | Some plcf \<Rightarrow>
          bindE (plcf_pack plcf) (\<lambda>h.
          bindE (mht_pack (ppm_mac_header_type p)) (\<lambda>b.
          bindE (put 0 b buf) (\<lambda>buf.
          (case mch_base_effective p of
             None \<Rightarrow> Inl Invalid_pointer
           | Some mch \<Rightarrow>
               bindE (mch_pack mch) (\<lambda>c.
               bindE (put 1 c buf) (\<lambda>buf.
               Inr (h, buf, 1 + of_nat (mch_packed_size mch)))))))))"

definition get_packed_size_mht_mch :: "psdef_plcf_mac_pdu \<Rightarrow> u32 res" where
  "get_packed_size_mht_mch p =
     (case mch_base_effective p of
        None \<Rightarrow> Inl Invalid_pointer
      | Some mch \<Rightarrow> Inr (1 + of_nat (mch_packed_size mch)))"

subsection \<open>Attaching MMIEs\<close>

text \<open>The statements with which the firmware attaches an MMIE at \<open>a_cnt_w\<close>.\<close>

definition attach :: "u32 \<Rightarrow> mmie \<Rightarrow> bytes \<Rightarrow> u32 \<Rightarrow> (bytes \<times> u32 \<times> mmie) res" where
  "attach N_TB_byte m buf a_cnt_w =
     bindE (is_mmh_sdu_fitting m a_cnt_w N_TB_byte) (\<lambda>fitting.
     assertE fitting (
     bindE (pack_mmh_sdu (unat a_cnt_w) m) (\<lambda>(bs, m).
     bindE (put (unat a_cnt_w) bs buf) (\<lambda>buf.
     bindE (mmie_packed_size_of_mmh_sdu m) (\<lambda>n. Inr (buf, a_cnt_w + n, m))))))"

text \<open>The data of a flow are written to where the object points to.\<close>

definition write_data :: "mmie \<Rightarrow> bytes \<Rightarrow> bytes \<Rightarrow> bytes res" where
  "write_data m data buf =
     (if is_flowing (content_type (mm_content m))
      then bindE (get_data_ptr (mm_content m)) (\<lambda>off. put off data buf) else Inr buf)"

fun attach_all :: "u32 \<Rightarrow> (mmie \<times> bytes) list \<Rightarrow> bytes \<Rightarrow> u32 \<Rightarrow> (bytes \<times> u32) res" where
  "attach_all N_TB_byte [] buf a_cnt_w = Inr (buf, a_cnt_w)"
| "attach_all N_TB_byte ((m, data) # ms) buf a_cnt_w =
     bindE (attach N_TB_byte m buf a_cnt_w) (\<lambda>(buf, a_cnt_w, m).
     bindE (write_data m data buf) (\<lambda>buf. attach_all N_TB_byte ms buf a_cnt_w))"

definition fill_up :: "u32 \<Rightarrow> bytes \<Rightarrow> u32 \<Rightarrow> bytes res" where
  "fill_up N_TB_byte buf a_cnt_w =
     assertE (a_cnt_w \<le> N_TB_byte) (
     bindE (fill_with_padding_ies (N_TB_byte - a_cnt_w)) (\<lambda>bs. put (unat a_cnt_w) bs buf))"

definition write_mac_pdu ::
  "psdef_plcf_mac_pdu \<Rightarrow> (mmie \<times> bytes) list \<Rightarrow> u32 \<Rightarrow> bytes \<Rightarrow> (bytes \<times> bytes) res" where
  "write_mac_pdu p ms N_TB_byte buf =
     bindE (pack_first_3_header p buf) (\<lambda>(plcf, buf, a_cnt_w).
     bindE (attach_all N_TB_byte ms buf a_cnt_w) (\<lambda>(buf, a_cnt_w).
     bindE (fill_up N_TB_byte buf a_cnt_w) (\<lambda>buf. Inr (plcf, buf))))"

subsection \<open>Padding\<close>

declare fill_loop.simps [simp del]

lemma padding_max: "N_PADDING_BYTES_MAX = 257"
  by (simp add: N_PADDING_BYTES_MAX_def mask_eq_exp_minus_1)

text \<open>A padding MMIE of 1 to 257 bytes takes exactly so many bytes and is recognised.\<close>

lemma padding_piece:
  assumes "1 \<le> unat N" "unat N \<le> 257" "mm_content p = C_padding"
  obtains p' bs where "set_nof_padding_bytes N p = Inr p'" "pack_mmh_sdu 0 p' = Inr (bs, p')"
    "mm_content p' = C_padding" "length bs = unat N"
    "\<forall>act r. act T_padding \<longrightarrow> (\<exists>h. mmh_unpack_mac_ext_ie_type act mmh_zero (bs @ r) = Inr (True, h)
       \<and> mmh_tinfo h = Some T_padding)"
proof -
  note goal = that
  have N: "1 \<le> N" "N \<le> 257" using assms by (simp_all add: word_le_nat_alt)
  have *: thesis if s: "set_nof_padding_bytes N p = Inr p'" and c: "mm_content p' = C_padding"
    and h: "mmh_pack (mm_header p') = Inr hs" "length hs + unat (mmh_length (mm_header p')) = unat N"
      "mmh_class (mm_header p') = Some T_padding" "mmh_mac_ext (mm_header p') \<noteq> No_Length_Field"
    for p' hs
  proof (rule goal [of p' "hs @ replicate (unat (mmh_length (mm_header p'))) 0"])
    show "\<forall>act r. act T_padding \<longrightarrow> (\<exists>h. mmh_unpack_mac_ext_ie_type act mmh_zero
        ((hs @ replicate (unat (mmh_length (mm_header p'))) 0) @ r) = Inr (True, h)
       \<and> mmh_tinfo h = Some T_padding)"
      using mmh_received(1) [OF h(1,3)] h(4) by auto
  qed (use s c h in \<open>simp_all add: pack_mmh_sdu_def\<close>)
  have "unat N = 1 \<or> unat N = 2 \<or> 2 < unat N" using assms(1) by linarith
  then consider "N = 1" | "N = 2" | "\<not> N \<le> 2" by (auto simp: word_le_nat_alt word_unat_eq_iff)
  then show thesis
  proof cases
    case 1
    then show thesis
      by (intro * [of "p\<lparr>mm_header := (mm_header p)\<lparr>mmh_mac_ext := Length_Field_1_Bit,
               mmh_ie_type := ie_code ie_11_len_0_codes IE0_Padding_IE, mmh_length := 0\<rparr>\<rparr>" "[0xc0]"])
        (simp_all add: set_nof_padding_bytes_def padding_max assms(3) mmh_pack_def mmh_valid_def
          mmh_class_def ie_code_def ie_from_code_def ie_11_len_0_codes_def UNDEFINED_NUMERIC_32_def to_byte_def)
  next
    case 2
    then show thesis
      by (intro * [of "p\<lparr>mm_header := (mm_header p)\<lparr>mmh_mac_ext := Length_Field_1_Bit,
               mmh_ie_type := ie_code ie_11_len_1_codes IE1_Padding_IE, mmh_length := 1\<rparr>\<rparr>" "[0xe0]"])
        (simp_all add: set_nof_padding_bytes_def padding_max assms(3) mmh_pack_def mmh_valid_def
          mmh_class_def ie_code_def ie_from_code_def ie_11_len_1_codes_def UNDEFINED_NUMERIC_32_def to_byte_def)
  next
    case 3
    then have n: "2 < unat N" "N \<noteq> 1" "N \<noteq> 2" by (auto simp: word_le_nat_alt)
    have l: "unat (N - 2) = unat N - 2" using n(1) by (simp add: unat_sub word_le_nat_alt)
    have v: "N - 2 \<le> mask 8" using assms(2) l by (simp add: word_le_nat_alt unat_mask32)
    then have "N - 2 \<le> mask 16" by (simp add: not_mask_less_fits(2) fits_mono)
    with v n l N assms(3) show thesis
      by (intro * [of "p\<lparr>mm_header := (mm_header p)\<lparr>mmh_mac_ext := Length_Field_8_Bit,
               mmh_ie_type := ie_code ie_00_01_10_codes Padding_IE, mmh_length := N - 2\<rparr>\<rparr>"
            "[0x40, to_byte ((N - 2) AND mask 8)]"])
        (simp_all add: set_nof_padding_bytes_def padding_max mmh_pack_def mmh_valid_def mmh_packed_size_def
          mmh_class_def ie_code_def ie_from_code_def ie_00_01_10_codes_def UNDEFINED_NUMERIC_32_def
          mac_ext_valid_iff not_less to_byte_def)
  qed
qed

text \<open>The loop writes exactly as many bytes as it was told to.\<close>

lemma fill_loop_ok:
  assumes "mm_content p = C_padding"
  shows "\<exists>bs. fill_loop p n = Inr bs \<and> length bs = unat n
    \<and> (n \<noteq> 0 \<longrightarrow> (\<forall>act r. act T_padding \<longrightarrow>
        (\<exists>h. mmh_unpack_mac_ext_ie_type act mmh_zero (bs @ r) = Inr (True, h)
           \<and> mmh_tinfo h = Some T_padding)))"
  using assms
proof (induction "unat n" arbitrary: p n rule: less_induct)
  case less
  show ?case
  proof (cases "n = 0")
    case True
    then show ?thesis by (subst fill_loop.simps) simp
  next
    case False
    define N where "N = (if n > N_PADDING_BYTES_MAX then N_PADDING_BYTES_MAX else n)"
    have N: "1 \<le> unat N" "unat N \<le> 257" "unat N \<le> unat n"
      using False by (auto simp: N_def padding_max word_less_nat_alt not_less word_le_nat_alt
          Suc_le_eq unat_gt_0)
    obtain p' bs where p: "set_nof_padding_bytes N p = Inr p'" "pack_mmh_sdu 0 p' = Inr (bs, p')"
      "mm_content p' = C_padding" "length bs = unat N"
      and h: "\<forall>act r. act T_padding \<longrightarrow> (\<exists>h. mmh_unpack_mac_ext_ie_type act mmh_zero (bs @ r) = Inr (True, h)
         \<and> mmh_tinfo h = Some T_padding)"
      by (rule padding_piece [OF N(1,2) less.prems])
    have l: "unat (n - N) = unat n - unat N" using N(3) by (simp add: unat_sub word_le_nat_alt)
    obtain rest where r: "fill_loop p' (n - N) = Inr rest" "length rest = unat n - unat N"
      using less.hyps [of "n - N" p'] l N p(3) by auto
    have "fill_loop p n = Inr (bs @ rest)"
      using False p r by (subst fill_loop.simps) (simp add: N_def [symmetric])
    with False h N p(4) r(2) show ?thesis by simp
  qed
qed

lemma fill_with_padding_ok:
  "\<exists>bs. fill_with_padding_ies n = Inr bs \<and> length bs = unat n
    \<and> (n \<noteq> 0 \<longrightarrow> (\<forall>act r. act T_padding \<longrightarrow>
        (\<exists>h. mmh_unpack_mac_ext_ie_type act mmh_zero (bs @ r) = Inr (True, h)
           \<and> mmh_tinfo h = Some T_padding)))"
proof -
  have np: "new_padding = Inr \<lparr>mm_header = mmh_zero, mm_content = C_padding\<rparr>"
    by (simp add: new_padding_def constructed_def has_valid_inheritance_and_properties_def
        is_packing_def is_flowing_def is_packing_peeking_def is_mu_depending_def)
  show ?thesis unfolding fill_with_padding_ies_def np bindE.simps
    by (rule fill_loop_ok) simp
qed

end
