(* ===== verification/Mac_Pdu_Transport.thy ===== *)
theory Mac_Pdu_Transport
  imports Reception Mmie_Roundtrip Mac_Pdu_Encoder
begin

text \<open>
  A MAC PDU that was written with \<open>Mac_Pdu_Encoder\<close> is taken apart by the decoder into the MMIEs
  that were attached.
\<close>

subsection \<open>What is sent\<close>

definition is_fine_header :: "mac_mux_header \<Rightarrow> mmie_type \<Rightarrow> bool" where
  "is_fine_header h t \<longleftrightarrow> \<not> isl (mmh_pack h) \<and> mmh_class h = Some t
     \<and> (mmh_mac_ext h = No_Length_Field \<longrightarrow> mmh_length h = UNDEFINED_NUMERIC_32)"

text \<open>The MMIEs that can be sent for a subcarrier scaling \<open>mu\<close>, with the data of a flow.\<close>

definition sendable :: "(mmie_type \<Rightarrow> bool) \<Rightarrow> u32 \<Rightarrow> mmie \<times> bytes \<Rightarrow> bool" where
  "sendable act mu = (\<lambda>(m, data). let c = mm_content m; t = content_type c in
     act t \<and> is_fine_header (mm_header m) t \<and> content_set_mu mu c = Inr c
     \<and> (if is_flowing t then length data = unat (mmh_length (mm_header m)) else receivable c))"

text \<open>The bytes of an MMIE in the PDU, and the object that the receiver fills with them.\<close>

definition item_wire :: "mmie \<times> bytes \<Rightarrow> bytes res" where
  "item_wire = (\<lambda>(m, data).
     bindE (mmh_pack (mm_header m)) (\<lambda>h.
     if is_flowing (content_type (mm_content m)) then Inr (h @ data)
     else bindE (content_pack (mm_content m)) (\<lambda>bs. Inr (h @ bs))))"

definition item_header_size :: "mmie \<times> bytes \<Rightarrow> nat" where
  "item_header_size = (\<lambda>(m, _). case mmh_packed_size (mm_header m) of Inr n \<Rightarrow> unat n | _ \<Rightarrow> 0)"

definition item_received :: "nat \<Rightarrow> mmie \<times> bytes \<Rightarrow> mmie" where
  "item_received off i =
     (let m = fst i; t = content_type (mm_content m); p = Some (off + item_header_size i)
      in \<lparr>mm_header = (mm_header m)\<lparr>mmh_tinfo := Some t\<rparr>,
          mm_content = (case mm_content m of
              C_user_plane_data _ \<Rightarrow> C_user_plane_data p
            | C_higher_layer_signalling _ \<Rightarrow> C_higher_layer_signalling p
            | c \<Rightarrow> received_as c)\<rparr>)"

lemma fine_header:
  assumes "is_fine_header h t"
  obtains hs where "mmh_pack h = Inr hs" "mmh_packed_size h = Inr (of_nat (length hs))"
    "1 \<le> length hs" "length hs \<le> 3"
proof -
  obtain hs where "mmh_pack h = Inr hs" using assms by (cases "mmh_pack h") (auto simp: is_fine_header_def)
  with mmh_pack_size [OF this] show ?thesis by (intro that)
qed

lemma sendable_wire:
  assumes "sendable act mu (m, data)"
  obtains hs bs where "mmh_pack (mm_header m) = Inr hs" "item_wire (m, data) = Inr (hs @ bs)"
    "mmh_packed_size (mm_header m) = Inr (of_nat (length hs))" "1 \<le> length hs" "length hs \<le> 3"
    "item_header_size (m, data) = length hs"
    "is_flowing (content_type (mm_content m)) \<Longrightarrow> bs = data \<and> length data = unat (mmh_length (mm_header m))"
    "\<not> is_flowing (content_type (mm_content m)) \<Longrightarrow> content_pack (mm_content m) = Inr bs
       \<and> content_packed_size (mm_content m) = Inr (length bs)
       \<and> (\<forall>r len. content_unpack (mm_content m) len (bs @ r) = Inr (True, received_as (mm_content m)))"
proof -
  from assms have f: "is_fine_header (mm_header m) (content_type (mm_content m))"
    by (simp add: sendable_def Let_def)
  obtain hs where h: "mmh_pack (mm_header m) = Inr hs"
    "mmh_packed_size (mm_header m) = Inr (of_nat (length hs))" "1 \<le> length hs" "length hs \<le> 3"
    by (rule fine_header [OF f])
  have s: "item_header_size (m, data) = length hs"
    using h(4) by (simp add: item_header_size_def h(2) unat_of_nat take_bit_nat_eq_self)
  show ?thesis
  proof (cases "is_flowing (content_type (mm_content m))")
    case True
    with assms h s show ?thesis by (intro that [of hs data]) (auto simp: item_wire_def sendable_def Let_def)
  next
    case False
    with assms have "receivable (mm_content m)" by (simp add: sendable_def Let_def)
    then obtain bs where "content_pack (mm_content m) = Inr bs"
      "content_packed_size (mm_content m) = Inr (length bs)"
      "\<forall>r len. content_unpack (mm_content m) len (bs @ r) = Inr (True, received_as (mm_content m))"
      using receivable_packed by blast
    with False h s show ?thesis by (intro that [of hs bs]) (auto simp: item_wire_def)
  qed
qed

text \<open>The kinds of MMIEs that can be sent.\<close>

lemma sendable_kind:
  assumes "sendable act mu (m, data)" "t = content_type (mm_content m)"
  shows "act t" "t \<noteq> T_padding" "t \<noteq> T_group_assignment" "is_flowing t \<or> is_packing t"
    "is_packing_peeking t \<Longrightarrow> mmh_mac_ext (mm_header m) = No_Length_Field"
    "mmh_class (mm_header m) = Some t"
    "mmh_mac_ext (mm_header m) = No_Length_Field \<Longrightarrow> mmh_length (mm_header m) = UNDEFINED_NUMERIC_32"
proof -
  have a: "act t" "mmh_class (mm_header m) = Some t"
    "mmh_mac_ext (mm_header m) = No_Length_Field \<Longrightarrow> mmh_length (mm_header m) = UNDEFINED_NUMERIC_32"
    and k: "is_flowing t \<or> receivable (mm_content m)"
    using assms by (auto simp: sendable_def is_fine_header_def Let_def split: if_splits)
  show "act t" "mmh_class (mm_header m) = Some t"
    "mmh_mac_ext (mm_header m) = No_Length_Field \<Longrightarrow> mmh_length (mm_header m) = UNDEFINED_NUMERIC_32"
    by fact+
  show "t \<noteq> T_padding" "t \<noteq> T_group_assignment" "is_flowing t \<or> is_packing t"
    using k receivable_kinds [of "mm_content m"] by (auto simp: assms(2) is_flowing_def)
  show "mmh_mac_ext (mm_header m) = No_Length_Field" if "is_packing_peeking t"
    using a(2) that tinfo_8_bit_range [of _ t] tinfo_16_bit_range [of _ t] tinfo_len_range [of _ t]
    by (cases "mmh_mac_ext (mm_header m)")
      (force simp: mmh_class_def is_packing_peeking_def split: if_splits)+
qed

subsection \<open>Rounds of the decoder\<close>

text \<open>With all bytes of the PDU, the case of the current state is executed.\<close>

lemma round_executes:
  assumes "unat (a_cnt_r d) + unat (N_bytes_required d) \<le> length a" "length a = unat (a_cnt_w_tb d)"
  shows "decode_round act a d = exec_state act a d"
proof -
  have l: "unat (a_cnt_r d + N_bytes_required d) = unat (a_cnt_r d) + unat (N_bytes_required d)"
    using counter_advance(1) [of "N_bytes_required d" "length a" "a_cnt_r d" "a_cnt_w_tb d"] assms
    by simp
  have "of_nat (length a) = a_cnt_w_tb d" using assms(2) by simp
  moreover have "unat (a_cnt_w_tb d - a_cnt_r d) = unat (a_cnt_w_tb d) - unat (a_cnt_r d)"
    using assms by (simp add: unat_sub word_le_nat_alt)
  ultimately have "\<not> of_nat (length a) - a_cnt_r d < N_bytes_required d"
    using assms by (simp add: word_less_nat_alt)
  moreover have "\<not> a_cnt_r d + N_bytes_required d > a_cnt_w_tb d"
    using l assms by (simp add: word_less_nat_alt)
  ultimately show ?thesis by (simp add: decode_round_def)
qed

lemma decode_loop_rounds:
  assumes "unat (a_cnt_r d) + unat (N_bytes_required d) \<le> length a" "length a = unat (a_cnt_w_tb d)"
  shows loop_step: "exec_state act a d = Inr (False, d') \<Longrightarrow> decode_loop act a d = decode_loop act a d'"
    and decode_loop_returns: "exec_state act a d = Inr (True, d') \<Longrightarrow> decode_loop act a d = Some (Inr d')"
    and decode_loop_faults: "exec_state act a d = Inl e \<Longrightarrow> decode_loop act a d = Some (Inl e)"
  by (subst decode_loop.simps, simp add: round_executes [OF assms])+

lemma pool_update_twice [simp]: "pool_update p m (pool_update p m' pool) = pool_update p m pool"
  by (simp add: pool_update_def)

lemma set_mu_same:
  "content_type c0 = content_type c \<Longrightarrow> content_set_mu mu c = Inr c \<Longrightarrow> \<exists>c1. content_set_mu mu c0 = Inr c1"
  by (cases c) (auto simp: content_type_iff assertE_def split: if_splits)

lemma fixed_size_same:
  "content_type c0 = content_type c \<Longrightarrow> is_packing (content_type c) \<Longrightarrow>
   \<not> is_packing_peeking (content_type c) \<Longrightarrow> content_type c \<noteq> T_group_assignment \<Longrightarrow>
   content_packed_size c0 = content_packed_size c"
  by (cases c)
    (auto simp: content_type_iff is_packing_peeking_def is_packing_def ar.size_fixed si.size_fixed
      ri.size_fixed rs.size_fixed pt.size_fixed ta.size_fixed)

lemma mmh_packed_size_cong: "mmh_mac_ext h = mmh_mac_ext h' \<Longrightarrow> mmh_packed_size h = mmh_packed_size h'"
  by (simp add: mmh_packed_size_def)

lemma on_unpack_eq:
  assumes "dec_mmie e = Some p" "pool_at (dec_pool e) p = Inr mm" "mmh_tinfo (mm_header mm) = Some t"
    "filled a (unat (a_cnt_r e)) mm = Inr (True, co)"
  shows "on_unpack a e = Inr (e\<lparr>dec_pool := pool_update p (mm\<lparr>mm_content := co\<rparr>) (dec_pool e),
     index_next_ie := (index_next_ie e)(t := index_next_ie e t + 1),
     mmie_decoded_vec := mmie_decoded_vec e @ [p], a_cnt_r := a_cnt_r e + N_bytes_required e,
     dstate := MAC_PDU_CHECK_IF_DONE, N_bytes_required := 0\<rparr>)"
  using assms
  by (auto simp: on_unpack_def current_def deref_def filled_def store_def Let_def
      prepare_mac_pdu_check_if_done_def split: if_splits)

text \<open>The next object of a class, before and after it is filled.\<close>

definition decoded :: "mmie_type \<Rightarrow> mmie \<Rightarrow> u32 \<Rightarrow> mac_pdu_decoder \<Rightarrow> mac_pdu_decoder" where
  "decoded t m r d = d\<lparr>dec_mmh := mm_header m, dec_mmie := Some (t, index_next_ie d t),
     dec_pool := pool_update (t, index_next_ie d t) m (dec_pool d),
     index_next_ie := (index_next_ie d)(t := index_next_ie d t + 1),
     mmie_decoded_vec := mmie_decoded_vec d @ [(t, index_next_ie d t)],
     a_cnt_r := r, dstate := MAC_PDU_CHECK_IF_DONE, N_bytes_required := 0\<rparr>"

lemma decode_item:
  assumes s: "sendable act mu (m, data)" and w: "item_wire (m, data) = Inr w"
    and t: "t = content_type (mm_content m)"
    and d: "dstate d = MAC_MUX_HEADER_UNPACK_MAC_EXT_IE_TYPE" "N_bytes_required d = 1"
      "unat (a_cnt_r d) = length pre" "length (pre @ w @ rest) = unat (a_cnt_w_tb d)" "dec_mu d = mu"
      "pool_wf (dec_pool d)" "index_next_ie d t < length (dec_pool d t)"
  shows "decode_loop act (pre @ w @ rest) d = decode_loop act (pre @ w @ rest)
    (decoded t (item_received (length pre) (m, data)) (a_cnt_r d + of_nat (length w)) d)"
proof -
  obtain hs bs where hs: "mmh_pack (mm_header m) = Inr hs" "w = hs @ bs"
    "mmh_packed_size (mm_header m) = Inr (of_nat (length hs))" "1 \<le> length hs" "length hs \<le> 3"
    "item_header_size (m, data) = length hs"
    and fl: "is_flowing t \<Longrightarrow> bs = data \<and> length data = unat (mmh_length (mm_header m))"
    and pk: "\<not> is_flowing t \<Longrightarrow> content_pack (mm_content m) = Inr bs
       \<and> content_packed_size (mm_content m) = Inr (length bs)
       \<and> (\<forall>r len. content_unpack (mm_content m) len (bs @ r) = Inr (True, received_as (mm_content m)))"
    using sendable_wire [OF s] w t by auto
  note k = sendable_kind [OF s t]
  let ?a = "pre @ w @ rest" and ?p = "(t, index_next_ie d t)"
  define h1 where "h1 = (mm_header m)\<lparr>mmh_length := UNDEFINED_NUMERIC_32, mmh_tinfo := Some t\<rparr>"
  define h2 where "h2 = (mm_header m)\<lparr>mmh_tinfo := Some t\<rparr>"
  have ext: "mmh_unpack_mac_ext_ie_type act mmh_zero (drop (unat (a_cnt_r d)) ?a) = Inr (True, h1)"
    and len: "mmh_unpack_length h1 (drop (unat (a_cnt_r d)) ?a) = Inr h2"
    using mmh_received [where act = act and r = "bs @ rest", OF hs(1) k(6,1)] k(7) d(3) hs(2) by (simp_all add: h1_def h2_def)
  have fit: "length pre + length hs + length bs \<le> length ?a" using hs(2) by simp
  have lim: "length ?a < 2 ^ 32" using d(4) u32_less [of "a_cnt_w_tb d"] by simp
  have n: "unat (of_nat x :: u32) = x" if "x \<le> length ?a" for x
    using that lim by (simp add: unat_of_nat take_bit_nat_eq_self)
  have adv: "unat (a_cnt_r d + of_nat x) = length pre + x" if "length pre + x \<le> length ?a" for x
    using counter_advance(1) [of "of_nat x" "length ?a" "a_cnt_r d" "a_cnt_w_tb d"] that n [of x] d(3,4)
    by simp
  obtain m0 where m0: "dec_pool d t ! index_next_ie d t = m0" "content_type (mm_content m0) = t"
    "pool_at (dec_pool d) ?p = Inr m0"
    using d(6,7) by (auto simp: pool_wf_def pool_at_def array_at_def)
  obtain h0 c0 where m0_eq: "m0 = \<lparr>mm_header = h0, mm_content = c0\<rparr>" by (cases m0)
  have c0: "content_type c0 = t" using m0(2) by (simp add: m0_eq)
  have pool: "get_mmie_from_pool d t = Some ?p" using d(7) by (simp add: get_mmie_from_pool_def)
  have h1s: "mmh_packed_size h1 = Inr (of_nat (length hs))" "mmh_tinfo h1 = Some t"
    using hs(3) mmh_packed_size_cong [of h1 "mm_header m"] by (simp_all add: h1_def)
  have ok2: "header_ok t h2" by (rule header_received(4) [OF ext h1s(2) k(2) len])
  have bsl: "length bs \<le> length ?a" "length hs \<le> length ?a" using hs(2) by simp_all
  have dr: "drop (unat (a_cnt_r d + of_nat (length hs))) ?a = bs @ rest"
    using adv [of "length hs"] hs(2) by simp
  have dw: "a_cnt_r d + of_nat (length w) = a_cnt_r d + of_nat (length hs) + of_nat (length bs)"
    using hs(2) by simp
  have h2t: "mmh_tinfo h2 = Some t" by (simp add: h2_def)
  let ?i = "item_received (length pre) (m, data)"
  have ih: "mm_header ?i = h2" by (simp add: item_received_def h2_def t Let_def)
  have im: "\<lparr>mm_header = h2, mm_content = mm_content ?i\<rparr> = ?i" by (simp add: ih [symmetric])
  have final: "exec_state act ?a (d\<lparr>dec_mmh := h2, dec_mmie := Some ?p,
      dec_pool := pool_update ?p \<lparr>mm_header = h2, mm_content = c\<rparr> (dec_pool d),
      a_cnt_r := a_cnt_r d + of_nat (length hs), dstate := MAC_MESSAGE_IE_UNPACK,
      N_bytes_required := of_nat (length bs)\<rparr>)
    = Inr (False, decoded t ?i (a_cnt_r d + of_nat (length w)) d)"
    if f: "filled ?a (length pre + length hs) \<lparr>mm_header = h2, mm_content = c\<rparr> = Inr (True, mm_content ?i)"
    for c
  proof -
    have r: "unat (a_cnt_r d + of_nat (length hs)) = length pre + length hs" using adv [of "length hs"] fit by simp
    show ?thesis using d(7) f
      by (simp add: exec_state_def on_unpack_eq [where p = ?p and t = t and co = "mm_content ?i"
            and mm = "\<lparr>mm_header = h2, mm_content = c\<rparr>"] h2t r decoded_def ih im dw)
  qed
  show ?thesis
  proof (cases "is_packing_peeking t")
    case True
    have nf: "\<not> is_flowing t" using True by (auto simp: is_flowing_def is_packing_peeking_def)
    note pk = pk [OF nf]
    have u: "mmh_length (mm_header m) = UNDEFINED_NUMERIC_32" using k(5) [OF True] k(7) by blast
    have h12: "h1 = h2" by (simp add: h1_def h2_def u [symmetric])
    have "mmh_packed_size (mm_header m) = Inr 1"
      using hs(3) k(5) [OF True] by (simp add: mmh_packed_size_def mac_ext_valid_iff)
    then have h1: "length hs = 1" using hs(3-5) n [of "length hs"] bsl by simp
    have mu: "content_set_mu mu (mm_content m) = Inr (mm_content m)"
      using s by (simp add: sendable_def Let_def)
    obtain c1 where c1: "content_set_mu mu c0 = Inr c1"
      using set_mu_same [OF _ mu] c0 t by metis
    have c1t: "content_type c1 = t" using content_set_mu_type [OF c1] c0 by simp
    note same = unpack_same [OF _ mu c1] 
    have min: "get_packed_size_min_to_peek c0 = get_packed_size_min_to_peek (mm_content m)"
      using same(3) content_set_mu_min [OF c1] c0 t by simp
    have pp: "content_peek (mm_content m) bs = Inr (Inr (length bs))"
      using pk pack_peek [of "mm_content m" bs] True t receivable_kinds [of "mm_content m"] s nf
      by (simp add: sendable_def Let_def)
    then have peek: "content_peek c1 (bs @ rest) = Inr (Inr (length bs))"
      using same(2) c0 t agreeD [OF agree_content_peek] by simp
    have minl: "unat (get_packed_size_min_to_peek (mm_content m)) \<le> length bs"
    proof (rule peek_min [OF pp])
      show "length bs \<noteq> 1 \<or> content_type (mm_content m) \<noteq> T_resource_allocation"
        using pk s nf t
        by (cases "mm_content m")
          (auto simp: sendable_def Let_def ra_packed_size_def ra_size_def bindE_eq_Inr has_value_def
            split: option.splits if_splits)
    qed
    define d1 where "d1 = d\<lparr>dec_mmh := h2, dec_mmie := Some ?p,
      dec_pool := pool_update ?p \<lparr>mm_header = h2, mm_content = c0\<rparr> (dec_pool d),
      a_cnt_r := a_cnt_r d + of_nat (length hs), dstate := B_MAC_MESSAGE_IE_PEEK,
      N_bytes_required := get_packed_size_min_to_peek (mm_content m)\<rparr>"
    define d2 where "d2 = d\<lparr>dec_mmh := h2, dec_mmie := Some ?p,
      dec_pool := pool_update ?p \<lparr>mm_header = h2, mm_content = c1\<rparr> (dec_pool d),
      a_cnt_r := a_cnt_r d + of_nat (length hs), dstate := MAC_MESSAGE_IE_UNPACK,
      N_bytes_required := of_nat (length bs)\<rparr>"
    have e1: "exec_state act ?a d = Inr (False, d1)"
      using ext h1s k(2) pool True c0 min
      by (simp add: exec_state_def d(1,2) on_mac_ext_ie_type_def get_mmie_from_pool_def d(7) Let_def
          current_def deref_def m0 m0_eq d1_def h12 h1 store_def)
    have e2: "exec_state act ?a d1 = Inr (False, d2)"
      using peek c1 c1t True d(5,7) dr
      by (simp add: exec_state_def on_peek_def d1_def d2_def Let_def current_def deref_def store_def)
    have "mm_content ?i = received_as (mm_content m)"
      using nf t by (cases "mm_content m") (simp_all add: item_received_def Let_def is_flowing_def)
    then have fq: "filled ?a (length pre + length hs) \<lparr>mm_header = h2, mm_content = c1\<rparr> = Inr (True, mm_content ?i)"
      using nf k(4) c1t same(1) c0 t pk hs(2) by (simp add: filled_def)
    have e3: "exec_state act ?a d2 = Inr (False, decoded t ?i (a_cnt_r d + of_nat (length w)) d)"
      using final [OF fq] by (simp add: d2_def)
    have "decode_loop act ?a d = decode_loop act ?a d1"
      by (rule loop_step [OF _ _ e1]) (use d hs in simp_all)
    also have "\<dots> = decode_loop act ?a d2"
      by (rule loop_step [OF _ _ e2]) (use d hs adv [of "length hs"] minl in \<open>simp_all add: d1_def\<close>)
    also have "\<dots> = decode_loop act ?a (decoded t ?i (a_cnt_r d + of_nat (length w)) d)"
      by (rule loop_step [OF _ _ e3]) (use d hs n bsl adv fit in \<open>simp_all add: d2_def\<close>)
    finally show ?thesis .
  next
    case False
    let ?m2 = "\<lparr>mm_header = h2, mm_content = c0\<rparr>"
    have ty: "content_type c0 = content_type (mm_content m)" "\<not> is_mu_depending (content_type (mm_content m))"
      using False t c0 by (auto simp: is_mu_depending_def is_packing_peeking_def)
    have N2: "(if mmh_length h2 < UNDEFINED_NUMERIC_32 then Inr (mmh_length h2)
        else mmie_packed_size_of_sdu ?m2) = Inr (of_nat (length bs))"
    proof (cases "is_flowing t")
      case True
      then have "mmh_length h2 = of_nat (length bs)" using fl by (simp add: h2_def)
      moreover have "unat (mmh_length h2) < 2 ^ 16" using ok2 True by (simp add: header_ok_def)
      then have "mmh_length h2 < UNDEFINED_NUMERIC_32"
        by (simp add: UNDEFINED_NUMERIC_32_def word_less_nat_alt)
      ultimately show ?thesis by simp
    next
      case f: False
      with k(4) have p: "is_packing t" by simp
      have sz: "content_packed_size c0 = Inr (length bs)"
        using fixed_size_same [OF ty(1)] p False k(3) t pk [OF f] by simp
      show ?thesis
      proof (cases "t = T_radio_device_status")
        case True
        then have "length bs = 1" using sz c0 by (cases c0) (auto simp: rs.size_fixed)
        with ok2 True show ?thesis by (simp add: header_ok_def UNDEFINED_NUMERIC_32_def word_less_nat_alt)
      next
        case r: False
        then have "mmh_length h2 = UNDEFINED_NUMERIC_32" using ok2 p k(3) by (simp add: header_ok_def)
        with p c0 sz show ?thesis by (simp add: sdu_size_packing)
      qed
    qed
    define d1 where "d1 = d\<lparr>dec_mmh := h1, dec_mmie := Some ?p,
      dstate := A_MAC_MUX_HEADER_UNPACK_LENGTH_OR_FIXED_SIZE, N_bytes_required := of_nat (length hs)\<rparr>"
    define d2 where "d2 = d\<lparr>dec_mmh := h2, dec_mmie := Some ?p,
      dec_pool := pool_update ?p ?m2 (dec_pool d), a_cnt_r := a_cnt_r d + of_nat (length hs),
      dstate := MAC_MESSAGE_IE_UNPACK, N_bytes_required := of_nat (length bs)\<rparr>"
    have e1: "exec_state act ?a d = Inr (False, d1)"
      using ext h1s k(2) pool False c0
      by (simp add: exec_state_def d(1) on_mac_ext_ie_type_def get_mmie_from_pool_def d(7) Let_def
          current_def deref_def m0 m0_eq d1_def)
    have e2: "exec_state act ?a d1 = Inr (False, d2)"
      using len N2
      by (auto simp: exec_state_def on_length_or_fixed_size_def d1_def d2_def Let_def current_def deref_def
          m0 m0_eq store_def split: if_splits)
    have fq: "filled ?a (length pre + length hs) ?m2 = Inr (True, mm_content ?i)"
    proof (cases "is_packing t")
      case True
      with type_kinds(2) have nf: "\<not> is_flowing t" by blast
      have "mm_content ?i = received_as (mm_content m)"
        using nf t by (cases "mm_content m") (simp_all add: item_received_def Let_def is_flowing_def)
      with True c0 hs(2) pk [OF nf] unpack_same_type(1) [OF ty] show ?thesis
        by (simp add: filled_def)
    next
      case f: False
      with k(4) have "is_flowing t" by simp
      with f c0 t hs(6) show ?thesis
        by (cases "mm_content m")
          (auto simp: filled_def is_flowing_def content_type_iff set_data_ptr_def item_received_def Let_def)
    qed
    have e3: "exec_state act ?a d2 = Inr (False, decoded t ?i (a_cnt_r d + of_nat (length w)) d)"
      using final [OF fq] by (simp add: d2_def)
    have "decode_loop act ?a d = decode_loop act ?a d1"
      by (rule loop_step [OF _ _ e1]) (use d hs in simp_all)
    also have "\<dots> = decode_loop act ?a d2"
      by (rule loop_step [OF _ _ e2]) (use d hs n bsl in \<open>simp_all add: d1_def\<close>)
    also have "\<dots> = decode_loop act ?a
        (decoded t (item_received (length pre) (m, data)) (a_cnt_r d + of_nat (length w)) d)"
      by (rule loop_step [OF _ _ e3]) (use d hs n bsl adv fit in \<open>simp_all add: d2_def d1_def\<close>)
    finally show ?thesis .
  qed
qed

subsection \<open>Sequences of MMIEs\<close>

fun items_wire :: "(mmie \<times> bytes) list \<Rightarrow> bytes res" where
  "items_wire [] = Inr []"
| "items_wire (i # is) = bindE (item_wire i) (\<lambda>w. bindE (items_wire is) (\<lambda>ws. Inr (w @ ws)))"

fun items_received :: "nat \<Rightarrow> (mmie \<times> bytes) list \<Rightarrow> mmie list" where
  "items_received off [] = []"
| "items_received off (i # is) = item_received off i #
     items_received (off + (case item_wire i of Inr w \<Rightarrow> length w | Inl _ \<Rightarrow> 0)) is"

definition nof_class :: "mmie_type \<Rightarrow> mmie list \<Rightarrow> nat" where
  "nof_class t ms = length (filter (\<lambda>m. content_type (mm_content m) = t) ms)"

text \<open>The decoder has the objects \<open>ms\<close>, in this order.\<close>

definition has_decoded :: "mac_pdu_decoder \<Rightarrow> mmie list \<Rightarrow> bool" where
  "has_decoded d ms \<longleftrightarrow> pool_wf (dec_pool d) \<and> map (deref d) (mmie_decoded_vec d) = map Inr ms
     \<and> (\<forall>t. index_next_ie d t = nof_class t ms)
     \<and> (\<forall>p\<in>set (mmie_decoded_vec d). snd p < index_next_ie d (fst p))"

definition same_reception :: "mac_pdu_decoder \<Rightarrow> mac_pdu_decoder \<Rightarrow> bool" where
  "same_reception d d' \<longleftrightarrow> a_cnt_w_tb d' = a_cnt_w_tb d \<and> dec_mu d' = dec_mu d
     \<and> get_mac_header_type d' = get_mac_header_type d
     \<and> get_mac_common_header d' = get_mac_common_header d
     \<and> (\<forall>t. length (dec_pool d' t) = length (dec_pool d t))"

lemma same_reception_trans: "same_reception d e \<Longrightarrow> same_reception e f \<Longrightarrow> same_reception d f"
  by (simp add: same_reception_def)

lemma has_decoded_cong:
  "has_decoded d ms \<Longrightarrow> dec_pool d' = dec_pool d \<Longrightarrow> index_next_ie d' = index_next_ie d \<Longrightarrow>
   mmie_decoded_vec d' = mmie_decoded_vec d \<Longrightarrow> has_decoded d' ms"
  by (auto simp: has_decoded_def deref_def [abs_def])

lemma item_received_type: "content_type (mm_content (item_received off (m, data))) = content_type (mm_content m)"
  by (cases "mm_content m") (simp_all add: item_received_def Let_def)

lemma decoded_has:
  assumes "has_decoded d ms" "content_type (mm_content m) = t" "nof_class t ms < length (dec_pool d t)"
  shows "has_decoded (decoded t m r d) (ms @ [m])" "same_reception d (decoded t m r d)"
proof -
  let ?d = "decoded t m r d" and ?p = "(t, index_next_ie d t)"
  have np: "?p \<notin> set (mmie_decoded_vec d)" using assms(1) by (auto simp: has_decoded_def)
  have pool: "dec_pool ?d = pool_update ?p m (dec_pool d)" by (simp add: decoded_def)
  have "deref ?d q = deref d q" if "q \<in> set (mmie_decoded_vec d)" for q
    using that np by (intro deref_update(1) [OF pool]) auto
  moreover have "deref ?d ?p = Inr m"
    using assms(1,3) by (intro deref_update(2) [OF pool]) (simp add: has_decoded_def)
  moreover have "mmie_decoded_vec ?d = mmie_decoded_vec d @ [?p]"
    "index_next_ie ?d = (index_next_ie d)(t := index_next_ie d t + 1)" by (simp_all add: decoded_def)
  ultimately show "has_decoded ?d (ms @ [m])"
    using assms(1,2) by (auto simp: has_decoded_def pool pool_wf_update nof_class_def less_Suc_eq cong: map_cong)
  show "same_reception d ?d"
    by (simp add: same_reception_def decoded_def get_mac_header_type_def get_mac_common_header_def)
qed

definition at_mmie :: "mac_pdu_decoder \<Rightarrow> bool" where
  "at_mmie d \<longleftrightarrow> dstate d = MAC_MUX_HEADER_UNPACK_MAC_EXT_IE_TYPE \<and> N_bytes_required d = 1
     \<or> dstate d = MAC_PDU_CHECK_IF_DONE \<and> N_bytes_required d = 0"

text \<open>Before an MMIE the decoder comes to the state in which it reads a multiplexing header.\<close>

lemma at_mmie_step:
  assumes "at_mmie d" "unat (a_cnt_r d) < length a" "length a = unat (a_cnt_w_tb d)"
  obtains e where "decode_loop act a d = decode_loop act a e"
    "e = d\<lparr>dstate := MAC_MUX_HEADER_UNPACK_MAC_EXT_IE_TYPE, N_bytes_required := 1\<rparr>"
proof (cases "dstate d = MAC_PDU_CHECK_IF_DONE")
  case True
  let ?e = "d\<lparr>dstate := MAC_MUX_HEADER_UNPACK_MAC_EXT_IE_TYPE, N_bytes_required := 1\<rparr>"
  have "exec_state act a d = Inr (False, ?e)"
    using True assms(2,3) by (simp add: exec_state_def word_less_nat_alt)
  then have "decode_loop act a d = decode_loop act a ?e"
    using True assms by (intro loop_step) (auto simp: at_mmie_def)
  then show ?thesis by (rule that) simp
next
  case False
  with assms(1) have "d = d\<lparr>dstate := MAC_MUX_HEADER_UNPACK_MAC_EXT_IE_TYPE, N_bytes_required := 1\<rparr>"
    by (simp add: at_mmie_def)
  then show ?thesis by (rule that [OF refl])
qed

lemma decode_items:
  assumes "list_all (sendable act mu) is" "items_wire is = Inr ws" "at_mmie d"
    "unat (a_cnt_r d) = length pre" "length (pre @ ws @ rest) = unat (a_cnt_w_tb d)" "dec_mu d = mu"
    "has_decoded d ms" "\<forall>t. nof_class t ms + nof_class t (map fst is) \<le> length (dec_pool d t)"
  shows "\<exists>d'. decode_loop act (pre @ ws @ rest) d = decode_loop act (pre @ ws @ rest) d' \<and> at_mmie d'
    \<and> unat (a_cnt_r d') = length (pre @ ws) \<and> has_decoded d' (ms @ items_received (length pre) is)
    \<and> same_reception d d'"
  using assms
proof (induction "is" arbitrary: ws pre d ms)
  case Nil
  then have "ws = []" by simp
  with Nil show ?case by (intro exI [of _ d]) (simp add: same_reception_def)
next
  case (Cons i is')
  obtain m data where i: "i = (m, data)" by (cases i)
  let ?t = "content_type (mm_content m)"
  obtain w ws' where w: "item_wire (m, data) = Inr w" "items_wire is' = Inr ws'" "ws = w @ ws'"
    using Cons.prems(2) i by (auto simp: bindE_eq_Inr)
  have s: "sendable act mu (m, data)" "list_all (sendable act mu) is'" using Cons.prems(1) i by auto
  have "1 \<le> length w" using sendable_wire [OF s(1)] w(1) by (metis length_append trans_le_add1 sum.inject(2))
  then have "w \<noteq> []" by auto
  then have lt: "unat (a_cnt_r d) < length (pre @ ws @ rest)" using Cons.prems(4) w(3) by simp
  obtain e where e: "decode_loop act (pre @ ws @ rest) d = decode_loop act (pre @ ws @ rest) e"
    "e = d\<lparr>dstate := MAC_MUX_HEADER_UNPACK_MAC_EXT_IE_TYPE, N_bytes_required := 1\<rparr>"
    by (rule at_mmie_step [OF Cons.prems(3) lt Cons.prems(5)])
  let ?r = "a_cnt_r e + of_nat (length w)" and ?m = "item_received (length pre) (m, data)"
  let ?d = "decoded ?t ?m ?r e"
  have he: "has_decoded e ms" by (rule has_decoded_cong [OF Cons.prems(7)]) (simp_all add: e(2))
  have cap: "nof_class ?t ms < length (dec_pool e ?t)"
    using spec [OF Cons.prems(8), of ?t] i by (simp add: nof_class_def e(2))
  have a: "pre @ ws @ rest = pre @ w @ (ws' @ rest)" using w(3) by simp
  have 1: "decode_loop act (pre @ ws @ rest) e = decode_loop act (pre @ ws @ rest) ?d"
    unfolding a using Cons.prems(4,5,6) he cap a
    by (intro decode_item [OF s(1) w(1) refl]) (auto simp: e(2) has_decoded_def)
  note hd = decoded_has [OF he item_received_type cap, of "length pre" data ?r]
  have ty: "content_type (mm_content ?m) = ?t" by (rule item_received_type)
  have r: "unat ?r = length pre + length w"
    using counter_advance(1) [of "of_nat (length w)" "length (pre @ ws @ rest)" "a_cnt_r e" "a_cnt_w_tb d"]
      Cons.prems(4,5) u32_less [of "a_cnt_w_tb d"] w(3)
    by (simp add: e(2) unat_of_nat take_bit_nat_eq_self)
  have sr: "same_reception d ?d"
    by (rule same_reception_trans [OF _ hd(2)])
      (simp add: e(2) same_reception_def get_mac_header_type_def get_mac_common_header_def)
  have "\<exists>d'. decode_loop act ((pre @ w) @ ws' @ rest) ?d = decode_loop act ((pre @ w) @ ws' @ rest) d' \<and> at_mmie d'
    \<and> unat (a_cnt_r d') = length ((pre @ w) @ ws')
    \<and> has_decoded d' ((ms @ [?m]) @ items_received (length (pre @ w)) is') \<and> same_reception ?d d'"
  proof (rule Cons.IH [OF s(2) w(2)])
    show "at_mmie ?d" by (simp add: at_mmie_def decoded_def)
    show "unat (a_cnt_r ?d) = length (pre @ w)" using r by (simp add: decoded_def)
    show "length ((pre @ w) @ ws' @ rest) = unat (a_cnt_w_tb ?d)" "dec_mu ?d = mu"
      using Cons.prems(5,6) w(3) sr by (simp_all add: same_reception_def)
    show "has_decoded ?d (ms @ [?m])" by (rule hd(1))
    show "\<forall>t. nof_class t (ms @ [?m]) + nof_class t (map fst is') \<le> length (dec_pool ?d t)"
    proof
      fix t
      show "nof_class t (ms @ [?m]) + nof_class t (map fst is') \<le> length (dec_pool ?d t)"
        using spec [OF Cons.prems(8), of t] i sr ty
        by (cases "?t = t") (simp_all add: nof_class_def same_reception_def)
    qed
  qed
  then obtain d' where d': "decode_loop act (pre @ ws @ rest) ?d = decode_loop act (pre @ ws @ rest) d'"
    "at_mmie d'" "unat (a_cnt_r d') = length (pre @ ws)"
    "has_decoded d' (ms @ ?m # items_received (length (pre @ w)) is')" "same_reception ?d d'"
    using w(3) by auto
  then show ?case using e(1) 1 sr w(1) i by (intro exI [of _ d']) (auto intro: same_reception_trans)
qed

subsection \<open>The end of a PDU\<close>

text \<open>What ends the MMIEs of a PDU for a receiver: its end, padding, or an MMIE of a class that the
receiver does not know.\<close>

definition ending :: "(mmie_type \<Rightarrow> bool) \<Rightarrow> bytes \<Rightarrow> bool" where
  "ending act rest \<longleftrightarrow> rest = [] \<or> (\<exists>v h. mmh_unpack_mac_ext_ie_type act mmh_zero rest = Inr (v, h)
     \<and> (mmh_tinfo h = None \<or> mmh_tinfo h = Some T_padding))"

text \<open>A decoder that gives up passes over the rest of the PDU.\<close>

definition given_up :: "mac_pdu_decoder \<Rightarrow> mac_pdu_decoder" where
  "given_up d = (prepare_mac_pdu_premature_abort d)\<lparr>a_cnt_r := a_cnt_w_tb d\<rparr>"

lemma has_given_up:
  "has_decoded d ms \<Longrightarrow> has_decoded (given_up d) ms" "same_reception d (given_up d)"
  "has_reached_valid_final_state (given_up d) = Inr True"
  by (auto simp: given_up_def prepare_mac_pdu_premature_abort_def same_reception_def
      get_mac_header_type_def get_mac_common_header_def has_reached_valid_final_state_def
      elim: has_decoded_cong)

lemma decode_given_up:
  assumes "unat (a_cnt_r d) \<le> length a" "length a = unat (a_cnt_w_tb d)"
  shows "decode_loop act a (prepare_mac_pdu_premature_abort d) = Some (Inr (given_up d))"
  by (rule decode_loop_returns)
    (use assms in \<open>simp_all add: prepare_mac_pdu_premature_abort_def exec_state_def given_up_def\<close>)

lemma decode_ending:
  assumes "at_mmie d" "unat (a_cnt_r d) = length pre" "length (pre @ rest) = unat (a_cnt_w_tb d)"
    "ending act rest" "unat (a_cnt_w_tb d) < 2 ^ 32 - 1" "has_decoded d ms"
  shows "\<exists>d'. decode_loop act (pre @ rest) d = Some (Inr d') \<and> has_decoded d' ms \<and> same_reception d d'
    \<and> has_reached_valid_final_state d' = Inr True"
proof (cases "rest = []")
  case True
  show ?thesis
  proof (cases "dstate d = MAC_PDU_CHECK_IF_DONE")
    case c: True
    let ?d = "d\<lparr>dstate := MAC_PDU_DONE\<rparr>"
    have eq: "a_cnt_r d = a_cnt_w_tb d" using assms(2,3) True by (simp add: word_unat_eq_iff)
    have "exec_state act (pre @ rest) d = Inr (True, ?d)" using c eq by (simp add: exec_state_def)
    then have "decode_loop act (pre @ rest) d = Some (Inr ?d)"
      using c assms(1-3) True by (intro decode_loop_returns) (auto simp: at_mmie_def)
    moreover have "has_decoded ?d ms" by (rule has_decoded_cong [OF assms(6)]) simp_all
    ultimately show ?thesis using eq
      by (auto simp: same_reception_def get_mac_header_type_def get_mac_common_header_def
          has_reached_valid_final_state_def)
  next
    case c: False
    with assms(1) have n: "N_bytes_required d = 1" by (simp add: at_mmie_def)
    have "unat (a_cnt_r d + N_bytes_required d) = unat (a_cnt_w_tb d) + 1"
      using assms(2,3,5) True by (simp add: n unat_word_ariths)
    then have "decode_round act (pre @ rest) d = exec_state act (pre @ rest) (prepare_mac_pdu_premature_abort d)"
      by (simp add: decode_round_def word_less_nat_alt)
    moreover have "exec_state act (pre @ rest) (prepare_mac_pdu_premature_abort d) = Inr (True, given_up d)"
      using assms(3) by (simp add: prepare_mac_pdu_premature_abort_def exec_state_def given_up_def)
    ultimately have "decode_loop act (pre @ rest) d = Some (Inr (given_up d))"
      by (subst decode_loop.simps) simp
    with has_given_up assms(6) show ?thesis by blast
  qed
next
  case False
  then obtain v h where h: "mmh_unpack_mac_ext_ie_type act mmh_zero rest = Inr (v, h)"
    "mmh_tinfo h = None \<or> mmh_tinfo h = Some T_padding"
    using assms(4) by (auto simp: ending_def)
  have "unat (a_cnt_r d) < length (pre @ rest)" using assms(2) False by simp
  then obtain e where e: "decode_loop act (pre @ rest) d = decode_loop act (pre @ rest) e"
    "e = d\<lparr>dstate := MAC_MUX_HEADER_UNPACK_MAC_EXT_IE_TYPE, N_bytes_required := 1\<rparr>"
    using at_mmie_step [OF assms(1) _ assms(3)] by metis
  let ?f = "e\<lparr>dec_mmh := h\<rparr>"
  have lr: "1 \<le> length rest" using False by (cases rest) simp_all
  have dr: "drop (unat (a_cnt_r d)) (pre @ rest) = rest" using assms(2) by simp
  have "exec_state act (pre @ rest) e = Inr (False, prepare_mac_pdu_premature_abort ?f)"
    using h dr e(2) by (auto simp: exec_state_def on_mac_ext_ie_type_def)
  then have "decode_loop act (pre @ rest) e = decode_loop act (pre @ rest) (prepare_mac_pdu_premature_abort ?f)"
    using assms(2,3) lr e(2) by (intro loop_step) simp_all
  also have "\<dots> = Some (Inr (given_up ?f))"
    using assms(2,3) e(2) by (intro decode_given_up) simp_all
  finally have "decode_loop act (pre @ rest) d = Some (Inr (given_up ?f))" using e(1) by simp
  moreover have "has_decoded ?f ms" by (rule has_decoded_cong [OF assms(6)]) (simp_all add: e(2))
  moreover have "same_reception d ?f"
    by (simp add: e(2) same_reception_def get_mac_header_type_def get_mac_common_header_def)
  ultimately show ?thesis using has_given_up same_reception_trans by blast
qed

subsection \<open>A whole PDU\<close>

text \<open>The common header has to be the one that the MAC header type announces.\<close>

fun mch_type :: "mac_common_header \<Rightarrow> mac_header_type_ec" where
  "mch_type (MCH_data _) = DATA_MAC_PDU"
| "mch_type (MCH_beacon _) = Beacon"
| "mch_type (MCH_unicast _) = Unicast"
| "mch_type (MCH_rd_broadcasting _) = RD_Broadcasting"
| "mch_type MCH_empty = mch_empty"

lemma mch_type_emplaced:
  obtains z where "emplaced (mch_type h) = Inr z" "mch_packed_size z = mch_packed_size h"
    "\<And>a. mch_unpack z a = mch_unpack h a"
  by (cases h) (auto simp: emplaced_def intro: that)

lemma decode_up_to:
  assumes h: "mht_valid h" "mht_MAC_header_type h = mch_type mch" "mht_pack h = Inr b"
    and c: "mch_valid mch" "mch_pack mch = Inr c"
    and its: "list_all (sendable act mu) is" "items_wire is = Inr ws"
    and d: "set_configuration tb mu d0 = Inr d" "unat tb = length (b @ c @ ws @ rest)"
      "pool_wf (dec_pool d0)" "\<forall>t. nof_class t (map fst is) \<le> length (dec_pool d0 t)"
  obtains d' where "decode act (b @ c @ ws @ rest) d = decode_loop act ((b @ c @ ws) @ rest) d'"
    "at_mmie d'" "unat (a_cnt_r d') = length (b @ c @ ws)"
    "has_decoded d' (items_received (1 + mch_packed_size mch) is)"
    "get_mac_header_type d' = Some h" "get_mac_common_header d' = Some (mch_received mch)"
    "a_cnt_w_tb d' = tb" "dec_mu d' = mu" "\<And>t. length (dec_pool d' t) = length (dec_pool d0 t)"
proof -
  let ?a = "b @ c @ ws @ rest"
  note S = set_configuration_cases [OF d(1)]
  have ne: "mht_MAC_header_type h \<noteq> Escape" using h(2) by (cases mch) auto
  have b: "length b = 1" "mht_unpack (b @ r) = Inr (True, h)" for r
    using mht.pack_length [of h b] mht.unpack_pack [of h b r] h(1,3) ne by auto
  obtain z where z: "emplaced (mch_type mch) = Inr z" "mch_packed_size z = mch_packed_size mch"
    "\<And>a. mch_unpack z a = mch_unpack mch a" by (rule mch_type_emplaced [of mch]) blast
  have cl: "length c = mch_packed_size mch" "mch_unpack mch (c @ r) = Inr (True, mch_received mch)" for r
    using mch_roundtrip [OF c(1), of r] c(2) by auto
  have n: "unat (of_nat (mch_packed_size mch) :: u32) = mch_packed_size mch" by (cases mch) simp_all
  define d1 where "d1 = d\<lparr>dec_mht := h, mht_effective := True, a_cnt_r := 1, dstate := MAC_COMMON_HEADER,
    mch_effective := True, mch_variant := z, N_bytes_required := of_nat (mch_packed_size mch)\<rparr>"
  define d2 where "d2 = d1\<lparr>mch_variant := mch_received mch, a_cnt_r := 1 + of_nat (mch_packed_size mch),
    dstate := MAC_MUX_HEADER_UNPACK_MAC_EXT_IE_TYPE, N_bytes_required := 1\<rparr>"
  have "?a \<noteq> []" using b(1) by auto
  then have e1: "exec_state act ?a d = Inr (False, d1)"
    using S b(2) z h(2) by (simp add: exec_state_def on_mac_header_type_def d1_def)
  have "drop 1 ?a = c @ ws @ rest" using b(1) by simp
  then have e2: "exec_state act ?a d1 = Inr (False, d2)"
    using z(3) cl(2) by (simp add: exec_state_def on_mac_common_header_def d1_def d2_def)
  have "decode_loop act ?a d = decode_loop act ?a d1"
    by (rule loop_step [OF _ _ e1]) (use S d(2) b(1) in simp_all)
  also have "\<dots> = decode_loop act ?a d2"
    by (rule loop_step [OF _ _ e2]) (use S d(2) b(1) cl(1) n in \<open>simp_all add: d1_def\<close>)
  finally have l: "decode_loop act ?a d = decode_loop act ?a d2" .
  have m10: "mch_packed_size mch \<le> 10" by (cases mch) auto
  have r2: "unat (a_cnt_r d2) = length (b @ c)"
    using b(1) cl(1) m10 n by (simp add: d2_def unat_word_ariths)
  have hd2: "has_decoded d2 []"
    using S(7-9) d(3) by (simp add: has_decoded_def d2_def d1_def nof_class_def)
  obtain d3 where d3: "decode_loop act ((b @ c) @ ws @ rest) d2 = decode_loop act ((b @ c) @ ws @ rest) d3"
    "at_mmie d3" "unat (a_cnt_r d3) = length ((b @ c) @ ws)"
    "has_decoded d3 ([] @ items_received (length (b @ c)) is)" "same_reception d2 d3"
    using decode_items [OF its _ r2 _ _ hd2, of rest] S d(2,4)
    by (auto simp: at_mmie_def d2_def d1_def nof_class_def)
  have "get_mac_header_type d2 = Some h" "get_mac_common_header d2 = Some (mch_received mch)"
    by (simp_all add: d2_def d1_def get_mac_header_type_def get_mac_common_header_def)
  moreover have "decode act ?a d = decode_loop act ?a d" using S d(2) by (simp add: decode_def)
  ultimately show ?thesis using l d3 b(1) cl(1) S
    by (intro that [of d3]) (auto simp: same_reception_def d2_def d1_def)
qed

lemma decode_written:
  assumes h: "mht_valid h" "mht_MAC_header_type h = mch_type mch" "mht_pack h = Inr b"
    and c: "mch_valid mch" "mch_pack mch = Inr c"
    and its: "list_all (sendable act mu) is" "items_wire is = Inr ws" "ending act rest"
    and d: "set_configuration tb mu d0 = Inr d" "unat tb = length (b @ c @ ws @ rest)"
      "unat tb < 2 ^ 32 - 1" "pool_wf (dec_pool d0)"
      "\<forall>t. nof_class t (map fst is) \<le> length (dec_pool d0 t)"
  shows "\<exists>d'. decode act (b @ c @ ws @ rest) d = Some (Inr d')
    \<and> has_decoded d' (items_received (1 + mch_packed_size mch) is)
    \<and> get_mac_header_type d' = Some h \<and> get_mac_common_header d' = Some (mch_received mch)
    \<and> has_reached_valid_final_state d' = Inr True"
proof -
  obtain d3 where d3: "decode act (b @ c @ ws @ rest) d = decode_loop act ((b @ c @ ws) @ rest) d3"
    "at_mmie d3" "unat (a_cnt_r d3) = length (b @ c @ ws)"
    "has_decoded d3 (items_received (1 + mch_packed_size mch) is)"
    "get_mac_header_type d3 = Some h" "get_mac_common_header d3 = Some (mch_received mch)"
    "a_cnt_w_tb d3 = tb"
    by (rule decode_up_to [OF h c its(1,2) d(1,2,4,5)]) blast
  with decode_ending [OF d3(2,3) _ its(3) _ d3(4)] d(2,3) show ?thesis
    by (auto simp: same_reception_def)
qed

subsection \<open>Writing it\<close>

lemma attach_ok:
  assumes s: "sendable act mu (m, data)" and w: "item_wire (m, data) = Inr w"
    and b: "unat cnt = length pre" "length (pre @ r) = unat N" "length w \<le> length r"
  obtains cnt' buf m' where "attach N m (pre @ r) cnt = Inr (buf, cnt', m')"
    "write_data m' data buf = Inr (pre @ w @ drop (length w) r)" "unat cnt' = length (pre @ w)"
proof -
  obtain hs bs where hs: "mmh_pack (mm_header m) = Inr hs" "w = hs @ bs"
    "mmh_packed_size (mm_header m) = Inr (of_nat (length hs))"
    and fl: "is_flowing (content_type (mm_content m)) \<Longrightarrow> bs = data \<and> length data = unat (mmh_length (mm_header m))"
    and pk: "\<not> is_flowing (content_type (mm_content m)) \<Longrightarrow> content_pack (mm_content m) = Inr bs
       \<and> content_packed_size (mm_content m) = Inr (length bs)"
    using sendable_wire [OF s] w by (metis sum.inject(2))
  note k = sendable_kind [OF s refl]
  let ?t = "content_type (mm_content m)"
  have kind: "is_flowing ?t \<or> is_packing ?t" by (rule k(4))
  have size: "mmie_packed_size_of_mmh_sdu m = Inr (of_nat (length w))"
    using hs(2,3) fl pk kind k(2)
    by (cases "mm_content m")
      (auto simp: mmie_packed_size_of_mmh_sdu_def mmie_packed_size_of_sdu_def is_packing_def is_flowing_def)
  have n: "unat (of_nat (length w) :: u32) = length w"
    using b u32_less [of N] by (simp add: unat_of_nat take_bit_nat_eq_self)
  have adv: "unat (cnt + of_nat (length w)) = length pre + length w"
    using counter_advance(1) [of "of_nat (length w)" "unat N" cnt N] b n by simp
  have fit: "is_mmh_sdu_fitting m cnt N = Inr True"
    using adv b by (simp add: is_mmh_sdu_fitting_def size word_le_nat_alt)
  show ?thesis
  proof (cases "is_flowing ?t")
    case True
    let ?m = "m\<lparr>mm_content := mm_content (item_received (length pre) (m, data))\<rparr>"
    have hsl: "item_header_size (m, data) = length hs"
      using sendable_wire [OF s] hs(1) by (metis sum.inject(2))
    have pack: "pack_mmh_sdu (unat cnt) m = Inr (hs, ?m)"
      using True hs(1) b(1) hsl by (cases "mm_content m")
        (simp_all add: pack_mmh_sdu_def is_flowing_def item_received_def Let_def)
    have size': "mmie_packed_size_of_mmh_sdu ?m = Inr (of_nat (length w))"
      using size True by (cases "mm_content m")
        (simp_all add: mmie_packed_size_of_mmh_sdu_def mmie_packed_size_of_sdu_def is_flowing_def
          item_received_def Let_def)
    have "length hs \<le> length r" using b(3) hs(2) by simp
    then have "attach N m (pre @ r) cnt
        = Inr (pre @ hs @ drop (length hs) r, cnt + of_nat (length w), ?m)"
      using fit pack size' b(1) by (simp add: attach_def)
    moreover have "write_data ?m data (pre @ hs @ drop (length hs) r) = Inr (pre @ w @ drop (length w) r)"
    proof -
      have "put (length (pre @ hs)) data ((pre @ hs) @ drop (length hs) r)
          = Inr ((pre @ hs) @ data @ drop (length data) (drop (length hs) r))"
        by (rule put_append) (use b(3) hs(2) fl [OF True] in simp)
      moreover have "get_data_ptr (mm_content ?m) = Inr (length (pre @ hs))"
        using True hsl by (cases "mm_content m") (simp_all add: is_flowing_def item_received_def Let_def)
      ultimately show ?thesis using True fl [OF True] hs(2)
        by (simp add: write_data_def item_received_type add.commute)
    qed
    ultimately show ?thesis using adv by (intro that) simp_all
  next
    case False
    then have p: "is_packing ?t" using kind by simp
    have pack: "pack_mmh_sdu (unat cnt) m = Inr (w, m)"
      using p hs(1,2) pk [OF False] k(2) by (cases "mm_content m")
        (auto simp: pack_mmh_sdu_def is_packing_def)
    then have "attach N m (pre @ r) cnt = Inr (pre @ w @ drop (length w) r, cnt + of_nat (length w), m)"
      using fit size b(1,3) by (simp add: attach_def)
    moreover have "write_data m data (pre @ w @ drop (length w) r) = Inr (pre @ w @ drop (length w) r)"
      using False by (simp add: write_data_def)
    ultimately show ?thesis using adv by (intro that) simp_all
  qed
qed

lemma attach_all_ok:
  assumes "list_all (sendable act mu) is" "items_wire is = Inr ws"
    "unat cnt = length pre" "length (pre @ r) = unat N" "length ws \<le> length r"
  shows "\<exists>cnt'. attach_all N is (pre @ r) cnt = Inr (pre @ ws @ drop (length ws) r, cnt')
    \<and> unat cnt' = length (pre @ ws)"
  using assms
proof (induction "is" arbitrary: ws pre r cnt)
  case (Cons i is')
  obtain m data where i: "i = (m, data)" by (cases i)
  obtain w ws' where w: "item_wire (m, data) = Inr w" "items_wire is' = Inr ws'" "ws = w @ ws'"
    using Cons.prems(2) i by (auto simp: bindE_eq_Inr)
  have s: "sendable act mu (m, data)" "list_all (sendable act mu) is'" using Cons.prems(1) i by auto
  have "length w \<le> length r" using Cons.prems(5) w(3) by simp
  then obtain cnt' buf m' where a: "attach N m (pre @ r) cnt = Inr (buf, cnt', m')"
    "write_data m' data buf = Inr (pre @ w @ drop (length w) r)" "unat cnt' = length (pre @ w)"
    by (rule attach_ok [OF s(1) w(1) Cons.prems(3,4)])
  have "\<exists>cnt''. attach_all N is' ((pre @ w) @ drop (length w) r) cnt'
      = Inr ((pre @ w) @ ws' @ drop (length ws') (drop (length w) r), cnt'')
    \<and> unat cnt'' = length ((pre @ w) @ ws')"
    using Cons.prems(4,5) w(3) by (intro Cons.IH [OF s(2) w(2) a(3)]) auto
  then show ?case using a(1,2) i w(3) by (auto simp: add.commute)
qed simp

lemma ending_padding:
  assumes "act T_padding"
  shows "\<exists>bs. fill_with_padding_ies n = Inr bs \<and> length bs = unat n \<and> ending act bs"
proof -
  obtain bs where bs: "fill_with_padding_ies n = Inr bs" "length bs = unat n"
    and h: "n \<noteq> 0 \<longrightarrow> (\<forall>act r. act T_padding \<longrightarrow>
        (\<exists>h. mmh_unpack_mac_ext_ie_type act mmh_zero (bs @ r) = Inr (True, h)
           \<and> mmh_tinfo h = Some T_padding))"
    using fill_with_padding_ok [of n] by blast
  have "ending act bs"
  proof (cases "n = 0")
    case True
    with bs(2) show ?thesis by (simp add: ending_def)
  next
    case False
    with h assms have "\<exists>h. mmh_unpack_mac_ext_ie_type act mmh_zero (bs @ []) = Inr (True, h)
           \<and> mmh_tinfo h = Some T_padding" by blast
    then show ?thesis by (auto simp: ending_def)
  qed
  with bs show ?thesis by blast
qed

lemma write_mac_pdu_ok:
  assumes p: "plcf_base_effective p = Some pl" "plcf_pack pl = Inr plcf"
    and h: "mht_valid (ppm_mac_header_type p)" "mht_MAC_header_type (ppm_mac_header_type p) = mch_type mch"
    and c: "mch_base_effective p = Some mch" "mch_valid mch"
    and its: "list_all (sendable act mu) is" "items_wire is = Inr ws"
    and n: "length buf = unat N" "1 + mch_packed_size mch + length ws \<le> unat N" "act T_padding"
  shows "\<exists>b c rest. write_mac_pdu p is N buf = Inr (plcf, b @ c @ ws @ rest)
    \<and> mht_pack (ppm_mac_header_type p) = Inr b \<and> mch_pack mch = Inr c \<and> ending act rest
    \<and> length (b @ c @ ws @ rest) = unat N"
proof -
  have ne: "mht_MAC_header_type (ppm_mac_header_type p) \<noteq> Escape" using h(2) by (cases mch) auto
  obtain b where b: "mht_pack (ppm_mac_header_type p) = Inr b" "length b = 1"
    using mht.pack_ok [of "ppm_mac_header_type p"] h(1) ne by auto
  obtain cb where cb: "mch_pack mch = Inr cb" "length cb = mch_packed_size mch"
    using mch_roundtrip [OF c(2)] by blast
  have m10: "mch_packed_size mch \<le> 10" by (cases mch) auto
  let ?r = "drop (mch_packed_size mch) (drop 1 buf)" and ?cnt = "1 + of_nat (mch_packed_size mch) :: u32"
  have "put 0 b buf = Inr (b @ drop 1 buf)" using b(2) n(1,2) by (cases buf) auto
  moreover have "put 1 cb (b @ drop 1 buf) = Inr (b @ cb @ ?r)"
    using put_append [of cb "drop 1 buf" b] b(2) cb(2) n(1,2) by simp
  ultimately have p3: "pack_first_3_header p buf = Inr (plcf, (b @ cb) @ ?r, ?cnt)"
    using p c(1) b(1) cb(1) by (simp add: pack_first_3_header_def)
  have cnt: "unat ?cnt = length (b @ cb)" "length ((b @ cb) @ ?r) = unat N"
    using b(2) cb(2) m10 n(1,2) by (simp_all add: unat_word_ariths unat_of_nat take_bit_nat_eq_self)
  have wl: "length ws \<le> length ?r" using n(1,2) by simp
  obtain cnt' where a: "attach_all N is ((b @ cb) @ ?r) ?cnt
      = Inr ((b @ cb) @ ws @ drop (length ws) ?r, cnt')" "unat cnt' = length ((b @ cb) @ ws)"
    using attach_all_ok [OF its cnt wl] by blast
  have le: "unat cnt' \<le> unat N" using a(2) b(2) cb(2) n(2) by simp
  obtain rest where rest: "fill_with_padding_ies (N - cnt') = Inr rest"
    "length rest = unat (N - cnt')" "ending act rest" using ending_padding [where act = act, OF n(3)] by blast
  have rl: "length rest = unat N - unat cnt'" using rest(2) le by (simp add: unat_sub word_le_nat_alt)
  let ?q = "drop (length ws) ?r"
  have ql: "length ?q = length rest" using rl a(2) b(2) cb(2) n(1,2) by simp
  have "put (length (b @ cb @ ws)) rest ((b @ cb @ ws) @ ?q) = Inr ((b @ cb @ ws) @ rest @ drop (length rest) ?q)"
    by (rule put_append) (simp only: ql)
  moreover have "drop (length rest) ?q = []" using ql by simp
  ultimately have "fill_up N ((b @ cb) @ ws @ ?q) cnt' = Inr (b @ cb @ ws @ rest)"
    using le rest(1) a(2) by (simp add: fill_up_def word_le_nat_alt)
  with p3 a(1) have "write_mac_pdu p is N buf = Inr (plcf, b @ cb @ ws @ rest)"
    by (simp add: write_mac_pdu_def)
  moreover have "length (b @ cb @ ws @ rest) = unat N" using rl le a(2) by simp
  ultimately show ?thesis using b(1) cb(1) rest(3) by blast
qed

end
