(* ===== verification/Mac_Pdu_Properties.thy ===== *)
theory Mac_Pdu_Properties
  imports Mac_Pdu_Transport Codec_Properties
begin

text \<open>
  What the multiplexing header, the pools, the decoder and the writing of MAC PDUs promise to the
  firmware, one statement each, with an instance that is evaluated. The proofs combine the lemmas of
  the theories of the components and the facts of the interpretations of \<open>mmie_codecs\<close>.
\<close>

lemma okE_disj:
  "okE F r P \<Longrightarrow> (\<exists>x. r = Inr x \<and> P x) \<or> (\<exists>e. r = Inl e \<and> e \<in> F)"
  by (cases r) simp_all

subsection \<open>Sample objects\<close>

definition sample_random_access :: random_access_resource where
  "sample_random_access = \<lparr>rr_mu = 0, rr_repeat_info = None, rr_sfn_offset = None, rr_channel = None,
     rr_channel_2 = None,
     rr_allocation = \<lparr>al_start_subslot = 0, al_length_type = length_type_of True, al_length = 0\<rparr>,
     rr_max_rach_length_type = length_type_of True, rr_max_rach_length = 0,
     rr_cw_min = not_defined cw_min_ec, rr_dect_delay = delay_of True,
     rr_response_window_length = 0, rr_cw_max = not_defined cw_max_ec\<rparr>"

definition sample_receiver :: mac_pdu_decoder where
  "sample_receiver = \<lparr>a_cnt_w_tb = 0, a_cnt_r = 0, dstate = MAC_PDU_DONE, mht_effective = False,
     dec_mht = mht_zero, mch_effective = False, mch_variant = MCH_empty, dec_mu = 0,
     N_bytes_required = 0, dec_mmh = mmh_zero, dec_mmie = None, index_next_ie = (\<lambda>_. 0),
     dec_pool = projr (new_pool_rx 0 sample_random_access), mmie_decoded_vec = []\<rparr>"

lemma sample_pool_wf [simp]: "pool_wf (dec_pool sample_receiver)"
  "length (dec_pool sample_receiver t) = rx_pool_size t"
  using new_pool_rx_ok [of 0 sample_random_access] by (auto simp: sample_receiver_def)

definition sample_start :: mac_pdu_decoder where
  "sample_start = projr (set_configuration 12 1 sample_receiver)"

text \<open>A PDU without common header, with three bytes of user data, a power target and padding.\<close>

definition sample_pdu :: bytes where
  "sample_pdu = [4, 0x43, 3, 1, 2, 3, 0x1d, 50, 0x40, 0, 0, 0]"

definition sample_end :: mac_pdu_decoder where
  "sample_end = projr (the (decode shipped sample_pdu sample_start))"

lemma sample_start_eq: "set_configuration 12 1 sample_receiver = Inr sample_start"
  by (simp add: sample_start_def set_configuration_def)

lemma sample_decoded:
  "decode shipped sample_pdu sample_start = Some (Inr sample_end)"
  "reception shipped 12 1 sample_receiver sample_pdu sample_end"
proof -
  have "\<exists>r. decode shipped ([] @ sample_pdu) sample_start = Some r
    \<and> okE {} r (\<lambda>d'. reception shipped 12 1 sample_receiver ([] @ sample_pdu) d' \<and> stopped ([] @ sample_pdu) d')"
    using set_configuration_cases(2) [OF sample_start_eq]
    by (intro repo.reception_next reception.configured [OF sample_start_eq])
      (simp_all add: mu_ok_def sample_pdu_def)
  then obtain r where r: "decode shipped sample_pdu sample_start = Some r"
    "okE {} r (\<lambda>d'. reception shipped 12 1 sample_receiver sample_pdu d' \<and> stopped sample_pdu d')"
    by auto
  then show "decode shipped sample_pdu sample_start = Some (Inr sample_end)"
    by (cases r) (auto simp: sample_end_def)
  with r show "reception shipped 12 1 sample_receiver sample_pdu sample_end" by (cases r) auto
qed

subsection \<open>The multiplexing header\<close>

text \<open>C34: A multiplexing header that a sender can pack and whose combination of MAC extension, IE
type and length belongs to a class is recognised by every receiver that is compiled with this class:
first the class is found from the first byte, then the length, and every field is as it was sent.\<close>

theorem mux_header_received:
  assumes "mmh_pack h = Inr bs" and "mmh_class h = Some t" and "act t"
    and "mmh_mac_ext h = No_Length_Field \<longrightarrow> mmh_length h = UNDEFINED_NUMERIC_32"
  shows "bindE (mmh_unpack_mac_ext_ie_type act mmh_zero (bs @ r)) (\<lambda>(v, h').
           bindE (mmh_packed_size h') (\<lambda>n. bindE (mmh_unpack_length h' (bs @ r)) (\<lambda>h''.
             Inr (v, n, h'')))) = Inr (True, of_nat (length bs), h\<lparr>mmh_tinfo := Some t\<rparr>)"
proof -
  have "mmh_packed_size (h\<lparr>mmh_length := UNDEFINED_NUMERIC_32, mmh_tinfo := Some t\<rparr>) = mmh_packed_size h"
    by (rule mmh_packed_size_cong) simp
  then show ?thesis
    using mmh_received [where act = act, OF assms] mmh_pack_size(1) [OF assms(1)] by simp
qed

theorem mux_header_received_witness:
  "bindE (mmh_unpack_mac_ext_ie_type shipped mmh_zero ([0x43, 200] @ [7])) (\<lambda>(v, h').
     bindE (mmh_packed_size h') (\<lambda>n. bindE (mmh_unpack_length h' ([0x43, 200] @ [7])) (\<lambda>h''.
       Inr (v, n, h'')))) = Inr (True, of_nat (length [0x43, 200 :: u8]),
     (mmh_of Length_Field_8_Bit 3 200)\<lparr>mmh_tinfo := Some T_user_plane_data\<rparr>)"
proof (rule mux_header_received)
  show "mmh_pack (mmh_of Length_Field_8_Bit 3 200) = Inr [0x43, 200]" by code_simp
  show "mmh_class (mmh_of Length_Field_8_Bit 3 200) = Some T_user_plane_data" by code_simp
qed (simp_all add: shipped_def mmh_of_def)

subsection \<open>The decoder\<close>

text \<open>C8: Whatever classes the receiver is compiled with and whatever bytes arrive in whatever
portions, every call of \<open>decode\<close> before the PDU is done returns.\<close>

theorem decoder_terminates:
  assumes "reception act tb mu d0 a d" and "pool_wf (dec_pool d0)"
    and "dstate d \<noteq> MAC_PDU_DONE" and "length (a @ b) \<le> unat tb"
  shows "\<exists>r. decode act (a @ b) d = Some r
    \<and> (case r of Inr d' \<Rightarrow> reception act tb mu d0 (a @ b) d' | Inl _ \<Rightarrow> True)"
  using any.reception_next [OF assms] by (auto simp: okE_def split: sum.splits)

theorem decoder_terminates_witness:
  "\<exists>r. decode (\<lambda>_. True) ([] @ sample_pdu) sample_start = Some r
    \<and> (case r of Inr d' \<Rightarrow> reception (\<lambda>_. True) 12 1 sample_receiver ([] @ sample_pdu) d' | Inl _ \<Rightarrow> True)"
  using set_configuration_cases(2) [OF sample_start_eq]
  by (intro decoder_terminates reception.configured [OF sample_start_eq]) (simp_all add: sample_pdu_def)

text \<open>C4: The receiver with the classes of the repository never fails an assertion, never follows
an invalid pointer and never reads a byte that has not arrived, whatever bytes arrive in whatever
portions, as long as it is configured with a subcarrier scaling of the standard.\<close>

theorem shipped_decoder_safe:
  assumes "reception shipped tb mu d0 a d" and "pool_wf (dec_pool d0)" and "mu \<in> {1, 2, 4, 8}"
    and "dstate d \<noteq> MAC_PDU_DONE" and "length (a @ b) \<le> unat tb"
  shows "\<exists>d'. decode shipped (a @ b) d = Some (Inr d') \<and> reception shipped tb mu d0 (a @ b) d'"
proof -
  have "mu_ok mu \<or> Assertion_failed \<in> {}" using assms(3) by (auto simp: mu_ok_def)
  from repo.reception_next [OF assms(1,2,4,5) this] show ?thesis by (auto dest: okE_disj)
qed

theorem shipped_decoder_safe_witness:
  "\<exists>d'. decode shipped ([] @ sample_pdu) sample_start = Some (Inr d')
     \<and> reception shipped 12 1 sample_receiver ([] @ sample_pdu) d'"
  using set_configuration_cases(2) [OF sample_start_eq]
  by (intro shipped_decoder_safe [OF reception.configured [OF sample_start_eq]]) (simp_all add: sample_pdu_def)

text \<open>C18: No receiver reads beyond the bytes that have arrived, unless it is compiled with the group
assignment IE.\<close>

theorem decoder_in_bounds:
  assumes "reception (without_group act) tb mu d0 a d" and "pool_wf (dec_pool d0)"
    and "mu \<in> {1, 2, 4, 8}" and "dstate d \<noteq> MAC_PDU_DONE" and "length (a @ b) \<le> unat tb"
  shows "decode (without_group act) (a @ b) d \<noteq> Some (Inl Out_of_bounds_read)"
proof -
  have "mu_ok mu \<or> Assertion_failed \<in> - {Out_of_bounds_read}" by simp
  from no_group.reception_next [OF assms(1,2,4,5) this] show ?thesis by (auto dest: okE_disj)
qed

theorem decoder_in_bounds_witness:
  "decode (without_group (\<lambda>_. True)) ([] @ sample_pdu) sample_start \<noteq> Some (Inl Out_of_bounds_read)"
  using set_configuration_cases(2) [OF sample_start_eq]
  by (intro decoder_in_bounds [OF reception.configured [OF sample_start_eq]]) (simp_all add: sample_pdu_def)

text \<open>C19: At any time the objects that were decoded are distinct elements of the pool of classes
that the receiver is compiled with, of each class the first ones in the order of the PDU, and the data
of every decoded flow lie within the bytes that have arrived.\<close>

theorem decoded_objects:
  assumes "reception act tb mu d0 a d" and "pool_wf (dec_pool d0)"
  shows "(\<forall>t. filter (\<lambda>p. fst p = t) (mmie_decoded_vec d) = map (Pair t) [0..<get_N_mmie t d]
        \<and> get_N_mmie t d \<le> length (dec_pool d t))
    \<and> (\<forall>p\<in>set (mmie_decoded_vec d). act (fst p) \<and> (\<exists>m. deref d p = Inr m
        \<and> content_type (mm_content m) = fst p
        \<and> (is_flowing (fst p) \<longrightarrow> (\<exists>off. get_data_ptr (mm_content m) = Inr off
             \<and> off + unat (get_data_size m) \<le> length a))))"
proof -
  have R: "receiving act a d" using reception_receiving [OF assms] by simp
  note r = receivingD [OF R]
  have n: "get_N_mmie t d = index_next_ie d t" for t
    using r(4) by (simp add: get_N_mmie_def decoded_ok_def)
  have "\<exists>m. deref d p = Inr m \<and> content_type (mm_content m) = fst p
        \<and> (is_flowing (fst p) \<longrightarrow> (\<exists>off. get_data_ptr (mm_content m) = Inr off
             \<and> off + unat (get_data_size m) \<le> length a))"
    if p: "p \<in> set (mmie_decoded_vec d)" for p
  proof -
    obtain m where m: "deref d p = Inr m" "flow_ok (unat (a_cnt_r d)) m"
      using r(4) p by (auto simp: decoded_ok_def)
    then have "content_type (mm_content m) = fst p"
      using pool_at_type [OF r(3)] by (auto simp: deref_def split: sum.splits)
    with m r(1) show ?thesis by (fastforce simp: flow_ok_def)
  qed
  with r(4) show ?thesis by (auto simp: decoded_ok_def n)
qed

theorem decoded_objects_witness:
  "(\<forall>t. filter (\<lambda>p. fst p = t) (mmie_decoded_vec sample_end) = map (Pair t) [0..<get_N_mmie t sample_end]
        \<and> get_N_mmie t sample_end \<le> length (dec_pool sample_end t))
    \<and> list_all (\<lambda>p. shipped (fst p) \<and> (\<exists>m. deref sample_end p = Inr m
        \<and> content_type (mm_content m) = fst p)) (mmie_decoded_vec sample_end)"
  using decoded_objects [OF sample_decoded(2)] unfolding list_all_iff by auto

text \<open>C16: It does not matter in which portions the bytes arrive: after any sequence of calls the
decoder is in the state in which a single call with the same bytes would have left it.\<close>

theorem portions_do_not_matter:
  assumes "reception act tb mu d0 a d" and "set_configuration tb mu d0 = Inr s"
    and "pool_wf (dec_pool d0)" and "a \<noteq> []"
  shows "decode act a s = Some (Inr d)"
  using reception_one_call [OF assms(1-3)] assms(4) by simp

theorem portions_do_not_matter_witness:
  "decode shipped sample_pdu sample_start = Some (Inr sample_end)"
  by (rule portions_do_not_matter [OF sample_decoded(2) sample_start_eq]) (simp_all add: sample_pdu_def)

text \<open>C17: Once all bytes of the transport block have been given to the receiver of the repository, the
decoder is in a valid final state, provided that the block is not so large that the 32-bit counters
can wrap.\<close>

theorem final_state_reached:
  assumes "reception shipped tb mu d0 a d" and "pool_wf (dec_pool d0)" and "length a = unat tb"
    and "unat tb + (2 ^ 16 - 1) < 2 ^ 32"
  shows "has_reached_valid_final_state d = Inr True"
proof -
  have R: "receiving shipped a d" "a_cnt_w_tb d = tb"
    "stopped a d \<or> a = [] \<and> set_configuration tb mu d0 = Inr d"
    using reception_receiving [OF assms(1,2)] by auto
  have "stopped a d"
  proof (rule ccontr)
    assume "\<not> stopped a d"
    with R(3) have "a = []" "set_configuration tb mu d0 = Inr d" by auto
    with assms(3) set_configuration_cases(1) [of tb mu d0 d] show False
      by (auto simp: unat_eq_zero)
  qed
  with repo.stopped_final [OF R(1)] assms(3,4) R(2) show ?thesis by simp
qed

theorem final_state_reached_witness: "has_reached_valid_final_state sample_end = Inr True"
  by (rule final_state_reached [OF sample_decoded(2)]) (simp_all add: sample_pdu_def)

subsection \<open>Writing a PDU\<close>

text \<open>C7: A PDU that is written into a transport block of \<open>N < 2 ^ 32 - 1\<close> bytes in which its content
fits, with any valid common header, with any number of MMIEs and padding up to the end, arrives at every
receiver that knows padding and the classes of the MMIEs and has enough objects of each: it finds the
header type, the common header, all MMIEs in their order, flows pointing to their data, and reaches a
valid final state. The MMIEs are flows with their data and the objects that can be packed, except random
access responses, group assignments and the release of all resources (\<open>packable_receivable\<close>). The
common header is the one that was sent, except for the network identity of a beacon, whose least
significant byte is lost; an MMIE has the fields that were sent except where its encoding loses them: the
channels of a network beacon move up, the network beacon period of an association request becomes 50 ms,
an association response becomes a rejection and a paging indication has neither acknowledgement nor
feedback.\<close>

theorem written_pdu_received:
  assumes p: "plcf_base_effective p = Some pl" "plcf_pack pl = Inr plcf"
    and h: "mht_valid (ppm_mac_header_type p)" "mht_MAC_header_type (ppm_mac_header_type p) = mch_type mch"
    and c: "mch_base_effective p = Some mch" "mch_valid mch"
    and its: "list_all (sendable act mu) is" "items_wire is = Inr ws" "act T_padding"
    and n: "length buf = unat N" "1 + mch_packed_size mch + length ws \<le> unat N" "unat N < 2 ^ 32 - 1"
    and d: "pool_wf (dec_pool d0)" "\<forall>t. nof_class t (map fst is) \<le> length (dec_pool d0 t)"
      "set_configuration N mu d0 = Inr s"
  shows "\<exists>pdu d. write_mac_pdu p is N buf = Inr (plcf, pdu) \<and> decode act pdu s = Some (Inr d)
    \<and> map (deref d) (mmie_decoded_vec d) = map Inr (items_received (1 + mch_packed_size mch) is)
    \<and> get_mac_header_type d = Some (ppm_mac_header_type p)
    \<and> get_mac_common_header d = Some (case mch of
        MCH_beacon bh \<Rightarrow> MCH_beacon (bh\<lparr>bh_Network_ID_3_lsb := push_bit 8 (drop_bit 8 (bh_Network_ID_3_lsb bh))\<rparr>)
      | _ \<Rightarrow> mch)
    \<and> has_reached_valid_final_state d = Inr True"
proof -
  have r: "mch_received mch = (case mch of
        MCH_beacon bh \<Rightarrow> MCH_beacon (bh\<lparr>bh_Network_ID_3_lsb := push_bit 8 (drop_bit 8 (bh_Network_ID_3_lsb bh))\<rparr>)
      | _ \<Rightarrow> mch)" by (cases mch) simp_all
  obtain b cb rest where w: "write_mac_pdu p is N buf = Inr (plcf, b @ cb @ ws @ rest)"
    "mht_pack (ppm_mac_header_type p) = Inr b" "mch_pack mch = Inr cb" "ending act rest"
    "length (b @ cb @ ws @ rest) = unat N"
    using write_mac_pdu_ok [OF p h c its(1,2) n(1,2) its(3)] by blast
  show ?thesis
    using decode_written [OF h w(2) c(2) w(3) its(1,2) w(4) d(3) w(5) [symmetric] n(3) d(1,2)] w(1)
    by (auto simp: has_decoded_def r)
qed

definition sample_ppm :: psdef_plcf_mac_pdu where
  "sample_ppm = \<lparr>plcf_base_effective = Some (Plcf10 sample_plcf_10),
     ppm_mac_header_type = \<lparr>mht_Version = v00, mht_MAC_security = macsec_not_used,
       mht_MAC_header_type = mch_empty\<rparr>,
     mch_base_effective = Some MCH_empty\<rparr>"

definition sample_items :: "(mmie \<times> bytes) list" where
  "sample_items =
    [(\<lparr>mm_header = mmh_of Length_Field_8_Bit 3 3, mm_content = C_user_plane_data None\<rparr>, [1, 2, 3]),
     (\<lparr>mm_header = mmh_of No_Length_Field 29 UNDEFINED_NUMERIC_32,
       mm_content = C_power_target \<lparr>pt_power_target_dBm_coded = 50\<rparr>\<rparr>, [])]"

text \<open>A PDU with a beacon header, whose network identity arrives without its last byte.\<close>

definition sample_beacon_ppm :: psdef_plcf_mac_pdu where
  "sample_beacon_ppm = sample_ppm\<lparr>
     ppm_mac_header_type := (ppm_mac_header_type sample_ppm)\<lparr>mht_MAC_header_type := Beacon\<rparr>,
     mch_base_effective := Some (MCH_beacon \<lparr>bh_Network_ID_3_lsb = 0x123456, bh_Transmitter_Address = 0x99\<rparr>)\<rparr>"

theorem written_pdu_received_witness:
  "\<exists>pdu d. write_mac_pdu sample_beacon_ppm sample_items 20 (replicate 20 0) = Inr ([3, 0x44, 0x12, 0x34, 0x72], pdu)
    \<and> decode shipped pdu (projr (set_configuration 20 1 sample_receiver)) = Some (Inr d)
    \<and> map (deref d) (mmie_decoded_vec d) = map Inr (items_received 8 sample_items)
    \<and> get_mac_header_type d = Some (ppm_mac_header_type sample_beacon_ppm)
    \<and> get_mac_common_header d = Some (MCH_beacon \<lparr>bh_Network_ID_3_lsb = 0x123400, bh_Transmitter_Address = 0x99\<rparr>)
    \<and> has_reached_valid_final_state d = Inr True"
proof -
  let ?m = "MCH_beacon \<lparr>bh_Network_ID_3_lsb = 0x123456, bh_Transmitter_Address = 0x99\<rparr>"
  let ?s = "projr (set_configuration 20 1 sample_receiver)"
  have "plcf_base_effective sample_beacon_ppm = Some (Plcf10 sample_plcf_10)"
    "mch_base_effective sample_beacon_ppm = Some ?m"
    by (simp_all add: sample_beacon_ppm_def sample_ppm_def)
  moreover have "plcf_pack (Plcf10 sample_plcf_10) = Inr [3, 0x44, 0x12, 0x34, 0x72]"
    "mht_valid (ppm_mac_header_type sample_beacon_ppm)"
    "mht_MAC_header_type (ppm_mac_header_type sample_beacon_ppm) = mch_type ?m" "mch_valid ?m"
    "list_all (sendable shipped 1) sample_items" "items_wire sample_items = Inr [0x43, 3, 1, 2, 3, 0x1d, 50]"
    by code_simp+
  moreover have "\<forall>t. nof_class t (map fst sample_items) \<le> length (dec_pool sample_receiver t)"
    by (simp add: nof_class_def sample_items_def rx_pool_size_def)
  moreover have "set_configuration 20 1 sample_receiver = Inr ?s" by (simp add: set_configuration_def)
  moreover have "mch_packed_size ?m = 7"
    "push_bit 8 (drop_bit 8 (0x123456 :: u32)) = 0x123400" by code_simp+
  ultimately show ?thesis
    using written_pdu_received [of sample_beacon_ppm "Plcf10 sample_plcf_10" _ ?m shipped 1 sample_items _
        "replicate 20 0" 20 sample_receiver ?s] by (simp add: shipped_def)
qed

text \<open>C35: Padding fills exactly the number of bytes that were asked for, and a receiver that finds it
knows that it is padding.\<close>

theorem padding_fills:
  assumes "act T_padding" and "n \<noteq> 0"
  shows "\<exists>bs. fill_with_padding_ies n = Inr bs \<and> length bs = unat n
    \<and> (\<forall>r. \<exists>h. mmh_unpack_mac_ext_ie_type act mmh_zero (bs @ r) = Inr (True, h)
           \<and> mmh_tinfo h = Some T_padding)"
  using fill_with_padding_ok [of n] assms by blast

theorem padding_fills_witness:
  "\<exists>bs. fill_with_padding_ies 300 = Inr bs \<and> length bs = unat (300 :: u32)
    \<and> (\<forall>r. \<exists>h. mmh_unpack_mac_ext_ie_type shipped mmh_zero (bs @ r) = Inr (True, h)
           \<and> mmh_tinfo h = Some T_padding)"
  by (rule padding_fills) (simp_all add: shipped_def)

subsection \<open>Objects\<close>

text \<open>C36: The pool of a receiver can be built, has eight objects for each kind of flow, one for every
other class but padding and none for padding; an object is of the class under which it is found, and
asking for one more than there are is an error.\<close>

theorem receiver_pool:
  "\<exists>p. new_pool_rx mu0 m0 = Inr p \<and> get_nof_mmie_elements p = 37
    \<and> (\<forall>t. \<forall>m\<in>set (p t). content_type (mm_content m) = t)
    \<and> (\<forall>t i. pool_get t i p = (if i < (if t = T_padding then 0
           else if t \<in> {T_higher_layer_signalling, T_user_plane_data} then 8 else 1)
         then Inr (t, i) else Inl Out_of_range))"
proof -
  obtain p where p: "new_pool_rx mu0 m0 = Inr p" "pool_wf p" "\<forall>t. length (p t) = rx_pool_size t"
    using new_pool_rx_ok by blast
  then have "get_nof_mmie_elements p = 37"
    by (simp add: get_nof_mmie_elements_def pool_types_def rx_pool_size_def)
  with p show ?thesis
    by (auto simp: pool_wf_def pool_get_def pool_at_def array_at_def rx_pool_size_def)
qed

theorem receiver_pool_witness:
  "\<exists>p. new_pool_rx 0 sample_random_access = Inr p \<and> get_nof_mmie_elements p = 37
    \<and> (\<forall>t. \<forall>m\<in>set (p t). content_type (mm_content m) = t)
    \<and> (\<forall>t i. pool_get t i p = (if i < (if t = T_padding then 0
           else if t \<in> {T_higher_layer_signalling, T_user_plane_data} then 8 else 1)
         then Inr (t, i) else Inl Out_of_range))"
  by (rule receiver_pool)

text \<open>A user plane data element can be given each of the four flows and every size from 1 to 65535
bytes; both can be read back, its size in the PDU is that of the shorter length field that is large
enough plus the data, and it can be sent with data of that size.\<close>

theorem user_plane_data_flow:
  assumes "new_user_plane_data = Inr m" and "i \<in> {1, 2, 3, 4}" and "0 < n" and "n \<le> 65535"
    and "act T_user_plane_data" and "length data = unat n"
  shows "\<exists>m'. bindE (upd_set_flow_id i m) (set_data_size n) = Inr m'
    \<and> upd_get_flow_id m' = i \<and> get_data_size m' = n
    \<and> mmie_packed_size_of_mmh_sdu m' = Inr ((if n \<le> 255 then 2 else 3) + n)
    \<and> sendable act mu (m', data)"
proof -
  let ?ext = "if n \<le> 255 then Length_Field_8_Bit else Length_Field_16_Bit"
  let ?h = "\<lambda>e. mmh_zero\<lparr>mmh_ie_type := ie_code ie_00_01_10_codes e, mmh_mac_ext := ?ext, mmh_length := n\<rparr>"
  have m: "m = \<lparr>mm_header = mmh_zero, mm_content = C_user_plane_data None\<rparr>"
    using assms(1) by (simp add: new_user_plane_data_def constructed_def Let_def
        has_valid_inheritance_and_properties_def is_flowing_def is_packing_def is_packing_peeking_def
        is_mu_depending_def)
  have masks: "mask 8 = (255 :: u32)" "mask 16 = (65535 :: u32)" by (simp_all add: mask_eq_exp_minus_1)
  have ie: "ie_code ie_00_01_10_codes e \<noteq> UNDEFINED_NUMERIC_32"
    "ie_A_from_code (ie_code ie_00_01_10_codes e) = e" "tinfo_8_bit e = Some T_user_plane_data"
    if "e \<in> {User_Plane_Data_Flow_1, User_Plane_Data_Flow_2, User_Plane_Data_Flow_3, User_Plane_Data_Flow_4}"
    for e using that
    by (auto simp: ie_code_def ie_from_code_def ie_00_01_10_codes_def UNDEFINED_NUMERIC_32_def)
  have p: "\<not> isl (mmh_pack (?h e))" "mmh_packed_size (?h e) = Inr (if n \<le> 255 then 2 else 3)"
    if "e \<in> {User_Plane_Data_Flow_1, User_Plane_Data_Flow_2, User_Plane_Data_Flow_3, User_Plane_Data_Flow_4}"
    for e using assms(4) ie(1) [OF that]
    by (cases "n \<le> 255"; simp add: mmh_pack_def mmh_valid_def mmh_packed_size_def mac_ext_valid_iff
        masks not_less)+
  have c: "mmh_class (?h e) = Some T_user_plane_data"
    if "e \<in> {User_Plane_Data_Flow_1, User_Plane_Data_Flow_2, User_Plane_Data_Flow_3, User_Plane_Data_Flow_4}"
    for e using that ie(2,3) [OF that] by (auto simp: mmh_class_def)
  have *: ?thesis if e: "e \<in> {User_Plane_Data_Flow_1, User_Plane_Data_Flow_2, User_Plane_Data_Flow_3, User_Plane_Data_Flow_4}"
    and s: "upd_set_flow_id i m = Inr (with_ie e m)" and g: "\<And>m'. ie_A_from_code (mmh_ie_type (mm_header m')) = e
        \<Longrightarrow> upd_get_flow_id m' = i" for e
  proof (intro exI conjI)
    show "bindE (upd_set_flow_id i m) (set_data_size n)
        = Inr \<lparr>mm_header = ?h e, mm_content = C_user_plane_data None\<rparr>"
      using assms(3,4) unfolding s by (simp add: with_ie_def m set_data_size_def masks)
    show "upd_get_flow_id \<lparr>mm_header = ?h e, mm_content = C_user_plane_data None\<rparr> = i"
      by (rule g) (simp add: ie(2) [OF e])
    show "sendable act mu (\<lparr>mm_header = ?h e, mm_content = C_user_plane_data None\<rparr>, data)"
      using assms(5,6) p(1) [OF e] c [OF e]
      by (simp add: sendable_def is_fine_header_def is_flowing_def)
  qed (simp_all add: get_data_size_def mmie_packed_size_of_mmh_sdu_def mmie_packed_size_of_sdu_def p(2) [OF e])
  show ?thesis using assms(2)
    by (elim insertE; intro *) (auto simp: upd_set_flow_id_def upd_get_flow_id_def)
qed

theorem user_plane_data_flow_witness:
  "\<exists>m'. bindE (upd_set_flow_id 2 (projr new_user_plane_data)) (set_data_size 300) = Inr m'
    \<and> upd_get_flow_id m' = 2 \<and> get_data_size m' = 300
    \<and> mmie_packed_size_of_mmh_sdu m' = Inr ((if 300 \<le> (255 :: u32) then 2 else 3) + 300)
    \<and> sendable shipped 1 (m', replicate 300 7)"
proof (rule user_plane_data_flow)
  show "new_user_plane_data = Inr (projr new_user_plane_data)" by code_simp
qed (simp_all add: shipped_def)

end
