(* ===== verification/Mac_Pdu_Errors.thy ===== *)
theory Mac_Pdu_Errors
  imports Mac_Pdu_Properties
begin

text \<open>
  How the decoder of \<open>mac_pdu/mac_pdu_decoder.cpp\<close> leaves the PDU early: elements of classes
  the receiver is not compiled with, and three classes with which, once they were compiled in, a
  received PDU would stop the program.
\<close>

subsection \<open>Entering an element\<close>

text \<open>A receiver without the class sees the same header without type information.\<close>

lemma mmh_unpack_act:
  "mmh_unpack_mac_ext_ie_type act mmh_zero a =
     bindE (mmh_unpack_mac_ext_ie_type (\<lambda>_. True) mmh_zero a) (\<lambda>(v, h).
       Inr (activated act (mmh_tinfo h) \<noteq> None, h\<lparr>mmh_tinfo := activated act (mmh_tinfo h)\<rparr>))"
proof (cases "rd a 0")
  case (Inr b)
  have t: "activated act (activated (\<lambda>_. True) x) = activated act x" for x
    by (simp add: activated_def split: option.split)
  show ?thesis
    by (cases "from_coded_value mac_ext_ec (drop_bit 6 b)")
      (simp_all add: mmh_unpack_mac_ext_ie_type_def mmh_zero_def Inr Let_def t split: if_split)
qed (simp add: mmh_unpack_mac_ext_ie_type_def mmh_zero_def)

text \<open>The class that the first byte of an element stands for, for a receiver with all classes.\<close>

definition element_class :: "u8 \<Rightarrow> mmie_type option" where
  "element_class y = (case mmh_unpack_mac_ext_ie_type (\<lambda>_. True) mmh_zero [y] of
     Inr (_, h) \<Rightarrow> mmh_tinfo h
   | Inl _ \<Rightarrow> None)"

lemma foreign_header:
  assumes "\<forall>t. element_class y = Some t \<longrightarrow> \<not> act t"
  shows "\<exists>v h. mmh_unpack_mac_ext_ie_type act mmh_zero (y # r) = Inr (v, h) \<and> mmh_tinfo h = None"
proof -
  have first: "mmh_unpack_mac_ext_ie_type (\<lambda>_. True) mmh_zero (y # r) =
      mmh_unpack_mac_ext_ie_type (\<lambda>_. True) mmh_zero [y]"
    by (simp add: mmh_unpack_mac_ext_ie_type_def)
  obtain v h where h: "mmh_unpack_mac_ext_ie_type (\<lambda>_. True) mmh_zero [y] = Inr (v, h)"
    by (simp add: mmh_unpack_mac_ext_ie_type_def mmh_zero_def Let_def)
  have "mmh_tinfo h = element_class y" by (simp add: element_class_def h)
  then have "activated act (mmh_tinfo h) = None"
    using assms by (auto simp: activated_def split: option.split)
  with mmh_unpack_act [of act "y # r"] h first show ?thesis by simp
qed

text \<open>From the multiplexing header into an element of a class with a free object.\<close>

lemma enter_element:
  assumes "at_mmie d" "unat (a_cnt_r d) = length pre" "length (pre @ rest) = unat (a_cnt_w_tb d)" "rest \<noteq> []"
    and h: "mmh_unpack_mac_ext_ie_type act mmh_zero rest = Inr (True, h)" "mmh_tinfo h = Some t" "t \<noteq> T_padding"
    and p: "index_next_ie d t < length (dec_pool d t)" "pool_wf (dec_pool d)"
  obtains m where "deref d (t, index_next_ie d t) = Inr m" "content_type (mm_content m) = t"
    "is_packing_peeking t \<Longrightarrow> decode_loop act (pre @ rest) d = decode_loop act (pre @ rest)
      (d\<lparr>dec_mmh := h, dec_mmie := Some (t, index_next_ie d t),
         dec_pool := pool_update (t, index_next_ie d t) (m\<lparr>mm_header := h\<rparr>) (dec_pool d),
         a_cnt_r := a_cnt_r d + 1, dstate := B_MAC_MESSAGE_IE_PEEK,
         N_bytes_required := get_packed_size_min_to_peek (mm_content m)\<rparr>)"
    "\<And>n. \<not> is_packing_peeking t \<Longrightarrow> mmh_packed_size h = Inr n \<Longrightarrow>
      decode_loop act (pre @ rest) d = decode_loop act (pre @ rest)
      (d\<lparr>dec_mmh := h, dec_mmie := Some (t, index_next_ie d t),
         dstate := A_MAC_MUX_HEADER_UNPACK_LENGTH_OR_FIXED_SIZE, N_bytes_required := n\<rparr>)"
proof -
  let ?p = "(t, index_next_ie d t)" and ?a = "pre @ rest"
  obtain m where m: "pool_at (dec_pool d) ?p = Inr m" using p(1) by (simp add: pool_at_def array_at_def)
  then have ty: "content_type (mm_content m) = t" using pool_at_type [OF p(2)] by auto
  have "unat (a_cnt_r d) < length ?a" using assms(2,4) by simp
  then obtain e where e: "decode_loop act ?a d = decode_loop act ?a e"
    "e = d\<lparr>dstate := MAC_MUX_HEADER_UNPACK_MAC_EXT_IE_TYPE, N_bytes_required := 1\<rparr>"
    using at_mmie_step [OF assms(1) _ assms(3)] by metis
  have dr: "drop (unat (a_cnt_r d)) ?a = rest" using assms(2) by simp
  have "1 \<le> length rest" using assms(4) by (cases rest) simp_all
  then have en: "unat (a_cnt_r e) + unat (N_bytes_required e) \<le> length ?a"
    "length ?a = unat (a_cnt_w_tb e)" using assms(2,3) by (simp_all add: e(2))
  note x = exec_state_def on_mac_ext_ie_type_def assms(2) h Let_def get_mmie_from_pool_def p(1) current_def
    deref_def m ty store_def
  show ?thesis
  proof (rule that)
    show "deref d ?p = Inr m" using m by (simp add: deref_def)
    show "decode_loop act ?a d = decode_loop act ?a
      (d\<lparr>dec_mmh := h, dec_mmie := Some ?p, dec_pool := pool_update ?p (m\<lparr>mm_header := h\<rparr>) (dec_pool d),
         a_cnt_r := a_cnt_r d + 1, dstate := B_MAC_MESSAGE_IE_PEEK,
         N_bytes_required := get_packed_size_min_to_peek (mm_content m)\<rparr>)" if "is_packing_peeking t"
      unfolding e(1) by (rule loop_step [OF en]) (simp add: x that e(2))
    show "decode_loop act ?a d = decode_loop act ?a
      (d\<lparr>dec_mmh := h, dec_mmie := Some ?p, dstate := A_MAC_MUX_HEADER_UNPACK_LENGTH_OR_FIXED_SIZE,
         N_bytes_required := n\<rparr>)" if "\<not> is_packing_peeking t" "mmh_packed_size h = Inr n" for n
      unfolding e(1) by (rule loop_step [OF en]) (simp add: x that e(2))
  qed (rule ty)
qed

text \<open>And on to the bytes of an element whose header has a length.\<close>

lemma enter_with_length:
  assumes d: "at_mmie d" "unat (a_cnt_r d) = length pre" "length (pre @ rest) = unat (a_cnt_w_tb d)" "rest \<noteq> []"
    and h: "mmh_unpack_mac_ext_ie_type act mmh_zero rest = Inr (True, h)" "mmh_tinfo h = Some t" "t \<noteq> T_padding"
    and p: "index_next_ie d t < length (dec_pool d t)" "pool_wf (dec_pool d)" "\<not> is_packing_peeking t"
    and n: "mmh_packed_size h = Inr n" "unat n \<le> length rest" "mmh_unpack_length h rest = Inr h'"
      "mmh_length h' < UNDEFINED_NUMERIC_32"
  obtains m where "deref d (t, index_next_ie d t) = Inr m" "content_type (mm_content m) = t"
    "decode_loop act (pre @ rest) d = decode_loop act (pre @ rest)
      (d\<lparr>dec_mmh := h', dec_mmie := Some (t, index_next_ie d t),
         dec_pool := pool_update (t, index_next_ie d t) (m\<lparr>mm_header := h'\<rparr>) (dec_pool d),
         a_cnt_r := a_cnt_r d + n, dstate := MAC_MESSAGE_IE_UNPACK, N_bytes_required := mmh_length h'\<rparr>)"
proof -
  let ?p = "(t, index_next_ie d t)"
  let ?e = "d\<lparr>dec_mmh := h, dec_mmie := Some ?p,
         dstate := A_MAC_MUX_HEADER_UNPACK_LENGTH_OR_FIXED_SIZE, N_bytes_required := n\<rparr>"
  obtain m where m: "deref d ?p = Inr m" "content_type (mm_content m) = t"
    and l: "decode_loop act (pre @ rest) d = decode_loop act (pre @ rest) ?e"
    by (rule enter_element [OF d h p(1,2)]) (use p(3) n(1) in blast)
  have pm: "pool_at (dec_pool d) ?p = Inr m" using m(1) by (simp add: deref_def split: sum.splits)
  have "exec_state act (pre @ rest) ?e = Inr (False, d\<lparr>dec_mmh := h', dec_mmie := Some ?p,
         dec_pool := pool_update ?p (m\<lparr>mm_header := h'\<rparr>) (dec_pool d),
         a_cnt_r := a_cnt_r d + n, dstate := MAC_MESSAGE_IE_UNPACK, N_bytes_required := mmh_length h'\<rparr>)"
    using n(3,4) by (simp add: exec_state_def on_length_or_fixed_size_def d(2) current_def deref_def pm
        store_def Let_def)
  then have "decode_loop act (pre @ rest) ?e = decode_loop act (pre @ rest)
     (d\<lparr>dec_mmh := h', dec_mmie := Some ?p,
         dec_pool := pool_update ?p (m\<lparr>mm_header := h'\<rparr>) (dec_pool d),
         a_cnt_r := a_cnt_r d + n, dstate := MAC_MESSAGE_IE_UNPACK, N_bytes_required := mmh_length h'\<rparr>)"
    using d(2,3) n(2) by (intro loop_step) simp_all
  with m l show ?thesis by (intro that) simp_all
qed

text \<open>If filling an object of the class fails, so does the decoder.\<close>

lemma element_faults:
  assumes d: "at_mmie d" "unat (a_cnt_r d) = length pre" "length (pre @ rest) = unat (a_cnt_w_tb d)" "rest \<noteq> []"
    and h: "mmh_unpack_mac_ext_ie_type act mmh_zero rest = Inr (True, h)" "mmh_tinfo h = Some t" "t \<noteq> T_padding"
    and p: "index_next_ie d t < length (dec_pool d t)" "pool_wf (dec_pool d)" "\<not> is_packing_peeking t"
    and n: "mmh_packed_size h = Inr n" "unat n + unat (mmh_length h') \<le> length rest"
      "mmh_unpack_length h rest = Inr h'" "mmh_length h' < UNDEFINED_NUMERIC_32"
    and f: "\<And>m. content_type (mm_content m) = t \<Longrightarrow> mm_header m = h' \<Longrightarrow>
      filled (pre @ rest) (length pre + unat n) m = Inl e"
  shows "decode_loop act (pre @ rest) d = Some (Inl e)"
proof -
  let ?p = "(t, index_next_ie d t)" and ?a = "pre @ rest"
  obtain m where m: "deref d ?p = Inr m" "content_type (mm_content m) = t"
    and l: "decode_loop act ?a d = decode_loop act ?a
      (d\<lparr>dec_mmh := h', dec_mmie := Some ?p, dec_pool := pool_update ?p (m\<lparr>mm_header := h'\<rparr>) (dec_pool d),
         a_cnt_r := a_cnt_r d + n, dstate := MAC_MESSAGE_IE_UNPACK, N_bytes_required := mmh_length h'\<rparr>)"
    by (rule enter_with_length [OF d h p n(1) _ n(3,4)]) (use n(2) in simp_all)
  define x where "x = d\<lparr>dec_mmh := h', dec_mmie := Some ?p,
     dec_pool := pool_update ?p (m\<lparr>mm_header := h'\<rparr>) (dec_pool d),
     a_cnt_r := a_cnt_r d + n, dstate := MAC_MESSAGE_IE_UNPACK, N_bytes_required := mmh_length h'\<rparr>"
  have r: "unat (a_cnt_r d + n) = length pre + unat n"
    using counter_advance(1) [of n "length ?a" "a_cnt_r d" "a_cnt_w_tb d"] d(2,3) n(2) by simp
  have "on_unpack ?a x = Inl e"
    using f [of "m\<lparr>mm_header := h'\<rparr>"] m(2) p(1) r
    by (auto simp: on_unpack_def x_def current_def deref_def filled_def split: if_splits)
  then have "exec_state act ?a x = Inl e" by (simp add: exec_state_def x_def)
  then have "decode_loop act ?a x = Some (Inl e)"
    by (intro decode_loop_faults) (use r d(3) n(2) in \<open>simp_all add: x_def\<close>)
  with l show ?thesis by (simp add: x_def)
qed

lemma nof_class_received: "nof_class t (items_received off is) = nof_class t (map fst is)"
proof (induction "is" arbitrary: off)
  case (Cons i "is")
  obtain m data where "i = (m, data)" by (cases i)
  with Cons show ?case using item_received_type [of off m data] by (simp add: nof_class_def)
qed (simp add: nof_class_def)

subsection \<open>A sample prefix\<close>

lemma sample_prefix:
  "mht_valid (ppm_mac_header_type sample_ppm)"
  "mht_MAC_header_type (ppm_mac_header_type sample_ppm) = mch_type MCH_empty"
  "mht_pack (ppm_mac_header_type sample_ppm) = Inr [4]"
  "mch_valid MCH_empty" "mch_pack MCH_empty = Inr []"
  "list_all (sendable shipped 1) sample_items" "list_all (sendable (\<lambda>_. True) 1) sample_items"
  "items_wire sample_items = Inr [0x43, 3, 1, 2, 3, 0x1d, 50]"
  by code_simp+

lemma sample_capacity: "nof_class t (map fst sample_items) \<le> rx_pool_size t"
  "t \<notin> {T_user_plane_data, T_power_target, T_padding} \<Longrightarrow> nof_class t (map fst sample_items) < rx_pool_size t"
  by (auto simp: nof_class_def sample_items_def rx_pool_size_def)

definition sample_state :: "u32 \<Rightarrow> mac_pdu_decoder" where
  "sample_state tb = projr (set_configuration tb 1 sample_receiver)"

lemma sample_state_eq: "tb \<noteq> 0 \<Longrightarrow> set_configuration tb 1 sample_receiver = Inr (sample_state tb)"
  using set_configuration_ok [of tb 1 sample_receiver] by (auto simp: sample_state_def word_gt_0)

subsection \<open>Elements the receiver does not know\<close>

text \<open>C37: An element whose first byte stands for a class the receiver is not compiled with, or is
reserved, ends the decoding if it comes after valid headers and any MMIEs as in a written PDU that the
receiver knows and has objects for: all these have been received, with the same losses as there, everything
after is ignored, and the decoder is in a valid final state. The block has less than \<open>2 ^ 32 - 1\<close> bytes.\<close>

theorem foreign_element_ends_decoding:
  assumes h: "mht_valid h" "mht_MAC_header_type h = mch_type mch" "mht_pack h = Inr b"
    and c: "mch_valid mch" "mch_pack mch = Inr c"
    and its: "list_all (sendable act mu) is" "items_wire is = Inr ws"
    and y: "\<forall>t. element_class y = Some t \<longrightarrow> \<not> act t"
    and d: "set_configuration tb mu d0 = Inr s" "unat tb = length (b @ c @ ws @ y # rest)"
      "unat tb < 2 ^ 32 - 1" "pool_wf (dec_pool d0)"
      "\<forall>t. nof_class t (map fst is) \<le> length (dec_pool d0 t)"
  shows "\<exists>d. decode act (b @ c @ ws @ y # rest) s = Some (Inr d)
    \<and> map (deref d) (mmie_decoded_vec d) = map Inr (items_received (1 + mch_packed_size mch) is)
    \<and> get_mac_header_type d = Some h \<and> get_mac_common_header d = Some (mch_received mch)
    \<and> has_reached_valid_final_state d = Inr True"
proof -
  have "ending act (y # rest)" using foreign_header [OF y, of rest] by (auto simp: ending_def)
  from decode_written [OF h c its this d] show ?thesis by (auto simp: has_decoded_def)
qed

text \<open>A resource allocation, and a reserved type with a length of 8 bits.\<close>

lemma sample_foreign:
  "element_class 0x12 = Some T_resource_allocation" "element_class 0x47 = None"
  by code_simp+

theorem foreign_element_ends_decoding_witness:
  "\<exists>d d'. decode shipped ([4] @ [] @ [0x43, 3, 1, 2, 3, 0x1d, 50] @ 0x12 # [0xff]) (sample_state 10) = Some (Inr d)
    \<and> map (deref d) (mmie_decoded_vec d) = map Inr (items_received (1 + mch_packed_size MCH_empty) sample_items)
    \<and> has_reached_valid_final_state d = Inr True
    \<and> decode shipped ([4] @ [] @ [0x43, 3, 1, 2, 3, 0x1d, 50] @ 0x47 # [0xff]) (sample_state 10) = Some (Inr d')
    \<and> has_reached_valid_final_state d' = Inr True"
proof -
  note f = foreign_element_ends_decoding [OF sample_prefix(1-6,8) _ sample_state_eq, where rest = "[0xff]" and tb = 10]
  have "\<exists>d. decode shipped ([4] @ [] @ [0x43, 3, 1, 2, 3, 0x1d, 50] @ 0x12 # [0xff]) (sample_state 10) = Some (Inr d)
      \<and> map (deref d) (mmie_decoded_vec d) = map Inr (items_received (1 + mch_packed_size MCH_empty) sample_items)
      \<and> has_reached_valid_final_state d = Inr True"
    using f [where y = "0x12"] by (simp add: sample_foreign shipped_def sample_capacity del: append.simps) blast
  moreover have "\<exists>d. decode shipped ([4] @ [] @ [0x43, 3, 1, 2, 3, 0x1d, 50] @ 0x47 # [0xff]) (sample_state 10) = Some (Inr d)
      \<and> has_reached_valid_final_state d = Inr True"
    using f [where y = "0x47"] by (simp add: sample_foreign shipped_def sample_capacity del: append.simps) blast
  ultimately show ?thesis by blast
qed

subsection \<open>Elements that stop the program\<close>

text \<open>C38: A receiver that is compiled with the configuration request IE fails an assertion as soon as
its decoder reaches one, after any valid headers and any MMIEs as in a written PDU that the receiver
knows and has objects for,
while it has an object left for the request and whatever follows it: the element is neither packing nor
flowing, and the decoder handles only these.\<close>

theorem configuration_request_aborts:
  assumes h: "mht_valid h" "mht_MAC_header_type h = mch_type mch" "mht_pack h = Inr b"
    and c: "mch_valid mch" "mch_pack mch = Inr c"
    and its: "list_all (sendable act mu) is" "items_wire is = Inr ws"
    and act: "act T_configuration_request"
    and d: "set_configuration tb mu d0 = Inr s" "unat tb = length (b @ c @ ws @ 0xc1 # rest)"
      "pool_wf (dec_pool d0)" "\<forall>t. nof_class t (map fst is) \<le> length (dec_pool d0 t)"
      "nof_class T_configuration_request (map fst is) < length (dec_pool d0 T_configuration_request)"
  shows "decode act (b @ c @ ws @ 0xc1 # rest) s = Some (Inl Assertion_failed)"
proof -
  let ?t = T_configuration_request and ?pre = "b @ c @ ws" and ?r = "0xc1 # rest :: bytes"
  let ?h = "(mmh_of Length_Field_1_Bit 1 0)\<lparr>mmh_length := UNDEFINED_NUMERIC_32, mmh_tinfo := Some ?t\<rparr>"
  obtain e where e: "decode act (b @ c @ ws @ ?r) s = decode_loop act (?pre @ ?r) e" "at_mmie e"
    "unat (a_cnt_r e) = length ?pre" "has_decoded e (items_received (1 + mch_packed_size mch) is)"
    "a_cnt_w_tb e = tb" "\<And>t. length (dec_pool e t) = length (dec_pool d0 t)"
    by (rule decode_up_to [OF h c its d(1-4)]) blast
  have P: "mmh_pack (mmh_of Length_Field_1_Bit 1 0) = Inr [0xc1]" by code_simp
  have C: "mmh_class (mmh_of Length_Field_1_Bit 1 0) = Some ?t" by code_simp
  note R = mmh_received [where act = act and r = rest, OF P C act]
  have idx: "index_next_ie e ?t < length (dec_pool e ?t)" "pool_wf (dec_pool e)"
    using e(4,6) d(5) by (simp_all add: has_decoded_def nof_class_received)
  let ?p = "(?t, index_next_ie e ?t)"
  have u: "mmh_unpack_mac_ext_ie_type act mmh_zero ?r = Inr (True, ?h)" using R(1) by (simp add: mmh_of_def)
  have len: "length (?pre @ ?r) = unat (a_cnt_w_tb e)" using d(2) e(5) by simp
  have pk: "\<not> is_packing_peeking ?t" "mmh_packed_size ?h = Inr 1"
    by (simp_all add: is_packing_peeking_def mmh_packed_size_def mmh_of_def mac_ext_valid_iff)
  have u2: "mmh_unpack_length ?h ?r = Inr (?h\<lparr>mmh_length := 0\<rparr>)" using R(2) by (simp add: mmh_of_def)
  have f: "filled (?pre @ ?r) (length ?pre + unat (1 :: u32)) m = Inl Assertion_failed"
    if "content_type (mm_content m) = ?t" for m
    using that by (cases "mm_content m") (simp_all add: filled_def is_packing_def set_data_ptr_def)
  have "decode_loop act (?pre @ ?r) e = Some (Inl Assertion_failed)"
    by (rule element_faults [OF e(2,3) len _ u _ _ idx pk _ u2 _ f])
      (simp_all add: UNDEFINED_NUMERIC_32_def)
  with e(1) show ?thesis by simp
qed

theorem configuration_request_aborts_witness:
  "decode (\<lambda>_. True) ([4] @ [] @ [0x43, 3, 1, 2, 3, 0x1d, 50] @ 0xc1 # [0]) (sample_state 10)
     = Some (Inl Assertion_failed)"
  by (rule configuration_request_aborts [OF sample_prefix(1-5,7,8) _ sample_state_eq])
    (simp_all add: sample_capacity)

text \<open>C39: A receiver that is compiled with the group assignment IE reads beyond the bytes it was given when
a PDU ends with such an element of length zero, after valid headers and any MMIEs as in a written PDU.\<close>

theorem empty_group_assignment_reads_out_of_bounds:
  assumes h: "mht_valid h" "mht_MAC_header_type h = mch_type mch" "mht_pack h = Inr b"
    and c: "mch_valid mch" "mch_pack mch = Inr c"
    and its: "list_all (sendable act mu) is" "items_wire is = Inr ws"
    and act: "act T_group_assignment"
    and d: "set_configuration tb mu d0 = Inr s" "unat tb = length (b @ c @ ws @ [0x57, 0])"
      "pool_wf (dec_pool d0)" "\<forall>t. nof_class t (map fst is) \<le> length (dec_pool d0 t)"
      "nof_class T_group_assignment (map fst is) < length (dec_pool d0 T_group_assignment)"
  shows "decode act (b @ c @ ws @ [0x57, 0]) s = Some (Inl Out_of_bounds_read)"
proof -
  let ?t = T_group_assignment and ?pre = "b @ c @ ws" and ?r = "[0x57, 0] :: bytes"
  let ?h = "(mmh_of Length_Field_8_Bit 23 0)\<lparr>mmh_length := UNDEFINED_NUMERIC_32, mmh_tinfo := Some ?t\<rparr>"
  obtain e where e: "decode act (b @ c @ ws @ ?r) s = decode_loop act (?pre @ ?r) e" "at_mmie e"
    "unat (a_cnt_r e) = length ?pre" "has_decoded e (items_received (1 + mch_packed_size mch) is)"
    "a_cnt_w_tb e = tb" "\<And>t. length (dec_pool e t) = length (dec_pool d0 t)"
    by (rule decode_up_to [OF h c its d(1-4)]) blast
  have P: "mmh_pack (mmh_of Length_Field_8_Bit 23 0) = Inr [0x57, 0]" by code_simp
  have C: "mmh_class (mmh_of Length_Field_8_Bit 23 0) = Some ?t" by code_simp
  note R = mmh_received [where act = act and r = "[]", OF P C act]
  have idx: "index_next_ie e ?t < length (dec_pool e ?t)" "pool_wf (dec_pool e)"
    using e(4,6) d(5) by (simp_all add: has_decoded_def nof_class_received)
  have u: "mmh_unpack_mac_ext_ie_type act mmh_zero ?r = Inr (True, ?h)" using R(1) by (simp add: mmh_of_def)
  have u2: "mmh_unpack_length ?h ?r = Inr (?h\<lparr>mmh_length := 0\<rparr>)" using R(2) by (simp add: mmh_of_def)
  have len: "length (?pre @ ?r) = unat (a_cnt_w_tb e)" using d(2) e(5) by simp
  have pk: "\<not> is_packing_peeking ?t" "mmh_packed_size ?h = Inr 2"
    by (simp_all add: is_packing_peeking_def mmh_packed_size_def mmh_of_def mac_ext_valid_iff)
  have f: "filled (?pre @ ?r) (length ?pre + unat (2 :: u32)) m = Inl Out_of_bounds_read"
    if "content_type (mm_content m) = ?t" for m
    using that by (cases "mm_content m") (simp_all add: filled_def is_packing_def with_content_def ga_unpack_def rd_def)
  have "decode_loop act (?pre @ ?r) e = Some (Inl Out_of_bounds_read)"
    by (rule element_faults [OF e(2,3) len _ u _ _ idx pk _ u2 _ f])
      (simp_all add: UNDEFINED_NUMERIC_32_def)
  with e(1) show ?thesis by simp
qed

theorem empty_group_assignment_reads_out_of_bounds_witness:
  "decode (\<lambda>_. True) ([4] @ [] @ [0x43, 3, 1, 2, 3, 0x1d, 50] @ [0x57, 0]) (sample_state 10)
     = Some (Inl Out_of_bounds_read)"
  by (rule empty_group_assignment_reads_out_of_bounds [OF sample_prefix(1-5,7,8) _ sample_state_eq])
    (simp_all add: sample_capacity)

text \<open>A reserved indication type is answered with \<open>UNDEFINED_NUMERIC_32\<close> bytes to wait for; the test
against the size of the transport block adds them in 32 bits and comes out below the position.\<close>

lemma drop_past: "drop (Suc (length p)) (p @ u # v) = v"
  by simp

lemma wraps_and_waits:
  assumes "N_bytes_required z = 4294967295" "unat (a_cnt_r z) = Suc n" "Suc n < length a"
    "length a = unat (a_cnt_w_tb z)"
  shows "decode_loop act a z = Some (Inr z)"
proof -
  have r: "Suc n < unat (a_cnt_w_tb z)" using assms(3,4) by simp
  have "unat (a_cnt_r z + 4294967295) = n"
    using assms(2) r u32_less [of "a_cnt_w_tb z"] by (simp add: unat_word_ariths)
  then have "\<not> a_cnt_r z + N_bytes_required z > a_cnt_w_tb z"
    using r by (simp add: assms(1) word_less_nat_alt)
  moreover have "a_cnt_w_tb z - a_cnt_r z < 4294967295"
    using r assms(2) u32_less [of "a_cnt_w_tb z"] by (simp add: word_less_nat_alt unat_sub word_le_nat_alt)
  ultimately show ?thesis
    using assms(4) by (subst decode_loop.simps) (simp add: decode_round_def assms(1))
qed

lemma reserved_indication_waits:
  assumes y: "dstate y = B_MAC_MESSAGE_IE_PEEK" "N_bytes_required y = 1"
    "current y = Inr (p, \<lparr>mm_header = mh, mm_content = C_broadcast_indication bi\<rparr>)"
    and r: "unat (a_cnt_r y) = Suc n" "drop (Suc n) a = x # rest" "64 \<le> x"
    and tb: "length a = unat (a_cnt_w_tb y)" "Suc n < length a"
  shows "decode_loop act a y = Some (Inr (y\<lparr>dstate := MAC_MESSAGE_IE_UNPACK, N_bytes_required := 4294967295\<rparr>))"
    (is "_ = Some (Inr ?z)")
proof -
  have "(dec_pool y (fst p))[snd p := \<lparr>mm_header = mh, mm_content = C_broadcast_indication bi\<rparr>] = dec_pool y (fst p)"
    using y(3) by (auto simp: current_def deref_def pool_at_def array_at_def list_update_same_conv
      split: option.splits sum.splits if_splits)
  then have "pool_update p \<lparr>mm_header = mh, mm_content = C_broadcast_indication bi\<rparr> (dec_pool y) = dec_pool y"
    by (simp add: pool_update_def fun_upd_idem)
  moreover have "bi_peek (x # rest) = Inr (Inr 4294967295)" using r(3) by (intro bi_peek_reserved) simp_all
  ultimately have "on_peek a y = Inr ?z"
    using y r by (simp add: on_peek_def store_def is_packing_peeking_def)
  then have "decode_loop act a y = decode_loop act a ?z"
    using r tb y(1,2) by (intro loop_step) (simp_all add: exec_state_def)
  also have "\<dots> = Some (Inr ?z)" using r(1) tb by (intro wraps_and_waits [of _ n]) simp_all
  finally show ?thesis .
qed

text \<open>C40: A receiver that is compiled with the broadcast indication IE gets stuck on a reserved indication
type that comes after valid headers and any MMIEs as in a written PDU: it waits for 4294967295 bytes, a number that the test against the size of the transport block
misses because the sum wraps around, and the check for a valid final state fails an assertion although
all bytes have been given to it.\<close>

theorem reserved_broadcast_indication_stalls:
  assumes h: "mht_valid h" "mht_MAC_header_type h = mch_type mch" "mht_pack h = Inr b"
    and c: "mch_valid mch" "mch_pack mch = Inr c"
    and its: "list_all (sendable act mu) is" "items_wire is = Inr ws"
    and act: "act T_broadcast_indication" and x: "64 \<le> x"
    and d: "set_configuration tb mu d0 = Inr s" "unat tb = length (b @ c @ ws @ 0x16 # x # rest)"
      "pool_wf (dec_pool d0)" "\<forall>t. nof_class t (map fst is) \<le> length (dec_pool d0 t)"
      "nof_class T_broadcast_indication (map fst is) < length (dec_pool d0 T_broadcast_indication)"
  shows "\<exists>d. decode act (b @ c @ ws @ 0x16 # x # rest) s = Some (Inr d)
    \<and> dstate d = MAC_MESSAGE_IE_UNPACK \<and> N_bytes_required d = 4294967295
    \<and> has_reached_valid_final_state d = Inl Assertion_failed"
proof -
  let ?t = T_broadcast_indication and ?pre = "b @ c @ ws" and ?r = "0x16 # x # rest :: bytes"
  let ?H = "mmh_of No_Length_Field 22 UNDEFINED_NUMERIC_32"
  let ?h = "?H\<lparr>mmh_length := UNDEFINED_NUMERIC_32, mmh_tinfo := Some ?t\<rparr>"
  obtain e where e: "decode act (b @ c @ ws @ ?r) s = decode_loop act (?pre @ ?r) e" "at_mmie e"
    "unat (a_cnt_r e) = length ?pre" "has_decoded e (items_received (1 + mch_packed_size mch) is)"
    "a_cnt_w_tb e = tb" "\<And>t. length (dec_pool e t) = length (dec_pool d0 t)"
    by (rule decode_up_to [OF h c its d(1-4)]) blast
  let ?p = "(?t, index_next_ie e ?t)" and ?a = "?pre @ ?r"
  have P: "mmh_pack ?H = Inr [0x16]" by code_simp
  have C: "mmh_class ?H = Some ?t" by code_simp
  note R = mmh_received [where act = act and r = "x # rest", OF P C act]
  have idx: "index_next_ie e ?t < length (dec_pool e ?t)" "pool_wf (dec_pool e)"
    using e(4,6) d(5) by (simp_all add: has_decoded_def nof_class_received)
  have u: "mmh_unpack_mac_ext_ie_type act mmh_zero ?r = Inr (True, ?h)" using R(1) by (simp add: mmh_of_def)
  have len: "length ?a = unat (a_cnt_w_tb e)" using d(2) e(5) by simp
  have pk: "is_packing_peeking ?t" by (simp add: is_packing_peeking_def)
  obtain m where m: "deref e ?p = Inr m" "content_type (mm_content m) = ?t"
    and l: "decode_loop act ?a e = decode_loop act ?a
      (e\<lparr>dec_mmh := ?h, dec_mmie := Some ?p, dec_pool := pool_update ?p (m\<lparr>mm_header := ?h\<rparr>) (dec_pool e),
         a_cnt_r := a_cnt_r e + 1, dstate := B_MAC_MESSAGE_IE_PEEK,
         N_bytes_required := get_packed_size_min_to_peek (mm_content m)\<rparr>)"
    by (rule enter_element [OF e(2,3) len _ u _ _ idx]) (use pk in simp_all)
  obtain mh bi where bi: "m = \<lparr>mm_header = mh, mm_content = C_broadcast_indication bi\<rparr>"
    using m(2) by (cases m; cases "mm_content m") simp_all
  define y where "y = e\<lparr>dec_mmh := ?h, dec_mmie := Some ?p,
     dec_pool := pool_update ?p (m\<lparr>mm_header := ?h\<rparr>) (dec_pool e),
     a_cnt_r := a_cnt_r e + 1, dstate := B_MAC_MESSAGE_IE_PEEK, N_bytes_required := 1\<rparr>"
  have r: "unat (a_cnt_r y) = Suc (length ?pre)" "Suc (length ?pre) < length ?a"
    using counter_advance(1) [of 1 "length ?a" "a_cnt_r e" tb] e(3,5) len by (simp_all add: y_def)
  have "drop (Suc (length ?pre)) ?a = x # rest" by (rule drop_past)
  then have "decode_loop act ?a y = Some (Inr (y\<lparr>dstate := MAC_MESSAGE_IE_UNPACK, N_bytes_required := 4294967295\<rparr>))"
    using idx(1) x r len e(5)
    by (intro reserved_indication_waits [of _ ?p ?h bi "length ?pre"])
      (simp_all add: y_def current_def deref_def bi del: drop_append length_append append_assoc)
  with e(1) l r(2) len show ?thesis
    using r(1) by (auto simp: y_def bi has_reached_valid_final_state_def assertE_def)
qed

theorem reserved_broadcast_indication_stalls_witness:
  "\<exists>d. decode (\<lambda>_. True) ([4] @ [] @ [0x43, 3, 1, 2, 3, 0x1d, 50] @ 0x16 # 0xe0 # [0, 0]) (sample_state 12)
      = Some (Inr d)
    \<and> dstate d = MAC_MESSAGE_IE_UNPACK \<and> N_bytes_required d = 4294967295
    \<and> has_reached_valid_final_state d = Inl Assertion_failed"
  by (rule reserved_broadcast_indication_stalls [OF sample_prefix(1-5,7,8) _ _ sample_state_eq])
    (simp_all add: sample_capacity)

end
