(* ===== verification/Ring.thy ===== *)
theory Ring
  imports Prelude
begin

text \<open>
  Ring buffers with 32-bit indices, as they are used by the packet queue of the application layer
  (\<open>application/queue\<close>) and the job queue of the physical layer (\<open>phy/pool\<close>): one slot stays
  free, so that equal indices mean an empty buffer. The locale \<open>bounded_fifo\<close> is the contract of
  both queues, with what their users rely on.
\<close>

subsection \<open>Indices\<close>

definition ring_used :: "u32 \<Rightarrow> u32 \<Rightarrow> u32 \<Rightarrow> u32" where
  "ring_used N w r = (if w \<ge> r then w - r else w + N - r)"

definition ring_free :: "u32 \<Rightarrow> u32 \<Rightarrow> u32 \<Rightarrow> u32" where
  "ring_free N w r = (if r > w then r - w - 1 else r + N - w - 1)"

lemma unat_ring_used:
  assumes "w < N" "r < N"
  shows "unat (ring_used N w r) = (if r \<le> w then unat w - unat r else unat w + unat N - unat r)"
proof (cases "r \<le> w")
  case False
  have "w + N - r = N - (r - w)" by simp
  moreover have "unat (r - w) = unat r - unat w" using False
    by (simp add: word_le_nat_alt unat_sub)
  moreover have "unat (N - (r - w)) = unat N - unat (r - w)" using assms calculation(2)
    by (intro unat_sub) (simp add: word_le_nat_alt word_less_nat_alt)
  ultimately have "unat (w + N - r) = unat N - (unat r - unat w)" by (simp only:)
  then show ?thesis using False assms
    by (simp add: ring_used_def word_le_nat_alt word_less_nat_alt)
qed (simp add: ring_used_def unat_sub word_le_nat_alt)

lemma unat_ring_free:
  assumes "w < N" "r < N"
  shows "unat (ring_free N w r) = unat N - 1 - unat (ring_used N w r)"
proof (cases "r > w")
  case True
  then have "1 \<le> r - w" by (simp add: word_le_nat_alt word_less_nat_alt unat_sub)
  with True assms show ?thesis
    by (auto simp: ring_free_def unat_ring_used unat_sub word_le_nat_alt word_less_nat_alt)
next
  case False
  have e: "r + N - w - 1 = N - (w - r + 1)" by simp
  have "unat (w - r + 1) = unat w - unat r + 1"
    using False assms u32_less [of N]
    by (simp add: unat_word_ariths unat_sub word_le_nat_alt word_less_nat_alt)
  with False assms show ?thesis unfolding ring_free_def
    by (simp add: e unat_ring_used unat_sub word_le_nat_alt word_less_nat_alt)
qed

lemma ring_used_less: "w < N \<Longrightarrow> r < N \<Longrightarrow> unat (ring_used N w r) < unat N"
  by (auto simp: unat_ring_used word_le_nat_alt word_less_nat_alt)

lemma unat_ring_next:
  fixes i N :: u32
  assumes "i < N"
  shows "unat ((i + 1) mod N) = Suc (unat i) mod unat N" "(i + 1) mod N < N"
proof -
  have "unat (i + 1) = Suc (unat i)" using assms u32_less [of N]
    by (simp add: unat_word_ariths word_less_nat_alt)
  then show "unat ((i + 1) mod N) = Suc (unat i) mod unat N" by (simp add: unat_mod)
  then show "(i + 1) mod N < N" using assms by (simp add: word_less_nat_alt)
qed

lemma mod_next: "i < N \<Longrightarrow> Suc i mod N = (if Suc i = N then 0 else Suc i)"
  by auto

lemma ring_position:
  assumes "w < N" "r < N"
  shows "(unat r + unat (ring_used N w r)) mod unat N = unat w"
  using assms by (auto simp: unat_ring_used word_le_nat_alt word_less_nat_alt)

lemma ring_used_write:
  assumes "w < N" "r < N" "ring_free N w r \<noteq> 0"
  shows "unat (ring_used N ((w + 1) mod N) r) = Suc (unat (ring_used N w r))"
proof -
  have "unat (ring_free N w r) \<noteq> 0" using assms(3) by (simp add: unat_eq_zero)
  then show ?thesis
    using assms(1,2) unat_ring_next [OF assms(1)]
    by (auto simp: unat_ring_free unat_ring_used word_le_nat_alt word_less_nat_alt mod_next split: if_splits)
qed

lemma ring_used_read:
  assumes "w < N" "r < N" "ring_used N w r \<noteq> 0"
  shows "Suc (unat (ring_used N w ((r + 1) mod N))) = unat (ring_used N w r)"
proof -
  have "unat (ring_used N w r) \<noteq> 0" using assms(3) by (simp add: unat_eq_zero)
  then show ?thesis
    using assms(1,2) unat_ring_next [OF assms(2)]
    by (auto simp: unat_ring_used word_le_nat_alt word_less_nat_alt mod_next split: if_splits)
qed

subsection \<open>Contents\<close>

definition ring_list :: "'a list \<Rightarrow> nat \<Rightarrow> nat \<Rightarrow> 'a list" where
  "ring_list xs r n = map (\<lambda>k. xs ! ((r + k) mod length xs)) [0..<n]"

lemma length_ring_list [simp]: "length (ring_list xs r n) = n"
  by (simp add: ring_list_def)

lemma ring_list_0 [simp]: "ring_list xs r 0 = []"
  by (simp add: ring_list_def)

lemma ring_distinct:
  assumes "k < n" "n < (N :: nat)"
  shows "(r + k) mod N \<noteq> (r + n) mod N"
proof
  assume "(r + k) mod N = (r + n) mod N"
  then have "N dvd (r + n) - (r + k)" using assms(1)
    by (subst mod_eq_dvd_iff_nat [symmetric]) simp_all
  with assms show False by (auto dest: dvd_imp_le)
qed

lemma ring_list_snoc:
  assumes "n < length xs"
  shows "ring_list (xs[(r + n) mod length xs := x]) r (Suc n) = ring_list xs r n @ [x]"
proof (rule nth_equalityI)
  fix i assume "i < length (ring_list (xs[(r + n) mod length xs := x]) r (Suc n))"
  then have i: "i < Suc n" by simp
  have p: "0 < length xs" using assms by (cases xs) simp_all
  show "ring_list (xs[(r + n) mod length xs := x]) r (Suc n) ! i = (ring_list xs r n @ [x]) ! i"
  proof (cases "i = n")
    case False
    with i have "i < n" by simp
    then show ?thesis using ring_distinct [OF _ assms, of i r]
      by (simp add: ring_list_def nth_append del: upt_Suc)
  qed (use p in \<open>simp add: ring_list_def nth_append del: upt_Suc\<close>)
qed simp

lemma ring_list_Suc:
  "ring_list xs r (Suc n) = xs ! (r mod length xs) # ring_list xs (Suc r mod length xs) n"
proof -
  have "map (\<lambda>k. xs ! ((r + k) mod length xs)) [0..<Suc n]
      = xs ! (r mod length xs) # map (\<lambda>k. xs ! ((r + k) mod length xs)) (map Suc [0..<n])"
    by (simp add: map_Suc_upt upt_conv_Cons del: upt_Suc)
  moreover have "(Suc r mod length xs + k) mod length xs = (r + Suc k) mod length xs" for k
    by (metis add_Suc_right add_Suc mod_add_left_eq)
  ultimately show ?thesis by (simp add: ring_list_def)
qed

subsection \<open>The contract of a queue\<close>

text \<open>
  Any sequence of attempts to enqueue an element (\<open>Some x\<close>) or to dequeue one (\<open>None\<close>): what
  was accepted, what was delivered, and the final queue. \<open>enq\<close> and \<open>deq\<close> return \<open>None\<close> when
  the queue refuses.
\<close>

fun fifo_run :: "('a \<Rightarrow> 'q \<Rightarrow> 'q option) \<Rightarrow> ('q \<Rightarrow> ('a \<times> 'q) option) \<Rightarrow> 'a option list \<Rightarrow> 'q
    \<Rightarrow> 'a list \<times> 'a list \<times> 'q" where
  "fifo_run enq deq [] q = ([], [], q)"
| "fifo_run enq deq (Some x # ops) q = (case enq x q of
     None \<Rightarrow> fifo_run enq deq ops q
   | Some q' \<Rightarrow> (case fifo_run enq deq ops q' of (ins, outs, q'') \<Rightarrow> (x # ins, outs, q'')))"
| "fifo_run enq deq (None # ops) q = (case deq q of
     None \<Rightarrow> fifo_run enq deq ops q
   | Some (x, q') \<Rightarrow> (case fifo_run enq deq ops q' of (ins, outs, q'') \<Rightarrow> (ins, x # outs, q'')))"

text \<open>\<open>fit\<close> are the elements that the queue can take at all.\<close>

locale fifo =
  fixes inv :: "'q \<Rightarrow> bool" and content :: "'q \<Rightarrow> 'a list" and fit :: "'q \<Rightarrow> 'a \<Rightarrow> bool"
    and enq :: "'a \<Rightarrow> 'q \<Rightarrow> 'q option" and deq :: "'q \<Rightarrow> ('a \<times> 'q) option"
  assumes enq_accepted: "inv q \<Longrightarrow> fit q x \<Longrightarrow> enq x q = Some q' \<Longrightarrow>
      inv q' \<and> content q' = content q @ [x] \<and> fit q' = fit q"
    and deq_refused: "inv q \<Longrightarrow> deq q = None \<longleftrightarrow> content q = []"
    and deq_accepted: "inv q \<Longrightarrow> deq q = Some (x, q') \<Longrightarrow>
      inv q' \<and> content q = x # content q' \<and> fit q' = fit q"
begin

text \<open>Everything that was accepted is delivered or still there, once and in order.\<close>

lemma run_fifo:
  assumes "inv q" "\<forall>x. Some x \<in> set ops \<longrightarrow> fit q x" "fifo_run enq deq ops q = (ins, outs, q')"
  shows "inv q' \<and> content q @ ins = outs @ content q'"
  using assms
proof (induction ops arbitrary: q ins outs)
  case (Cons op ops)
  show ?case
  proof (cases op)
    case (Some x)
    show ?thesis
    proof (cases "enq x q")
      case None
      with Cons Some show ?thesis by auto
    next
      case e: (Some p)
      have p: "inv p" "content p = content q @ [x]" "fit p = fit q"
        using enq_accepted [OF Cons.prems(1) _ e] Cons.prems(2) Some by auto
      obtain i o' where "fifo_run enq deq ops p = (i, o', q')" "ins = x # i" "outs = o'"
        using Cons.prems(3) Some e by (auto split: prod.splits)
      with Cons.IH [OF p(1), of i o'] Cons.prems(2) p show ?thesis by simp
    qed
  next
    case None
    show ?thesis
    proof (cases "deq q")
      case d: None
      with Cons None show ?thesis by auto
    next
      case (Some y)
      then obtain x p where d: "deq q = Some (x, p)" by (cases y) auto
      note p = deq_accepted [OF Cons.prems(1) d]
      obtain i o' where "fifo_run enq deq ops p = (i, o', q')" "ins = i" "outs = x # o'"
        using Cons.prems(3) None d by (auto split: prod.splits)
      with Cons.IH [of p i o'] Cons.prems(2) p show ?thesis by auto
    qed
  qed
qed auto

end

text \<open>A queue of known capacity refuses an element that fits only when it is full.\<close>

locale bounded_fifo = fifo inv content fit enq deq
  for inv :: "'q \<Rightarrow> bool" and content :: "'q \<Rightarrow> 'a list" and fit enq deq +
  fixes cap :: "'q \<Rightarrow> nat"
  assumes bound: "inv q \<Longrightarrow> length (content q) \<le> cap q"
    and enq_refused: "inv q \<Longrightarrow> fit q x \<Longrightarrow> enq x q = None \<longleftrightarrow> length (content q) = cap q"
    and enq_cap: "inv q \<Longrightarrow> fit q x \<Longrightarrow> enq x q = Some q' \<Longrightarrow> cap q' = cap q"
    and deq_cap: "inv q \<Longrightarrow> deq q = Some (x, q') \<Longrightarrow> cap q' = cap q"
begin

lemma run_bounded:
  assumes "inv q" "\<forall>x. Some x \<in> set ops \<longrightarrow> fit q x" "fifo_run enq deq ops q = (ins, outs, q')"
  shows "cap q' = cap q \<and> length (content q) + length ins \<le> cap q + length outs"
proof -
  have "cap q' = cap q" using assms
  proof (induction ops arbitrary: q ins outs)
    case (Cons op ops)
    show ?case
    proof (cases op)
      case (Some x)
      show ?thesis
      proof (cases "enq x q")
        case e: (Some p)
        then have "inv p" "fit p = fit q" "cap p = cap q"
          using enq_accepted [OF Cons.prems(1) _ e] enq_cap [OF Cons.prems(1) _ e] Cons.prems(2) Some
          by auto
        with Cons Some e show ?thesis by (auto split: prod.splits)
      qed (use Cons Some in auto)
    next
      case None
      show ?thesis
      proof (cases "deq q")
        case (Some y)
        then obtain x p where d: "deq q = Some (x, p)" by (cases y) auto
        then have "inv p" "fit p = fit q" "cap p = cap q"
          using deq_accepted [OF Cons.prems(1) d] deq_cap [OF Cons.prems(1) d] by auto
        with Cons None d show ?thesis by (auto split: prod.splits)
      qed (use Cons None in auto)
    qed
  qed simp
  moreover have "inv q'" "content q @ ins = outs @ content q'" using run_fifo [OF assms] by auto
  moreover have "length (content q) + length ins = length outs + length (content q')"
    by (metis calculation(3) length_append)
  ultimately show ?thesis using bound [of q'] by simp
qed

text \<open>Nothing is refused without a reason: an element that fits is accepted whenever there is room.\<close>

lemma enq_room: "inv q \<Longrightarrow> fit q x \<Longrightarrow> length (content q) < cap q \<Longrightarrow> \<exists>q'. enq x q = Some q'"
  using enq_refused [of q x] by auto

end

end
