(* ===== verification/Packet_Queue.thy ===== *)
theory Packet_Queue
  imports Ring
begin

text \<open>
  The packet queue of the application layer (\<open>application/queue/queue.cpp\<close>, \<open>queue_size.hpp\<close>,
  \<open>queue_level.hpp\<close>): datagrams of the sockets and the virtual NIC on their way to and from the
  MAC. The functions \<open>\<dots>_nto\<close> and \<open>\<dots>_try\<close> run under one lock, so that the calls of several
  threads are executed one after the other; \<open>locked\<close> says whether \<open>try_lock\<close> found the lock
  taken. The memory behind a datagram is what \<open>new uint8_t[n]\<close> returned, its initial contents a
  parameter of the constructor. Copying beyond a buffer is a fault.
\<close>

definition application_max_queue_datagram :: u32 where
  "application_max_queue_datagram = 256"

definition application_max_queue_datagram_byte :: u32 where
  "application_max_queue_datagram_byte = 1600"

definition application_max_queue_level_reported :: u32 where
  "application_max_queue_level_reported = 8"

record queue_size =
  N_datagram :: u32
  N_datagram_max_byte :: u32

definition queue_size_valid :: "queue_size \<Rightarrow> bool" where
  "queue_size_valid s =
    (if N_datagram s = 0 \<or> application_max_queue_datagram < N_datagram s then False
     else if N_datagram_max_byte s = 0 \<or> application_max_queue_datagram_byte < N_datagram_max_byte s
     then False else True)"

record queue_level =
  N_filled :: u32
  levels :: "u32 list"

definition queue_level_default :: queue_level where
  "queue_level_default =
    \<lparr>N_filled = 0, levels = replicate (unat application_max_queue_level_reported) 0\<rparr>"

record packet_queue =
  q_size :: queue_size
  w_idx :: u32
  r_idx :: u32
  datagram_vec :: "bytes list"
  datagram_level_vec :: "u32 list"

definition queue_new :: "(nat \<Rightarrow> nat \<Rightarrow> u8) \<Rightarrow> queue_size \<Rightarrow> packet_queue" where
  "queue_new mem s = \<lparr>q_size = s, w_idx = 0, r_idx = 0,
     datagram_vec = map (\<lambda>i. map (mem i) [0..<unat (N_datagram_max_byte s)]) [0..<unat (N_datagram s)],
     datagram_level_vec = replicate (unat (N_datagram s)) 0\<rparr>"

definition get_free :: "packet_queue \<Rightarrow> u32" where
  "get_free q =
    (if r_idx q > w_idx q then r_idx q - w_idx q - 1
     else r_idx q + N_datagram (q_size q) - w_idx q - 1)"

definition get_used :: "packet_queue \<Rightarrow> u32" where
  "get_used q =
    (if w_idx q \<ge> r_idx q then w_idx q - r_idx q
     else w_idx q + N_datagram (q_size q) - r_idx q)"

text \<open>\<open>std::memcpy\<close> of \<open>n\<close> bytes.\<close>

definition memcpy :: "bytes \<Rightarrow> bytes \<Rightarrow> nat \<Rightarrow> bytes res" where
  "memcpy dst src n =
    (if length src < n then Inl Out_of_bounds_read
     else if length dst < n then Inl Out_of_bounds_write
     else Inr (take n src @ drop n dst))"

definition at_index :: "'a list \<Rightarrow> u32 \<Rightarrow> 'a res" where
  "at_index xs i = (if unat i < length xs then Inr (xs ! unat i) else Inl Out_of_bounds_read)"

definition write_under_lock :: "bytes \<Rightarrow> u32 \<Rightarrow> packet_queue \<Rightarrow> (u32 \<times> packet_queue) res" where
  "write_under_lock inp n q =
    (if get_free q = 0 then Inr (0, q)
     else assertE (n \<le> N_datagram_max_byte (q_size q))
       (bindE (at_index (datagram_vec q) (w_idx q)) (\<lambda>slot.
        bindE (memcpy slot inp (unat n)) (\<lambda>slot'.
        bindE (at_index (datagram_level_vec q) (w_idx q)) (\<lambda>_.
        Inr (n, q\<lparr>datagram_vec := (datagram_vec q)[unat (w_idx q) := slot'],
                  datagram_level_vec := (datagram_level_vec q)[unat (w_idx q) := n],
                  w_idx := (w_idx q + 1) mod N_datagram (q_size q)\<rparr>))))))"

text \<open>The destination is \<open>None\<close> for \<open>nullptr\<close>.\<close>

definition read_under_lock ::
  "bytes option \<Rightarrow> packet_queue \<Rightarrow> (u32 \<times> bytes option \<times> packet_queue) res" where
  "read_under_lock dst q =
    (if get_used q = 0 then Inr (0, dst, q)
     else bindE (at_index (datagram_level_vec q) (r_idx q)) (\<lambda>n.
       bindE (case dst of None \<Rightarrow> Inr None
              | Some d \<Rightarrow> bindE (at_index (datagram_vec q) (r_idx q)) (\<lambda>slot.
                  bindE (memcpy d slot (unat n)) (\<lambda>d'. Inr (Some d')))) (\<lambda>dst'.
       Inr (n, dst', q\<lparr>r_idx := (r_idx q + 1) mod N_datagram (q_size q)\<rparr>))))"

text \<open>The loop \<open>for (i = 0; i < n_; ++i)\<close> of \<open>get_queue_level_under_lock\<close>; \<open>k\<close> rounds are left.\<close>

fun level_loop :: "packet_queue \<Rightarrow> nat \<Rightarrow> nat \<Rightarrow> u32 \<Rightarrow> u32 list \<Rightarrow> u32 list res" where
  "level_loop q 0 i r ls = Inr ls"
| "level_loop q (Suc k) i r ls =
    bindE (at_index (datagram_level_vec q) r) (\<lambda>n.
      if i < length ls
      then level_loop q k (Suc i) ((r + 1) mod N_datagram (q_size q)) (ls[i := n])
      else Inl Out_of_bounds_write)"

definition get_queue_level_under_lock :: "u32 \<Rightarrow> packet_queue \<Rightarrow> queue_level res" where
  "get_queue_level_under_lock n q =
    assertE (n \<le> application_max_queue_level_reported)
      (let m = min n (get_used q) in
       bindE (level_loop q (unat m) 0 (r_idx q) (levels queue_level_default)) (\<lambda>ls.
       Inr \<lparr>N_filled = m, levels = ls\<rparr>))"

definition write_nto :: "bytes \<Rightarrow> u32 \<Rightarrow> packet_queue \<Rightarrow> (u32 \<times> packet_queue) res" where
  "write_nto inp n q = bindE (write_under_lock inp n q) Inr"

definition write_try :: "bool \<Rightarrow> bytes \<Rightarrow> u32 \<Rightarrow> packet_queue \<Rightarrow> (u32 \<times> packet_queue) res" where
  "write_try locked inp n q = (if locked then Inr (0, q) else bindE (write_under_lock inp n q) Inr)"

definition read_nto :: "bytes option \<Rightarrow> packet_queue \<Rightarrow> (u32 \<times> bytes option \<times> packet_queue) res" where
  "read_nto dst q = bindE (read_under_lock dst q) Inr"

definition read_try ::
  "bool \<Rightarrow> bytes option \<Rightarrow> packet_queue \<Rightarrow> (u32 \<times> bytes option \<times> packet_queue) res" where
  "read_try locked dst q =
    (if locked then Inr (0, dst, q) else bindE (read_under_lock dst q) Inr)"

definition get_queue_level_nto :: "u32 \<Rightarrow> packet_queue \<Rightarrow> queue_level res" where
  "get_queue_level_nto n q = bindE (get_queue_level_under_lock n q) Inr"

definition get_queue_level_try :: "bool \<Rightarrow> u32 \<Rightarrow> packet_queue \<Rightarrow> queue_level res" where
  "get_queue_level_try locked n q =
    (if locked then Inr queue_level_default else bindE (get_queue_level_under_lock n q) Inr)"

definition queue_clear :: "packet_queue \<Rightarrow> packet_queue" where
  "queue_clear q = q\<lparr>w_idx := 0, r_idx := 0\<rparr>"

text \<open>The queues of an application (\<open>application.cpp\<close>).\<close>

definition application_max_connections :: u32 where
  "application_max_connections = 32"

definition application_new :: "(nat \<Rightarrow> nat \<Rightarrow> nat \<Rightarrow> u8) \<Rightarrow> u32 \<Rightarrow> queue_size \<Rightarrow> packet_queue list res" where
  "application_new mem N_queue s =
    assertE (0 < N_queue) (assertE (N_queue \<le> application_max_connections)
      (assertE (queue_size_valid s)
        (Inr (map (\<lambda>i. queue_new (mem i) s) [0..<unat N_queue]))))"

definition application_clear :: "packet_queue list \<Rightarrow> packet_queue list" where
  "application_clear qs = map queue_clear qs"

subsection \<open>Invariant and contents\<close>

definition queue_inv :: "packet_queue \<Rightarrow> bool" where
  "queue_inv q \<longleftrightarrow> queue_size_valid (q_size q) \<and>
     w_idx q < N_datagram (q_size q) \<and> r_idx q < N_datagram (q_size q) \<and>
     length (datagram_vec q) = unat (N_datagram (q_size q)) \<and>
     length (datagram_level_vec q) = unat (N_datagram (q_size q)) \<and>
     (\<forall>d\<in>set (datagram_vec q). length d = unat (N_datagram_max_byte (q_size q))) \<and>
     (\<forall>l\<in>set (datagram_level_vec q). l \<le> N_datagram_max_byte (q_size q))"

definition queue_content :: "packet_queue \<Rightarrow> bytes list" where
  "queue_content q = map (\<lambda>(d, l). take (unat l) d)
     (ring_list (zip (datagram_vec q) (datagram_level_vec q)) (unat (r_idx q)) (unat (get_used q)))"

definition queue_capacity :: "packet_queue \<Rightarrow> nat" where
  "queue_capacity q = unat (N_datagram (q_size q)) - 1"

lemma get_free_ring: "get_free q = ring_free (N_datagram (q_size q)) (w_idx q) (r_idx q)"
  by (simp add: get_free_def ring_free_def)

lemma get_used_ring: "get_used q = ring_used (N_datagram (q_size q)) (w_idx q) (r_idx q)"
  by (simp add: get_used_def ring_used_def)

lemma length_queue_content [simp]: "length (queue_content q) = unat (get_used q)"
  by (simp add: queue_content_def)

lemma queue_content_bound: "queue_inv q \<Longrightarrow> length (queue_content q) \<le> queue_capacity q"
  using ring_used_less [of "w_idx q" "N_datagram (q_size q)" "r_idx q"]
  by (simp add: queue_inv_def queue_capacity_def get_used_ring)

lemma get_free_0: "queue_inv q \<Longrightarrow> get_free q = 0 \<longleftrightarrow> length (queue_content q) = queue_capacity q"
  using unat_ring_free [of "w_idx q" "N_datagram (q_size q)" "r_idx q"]
    ring_used_less [of "w_idx q" "N_datagram (q_size q)" "r_idx q"]
  by (auto simp: queue_inv_def queue_capacity_def get_used_ring get_free_ring unat_eq_zero [symmetric])

lemma get_used_0: "get_used q = 0 \<longleftrightarrow> queue_content q = []"
  by (metis length_0_conv length_queue_content unat_eq_zero)

lemma memcpy_ok: "n \<le> length src \<Longrightarrow> n \<le> length dst \<Longrightarrow> memcpy dst src n = Inr (take n src @ drop n dst)"
  by (simp add: memcpy_def)

lemma at_index_ok: "unat i < length xs \<Longrightarrow> at_index xs i = Inr (xs ! unat i)"
  by (simp add: at_index_def)

lemma queue_new_inv: "queue_size_valid s \<Longrightarrow> queue_inv (queue_new mem s) \<and>
    queue_content (queue_new mem s) = [] \<and> queue_capacity (queue_new mem s) = unat (N_datagram s) - 1"
  by (auto simp: queue_inv_def queue_new_def queue_size_valid_def queue_content_def get_used_def
      queue_capacity_def word_neq_0_conv split: if_splits)

lemma queue_clear_inv: "queue_inv q \<Longrightarrow> queue_inv (queue_clear q) \<and> queue_content (queue_clear q) = [] \<and>
    queue_capacity (queue_clear q) = queue_capacity q"
  by (auto simp: queue_inv_def queue_clear_def queue_size_valid_def queue_content_def get_used_def
      queue_capacity_def word_neq_0_conv split: if_splits)

subsection \<open>Operations\<close>

lemma write_full:
  "queue_inv q \<Longrightarrow> length (queue_content q) = queue_capacity q \<Longrightarrow> write_under_lock inp n q = Inr (0, q)"
  by (simp add: write_under_lock_def get_free_0)

lemma write_room:
  assumes "queue_inv q" "length (queue_content q) < queue_capacity q"
    "unat n \<le> length inp" "n \<le> N_datagram_max_byte (q_size q)"
  shows "\<exists>q'. write_under_lock inp n q = Inr (n, q') \<and> queue_inv q' \<and> q_size q' = q_size q \<and>
    queue_content q' = queue_content q @ [take (unat n) inp]"
proof -
  let ?N = "N_datagram (q_size q)" and ?d = "datagram_vec q ! unat (w_idx q)"
  let ?q' = "q\<lparr>datagram_vec := (datagram_vec q)[unat (w_idx q) := take (unat n) inp @ drop (unat n) ?d],
    datagram_level_vec := (datagram_level_vec q)[unat (w_idx q) := n], w_idx := (w_idx q + 1) mod ?N\<rparr>"
  have i: "w_idx q < ?N" "r_idx q < ?N" "unat (w_idx q) < length (datagram_vec q)"
    "length (datagram_level_vec q) = length (datagram_vec q)" "length (datagram_vec q) = unat ?N"
    using assms(1) by (auto simp: queue_inv_def word_less_nat_alt)
  then have l: "length ?d = unat (N_datagram_max_byte (q_size q))"
    using assms(1) by (auto simp: queue_inv_def)
  have f: "get_free q \<noteq> 0" using assms(1,2) by (auto simp: get_free_0)
  have e: "write_under_lock inp n q = Inr (n, ?q')" using assms(3,4) f i l
    by (simp add: write_under_lock_def at_index_ok memcpy_ok word_le_nat_alt)
  have u: "unat (get_used ?q') = Suc (unat (get_used q))"
    using ring_used_write [OF i(1,2)] f by (simp add: get_used_ring get_free_ring)
  have inv: "queue_inv ?q'" using assms(1,3,4) i l unat_ring_next(2) [OF i(1)]
    by (auto simp: queue_inv_def word_le_nat_alt dest!: set_update_subset_insert [THEN subsetD])
  have p: "unat (w_idx q) = (unat (r_idx q) + unat (get_used q)) mod length (datagram_vec q)"
    using ring_position [OF i(1,2)] i(5) by (simp add: get_used_ring)
  have "queue_content ?q' = queue_content q @ [take (unat n) inp]"
    using ring_list_snoc [of "unat (get_used q)" "zip (datagram_vec q) (datagram_level_vec q)" "unat (r_idx q)"
        "(take (unat n) inp @ drop (unat n) ?d, n)"]
      ring_used_less [OF i(1,2)] i p u assms(3)
    by (simp add: queue_content_def get_used_ring zip_update)
  with e inv show ?thesis by auto
qed

lemma read_empty: "queue_content q = [] \<Longrightarrow> read_under_lock dst q = Inr (0, dst, q)"
  by (simp add: read_under_lock_def get_used_0)

lemma read_first:
  assumes "queue_inv q" "queue_content q = x # xs" "\<forall>d. dst = Some d \<longrightarrow> length x \<le> length d"
  shows "\<exists>q'. read_under_lock dst q =
      Inr (of_nat (length x), map_option (\<lambda>d. x @ drop (length x) d) dst, q') \<and>
    queue_inv q' \<and> q_size q' = q_size q \<and> queue_content q' = xs \<and>
    length x \<le> unat (N_datagram_max_byte (q_size q))"
proof -
  let ?N = "N_datagram (q_size q)" and ?d = "datagram_vec q ! unat (r_idx q)"
    and ?n = "datagram_level_vec q ! unat (r_idx q)" and ?q' = "q\<lparr>r_idx := (r_idx q + 1) mod N_datagram (q_size q)\<rparr>"
  have i: "w_idx q < ?N" "r_idx q < ?N" "unat (r_idx q) < length (datagram_vec q)"
    "length (datagram_level_vec q) = length (datagram_vec q)" "length (datagram_vec q) = unat ?N"
    using assms(1) by (auto simp: queue_inv_def word_less_nat_alt)
  then have l: "length ?d = unat (N_datagram_max_byte (q_size q))" "?n \<le> N_datagram_max_byte (q_size q)"
    using assms(1) by (auto simp: queue_inv_def)
  have f: "get_used q \<noteq> 0" using assms(2) by (auto simp: get_used_0)
  have u: "unat (get_used q) = Suc (unat (get_used ?q'))"
    using ring_used_read [OF i(1,2)] f by (simp add: get_used_ring)
  have c: "queue_content q = take (unat ?n) ?d # queue_content ?q'"
    using ring_list_Suc [of "zip (datagram_vec q) (datagram_level_vec q)" "unat (r_idx q)" "unat (get_used ?q')"]
      i u unat_ring_next(1) [OF i(2)]
    by (simp add: queue_content_def)
  then have x: "x = take (unat ?n) ?d" "xs = queue_content ?q'" using assms(2) by auto
  have n: "length x = unat ?n" using x(1) l by (simp add: word_le_nat_alt)
  have "read_under_lock dst q = Inr (?n, map_option (\<lambda>d. x @ drop (length x) d) dst, ?q')"
    using f i l n assms(3) x(1)
    by (cases dst) (simp_all add: read_under_lock_def at_index_ok memcpy_ok word_le_nat_alt)
  moreover have "queue_inv ?q'" using assms(1) unat_ring_next(2) [OF i(2)] by (simp add: queue_inv_def)
  moreover have "of_nat (length x) = ?n" by (simp add: n)
  ultimately show ?thesis using x(2) n l(2) by (auto simp: word_le_nat_alt)
qed

lemma level_loop_ok:
  assumes "i + k \<le> length ls" "r < N_datagram (q_size q)"
    "length (datagram_level_vec q) = unat (N_datagram (q_size q))"
  shows "level_loop q k i r ls =
    Inr (take i ls @ ring_list (datagram_level_vec q) (unat r) k @ drop (i + k) ls)"
  using assms
proof (induction k arbitrary: i r ls)
  case (Suc k)
  have r: "unat r < length (datagram_level_vec q)" using Suc.prems by (simp add: word_less_nat_alt)
  show ?case using Suc.prems r Suc.IH [of "Suc i" "ls[i := datagram_level_vec q ! unat r]"]
      unat_ring_next [OF Suc.prems(2)]
    by (simp add: at_index_ok ring_list_Suc take_Suc_conv_app_nth)
qed simp

lemma queue_level_content:
  assumes "queue_inv q" "n \<le> 8"
  defines "c \<equiv> take (unat n) (queue_content q)"
  shows "get_queue_level_under_lock n q = Inr \<lparr>N_filled = of_nat (length c),
    levels = map (\<lambda>d. of_nat (length d)) c @ replicate (8 - length c) 0\<rparr>"
proof -
  let ?dv = "datagram_vec q" and ?lv = "datagram_level_vec q" and ?m = "min n (get_used q)"
  have i: "w_idx q < N_datagram (q_size q)" "r_idx q < N_datagram (q_size q)"
    "length ?dv = length ?lv" "length ?lv = unat (N_datagram (q_size q))"
    using assms(1) by (auto simp: queue_inv_def)
  have m: "unat ?m = length c" by (simp add: c_def min_def word_le_nat_alt)
  have l: "length c \<le> 8" using assms(2) by (simp add: c_def word_le_nat_alt)
  have "\<forall>j < length ?lv. unat (?lv ! j) \<le> length (?dv ! j)"
    using assms(1) i by (simp add: queue_inv_def word_le_nat_alt)
  moreover have "0 < length ?lv" using i(2,4) by (auto simp: word_less_nat_alt)
  ultimately have "map (\<lambda>d. of_nat (length d)) (queue_content q) = ring_list ?lv (unat (r_idx q)) (unat (get_used q))"
    using i(3) by (simp add: queue_content_def ring_list_def)
  then have "map (\<lambda>d. of_nat (length d)) c = take (unat n) (ring_list ?lv (unat (r_idx q)) (unat (get_used q)))"
    by (simp add: c_def take_map [symmetric])
  moreover have "take (unat n) (ring_list ?lv (unat (r_idx q)) (unat (get_used q)))
      = ring_list ?lv (unat (r_idx q)) (length c)"
    by (simp add: ring_list_def take_map c_def min_def)
  ultimately have "level_loop q (unat ?m) 0 (r_idx q) (levels queue_level_default)
      = Inr (map (\<lambda>d. of_nat (length d)) c @ replicate (8 - length c) 0)"
    using level_loop_ok [of 0 "length c" "levels queue_level_default" "r_idx q" q] i m l
    by (simp add: queue_level_default_def application_max_queue_level_reported_def)
  moreover have "?m = of_nat (length c)" by (simp add: m [symmetric])
  ultimately show ?thesis using assms(2)
    by (simp add: get_queue_level_under_lock_def application_max_queue_level_reported_def Let_def)
qed

subsection \<open>The queue as a bounded FIFO\<close>

text \<open>One datagram is written with its length, and read into a buffer that can take every datagram,
as \<open>application_t::buffer_local\<close>.\<close>

definition queue_put :: "bytes \<Rightarrow> packet_queue \<Rightarrow> packet_queue option" where
  "queue_put x q = (case write_nto x (of_nat (length x)) q of
     Inr (n, q') \<Rightarrow> if n = 0 then None else Some q'
   | Inl _ \<Rightarrow> None)"

definition buffer_local :: bytes where
  "buffer_local = replicate (unat application_max_queue_datagram_byte) 0"

definition queue_get :: "packet_queue \<Rightarrow> (bytes \<times> packet_queue) option" where
  "queue_get q = (case read_nto (Some buffer_local) q of
     Inr (n, Some d, q') \<Rightarrow> if n = 0 then None else Some (take (unat n) d, q')
   | _ \<Rightarrow> None)"

definition datagram_fits :: "packet_queue \<Rightarrow> bytes \<Rightarrow> bool" where
  "datagram_fits q x \<longleftrightarrow> x \<noteq> [] \<and> length x \<le> unat (N_datagram_max_byte (q_size q))"

definition queue_fine :: "packet_queue \<Rightarrow> bool" where
  "queue_fine q \<longleftrightarrow> queue_inv q \<and> [] \<notin> set (queue_content q)"

lemma bindE_Inr [simp]: "bindE r Inr = r"
  by (cases r) auto

lemma bindE_pair_Inr [simp]: "bindE r (\<lambda>(x, y). Inr (x, y)) = r"
  by (cases r) auto

lemma queue_put_cases:
  assumes "queue_fine q" "datagram_fits q x"
  shows "queue_put x q = None \<and> length (queue_content q) = queue_capacity q \<or>
    (\<exists>q'. queue_put x q = Some q' \<and> queue_fine q' \<and> q_size q' = q_size q \<and>
      length (queue_content q) < queue_capacity q \<and> queue_content q' = queue_content q @ [x])"
proof -
  have inv: "queue_inv q" using assms(1) by (simp add: queue_fine_def)
  have "length x < 2 ^ 32" using assms(2) u32_less [of "N_datagram_max_byte (q_size q)"]
    by (simp add: datagram_fits_def)
  then have n: "unat (of_nat (length x) :: u32) = length x" by (simp add: unat_of_nat)
  have z: "of_nat (length x) \<noteq> (0 :: u32)" using assms(2) n
    by (auto simp: datagram_fits_def unat_eq_zero [symmetric])
  show ?thesis
  proof (cases "length (queue_content q) = queue_capacity q")
    case True
    then show ?thesis using write_full [OF inv] by (simp add: queue_put_def write_nto_def)
  next
    case False
    then have "length (queue_content q) < queue_capacity q" using queue_content_bound [OF inv] by simp
    with write_room [OF inv this, of "of_nat (length x)" x] n z assms show ?thesis
      by (auto simp: queue_put_def write_nto_def queue_fine_def datagram_fits_def word_le_nat_alt)
  qed
qed

lemma queue_get_cases:
  assumes "queue_fine q"
  shows "queue_get q = None \<and> queue_content q = [] \<or>
    (\<exists>x q'. queue_get q = Some (x, q') \<and> queue_fine q' \<and> q_size q' = q_size q \<and>
      queue_content q = x # queue_content q')"
proof (cases "queue_content q")
  case Nil
  then show ?thesis using read_empty [OF Nil] by (simp add: queue_get_def read_nto_def)
next
  case (Cons x xs)
  have inv: "queue_inv q" using assms by (simp add: queue_fine_def)
  have max: "unat (N_datagram_max_byte (q_size q)) \<le> 1600" using inv
    by (auto simp: queue_inv_def queue_size_valid_def application_max_queue_datagram_byte_def
        word_less_nat_alt split: if_splits)
  have b: "length buffer_local = 1600"
    by (simp add: buffer_local_def application_max_queue_datagram_byte_def)
  obtain y ys where c: "queue_content q = y # ys" using Cons by blast
  have l: "length x \<le> 1600" using read_first [OF inv Cons, of None] max by auto
  then have n: "unat (of_nat (length x) :: u32) = length x" by (simp add: unat_of_nat)
  have z: "of_nat (length x) \<noteq> (0 :: u32)" using assms n Cons
    by (auto simp: queue_fine_def unat_eq_zero [symmetric])
  from read_first [OF inv Cons, of "Some buffer_local"] l b n z assms Cons show ?thesis
    by (auto simp: queue_get_def read_nto_def queue_fine_def)
qed

interpretation pq: bounded_fifo queue_fine queue_content datagram_fits queue_put queue_get queue_capacity
proof (unfold_locales, goal_cases)
  case (1 q x q')
  then show ?case using queue_put_cases [of q x] by (auto simp: datagram_fits_def fun_eq_iff)
next
  case (2 q)
  then show ?case using queue_get_cases [of q] by auto
next
  case (3 q x q')
  then show ?case using queue_get_cases [of q] by (auto simp: datagram_fits_def fun_eq_iff)
next
  case (4 q)
  then show ?case using queue_content_bound by (simp add: queue_fine_def)
next
  case (5 q x)
  then show ?case using queue_put_cases [of q x] by auto
next
  case (6 q x q')
  then show ?case using queue_put_cases [of q x] by (auto simp: queue_capacity_def)
next
  case (7 q x q')
  then show ?case using queue_get_cases [of q] by (auto simp: queue_capacity_def)
qed

subsection \<open>Properties\<close>

text \<open>C6: A packet queue is a first-in first-out queue of its size less one. Whatever sequence
of writes and reads the threads get through on a new queue, and whatever the memory of the slots
contained before, the datagrams that were accepted are those that were read followed by those that
are still in the queue, byte for byte and in the same order, and never more than the capacity are
pending; a write is refused only when that many are.\<close>

theorem packet_queue_fifo:
  assumes "queue_size_valid s" "\<forall>x. Some x \<in> set ops \<longrightarrow> datagram_fits (queue_new mem s) x"
    and "fifo_run queue_put queue_get ops (queue_new mem s) = (ins, outs, q)"
  shows "queue_inv q \<and> ins = outs @ queue_content q \<and>
    length ins \<le> length outs + (unat (N_datagram s) - 1) \<and>
    (\<forall>x. datagram_fits q x \<longrightarrow> queue_put x q = None \<longleftrightarrow>
      length (queue_content q) = unat (N_datagram s) - 1)"
proof -
  have n: "queue_fine (queue_new mem s)" "queue_content (queue_new mem s) = []"
    "queue_capacity (queue_new mem s) = unat (N_datagram s) - 1"
    using queue_new_inv [OF assms(1), of mem] by (simp_all add: queue_fine_def)
  note r = pq.run_fifo [OF n(1) assms(2,3)] pq.run_bounded [OF n(1) assms(2,3)]
  then have "queue_fine q" "queue_capacity q = unat (N_datagram s) - 1" using n by auto
  then show ?thesis using r n pq.enq_refused [of q] by (auto simp: queue_fine_def)
qed

definition sample_ops :: "bytes option list" where
  "sample_ops = [Some [1], Some [2, 3], Some [4], None, Some [5], None, None]"

theorem packet_queue_fifo_witness:
  "fst (snd (fifo_run queue_put queue_get sample_ops (queue_new (\<lambda>_ _. 0) \<lparr>N_datagram = 3, N_datagram_max_byte = 2\<rparr>)))
    = [[1], [2, 3], [5]] \<and>
   queue_inv (snd (snd (fifo_run queue_put queue_get sample_ops
     (queue_new (\<lambda>_ _. 0) \<lparr>N_datagram = 3, N_datagram_max_byte = 2\<rparr>))))"
proof -
  let ?s = "\<lparr>N_datagram = 3, N_datagram_max_byte = 2\<rparr>" and ?q = "queue_new (\<lambda>_ _. 0) \<lparr>N_datagram = 3, N_datagram_max_byte = 2\<rparr>"
  have "fst (snd (fifo_run queue_put queue_get sample_ops ?q)) = [[1], [2, 3], [5]]" by code_simp
  moreover have "queue_inv (snd (snd (fifo_run queue_put queue_get sample_ops ?q)))"
    using packet_queue_fifo [of ?s sample_ops "\<lambda>_ _. 0" _ _ "snd (snd (fifo_run queue_put queue_get sample_ops ?q))",
        OF _ _ prod.collapse [symmetric, THEN trans]]
    by (auto simp: queue_size_valid_def application_max_queue_datagram_def
      application_max_queue_datagram_byte_def sample_ops_def datagram_fits_def queue_new_def prod_eq_iff)
  ultimately show ?thesis by simp
qed

text \<open>Every operation of a packet queue in every case. A write of at most the maximum size is
refused with 0 when the queue is full and otherwise appends the bytes and returns their number, so
that a datagram of 0 bytes is stored although 0 is returned; a larger one fails the assertion when
there is room. A read hands out the oldest datagram, or drops it when no destination is given. The
reported levels are the sizes of the oldest datagrams. A call of \<open>\<dots>_try\<close> that does not get the
lock changes nothing, and \<open>clear\<close> empties the queue.\<close>

theorem packet_queue_operations:
  assumes "queue_inv q" "unat n \<le> length inp" "m \<le> 8"
    and "\<forall>x d. queue_content q \<noteq> [] \<longrightarrow> dst = Some d \<longrightarrow> length (hd (queue_content q)) \<le> length d"
  shows "(length (queue_content q) = queue_capacity q \<longrightarrow> write_nto inp n q = Inr (0, q)) \<and>
    (length (queue_content q) < queue_capacity q \<longrightarrow>
      (if n \<le> N_datagram_max_byte (q_size q)
       then \<exists>q'. write_nto inp n q = Inr (n, q') \<and> queue_inv q' \<and> q_size q' = q_size q \<and>
         queue_content q' = queue_content q @ [take (unat n) inp]
       else write_nto inp n q = Inl Assertion_failed)) \<and>
    (queue_content q = [] \<longrightarrow> read_nto dst q = Inr (0, dst, q)) \<and>
    (\<forall>x xs. queue_content q = x # xs \<longrightarrow> (\<exists>q'. queue_inv q' \<and> q_size q' = q_size q \<and>
      read_nto dst q = Inr (of_nat (length x), map_option (\<lambda>d. x @ drop (length x) d) dst, q') \<and>
      queue_content q' = xs)) \<and>
    get_queue_level_nto m q = Inr \<lparr>N_filled = of_nat (length (take (unat m) (queue_content q))),
      levels = map (\<lambda>d. of_nat (length d)) (take (unat m) (queue_content q)) @
        replicate (8 - length (take (unat m) (queue_content q))) 0\<rparr> \<and>
    write_try False inp n q = write_nto inp n q \<and> write_try True inp n q = Inr (0, q) \<and>
    read_try False dst q = read_nto dst q \<and> read_try True dst q = Inr (0, dst, q) \<and>
    queue_inv (queue_clear q) \<and> queue_content (queue_clear q) = []"
proof -
  have w: "length (queue_content q) < queue_capacity q \<Longrightarrow> \<not> n \<le> N_datagram_max_byte (q_size q) \<Longrightarrow>
      write_nto inp n q = Inl Assertion_failed"
    using get_free_0 [OF assms(1)] by (simp add: write_nto_def write_under_lock_def)
  show ?thesis
    using write_full [OF assms(1), of inp n] write_room [OF assms(1) _ assms(2)] w
      read_empty [of q dst] read_first [OF assms(1), of _ _ dst] assms(4)
      queue_level_content [OF assms(1,3)] queue_clear_inv [OF assms(1)]
    by (auto simp: write_nto_def read_nto_def write_try_def read_try_def get_queue_level_nto_def)
qed

theorem packet_queue_operations_witness:
  "\<exists>q. write_nto [] 0 (queue_new (\<lambda>_ _. 7) \<lparr>N_datagram = 3, N_datagram_max_byte = 2\<rparr>) = Inr (0, q) \<and>
    queue_content q = [[]]"
  using packet_queue_operations [of "queue_new (\<lambda>_ _. 7) \<lparr>N_datagram = 3, N_datagram_max_byte = 2\<rparr>" 0 "[]" 0 None]
    queue_new_inv [of "\<lparr>N_datagram = 3, N_datagram_max_byte = 2\<rparr>" "\<lambda>_ _. 7"]
  by (auto simp: queue_size_valid_def application_max_queue_datagram_def
      application_max_queue_datagram_byte_def)

end
