(* ===== verification/Irregular_Queue.thy ===== *)
theory Irregular_Queue
  imports Prelude "HOL-Library.Multiset"
begin

text \<open>
  Irregular callbacks of a termination point firmware: \<open>phy/rx/sync/irregular_report\<close>, the queue
  \<open>phy/pool/irregular_queue.cpp\<close> in which the TX/RX workers leave them, and
  \<open>worker_sync_t::enqueue_irregular_job_if_due\<close>, which takes them out when their time has come.
  Times are 64-bit integers that are only compared and subtracted; they are modelled as \<open>int\<close>.
\<close>

definition undefined_late :: int where
  "undefined_late = 2 ^ 63 - 1"

definition UNDEFINED_EARLY_64 :: int where
  "UNDEFINED_EARLY_64 = - (2 ^ 63) div 8"

record irregular_report =
  time_of_recognition :: int
  call_asap_after_this_time_has_passed_64 :: int
  handle :: u32

definition irregular_report_default :: irregular_report where
  "irregular_report_default = \<lparr>time_of_recognition = UNDEFINED_EARLY_64,
     call_asap_after_this_time_has_passed_64 = undefined_late, handle = 0\<rparr>"

definition irregular_report_new :: "int \<Rightarrow> u32 \<Rightarrow> irregular_report" where
  "irregular_report_new t h = irregular_report_default
     \<lparr>call_asap_after_this_time_has_passed_64 := t, handle := h\<rparr>"

definition has_finite_time :: "irregular_report \<Rightarrow> bool" where
  "has_finite_time r \<longleftrightarrow> call_asap_after_this_time_has_passed_64 r < undefined_late"

definition get_recognition_delay :: "irregular_report \<Rightarrow> int" where
  "get_recognition_delay r = time_of_recognition r - call_asap_after_this_time_has_passed_64 r"

definition get_same_with_time_increment :: "int \<Rightarrow> irregular_report \<Rightarrow> irregular_report res" where
  "get_same_with_time_increment inc r =
    assertE (has_finite_time r) (assertE (0 < inc) (assertE (inc < undefined_late)
      (Inr (irregular_report_new (call_asap_after_this_time_has_passed_64 r + inc) (handle r)))))"

definition max_irregular_callback_pending :: nat where
  "max_irregular_callback_pending = 8"

text \<open>The iterator \<open>it_next\<close> is an index, \<open>None\<close> for \<open>nullptr\<close>.\<close>

record irregular_queue =
  next_time_64 :: int
  irregular_report_arr :: "irregular_report list"
  it_next :: "nat option"

definition irregular_queue_new :: "irregular_queue res" where
  "irregular_queue_new =
    (let arr = replicate max_irregular_callback_pending irregular_report_default in
     assertE (list_all (\<lambda>r. \<not> has_finite_time r) arr)
       (Inr \<lparr>next_time_64 = undefined_late, irregular_report_arr = arr, it_next = None\<rparr>))"

definition find_if :: "('a \<Rightarrow> bool) \<Rightarrow> 'a list \<Rightarrow> nat" where
  "find_if P xs = length (takeWhile (\<lambda>x. \<not> P x) xs)"

definition min_element :: "('a \<Rightarrow> int) \<Rightarrow> 'a list \<Rightarrow> nat" where
  "min_element f xs = foldl (\<lambda>b i. if f (xs ! i) < f (xs ! b) then i else b) 0 [1..<length xs]"

definition irregular_push :: "irregular_report \<Rightarrow> irregular_queue \<Rightarrow> irregular_queue res" where
  "irregular_push r q =
    assertE (has_finite_time r)
      (let i = find_if (\<lambda>x. \<not> has_finite_time x) (irregular_report_arr q) in
       assertE (i < length (irregular_report_arr q))
         (let q' = q\<lparr>irregular_report_arr := (irregular_report_arr q)[i := r]\<rparr> in
          if call_asap_after_this_time_has_passed_64 r < next_time_64 q
          then Inr (q'\<lparr>it_next := Some i, next_time_64 := call_asap_after_this_time_has_passed_64 r\<rparr>)
          else Inr q'))"

definition get_next_time :: "irregular_queue \<Rightarrow> int" where
  "get_next_time q = (if next_time_64 q < undefined_late then next_time_64 q else undefined_late)"

definition irregular_pop :: "irregular_queue \<Rightarrow> (irregular_report \<times> irregular_queue) res" where
  "irregular_pop q = (case it_next q of
     None \<Rightarrow> Inl Assertion_failed
   | Some i \<Rightarrow> assertE (i < length (irregular_report_arr q))
       (let ret = irregular_report_arr q ! i;
            arr = (irregular_report_arr q)[i := irregular_report_default];
            j = min_element call_asap_after_this_time_has_passed_64 arr in
        if has_finite_time (arr ! j)
        then Inr (ret, q\<lparr>irregular_report_arr := arr, it_next := Some j,
                        next_time_64 := call_asap_after_this_time_has_passed_64 (arr ! j)\<rparr>)
        else Inr (ret, q\<lparr>irregular_report_arr := arr, it_next := None, next_time_64 := undefined_late\<rparr>)))"

text \<open>
  A sync worker first reads the time of the next callback and then takes it out, without holding
  the lock in between; \<open>others\<close> are the callbacks that TX/RX workers leave meanwhile.
  \<open>holder\<close> says whether the worker holds the baton. The result is the job it enqueues.
\<close>

fun push_all :: "irregular_report list \<Rightarrow> irregular_queue \<Rightarrow> irregular_queue res" where
  "push_all [] q = Inr q"
| "push_all (r # rs) q = bindE (irregular_push r q) (push_all rs)"

definition enqueue_irregular_job_if_due ::
  "bool \<Rightarrow> int \<Rightarrow> irregular_report list \<Rightarrow> irregular_queue \<Rightarrow> (irregular_report option \<times> irregular_queue) res" where
  "enqueue_irregular_job_if_due holder no_more_syncs_earlier_64 others q =
    (let next_time = get_next_time q in
     bindE (push_all others q) (\<lambda>q'.
       if \<not> holder then Inr (None, q')
       else if next_time = undefined_late then Inr (None, q')
       else if no_more_syncs_earlier_64 < next_time then Inr (None, q')
       else bindE (irregular_pop q') (\<lambda>(r, q'').
         let r' = r\<lparr>time_of_recognition := no_more_syncs_earlier_64\<rparr> in
         assertE (0 \<le> get_recognition_delay r') (Inr (Some r', q'')))))"

subsection \<open>Searching the array\<close>

lemma find_if_less: "find_if P xs < length xs \<longleftrightarrow> (\<exists>x\<in>set xs. P x)"
  by (induction xs) (auto simp: find_if_def)

lemma find_if_nth: "\<exists>x\<in>set xs. P x \<Longrightarrow> P (xs ! find_if P xs)"
  by (induction xs) (auto simp: find_if_def)

lemma min_element_upto:
  "0 < n \<Longrightarrow> n \<le> length xs \<Longrightarrow>
   foldl (\<lambda>b i. if f (xs ! i) < (f (xs ! b) :: int) then i else b) 0 [1..<n] < n \<and>
   (\<forall>i<n. f (xs ! foldl (\<lambda>b i. if f (xs ! i) < f (xs ! b) then i else b) 0 [1..<n]) \<le> f (xs ! i))"
proof (induction n)
  case (Suc n)
  show ?case
  proof (cases "n = 0")
    case False
    then have "[1..<Suc n] = [1..<n] @ [n]" by simp
    moreover have "0 < n" "n \<le> length xs" using False Suc.prems by auto
    note Suc.IH [OF this]
    ultimately show ?thesis by (simp del: upt_Suc) (force simp: less_Suc_eq)
  qed simp
qed simp

lemma min_element_ok:
  "xs \<noteq> [] \<Longrightarrow> min_element f xs < length xs \<and> (\<forall>x\<in>set xs. f (xs ! min_element f xs) \<le> f x)"
  using min_element_upto [of "length xs" xs f] by (auto simp: min_element_def in_set_conv_nth)

subsection \<open>Pending callbacks\<close>

abbreviation "call_time \<equiv> call_asap_after_this_time_has_passed_64"

definition irregular_inv :: "irregular_queue \<Rightarrow> bool" where
  "irregular_inv q \<longleftrightarrow> length (irregular_report_arr q) = max_irregular_callback_pending \<and>
     (\<forall>r\<in>set (irregular_report_arr q). next_time_64 q \<le> call_time r \<and> call_time r \<le> undefined_late) \<and>
     (case it_next q of
        None \<Rightarrow> next_time_64 q = undefined_late
      | Some i \<Rightarrow> i < length (irregular_report_arr q) \<and> next_time_64 q < undefined_late \<and>
          call_time (irregular_report_arr q ! i) = next_time_64 q)"

definition pending :: "irregular_queue \<Rightarrow> irregular_report multiset" where
  "pending q = mset (filter has_finite_time (irregular_report_arr q))"

lemma default_not_finite [simp]: "\<not> has_finite_time irregular_report_default"
  by (simp add: has_finite_time_def irregular_report_default_def)

lemma pending_update:
  "i < length xs \<Longrightarrow> mset (filter P (xs[i := x])) =
    (if P x then add_mset x else id) (mset (filter P xs) - (if P (xs ! i) then {#xs ! i#} else {#}))"
  by (simp add: mset_filter mset_update filter_diff_mset)

lemma pending_empty: "pending q = {#} \<longleftrightarrow> (\<forall>r\<in>set (irregular_report_arr q). \<not> has_finite_time r)"
  by (auto simp: pending_def filter_empty_conv)

lemma in_pending: "r \<in># pending q \<longleftrightarrow> r \<in> set (irregular_report_arr q) \<and> has_finite_time r"
  by (auto simp: pending_def)

lemma size_pending_full:
  "size (pending q) = length (irregular_report_arr q) \<longleftrightarrow> list_all has_finite_time (irregular_report_arr q)"
proof
  assume "size (pending q) = length (irregular_report_arr q)"
  then have "\<not> length (filter has_finite_time (irregular_report_arr q)) < length (irregular_report_arr q)"
    by (simp add: pending_def flip: mset_filter)
  then show "list_all has_finite_time (irregular_report_arr q)"
    using length_filter_less [of _ "irregular_report_arr q" has_finite_time]
    by (auto simp: list_all_iff)
qed (simp add: pending_def list_all_iff)

lemma irregular_queue_new_ok: "\<exists>q. irregular_queue_new = Inr q \<and> irregular_inv q \<and> pending q = {#}"
  by (simp add: irregular_queue_new_def Let_def irregular_inv_def pending_def list_all_iff)
    (simp add: irregular_report_default_def)

lemma irregular_push_full:
  "irregular_inv q \<Longrightarrow> size (pending q) = max_irregular_callback_pending \<Longrightarrow>
   irregular_push r q = Inl Assertion_failed"
  using size_pending_full [of q] find_if_less [of "\<lambda>x. \<not> has_finite_time x" "irregular_report_arr q"]
  by (auto simp: irregular_push_def Let_def irregular_inv_def list_all_iff assertE_def)

lemma irregular_push_ok:
  assumes "irregular_inv q" "size (pending q) < max_irregular_callback_pending" "has_finite_time r"
  shows "\<exists>q'. irregular_push r q = Inr q' \<and> irregular_inv q' \<and> pending q' = add_mset r (pending q) \<and>
    next_time_64 q' = min (next_time_64 q) (call_time r)"
proof -
  let ?a = "irregular_report_arr q" and ?i = "find_if (\<lambda>x. \<not> has_finite_time x) (irregular_report_arr q)"
  have "\<exists>x\<in>set ?a. \<not> has_finite_time x"
    using assms(1,2) size_pending_full [of q] by (auto simp: irregular_inv_def list_all_iff)
  then have i: "?i < length ?a" "\<not> has_finite_time (?a ! ?i)"
    using find_if_nth [of ?a "\<lambda>x. \<not> has_finite_time x"] by (simp_all add: find_if_less)
  have p: "mset (filter has_finite_time (?a[?i := r])) = add_mset r (pending q)"
    using i assms(3) by (simp add: pending_update pending_def del: mset_filter)
  have b: "\<forall>x\<in>set (?a[?i := r]). min (next_time_64 q) (call_time r) \<le> call_time x \<and> call_time x \<le> undefined_late"
  proof
    fix x assume "x \<in> set (?a[?i := r])"
    then have "x = r \<or> x \<in> set ?a" using set_update_subset_insert [of ?a ?i r] by auto
    then show "min (next_time_64 q) (call_time r) \<le> call_time x \<and> call_time x \<le> undefined_late"
      using assms(1,3) by (auto simp: irregular_inv_def has_finite_time_def)
  qed
  have keep: "it_next q = Some j \<Longrightarrow> ?a[?i := r] ! j = ?a ! j" for j
    using assms(1) i(2) by (cases "?i = j") (auto simp: irregular_inv_def has_finite_time_def)
  have l: "length ?a = max_irregular_callback_pending" using assms(1) by (simp add: irregular_inv_def)
  have late: "call_time r < undefined_late" using assms(3) by (simp add: has_finite_time_def)
  show ?thesis
  proof (cases "call_time r < next_time_64 q")
    case True
    then show ?thesis using assms(3) i(1) p b l late
      by (simp add: irregular_push_def Let_def irregular_inv_def pending_def del: mset_filter)
  next
    case False
    then show ?thesis using assms(1,3) i(1) p b l keep
      by (auto simp: irregular_push_def Let_def irregular_inv_def pending_def min_def
          simp del: mset_filter split: option.splits)
  qed
qed

lemma irregular_next_time: "irregular_inv q \<Longrightarrow> get_next_time q = next_time_64 q"
  by (auto simp: get_next_time_def irregular_inv_def split: option.splits)

lemma irregular_next_None:
  assumes "irregular_inv q"
  shows "it_next q = None \<longleftrightarrow> pending q = {#}"
proof (cases "it_next q")
  case None
  then show ?thesis using assms by (auto simp: irregular_inv_def pending_empty has_finite_time_def)
next
  case (Some i)
  then have "irregular_report_arr q ! i \<in># pending q"
    using assms by (simp add: irregular_inv_def in_pending has_finite_time_def)
  with Some show ?thesis by auto
qed

lemma irregular_pop_empty: "irregular_inv q \<Longrightarrow> pending q = {#} \<Longrightarrow> irregular_pop q = Inl Assertion_failed"
  using irregular_next_None [of q] by (simp add: irregular_pop_def)

lemma irregular_pop_ok:
  assumes "irregular_inv q" "pending q \<noteq> {#}"
  shows "\<exists>r q'. irregular_pop q = Inr (r, q') \<and> irregular_inv q' \<and> pending q = add_mset r (pending q') \<and>
    call_time r = next_time_64 q \<and> (\<forall>x\<in>#pending q. call_time r \<le> call_time x)"
proof -
  let ?a = "irregular_report_arr q"
  obtain i where n: "it_next q = Some i" using irregular_next_None [OF assms(1)] assms(2) by auto
  then have i: "i < length ?a" "call_time (?a ! i) = next_time_64 q" "has_finite_time (?a ! i)"
    using assms(1) by (auto simp: irregular_inv_def has_finite_time_def)
  let ?a' = "?a[i := irregular_report_default]"
  let ?j = "min_element call_time ?a'"
  have j: "?j < length ?a'" "\<forall>x\<in>set ?a'. call_time (?a' ! ?j) \<le> call_time x"
    using min_element_ok [of ?a' call_time] i(1) by (cases "?a = []", simp_all)+
  have p: "mset (filter has_finite_time ?a') = pending q - {#?a ! i#}"
    using i by (simp add: pending_update pending_def del: mset_filter)
  have "?a ! i \<in># pending q" using i by (simp add: in_pending)
  then have p': "pending q = add_mset (?a ! i) (mset (filter has_finite_time ?a'))"
    by (simp add: p del: mset_filter)
  have m: "\<forall>x\<in>#pending q. call_time (?a ! i) \<le> call_time x"
    using assms(1) i by (auto simp: in_pending irregular_inv_def)
  have late: "\<forall>x\<in>set ?a'. call_time x \<le> undefined_late"
    using assms(1) by (auto simp: irregular_inv_def irregular_report_default_def
        dest!: set_update_subset_insert [THEN subsetD])
  show ?thesis
  proof (cases "has_finite_time (?a' ! ?j)")
    case True
    then show ?thesis using n i j p' m late assms(1)
      by (auto simp: irregular_pop_def Let_def irregular_inv_def pending_def has_finite_time_def)
  next
    case False
    then have "\<forall>x\<in>set ?a'. call_time x = undefined_late" using j late by (force simp: has_finite_time_def)
    then show ?thesis using n i False p' m assms(1)
      by (auto simp: irregular_pop_def Let_def irregular_inv_def pending_def)
  qed
qed

subsection \<open>The contract of a queue of deadlines\<close>

fun pops :: "('q \<Rightarrow> ('a \<times> 'q) res) \<Rightarrow> nat \<Rightarrow> 'q \<Rightarrow> ('a list \<times> 'q) res" where
  "pops pop 0 q = Inr ([], q)"
| "pops pop (Suc n) q = bindE (pop q) (\<lambda>(x, q'). bindE (pops pop n q') (\<lambda>(xs, q''). Inr (x # xs, q'')))"

lemma pops_length: "pops pop n q = Inr (xs, q') \<Longrightarrow> length xs = n"
  by (induction n arbitrary: q xs) (auto simp: bindE_eq_Inr)

locale deadline_queue =
  fixes inv :: "'q \<Rightarrow> bool" and content :: "'q \<Rightarrow> 'a multiset" and key :: "'a \<Rightarrow> int"
    and ok :: "'a \<Rightarrow> bool" and cap :: nat and push :: "'a \<Rightarrow> 'q \<Rightarrow> 'q res"
    and pop :: "'q \<Rightarrow> ('a \<times> 'q) res" and earliest :: "'q \<Rightarrow> int" and late :: int
  assumes push_room: "inv q \<Longrightarrow> ok x \<Longrightarrow> size (content q) < cap \<Longrightarrow>
      \<exists>q'. push x q = Inr q' \<and> inv q' \<and> content q' = add_mset x (content q)"
    and push_full: "inv q \<Longrightarrow> size (content q) = cap \<Longrightarrow> push x q = Inl Assertion_failed"
    and bound: "inv q \<Longrightarrow> size (content q) \<le> cap"
    and pop_empty: "inv q \<Longrightarrow> content q = {#} \<Longrightarrow> pop q = Inl Assertion_failed"
    and pop_first: "inv q \<Longrightarrow> content q \<noteq> {#} \<Longrightarrow> \<exists>x q'. pop q = Inr (x, q') \<and> inv q' \<and>
      content q = add_mset x (content q') \<and> key x = earliest q \<and> (\<forall>y\<in>#content q. key x \<le> key y)"
    and earliest_empty: "inv q \<Longrightarrow> content q = {#} \<Longrightarrow> earliest q = late"
begin

text \<open>Elements leave in the order of their keys, and none is lost.\<close>

lemma pops_sorted:
  "inv q \<Longrightarrow> n \<le> size (content q) \<Longrightarrow> \<exists>xs q'. pops pop n q = Inr (xs, q') \<and> inv q' \<and>
     mset xs + content q' = content q \<and> sorted (map key xs) \<and>
     (\<forall>x\<in>set xs. \<forall>y\<in>#content q'. key x \<le> key y)"
proof (induction n arbitrary: q)
  case (Suc n)
  then have "content q \<noteq> {#}" by auto
  then obtain x p where p: "pop q = Inr (x, p)" "inv p" "content q = add_mset x (content p)"
    "\<forall>y\<in>#content q. key x \<le> key y"
    using pop_first [OF Suc.prems(1)] by auto
  then obtain xs q' where q': "pops pop n p = Inr (xs, q')" "inv q'" "mset xs + content q' = content p"
    "sorted (map key xs)" "\<forall>x\<in>set xs. \<forall>y\<in>#content q'. key x \<le> key y"
    using Suc.IH [OF p(2)] Suc.prems(2) by auto
  have "set_mset (content p) = set xs \<union> set_mset (content q')" by (simp flip: q'(3))
  then have "\<forall>y\<in>set xs. key x \<le> key y" "\<forall>y\<in>#content q'. key x \<le> key y" using p(3,4) by auto
  with p(1,3) q' show ?case by auto
qed simp

lemma earliest_min:
  assumes "inv q"
  shows "earliest q = (if content q = {#} then late else Min (key ` set_mset (content q)))"
proof (cases "content q = {#}")
  case False
  with pop_first [OF assms] obtain x where "x \<in># content q" "key x = earliest q"
    "\<forall>y\<in>#content q. key x \<le> key y"
    by (metis union_single_eq_member add_mset_add_single)
  moreover from this have "earliest q \<in> key ` set_mset (content q)" by (metis imageI)
  ultimately show ?thesis using False by (auto intro!: Min_eqI [symmetric])
qed (simp add: earliest_empty assms)

end

interpretation iq: deadline_queue irregular_inv pending call_time has_finite_time
  max_irregular_callback_pending irregular_push irregular_pop get_next_time undefined_late
proof (unfold_locales, goal_cases)
  case (1 q x)
  then show ?case using irregular_push_ok [of q x] by auto
next
  case (2 q x)
  then show ?case by (rule irregular_push_full)
next
  case (3 q)
  then show ?case by (simp add: pending_def irregular_inv_def) (metis length_filter_le mset_filter size_mset)
next
  case (4 q)
  then show ?case by (rule irregular_pop_empty)
next
  case (5 q)
  then show ?case using irregular_pop_ok [of q] irregular_next_time [of q] by auto
next
  case (6 q)
  then show ?case using irregular_next_None [of q] irregular_next_time [of q] by (simp add: irregular_inv_def)
qed

lemma push_all_ok:
  "irregular_inv q \<Longrightarrow> \<forall>r\<in>set rs. has_finite_time r \<Longrightarrow>
   size (pending q) + length rs \<le> max_irregular_callback_pending \<Longrightarrow>
   \<exists>q'. push_all rs q = Inr q' \<and> irregular_inv q' \<and> pending q' = pending q + mset rs \<and>
     next_time_64 q' \<le> next_time_64 q"
proof (induction rs arbitrary: q)
  case (Cons r rs)
  then obtain p where p: "irregular_push r q = Inr p" "irregular_inv p"
    "pending p = add_mset r (pending q)" "next_time_64 p = min (next_time_64 q) (call_time r)"
    using irregular_push_ok [of q r] by auto
  then have "next_time_64 p \<le> next_time_64 q" by simp
  with Cons.IH [OF p(2)] Cons.prems p show ?case by (force dest: order_trans)
qed simp

subsection \<open>Properties\<close>

text \<open>C12: The queue of irregular callbacks is a priority queue: callbacks leave it in the order of
their times, each exactly once and none before one that is due earlier; the announced next time is
that of the earliest pending callback. A callback is accepted unless eight are pending, in which
case an assertion fails.\<close>

theorem irregular_queue_deadlines:
  assumes "irregular_inv q" "n \<le> size (pending q)"
  shows "(\<exists>xs q'. pops irregular_pop n q = Inr (xs, q') \<and> irregular_inv q' \<and>
      mset xs + pending q' = pending q \<and> sorted (map call_time xs) \<and>
      (\<forall>x\<in>set xs. \<forall>y\<in>#pending q'. call_time x \<le> call_time y)) \<and>
    get_next_time q = (if pending q = {#} then undefined_late else Min (call_time ` set_mset (pending q))) \<and>
    (\<forall>r. has_finite_time r \<longrightarrow> (if size (pending q) < 8
      then \<exists>q'. irregular_push r q = Inr q' \<and> irregular_inv q' \<and> pending q' = add_mset r (pending q)
      else irregular_push r q = Inl Assertion_failed)) \<and>
    (\<exists>q0. irregular_queue_new = Inr q0 \<and> irregular_inv q0 \<and> pending q0 = {#})"
  using iq.pops_sorted [OF assms] iq.earliest_min [OF assms(1)] iq.push_room [OF assms(1)]
    iq.push_full [OF assms(1)] iq.bound [OF assms(1)] irregular_queue_new_ok
  by (auto simp: max_irregular_callback_pending_def not_less)

definition sample_reports :: "irregular_report list" where
  "sample_reports = map (\<lambda>t. irregular_report_new t 0) [30, 10, 20]"

theorem irregular_queue_deadlines_witness:
  "\<exists>q xs q'. push_all sample_reports (projr irregular_queue_new) = Inr q \<and>
     pops irregular_pop 3 q = Inr (xs, q') \<and> sorted (map call_time xs) \<and> mset xs = mset sample_reports"
proof -
  obtain q0 where q0: "irregular_queue_new = Inr q0" "irregular_inv q0" "pending q0 = {#}"
    using irregular_queue_new_ok by auto
  have "\<forall>r\<in>set sample_reports. has_finite_time r"
    by (simp add: sample_reports_def has_finite_time_def irregular_report_new_def undefined_late_def)
  then obtain q where q: "push_all sample_reports q0 = Inr q" "irregular_inv q" "pending q = mset sample_reports"
    using push_all_ok [OF q0(2), of sample_reports] q0(3)
    by (auto simp: sample_reports_def max_irregular_callback_pending_def)
  moreover have n: "size (pending q) = 3" by (simp add: q sample_reports_def)
  obtain xs q' where xs: "pops irregular_pop 3 q = Inr (xs, q')" "mset xs + pending q' = pending q"
    "sorted (map call_time xs)"
    using irregular_queue_deadlines [OF q(2), of 3] n by auto
  moreover have "length xs = 3" using pops_length [OF xs(1)] .
  then have "pending q' = {#}" using arg_cong [OF xs(2), of size] n by simp
  ultimately have "push_all sample_reports (projr irregular_queue_new) = Inr q"
    "mset xs = mset sample_reports" using q by (simp_all add: q0(1))
  with xs show ?thesis by blast
qed

text \<open>C13: A sync worker enqueues an irregular callback only once its time has passed, takes the
earliest, and loses none, whatever callbacks the TX/RX workers leave between the reading of the next
time and the removal; without the baton it does nothing. The assertion on the delay of recognition
never fails.\<close>

theorem irregular_callbacks_not_early:
  assumes "irregular_inv q" "\<forall>r\<in>set others. has_finite_time r" "size (pending q) + length others \<le> 8"
  shows "\<exists>job q'. enqueue_irregular_job_if_due holder now others q = Inr (job, q') \<and> irregular_inv q' \<and>
    (case job of
       None \<Rightarrow> pending q' = pending q + mset others \<and> (holder \<longrightarrow> (\<forall>x\<in>#pending q. now < call_time x))
     | Some r \<Rightarrow> holder \<and> time_of_recognition r = now \<and> call_time r \<le> now \<and>
         (\<exists>t. pending q + mset others = add_mset (r\<lparr>time_of_recognition := t\<rparr>) (pending q')) \<and>
         (\<forall>x\<in>#pending q'. call_time r \<le> call_time x))"
proof -
  obtain p where p: "push_all others q = Inr p" "irregular_inv p" "pending p = pending q + mset others"
    "next_time_64 p \<le> next_time_64 q"
    using push_all_ok [OF assms(1,2)] assms(3) by (auto simp: max_irregular_callback_pending_def)
  have none: "now < next_time_64 q \<or> next_time_64 q = undefined_late \<Longrightarrow> x \<in># pending q \<Longrightarrow>
      now < call_time x" for x
    using assms(1) by (auto simp: in_pending irregular_inv_def has_finite_time_def)
  show ?thesis
  proof (cases "holder \<and> next_time_64 q \<noteq> undefined_late \<and> next_time_64 q \<le> now")
    case False
    then show ?thesis using p none
      by (auto simp: enqueue_irregular_job_if_due_def Let_def irregular_next_time [OF assms(1)])
  next
    case True
    then have "pending q \<noteq> {#}" using irregular_next_None [OF assms(1)] assms(1)
      by (auto simp: irregular_inv_def)
    then have "pending p \<noteq> {#}" using p(3) by simp
    then obtain r q' where r: "irregular_pop p = Inr (r, q')" "irregular_inv q'"
      "pending p = add_mset r (pending q')" "call_time r = next_time_64 p" "\<forall>x\<in>#pending p. call_time r \<le> call_time x"
      using irregular_pop_ok [OF p(2)] by auto
    then have "call_time r \<le> now" using p(4) True by simp
    moreover have "pending q + mset others = add_mset (r\<lparr>time_of_recognition := time_of_recognition r\<rparr>) (pending q')"
      using r(3) p(3) by simp
    ultimately show ?thesis using True p r
      by (auto simp: enqueue_irregular_job_if_due_def Let_def irregular_next_time [OF assms(1)]
          get_recognition_delay_def intro!: exI [of _ "time_of_recognition r"])
  qed
qed

theorem irregular_callbacks_not_early_witness:
  "\<exists>q job q'. enqueue_irregular_job_if_due True 25 (tl sample_reports) q = Inr (job, q') \<and>
    irregular_push (hd sample_reports) (projr irregular_queue_new) = Inr q \<and> irregular_inv q'"
proof -
  obtain q0 where q0: "irregular_queue_new = Inr q0" "irregular_inv q0" "pending q0 = {#}"
    using irregular_queue_new_ok by auto
  have f: "\<forall>r\<in>set sample_reports. has_finite_time r"
    by (simp add: sample_reports_def has_finite_time_def irregular_report_new_def undefined_late_def)
  then obtain q where q: "irregular_push (hd sample_reports) q0 = Inr q" "irregular_inv q"
    "pending q = {#hd sample_reports#}"
    using irregular_push_ok [OF q0(2), of "hd sample_reports"] q0(3)
    by (auto simp: sample_reports_def max_irregular_callback_pending_def)
  moreover obtain job q' where "enqueue_irregular_job_if_due True 25 (tl sample_reports) q = Inr (job, q')"
    "irregular_inv q'"
    using irregular_callbacks_not_early [OF q(2), of "tl sample_reports" True 25] f q(3)
    by (auto simp: sample_reports_def)
  moreover have "irregular_push (hd sample_reports) (projr irregular_queue_new) = Inr q"
    using q(1) by (simp add: q0(1))
  ultimately show ?thesis by blast
qed

end
