(* ===== verification/Job_Queue.thy ===== *)
theory Job_Queue
  imports Ring Irregular_Queue
begin

text \<open>
  Jobs of the physical layer and the two implementations of the queue between the sync workers, the
  application layer and the TX/RX workers: \<open>phy/pool/job_queue_naive.cpp\<close> with a ring of slots and
  \<open>job_queue_mc.cpp\<close>, which is compiled in and stores the jobs in a third-party container. That
  container is a parameter: \<open>try_enqueue\<close> with the one producer token of the queue, \<open>wait_dequeue\<close>
  with a timeout (\<open>None\<close> when nothing was found). The functions run under a lock; waiting on the
  condition variable is repeating the step that is modelled here. The counters of jobs are 64-bit
  integers in the code and \<open>int\<close> here. With \<open>JOB_SLOT_UNAVAILABILITY_FATAL_OR_DISCARD\<close> defined, as
  in the repository, an assertion fails when no slot is free. The report of a synchronised packet
  is of a type \<open>'s\<close>.
\<close>

record regular_report =
  chunk_time_end_64 :: int
  sync_time_last_64 :: int
  barrier_time_64 :: int

definition regular_report_new :: "int \<Rightarrow> int \<Rightarrow> regular_report" where
  "regular_report_new chunk_end sync_last = \<lparr>chunk_time_end_64 = chunk_end,
     sync_time_last_64 = sync_last, barrier_time_64 = max chunk_end sync_last\<rparr>"

record application_report =
  conn_idx :: int
  N_byte :: u32
  rx_time_opsys_64 :: int

datatype 's job_content =
  Monostate | Regular regular_report | Irregular irregular_report | Sync 's
| Application application_report

record 's job =
  contents :: "'s job_content"
  job_cnt :: int

definition job_new :: "'s job_content \<Rightarrow> 's job" where
  "job_new c = \<lparr>contents = c, job_cnt = 0\<rparr>"

subsection \<open>A ring of slots\<close>

record 's job_slot =
  slot_id :: u32
  slot_job :: "'s job"
  filled :: int
  processed :: int

record 's job_queue_naive =
  jq_capacity :: u32
  permeable :: bool
  fifo_cnt :: int
  enqueue_ptr :: u32
  dequeue_ptr :: u32
  job_slot_vec :: "'s job_slot list"
  job_slot_vec_cnt :: int

definition job_slot_new :: "u32 \<Rightarrow> 's job_slot" where
  "job_slot_new i = \<lparr>slot_id = i, slot_job = job_new Monostate, filled = 0, processed = 0\<rparr>"

definition naive_new :: "u32 \<Rightarrow> 's job_queue_naive" where
  "naive_new cap = \<lparr>jq_capacity = cap, permeable = False, fifo_cnt = 0, enqueue_ptr = 0, dequeue_ptr = 0,
     job_slot_vec = map (\<lambda>i. job_slot_new (of_nat i)) [0..<unat cap], job_slot_vec_cnt = 0\<rparr>"

definition naive_set_permeable :: "'s job_queue_naive \<Rightarrow> 's job_queue_naive" where
  "naive_set_permeable q = q\<lparr>permeable := True\<rparr>"

definition naive_set_impermeable :: "'s job_queue_naive \<Rightarrow> 's job_queue_naive" where
  "naive_set_impermeable q = q\<lparr>permeable := False\<rparr>"

definition naive_get_free :: "'s job_queue_naive \<Rightarrow> u32" where
  "naive_get_free q =
    (if dequeue_ptr q > enqueue_ptr q then dequeue_ptr q - enqueue_ptr q - 1
     else dequeue_ptr q + jq_capacity q - enqueue_ptr q - 1)"

definition naive_get_used :: "'s job_queue_naive \<Rightarrow> u32" where
  "naive_get_used q =
    (if enqueue_ptr q \<ge> dequeue_ptr q then enqueue_ptr q - dequeue_ptr q
     else enqueue_ptr q + jq_capacity q - dequeue_ptr q)"

text \<open>An access \<open>job_slot_vec[i]\<close> outside the vector is a fault.\<close>

definition on_slot :: "u32 \<Rightarrow> ('s job_slot \<Rightarrow> 's job_slot) \<Rightarrow> 's job_queue_naive \<Rightarrow> 's job_queue_naive res" where
  "on_slot i f q = (if unat i < length (job_slot_vec q)
     then Inr (q\<lparr>job_slot_vec := (job_slot_vec q)[unat i := f (job_slot_vec q ! unat i)]\<rparr>)
     else Inl Out_of_bounds_write)"

definition naive_enqueue_under_lock :: "'s job \<Rightarrow> 's job_queue_naive \<Rightarrow> (bool \<times> 's job_queue_naive) res" where
  "naive_enqueue_under_lock job q =
    (if naive_get_free q = 0 then Inl Assertion_failed
     else
       let job' = job\<lparr>job_cnt := fifo_cnt q\<rparr>; q1 = q\<lparr>fifo_cnt := fifo_cnt q + 1\<rparr> in
       bindE (on_slot (enqueue_ptr q1) (\<lambda>s. s\<lparr>slot_job := job'\<rparr>) q1) (\<lambda>q2.
       let q3 = q2\<lparr>job_slot_vec_cnt := job_slot_vec_cnt q2 + 1,
                  enqueue_ptr := (enqueue_ptr q2 + 1) mod jq_capacity q2\<rparr> in
       bindE (on_slot (enqueue_ptr q3) (\<lambda>s. s\<lparr>filled := filled s + 1\<rparr>) q3) (\<lambda>q4.
       Inr (True, q4))))"

definition naive_dequeue_under_lock :: "'s job_queue_naive \<Rightarrow> ('s job \<times> 's job_queue_naive) option res" where
  "naive_dequeue_under_lock q =
    (if naive_get_used q = 0 then Inr None
     else if unat (dequeue_ptr q) < length (job_slot_vec q) then
       let job = slot_job (job_slot_vec q ! unat (dequeue_ptr q));
           q1 = q\<lparr>job_slot_vec_cnt := job_slot_vec_cnt q - 1,
                  dequeue_ptr := (dequeue_ptr q + 1) mod jq_capacity q\<rparr> in
       bindE (on_slot (dequeue_ptr q1) (\<lambda>s. s\<lparr>processed := processed s + 1\<rparr>) q1) (\<lambda>q2.
       Inr (Some (job, q2)))
     else Inl Out_of_bounds_read)"

definition naive_enqueue_nto :: "'s job_content \<Rightarrow> 's job_queue_naive \<Rightarrow> (bool \<times> 's job_queue_naive) res" where
  "naive_enqueue_nto c q =
    (if \<not> permeable q then Inr (True, q) else bindE (naive_enqueue_under_lock (job_new c) q) Inr)"

text \<open>One round of \<open>wait_for_new_job_to\<close> with the lock held; \<open>None\<close> is waiting on.\<close>

definition naive_wait_for_new_job_to :: "'s job_queue_naive \<Rightarrow> ('s job \<times> 's job_queue_naive) option res" where
  "naive_wait_for_new_job_to q =
    (if job_slot_vec_cnt q = 0 then Inr None else naive_dequeue_under_lock q)"

subsection \<open>A concurrent container\<close>

record 'c job_queue_mc =
  mc_capacity :: u32
  mc_permeable :: bool
  mc_fifo_cnt :: int
  job_vec :: 'c

definition mc_new :: "(u32 \<Rightarrow> 'c) \<Rightarrow> u32 \<Rightarrow> 'c job_queue_mc res" where
  "mc_new container cap = assertE (cap \<ge> 32)
    (Inr \<lparr>mc_capacity = cap, mc_permeable = False, mc_fifo_cnt = 0, job_vec = container (cap * 6)\<rparr>)"

definition mc_set_permeable :: "'c job_queue_mc \<Rightarrow> 'c job_queue_mc" where
  "mc_set_permeable q = q\<lparr>mc_permeable := True\<rparr>"

definition mc_set_impermeable :: "'c job_queue_mc \<Rightarrow> 'c job_queue_mc" where
  "mc_set_impermeable q = q\<lparr>mc_permeable := False\<rparr>"

definition mc_enqueue_nto ::
  "('s job \<Rightarrow> 'c \<Rightarrow> 'c option) \<Rightarrow> 's job_content \<Rightarrow> 'c job_queue_mc \<Rightarrow> (bool \<times> 'c job_queue_mc) res" where
  "mc_enqueue_nto try_enqueue c q =
    (if \<not> mc_permeable q then Inr (True, q)
     else case try_enqueue ((job_new c)\<lparr>job_cnt := mc_fifo_cnt q\<rparr>) (job_vec q) of
       Some v \<Rightarrow> Inr (True, q\<lparr>job_vec := v, mc_fifo_cnt := mc_fifo_cnt q + 1\<rparr>)
     | None \<Rightarrow> Inl Assertion_failed)"

definition mc_wait_for_new_job_to ::
  "('c \<Rightarrow> ('s job \<times> 'c) option) \<Rightarrow> 'c job_queue_mc \<Rightarrow> ('s job \<times> 'c job_queue_mc) option res" where
  "mc_wait_for_new_job_to wait_dequeue q =
    (case wait_dequeue (job_vec q) of
       None \<Rightarrow> Inr None
     | Some (job, v) \<Rightarrow> Inr (Some (job, q\<lparr>job_vec := v\<rparr>)))"

subsection \<open>The contract of a job queue\<close>

text \<open>Jobs that were accepted are numbered consecutively and handed out in that order; a closed queue
swallows them.\<close>

definition numbered :: "int \<Rightarrow> 's job list \<Rightarrow> bool" where
  "numbered n js \<longleftrightarrow> (\<forall>i<length js. job_cnt (js ! i) = n - int (length js) + int i)"

lemma numbered_Nil [simp]: "numbered n []"
  by (simp add: numbered_def)

lemma numbered_snoc: "numbered n js \<Longrightarrow> job_cnt j = n \<Longrightarrow> numbered (n + 1) (js @ [j])"
  by (auto simp: numbered_def nth_append less_Suc_eq)

lemma numbered_Cons: "numbered n (j # js) \<Longrightarrow> numbered n js \<and> job_cnt j = n - 1 - int (length js)"
  unfolding numbered_def by (force dest: spec [of _ 0] spec [of _ "Suc _"])

locale job_queue =
  fixes inv :: "'q \<Rightarrow> bool" and jobs :: "'q \<Rightarrow> 's job list" and accepted_cnt :: "'q \<Rightarrow> int"
    and open_for :: "'q \<Rightarrow> bool" and enq :: "'s job_content \<Rightarrow> 'q \<Rightarrow> (bool \<times> 'q) res"
    and deq :: "'q \<Rightarrow> ('s job \<times> 'q) option res"
  assumes consecutive: "inv q \<Longrightarrow> numbered (accepted_cnt q) (jobs q)"
    and closed: "\<not> open_for q \<Longrightarrow> enq c q = Inr (True, q)"
    and enqueued: "inv q \<Longrightarrow> open_for q \<Longrightarrow> enq c q = Inr (b, q') \<Longrightarrow>
      b \<and> inv q' \<and> open_for q' \<and> accepted_cnt q' = accepted_cnt q + 1 \<and>
      jobs q' = jobs q @ [\<lparr>contents = c, job_cnt = accepted_cnt q\<rparr>]"
    and no_fault: "inv q \<Longrightarrow> enq c q = Inl e \<Longrightarrow> e = Assertion_failed"
    and dequeued: "inv q \<Longrightarrow> (case jobs q of
        [] \<Rightarrow> deq q = Inr None
      | j # js \<Rightarrow> \<exists>q'. deq q = Inr (Some (j, q')) \<and> inv q' \<and> open_for q' = open_for q \<and>
          accepted_cnt q' = accepted_cnt q \<and> jobs q' = js)"

subsection \<open>The ring of slots is a job queue\<close>

definition naive_jobs :: "'s job_queue_naive \<Rightarrow> 's job list" where
  "naive_jobs q = ring_list (map slot_job (job_slot_vec q)) (unat (dequeue_ptr q)) (unat (naive_get_used q))"

definition naive_inv :: "'s job_queue_naive \<Rightarrow> bool" where
  "naive_inv q \<longleftrightarrow> enqueue_ptr q < jq_capacity q \<and> dequeue_ptr q < jq_capacity q \<and>
     length (job_slot_vec q) = unat (jq_capacity q) \<and>
     job_slot_vec_cnt q = int (unat (naive_get_used q)) \<and> numbered (fifo_cnt q) (naive_jobs q)"

lemma naive_get_free_ring: "naive_get_free q = ring_free (jq_capacity q) (enqueue_ptr q) (dequeue_ptr q)"
  by (simp add: naive_get_free_def ring_free_def)

lemma naive_get_used_ring: "naive_get_used q = ring_used (jq_capacity q) (enqueue_ptr q) (dequeue_ptr q)"
  by (simp add: naive_get_used_def ring_used_def)

lemma length_naive_jobs [simp]: "length (naive_jobs q) = unat (naive_get_used q)"
  by (simp add: naive_jobs_def)

lemma naive_new_inv: "0 < cap \<Longrightarrow> naive_inv (naive_new cap) \<and> naive_jobs (naive_new cap) = []"
  by (simp add: naive_inv_def naive_new_def naive_jobs_def naive_get_used_def)

lemma naive_permeable_inv:
  "naive_inv q \<Longrightarrow> naive_inv (q\<lparr>permeable := b\<rparr>) \<and> naive_jobs (q\<lparr>permeable := b\<rparr>) = naive_jobs q"
  by (auto simp: naive_inv_def naive_jobs_def naive_get_used_def split: if_splits)

lemma naive_full:
  "naive_inv q \<Longrightarrow> length (naive_jobs q) = unat (jq_capacity q) - 1 \<Longrightarrow>
   naive_enqueue_under_lock j q = Inl Assertion_failed"
  using unat_ring_free [of "enqueue_ptr q" "jq_capacity q" "dequeue_ptr q"]
  by (simp add: naive_enqueue_under_lock_def naive_inv_def naive_get_free_ring naive_get_used_ring
      unat_eq_zero)

lemma naive_enqueue_ok:
  assumes "naive_inv q" "length (naive_jobs q) < unat (jq_capacity q) - 1"
  shows "\<exists>q'. naive_enqueue_under_lock j q = Inr (True, q') \<and> naive_inv q' \<and> permeable q' = permeable q \<and>
    jq_capacity q' = jq_capacity q \<and> fifo_cnt q' = fifo_cnt q + 1 \<and>
    naive_jobs q' = naive_jobs q @ [j\<lparr>job_cnt := fifo_cnt q\<rparr>]"
proof -
  let ?N = "jq_capacity q" and ?w = "enqueue_ptr q" and ?v = "job_slot_vec q"
  let ?w' = "(?w + 1) mod ?N" and ?j = "j\<lparr>job_cnt := fifo_cnt q\<rparr>"
  let ?v1 = "?v[unat ?w := (?v ! unat ?w)\<lparr>slot_job := ?j\<rparr>]"
  let ?v2 = "?v1[unat ?w' := (?v1 ! unat ?w')\<lparr>filled := filled (?v1 ! unat ?w') + 1\<rparr>]"
  let ?q' = "q\<lparr>fifo_cnt := fifo_cnt q + 1, job_slot_vec := ?v2, job_slot_vec_cnt := job_slot_vec_cnt q + 1,
    enqueue_ptr := ?w'\<rparr>"
  have i: "?w < ?N" "dequeue_ptr q < ?N" "length ?v = unat ?N" "unat ?w < length ?v"
    using assms(1) by (auto simp: naive_inv_def word_less_nat_alt)
  have w': "?w' < ?N" "unat ?w' < length ?v" using unat_ring_next [OF i(1)] i(3) by (auto simp: word_less_nat_alt)
  have f: "naive_get_free q \<noteq> 0"
    using assms(2) unat_ring_free [OF i(1,2)] by (auto simp: naive_get_free_ring naive_get_used_ring)
  have e: "naive_enqueue_under_lock j q = Inr (True, ?q')" using f i w'
    by (simp add: naive_enqueue_under_lock_def on_slot_def Let_def)
  have u: "unat (naive_get_used ?q') = Suc (unat (naive_get_used q))"
    using ring_used_write [OF i(1,2)] f by (simp add: naive_get_used_ring naive_get_free_ring)
  have m: "map slot_job ?v2 = (map slot_job ?v)[unat ?w := ?j]"
    using i w' by (auto simp: map_update nth_list_update list_eq_iff_nth_eq)
  have p: "unat ?w = (unat (dequeue_ptr q) + unat (naive_get_used q)) mod length ?v"
    using ring_position [OF i(1,2)] i(3) by (simp add: naive_get_used_ring)
  have js: "naive_jobs ?q' = naive_jobs q @ [?j]"
    using ring_list_snoc [of "unat (naive_get_used q)" "map slot_job ?v" "unat (dequeue_ptr q)" ?j]
      ring_used_less [OF i(1,2)] i(3) p u m
    by (simp add: naive_jobs_def naive_get_used_ring)
  moreover have "numbered (fifo_cnt q + 1) (naive_jobs q @ [?j])"
    using assms(1) by (auto simp: naive_inv_def intro!: numbered_snoc)
  ultimately have "naive_inv ?q'" using assms(1) i w' u unfolding naive_inv_def by simp
  with e js show ?thesis by auto
qed

lemma naive_dequeue_empty: "naive_jobs q = [] \<Longrightarrow> naive_dequeue_under_lock q = Inr None"
  by (simp add: naive_dequeue_under_lock_def naive_jobs_def unat_eq_zero)
    (metis length_0_conv length_ring_list unat_eq_zero)

lemma naive_dequeue_ok:
  assumes "naive_inv q" "naive_jobs q = j # js"
  shows "\<exists>q'. naive_dequeue_under_lock q = Inr (Some (j, q')) \<and> naive_inv q' \<and> permeable q' = permeable q \<and>
    jq_capacity q' = jq_capacity q \<and> fifo_cnt q' = fifo_cnt q \<and> naive_jobs q' = js"
proof -
  let ?N = "jq_capacity q" and ?r = "dequeue_ptr q" and ?v = "job_slot_vec q"
  let ?r' = "(?r + 1) mod ?N"
  let ?v' = "?v[unat ?r' := (?v ! unat ?r')\<lparr>processed := processed (?v ! unat ?r') + 1\<rparr>]"
  let ?q' = "q\<lparr>job_slot_vec := ?v', job_slot_vec_cnt := job_slot_vec_cnt q - 1, dequeue_ptr := ?r'\<rparr>"
  have i: "enqueue_ptr q < ?N" "?r < ?N" "length ?v = unat ?N" "unat ?r < length ?v"
    using assms(1) by (auto simp: naive_inv_def word_less_nat_alt)
  have r': "?r' < ?N" "unat ?r' < length ?v" using unat_ring_next [OF i(2)] i(3) by (auto simp: word_less_nat_alt)
  have "unat (naive_get_used q) \<noteq> 0" using arg_cong [OF assms(2), of length] by simp
  then have f: "naive_get_used q \<noteq> 0" by auto
  have u: "unat (naive_get_used q) = Suc (unat (naive_get_used ?q'))"
    using ring_used_read [OF i(1,2)] f by (simp add: naive_get_used_ring)
  have m: "map slot_job ?v' = map slot_job ?v"
    using r' by (auto simp: nth_list_update list_eq_iff_nth_eq)
  have "naive_jobs q = slot_job (?v ! unat ?r) # naive_jobs ?q'"
    using ring_list_Suc [of "map slot_job ?v" "unat ?r" "unat (naive_get_used ?q')"] i u m
      unat_ring_next(1) [OF i(2)]
    by (simp add: naive_jobs_def)
  then have j: "j = slot_job (?v ! unat ?r)" "js = naive_jobs ?q'" using assms(2) by auto
  have e: "naive_dequeue_under_lock q = Inr (Some (j, ?q'))" using f i r' j(1)
    by (simp add: naive_dequeue_under_lock_def on_slot_def Let_def)
  have "numbered (fifo_cnt q) js" using assms numbered_Cons by (auto simp: naive_inv_def)
  then have "numbered (fifo_cnt q) (naive_jobs ?q')" by (simp only: j(2))
  moreover have "job_slot_vec_cnt q - 1 = int (unat (naive_get_used ?q'))"
    using assms(1) u by (simp only: naive_inv_def) simp
  ultimately have "naive_inv ?q'" using i r' unfolding naive_inv_def by simp
  with e show ?thesis using j(2) by auto
qed

lemma naive_jobs_bound: "naive_inv q \<Longrightarrow> length (naive_jobs q) \<le> unat (jq_capacity q) - 1"
  using ring_used_less [of "enqueue_ptr q" "jq_capacity q" "dequeue_ptr q"]
  by (auto simp: naive_inv_def naive_get_used_ring)

lemma naive_enqueue_cases:
  assumes "naive_inv q" "permeable q"
  shows "length (naive_jobs q) = unat (jq_capacity q) - 1 \<and> naive_enqueue_nto c q = Inl Assertion_failed \<or>
    length (naive_jobs q) < unat (jq_capacity q) - 1 \<and>
    (\<exists>q'. naive_enqueue_nto c q = Inr (True, q') \<and> naive_inv q' \<and> permeable q' \<and>
      jq_capacity q' = jq_capacity q \<and> fifo_cnt q' = fifo_cnt q + 1 \<and>
      naive_jobs q' = naive_jobs q @ [\<lparr>contents = c, job_cnt = fifo_cnt q\<rparr>])"
proof (cases "length (naive_jobs q) = unat (jq_capacity q) - 1")
  case True
  with naive_full [OF assms(1) True, of "job_new c"] assms(2) show ?thesis
    by (simp add: naive_enqueue_nto_def)
next
  case False
  then have "length (naive_jobs q) < unat (jq_capacity q) - 1" using naive_jobs_bound [OF assms(1)] by simp
  with naive_enqueue_ok [OF assms(1) this, of "job_new c"] assms(2) show ?thesis
    by (auto simp: naive_enqueue_nto_def job_new_def)
qed

interpretation nq: job_queue naive_inv naive_jobs fifo_cnt permeable naive_enqueue_nto naive_wait_for_new_job_to
proof (unfold_locales, goal_cases)
  case (1 q)
  then show ?case by (simp add: naive_inv_def)
next
  case (2 q c)
  then show ?case by (simp add: naive_enqueue_nto_def)
next
  case (3 q c b q')
  then show ?case using naive_enqueue_cases [of q c] by auto
next
  case (4 q c e)
  then show ?case using naive_enqueue_cases [of q c]
    by (cases "permeable q") (auto simp: naive_enqueue_nto_def)
next
  case (5 q)
  then show ?case
  proof (cases "naive_jobs q")
    case Nil
    then show ?thesis by (simp add: naive_wait_for_new_job_to_def naive_dequeue_empty)
  next
    case (Cons j js)
    then have "unat (naive_get_used q) = Suc (length js)" by (metis length_naive_jobs length_Cons)
    then have "job_slot_vec_cnt q \<noteq> 0" using 5 by (simp add: naive_inv_def)
    then show ?thesis using naive_dequeue_ok [OF 5 Cons] Cons by (auto simp: naive_wait_for_new_job_to_def)
  qed
qed

end
