(* ===== verification/Token.thy ===== *)
theory Token
  imports Irregular_Queue
begin

text \<open>
  The token (\<open>phy/pool/token.cpp\<close>): a mutex with which the TX/RX workers of up to four pools call
  one firmware, in the order of the numbers of their jobs. A call of \<open>lock\<close> is possible when the
  mutex is free; \<open>token_fifo_turn\<close> is one round of the loop of \<open>lock_fifo_to\<close>, which runs with the
  mutex and releases it before \<open>lock\<close> is called.
\<close>

definition max_nof_radio_phy_pairs_one_tpoint :: u32 where
  "max_nof_radio_phy_pairs_one_tpoint = 4"

record token =
  locked :: bool
  token_cnt :: "int list"
  id_holder :: u32

definition token_new :: "u32 \<Rightarrow> token res" where
  "token_new n_pools =
    assertE (n_pools \<le> max_nof_radio_phy_pairs_one_tpoint)
      (Inr \<lparr>locked = False,
        token_cnt = replicate (unat n_pools) 0 @
          replicate (unat max_nof_radio_phy_pairs_one_tpoint - unat n_pools) undefined_late,
        id_holder = max_nof_radio_phy_pairs_one_tpoint\<rparr>)"

definition token_fifo_turn :: "u32 \<Rightarrow> int \<Rightarrow> token \<Rightarrow> bool res" where
  "token_fifo_turn id_caller cnt t =
    (if unat id_caller < length (token_cnt t)
     then assertE (token_cnt t ! unat id_caller \<le> cnt) (Inr (token_cnt t ! unat id_caller = cnt))
     else Inl Out_of_bounds_read)"

definition token_lock :: "u32 \<Rightarrow> token \<Rightarrow> token res" where
  "token_lock id_caller t =
    assertE (id_holder t \<ge> max_nof_radio_phy_pairs_one_tpoint)
      (Inr (t\<lparr>locked := True, id_holder := id_caller\<rparr>))"

definition token_try_lock :: "u32 \<Rightarrow> token \<Rightarrow> (bool \<times> token) res" where
  "token_try_lock id_caller t =
    (if locked t then Inr (False, t)
     else assertE (id_holder t \<ge> max_nof_radio_phy_pairs_one_tpoint)
       (Inr (True, t\<lparr>locked := True, id_holder := id_caller\<rparr>)))"

definition token_unlock :: "token \<Rightarrow> token" where
  "token_unlock t = t\<lparr>id_holder := max_nof_radio_phy_pairs_one_tpoint, locked := False\<rparr>"

definition token_unlock_fifo :: "token \<Rightarrow> token res" where
  "token_unlock_fifo t =
    assertE (id_holder t < max_nof_radio_phy_pairs_one_tpoint)
      (if unat (id_holder t) < length (token_cnt t)
       then Inr (token_unlock (t\<lparr>token_cnt :=
         (token_cnt t)[unat (id_holder t) := token_cnt t ! unat (id_holder t) + 1]\<rparr>))
       else Inl Out_of_bounds_write)"

definition get_id_holder :: "token \<Rightarrow> u32 res" where
  "get_id_holder t = assertE (id_holder t < max_nof_radio_phy_pairs_one_tpoint) (Inr (id_holder t))"

end
