(* ===== verification/Job_Pipeline.thy ===== *)
theory Job_Pipeline
  imports Job_Queue Token
begin

text \<open>
  The way of a job through the physical layer (\<open>phy/pool/worker_tx_rx.cpp\<close>): producers enqueue jobs
  in the queue of a pool, the TX/RX workers of the pool take them out, wait for their turn and call
  the firmware while they hold the token. Every atomic step of every thread is an \<open>action\<close>, so that
  the reachable states cover all interleavings. The queue is given by its operations; it is
  instantiated with both implementations of \<open>Job_Queue\<close>. A producer checks that the queue is permeable
  and enqueues in one step. The token that the last sync worker to register takes to announce the start
  of the work (\<open>phy/pool/baton.cpp\<close>) is left out: it is released before a queue becomes permeable.
\<close>

record ('q, 's) queue_ops =
  q_enq :: "'s job_content \<Rightarrow> 'q \<Rightarrow> (bool \<times> 'q) res"
  q_deq :: "'q \<Rightarrow> ('s job \<times> 'q) option res"
  q_set_permeable :: "bool \<Rightarrow> 'q \<Rightarrow> 'q"
  q_permeable :: "'q \<Rightarrow> bool"

text \<open>
  Where a TX/RX worker is in \<open>work\<close>: waiting for a job; in \<open>lock_fifo_to\<close> before and after the check
  of the number; calling the firmware with the token; after \<open>unlock_fifo\<close>; calling the firmware
  with the token once more (\<open>work_pdc\<close>, \<open>work_pdc_error\<close>, \<open>work_channel\<close>); emptying the queue at
  the end; returned.
\<close>

datatype 's phase =
  Idle | Waiting "'s job" | Turn "'s job" | Serving "'s job" | After "'s job" | Holding "'s job"
| Draining | Returned

text \<open>\<open>arrivals\<close> and \<open>served\<close> are history variables: the jobs that a pool has accepted, and those with
which its workers have called the firmware in their turn.\<close>

record ('q, 's) pipeline =
  queues :: "'q list"
  token :: token
  workers :: "nat \<Rightarrow> 's phase"
  keep_running :: bool
  arrivals :: "'s job list list"
  served :: "'s job list list"

datatype 's action =
  Enqueue nat "'s job_content" | Permeable nat bool | Dequeue nat | Check nat | Lock nat
| Unlock_fifo nat | Lock_again nat | Unlock nat | Finish nat | Stop | Leave nat | Drain nat

definition set_worker :: "nat \<Rightarrow> 's phase \<Rightarrow> ('q, 's) pipeline \<Rightarrow> ('q, 's) pipeline" where
  "set_worker w ph s = s\<lparr>workers := (workers s)(w := ph)\<rparr>"

definition set_queue :: "nat \<Rightarrow> 'q \<Rightarrow> ('q, 's) pipeline \<Rightarrow> ('q, 's) pipeline" where
  "set_queue p q s = s\<lparr>queues := (queues s)[p := q]\<rparr>"

definition arrive :: "nat \<Rightarrow> 's job_content \<Rightarrow> ('q, 's) pipeline \<Rightarrow> ('q, 's) pipeline" where
  "arrive p c s = s\<lparr>arrivals := (arrivals s)[p :=
     arrivals s ! p @ [\<lparr>contents = c, job_cnt = int (length (arrivals s ! p))\<rparr>]]\<rparr>"

definition serve :: "nat \<Rightarrow> 's job \<Rightarrow> ('q, 's) pipeline \<Rightarrow> ('q, 's) pipeline" where
  "serve p j s = s\<lparr>served := (served s)[p := served s ! p @ [j]]\<rparr>"

text \<open>
  \<open>pl\<close> lists the pool of each worker, which is also its \<open>token_call_id\<close>. \<open>None\<close> says that the action
  is not possible in the state, because the thread is elsewhere or blocked by the token.
\<close>

fun exec_worker :: "('q, 's) queue_ops \<Rightarrow> nat \<Rightarrow> nat \<Rightarrow> 's action \<Rightarrow> ('q, 's) pipeline \<Rightarrow>
    ('q, 's) pipeline res option" where
  "exec_worker Q w p (Dequeue _) s = (case workers s w of
     Idle \<Rightarrow> Some (bindE (q_deq Q (queues s ! p)) (\<lambda>r. Inr (case r of
       None \<Rightarrow> s
     | Some (j, q) \<Rightarrow> set_worker w (Waiting j) (set_queue p q s))))
   | _ \<Rightarrow> None)"
| "exec_worker Q w p (Check _) s = (case workers s w of
     Waiting j \<Rightarrow> if contents j = Monostate then Some (Inl Assertion_failed)
       else if locked (token s) then None
       else Some (bindE (token_fifo_turn (of_nat p) (job_cnt j) (token s)) (\<lambda>turn.
         Inr (if turn then set_worker w (Turn j) s else s)))
   | _ \<Rightarrow> None)"
| "exec_worker Q w p (Lock _) s = (case workers s w of
     Turn j \<Rightarrow> if locked (token s) then None
       else Some (bindE (token_lock (of_nat p) (token s)) (\<lambda>t.
         Inr (serve p j (set_worker w (Serving j) (s\<lparr>token := t\<rparr>)))))
   | _ \<Rightarrow> None)"
| "exec_worker Q w p (Unlock_fifo _) s = (case workers s w of
     Serving j \<Rightarrow> Some (bindE (token_unlock_fifo (token s)) (\<lambda>t.
       Inr (set_worker w (After j) (s\<lparr>token := t\<rparr>))))
   | _ \<Rightarrow> None)"
| "exec_worker Q w p (Lock_again _) s = (case workers s w of
     After j \<Rightarrow> if locked (token s) then None
       else Some (bindE (token_lock (of_nat p) (token s)) (\<lambda>t.
         Inr (set_worker w (Holding j) (s\<lparr>token := t\<rparr>))))
   | _ \<Rightarrow> None)"
| "exec_worker Q w p (Unlock _) s = (case workers s w of
     Holding j \<Rightarrow> Some (Inr (set_worker w (After j) (s\<lparr>token := token_unlock (token s)\<rparr>)))
   | _ \<Rightarrow> None)"
| "exec_worker Q w p (Finish _) s = (case workers s w of
     After j \<Rightarrow> Some (Inr (set_worker w Idle s))
   | _ \<Rightarrow> None)"
| "exec_worker Q w p (Leave _) s = (if keep_running s then None else case workers s w of
     Waiting j \<Rightarrow> Some (Inr (set_worker w Returned s))
   | Idle \<Rightarrow> Some (Inr (set_worker w Draining s))
   | Draining \<Rightarrow> Some (Inr (set_worker w Returned s))
   | _ \<Rightarrow> None)"
| "exec_worker Q w p (Drain _) s = (case workers s w of
     Draining \<Rightarrow> Some (bindE (q_deq Q (queues s ! p)) (\<lambda>r. Inr (case r of
       None \<Rightarrow> s
     | Some (j, q) \<Rightarrow> set_queue p q s)))
   | _ \<Rightarrow> None)"
| "exec_worker Q w p _ s = None"

fun worker_of :: "'s action \<Rightarrow> nat option" where
  "worker_of (Enqueue p c) = None"
| "worker_of (Permeable p b) = None"
| "worker_of Stop = None"
| "worker_of (Dequeue w) = Some w"
| "worker_of (Check w) = Some w"
| "worker_of (Lock w) = Some w"
| "worker_of (Unlock_fifo w) = Some w"
| "worker_of (Lock_again w) = Some w"
| "worker_of (Unlock w) = Some w"
| "worker_of (Finish w) = Some w"
| "worker_of (Leave w) = Some w"
| "worker_of (Drain w) = Some w"

definition exec :: "('q, 's) queue_ops \<Rightarrow> nat list \<Rightarrow> 's action \<Rightarrow> ('q, 's) pipeline \<Rightarrow>
    ('q, 's) pipeline res option" where
  "exec Q pl a s = (case a of
     Enqueue p c \<Rightarrow> if p < length (queues s) \<and> c \<noteq> Monostate
       then Some (bindE (q_enq Q c (queues s ! p)) (\<lambda>(b, q). Inr (set_queue p q
         (if q_permeable Q (queues s ! p) then arrive p c s else s))))
       else None
   | Permeable p b \<Rightarrow> if p < length (queues s)
       then Some (Inr (set_queue p (q_set_permeable Q b (queues s ! p)) s)) else None
   | Stop \<Rightarrow> Some (Inr (s\<lparr>keep_running := False\<rparr>))
   | _ \<Rightarrow> (case worker_of a of
       Some w \<Rightarrow> if w < length pl \<and> pl ! w < length (queues s) then exec_worker Q w (pl ! w) a s else None
     | None \<Rightarrow> None))"

definition pipeline_new :: "'q list \<Rightarrow> ('q, 's) pipeline res" where
  "pipeline_new qs = bindE (token_new (of_nat (length qs))) (\<lambda>t.
     Inr \<lparr>queues = qs, token = t, workers = (\<lambda>_. Idle), keep_running = True,
       arrivals = replicate (length qs) [], served = replicate (length qs) []\<rparr>)"

inductive reachable :: "('q, 's) queue_ops \<Rightarrow> nat list \<Rightarrow> 'q list \<Rightarrow> ('q, 's) pipeline \<Rightarrow> bool"
  for Q pl qs where
  start: "pipeline_new qs = Inr s \<Longrightarrow> reachable Q pl qs s"
| step: "reachable Q pl qs s \<Longrightarrow> exec Q pl a s = Some (Inr s') \<Longrightarrow> reachable Q pl qs s'"

subsection \<open>Invariant of a pool\<close>

fun own :: "'s phase \<Rightarrow> 's job option" where
  "own (Waiting j) = Some j"
| "own (Turn j) = Some j"
| "own (Serving j) = Some j"
| "own _ = None"

fun its_turn :: "'s phase \<Rightarrow> bool" where
  "its_turn (Turn j) = True"
| "its_turn (Serving j) = True"
| "its_turn _ = False"

fun serving :: "'s phase \<Rightarrow> bool" where
  "serving (Serving j) = True"
| "serving _ = False"

fun holds :: "'s phase \<Rightarrow> bool" where
  "holds (Serving j) = True"
| "holds (Holding j) = True"
| "holds _ = False"

lemma serving_own: "serving ph \<Longrightarrow> its_turn ph \<and> holds ph \<and> own ph \<noteq> None"
  by (cases ph) auto

definition in_pool :: "nat list \<Rightarrow> nat \<Rightarrow> nat \<Rightarrow> bool" where
  "in_pool pl p w \<longleftrightarrow> w < length pl \<and> pl ! w = p"

text \<open>
  A pool has accepted \<open>arr\<close>, numbered from 0 and each of a defined kind; \<open>d\<close> jobs have left the queue, \<open>m\<close> of them have been
  dealt with. The others belong to one worker each, as long as none has returned.
\<close>

definition numbers :: "'s job list \<Rightarrow> bool" where
  "numbers arr \<longleftrightarrow> (\<forall>i<length arr. job_cnt (arr ! i) = int i \<and> contents (arr ! i) \<noteq> Monostate)"

definition pool_ok :: "(nat \<Rightarrow> bool) \<Rightarrow> bool \<Rightarrow> 's job list \<Rightarrow> nat \<Rightarrow> nat \<Rightarrow> (nat \<Rightarrow> 's phase) \<Rightarrow> bool" where
  "pool_ok W keep arr d m ph \<longleftrightarrow> numbers arr \<and> m \<le> d \<and> d \<le> length arr \<and>
     (\<forall>w j. W w \<longrightarrow> own (ph w) = Some j \<longrightarrow> (\<exists>i. m \<le> i \<and> i < d \<and> j = arr ! i \<and> (its_turn (ph w) \<longrightarrow> i = m))) \<and>
     (\<forall>w w' j. W w \<longrightarrow> W w' \<longrightarrow> own (ph w) = Some j \<longrightarrow> own (ph w') = Some j \<longrightarrow> w = w') \<and>
     (keep \<longrightarrow> (\<forall>i. m \<le> i \<longrightarrow> i < d \<longrightarrow> (\<exists>w. W w \<and> own (ph w) = Some (arr ! i))))"

lemma numbers_inj: "numbers arr \<Longrightarrow> i < length arr \<Longrightarrow> k < length arr \<Longrightarrow> arr ! i = arr ! k \<longleftrightarrow> i = k"
  unfolding numbers_def by (metis of_nat_eq_iff)

lemma pool_okI:
  assumes "numbers arr" "m \<le> d" "d \<le> length arr"
    and "\<And>w j. W w \<Longrightarrow> own (ph w) = Some j \<Longrightarrow> \<exists>i. m \<le> i \<and> i < d \<and> j = arr ! i \<and> (its_turn (ph w) \<longrightarrow> i = m)"
    and "\<And>w w' j. W w \<Longrightarrow> W w' \<Longrightarrow> own (ph w) = Some j \<Longrightarrow> own (ph w') = Some j \<Longrightarrow> w = w'"
    and "\<And>i. keep \<Longrightarrow> m \<le> i \<Longrightarrow> i < d \<Longrightarrow> \<exists>w. W w \<and> own (ph w) = Some (arr ! i)"
  shows "pool_ok W keep arr d m ph"
  using assms unfolding pool_ok_def by blast

lemma pool_okD:
  assumes "pool_ok W keep arr d m ph"
  shows pool_ok_bounds: "numbers arr" "m \<le> d" "d \<le> length arr"
    and pool_ok_owner: "W w \<Longrightarrow> own (ph w) = Some j \<Longrightarrow>
      \<exists>i. m \<le> i \<and> i < d \<and> j = arr ! i \<and> (its_turn (ph w) \<longrightarrow> i = m)"
    and pool_ok_unique: "W w \<Longrightarrow> W w' \<Longrightarrow> own (ph w) = Some j \<Longrightarrow> own (ph w') = Some j \<Longrightarrow> w = w'"
    and pool_ok_cover: "keep \<Longrightarrow> m \<le> i \<Longrightarrow> i < d \<Longrightarrow> \<exists>w. W w \<and> own (ph w) = Some (arr ! i)"
  using assms unfolding pool_ok_def by blast+

lemma pool_ok_change:
  assumes "pool_ok W keep arr d m ph"
    and "\<And>w. W w \<Longrightarrow> own (ph' w) = own (ph w) \<and> (its_turn (ph' w) \<longrightarrow> its_turn (ph w))"
  shows "pool_ok W keep arr d m ph'"
proof (rule pool_okI)
  fix w j assume "W w" "own (ph' w) = Some j"
  then show "\<exists>i. m \<le> i \<and> i < d \<and> j = arr ! i \<and> (its_turn (ph' w) \<longrightarrow> i = m)"
    using pool_ok_owner [OF assms(1), of w j] assms(2) [of w] by auto
next
  fix w w' j assume "W w" "W w'" "own (ph' w) = Some j" "own (ph' w') = Some j"
  then show "w = w'" using pool_ok_unique [OF assms(1), of w w' j] assms(2) by auto
next
  fix i assume "keep" "m \<le> i" "i < d"
  then show "\<exists>w. W w \<and> own (ph' w) = Some (arr ! i)"
    using pool_ok_cover [OF assms(1), of i] assms(2) by auto
qed (rule pool_ok_bounds [OF assms(1)])+

lemma pool_ok_arrive:
  assumes "pool_ok W keep arr d m ph" "job_cnt j = int (length arr)" "contents j \<noteq> Monostate"
  shows "pool_ok W keep (arr @ [j]) d m ph"
proof (rule pool_okI)
  note b = pool_ok_bounds [OF assms(1)]
  show "numbers (arr @ [j])" using b(1) assms(2,3) by (auto simp: numbers_def nth_append less_Suc_eq)
  show "m \<le> d" "d \<le> length (arr @ [j])" using b by auto
  have n: "i < d \<Longrightarrow> (arr @ [j]) ! i = arr ! i" for i using b(3) by (simp add: nth_append)
  show "\<exists>i. m \<le> i \<and> i < d \<and> x = (arr @ [j]) ! i \<and> (its_turn (ph w) \<longrightarrow> i = m)"
    if "W w" "own (ph w) = Some x" for w x
    using pool_ok_owner [OF assms(1) that] n by auto
  show "\<exists>w. W w \<and> own (ph w) = Some ((arr @ [j]) ! i)" if keep "m \<le> i" "i < d" for i
    using pool_ok_cover [OF assms(1) that] n [OF that(3)] by simp
qed (rule pool_ok_unique [OF assms(1)])

lemma pool_ok_stop: "pool_ok W keep arr d m ph \<Longrightarrow> pool_ok W False arr d m ph"
  unfolding pool_ok_def by blast

lemma pool_ok_take:
  assumes "pool_ok W keep arr d m ph" "W w" "own (ph w) = None" "d < length arr" "own ph' = Some (arr ! d)"
    "\<not> its_turn ph'"
  shows "pool_ok W keep arr (Suc d) m (ph(w := ph'))"
proof (rule pool_okI)
  note b = pool_ok_bounds [OF assms(1)]
  have o: "own (ph v) \<noteq> Some (arr ! d)" if v: "W v" for v
  proof
    assume "own (ph v) = Some (arr ! d)"
    then obtain i where "i < d" "arr ! d = arr ! i" using pool_ok_owner [OF assms(1) v] by auto
    then show False using numbers_inj [OF b(1), of i d] assms(4) by auto
  qed
  show "\<exists>i. m \<le> i \<and> i < Suc d \<and> j = arr ! i \<and> (its_turn ((ph(w := ph')) v) \<longrightarrow> i = m)"
    if "W v" "own ((ph(w := ph')) v) = Some j" for v j
    using that assms(5,6) b(2) pool_ok_owner [OF assms(1) that(1), of j]
    by (cases "v = w") (auto intro: less_SucI)
  show "v = v'" if "W v" "W v'" "own ((ph(w := ph')) v) = Some j" "own ((ph(w := ph')) v') = Some j" for v v' j
    using that assms(5) o pool_ok_unique [OF assms(1) that(1,2)] by (cases "v = w"; cases "v' = w") auto
  show "\<exists>v. W v \<and> own ((ph(w := ph')) v) = Some (arr ! i)" if i: keep "m \<le> i" "i < Suc d" for i
  proof (cases "i = d")
    case True
    then show ?thesis using assms(2,5) by auto
  next
    case False
    then obtain v where "W v" "own (ph v) = Some (arr ! i)" using pool_ok_cover [OF assms(1) i(1,2)] i(3) by auto
    moreover from this have "v \<noteq> w" using assms(3) by auto
    ultimately show ?thesis by auto
  qed
qed (use pool_ok_bounds [OF assms(1)] assms(4) in auto)

lemma pool_ok_drop: "pool_ok W False arr d m ph \<Longrightarrow> d < length arr \<Longrightarrow> pool_ok W False arr (Suc d) m ph"
  by (rule pool_okI) (auto dest: pool_ok_bounds pool_ok_owner pool_ok_unique intro: less_SucI)

lemma pool_ok_turn:
  assumes "pool_ok W keep arr d m ph" "W w" "own (ph w) = Some j" "own ph' = Some j" "job_cnt j = int m"
  shows "pool_ok W keep arr d m (ph(w := ph'))"
proof (rule pool_okI)
  note b = pool_ok_bounds [OF assms(1)]
  obtain i where i: "m \<le> i" "i < d" "j = arr ! i" using pool_ok_owner [OF assms(1-3)] by auto
  then have e: "i = m" using b assms(5) by (auto simp: numbers_def)
  show "\<exists>i. m \<le> i \<and> i < d \<and> x = arr ! i \<and> (its_turn ((ph(w := ph')) v) \<longrightarrow> i = m)"
    if "W v" "own ((ph(w := ph')) v) = Some x" for v x
    using that assms(4) i e pool_ok_owner [OF assms(1) that(1), of x] by (cases "v = w") auto
  show "v = v'" if "W v" "W v'" "own ((ph(w := ph')) v) = Some x" "own ((ph(w := ph')) v') = Some x" for v v' x
    using that assms(2-4) pool_ok_unique [OF assms(1) that(1,2)] pool_ok_unique [OF assms(1) assms(2) that(1)]
      pool_ok_unique [OF assms(1) assms(2) that(2)] by (cases "v = w"; cases "v' = w") auto
  show "\<exists>v. W v \<and> own ((ph(w := ph')) v) = Some (arr ! k)" if keep "m \<le> k" "k < d" for k
    using pool_ok_cover [OF assms(1) that] assms(3,4) by (metis fun_upd_apply)
qed (rule pool_ok_bounds [OF assms(1)])+

lemma pool_ok_leave:
  assumes "pool_ok W keep arr d m ph" "own ph' = None"
  shows "pool_ok W False arr d m (ph(w := ph'))"
proof (rule pool_okI)
  show "\<exists>i. m \<le> i \<and> i < d \<and> x = arr ! i \<and> (its_turn ((ph(w := ph')) v) \<longrightarrow> i = m)"
    if "W v" "own ((ph(w := ph')) v) = Some x" for v x
    using that assms(2) pool_ok_owner [OF assms(1) that(1), of x] by (cases "v = w") auto
  show "v = v'" if "W v" "W v'" "own ((ph(w := ph')) v) = Some x" "own ((ph(w := ph')) v') = Some x" for v v' x
    using that assms(2) pool_ok_unique [OF assms(1) that(1,2)] by (cases "v = w"; cases "v' = w") auto
qed (use pool_ok_bounds [OF assms(1)] in auto)

lemma pool_ok_served:
  assumes "pool_ok W keep arr d m ph" "W w" "own (ph w) = Some j" "its_turn (ph w)" "own ph' = None"
  shows "pool_ok W keep arr d (Suc m) (ph(w := ph'))"
proof (rule pool_okI)
  note b = pool_ok_bounds [OF assms(1)]
  have j: "j = arr ! m" "m < d" using pool_ok_owner [OF assms(1-3)] assms(4) by auto
  show "numbers arr" "Suc m \<le> d" "d \<le> length arr" using b j by auto
  show "\<exists>i. Suc m \<le> i \<and> i < d \<and> x = arr ! i \<and> (its_turn ((ph(w := ph')) v) \<longrightarrow> i = Suc m)"
    if v: "W v" "own ((ph(w := ph')) v) = Some x" for v x
  proof -
    have w: "v \<noteq> w" "own (ph v) = Some x" using v(2) assms(5) by (auto split: if_splits)
    then obtain i where i: "m \<le> i" "i < d" "x = arr ! i" "its_turn (ph v) \<longrightarrow> i = m"
      using pool_ok_owner [OF assms(1) v(1)] by auto
    have "i \<noteq> m" using pool_ok_unique [OF assms(1) v(1) assms(2) w(2)] assms(3) j(1) i(3) w(1) by auto
    with i w(1) show ?thesis by (intro exI [of _ i]) auto
  qed
  show "v = v'" if "W v" "W v'" "own ((ph(w := ph')) v) = Some x" "own ((ph(w := ph')) v') = Some x" for v v' x
    using that assms(5) pool_ok_unique [OF assms(1) that(1,2)] by (cases "v = w"; cases "v' = w") auto
  show "\<exists>v. W v \<and> own ((ph(w := ph')) v) = Some (arr ! i)" if i: keep "Suc m \<le> i" "i < d" for i
  proof -
    obtain v where v: "W v" "own (ph v) = Some (arr ! i)" using pool_ok_cover [OF assms(1) i(1) Suc_leD [OF i(2)] i(3)] by auto
    moreover have "arr ! i \<noteq> arr ! m" using numbers_inj [OF b(1), of i m] i b(3) j(2) by auto
    ultimately have "v \<noteq> w" using assms(3) j(1) by auto
    with v show ?thesis by auto
  qed
qed

subsection \<open>Invariant of the pipeline\<close>

definition token_ok :: "nat list \<Rightarrow> (nat \<Rightarrow> 's phase) \<Rightarrow> token \<Rightarrow> bool" where
  "token_ok pl ph t \<longleftrightarrow> length (token_cnt t) = 4 \<and>
     (if locked t
      then \<exists>w<length pl. holds (ph w) \<and> id_holder t = of_nat (pl ! w) \<and> (\<forall>v<length pl. holds (ph v) \<longrightarrow> v = w)
      else id_holder t = 4 \<and> (\<forall>v<length pl. \<not> holds (ph v)))"

definition nof_serving :: "nat list \<Rightarrow> nat \<Rightarrow> (nat \<Rightarrow> 's phase) \<Rightarrow> nat" where
  "nof_serving pl p ph = of_bool (\<exists>w. in_pool pl p w \<and> serving (ph w))"

definition pool_inv :: "('q \<Rightarrow> bool) \<Rightarrow> ('q \<Rightarrow> 's job list) \<Rightarrow> ('q \<Rightarrow> int) \<Rightarrow> nat list \<Rightarrow> nat \<Rightarrow>
    ('q, 's) pipeline \<Rightarrow> bool" where
  "pool_inv I J C pl p s \<longleftrightarrow> I (queues s ! p) \<and> C (queues s ! p) = int (length (arrivals s ! p)) \<and>
     (\<exists>d m. J (queues s ! p) = drop d (arrivals s ! p) \<and> token_cnt (token s) ! p = int m \<and>
       pool_ok (in_pool pl p) (keep_running s) (arrivals s ! p) d m (workers s) \<and>
       served s ! p = take (m + nof_serving pl p (workers s)) (arrivals s ! p))"

lemma pool_invI:
  "I (queues s ! p) \<Longrightarrow> C (queues s ! p) = int (length (arrivals s ! p)) \<Longrightarrow>
   J (queues s ! p) = drop d (arrivals s ! p) \<Longrightarrow> token_cnt (token s) ! p = int m \<Longrightarrow>
   pool_ok (in_pool pl p) (keep_running s) (arrivals s ! p) d m (workers s) \<Longrightarrow>
   served s ! p = take (m + nof_serving pl p (workers s)) (arrivals s ! p) \<Longrightarrow> pool_inv I J C pl p s"
  unfolding pool_inv_def by blast

lemma pool_invE:
  assumes "pool_inv I J C pl p s"
  obtains d m where "I (queues s ! p)" "C (queues s ! p) = int (length (arrivals s ! p))"
    "J (queues s ! p) = drop d (arrivals s ! p)" "token_cnt (token s) ! p = int m"
    "pool_ok (in_pool pl p) (keep_running s) (arrivals s ! p) d m (workers s)"
    "served s ! p = take (m + nof_serving pl p (workers s)) (arrivals s ! p)"
  using assms unfolding pool_inv_def by blast

definition pipe_inv :: "('q \<Rightarrow> bool) \<Rightarrow> ('q \<Rightarrow> 's job list) \<Rightarrow> ('q \<Rightarrow> int) \<Rightarrow> nat list \<Rightarrow>
    ('q, 's) pipeline \<Rightarrow> bool" where
  "pipe_inv I J C pl s \<longleftrightarrow> length (queues s) \<le> 4 \<and> length (arrivals s) = length (queues s) \<and>
     length (served s) = length (queues s) \<and> token_ok pl (workers s) (token s) \<and>
     (\<forall>w<length pl. workers s w \<in> {Draining, Returned} \<longrightarrow> \<not> keep_running s) \<and>
     (\<forall>p<length (queues s). pool_inv I J C pl p s)"

lemma token_ok_change: "token_ok pl ph t \<Longrightarrow> holds ph' = holds (ph w) \<Longrightarrow> token_ok pl (ph(w := ph')) t"
  unfolding token_ok_def by (cases "locked t") (simp_all, metis)

lemma nof_serving_change:
  "serving ph' = serving (ph w) \<Longrightarrow> nof_serving pl p (ph(w := ph')) = nof_serving pl p ph"
  unfolding nof_serving_def by (metis fun_upd_apply)

lemma nof_serving_cong: "(\<And>w. in_pool pl p w \<Longrightarrow> ph w = ph' w) \<Longrightarrow> nof_serving pl p ph = nof_serving pl p ph'"
  unfolding nof_serving_def by metis

lemma token_unlocked:
  "token_ok pl ph t \<Longrightarrow> \<not> locked t \<Longrightarrow> id_holder t = 4 \<and> nof_serving pl p ph = 0 \<and> (\<forall>v<length pl. \<not> holds (ph v))"
  using serving_own by (fastforce simp: token_ok_def nof_serving_def in_pool_def)

lemma token_held:
  assumes "token_ok pl ph t" "w < length pl" "holds (ph w)"
  shows "locked t \<and> id_holder t = of_nat (pl ! w) \<and> (\<forall>v<length pl. holds (ph v) \<longrightarrow> v = w)"
  using assms unfolding token_ok_def by (cases "locked t") auto

lemma token_ok_locked:
  "token_ok pl ph t \<Longrightarrow> \<not> locked t \<Longrightarrow> w < length pl \<Longrightarrow> holds ph' \<Longrightarrow>
   token_ok pl (ph(w := ph')) (t\<lparr>locked := True, id_holder := of_nat (pl ! w)\<rparr>)"
  unfolding token_ok_def by auto

lemma token_ok_unlocked:
  assumes "token_ok pl ph t" "w < length pl" "holds (ph w)" "\<not> holds ph'" "length c = 4"
  shows "token_ok pl (ph(w := ph')) (token_unlock (t\<lparr>token_cnt := c\<rparr>))"
proof -
  have "\<forall>v<length pl. holds (ph v) \<longrightarrow> v = w" using token_held [OF assms(1-3)] by simp
  then have "\<forall>v<length pl. \<not> holds ((ph(w := ph')) v)" using assms(4) by auto
  then show ?thesis using assms(5)
    unfolding token_ok_def token_unlock_def max_nof_radio_phy_pairs_one_tpoint_def by simp
qed

lemma pool_inv_other:
  assumes "pool_inv I J C pl p s" "\<And>w. in_pool pl p w \<Longrightarrow> workers s' w = workers s w"
    and "queues s' ! p = queues s ! p" "token_cnt (token s') ! p = token_cnt (token s) ! p"
    and "arrivals s' ! p = arrivals s ! p" "served s' ! p = served s ! p" "keep_running s' = keep_running s"
  shows "pool_inv I J C pl p s'"
proof -
  have "pool_ok (in_pool pl p) (keep_running s) (arrivals s ! p) d m (workers s) \<Longrightarrow>
      pool_ok (in_pool pl p) (keep_running s) (arrivals s ! p) d m (workers s')" for d m
    by (erule pool_ok_change) (simp add: assms(2))
  moreover have "nof_serving pl p (workers s') = nof_serving pl p (workers s)"
    by (rule nof_serving_cong) (rule assms(2))
  moreover obtain d m where "I (queues s ! p)" "C (queues s ! p) = int (length (arrivals s ! p))"
    "J (queues s ! p) = drop d (arrivals s ! p)" "token_cnt (token s) ! p = int m"
    "pool_ok (in_pool pl p) (keep_running s) (arrivals s ! p) d m (workers s)"
    "served s ! p = take (m + nof_serving pl p (workers s)) (arrivals s ! p)"
    using assms(1) by (rule pool_invE)
  ultimately show ?thesis
    by (intro pool_invI [of I s' p C J d m]) (simp_all only: assms(3-))
qed

lemma pool_number:
  assumes "p < (4 :: nat)"
  shows "unat (of_nat p :: u32) = p" "(of_nat p :: u32) < 4"
proof -
  show "unat (of_nat p :: u32) = p" using assms by (simp add: unat_of_nat)
  then show "(of_nat p :: u32) < 4" using assms by (simp add: word_less_nat_alt)
qed

text \<open>One step of a worker \<open>w\<close> of pool \<open>p\<close>.\<close>

lemma pipe_inv_worker:
  assumes s: "pipe_inv I J C pl s" "in_pool pl p w" "p < length (queues s)"
    and s': "s' = s\<lparr>queues := (queues s)[p := q], token := t, workers := (workers s)(w := ph),
      served := (served s)[p := sv]\<rparr>"
    and q: "I q" "C q = C (queues s ! p)" "J q = drop d (arrivals s ! p)"
    and t: "token_cnt t = (token_cnt (token s))[p := int m]" "token_ok pl ((workers s)(w := ph)) t"
    and ok: "pool_ok (in_pool pl p) (keep_running s) (arrivals s ! p) d m ((workers s)(w := ph))"
    and sv: "sv = take (m + nof_serving pl p ((workers s)(w := ph))) (arrivals s ! p)"
    and dr: "ph \<in> {Draining, Returned} \<Longrightarrow> \<not> keep_running s"
  shows "pipe_inv I J C pl s'"
proof -
  have l: "length (queues s) \<le> 4" "length (served s) = length (queues s)" "length (token_cnt (token s)) = 4"
    using s(1) by (auto simp: pipe_inv_def token_ok_def)
  have "pool_inv I J C pl p s'"
    by (rule pool_invI [of I s' p C J d m]) (use s(1,3) q t(1) ok sv l in \<open>auto simp: pool_inv_def pipe_inv_def s'\<close>)
  moreover have "pool_inv I J C pl p' s'" if "p' < length (queues s)" "p' \<noteq> p" for p'
  proof (rule pool_inv_other)
    show "pool_inv I J C pl p' s" using s(1) that by (simp add: pipe_inv_def)
  qed (use that s(2) in \<open>auto simp: s' t(1) in_pool_def\<close>)
  ultimately show ?thesis using s(1) t(2) dr unfolding pipe_inv_def by (auto simp: s')
qed

text \<open>A step at the queue of pool \<open>p\<close> alone.\<close>

lemma pipe_inv_queue:
  assumes s: "pipe_inv I J C pl s" "p < length (queues s)"
    and s': "s' = s\<lparr>queues := (queues s)[p := q], arrivals := (arrivals s)[p := arr]\<rparr>"
    and q: "I q" "C q = int (length arr)" "J q = drop d arr"
    and t: "token_cnt (token s) ! p = int m" "pool_ok (in_pool pl p) (keep_running s) arr d m (workers s)"
    and sv: "served s ! p = take (m + nof_serving pl p (workers s)) arr"
  shows "pipe_inv I J C pl s'"
proof -
  have "length (arrivals s) = length (queues s)" using s(1) by (auto simp: pipe_inv_def)
  then have "pool_inv I J C pl p s'"
    by (intro pool_invI [of I s' p C J d m]) (use s(2) q t sv in \<open>simp_all add: s'\<close>)
  moreover have "pool_inv I J C pl p' s'" if "p' < length (queues s)" "p' \<noteq> p" for p'
  proof (rule pool_inv_other)
    show "pool_inv I J C pl p' s" using s(1) that by (simp add: pipe_inv_def)
  qed (use that in \<open>auto simp: s'\<close>)
  ultimately show ?thesis using s(1) unfolding pipe_inv_def by (auto simp: s')
qed

subsection \<open>Every step preserves the invariant\<close>

locale job_pipeline = job_queue inv jobs accepted_cnt "q_permeable Q" "q_enq Q" "q_deq Q"
  for inv :: "'q \<Rightarrow> bool" and jobs :: "'q \<Rightarrow> 's job list" and accepted_cnt and Q :: "('q, 's) queue_ops" +
  assumes permeability: "inv q \<Longrightarrow> inv (q_set_permeable Q b q) \<and>
    jobs (q_set_permeable Q b q) = jobs q \<and> accepted_cnt (q_set_permeable Q b q) = accepted_cnt q"
begin

abbreviation "pinv \<equiv> pipe_inv inv jobs accepted_cnt"

lemma worker_step:
  assumes s: "pinv pl s" "in_pool pl p w" "p < length (queues s)" and r: "exec_worker Q w p a s = Some r"
  shows "\<exists>s'. r = Inr s' \<and> pinv pl s'"
proof -
  let ?ph = "workers s" and ?t = "token s" and ?arr = "arrivals s ! p" and ?W = "in_pool pl p"
  have tok: "token_ok pl ?ph ?t" and p: "p < 4" "unat (of_nat p :: u32) = p" "(of_nat p :: u32) < 4"
    and w: "w < length pl" "pl ! w = p"
    using s pool_number [of p] by (auto simp: pipe_inv_def in_pool_def)
  then have len: "length (token_cnt ?t) = 4" by (simp add: token_ok_def)
  have "pool_inv inv jobs accepted_cnt pl p s" using s by (simp add: pipe_inv_def)
  then obtain d m where q: "inv (queues s ! p)" "accepted_cnt (queues s ! p) = int (length ?arr)"
    "jobs (queues s ! p) = drop d ?arr" "token_cnt ?t ! p = int m"
    "pool_ok ?W (keep_running s) ?arr d m ?ph" "served s ! p = take (m + nof_serving pl p ?ph) ?arr"
    by (rule pool_invE)
  note q = q(1-5) q(6) [symmetric]
  note b = pool_ok_bounds [OF q(5)]
  note step = pipe_inv_worker [OF s]
  have same: "(token_cnt ?t)[p := int m] = token_cnt ?t" by (simp flip: q(4))
  have local: "pinv pl (set_worker w ph s)"
    if "pool_ok ?W (keep_running s) ?arr d m (?ph(w := ph))" "holds ph = holds (?ph w)" "serving ph = serving (?ph w)"
      "ph \<in> {Draining, Returned} \<Longrightarrow> \<not> keep_running s"
    for ph
    by (rule step [where q = "queues s ! p" and t = ?t and ph = ph and sv = "served s ! p" and d = d and m = m])
      (simp_all add: set_worker_def q same that(1)
        token_ok_change [where ph = ?ph and w = w, OF tok that(2)] nof_serving_change [where ph = ?ph and w = w, OF that(3)] that(4))
  have quiet: "pool_ok ?W (keep_running s) ?arr d m (?ph(w := ph))" if "own (?ph w) = None" "own ph = None" "\<not> its_turn ph" for ph
    by (rule pool_ok_change [OF q(5)]) (use that in auto)
  have deq: "case jobs (queues s ! p) of [] \<Rightarrow> q_deq Q (queues s ! p) = Inr None
      | j # js \<Rightarrow> \<exists>q'. q_deq Q (queues s ! p) = Inr (Some (j, q')) \<and> inv q' \<and>
          q_permeable Q q' = q_permeable Q (queues s ! p) \<and> accepted_cnt q' = accepted_cnt (queues s ! p) \<and> jobs q' = js"
    by (rule dequeued [OF q(1)])
  have job: "drop d ?arr = j # js \<Longrightarrow> d < length ?arr \<and> j = ?arr ! d \<and> js = drop (Suc d) ?arr" for j js
    by (cases "d < length ?arr") (auto simp: Cons_nth_drop_Suc [symmetric])
  show ?thesis
  proof (cases a)
    case (Dequeue v)
    then have idle: "?ph w = Idle" using r by (auto split: phase.splits)
    show ?thesis
    proof (cases "jobs (queues s ! p)")
      case Nil
      then show ?thesis using deq r Dequeue idle s(1) by auto
    next
      case (Cons j js)
      with deq obtain q' where q': "q_deq Q (queues s ! p) = Inr (Some (j, q'))" "inv q'"
        "accepted_cnt q' = accepted_cnt (queues s ! p)" "jobs q' = js" by auto
      have "pinv pl (set_worker w (Waiting j) (set_queue p q' s))"
        by (rule step [where q = q' and t = ?t and ph = "Waiting j" and sv = "served s ! p" and d = "Suc d" and m = m])
          (use q' q same tok job [of j js] Cons idle s(2) token_ok_change [of pl ?ph ?t "Waiting j" w]
            nof_serving_change [of "Waiting j" ?ph w] pool_ok_take [OF q(5) s(2), of "Waiting j"]
            in \<open>auto simp: set_worker_def set_queue_def\<close>)
      then show ?thesis using q'(1) r Dequeue idle by auto
    qed
  next
    case (Check v)
    then obtain j where j': "?ph w = Waiting j" using r by (auto split: phase.splits if_splits)
    then obtain i where i: "m \<le> i" "i < d" "j = ?arr ! i" using pool_ok_owner [OF q(5) s(2), of j] by auto
    then have mono: "contents j \<noteq> Monostate" using b by (simp add: numbers_def)
    with j' r Check have j: "?ph w = Waiting j" "\<not> locked ?t" by (auto split: if_splits)
    from i have c: "job_cnt j = int i" using b by (simp add: numbers_def)
    then have turn: "token_fifo_turn (of_nat p) (job_cnt j) ?t = Inr (m = i)"
      using i p len q(4) by (simp add: token_fifo_turn_def)
    have "pinv pl (set_worker w (Turn j) s)" if "m = i"
      by (rule local) (use j c that s(2) pool_ok_turn [OF q(5) s(2), of j "Turn j"] in auto)
    then show ?thesis using turn r Check j mono s(1) by auto
  next
    case (Lock v)
    then obtain j where j: "?ph w = Turn j" "\<not> locked ?t" using r by (auto split: phase.splits if_splits)
    note u = token_unlocked [OF tok j(2)]
    have jm: "j = ?arr ! m" "m < d" using pool_ok_owner [OF q(5) s(2), of j] j by auto
    have sv: "served s ! p @ [j] = take (Suc m) ?arr" using q(6) u jm b by (simp add: take_Suc_conv_app_nth)
    have one: "nof_serving pl p (?ph(w := Serving j)) = 1" using s(2) by (auto simp: nof_serving_def)
    let ?t' = "?t\<lparr>locked := True, id_holder := of_nat p\<rparr>"
    have "pinv pl (serve p j (set_worker w (Serving j) (s\<lparr>token := ?t'\<rparr>)))"
    proof (rule step [where q = "queues s ! p" and t = ?t' and ph = "Serving j" and sv = "served s ! p @ [j]" and d = d and m = m])
      show "served s ! p @ [j] = take (m + nof_serving pl p (?ph(w := Serving j))) ?arr"
        using sv by (simp add: one)
      show "pool_ok ?W (keep_running s) ?arr d m (?ph(w := Serving j))"
        using pool_ok_turn [OF q(5) s(2), of j "Serving j"] j jm b by (simp add: numbers_def)
      show "token_ok pl (?ph(w := Serving j)) ?t'" using token_ok_locked [OF tok j(2) w(1)] w(2) by simp
    qed (use q same in \<open>auto simp: set_worker_def serve_def\<close>)
    then show ?thesis using r Lock j u by (auto simp: token_lock_def max_nof_radio_phy_pairs_one_tpoint_def)
  next
    case (Unlock_fifo v)
    then obtain j where j: "?ph w = Serving j" using r by (auto split: phase.splits)
    have h: "id_holder ?t = of_nat p" "\<forall>v<length pl. holds (?ph v) \<longrightarrow> v = w"
      using token_held [OF tok w(1)] j w(2) by auto
    have jm: "j = ?arr ! m" "m < d" using pool_ok_owner [OF q(5) s(2), of j] j by auto
    have one: "nof_serving pl p ?ph = 1" using s(2) j by (auto simp: nof_serving_def intro!: exI [of _ w])
    have none: "nof_serving pl p (?ph(w := After j)) = 0"
      using h(2) serving_own by (fastforce simp: nof_serving_def in_pool_def)
    let ?t' = "token_unlock (?t\<lparr>token_cnt := (token_cnt ?t)[p := int (Suc m)]\<rparr>)"
    have "pinv pl (set_worker w (After j) (s\<lparr>token := ?t'\<rparr>))"
    proof (rule step [where q = "queues s ! p" and t = ?t' and ph = "After j" and sv = "served s ! p" and d = d and m = "Suc m"])
      show "token_ok pl (?ph(w := After j)) ?t'" by (rule token_ok_unlocked [OF tok w(1)]) (simp_all add: j len)
      show "pool_ok ?W (keep_running s) ?arr d (Suc m) (?ph(w := After j))"
        by (rule pool_ok_served [OF q(5) s(2)]) (simp_all add: j)
    qed (use q one none in \<open>auto simp: set_worker_def token_unlock_def\<close>)
    then show ?thesis using r Unlock_fifo j h p len q(4)
      by (auto simp: token_unlock_fifo_def max_nof_radio_phy_pairs_one_tpoint_def add.commute)
  next
    case (Lock_again v)
    then obtain j where j: "?ph w = After j" "\<not> locked ?t" using r by (auto split: phase.splits if_splits)
    note u = token_unlocked [OF tok j(2)]
    let ?t' = "?t\<lparr>locked := True, id_holder := of_nat p\<rparr>"
    have "pinv pl (set_worker w (Holding j) (s\<lparr>token := ?t'\<rparr>))"
    proof (rule step [where q = "queues s ! p" and t = ?t' and ph = "Holding j" and sv = "served s ! p" and d = d and m = m])
      show "token_ok pl (?ph(w := Holding j)) ?t'" using token_ok_locked [OF tok j(2) w(1)] w(2) by simp
    qed (use q same quiet [of "Holding j"] nof_serving_change [of "Holding j" ?ph w] j in \<open>auto simp: set_worker_def\<close>)
    then show ?thesis using r Lock_again j u by (auto simp: token_lock_def max_nof_radio_phy_pairs_one_tpoint_def)
  next
    case (Unlock v)
    then obtain j where j: "?ph w = Holding j" using r by (auto split: phase.splits)
    have "pinv pl (set_worker w (After j) (s\<lparr>token := token_unlock ?t\<rparr>))"
    proof (rule step [where q = "queues s ! p" and t = "token_unlock ?t" and ph = "After j" and sv = "served s ! p" and d = d and m = m])
      show "token_ok pl (?ph(w := After j)) (token_unlock ?t)"
        using token_ok_unlocked [OF tok w(1), of "After j" "token_cnt ?t"] j len by simp
    qed (use q same quiet [of "After j"] nof_serving_change [of "After j" ?ph w] j in \<open>auto simp: set_worker_def token_unlock_def\<close>)
    then show ?thesis using r Unlock j by auto
  next
    case (Finish v)
    then obtain j where j: "?ph w = After j" using r by (auto split: phase.splits)
    then show ?thesis using r Finish local [of Idle] quiet [of Idle] by auto
  next
    case (Leave v)
    then have k: "\<not> keep_running s" using r by (auto split: if_splits)
    then have no: "pool_ok ?W (keep_running s) ?arr d m (?ph(w := ph))" if "own ph = None" for ph
      using pool_ok_leave [OF q(5) that] by simp
    then show ?thesis using r Leave k local [of Returned] local [of Draining] by (auto split: phase.splits)
  next
    case (Drain v)
    then have dr: "?ph w = Draining" using r by (auto split: phase.splits)
    show ?thesis
    proof (cases "jobs (queues s ! p)")
      case Nil
      then show ?thesis using deq r Drain dr s(1) by auto
    next
      case (Cons j js)
      with deq obtain q' where q': "q_deq Q (queues s ! p) = Inr (Some (j, q'))" "inv q'"
        "accepted_cnt q' = accepted_cnt (queues s ! p)" "jobs q' = js" by auto
      have "pinv pl (set_queue p q' s)"
      proof (rule pipe_inv_queue [where q = q' and arr = ?arr and d = "Suc d" and m = m, OF s(1,3)])
        have "\<not> keep_running s" using s(1) w(1) dr by (simp add: pipe_inv_def)
        then show "pool_ok ?W (keep_running s) ?arr (Suc d) m ?ph"
          using q(5) job [of j js] Cons q(3) by (auto intro: pool_ok_drop)
      qed (use q q' job [of j js] Cons in \<open>auto simp: set_queue_def\<close>)
      then show ?thesis using q'(1) r Drain dr by auto
    qed
  qed (use r in auto)
qed

lemma producer_step:
  assumes s: "pinv pl s" "p < length (queues s)" "c \<noteq> Monostate"
  shows "\<exists>s'. exec Q pl (Permeable p b) s = Some (Inr s') \<and> pinv pl s'"
    and "(\<exists>s'. exec Q pl (Enqueue p c) s = Some (Inr s') \<and> pinv pl s') \<or>
      exec Q pl (Enqueue p c) s = Some (Inl Assertion_failed) \<and> q_enq Q c (queues s ! p) = Inl Assertion_failed"
proof -
  let ?q = "queues s ! p" and ?arr = "arrivals s ! p"
  have "pool_inv inv jobs accepted_cnt pl p s" using s by (simp add: pipe_inv_def)
  then obtain d m where q: "inv ?q" "accepted_cnt ?q = int (length ?arr)"
    "jobs ?q = drop d ?arr" "token_cnt (token s) ! p = int m"
    "pool_ok (in_pool pl p) (keep_running s) ?arr d m (workers s)"
    "served s ! p = take (m + nof_serving pl p (workers s)) ?arr"
    by (rule pool_invE)
  note step = pipe_inv_queue [OF s(1,2)]
  have "pinv pl (set_queue p (q_set_permeable Q b ?q) s)"
    by (rule step [where q = "q_set_permeable Q b ?q" and arr = ?arr and d = d and m = m])
      (use q permeability [OF q(1)] in \<open>simp_all add: set_queue_def\<close>)
  then show "\<exists>s'. exec Q pl (Permeable p b) s = Some (Inr s') \<and> pinv pl s'" using s(2) by (simp add: exec_def)
  show "(\<exists>s'. exec Q pl (Enqueue p c) s = Some (Inr s') \<and> pinv pl s') \<or>
      exec Q pl (Enqueue p c) s = Some (Inl Assertion_failed) \<and> q_enq Q c (queues s ! p) = Inl Assertion_failed"
  proof (cases "q_enq Q c ?q")
    case (Inl e)
    then show ?thesis using no_fault [OF q(1) Inl] s(2,3) by (simp add: exec_def)
  next
    case (Inr r)
    then obtain x q' where r: "q_enq Q c ?q = Inr (x, q')" by (cases r) auto
    let ?j = "\<lparr>contents = c, job_cnt = int (length ?arr)\<rparr>"
    show ?thesis
    proof (cases "q_permeable Q ?q")
      case True
      have e: "inv q'" "accepted_cnt q' = accepted_cnt ?q + 1" "jobs q' = jobs ?q @ [?j]"
        using enqueued [OF q(1) True r] q(2) by auto
      have b: "m \<le> d" "d \<le> length ?arr" "served s ! p = take (m + nof_serving pl p (workers s)) ?arr"
        using pool_ok_bounds [OF q(5)] q(6) by auto
      have "m + nof_serving pl p (workers s) \<le> length ?arr"
      proof (cases "\<exists>w. in_pool pl p w \<and> serving (workers s w)")
        case True
        then obtain w where w: "in_pool pl p w" "serving (workers s w)" by auto
        then obtain j where "own (workers s w) = Some j" using serving_own by blast
        with pool_ok_owner [OF q(5) w(1)] b show ?thesis by (auto simp: nof_serving_def)
      qed (use b in \<open>auto simp: nof_serving_def\<close>)
      then have "pinv pl (set_queue p q' (arrive p c s))"
        by (intro step [where q = q' and arr = "?arr @ [?j]" and d = d and m = m])
          (use q e b s(3) pool_ok_arrive [OF q(5), of ?j] in \<open>auto simp: set_queue_def arrive_def\<close>)
      then show ?thesis using r True s(2,3) by (simp add: exec_def)
    next
      case False
      then have "set_queue p q' s = s" using closed [OF False, of c] r by (simp add: set_queue_def)
      then show ?thesis using r False s by (simp add: exec_def)
    qed
  qed
qed

lemma stop_step: "pinv pl s \<Longrightarrow> pinv pl (s\<lparr>keep_running := False\<rparr>)"
  unfolding pipe_inv_def pool_inv_def by (auto dest: pool_ok_stop) (use pool_ok_stop in blast)

lemma exec_step:
  assumes "pinv pl s" "exec Q pl a s = Some r"
  shows "(\<exists>s'. r = Inr s' \<and> pinv pl s') \<or> (\<exists>p c. a = Enqueue p c \<and> p < length (queues s) \<and>
    r = Inl Assertion_failed \<and> q_enq Q c (queues s ! p) = Inl Assertion_failed)"
proof (cases "worker_of a")
  case (Some w)
  then have "w < length pl \<and> pl ! w < length (queues s) \<and> exec_worker Q w (pl ! w) a s = Some r"
    using assms(2) by (cases a) (auto simp: exec_def split: if_splits)
  with worker_step [OF assms(1), of "pl ! w" w a r] show ?thesis by (simp add: in_pool_def)
next
  case None
  show ?thesis
  proof (cases a)
    case (Enqueue p c)
    then have "p < length (queues s)" "c \<noteq> Monostate" using assms(2) by (auto simp: exec_def split: if_splits)
    with producer_step(2) [OF assms(1) this] assms(2) Enqueue show ?thesis by auto
  next
    case (Permeable p b)
    then have "p < length (queues s)" using assms(2) by (auto simp: exec_def split: if_splits)
    with producer_step(1) [OF assms(1) this, of "Sync undefined" b] assms(2) Permeable show ?thesis by auto
  next
    case Stop
    then show ?thesis using assms stop_step [of pl s] by (auto simp: exec_def)
  qed (use None in auto)
qed

lemma start_inv:
  assumes "length qs \<le> 4" "\<forall>q\<in>set qs. inv q \<and> jobs q = [] \<and> accepted_cnt q = 0"
  shows "\<exists>s. pipeline_new qs = Inr s \<and> pinv pl s \<and> keep_running s \<and> queues s = qs"
proof -
  have n: "unat (of_nat (length qs) :: u32) = length qs" using assms(1) by (simp add: unat_of_nat)
  then have l: "(of_nat (length qs) :: u32) \<le> 4" using assms(1) by (simp add: word_le_nat_alt)
  let ?t = "\<lparr>locked = False, token_cnt = replicate (length qs) 0 @ replicate (4 - length qs) undefined_late,
    id_holder = 4\<rparr>"
  let ?s = "\<lparr>queues = qs, token = ?t, workers = (\<lambda>_. Idle), keep_running = True,
    arrivals = replicate (length qs) [], served = replicate (length qs) []\<rparr>"
  have "pool_inv inv jobs accepted_cnt pl p ?s" if "p < length qs" for p
    by (rule pool_invI [where d = 0 and m = 0])
      (use that assms(2) in \<open>auto simp: nth_append pool_ok_def numbers_def\<close>)
  then have "pinv pl ?s" using assms(1) by (auto simp: pipe_inv_def token_ok_def)
  moreover have "pipeline_new qs = Inr ?s"
    using n l by (simp add: pipeline_new_def token_new_def max_nof_radio_phy_pairs_one_tpoint_def)
  ultimately show ?thesis by auto
qed

lemma reachable_inv:
  assumes "reachable Q pl qs s" "length qs \<le> 4" "\<forall>q\<in>set qs. inv q \<and> jobs q = [] \<and> accepted_cnt q = 0"
  shows "pinv pl s"
  using assms
proof (induction rule: reachable.induct)
  case (start s)
  then show ?case using start_inv [of qs pl] by auto
next
  case (step s a s')
  then show ?case using exec_step [of pl s a "Inr s'"] by auto
qed

text \<open>What the invariant says of the order in which the firmware is called, of the token and of
failing assertions.\<close>

lemma reachable_safe:
  assumes "reachable Q pl qs s" "length qs \<le> 4" "\<forall>q\<in>set qs. inv q \<and> jobs q = [] \<and> accepted_cnt q = 0"
  shows "p < length (queues s) \<Longrightarrow> numbers (arrivals s ! p) \<and>
      served s ! p = take (length (served s ! p)) (arrivals s ! p)"
    and "v < length pl \<Longrightarrow> w < length pl \<Longrightarrow> holds (workers s v) \<Longrightarrow> holds (workers s w) \<Longrightarrow> v = w"
    and "exec Q pl a s = Some (Inl e) \<Longrightarrow> \<exists>p c. a = Enqueue p c \<and> p < length (queues s) \<and>
      e = Assertion_failed \<and> q_enq Q c (queues s ! p) = Inl Assertion_failed"
proof -
  have i: "pinv pl s" by (rule reachable_inv [OF assms])
  show "numbers (arrivals s ! p) \<and> served s ! p = take (length (served s ! p)) (arrivals s ! p)"
    if "p < length (queues s)"
  proof -
    have "pool_inv inv jobs accepted_cnt pl p s" using i that by (simp add: pipe_inv_def)
    then show ?thesis by (rule pool_invE) (auto dest: pool_ok_bounds simp: min_def)
  qed
  have t: "token_ok pl (workers s) (token s)" using i by (simp add: pipe_inv_def)
  show "v = w" if "v < length pl" "w < length pl" "holds (workers s v)" "holds (workers s w)"
    using token_held [OF t that(2,4)] that by simp
  show "\<exists>p c. a = Enqueue p c \<and> p < length (queues s) \<and> e = Assertion_failed \<and>
      q_enq Q c (queues s ! p) = Inl Assertion_failed" if "exec Q pl a s = Some (Inl e)"
    using exec_step [OF i that] by auto
qed

end

subsection \<open>No deadlock\<close>

text \<open>Steps of workers only, while nobody enqueues.\<close>

inductive worker_steps :: "('q, 's) queue_ops \<Rightarrow> nat list \<Rightarrow> ('q, 's) pipeline \<Rightarrow> ('q, 's) pipeline \<Rightarrow> bool"
  for Q pl where
  done_working: "worker_steps Q pl s s"
| work_on: "worker_of a = Some w \<Longrightarrow> exec Q pl a s = Some (Inr s') \<Longrightarrow> worker_steps Q pl s' s'' \<Longrightarrow>
    worker_steps Q pl s s''"

fun weight :: "'s phase \<Rightarrow> nat" where
  "weight (Waiting j) = 5"
| "weight (Turn j) = 4"
| "weight (Serving j) = 3"
| "weight (Holding j) = 2"
| "weight (After j) = 1"
| "weight _ = 0"

definition work_left :: "('q \<Rightarrow> 's job list) \<Rightarrow> nat list \<Rightarrow> ('q, 's) pipeline \<Rightarrow> nat" where
  "work_left J pl s = (\<Sum>p<length (queues s). 6 * length (J (queues s ! p))) +
     (\<Sum>w<length pl. weight (workers s w))"

lemma sum_change:
  fixes f g :: "nat \<Rightarrow> nat"
  assumes "i < n" "\<And>k. k < n \<Longrightarrow> k \<noteq> i \<Longrightarrow> g k = f k"
  shows "(\<Sum>k<n. g k) + f i = (\<Sum>k<n. f k) + g i"
proof -
  have "(\<Sum>k<n. h k) = (\<Sum>k\<in>{..<n} - {i}. h k) + h i" for h :: "nat \<Rightarrow> nat"
    using assms(1) by (simp add: sum.remove add.commute)
  moreover have "(\<Sum>k\<in>{..<n} - {i}. g k) = (\<Sum>k\<in>{..<n} - {i}. f k)" by (rule sum.cong) (use assms(2) in auto)
  ultimately show ?thesis by simp
qed

lemma weight_change:
  assumes "w < length pl"
  shows "(\<Sum>v<length pl. weight ((ph(w := x)) v)) + weight (ph w) = (\<Sum>v<length pl. weight (ph v)) + weight x"
  using sum_change [OF assms, of "\<lambda>v. weight ((ph(w := x)) v)" "\<lambda>v. weight (ph v)"] by simp

lemma work_left_worker:
  assumes "w < length pl" "queues s' = queues s" "workers s' = (workers s)(w := x)" "weight x < weight (workers s w)"
  shows "work_left J pl s' < work_left J pl s"
  using weight_change [OF assms(1), of "workers s" x] assms(2-4) by (simp add: work_left_def)

lemma work_left_dequeue:
  assumes "w < length pl" "p < length (queues s)" "queues s' = (queues s)[p := q]"
    "workers s' = (workers s)(w := x)" "weight x \<le> 5" "length (J (queues s ! p)) = Suc (length (J q))"
  shows "work_left J pl s' < work_left J pl s"
proof -
  have "(\<Sum>k<length (queues s). 6 * length (J ((queues s)[p := q] ! k))) + 6 * length (J (queues s ! p)) =
      (\<Sum>k<length (queues s). 6 * length (J (queues s ! k))) + 6 * length (J ((queues s)[p := q] ! p))"
    by (rule sum_change) (use assms(2) in auto)
  then show ?thesis using weight_change [OF assms(1), of "workers s" x] assms(2-6) by (simp add: work_left_def)
qed

lemma exec_of_worker:
  "worker_of a = Some w \<Longrightarrow> w < length pl \<Longrightarrow> pl ! w < length (queues s) \<Longrightarrow>
   exec Q pl a s = exec_worker Q w (pl ! w) a s"
  by (cases a) (auto simp: exec_def)

lemma exec_worker_keeps:
  assumes "exec_worker Q w p a s = Some (Inr s')"
  shows "keep_running s' = keep_running s \<and> arrivals s' = arrivals s \<and> length (queues s') = length (queues s)"
  using assms
  by (cases a) (auto simp: bindE_eq_Inr set_worker_def set_queue_def serve_def
      split: phase.splits if_splits option.splits)

lemma exec_worker_ok:
  assumes "worker_of a = Some w" "exec Q pl a s = Some (Inr s')"
  shows "keep_running s' = keep_running s \<and> arrivals s' = arrivals s \<and> length (queues s') = length (queues s)"
proof -
  have "exec_worker Q w (pl ! w) a s = Some (Inr s')"
    using assms by (cases a) (auto simp: exec_def split: if_splits)
  then show ?thesis by (rule exec_worker_keeps)
qed

definition manned :: "nat list \<Rightarrow> ('q, 's) pipeline \<Rightarrow> bool" where
  "manned pl s \<longleftrightarrow> (\<forall>w<length pl. pl ! w < length (queues s)) \<and> (\<forall>p<length (queues s). \<exists>w. in_pool pl p w)"

lemma manned_pools: "set pl = {..<length (queues s)} \<Longrightarrow> manned pl s"
  unfolding manned_def in_pool_def by (metis in_set_conv_nth lessThan_iff nth_mem)

context job_pipeline
begin

lemma worker_moves:
  assumes "pinv pl s" "manned pl s" "w < length pl" "worker_of a = Some w" "exec_worker Q w (pl ! w) a s \<noteq> None"
  shows "\<exists>s'. exec Q pl a s = Some (Inr s') \<and> exec_worker Q w (pl ! w) a s = Some (Inr s') \<and> pinv pl s'"
proof -
  have p: "pl ! w < length (queues s)" using assms(2,3) by (simp add: manned_def)
  obtain r where r: "exec_worker Q w (pl ! w) a s = Some r" using assms(5) by auto
  with worker_step [OF assms(1) _ p r] assms(3) obtain s' where "r = Inr s'" "pinv pl s'"
    by (auto simp: in_pool_def)
  then show ?thesis using exec_of_worker [OF assms(4,3) p, of Q] r by simp
qed

lemma progress:
  assumes "pinv pl s" "manned pl s" "keep_running s" "work_left jobs pl s \<noteq> 0"
  shows "\<exists>a w s'. worker_of a = Some w \<and> exec Q pl a s = Some (Inr s') \<and> pinv pl s' \<and>
    work_left jobs pl s' < work_left jobs pl s"
proof -
  have tok: "token_ok pl (workers s) (token s)" using assms(1) by (simp add: pipe_inv_def)
  have move: ?thesis if "w < length pl" "worker_of a = Some w" "exec_worker Q w (pl ! w) a s \<noteq> None"
    "\<And>s'. exec_worker Q w (pl ! w) a s = Some (Inr s') \<Longrightarrow> \<exists>x. queues s' = queues s \<and>
      workers s' = (workers s)(w := x) \<and> weight x < weight (workers s w)" for a w
    using worker_moves [OF assms(1,2) that(1-3)] that(2,4) work_left_worker [OF that(1)] by blast
  consider (held) w where "w < length pl" "holds (workers s w)"
    | (after) w j where "w < length pl" "workers s w = After j"
    | (turn) w j where "w < length pl" "workers s w = Turn j" "\<forall>v<length pl. \<not> holds (workers s v)"
    | (wait) w j where "w < length pl" "workers s w = Waiting j" "\<forall>v<length pl. \<not> holds (workers s v)"
        "\<forall>v<length pl. \<not> its_turn (workers s v)"
    | (idle) "\<forall>v<length pl. weight (workers s v) = 0"
  proof (cases "\<exists>w<length pl. holds (workers s w)")
    case False
    show thesis
    proof (cases "\<exists>w<length pl. its_turn (workers s w)")
      case True
      then obtain w where w: "w < length pl" "its_turn (workers s w)" by auto
      then obtain j where "workers s w = Turn j" using False by (cases "workers s w") auto
      with w False turn show thesis by blast
    next
      case no: False
      have "weight (workers s v) = 0 \<or> (\<exists>j. workers s v = After j) \<or> (\<exists>j. workers s v = Waiting j)"
        if "v < length pl" for v
        using that no False by (cases "workers s v") auto
      then show thesis using no False idle after wait by blast
    qed
  qed (use held in blast)
  then show ?thesis
  proof cases
    case held
    then show ?thesis
    proof (cases "workers s w")
      case (Serving j)
      then show ?thesis using held
        by (intro move [of w "Unlock_fifo w"]) (auto simp: bindE_eq_Inr set_worker_def)
    next
      case (Holding j)
      then show ?thesis using held by (intro move [of w "Unlock w"]) (auto simp: set_worker_def)
    qed (use held in auto)
  next
    case after
    then show ?thesis by (intro move [of w "Finish w"]) (auto simp: set_worker_def)
  next
    case turn
    then have "\<not> locked (token s)" using tok by (auto simp: token_ok_def)
    then show ?thesis using turn
      by (intro move [of w "Lock w"]) (auto simp: bindE_eq_Inr set_worker_def serve_def)
  next
    case wait
    then have u: "\<not> locked (token s)" using tok by (auto simp: token_ok_def)
    let ?p = "pl ! w"
    have p: "?p < length (queues s)" "?p < 4" using assms(1,2) wait(1) by (auto simp: manned_def pipe_inv_def)
    then have "pool_inv inv jobs accepted_cnt pl ?p s" using assms(1) by (simp add: pipe_inv_def)
    then obtain d m where q: "token_cnt (token s) ! ?p = int m"
      "pool_ok (in_pool pl ?p) (keep_running s) (arrivals s ! ?p) d m (workers s)" by (rule pool_invE)
    have "m < d" using pool_ok_owner [OF q(2), of w j] wait by (auto simp: in_pool_def)
    then obtain v where v: "in_pool pl ?p v" "own (workers s v) = Some (arrivals s ! ?p ! m)"
      using pool_ok_cover [OF q(2) assms(3), of m] by auto
    then have "v < length pl" "pl ! v = ?p" by (auto simp: in_pool_def)
    moreover have "workers s v = Waiting (arrivals s ! ?p ! m)"
      using v(2) wait(4) calculation by (cases "workers s v") auto
    moreover have "token_fifo_turn (of_nat ?p) (job_cnt (arrivals s ! ?p ! m)) (token s) = Inr True"
      using pool_ok_bounds [OF q(2)] \<open>m < d\<close> pool_number [OF p(2)] q(1) tok p(2)
      by (simp add: numbers_def token_fifo_turn_def token_ok_def)
    moreover have "contents (arrivals s ! ?p ! m) \<noteq> Monostate"
      using pool_ok_bounds [OF q(2)] \<open>m < d\<close> by (simp add: numbers_def)
    ultimately show ?thesis using u by (intro move [of v "Check v"]) (auto simp: set_worker_def)
  next
    case idle
    then have "(\<Sum>p<length (queues s). 6 * length (jobs (queues s ! p))) \<noteq> 0" using assms(4)
      by (simp add: work_left_def)
    then obtain p where p: "p < length (queues s)" "jobs (queues s ! p) \<noteq> []" by auto
    then obtain w where w: "w < length pl" "pl ! w = p" using assms(2) by (auto simp: manned_def in_pool_def)
    have i: "workers s w = Idle" using idle w(1) assms(1,3) by (cases "workers s w") (auto simp: pipe_inv_def)
    obtain j js where j: "jobs (queues s ! p) = j # js" using p(2) by (cases "jobs (queues s ! p)") auto
    have "inv (queues s ! p)" using assms(1) p(1) by (simp add: pipe_inv_def pool_inv_def)
    from dequeued [OF this] j obtain q' where q': "q_deq Q (queues s ! p) = Inr (Some (j, q'))" "jobs q' = js"
      by auto
    from worker_moves [OF assms(1,2) w(1), of "Dequeue w"] i obtain s' where
      s': "exec Q pl (Dequeue w) s = Some (Inr s')" "exec_worker Q w p (Dequeue w) s = Some (Inr s')" "pinv pl s'"
      using w(2) by auto
    then have "s' = set_worker w (Waiting j) (set_queue p q' s)" using i q'(1) by simp
    then have "work_left jobs pl s' < work_left jobs pl s"
      by (intro work_left_dequeue [OF w(1) p(1), of s' q' "Waiting j"])
        (use j q' in \<open>auto simp: set_worker_def set_queue_def\<close>)
    with s' show ?thesis by (intro exI [of _ "Dequeue w"]) auto
  qed
qed

lemma all_served:
  assumes "pinv pl s" "manned pl s" "keep_running s" "work_left jobs pl s = 0" "p < length (queues s)"
  shows "served s ! p = arrivals s ! p"
proof -
  have w: "\<forall>w<length pl. weight (workers s w) = 0" "jobs (queues s ! p) = []"
    using assms(4,5) by (auto simp: work_left_def)
  then have o: "in_pool pl p v \<Longrightarrow> own (workers s v) = None \<and> \<not> serving (workers s v)" for v
    by (cases "workers s v") (auto simp: in_pool_def)
  have "pool_inv inv jobs accepted_cnt pl p s" using assms(1,5) by (simp add: pipe_inv_def)
  then obtain d m where q: "jobs (queues s ! p) = drop d (arrivals s ! p)"
    "pool_ok (in_pool pl p) (keep_running s) (arrivals s ! p) d m (workers s)"
    "served s ! p = take (m + nof_serving pl p (workers s)) (arrivals s ! p)"
    by (rule pool_invE)
  have "m = d" using pool_ok_bounds [OF q(2)] pool_ok_cover [OF q(2) assms(3), of m] o
    by (metis le_neq_implies_less le_refl option.distinct(1))
  moreover have "d = length (arrivals s ! p)" using q(1) w(2) pool_ok_bounds [OF q(2)] by simp
  ultimately show ?thesis using q(3) by simp
qed

lemma everything_served:
  assumes "pinv pl s" "manned pl s" "keep_running s"
  shows "\<exists>s'. worker_steps Q pl s s' \<and> arrivals s' = arrivals s \<and> length (queues s') = length (queues s) \<and>
    (\<forall>p<length (queues s). served s' ! p = arrivals s ! p)"
  using assms
proof (induction "work_left jobs pl s" arbitrary: s rule: less_induct)
  case less
  show ?case
  proof (cases "work_left jobs pl s = 0")
    case True
    then show ?thesis using all_served [OF less.prems True] by (auto intro!: exI [of _ s] done_working)
  next
    case False
    from progress [OF less.prems False] obtain a w s1 where s1: "worker_of a = Some w"
      "exec Q pl a s = Some (Inr s1)" "pinv pl s1" "work_left jobs pl s1 < work_left jobs pl s" by auto
    note k = exec_worker_ok [OF s1(1,2)]
    have "manned pl s1" "keep_running s1" using less.prems k by (auto simp: manned_def)
    from less.hyps [OF s1(4,3) this] k show ?thesis using work_on [OF s1(1,2)] by auto
  qed
qed

end

subsection \<open>Both implementations of the queue\<close>

definition naive_ops :: "('s job_queue_naive, 's) queue_ops" where
  "naive_ops = \<lparr>q_enq = naive_enqueue_nto, q_deq = naive_wait_for_new_job_to,
     q_set_permeable = (\<lambda>b q. if b then naive_set_permeable q else naive_set_impermeable q),
     q_permeable = permeable\<rparr>"

definition mc_ops :: "('s job \<Rightarrow> 'c \<Rightarrow> 'c option) \<Rightarrow> ('c \<Rightarrow> ('s job \<times> 'c) option) \<Rightarrow>
    ('c job_queue_mc, 's) queue_ops" where
  "mc_ops try_enqueue wait_dequeue = \<lparr>q_enq = mc_enqueue_nto try_enqueue,
     q_deq = mc_wait_for_new_job_to wait_dequeue,
     q_set_permeable = (\<lambda>b q. if b then mc_set_permeable q else mc_set_impermeable q),
     q_permeable = mc_permeable\<rparr>"

interpretation np: job_pipeline naive_inv naive_jobs fifo_cnt naive_ops
proof -
  have "job_pipeline_axioms naive_inv naive_jobs fifo_cnt (naive_ops :: ('s job_queue_naive, 's) queue_ops)"
    by unfold_locales
      (use naive_permeable_inv in \<open>auto simp: naive_ops_def naive_set_permeable_def naive_set_impermeable_def\<close>)
  then show "job_pipeline naive_inv naive_jobs fifo_cnt (naive_ops :: ('s job_queue_naive, 's) queue_ops)"
    using nq.job_queue_axioms by (simp add: job_pipeline_def naive_ops_def)
qed

text \<open>\<open>store\<close> are the jobs in the container, in the order in which they were put there.\<close>

definition mc_inv :: "('c \<Rightarrow> 's job list) \<Rightarrow> 'c job_queue_mc \<Rightarrow> bool" where
  "mc_inv store q \<longleftrightarrow> numbered (mc_fifo_cnt q) (store (job_vec q))"

lemma mc_pipeline:
  assumes "fifo (\<lambda>_. True) store (\<lambda>_ _. True) try_enqueue wait_dequeue"
  shows "job_pipeline (mc_inv store) (\<lambda>q. store (job_vec q)) mc_fifo_cnt (mc_ops try_enqueue wait_dequeue)"
proof -
  note f = fifo.enq_accepted [OF assms, simplified] fifo.deq_refused [OF assms, simplified]
    fifo.deq_accepted [OF assms, simplified]
  show ?thesis
  proof (unfold_locales, goal_cases)
    case (1 q)
    then show ?case by (simp add: mc_inv_def)
  next
    case (2 q c)
    then show ?case by (simp add: mc_ops_def mc_enqueue_nto_def)
  next
    case (3 q c b q')
    then obtain v where v: "try_enqueue ((job_new c)\<lparr>job_cnt := mc_fifo_cnt q\<rparr>) (job_vec q) = Some v"
      "b" "q' = q\<lparr>job_vec := v, mc_fifo_cnt := mc_fifo_cnt q + 1\<rparr>"
      by (auto simp: mc_ops_def mc_enqueue_nto_def split: option.splits)
    from f(1) [OF v(1)] 3 v show ?case
      by (auto simp: mc_inv_def mc_ops_def job_new_def intro!: numbered_snoc)
  next
    case (4 q c e)
    then show ?case by (auto simp: mc_ops_def mc_enqueue_nto_def split: option.splits if_splits)
  next
    case (5 q)
    show ?case
    proof (cases "wait_dequeue (job_vec q)")
      case None
      then show ?thesis using f(2) [of "job_vec q"] by (simp add: mc_ops_def mc_wait_for_new_job_to_def)
    next
      case (Some r)
      then obtain j v where "wait_dequeue (job_vec q) = Some (j, v)" by (cases r) auto
      with f(3) [OF this] 5 show ?thesis
        by (auto simp: mc_ops_def mc_wait_for_new_job_to_def mc_inv_def dest: numbered_Cons)
    qed
  next
    case (6 q b)
    then show ?case by (simp add: mc_ops_def mc_inv_def mc_set_permeable_def mc_set_impermeable_def)
  qed
qed

lemma mc_new_inv:
  "mc_new container n = Inr q \<Longrightarrow> store (container (n * 6)) = [] \<Longrightarrow>
   mc_inv store q \<and> store (job_vec q) = [] \<and> mc_fifo_cnt q = 0"
  by (auto simp: mc_new_def mc_inv_def)

text \<open>A run through given actions.\<close>

fun exec_all :: "('q, 's) queue_ops \<Rightarrow> nat list \<Rightarrow> 's action list \<Rightarrow> ('q, 's) pipeline \<Rightarrow> ('q, 's) pipeline option" where
  "exec_all Q pl [] s = Some s"
| "exec_all Q pl (a # as) s = (case exec Q pl a s of Some (Inr s') \<Rightarrow> exec_all Q pl as s' | _ \<Rightarrow> None)"

lemma exec_all_reachable:
  "reachable Q pl qs s \<Longrightarrow> exec_all Q pl as s = Some s' \<Longrightarrow> reachable Q pl qs s'"
  by (induction as arbitrary: s) (auto split: option.splits sum.splits intro: reachable.step)

subsection \<open>Properties\<close>

text \<open>C1: With the queue that is compiled in, whose container hands out what was stored with one
producer token in the order of storing, and for every interleaving of producers, TX/RX workers and
the end of the program: the firmware is called for the jobs of each pool exactly in the order in
which they were accepted, without a gap and never twice; at most one worker calls the firmware at a
time; and no assertion of the token or the workers fails, only that of a producer whose job the
container refuses.\<close>

theorem jobs_served_in_order:
  assumes "fifo (\<lambda>_. True) store (\<lambda>_ _. True) try_enqueue wait_dequeue"
    and "\<forall>q\<in>set qs. \<exists>n. mc_new container n = Inr q" "\<forall>n. store (container n) = []" "length qs \<le> 4"
    and "reachable (mc_ops try_enqueue wait_dequeue) pl qs s"
  shows "(\<forall>p<length (queues s). numbers (arrivals s ! p) \<and>
      served s ! p = take (length (served s ! p)) (arrivals s ! p)) \<and>
    (\<forall>v<length pl. \<forall>w<length pl. holds (workers s v) \<longrightarrow> holds (workers s w) \<longrightarrow> v = w) \<and>
    (\<forall>a e. exec (mc_ops try_enqueue wait_dequeue) pl a s = Some (Inl e) \<longrightarrow>
      (\<exists>p c. a = Enqueue p c \<and> p < length (queues s) \<and> e = Assertion_failed \<and>
        mc_enqueue_nto try_enqueue c (queues s ! p) = Inl Assertion_failed))"
proof -
  have qs: "\<forall>q\<in>set qs. mc_inv store q \<and> store (job_vec q) = [] \<and> mc_fifo_cnt q = 0"
    using assms(2,3) mc_new_inv [of container _ _ store] by blast
  note safe = job_pipeline.reachable_safe [OF mc_pipeline [OF assms(1)] assms(5,4) qs]
  have "mc_enqueue_nto try_enqueue = q_enq (mc_ops try_enqueue wait_dequeue)" by (simp add: mc_ops_def)
  then show ?thesis using safe by auto
qed

definition list_enqueue :: "'s job \<Rightarrow> 's job list \<Rightarrow> 's job list option" where
  "list_enqueue j js = Some (js @ [j])"

definition list_dequeue :: "'s job list \<Rightarrow> ('s job \<times> 's job list) option" where
  "list_dequeue js = (case js of [] \<Rightarrow> None | j # js \<Rightarrow> Some (j, js))"

lemma list_fifo: "fifo (\<lambda>_. True) (\<lambda>js. js) (\<lambda>_ _. True) list_enqueue list_dequeue"
  by unfold_locales (auto simp: list_enqueue_def list_dequeue_def split: list.splits)

definition sample_actions :: "unit action list" where
  "sample_actions = [Permeable 0 True, Enqueue 0 (Sync ()), Enqueue 0 (Irregular irregular_report_default), Dequeue 1, Dequeue 0,
     Check 0, Check 1, Lock 1, Unlock_fifo 1, Check 0, Lock 0]"

theorem jobs_served_in_order_witness:
  "\<exists>s. reachable (mc_ops list_enqueue list_dequeue) [0, 0] [projr (mc_new (\<lambda>_. []) 32)] s \<and>
    served s ! 0 = [\<lparr>contents = Sync (), job_cnt = 0\<rparr>, \<lparr>contents = Irregular irregular_report_default, job_cnt = 1\<rparr>] \<and>
    numbers (arrivals s ! 0)"
proof -
  let ?Q = "mc_ops list_enqueue list_dequeue" and ?qs = "[projr (mc_new (\<lambda>_. []) 32)]"
  let ?s0 = "projr (pipeline_new ?qs)" and ?pl = "[0, 0]"
  have "case exec_all ?Q ?pl sample_actions ?s0 of None \<Rightarrow> False
    | Some s \<Rightarrow> length (queues s) = 1 \<and>
        served s ! 0 = [\<lparr>contents = Sync (), job_cnt = 0\<rparr>, \<lparr>contents = Irregular irregular_report_default, job_cnt = 1\<rparr>]"
    by code_simp
  then obtain s where s: "exec_all ?Q ?pl sample_actions ?s0 = Some s" "length (queues s) = 1"
    "served s ! 0 = [\<lparr>contents = Sync (), job_cnt = 0\<rparr>, \<lparr>contents = Irregular irregular_report_default, job_cnt = 1\<rparr>]"
    by (auto split: option.splits)
  have r: "reachable ?Q ?pl ?qs s"
    by (rule exec_all_reachable [OF reachable.start s(1)])
      (simp add: pipeline_new_def token_new_def max_nof_radio_phy_pairs_one_tpoint_def)
  with jobs_served_in_order [OF list_fifo _ _ _ r, of "\<lambda>_. []"] s show ?thesis
    by (auto simp: mc_new_def)
qed

text \<open>C11: While the program runs and if every pool has at least one worker, the pipeline cannot get
stuck: from every reachable state with \<open>keep_running\<close> the workers alone can reach a state in which the
firmware has been called for every job that was accepted, whatever they were doing and however many jobs
are waiting. The container behind the queues is any FIFO, empty at the start, and there are at most four
pools. After the program was told to stop, or for a pool without a worker, jobs may stay in the queue.\<close>

theorem no_deadlock:
  assumes "fifo (\<lambda>_. True) store (\<lambda>_ _. True) try_enqueue wait_dequeue"
    and "\<forall>q\<in>set qs. \<exists>n. mc_new container n = Inr q" "\<forall>n. store (container n) = []" "length qs \<le> 4"
    and "reachable (mc_ops try_enqueue wait_dequeue) pl qs s"
    and "keep_running s" "set pl = {..<length (queues s)}"
  shows "\<exists>s'. worker_steps (mc_ops try_enqueue wait_dequeue) pl s s' \<and>
    (\<forall>p<length (queues s). served s' ! p = arrivals s ! p)"
proof -
  have qs: "\<forall>q\<in>set qs. mc_inv store q \<and> store (job_vec q) = [] \<and> mc_fifo_cnt q = 0"
    using assms(2,3) mc_new_inv [of container _ _ store] by blast
  note mc = mc_pipeline [OF assms(1)]
  show ?thesis
    using job_pipeline.everything_served [OF mc job_pipeline.reachable_inv [OF mc assms(5,4) qs] _ assms(6)]
      manned_pools [OF assms(7)] by blast
qed

theorem no_deadlock_witness:
  "\<exists>s s'. reachable (mc_ops list_enqueue list_dequeue) [0, 0] [projr (mc_new (\<lambda>_. []) 32)] s \<and>
    worker_steps (mc_ops list_enqueue list_dequeue) [0, 0] s s' \<and> served s ! 0 = [] \<and>
    map contents (served s' ! 0) = [Sync (), Irregular irregular_report_default]"
proof -
  let ?Q = "mc_ops list_enqueue list_dequeue" and ?qs = "[projr (mc_new (\<lambda>_. []) 32)]"
  let ?s0 = "projr (pipeline_new ?qs)" and ?pl = "[0, 0]"
  have "case exec_all ?Q ?pl (take 6 sample_actions) ?s0 of None \<Rightarrow> False
    | Some s \<Rightarrow> length (queues s) = 1 \<and> served s ! 0 = [] \<and> keep_running s \<and>
        map contents (arrivals s ! 0) = [Sync (), Irregular irregular_report_default]"
    by code_simp
  then obtain s where s: "exec_all ?Q ?pl (take 6 sample_actions) ?s0 = Some s" "length (queues s) = 1"
    "served s ! 0 = []" "keep_running s" "map contents (arrivals s ! 0) = [Sync (), Irregular irregular_report_default]"
    by (auto split: option.splits)
  have r: "reachable ?Q ?pl ?qs s"
    by (rule exec_all_reachable [OF reachable.start s(1)])
      (simp add: pipeline_new_def token_new_def max_nof_radio_phy_pairs_one_tpoint_def)
  have "set ?pl = {..<length (queues s)}" using s(2) by auto
  with no_deadlock [OF list_fifo _ _ _ r s(4), of "\<lambda>_. []"] s(2) obtain s' where
    "worker_steps ?Q ?pl s s'" "served s' ! 0 = arrivals s ! 0" by (auto simp: mc_new_def)
  with r s(3,5) show ?thesis by (intro exI [of _ s] exI [of _ s']) simp
qed

text \<open>C14: The queue with a ring of slots gives the same guarantees as the one that is compiled in,
and its only failing assertion is that of a producer that finds the ring full.\<close>

theorem naive_queue_suffices:
  assumes "\<forall>q\<in>set qs. \<exists>n>0. q = naive_new n" "length qs \<le> 4" "reachable naive_ops pl qs s"
  shows "(\<forall>p<length (queues s). numbers (arrivals s ! p) \<and>
      served s ! p = take (length (served s ! p)) (arrivals s ! p)) \<and>
    (\<forall>v<length pl. \<forall>w<length pl. holds (workers s v) \<longrightarrow> holds (workers s w) \<longrightarrow> v = w) \<and>
    (\<forall>a e. exec naive_ops pl a s = Some (Inl e) \<longrightarrow>
      (\<exists>p c. a = Enqueue p c \<and> p < length (queues s) \<and> e = Assertion_failed \<and>
        length (naive_jobs (queues s ! p)) = unat (jq_capacity (queues s ! p)) - 1)) \<and>
    (keep_running s \<longrightarrow> set pl = {..<length (queues s)} \<longrightarrow> (\<exists>s'. worker_steps naive_ops pl s s' \<and>
      (\<forall>p<length (queues s). served s' ! p = arrivals s ! p)))"
proof -
  have qs: "\<forall>q\<in>set qs. naive_inv q \<and> naive_jobs q = [] \<and> fifo_cnt q = 0"
    using assms(1) naive_new_inv by (force simp: naive_new_def)
  note safe = np.reachable_safe [OF assms(3,2) qs]
  have inv: "np.pinv pl s" by (rule np.reachable_inv [OF assms(3,2) qs])
  have full: "length (naive_jobs (queues s ! p)) = unat (jq_capacity (queues s ! p)) - 1"
    if "p < length (queues s)" "q_enq naive_ops c (queues s ! p) = Inl Assertion_failed" for p c
  proof -
    have "naive_inv (queues s ! p)" using inv that(1) by (simp add: pipe_inv_def pool_inv_def)
    with naive_enqueue_cases [of "queues s ! p" c] that(2) show ?thesis
      by (cases "permeable (queues s ! p)") (auto simp: naive_ops_def naive_enqueue_nto_def)
  qed
  have "keep_running s \<Longrightarrow> set pl = {..<length (queues s)} \<Longrightarrow> \<exists>s'. worker_steps naive_ops pl s s' \<and>
      (\<forall>p<length (queues s). served s' ! p = arrivals s ! p)"
    using np.everything_served [OF inv manned_pools] by blast
  moreover have "\<exists>p c. a = Enqueue p c \<and> p < length (queues s) \<and> e = Assertion_failed \<and>
      length (naive_jobs (queues s ! p)) = unat (jq_capacity (queues s ! p)) - 1"
    if "exec naive_ops pl a s = Some (Inl e)" for a e
    using safe(3) [OF that] full by blast
  ultimately show ?thesis using safe(1,2) by blast
qed

theorem naive_queue_suffices_witness:
  "\<exists>s. reachable naive_ops [0, 0] [naive_new 3] s \<and>
    served s ! 0 = [\<lparr>contents = Sync (), job_cnt = 0\<rparr>, \<lparr>contents = Irregular irregular_report_default, job_cnt = 1\<rparr>] \<and>
    numbers (arrivals s ! 0)"
proof -
  let ?qs = "[naive_new 3] :: unit job_queue_naive list" and ?pl = "[0, 0]"
  let ?s0 = "projr (pipeline_new ?qs)"
  have "case exec_all naive_ops ?pl sample_actions ?s0 of None \<Rightarrow> False
    | Some s \<Rightarrow> length (queues s) = 1 \<and>
        served s ! 0 = [\<lparr>contents = Sync (), job_cnt = 0\<rparr>, \<lparr>contents = Irregular irregular_report_default, job_cnt = 1\<rparr>]"
    by code_simp
  then obtain s where s: "exec_all naive_ops ?pl sample_actions ?s0 = Some s" "length (queues s) = 1"
    "served s ! 0 = [\<lparr>contents = Sync (), job_cnt = 0\<rparr>, \<lparr>contents = Irregular irregular_report_default, job_cnt = 1\<rparr>]"
    by (auto split: option.splits)
  have r: "reachable naive_ops ?pl ?qs s"
    by (rule exec_all_reachable [OF reachable.start s(1)])
      (simp add: pipeline_new_def token_new_def max_nof_radio_phy_pairs_one_tpoint_def)
  have "\<forall>q\<in>set ?qs. \<exists>n>0. q = naive_new n" by (auto intro!: exI [of _ 3])
  with naive_queue_suffices [OF _ _ r] s r show ?thesis by auto
qed

end
