(* ===== verification/Numerology.thy ===== *)
theory Numerology
  imports Prelude "HOL-Library.Signed_Division"
begin

text \<open>
  Numerologies, modulation and coding schemes, transmission modes, radio device classes and
  durations of part 3 (\<open>src/lib/src/sections_part3\<close>). The members of type \<open>double\<close>
  (\<open>T_u_symb\<close>) are left out; every other member has its width of 32 bits.
\<close>

subsection \<open>Numerologies\<close>

definition N_b_DFT_min_u_b :: u32 where "N_b_DFT_min_u_b = 64"
definition N_b_CP_min_u_b :: u32 where "N_b_CP_min_u_b = 8"
definition N_b_DFT_CP_min_u_b :: u32 where "N_b_DFT_CP_min_u_b = N_b_DFT_min_u_b + N_b_CP_min_u_b"
definition samp_rate_min_u_b :: u32 where "samp_rate_min_u_b = 1728000"
definition subcarrier_spacing_min_u_b :: u32 where "subcarrier_spacing_min_u_b = 27000"
definition pcc_cells :: u32 where "pcc_cells = 98"

text \<open>\<open>std::has_single_bit\<close>.\<close>

definition has_single_bit :: "u32 \<Rightarrow> bool" where
  "has_single_bit x \<longleftrightarrow> x \<noteq> 0 \<and> x AND (x - 1) = 0"

definition u_defined :: "u32 \<Rightarrow> bool" where
  "u_defined u \<longleftrightarrow> has_single_bit u \<and> u \<le> 8"

definition b_defined :: "u32 \<Rightarrow> bool" where
  "b_defined b \<longleftrightarrow> has_single_bit b \<and> b \<le> 16 \<or> b = 12"

record numerologies_t =
  nm_u :: u32
  nm_b :: u32
  delta_u_f :: u32
  N_SLOT_u_symb :: u32
  N_SLOT_u_subslot :: u32
  B_u_b_DFT :: u32
  N_b_DFT :: u32
  N_b_CP :: u32
  N_b_OCC :: u32
  N_guards_top :: u32
  N_guards_bottom :: u32

definition get_numerologies :: "u32 \<Rightarrow> u32 \<Rightarrow> numerologies_t res" where
  "get_numerologies u b =
     assertE (u_defined u) (
     assertE (b_defined b) (
     let delta = u * subcarrier_spacing_min_u_b;
         dft = b * 64;
         occ = b * 56;
         top = (dft - occ) div 2 - 1
     in Inr \<lparr>nm_u = u, nm_b = b, delta_u_f = delta, N_SLOT_u_symb = u * 10,
             N_SLOT_u_subslot = u * 2, B_u_b_DFT = b * 64 * delta, N_b_DFT = dft,
             N_b_CP = b * 8, N_b_OCC = occ, N_guards_top = top, N_guards_bottom = top + 1\<rparr>))"

subsection \<open>Modulation and coding schemes, transmission modes\<close>

record mcs_t =
  mcs_idx :: u32
  N_bps :: u32
  R_numerator :: u32
  R_denominator :: u32

definition get_mcs :: "u32 \<Rightarrow> mcs_t res" where
  "get_mcs index =
     assertE (index \<le> 11) (
     let mk = (\<lambda>bps num den. Inr \<lparr>mcs_idx = index, N_bps = bps, R_numerator = num, R_denominator = den\<rparr>)
     in if index = 0 then mk 1 1 2
        else if index = 1 then mk 2 1 2
        else if index = 2 then mk 2 3 4
        else if index = 3 then mk 4 1 2
        else if index = 4 then mk 4 3 4
        else if index = 5 then mk 6 2 3
        else if index = 6 then mk 6 3 4
        else if index = 7 then mk 6 5 6
        else if index = 8 then mk 8 3 4
        else if index = 9 then mk 8 5 6
        else if index = 10 then mk 10 3 4
        else mk 10 5 6)"

record tm_mode_t =
  tm_idx :: u32
  N_eff_TX :: u32
  N_SS :: u32
  tm_cl :: bool
  N_TS :: u32
  N_TX :: u32

definition get_tm_mode :: "u32 \<Rightarrow> tm_mode_t res" where
  "get_tm_mode index =
     assertE (index \<le> 11) (
     let mk = (\<lambda>eff ss closed ts tx. Inr \<lparr>tm_idx = index, N_eff_TX = eff, N_SS = ss, tm_cl = closed,
                                           N_TS = ts, N_TX = tx\<rparr>)
     in if index = 0 then mk 1 1 False 1 1
        else if index = 1 then mk 2 1 False 2 2
        else if index = 2 then mk 2 2 False 2 2
        else if index = 3 then mk 1 1 True 1 2
        else if index = 4 then mk 2 2 True 2 2
        else if index = 5 then mk 4 1 False 4 4
        else if index = 6 then mk 4 4 False 4 4
        else if index = 7 then mk 1 1 True 1 4
        else if index = 8 then mk 2 2 True 2 4
        else if index = 9 then mk 4 4 True 4 4
        else if index = 10 then mk 8 1 False 8 8
        else mk 8 8 False 8 8)"

definition get_max_tm_mode_index_depending_on_N_TX :: "u32 \<Rightarrow> u32 res" where
  "get_max_tm_mode_index_depending_on_N_TX n =
     assertE (n = 1 \<or> n = 2 \<or> n = 4 \<or> n = 8) (
     Inr (if n = 1 then 0 else if n = 2 then 4 else if n = 4 then 9 else 11))"

definition get_tx_div_mode :: "u32 \<Rightarrow> u32 res" where
  "get_tx_div_mode n =
     assertE (n = 2 \<or> n = 4 \<or> n = 8) (Inr (if n = 2 then 1 else if n = 4 then 5 else 10))"

definition get_single_antenna_mode :: "u32 \<Rightarrow> u32 res" where
  "get_single_antenna_mode n =
     assertE (n = 1 \<or> n = 2 \<or> n = 4) (Inr (if n = 1 then 0 else if n = 2 then 3 else 7))"

definition get_equivalent_tm_mode :: "u32 \<Rightarrow> u32 \<Rightarrow> u32 res" where
  "get_equivalent_tm_mode eff ss =
     assertE (eff = 1 \<or> eff = 2 \<or> eff = 4 \<or> eff = 8) (
     assertE (ss > 0) (
     Inr (if eff = 1 then 0
          else if eff = 2 then (if ss = 1 then 1 else 2)
          else if eff = 4 then (if ss = 1 then 5 else 6)
          else if ss = 1 then 10 else 11)))"

subsection \<open>Radio device classes\<close>

record radio_device_class_t =
  radio_device_class_string :: string
  u_min :: u32
  b_min :: u32
  N_TX_min :: u32
  mcs_index_min :: u32
  M_DL_HARQ_min :: u32
  M_connection_DL_HARQ_min :: u32
  N_soft_min :: u32
  Z_min :: u32
  PacketLength_min :: u32

text \<open>No branch of the code stores the member \<open>radio_device_class_string\<close>: it stays empty.\<close>

definition get_radio_device_class :: "string \<Rightarrow> radio_device_class_t res" where
  "get_radio_device_class s =
     (let mk = (\<lambda>u b tx mcs soft z len.
            Inr \<lparr>radio_device_class_string = [], u_min = u, b_min = b, N_TX_min = tx,
                 mcs_index_min = mcs, M_DL_HARQ_min = 8, M_connection_DL_HARQ_min = 2,
                 N_soft_min = soft, Z_min = z, PacketLength_min = len\<rparr>)
      in if s = ''1.1.1.A'' then mk 1 1 1 7 25344 2048 4
         else if s = ''1.1.1.B'' then mk 1 1 1 7 25344 6144 4
         else if s = ''8.1.1.A'' then mk 8 1 1 7 25344 6144 4
         else if s = ''1.8.1.A'' then mk 1 8 1 7 25344 6144 4
         else if s = ''2.8.2.A'' then mk 2 8 2 7 25344 6144 4
         else if s = ''2.12.4.A'' then mk 2 12 4 7 25344 2048 4
         else if s = ''2.12.4.B'' then mk 2 12 4 7 25344 6144 4
         else if s = ''8.12.8.A'' then mk 8 12 8 9 225344 6144 16
         else if s = ''8.16.8.A'' then mk 8 16 8 9 225344 6144 16
         else Inl Assertion_failed)"

subsection \<open>Durations\<close>

definition slots_per_sec :: u32 where "slots_per_sec = 2400"
definition u1_subslots_per_sec :: u32 where "u1_subslots_per_sec = 4800"
definition u2_subslots_per_sec :: u32 where "u2_subslots_per_sec = 9600"
definition u4_subslots_per_sec :: u32 where "u4_subslots_per_sec = 19200"
definition u8_subslots_per_sec :: u32 where "u8_subslots_per_sec = 38400"

datatype duration_ec_t =
  ms001 | s001 | slot001 | subslot_u1_001 | subslot_u2_001 | subslot_u4_001 | subslot_u8_001

record duration_t =
  du_samp_rate :: u32
  du_ec :: duration_ec_t
  du_mult :: u32
  du_N_samples :: u32

fun samp_rate_divisor :: "duration_ec_t \<Rightarrow> u32" where
  "samp_rate_divisor ms001 = 1000"
| "samp_rate_divisor s001 = 1"
| "samp_rate_divisor slot001 = slots_per_sec"
| "samp_rate_divisor subslot_u1_001 = u1_subslots_per_sec"
| "samp_rate_divisor subslot_u2_001 = u2_subslots_per_sec"
| "samp_rate_divisor subslot_u4_001 = u4_subslots_per_sec"
| "samp_rate_divisor subslot_u8_001 = u8_subslots_per_sec"

text \<open>
  The constructor of \<open>duration_t\<close>. The product in the last assertion is taken in 64 bits;
  the bound is the maximum of 32 bits divided by two.
\<close>

definition mk_duration :: "u32 \<Rightarrow> duration_ec_t \<Rightarrow> u32 \<Rightarrow> duration_t res" where
  "mk_duration samp_rate ec mult =
     assertE (0 < samp_rate) (
     assertE (0 < mult) (
     let divisor = samp_rate_divisor ec in
     assertE (divisor > 0) (
     assertE (samp_rate mod divisor = 0) (
     let n = samp_rate div divisor in
     assertE (n > 0) (
     assertE (uint n * uint mult \<le> 2147483647) (
     Inr \<lparr>du_samp_rate = samp_rate, du_ec = ec, du_mult = mult, du_N_samples = n * mult\<rparr>))))))"

definition get_duration_ec_depending_on_mu :: "u32 \<Rightarrow> duration_ec_t res" where
  "get_duration_ec_depending_on_mu u =
     assertE (u_defined u) (
     Inr (if u = 1 then subslot_u1_001 else if u = 2 then subslot_u2_001
          else if u = 4 then subslot_u4_001 else subslot_u8_001))"

text \<open>\<open>multiple_leq\<close> and \<open>multiple_geq\<close>; the division of C++ truncates.\<close>

definition multiple_leq :: "int \<Rightarrow> int \<Rightarrow> int res" where
  "multiple_leq x m = assertE (m \<ge> 1) (Inr ((x sdiv m) * m))"

definition multiple_geq :: "int \<Rightarrow> int \<Rightarrow> int res" where
  "multiple_geq x m =
     bindE (multiple_leq x m) (\<lambda>leqm. Inr (if leqm < x then leqm + m else leqm))"

record duration_lut_t =
  lut_samp_rate :: u32
  duration_vec :: "int list"

definition all_durations :: "duration_ec_t list" where
  "all_durations = [ms001, s001, slot001, subslot_u1_001, subslot_u2_001, subslot_u4_001, subslot_u8_001]"

fun duration_index :: "duration_ec_t \<Rightarrow> nat" where
  "duration_index ms001 = 0"
| "duration_index s001 = 1"
| "duration_index slot001 = 2"
| "duration_index subslot_u1_001 = 3"
| "duration_index subslot_u2_001 = 4"
| "duration_index subslot_u4_001 = 5"
| "duration_index subslot_u8_001 = 6"

fun fill_duration_vec :: "u32 \<Rightarrow> duration_ec_t list \<Rightarrow> int list res" where
  "fill_duration_vec samp_rate [] = Inr []"
| "fill_duration_vec samp_rate (ec # ecs) =
     bindE (mk_duration samp_rate ec 1) (\<lambda>d.
     bindE (fill_duration_vec samp_rate ecs) (\<lambda>v. Inr (uint (du_N_samples d) # v)))"

definition mk_duration_lut :: "u32 \<Rightarrow> duration_lut_t res" where
  "mk_duration_lut samp_rate =
     bindE (fill_duration_vec samp_rate all_durations) (\<lambda>v.
     Inr \<lparr>lut_samp_rate = samp_rate, duration_vec = v\<rparr>)"

definition get_duration :: "duration_lut_t \<Rightarrow> duration_ec_t \<Rightarrow> u32 \<Rightarrow> duration_t res" where
  "get_duration lut ec mult = mk_duration (lut_samp_rate lut) ec mult"

definition get_N_samples_from_duration :: "duration_lut_t \<Rightarrow> duration_ec_t \<Rightarrow> u32 \<Rightarrow> int res" where
  "get_N_samples_from_duration lut ec mult =
     bindE (array_at (duration_vec lut) (duration_index ec)) (\<lambda>n. Inr (n * uint mult))"

definition get_N_samples_from_subslots :: "duration_lut_t \<Rightarrow> u32 \<Rightarrow> u32 \<Rightarrow> int res" where
  "get_N_samples_from_subslots lut u mult =
     bindE (get_duration_ec_depending_on_mu u) (\<lambda>ec. get_N_samples_from_duration lut ec mult)"

definition get_N_samples_at_last_full_second :: "duration_lut_t \<Rightarrow> int \<Rightarrow> int res" where
  "get_N_samples_at_last_full_second lut t = multiple_leq t (uint (lut_samp_rate lut))"

definition get_N_samples_at_next_full_second :: "duration_lut_t \<Rightarrow> int \<Rightarrow> int res" where
  "get_N_samples_at_next_full_second lut t = multiple_geq t (uint (lut_samp_rate lut))"

definition get_N_ns_from_samples :: "duration_lut_t \<Rightarrow> int \<Rightarrow> int" where
  "get_N_ns_from_samples lut n =
     (let rate = uint (lut_samp_rate lut); A = n sdiv rate; B = n smod rate
      in A * 1000000000 + (B * 1000000000) sdiv rate)"

definition get_N_us_from_samples :: "duration_lut_t \<Rightarrow> int \<Rightarrow> int" where
  "get_N_us_from_samples lut n = get_N_ns_from_samples lut n sdiv 1000"

definition get_N_duration_in_second :: "duration_lut_t \<Rightarrow> duration_t \<Rightarrow> u32 res" where
  "get_N_duration_in_second lut d =
     assertE (lut_samp_rate lut mod du_N_samples d = 0) (Inr (lut_samp_rate lut div du_N_samples d))"

end
