(* ===== verification/Packet_Sizes.thy ===== *)
theory Packet_Sizes
  imports Numerology
begin

text \<open>
  Transmission packet structure, transport block size, code block segmentation and the derived
  packet sizes (\<open>transmission_packet_structure.cpp\<close>, \<open>transport_block_size.cpp\<close>,
  the static functions of \<open>pdc.cpp\<close>, \<open>fix/cbsegm.cpp\<close>,
  \<open>derivative/packet_sizes.cpp\<close>). Everything is computed on 32 bits. The macro
  \<open>SRSRAN_CEIL\<close> of the srsRAN library is the parameter \<open>srsran_ceil\<close> of the
  definitions that reach it.
\<close>

subsection \<open>Transmission packet structure\<close>

definition ceil_divide_integer :: "u32 \<Rightarrow> u32 \<Rightarrow> u32" where
  "ceil_divide_integer x y = (x + y - 1) div y"

definition get_N_PACKET_symb :: "u32 \<Rightarrow> u32 \<Rightarrow> u32 \<Rightarrow> u32 \<Rightarrow> u32" where
  "get_N_PACKET_symb PacketLengthType PacketLength slot_symb slot_subslot =
     (if PacketLengthType = 0 then PacketLength * slot_symb div slot_subslot
      else PacketLength * slot_symb)"

definition get_N_samples_OFDM_symbol :: "u32 \<Rightarrow> u32" where
  "get_N_samples_OFDM_symbol b = N_b_DFT_CP_min_u_b * b"

definition get_N_samples_OFDM_symbol_CP_only :: "u32 \<Rightarrow> u32" where
  "get_N_samples_OFDM_symbol_CP_only b = N_b_CP_min_u_b * b"

definition get_N_samples_OFDM_symbol_without_CP :: "u32 \<Rightarrow> u32" where
  "get_N_samples_OFDM_symbol_without_CP b = N_b_DFT_min_u_b * b"

definition get_N_samples_STF :: "u32 \<Rightarrow> u32 \<Rightarrow> u32" where
  "get_N_samples_STF u b =
     (let n = get_N_samples_OFDM_symbol b
      in if u = 1 then n * 14 div 9 else if u = 2 \<or> u = 4 \<or> u = 8 then n * 2 else 0)"

definition get_N_samples_STF_CP_only :: "u32 \<Rightarrow> u32 \<Rightarrow> u32" where
  "get_N_samples_STF_CP_only u b = get_N_samples_STF u b - N_b_DFT_min_u_b * b"

definition get_N_DF_symb :: "u32 \<Rightarrow> u32 \<Rightarrow> u32" where
  "get_N_DF_symb u N_PACKET_symb =
     (if u = 1 then N_PACKET_symb - 2
      else if u = 2 \<or> u = 4 then N_PACKET_symb - 3
      else N_PACKET_symb - 4)"

definition get_N_samples_DF :: "u32 \<Rightarrow> u32 \<Rightarrow> u32 \<Rightarrow> u32" where
  "get_N_samples_DF u b N_PACKET_symb = get_N_samples_OFDM_symbol b * get_N_DF_symb u N_PACKET_symb"

definition get_N_samples_GI :: "u32 \<Rightarrow> u32 \<Rightarrow> u32" where
  "get_N_samples_GI u b =
     (let n = get_N_samples_OFDM_symbol b
      in if u = 1 then n * 4 div 9 else if u = 2 \<or> u = 4 then n else if u = 8 then n * 2 else 0)"

subsection \<open>Cells of the physical data channel\<close>

definition get_nof_OFDM_symbols_carrying_DRS_per_TS :: "u32 \<Rightarrow> u32 \<Rightarrow> u32 \<Rightarrow> u32 res" where
  "get_nof_OFDM_symbols_carrying_DRS_per_TS u N_PACKET_symb eff =
     assertE (\<not> (eff = 4 \<and> N_PACKET_symb < 15)) (
     assertE (\<not> (u = 8 \<and> eff = 8 \<and> (N_PACKET_symb < 20 \<or> N_PACKET_symb mod 10 \<noteq> 0))) (
     let N_step = (if eff \<le> 2 then 5 else 10);
         n = N_PACKET_symb div N_step
     in if N_step = 10 \<and> N_PACKET_symb mod 10 \<noteq> 0
        then assertE (N_PACKET_symb mod 5 = 0) (Inr (n + 1))
        else Inr n))"

definition get_N_DRS_subc :: "u32 \<Rightarrow> u32 \<Rightarrow> u32 \<Rightarrow> u32 \<Rightarrow> u32 res" where
  "get_N_DRS_subc u N_PACKET_symb eff occ =
     bindE (get_nof_OFDM_symbols_carrying_DRS_per_TS u N_PACKET_symb eff) (\<lambda>n.
     Inr (eff * occ div 4 * n))"

definition get_N_PDC_subc :: "u32 \<Rightarrow> u32 \<Rightarrow> u32 \<Rightarrow> u32 \<Rightarrow> u32 res" where
  "get_N_PDC_subc N_PACKET_symb u eff occ =
     (let N_PCC_subc = pcc_cells; DF = get_N_DF_symb u N_PACKET_symb
      in bindE (get_N_DRS_subc u N_PACKET_symb eff occ) (\<lambda>DRS.
         Inr (if DF * occ \<le> DRS + N_PCC_subc then 0 else DF * occ - DRS - N_PCC_subc)))"

subsection \<open>Transport block size\<close>

definition get_G :: "u32 \<Rightarrow> u32 \<Rightarrow> u32 \<Rightarrow> u32" where
  "get_G ss N_PDC bps = ss * N_PDC * bps"

definition get_N_PDC_bits :: "u32 \<Rightarrow> u32 \<Rightarrow> u32 \<Rightarrow> u32 \<Rightarrow> u32 \<Rightarrow> u32" where
  "get_N_PDC_bits ss N_PDC bps num den = get_G ss N_PDC bps * num div den"

definition get_N_TB_bits :: "u32 \<Rightarrow> u32 \<Rightarrow> u32 \<Rightarrow> u32 \<Rightarrow> u32 \<Rightarrow> u32 \<Rightarrow> u32" where
  "get_N_TB_bits ss N_PDC bps num den Z =
     (let bits = get_N_PDC_bits ss N_PDC bps num den;
          L = 24;
          M = (if bits \<le> 512 then 8 else if bits \<le> 1024 then 16 else if bits \<le> 2048 then 32 else 64);
          N_M = bits div M * M
      in if N_M = 0 then 0
         else if N_M \<le> L then 0
         else if N_M \<le> Z then N_M - L
         else let C = ceil_divide_integer (N_M - L) Z in N_M - (C + 1) * L)"

subsection \<open>Code block segmentation\<close>

text \<open>
  Table 5.1.3-3 of TS 36.212. The errors of the functions, \<open>SRSRAN_ERROR\<close> in the code, are
  \<open>None\<close>. \<open>SRSRAN_NOF_TC_CB_SIZES\<close> is the number of rows of the table.
\<close>

definition tc_cb_sizes :: "u32 list" where
  "tc_cb_sizes =
    [40, 48, 56, 64, 72, 80, 88, 96, 104, 112, 120, 128, 136, 144, 152, 160,
     168, 176, 184, 192, 200, 208, 216, 224, 232, 240, 248, 256, 264, 272, 280, 288,
     296, 304, 312, 320, 328, 336, 344, 352, 360, 368, 376, 384, 392, 400, 408, 416,
     424, 432, 440, 448, 456, 464, 472, 480, 488, 496, 504, 512, 528, 544, 560, 576,
     592, 608, 624, 640, 656, 672, 688, 704, 720, 736, 752, 768, 784, 800, 816, 832,
     848, 864, 880, 896, 912, 928, 944, 960, 976, 992, 1008, 1024, 1056, 1088, 1120, 1152,
     1184, 1216, 1248, 1280, 1312, 1344, 1376, 1408, 1440, 1472, 1504, 1536, 1568, 1600, 1632, 1664,
     1696, 1728, 1760, 1792, 1824, 1856, 1888, 1920, 1952, 1984, 2016, 2048, 2112, 2176, 2240, 2304,
     2368, 2432, 2496, 2560, 2624, 2688, 2752, 2816, 2880, 2944, 3008, 3072, 3136, 3200, 3264, 3328,
     3392, 3456, 3520, 3584, 3648, 3712, 3776, 3840, 3904, 3968, 4032, 4096, 4160, 4224, 4288, 4352,
     4416, 4480, 4544, 4608, 4672, 4736, 4800, 4864, 4928, 4992, 5056, 5120, 5184, 5248, 5312, 5376,
     5440, 5504, 5568, 5632, 5696, 5760, 5824, 5888, 5952, 6016, 6080, 6144]"

record cbsegm =
  cb_Z :: u32
  cb_tbs :: u32
  cb_C :: u32
  cb_K1 :: u32
  cb_K1_idx :: u32
  cb_K2 :: u32
  cb_K2_idx :: u32
  cb_C1 :: u32
  cb_C2 :: u32
  cb_F :: u32
  cb_L_tb :: u32
  cb_L_cb :: u32

definition cbsegm_zero :: cbsegm where
  "cbsegm_zero = \<lparr>cb_Z = 0, cb_tbs = 0, cb_C = 0, cb_K1 = 0, cb_K1_idx = 0, cb_K2 = 0, cb_K2_idx = 0,
     cb_C1 = 0, cb_C2 = 0, cb_F = 0, cb_L_tb = 0, cb_L_cb = 0\<rparr>"

definition cbsegm_cb_size :: "(u32 \<Rightarrow> u32 \<Rightarrow> u32) \<Rightarrow> u32 \<Rightarrow> u32 \<Rightarrow> u32 \<times> u32" where
  "cbsegm_cb_size srsran_ceil B Z =
     (if B \<le> Z then (1, B) else let C = srsran_ceil B (Z - 24) in (C, B + 24 * C))"

text \<open>The loop of \<open>srsran_cbsegm_cbindex_FIX\<close> over the rows \<open>rows\<close> from index \<open>j\<close>.\<close>

fun cbindex_loop :: "u32 list \<Rightarrow> nat \<Rightarrow> u32 \<Rightarrow> nat option" where
  "cbindex_loop [] j long_cb = None"
| "cbindex_loop (row # rows) j long_cb =
     (if row < long_cb then cbindex_loop rows (j + 1) long_cb else Some j)"

definition srsran_cbsegm_cbindex_FIX :: "u32 \<Rightarrow> nat option" where
  "srsran_cbsegm_cbindex_FIX long_cb = cbindex_loop tc_cb_sizes 0 long_cb"

definition srsran_cbsegm_cbsize_FIX :: "nat \<Rightarrow> u32 option" where
  "srsran_cbsegm_cbsize_FIX index =
     (if index < length tc_cb_sizes then Some (tc_cb_sizes ! index) else None)"

definition srsran_cbsegm_cbsize_isvalid_FIX :: "u32 \<Rightarrow> bool" where
  "srsran_cbsegm_cbsize_isvalid_FIX sz = list_ex (\<lambda>row. row = sz) tc_cb_sizes"

definition srsran_cbsegm_FIX :: "(u32 \<Rightarrow> u32 \<Rightarrow> u32) \<Rightarrow> u32 \<Rightarrow> u32 \<Rightarrow> cbsegm option" where
  "srsran_cbsegm_FIX srsran_ceil tbs Z =
     (if tbs = 0 then Some cbsegm_zero
      else let B = tbs + 24; (C, Bp) = cbsegm_cb_size srsran_ceil B Z
        in case srsran_cbsegm_cbindex_FIX ((Bp - 1) div C + 1) of None \<Rightarrow> None
         | Some idx1 \<Rightarrow>
        (case srsran_cbsegm_cbsize_FIX idx1 of None \<Rightarrow> None
         | Some K1 \<Rightarrow>
        (case (if idx1 > 0 then srsran_cbsegm_cbsize_FIX (idx1 - 1) else Some K1) of None \<Rightarrow> None
         | Some prev \<Rightarrow>
           let (K2, K2_idx, C2, C1) =
                 (if C = 1 then (0, 0, 0, 1)
                  else let C2 = (C * K1 - Bp) div (K1 - prev) in (prev, of_nat idx1 - 1, C2, C - C2))
           in Some \<lparr>cb_Z = Z, cb_tbs = tbs, cb_C = C, cb_K1 = K1, cb_K1_idx = of_nat idx1, cb_K2 = K2,
                   cb_K2_idx = K2_idx, cb_C1 = C1, cb_C2 = C2, cb_F = C1 * K1 + C2 * K2 - Bp,
                   cb_L_tb = 24, cb_L_cb = 24\<rparr>)))"

subsection \<open>Packet sizes\<close>

record packet_sizes_def_t =
  ps_u :: u32
  ps_b :: u32
  ps_PacketLengthType :: u32
  ps_PacketLength :: u32
  ps_tm_mode_index :: u32
  ps_mcs_index :: u32
  ps_Z :: u32

record packet_sizes_t =
  psdef :: packet_sizes_def_t
  numerology :: numerologies_t
  mcs :: mcs_t
  tm_mode :: tm_mode_t
  N_PACKET_symb :: u32
  N_PDC_subc :: u32
  G :: u32
  N_PDC_bits :: u32
  N_TB_bits :: u32
  N_TB_byte :: u32
  nof_cb :: u32
  N_DF_symb :: u32
  N_DRS_subc :: u32
  N_samples_OFDM_symbol :: u32
  N_samples_STF :: u32
  N_samples_STF_CP_only :: u32
  N_samples_DF :: u32
  N_samples_GI :: u32
  N_samples_packet_no_GI :: u32
  N_samples_packet :: u32

text \<open>
  The member \<open>C\<close> of \<open>packet_sizes_t\<close>, the number of code blocks, is \<open>nof_cb\<close>.
  \<open>None\<close> is \<open>std::nullopt\<close>; an error of the code block segmentation is a failing
  assertion. The body of \<open>get_packet_sizes\<close> is split in three: the checks of the arguments,
  the cells and bits that fit into the packet, and the segmentation and the samples.
\<close>

definition segment_and_sample ::
    "(u32 \<Rightarrow> u32 \<Rightarrow> u32) \<Rightarrow> packet_sizes_def_t \<Rightarrow> numerologies_t \<Rightarrow> tm_mode_t \<Rightarrow> mcs_t \<Rightarrow> u32 \<Rightarrow> u32 \<Rightarrow> u32 \<Rightarrow>
     packet_sizes_t option res" where
  "segment_and_sample srsran_ceil qq nmr tmm m N PDC TB =
     (let u = ps_u qq; b = ps_b qq; eff = N_eff_TX tmm in
     case srsran_cbsegm_FIX srsran_ceil TB (ps_Z qq) of
       None \<Rightarrow> Inl Assertion_failed
     | Some segm \<Rightarrow>
       if cb_F segm > 0 then Inr None
       else bindE (get_N_DRS_subc u N eff (N_b_OCC nmr)) (\<lambda>DRS.
       let STF = get_N_samples_STF u b;
           STF_CP = get_N_samples_STF_CP_only u b;
           DF = get_N_samples_DF u b N;
           GI = get_N_samples_GI u b;
           no_GI = STF + DF;
           packet = no_GI + GI
       in assertE (packet = STF_CP + 64 * b + DF + GI) (
          assertE (packet = get_N_samples_OFDM_symbol b * N) (
          Inr (Some \<lparr>psdef = qq, numerology = nmr, mcs = m, tm_mode = tmm, N_PACKET_symb = N,
            N_PDC_subc = PDC, G = get_G (N_SS tmm) PDC (N_bps m),
            N_PDC_bits = get_N_PDC_bits (N_SS tmm) PDC (N_bps m) (R_numerator m) (R_denominator m),
            N_TB_bits = TB, N_TB_byte = ceil_divide_integer TB 8, nof_cb = cb_C segm,
            N_DF_symb = get_N_DF_symb u N, N_DRS_subc = DRS,
            N_samples_OFDM_symbol = get_N_samples_OFDM_symbol b, N_samples_STF = STF,
            N_samples_STF_CP_only = STF_CP, N_samples_DF = DF, N_samples_GI = GI,
            N_samples_packet_no_GI = no_GI, N_samples_packet = packet\<rparr>)))))"

definition place_cells ::
    "(u32 \<Rightarrow> u32 \<Rightarrow> u32) \<Rightarrow> packet_sizes_def_t \<Rightarrow> numerologies_t \<Rightarrow> tm_mode_t \<Rightarrow> u32 \<Rightarrow> packet_sizes_t option res" where
  "place_cells srsran_ceil qq nmr tmm N =
     (let u = ps_u qq; eff = N_eff_TX tmm in
     if eff = 4 \<and> N < 15 then Inr None
     else if u = 8 \<and> eff = 8 \<and> (N < 20 \<or> N mod 10 \<noteq> 0) then Inr None
     else bindE (get_N_PDC_subc N u eff (N_b_OCC nmr)) (\<lambda>PDC.
     if PDC = 0 then Inr None
     else bindE (get_mcs (ps_mcs_index qq)) (\<lambda>m.
     let TB = get_N_TB_bits (N_SS tmm) PDC (N_bps m) (R_numerator m) (R_denominator m) (ps_Z qq) in
     if TB = 0 then Inr None
     else segment_and_sample srsran_ceil qq nmr tmm m N PDC TB)))"

definition get_packet_sizes ::
    "(u32 \<Rightarrow> u32 \<Rightarrow> u32) \<Rightarrow> packet_sizes_def_t \<Rightarrow> packet_sizes_t option res" where
  "get_packet_sizes srsran_ceil qq =
     (let u = ps_u qq; b = ps_b qq; Z = ps_Z qq in
     assertE (u_defined u) (
     assertE (b_defined b) (
     assertE (ps_PacketLengthType qq \<le> 1) (
     assertE (ps_PacketLength qq > 0 \<and> ps_PacketLength qq \<le> 16) (
     assertE (ps_tm_mode_index qq \<le> 11) (
     assertE (ps_mcs_index qq \<le> 11) (
     assertE (Z = 2048 \<or> Z = 6144) (
     bindE (get_numerologies u b) (\<lambda>nmr.
     let N = get_N_PACKET_symb (ps_PacketLengthType qq) (ps_PacketLength qq)
               (N_SLOT_u_symb nmr) (N_SLOT_u_subslot nmr) in
     assertE (N \<ge> 5 \<and> N \<le> 1280 \<and> N mod 5 = 0) (
     bindE (get_tm_mode (ps_tm_mode_index qq)) (\<lambda>tmm.
     place_cells srsran_ceil qq nmr tmm N)))))))))))"

definition sizes_dominate :: "packet_sizes_t \<Rightarrow> packet_sizes_t \<Rightarrow> bool" where
  "sizes_dominate q c \<longleftrightarrow>
     N_PACKET_symb q \<ge> N_PACKET_symb c \<and> N_PDC_subc q \<ge> N_PDC_subc c \<and> G q \<ge> G c \<and>
     N_PDC_bits q \<ge> N_PDC_bits c \<and> N_TB_bits q \<ge> N_TB_bits c \<and> N_TB_byte q \<ge> N_TB_byte c \<and>
     nof_cb q \<ge> nof_cb c \<and> N_DF_symb q \<ge> N_DF_symb c \<and> N_DRS_subc q \<ge> N_DRS_subc c \<and>
     N_samples_OFDM_symbol q \<ge> N_samples_OFDM_symbol c \<and> N_samples_STF q \<ge> N_samples_STF c \<and>
     N_samples_STF_CP_only q \<ge> N_samples_STF_CP_only c \<and> N_samples_DF q \<ge> N_samples_DF c \<and>
     N_samples_GI q \<ge> N_samples_GI c \<and> N_samples_packet_no_GI q \<ge> N_samples_packet_no_GI c \<and>
     N_samples_packet q \<ge> N_samples_packet c"

text \<open>
  The loop over \<open>u_check\<close>, which starts with 1 and is doubled while it is less than
  \<open>u_min\<close>, runs through \<open>u_checks u_min\<close>: a value of \<open>u_min\<close> above \<open>2 ^ 31\<close>,
  for which the counter would overflow, does not occur in \<open>get_radio_device_class\<close>.
\<close>

definition u_checks :: "u32 \<Rightarrow> u32 list" where
  "u_checks umin = takeWhile (\<lambda>u_check. u_check < umin) (map (\<lambda>k. push_bit k 1) [0..<32])"

fun check_smaller_u ::
    "(u32 \<Rightarrow> u32 \<Rightarrow> u32) \<Rightarrow> packet_sizes_def_t \<Rightarrow> packet_sizes_t \<Rightarrow> u32 list \<Rightarrow> packet_sizes_t res" where
  "check_smaller_u srsran_ceil ps q [] = Inr q"
| "check_smaller_u srsran_ceil ps q (u_check # checks) =
     bindE (get_packet_sizes srsran_ceil (ps\<lparr>ps_u := u_check\<rparr>)) (\<lambda>c.
     assertE (c \<noteq> None) (
     assertE (sizes_dominate q (the c)) (
     check_smaller_u srsran_ceil ps q checks)))"

definition maximum_psdef :: "radio_device_class_t \<Rightarrow> packet_sizes_def_t res" where
  "maximum_psdef rdc =
     bindE (get_max_tm_mode_index_depending_on_N_TX (N_TX_min rdc)) (\<lambda>tm.
     Inr \<lparr>ps_u = u_min rdc, ps_b = b_min rdc, ps_PacketLengthType = 1,
          ps_PacketLength = PacketLength_min rdc, ps_tm_mode_index = tm,
          ps_mcs_index = mcs_index_min rdc, ps_Z = Z_min rdc\<rparr>)"

definition get_maximum_packet_sizes_of :: "(u32 \<Rightarrow> u32 \<Rightarrow> u32) \<Rightarrow> radio_device_class_t \<Rightarrow> packet_sizes_t res" where
  "get_maximum_packet_sizes_of srsran_ceil rdc =
     bindE (maximum_psdef rdc) (\<lambda>ps.
     bindE (get_packet_sizes srsran_ceil ps) (\<lambda>q.
     assertE (q \<noteq> None) (
     check_smaller_u srsran_ceil ps (the q) (u_checks (u_min rdc)))))"

definition get_maximum_packet_sizes :: "(u32 \<Rightarrow> u32 \<Rightarrow> u32) \<Rightarrow> string \<Rightarrow> packet_sizes_t res" where
  "get_maximum_packet_sizes srsran_ceil s =
     bindE (get_radio_device_class s) (get_maximum_packet_sizes_of srsran_ceil)"

text \<open>The quotient is computed on 64 bits and stored into 32 bits.\<close>

definition get_N_samples_in_packet_length :: "packet_sizes_t \<Rightarrow> u32 \<Rightarrow> u32 res" where
  "get_N_samples_in_packet_length q samp_rate =
     (let A = ucast (N_samples_packet q) :: u64;
          B = ucast (ps_u (psdef q) * ps_b (psdef q) * samp_rate_min_u_b) :: u64;
          C = ucast samp_rate :: u64;
          ret = ucast ((A * C + B - 1) div B) :: u32
      in assertE (N_samples_packet q \<le> ret) (assertE (ret \<le> 0xFFFFFFFF) (Inr ret)))"

definition get_N_samples_in_packet_length_max :: "packet_sizes_t \<Rightarrow> u32 \<Rightarrow> u32 res" where
  "get_N_samples_in_packet_length_max q samp_rate =
     bindE (mk_duration samp_rate slot001 1) (\<lambda>d.
     Inr (ps_PacketLength (psdef q) * du_N_samples d))"

end
