(* ===== verification/Harq.thy ===== *)
theory Harq
  imports Packet_Sizes
begin

text \<open>
  HARQ processes (\<open>phy/harq\<close>, \<open>common/thread/lockable_outer_inner\<close>). The outer lock of a
  process is held from the choice of the process until it is terminated, the inner lock while the
  physical layer works on it. The locks are atomic flags; their memory order is not modelled.

  The soft buffers belong to the srsRAN library: their type is a parameter, and the operations
  called on them are the members of \<open>softbuffer_lib\<close>. The bytes behind the pointers
  \<open>a\<close> and \<open>d\<close> are not modelled, their lengths are.
\<close>

subsection \<open>Outer and inner lock\<close>

record lock_stats =
  st_outer_locked :: int
  st_inner_locked :: int
  st_outer_unlocked :: int
  st_inner_unlocked :: int

record lockable =
  lk_outer :: bool
  lk_inner :: bool
  lk_stats :: lock_stats

definition lockable_new :: lockable where
  "lockable_new = \<lparr>lk_outer = False, lk_inner = False,
     lk_stats = \<lparr>st_outer_locked = 0, st_inner_locked = 0, st_outer_unlocked = 0, st_inner_unlocked = 0\<rparr>\<rparr>"

definition is_outer_locked :: "'a lockable_scheme \<Rightarrow> bool" where
  "is_outer_locked p = lk_outer p"

definition is_inner_locked :: "'a lockable_scheme \<Rightarrow> bool" where
  "is_inner_locked p = lk_inner p"

definition is_outer_locked_inner_locked :: "'a lockable_scheme \<Rightarrow> bool" where
  "is_outer_locked_inner_locked p = (if is_outer_locked p \<and> is_inner_locked p then True else False)"

definition is_outer_locked_inner_unlocked :: "'a lockable_scheme \<Rightarrow> bool" where
  "is_outer_locked_inner_unlocked p = (if is_outer_locked p \<and> \<not> is_inner_locked p then True else False)"

definition count_outer_locked :: "'a lockable_scheme \<Rightarrow> 'a lockable_scheme" where
  "count_outer_locked p = p\<lparr>lk_stats := (lk_stats p)\<lparr>st_outer_locked := st_outer_locked (lk_stats p) + 1\<rparr>\<rparr>"

definition try_lock_outer :: "'a lockable_scheme \<Rightarrow> (bool \<times> 'a lockable_scheme) res" where
  "try_lock_outer p =
     (let old = lk_outer p; p1 = p\<lparr>lk_outer := True\<rparr>
      in if \<not> old then assertE (\<not> is_inner_locked p1) (Inr (True, count_outer_locked p1))
         else Inr (False, p1))"

definition lock_outer :: "'a lockable_scheme \<Rightarrow> 'a lockable_scheme res" where
  "lock_outer p =
     assertE (\<not> is_outer_locked p) (
     assertE (\<not> is_inner_locked p) (
     Inr (count_outer_locked (p\<lparr>lk_outer := True\<rparr>))))"

definition lock_inner :: "'a lockable_scheme \<Rightarrow> 'a lockable_scheme res" where
  "lock_inner p =
     assertE (is_outer_locked p) (
     assertE (\<not> is_inner_locked p) (
     Inr (p\<lparr>lk_inner := True,
            lk_stats := (lk_stats p)\<lparr>st_inner_locked := st_inner_locked (lk_stats p) + 1\<rparr>\<rparr>)))"

definition unlock_outer :: "'a lockable_scheme \<Rightarrow> 'a lockable_scheme res" where
  "unlock_outer p =
     assertE (is_outer_locked p) (
     assertE (\<not> is_inner_locked p) (
     Inr (p\<lparr>lk_stats := (lk_stats p)\<lparr>st_outer_unlocked := st_outer_unlocked (lk_stats p) + 1\<rparr>,
            lk_outer := False\<rparr>)))"

definition unlock_inner :: "'a lockable_scheme \<Rightarrow> 'a lockable_scheme res" where
  "unlock_inner p =
     assertE (is_outer_locked p) (
     assertE (is_inner_locked p) (
     Inr (p\<lparr>lk_stats := (lk_stats p)\<lparr>st_inner_unlocked := st_inner_unlocked (lk_stats p) + 1\<rparr>,
            lk_inner := False\<rparr>)))"

subsection \<open>Buffers\<close>

definition plcf_type_2_byte :: u32 where "plcf_type_2_byte = 10"
definition pcc_bits :: u32 where "pcc_bits = 196"
definition rv_max :: u32 where "rv_max = 3"
definition rv_unwrapped_max :: u32 where "rv_unwrapped_max = 7"
definition HARQ_SOFTBUFFER_SIZE_Z_6144_PDC :: u32 where "HARQ_SOFTBUFFER_SIZE_Z_6144_PDC = 18600"
definition HARQ_SOFTBUFFER_SIZE_Z_2048_PDC :: u32 where "HARQ_SOFTBUFFER_SIZE_Z_2048_PDC = 6400"
definition HARQ_SOFTBUFFER_SIZE_PCC :: u32 where "HARQ_SOFTBUFFER_SIZE_PCC = 500"
definition PHY_D_RX_DATA_TYPE_SIZE :: u32 where "PHY_D_RX_DATA_TYPE_SIZE = 2"

record 's softbuffer_lib =
  sb_init :: "u32 \<Rightarrow> u32 \<Rightarrow> 's option"
  sb_reset :: "'s \<Rightarrow> 's"
  sb_reset_cb :: "'s \<Rightarrow> u32 \<Rightarrow> 's"

record 's harq_buffer =
  a_len :: u32
  d_len :: u32
  a_cnt :: u32
  softbuffer_d :: 's

definition buffer_reset :: "'s softbuffer_lib \<Rightarrow> 's harq_buffer \<Rightarrow> 's harq_buffer" where
  "buffer_reset lib hb = hb\<lparr>a_cnt := 0, softbuffer_d := sb_reset lib (softbuffer_d hb)\<rparr>"

definition buffer_reset_cb :: "'s softbuffer_lib \<Rightarrow> u32 \<Rightarrow> 's harq_buffer \<Rightarrow> 's harq_buffer" where
  "buffer_reset_cb lib nof hb = hb\<lparr>a_cnt := 0, softbuffer_d := sb_reset_cb lib (softbuffer_d hb) nof\<rparr>"

definition add_a_cnt :: "u32 \<Rightarrow> 's harq_buffer \<Rightarrow> u32 \<times> 's harq_buffer" where
  "add_a_cnt n hb = (let hb' = hb\<lparr>a_cnt := a_cnt hb + n\<rparr> in (a_cnt hb', hb'))"

definition mk_buffer :: "'s softbuffer_lib \<Rightarrow> u32 \<Rightarrow> u32 \<Rightarrow> u32 \<Rightarrow> u32 \<Rightarrow> 's harq_buffer res" where
  "mk_buffer lib alen dlen nof cb_size =
     (case sb_init lib nof cb_size of
        None \<Rightarrow> Inl Assertion_failed
      | Some s \<Rightarrow> Inr (buffer_reset lib \<lparr>a_len = alen, d_len = dlen, a_cnt = 0, softbuffer_d = s\<rparr>))"

definition mk_buffer_tx_plcf :: "'s softbuffer_lib \<Rightarrow> 's harq_buffer res" where
  "mk_buffer_tx_plcf lib =
     mk_buffer lib plcf_type_2_byte (ceil_divide_integer pcc_bits 8) 1 HARQ_SOFTBUFFER_SIZE_PCC"

definition mk_buffer_tx_tb :: "'s softbuffer_lib \<Rightarrow> u32 \<Rightarrow> u32 \<Rightarrow> u32 \<Rightarrow> u32 \<Rightarrow> 's harq_buffer res" where
  "mk_buffer_tx_tb lib N_TB_byte_max G_max C_max Z =
     mk_buffer lib N_TB_byte_max (ceil_divide_integer G_max 8) C_max
       (if Z = 2048 then HARQ_SOFTBUFFER_SIZE_Z_2048_PDC else HARQ_SOFTBUFFER_SIZE_Z_6144_PDC)"

definition mk_buffer_rx :: "'s softbuffer_lib \<Rightarrow> u32 \<Rightarrow> u32 \<Rightarrow> u32 \<Rightarrow> u32 \<Rightarrow> 's harq_buffer res" where
  "mk_buffer_rx lib N_TB_byte_max G_max C_max Z =
     mk_buffer lib N_TB_byte_max (G_max * PHY_D_RX_DATA_TYPE_SIZE) C_max
       (if Z = 2048 then HARQ_SOFTBUFFER_SIZE_Z_2048_PDC else HARQ_SOFTBUFFER_SIZE_Z_6144_PDC)"

subsection \<open>Processes\<close>

definition numerologies_zero :: numerologies_t where
  "numerologies_zero = \<lparr>nm_u = 0, nm_b = 0, delta_u_f = 0, N_SLOT_u_symb = 0, N_SLOT_u_subslot = 0,
     B_u_b_DFT = 0, N_b_DFT = 0, N_b_CP = 0, N_b_OCC = 0, N_guards_top = 0, N_guards_bottom = 0\<rparr>"

definition packet_sizes_zero :: packet_sizes_t where
  "packet_sizes_zero =
     \<lparr>psdef = \<lparr>ps_u = 0, ps_b = 0, ps_PacketLengthType = 0, ps_PacketLength = 0, ps_tm_mode_index = 0,
               ps_mcs_index = 0, ps_Z = 0\<rparr>,
      numerology = numerologies_zero,
      mcs = \<lparr>mcs_idx = 0, N_bps = 0, R_numerator = 0, R_denominator = 0\<rparr>,
      tm_mode = \<lparr>tm_idx = 0, N_eff_TX = 0, N_SS = 0, tm_cl = False, N_TS = 0, N_TX = 0\<rparr>,
      N_PACKET_symb = 0, N_PDC_subc = 0, G = 0, N_PDC_bits = 0, N_TB_bits = 0, N_TB_byte = 0, nof_cb = 0,
      N_DF_symb = 0, N_DRS_subc = 0, N_samples_OFDM_symbol = 0, N_samples_STF = 0,
      N_samples_STF_CP_only = 0, N_samples_DF = 0, N_samples_GI = 0, N_samples_packet_no_GI = 0,
      N_samples_packet = 0\<rparr>"

record process = lockable +
  hp_id :: u32
  hp_PLCF_type :: u32
  hp_network_id :: u32
  hp_packet_sizes :: packet_sizes_t
  hp_rv :: u32

definition process_new :: "u32 \<Rightarrow> process" where
  "process_new pid = lockable.extend lockable_new
     \<lparr>hp_id = pid, hp_PLCF_type = 0, hp_network_id = 0, hp_packet_sizes = packet_sizes_zero, hp_rv = 0\<rparr>"

definition get_id :: "'a process_scheme \<Rightarrow> u32 res" where
  "get_id p = assertE (is_outer_locked_inner_locked p) (Inr (hp_id p))"

definition get_PLCF_type :: "'a process_scheme \<Rightarrow> u32 res" where
  "get_PLCF_type p =
     assertE (is_outer_locked_inner_locked p) (
     assertE (hp_PLCF_type p = 1 \<or> hp_PLCF_type p = 2) (Inr (hp_PLCF_type p)))"

definition get_network_id :: "'a process_scheme \<Rightarrow> u32 res" where
  "get_network_id p =
     assertE (is_outer_locked_inner_locked p) (assertE (hp_network_id p > 0) (Inr (hp_network_id p)))"

definition process_packet_sizes :: "'a process_scheme \<Rightarrow> packet_sizes_t res" where
  "process_packet_sizes p = assertE (is_outer_locked_inner_locked p) (Inr (hp_packet_sizes p))"

definition get_rv :: "'a process_scheme \<Rightarrow> u32 res" where
  "get_rv p =
     assertE (is_outer_locked_inner_locked p) (assertE (hp_rv p \<le> rv_max) (Inr (hp_rv p)))"

definition process_reset :: "'a process_scheme \<Rightarrow> 'a process_scheme res" where
  "process_reset p =
     assertE (is_outer_locked_inner_locked p) (
     Inr (p\<lparr>hp_PLCF_type := 0, hp_network_id := 0, hp_packet_sizes := packet_sizes_zero, hp_rv := 0\<rparr>))"

datatype finalize_tx_t = Tx_reset_and_terminate | Increase_rv_and_keep_running | Keep_rv_and_keep_running

datatype finalize_rx_t =
  Rx_reset_and_terminate | Keep_running | Keep_running_or_reset_and_terminate_if_crc_correct

record 's process_tx = process +
  hb_plcf :: "'s harq_buffer"
  tx_hb_tb :: "'s harq_buffer"
  rv_unwrapped :: u32
  finalize_tx :: finalize_tx_t

record 's process_rx = process +
  rx_hb_tb :: "'s harq_buffer"
  finalize_rx :: finalize_rx_t

definition mk_process_tx :: "'s softbuffer_lib \<Rightarrow> packet_sizes_t \<Rightarrow> u32 \<Rightarrow> 's process_tx res" where
  "mk_process_tx lib m pid =
     bindE (mk_buffer_tx_plcf lib) (\<lambda>plcf.
     bindE (mk_buffer_tx_tb lib (N_TB_byte m) (G m) (nof_cb m) (ps_Z (psdef m))) (\<lambda>tb.
     Inr (process.extend (process_new pid)
       \<lparr>hb_plcf = buffer_reset lib plcf, tx_hb_tb = buffer_reset_cb lib (nof_cb m) tb,
        rv_unwrapped = 0, finalize_tx = Tx_reset_and_terminate\<rparr>)))"

definition mk_process_rx :: "'s softbuffer_lib \<Rightarrow> packet_sizes_t \<Rightarrow> u32 \<Rightarrow> 's process_rx res" where
  "mk_process_rx lib m pid =
     bindE (mk_buffer_rx lib (N_TB_byte m) (G m) (nof_cb m) (ps_Z (psdef m))) (\<lambda>tb.
     Inr (process.extend (process_new pid)
       \<lparr>rx_hb_tb = buffer_reset_cb lib (nof_cb m) tb, finalize_rx = Rx_reset_and_terminate\<rparr>))"

definition set_next_rv :: "'s process_tx \<Rightarrow> 's process_tx res" where
  "set_next_rv p =
     assertE (is_outer_locked_inner_locked p) (
     bindE (if hp_rv p = 0 then Inr 2 else if hp_rv p = 1 then Inr 0 else if hp_rv p = 2 then Inr 3
            else if hp_rv p = 3 then Inr 1 else Inl Assertion_failed) (\<lambda>rv.
     let p' = p\<lparr>hp_rv := rv, rv_unwrapped := rv_unwrapped p + 1\<rparr>
     in assertE (rv_unwrapped p' \<le> rv_unwrapped_max) (Inr p')))"

definition tx_reset_and_terminate_func :: "'s softbuffer_lib \<Rightarrow> 's process_tx \<Rightarrow> 's process_tx res" where
  "tx_reset_and_terminate_func lib p =
     (let p1 = p\<lparr>hb_plcf := buffer_reset lib (hb_plcf p),
                 tx_hb_tb := buffer_reset_cb lib (nof_cb (hp_packet_sizes p)) (tx_hb_tb p),
                 rv_unwrapped := 0, finalize_tx := Tx_reset_and_terminate\<rparr>
      in bindE (process_reset p1) (\<lambda>p2. bindE (unlock_inner p2) unlock_outer))"

definition tx_finalize :: "'s softbuffer_lib \<Rightarrow> 's process_tx \<Rightarrow> 's process_tx res" where
  "tx_finalize lib p =
     (case finalize_tx p of
        Tx_reset_and_terminate \<Rightarrow> tx_reset_and_terminate_func lib p
      | Increase_rv_and_keep_running \<Rightarrow> bindE (set_next_rv p) unlock_inner
      | Keep_rv_and_keep_running \<Rightarrow> unlock_inner p)"

definition rx_reset_and_terminate_func :: "'s softbuffer_lib \<Rightarrow> 's process_rx \<Rightarrow> 's process_rx res" where
  "rx_reset_and_terminate_func lib p =
     (let p1 = p\<lparr>rx_hb_tb := buffer_reset_cb lib (nof_cb (hp_packet_sizes p)) (rx_hb_tb p),
                 finalize_rx := Rx_reset_and_terminate\<rparr>
      in bindE (process_reset p1) (\<lambda>p2. bindE (unlock_inner p2) unlock_outer))"

definition rx_finalize :: "'s softbuffer_lib \<Rightarrow> bool \<Rightarrow> 's process_rx \<Rightarrow> 's process_rx res" where
  "rx_finalize lib crc_status p =
     (case finalize_rx p of
        Rx_reset_and_terminate \<Rightarrow> rx_reset_and_terminate_func lib p
      | Keep_running \<Rightarrow> unlock_inner p
      | Keep_running_or_reset_and_terminate_if_crc_correct \<Rightarrow>
          if crc_status then rx_reset_and_terminate_func lib p else unlock_inner p)"

subsection \<open>Pool of processes\<close>

record ('t, 'r) process_pool =
  hp_tx_vec :: "'t process_tx list"
  hp_rx_vec :: "'r process_rx list"

fun mk_processes :: "(u32 \<Rightarrow> 'p res) \<Rightarrow> nat list \<Rightarrow> 'p list res" where
  "mk_processes mk [] = Inr []"
| "mk_processes mk (i # is) =
     bindE (mk (of_nat i)) (\<lambda>p. bindE (mk_processes mk is) (\<lambda>ps. Inr (p # ps)))"

definition mk_process_pool ::
    "'t softbuffer_lib \<Rightarrow> 'r softbuffer_lib \<Rightarrow> packet_sizes_t \<Rightarrow> u32 \<Rightarrow> u32 \<Rightarrow> ('t, 'r) process_pool res" where
  "mk_process_pool libt libr m nof_tx nof_rx =
     bindE (mk_processes (mk_process_tx libt m) [0..<unat nof_tx]) (\<lambda>txs.
     bindE (mk_processes (mk_process_rx libr m) [0..<unat nof_rx]) (\<lambda>rxs.
     Inr \<lparr>hp_tx_vec = txs, hp_rx_vec = rxs\<rparr>))"

text \<open>
  The loop over the processes: the first one whose outer lock is taken is prepared and locked. The
  result is the position of the process, or \<open>None\<close> for the null pointer.
\<close>

fun first_lockable ::
    "('a lockable_scheme \<Rightarrow> 'a lockable_scheme res) \<Rightarrow> nat \<Rightarrow> 'a lockable_scheme list \<Rightarrow>
     (nat option \<times> 'a lockable_scheme list) res" where
  "first_lockable prepare i [] = Inr (None, [])"
| "first_lockable prepare i (p # ps) =
     bindE (try_lock_outer p) (\<lambda>(locked, p1).
     if locked then bindE (prepare p1) (\<lambda>p2. bindE (lock_inner p2) (\<lambda>p3. Inr (Some i, p3 # ps)))
     else bindE (first_lockable prepare (i + 1) ps) (\<lambda>(r, ps'). Inr (r, p1 # ps')))"

definition prepare_tx :: "u32 \<Rightarrow> u32 \<Rightarrow> packet_sizes_t \<Rightarrow> finalize_tx_t \<Rightarrow> 's process_tx \<Rightarrow> 's process_tx res" where
  "prepare_tx PLCF_type network_id q ftx p =
     assertE (N_TB_byte q \<le> a_len (tx_hb_tb p)) (
     Inr (p\<lparr>hp_PLCF_type := PLCF_type, hp_network_id := network_id, hp_packet_sizes := q, finalize_tx := ftx\<rparr>))"

definition get_process_tx ::
    "(u32 \<Rightarrow> u32 \<Rightarrow> u32) \<Rightarrow> u32 \<Rightarrow> u32 \<Rightarrow> packet_sizes_def_t \<Rightarrow> finalize_tx_t \<Rightarrow> ('t, 'r) process_pool \<Rightarrow>
     (nat option \<times> ('t, 'r) process_pool) res" where
  "get_process_tx srsran_ceil PLCF_type network_id ps ftx pool =
     assertE (PLCF_type = 1 \<or> PLCF_type = 2) (
     bindE (get_packet_sizes srsran_ceil ps) (\<lambda>packet_sizes_opt.
     assertE (packet_sizes_opt \<noteq> None) (
     bindE (first_lockable (prepare_tx PLCF_type network_id (the packet_sizes_opt) ftx) 0 (hp_tx_vec pool))
       (\<lambda>(r, txs). Inr (r, pool\<lparr>hp_tx_vec := txs\<rparr>)))))"

definition prepare_rx ::
    "u32 \<Rightarrow> u32 \<Rightarrow> packet_sizes_t \<Rightarrow> u32 \<Rightarrow> finalize_rx_t \<Rightarrow> 's process_rx \<Rightarrow> 's process_rx res" where
  "prepare_rx PLCF_type network_id q rv frx p =
     assertE (N_TB_byte q \<le> a_len (rx_hb_tb p)) (
     Inr (p\<lparr>hp_PLCF_type := PLCF_type, hp_network_id := network_id, hp_packet_sizes := q, hp_rv := rv,
            finalize_rx := frx\<rparr>))"

definition get_process_rx ::
    "(u32 \<Rightarrow> u32 \<Rightarrow> u32) \<Rightarrow> u32 \<Rightarrow> u32 \<Rightarrow> packet_sizes_def_t \<Rightarrow> u32 \<Rightarrow> finalize_rx_t \<Rightarrow> ('t, 'r) process_pool \<Rightarrow>
     (nat option \<times> ('t, 'r) process_pool) res" where
  "get_process_rx srsran_ceil PLCF_type network_id ps rv frx pool =
     assertE (PLCF_type = 1 \<or> PLCF_type = 2) (
     bindE (get_packet_sizes srsran_ceil ps) (\<lambda>packet_sizes_opt.
     assertE (packet_sizes_opt \<noteq> None) (
     bindE (first_lockable (prepare_rx PLCF_type network_id (the packet_sizes_opt) rv frx) 0 (hp_rx_vec pool))
       (\<lambda>(r, rxs). Inr (r, pool\<lparr>hp_rx_vec := rxs\<rparr>)))))"

definition get_process_tx_running ::
    "u32 \<Rightarrow> finalize_tx_t \<Rightarrow> ('t, 'r) process_pool \<Rightarrow> (nat option \<times> ('t, 'r) process_pool) res" where
  "get_process_tx_running pid ftx pool =
     bindE (array_at (hp_tx_vec pool) (unat pid)) (\<lambda>p.
     assertE (is_outer_locked p) (
     if is_inner_locked p then Inr (None, pool)
     else bindE (lock_inner (p\<lparr>finalize_tx := ftx\<rparr>)) (\<lambda>p'.
          Inr (Some (unat pid), pool\<lparr>hp_tx_vec := (hp_tx_vec pool)[unat pid := p']\<rparr>))))"

definition get_process_rx_running ::
    "u32 \<Rightarrow> u32 \<Rightarrow> finalize_rx_t \<Rightarrow> ('t, 'r) process_pool \<Rightarrow> (nat option \<times> ('t, 'r) process_pool) res" where
  "get_process_rx_running pid rv frx pool =
     bindE (array_at (hp_rx_vec pool) (unat pid)) (\<lambda>p.
     assertE (is_outer_locked p) (
     if is_inner_locked p then Inr (None, pool)
     else bindE (lock_inner (p\<lparr>hp_rv := rv, finalize_rx := frx\<rparr>)) (\<lambda>p'.
          Inr (Some (unat pid), pool\<lparr>hp_rx_vec := (hp_rx_vec pool)[unat pid := p']\<rparr>))))"

end
