(* ===== verification/Segmentation.thy ===== *)
theory Segmentation
  imports Packet_Sizes
begin

text \<open>
  The transport block size and the code block segmentation over unbounded numbers, and the proof
  that the functions on 32 bits compute them: the number of code blocks assumed by the transport
  block size is the number the segmentation finds, and the segmentation needs no filler bits
  except for a transport block of 8 bits.
\<close>

subsection \<open>Reference definitions\<close>

definition tb_M :: "nat \<Rightarrow> nat" where
  "tb_M bits = (if bits \<le> 512 then 8 else if bits \<le> 1024 then 16 else if bits \<le> 2048 then 32 else 64)"

definition tb_N_M :: "nat \<Rightarrow> nat" where
  "tb_N_M bits = bits div tb_M bits * tb_M bits"

definition tb_blocks :: "nat \<Rightarrow> nat \<Rightarrow> nat" where
  "tb_blocks n Z = (if n \<le> Z then 1 else (n - 24 + Z - 1) div Z)"

definition tb_bits :: "nat \<Rightarrow> nat \<Rightarrow> nat" where
  "tb_bits bits Z =
     (let n = tb_N_M bits
      in if n \<le> 24 then 0 else if n \<le> Z then n - 24 else n - (tb_blocks n Z + 1) * 24)"

definition rounds_up :: "(u32 \<Rightarrow> u32 \<Rightarrow> u32) \<Rightarrow> bool" where
  "rounds_up srsran_ceil \<longleftrightarrow>
     (\<forall>x y. 0 < y \<and> unat x + unat y \<le> 2 ^ 32 \<longrightarrow>
        unat (srsran_ceil x y) = (unat x + unat y - 1) div unat y)"

subsection \<open>Words without wrap-around\<close>

lemma unat_add_u32: "unat x + unat y < 2 ^ 32 \<Longrightarrow> unat (x + y :: u32) = unat x + unat y"
  by (simp add: unat_word_ariths)

lemma unat_mult_u32: "unat x * unat y < 2 ^ 32 \<Longrightarrow> unat (x * y :: u32) = unat x * unat y"
  by (simp add: unat_word_ariths)

lemma unat_sub_u32: "unat y \<le> unat x \<Longrightarrow> unat (x - y :: u32) = unat x - unat y"
  by (simp add: unat_sub word_le_nat_alt)

lemma unat_div_u32: "unat (x div y :: u32) = unat x div unat y"
  by (simp add: unat_div)

lemma unat_mod_u32: "unat (x mod y :: u32) = unat x mod unat y"
  by (simp add: unat_mod)

lemmas unat_u32 = unat_add_u32 unat_mult_u32 unat_sub_u32 unat_div_u32 unat_mod_u32

lemma unat_ceil_divide_integer:
  assumes "0 < y" and "unat x + unat y \<le> 2 ^ 32"
  shows "unat (ceil_divide_integer x y) = (unat x + unat y - 1) div unat y"
proof -
  have "0 < unat y" using assms(1) by (simp add: word_less_nat_alt)
  have "unat (x + (y - 1)) = unat x + (unat y - 1)"
    using assms(2) \<open>0 < unat y\<close> by (simp add: unat_add_u32 unat_sub_u32)
  then show ?thesis
    using \<open>0 < unat y\<close> by (simp add: ceil_divide_integer_def unat_div add_diff_eq [symmetric])
qed

lemma rounds_up_ceil_divide_integer: "rounds_up ceil_divide_integer"
  unfolding rounds_up_def using unat_ceil_divide_integer by blast

lemma unat_srsran_ceil:
  "rounds_up c \<Longrightarrow> 0 < unat y \<Longrightarrow> unat x + unat y \<le> 2 ^ 32 \<Longrightarrow>
   unat (c x y) = (unat x + unat y - 1) div unat y"
  by (simp add: rounds_up_def word_less_nat_alt)

subsection \<open>Transport block size\<close>

lemma tb_N_M_le: "tb_N_M bits \<le> bits"
  by (simp add: tb_N_M_def)

lemma tb_bits_le: "tb_bits bits Z \<le> bits"
  using tb_N_M_le [of bits] unfolding tb_bits_def Let_def by (simp only: split: if_split) linarith

lemma block_size_cases: "Z = 2048 \<or> Z = 6144 \<Longrightarrow> P (2048 :: 'a) \<Longrightarrow> P 6144 \<Longrightarrow> P (Z :: 'a :: numeral)"
  by auto

lemma get_N_TB_bits_nat:
  assumes bits: "unat (get_N_PDC_bits ss n bps num den) = bits" and small: "bits < 2 ^ 31"
    and Z: "Z = 2048 \<or> Z = 6144"
  shows "unat (get_N_TB_bits ss n bps num den Z) = tb_bits bits (unat Z)"
proof -
  define x where "x = get_N_PDC_bits ss n bps num den"
  define M :: u32 where "M = (if x \<le> 512 then 8 else if x \<le> 1024 then 16 else if x \<le> 2048 then 32 else 64)"
  have x: "unat x = bits" using bits by (simp add: x_def)
  have M: "unat M = tb_M bits" by (simp add: M_def tb_M_def word_le_nat_alt x [symmetric])
  have NM: "unat (x div M * M) = tb_N_M bits"
  proof -
    have "unat (x div M) * unat M = tb_N_M bits" by (simp add: tb_N_M_def x M unat_div_u32)
    moreover have "tb_N_M bits < 2 ^ 32" using small tb_N_M_le [of bits] by simp
    ultimately have "unat (x div M) * unat M < 2 ^ 32" by simp
    then show ?thesis by (simp add: unat_mult_u32 unat_div_u32 x M tb_N_M_def)
  qed
  have le: "tb_N_M bits < 2 ^ 31" using tb_N_M_le [of bits] small by simp
  have Zn: "unat Z = 2048 \<or> unat Z = 6144" using Z by auto
  define NM where "NM = x div M * M"
  have eq: "get_N_TB_bits ss n bps num den Z =
    (if NM = 0 then 0 else if NM \<le> 24 then 0 else if NM \<le> Z then NM - 24
     else NM - (ceil_divide_integer (NM - 24) Z + 1) * 24)"
    by (simp add: get_N_TB_bits_def Let_def NM_def M_def x_def)
  have n: "unat NM = tb_N_M bits" using NM by (simp add: NM_def)
  show ?thesis
  proof (cases "unat NM \<le> unat Z")
    case True
    then show ?thesis
      by (auto simp: eq tb_bits_def Let_def n [symmetric] word_le_nat_alt unat_sub_u32)
  next
    case False
    then have gt: "tb_N_M bits > unat Z" by (simp add: n)
    have sub: "unat (NM - 24) = tb_N_M bits - 24"
      using gt Zn n by (subst unat_sub_u32) auto
    have C: "unat (ceil_divide_integer (NM - 24) Z) = tb_blocks (tb_N_M bits) (unat Z)"
      using gt Zn le by (subst unat_ceil_divide_integer) (auto simp: sub tb_blocks_def word_less_nat_alt)
    have small_C: "(tb_blocks (tb_N_M bits) (unat Z) + 1) * 24 \<le> tb_N_M bits"
      using gt Zn by (auto simp: tb_blocks_def)
    have "unat ((ceil_divide_integer (NM - 24) Z + 1) * 24) = (tb_blocks (tb_N_M bits) (unat Z) + 1) * 24"
      using small_C le by (simp add: unat_mult_u32 unat_add_u32 C)
    then have "unat (NM - (ceil_divide_integer (NM - 24) Z + 1) * 24) =
        tb_N_M bits - (tb_blocks (tb_N_M bits) (unat Z) + 1) * 24"
      using small_C by (simp add: unat_sub_u32 n)
    then show ?thesis
      using gt Zn by (auto simp: eq tb_bits_def Let_def n [symmetric] word_le_nat_alt)
  qed
qed

subsection \<open>The table of code block sizes\<close>

definition cb_row :: "nat \<Rightarrow> nat" where
  "cb_row k =
     (if k < 60 then 40 + 8 * k else if k < 92 then 528 + 16 * (k - 60)
      else if k < 124 then 1056 + 32 * (k - 92) else 2112 + 64 * (k - 124))"

lemma tc_cb_sizes_rows: "map unat tc_cb_sizes = map cb_row [0..<188]"
proof -
  have upt: "[0..<188] = 0 # 1 # [2..<188]"
    by (simp add: upt_conv_Cons numeral_2_eq_2)
  show ?thesis
    unfolding upt by (simp add: tc_cb_sizes_def cb_row_def upt_rec_numeral)
qed

lemma length_tc_cb_sizes [simp]: "length tc_cb_sizes = 188"
  using arg_cong [OF tc_cb_sizes_rows, of length] by simp

lemma tc_cb_sizes_nth: "k < 188 \<Longrightarrow> unat (tc_cb_sizes ! k) = cb_row k"
  using arg_cong [OF tc_cb_sizes_rows, of "\<lambda>xs. xs ! k"] by simp

lemma cbindex_loop_spec:
  "k < length rows \<Longrightarrow> x \<le> rows ! k \<Longrightarrow>
   \<exists>i < length rows. cbindex_loop rows j x = Some (j + i) \<and> x \<le> rows ! i \<and> (\<forall>l < i. rows ! l < x)"
proof (induction rows arbitrary: j k)
  case (Cons r rows)
  show ?case
  proof (cases "r < x")
    case False
    then show ?thesis by (intro exI [of _ 0]) auto
  next
    case True
    with Cons.prems obtain k' where "k = Suc k'" by (cases k) auto
    with Cons.prems Cons.IH [of k' "Suc j"] obtain i where i: "i < length rows"
      "cbindex_loop rows (Suc j) x = Some (Suc j + i)" "x \<le> rows ! i" "\<forall>l < i. rows ! l < x"
      by auto
    then show ?thesis
      using True by (intro exI [of _ "Suc i"]) (auto simp: less_Suc_eq_0_disj)
  qed
qed simp

lemma cbindex_FIX:
  assumes "unat x \<le> 6144"
  obtains k where "k < 188" "srsran_cbsegm_cbindex_FIX x = Some k" "unat x \<le> cb_row k"
    "0 < k \<Longrightarrow> cb_row (k - 1) < unat x"
proof -
  have "x \<le> tc_cb_sizes ! 187"
    using assms tc_cb_sizes_nth [of 187] by (simp add: word_le_nat_alt cb_row_def)
  from cbindex_loop_spec [of 187 tc_cb_sizes x 0, OF _ this] obtain k where
    k: "k < 188" "cbindex_loop tc_cb_sizes 0 x = Some k" "x \<le> tc_cb_sizes ! k"
       "\<forall>l < k. tc_cb_sizes ! l < x"
    by auto
  show ?thesis
  proof (rule that [of k])
    show "unat x \<le> cb_row k" using k tc_cb_sizes_nth [of k] by (simp add: word_le_nat_alt)
    show "cb_row (k - 1) < unat x" if "0 < k"
    proof -
      have "tc_cb_sizes ! (k - 1) < x" using k(4) that by simp
      then show ?thesis using k(1) tc_cb_sizes_nth [of "k - 1"] by (simp add: word_less_nat_alt)
    qed
  qed (use k in \<open>auto simp: srsran_cbsegm_cbindex_FIX_def\<close>)
qed

lemma cb_row_le: "k < 188 \<Longrightarrow> cb_row k \<le> 6144"
  by (auto simp: cb_row_def)

subsection \<open>Segmentation\<close>

lemma tb_N_M_dvd:
  "8 dvd tb_N_M bits"
  "512 < tb_N_M bits \<Longrightarrow> 16 dvd tb_N_M bits"
  "1024 < tb_N_M bits \<Longrightarrow> 32 dvd tb_N_M bits"
  "2048 < tb_N_M bits \<Longrightarrow> 64 dvd tb_N_M bits"
  using tb_N_M_le [of bits] by (auto simp: tb_N_M_def tb_M_def intro: dvd_mult)

text \<open>Neighbouring rows are 8, 16, 32 or 64 apart.\<close>

definition row_step :: "nat \<Rightarrow> nat \<Rightarrow> bool" where
  "row_step k s \<longleftrightarrow> cb_row k = cb_row (k - 1) + s \<and> s dvd cb_row k \<and>
     (s = 8 \<or> s = 16 \<and> 512 \<le> cb_row (k - 1) \<or> s = 32 \<and> 1024 \<le> cb_row (k - 1) \<or>
      s = 64 \<and> 2048 \<le> cb_row (k - 1))"

lemma row_step_exists:
  assumes "0 < k"
  obtains s where "row_step k s" "0 < s"
proof -
  define s :: nat where "s = (if k < 60 then 8 else if k < 92 then 16 else if k < 124 then 32 else 64)"
  obtain j where k: "k = Suc j" using assms by (cases k) auto
  have "row_step k s"
    unfolding row_step_def k diff_Suc_1 cb_row_def s_def
    by (auto simp: dvd_def) (presburger+)?
  then show thesis by (rule that) (simp add: s_def)
qed

lemma step_dvd:
  assumes "row_step k s" "cb_row (k - 1) < tb_N_M bits"
  shows "s dvd tb_N_M bits"
  using assms tb_N_M_dvd [of bits] unfolding row_step_def by auto

lemma between_multiples:
  assumes "(s :: nat) dvd a" "s dvd n" "n \<le> a" "a < n + s"
  shows "n = a"
proof (rule ccontr)
  assume "n \<noteq> a"
  with assms(3) have "0 < a - n" by simp
  moreover have "s dvd a - n" using assms(1,2) by (rule dvd_diff_nat)
  ultimately have "s \<le> a - n" by (simp add: dvd_imp_le)
  with assms(3,4) show False by linarith
qed

text \<open>A size that the transport block size rounds to is a row of the table.\<close>

lemma row_hit:
  assumes n: "40 \<le> tb_N_M bits" "tb_N_M bits \<le> cb_row k"
    and prev: "0 < k \<Longrightarrow> cb_row (k - 1) < tb_N_M bits"
  shows "cb_row k = tb_N_M bits"
proof (cases "k = 0")
  case True
  then show ?thesis using n by (simp add: cb_row_def)
next
  case False
  then obtain s where s: "row_step k s" "0 < s" using row_step_exists by auto
  have "s dvd tb_N_M bits" using s(1) prev False by (simp add: step_dvd)
  then show ?thesis
    using between_multiples [of s "cb_row k" "tb_N_M bits"] s n prev False by (auto simp: row_step_def)
qed

text \<open>The number of code blocks of the segmentation is the one of the transport block size.\<close>

lemma blocks_agree:
  assumes Z: "Z = 2048 \<or> Z = 6144" and n: "Z < n" "64 dvd n"
  defines "C \<equiv> tb_blocks n Z"
  shows "2 \<le> C" "n \<le> C * Z" "(C - 1) * Z + 24 < n" "24 * (C + 1) \<le> n" "Z < n - 24 * C"
    "(n - 24 * C + (Z - 24) - 1) div (Z - 24) = C"
proof -
  have C: "C = (n - 24 + Z - 1) div Z" using n by (simp add: C_def tb_blocks_def)
  obtain m where m: "n = 64 * m" using n(2) by (auto elim: dvdE)
  have le: "n - 24 \<le> C * Z" and gt: "C * Z < n - 24 + Z"
    using Z n unfolding C by auto
  show C2: "2 \<le> C" using le n m Z by auto
  show upper: "n \<le> C * Z" using le Z m by auto
  show lower: "(C - 1) * Z + 24 < n" using gt Z C2 n by auto
  show small: "24 * (C + 1) \<le> n" using gt Z n C2 by auto
  show "Z < n - 24 * C"
  proof (cases "C = 2")
    case True
    have "Z + 64 \<le> n" using n(1) m Z by auto
    with True show ?thesis by simp
  next
    case False
    with C2 have "3 \<le> C" by simp
    with gt Z n(1) show ?thesis by auto
  qed
  have "C * (Z - 24) \<le> n - 24 * C + (Z - 24) - 1"
    using lower small Z by (auto simp: algebra_simps)
  moreover have "n - 24 * C + (Z - 24) - 1 < Suc C * (Z - 24)"
    using upper small Z by (auto simp: algebra_simps)
  ultimately show "(n - 24 * C + (Z - 24) - 1) div (Z - 24) = C"
    by (metis div_nat_eqI mult.commute)
qed

text \<open>Two neighbouring rows split a size without remainder.\<close>

lemma split_rows:
  assumes k: "row_step k s" "0 < s" and n: "64 dvd n" "n \<le> C * cb_row k" "C * cb_row (k - 1) < n"
  defines "D \<equiv> (C * cb_row k - n) div s"
  shows "D \<le> C" "(C - D) * cb_row k + D * cb_row (k - 1) = n"
proof -
  have step: "cb_row k = cb_row (k - 1) + s" using k(1) by (simp add: row_step_def)
  have "s dvd 64" using k(1) by (auto simp: row_step_def)
  then have "s dvd n" using n(1) dvd_trans by blast
  moreover have "s dvd C * cb_row k" using k(1) unfolding row_step_def by (blast intro: dvd_mult)
  ultimately have "s dvd C * cb_row k - n" by (simp add: dvd_diff_nat)
  then have D: "D * s = C * cb_row k - n" by (simp add: D_def)
  also have "\<dots> < C * s" using n(2,3) step by (simp add: algebra_simps)
  finally show le: "D \<le> C" using k(2) by simp
  have "(C - D) * cb_row k + D * cb_row (k - 1) = C * cb_row k - D * s"
  proof -
    obtain E where "C = D + E" using le le_Suc_ex by blast
    then show ?thesis using step by (simp add: algebra_simps)
  qed
  then show "(C - D) * cb_row k + D * cb_row (k - 1) = n" using D n(2) by simp
qed

lemma tb_bits_pos:
  assumes "0 < tb_bits bits Z" "Z = 2048 \<or> Z = 6144"
  shows "32 \<le> tb_N_M bits"
    and "tb_N_M bits \<le> Z \<Longrightarrow> tb_bits bits Z = tb_N_M bits - 24"
    and "Z < tb_N_M bits \<Longrightarrow> tb_bits bits Z = tb_N_M bits - (tb_blocks (tb_N_M bits) Z + 1) * 24"
proof -
  have gt: "24 < tb_N_M bits" using assms(1) by (auto simp: tb_bits_def Let_def split: if_splits)
  obtain j where "tb_N_M bits = 8 * j" using tb_N_M_dvd(1) [of bits] by (auto elim: dvdE)
  with gt show "32 \<le> tb_N_M bits" by auto
qed (use assms in \<open>auto simp: tb_bits_def Let_def split: if_splits\<close>)

lemma segmentation_one_block:
  assumes B: "unat tbs + 24 = n" "n = tb_N_M bits" and n: "n \<le> unat Z" "32 \<le> n"
    and Z: "Z = 2048 \<or> Z = 6144"
  shows "\<exists>s. srsran_cbsegm_FIX c tbs Z = Some s \<and> cb_C s = 1 \<and> (0 < cb_F s \<longleftrightarrow> n = 32)"
proof -
  have small: "n \<le> 6144" using n Z by auto
  have unat_B: "unat (tbs + 24) = n" using B small by (simp add: unat_add_u32)
  have tbs: "tbs \<noteq> 0" using B n by auto
  have size: "cbsegm_cb_size c (tbs + 24) Z = (1, tbs + 24)"
    using n unat_B by (simp add: cbsegm_cb_size_def word_le_nat_alt)
  have long: "(tbs + 24 - 1) div 1 + 1 = tbs + 24" by simp
  obtain k where k: "k < 188" "srsran_cbsegm_cbindex_FIX (tbs + 24) = Some k" "n \<le> cb_row k"
    "0 < k \<Longrightarrow> cb_row (k - 1) < n"
    using cbindex_FIX [of "tbs + 24"] small by (metis unat_B)
  have F: "0 < tc_cb_sizes ! k - (tbs + 24) \<longleftrightarrow> n = 32"
  proof (cases "40 \<le> n")
    case True
    then have "cb_row k = n" using row_hit [of bits k] k B by simp
    then have "tc_cb_sizes ! k = tbs + 24"
      using k(1) unat_B tc_cb_sizes_nth by (simp add: word_unat_eq_iff)
    then show ?thesis using True by simp
  next
    case False
    have "8 dvd n" using tb_N_M_dvd(1) B by simp
    with False n have "n = 32" by (auto elim!: dvdE)
    moreover have "unat (tc_cb_sizes ! k) > n"
      using k(1) \<open>n = 32\<close> tc_cb_sizes_nth [of k] by (simp add: cb_row_def)
    ultimately show ?thesis using unat_B by (auto simp: word_less_nat_alt unat_sub_u32)
  qed
  show ?thesis
    unfolding srsran_cbsegm_FIX_def Let_def size
    using tbs k(1,2) F by (cases "k = 0") (simp_all add: long srsran_cbsegm_cbsize_FIX_def)
qed

lemma segmentation_several_blocks:
  assumes c: "rounds_up c" and Z: "Z = 2048 \<or> Z = 6144" and n: "unat Z < n" "64 dvd n" "n < 2 ^ 29"
    and tbs: "unat tbs = n - (tb_blocks n (unat Z) + 1) * 24"
  shows "\<exists>s. srsran_cbsegm_FIX c tbs Z = Some s \<and> unat (cb_C s) = tb_blocks n (unat Z) \<and> cb_F s = 0"
proof -
  define C where "C = tb_blocks n (unat Z)"
  have Zn: "unat Z = 2048 \<or> unat Z = 6144" using Z by auto
  note blocks = blocks_agree [OF Zn n(1,2), folded C_def]
  have C_small: "C * 6144 < 2 ^ 32"
    using blocks(3) Zn n(3) by auto
  have B: "unat (tbs + 24) = n - 24 * C"
    using tbs blocks(4) n(3) by (simp add: unat_add_u32 C_def [symmetric])
  have Z24: "unat (Z - 24) = unat Z - 24" using Zn by (subst unat_sub_u32) auto
  define Cw where "Cw = c (tbs + 24) (Z - 24)"
  have Cw: "unat Cw = C"
    unfolding Cw_def using c Z24 Zn B n(3) blocks(6) by (subst unat_srsran_ceil) auto
  define Bp where "Bp = tbs + 24 + 24 * Cw"
  have Bp: "unat Bp = n"
    using B Cw blocks(4) n(3) unfolding Bp_def by (simp add: unat_add_u32 unat_mult_u32)
  have size: "cbsegm_cb_size c (tbs + 24) Z = (Cw, Bp)"
    using blocks(5) B by (simp add: cbsegm_cb_size_def word_le_nat_alt Cw_def Bp_def Let_def)
  have tbs0: "tbs \<noteq> 0" using B blocks(5) Zn by auto
  define long where "long = (Bp - 1) div Cw + 1"
  have "(n - 1) div C < unat Z" using blocks(1,2) n(1) by (simp add: div_less_iff_less_mult mult.commute)
  moreover have "unat (Bp - 1) = n - 1" using n(1) Bp by (simp add: unat_sub_u32)
  ultimately have long: "unat long = (n - 1) div C + 1" and bound: "(n - 1) div C + 1 \<le> 6144"
    using Zn unfolding long_def by (auto simp: unat_add_u32 unat_div_u32 Cw)
  obtain k where k: "k < 188" "srsran_cbsegm_cbindex_FIX long = Some k" "unat long \<le> cb_row k"
    "0 < k \<Longrightarrow> cb_row (k - 1) < unat long"
    using cbindex_FIX [of long] long bound by metis
  have "1024 * C + 1 \<le> n" using blocks(1,3) Zn by auto
  then have "1024 \<le> (n - 1) div C" using blocks(1) by (simp add: less_eq_div_iff_mult_less_eq)
  then have k0: "0 < k" using k(3) long by (cases k) (auto simp: cb_row_def)
  then obtain s where s: "row_step k s" "0 < s" by (rule row_step_exists)
  have "n - 1 < C * Suc ((n - 1) div C)" using dividend_less_div_times [of C "n - 1"] blocks(1)
    by (simp add: mult.commute)
  also have "\<dots> \<le> C * cb_row k" using k(3) long by (intro mult_le_mono) auto
  finally have K1: "n \<le> C * cb_row k" by simp
  have "cb_row (k - 1) * C \<le> n - 1"
    using k(4) [OF k0] long blocks(1) by (simp add: less_eq_div_iff_mult_less_eq [symmetric])
  then have K2: "C * cb_row (k - 1) < n" using n(1) by (simp add: mult.commute)
  define D where "D = (C * cb_row k - n) div s"
  note rows = split_rows [OF s n(2) K1 K2, folded D_def]
  define K1w K2w where "K1w = tc_cb_sizes ! k" and "K2w = tc_cb_sizes ! (k - 1)"
  have Kw: "unat K1w = cb_row k" "unat K2w = cb_row (k - 1)"
    using k(1) by (simp_all add: K1w_def K2w_def tc_cb_sizes_nth)
  have "C * cb_row k \<le> C * 6144" using cb_row_le [OF k(1)] by (rule mult_le_mono2)
  with C_small have "unat Cw * unat K1w < 2 ^ 32" unfolding Cw Kw by linarith
  then have prod: "unat (Cw * K1w) = C * cb_row k" by (simp add: unat_mult_u32 Cw Kw)
  have step: "unat (K1w - K2w) = s" using s by (simp add: unat_sub_u32 Kw row_step_def)
  define Dw where "Dw = (Cw * K1w - Bp) div (K1w - K2w)"
  have Dw: "unat Dw = D" using K1 by (simp add: Dw_def D_def unat_div_u32 step unat_sub_u32 prod Bp)
  have diff: "unat (Cw - Dw) = C - D" using rows(1) by (simp add: unat_sub_u32 Cw Dw)
  have "unat ((Cw - Dw) * K1w) = (C - D) * cb_row k" "unat (Dw * K2w) = D * cb_row (k - 1)"
    using rows(2) n(3) by (simp_all add: unat_mult_u32 diff Kw Dw)
  then have "unat ((Cw - Dw) * K1w + Dw * K2w) = n"
    using rows(2) n(3) by (simp add: unat_add_u32)
  then have F: "(Cw - Dw) * K1w + Dw * K2w = Bp" by (simp add: word_unat_eq_iff Bp)
  have "Cw \<noteq> 1" using Cw blocks(1) by auto
  then show ?thesis
    unfolding srsran_cbsegm_FIX_def Let_def size prod.case long_def [symmetric]
    using tbs0 k(1,2) k0 Cw F [unfolded Dw_def K1w_def K2w_def]
    by (simp add: srsran_cbsegm_cbsize_FIX_def C_def)
qed

text \<open>
  The segmentation of a transport block of the size that \<open>get_N_TB_bits\<close> computes succeeds; it
  has filler bits only for a transport block of 8 bits.
\<close>

definition segm_blocks :: "nat \<Rightarrow> nat \<Rightarrow> nat" where
  "segm_blocks bits Z = tb_blocks (tb_N_M bits) Z"

lemma segmentation:
  assumes c: "rounds_up c" and Z: "Z = 2048 \<or> Z = 6144"
    and bits: "bits < 2 ^ 29" "0 < tb_bits bits (unat Z)" and tbs: "unat tbs = tb_bits bits (unat Z)"
  obtains s where "srsran_cbsegm_FIX c tbs Z = Some s" "unat (cb_C s) = segm_blocks bits (unat Z)"
    "0 < cb_F s \<longleftrightarrow> tb_bits bits (unat Z) = 8"
proof -
  have Zn: "unat Z = 2048 \<or> unat Z = 6144" using Z by auto
  note tb = tb_bits_pos [OF bits(2) Zn]
  show thesis
  proof (cases "tb_N_M bits \<le> unat Z")
    case True
    then have "unat tbs + 24 = tb_N_M bits" using tb tbs by simp
    from segmentation_one_block [OF this refl True tb(1) Z, of c] obtain s where
      "srsran_cbsegm_FIX c tbs Z = Some s" "cb_C s = 1" "0 < cb_F s \<longleftrightarrow> tb_N_M bits = 32" by blast
    then show ?thesis
      using that [of s] True tb by (auto simp: segm_blocks_def tb_blocks_def)
  next
    case False
    then have gt: "unat Z < tb_N_M bits" by simp
    have dvd: "64 dvd tb_N_M bits" using tb_N_M_dvd(4) [of bits] gt Zn by auto
    have small: "tb_N_M bits < 2 ^ 29" using tb_N_M_le [of bits] bits(1) by simp
    have "unat tbs = tb_N_M bits - (tb_blocks (tb_N_M bits) (unat Z) + 1) * 24"
      using tbs tb(3) gt by simp
    from segmentation_several_blocks [OF c Z gt dvd small this] obtain s where
      s: "srsran_cbsegm_FIX c tbs Z = Some s" "unat (cb_C s) = tb_blocks (tb_N_M bits) (unat Z)"
        "cb_F s = 0" by blast
    have "tb_bits bits (unat Z) \<noteq> 8"
      using blocks_agree(5) [OF Zn gt dvd] tb(3) [OF gt] Zn by auto
    then show ?thesis using that [of s] s by (simp add: segm_blocks_def)
  qed
qed

end
