(* ===== verification/Packet_Sizes_Correct.thy ===== *)
theory Packet_Sizes_Correct
  imports Segmentation
begin

text \<open>
  The packet sizes over unbounded numbers and the proof that \<open>get_packet_sizes\<close> computes them
  on 32 bits for every packet definition in range: no assertion fails, no operation wraps around,
  and the packet is impossible for the stated reasons only.
\<close>

subsection \<open>Reference definitions\<close>

definition psdef_ok :: "packet_sizes_def_t \<Rightarrow> bool" where
  "psdef_ok qq \<longleftrightarrow>
     u_defined (ps_u qq) \<and> b_defined (ps_b qq) \<and> ps_PacketLengthType qq \<le> 1 \<and>
     0 < ps_PacketLength qq \<and> ps_PacketLength qq \<le> 16 \<and> ps_tm_mode_index qq \<le> 11 \<and>
     ps_mcs_index qq \<le> 11 \<and> (ps_Z qq = 2048 \<or> ps_Z qq = 6144)"

definition ref_eff :: "packet_sizes_def_t \<Rightarrow> nat" where
  "ref_eff qq = unat (N_eff_TX (projr (get_tm_mode (ps_tm_mode_index qq))))"

definition ref_ss :: "packet_sizes_def_t \<Rightarrow> nat" where
  "ref_ss qq = unat (N_SS (projr (get_tm_mode (ps_tm_mode_index qq))))"

definition ref_symb :: "packet_sizes_def_t \<Rightarrow> nat" where
  "ref_symb qq = (if ps_PacketLengthType qq = 0 then 5 * unat (ps_PacketLength qq)
                  else 10 * unat (ps_u qq) * unat (ps_PacketLength qq))"

text \<open>OFDM symbols that carry neither data nor control cells: the STF and the guard interval.\<close>

definition ref_gap :: "nat \<Rightarrow> nat" where
  "ref_gap u = (if u = 1 then 2 else if u = 2 \<or> u = 4 then 3 else 4)"

definition ref_drs_symb :: "nat \<Rightarrow> nat \<Rightarrow> nat" where
  "ref_drs_symb eff N = (if eff \<le> 2 then N div 5 else (N + 9) div 10)"

definition ref_drs :: "nat \<Rightarrow> nat \<Rightarrow> nat \<Rightarrow> nat" where
  "ref_drs b N eff = 14 * eff * b * ref_drs_symb eff N"

definition ref_cells :: "nat \<Rightarrow> nat \<Rightarrow> nat \<Rightarrow> nat \<Rightarrow> nat" where
  "ref_cells u b N eff = (N - ref_gap u) * (56 * b) - (ref_drs b N eff + 98)"

definition ref_pdc :: "packet_sizes_def_t \<Rightarrow> nat" where
  "ref_pdc qq = ref_cells (unat (ps_u qq)) (unat (ps_b qq)) (ref_symb qq) (ref_eff qq)"

definition ref_G :: "packet_sizes_def_t \<Rightarrow> nat" where
  "ref_G qq = ref_ss qq * ref_pdc qq * unat (N_bps (projr (get_mcs (ps_mcs_index qq))))"

definition ref_bits :: "packet_sizes_def_t \<Rightarrow> nat" where
  "ref_bits qq = ref_G qq * unat (R_numerator (projr (get_mcs (ps_mcs_index qq))))
                 div unat (R_denominator (projr (get_mcs (ps_mcs_index qq))))"

definition ref_tb :: "packet_sizes_def_t \<Rightarrow> nat" where
  "ref_tb qq = tb_bits (ref_bits qq) (unat (ps_Z qq))"

definition ref_room :: "packet_sizes_def_t \<Rightarrow> bool" where
  "ref_room qq \<longleftrightarrow>
     \<not> (ref_eff qq = 4 \<and> ref_symb qq < 15) \<and>
     \<not> (ps_u qq = 8 \<and> ref_eff qq = 8 \<and> (ref_symb qq < 20 \<or> ref_symb qq mod 10 \<noteq> 0)) \<and>
     0 < ref_pdc qq"

definition ref_possible :: "packet_sizes_def_t \<Rightarrow> bool" where
  "ref_possible qq \<longleftrightarrow> ref_room qq \<and> 0 < ref_tb qq \<and> ref_tb qq \<noteq> 8"

definition sizes_as_specified :: "packet_sizes_def_t \<Rightarrow> packet_sizes_t \<Rightarrow> bool" where
  "sizes_as_specified qq q \<longleftrightarrow>
     psdef q = qq \<and> unat (N_PACKET_symb q) = ref_symb qq \<and> unat (N_PDC_subc q) = ref_pdc qq \<and>
     unat (N_DRS_subc q) = ref_drs (unat (ps_b qq)) (ref_symb qq) (ref_eff qq) \<and>
     unat (G q) = ref_G qq \<and> unat (N_PDC_bits q) = ref_bits qq \<and>
     unat (N_TB_bits q) = ref_tb qq \<and> 8 * unat (N_TB_byte q) = ref_tb qq \<and>
     unat (nof_cb q) = segm_blocks (ref_bits qq) (unat (ps_Z qq)) \<and>
     unat (N_samples_packet q) = 72 * unat (ps_b qq) * ref_symb qq \<and>
     N_samples_packet_no_GI q + N_samples_GI q = N_samples_packet q"

subsection \<open>Finite ranges\<close>

lemma u_defined_cases: "u_defined u \<Longrightarrow> u \<in> {1, 2, 4, 8}"
proof -
  assume u: "u_defined u"
  then have "unat u \<le> 8" by (simp add: u_defined_def word_le_nat_alt)
  then have "unat u = 0 \<or> unat u = 1 \<or> unat u = 2 \<or> unat u = 3 \<or> unat u = 4 \<or> unat u = 5 \<or>
    unat u = 6 \<or> unat u = 7 \<or> unat u = 8" by linarith
  then have "u = 0 \<or> u = 1 \<or> u = 2 \<or> u = 3 \<or> u = 4 \<or> u = 5 \<or> u = 6 \<or> u = 7 \<or> u = 8"
    by (simp add: word_unat_eq_iff)
  with u show ?thesis by (auto simp: u_defined_def has_single_bit_def)
qed

lemma b_defined_cases: "b_defined b \<Longrightarrow> b \<in> {1, 2, 4, 8, 12, 16}"
proof -
  assume b: "b_defined b"
  then have "unat b \<le> 16" by (auto simp: b_defined_def word_le_nat_alt)
  then have "unat b = 0 \<or> unat b = 1 \<or> unat b = 2 \<or> unat b = 3 \<or> unat b = 4 \<or> unat b = 5 \<or>
    unat b = 6 \<or> unat b = 7 \<or> unat b = 8 \<or> unat b = 9 \<or> unat b = 10 \<or> unat b = 11 \<or>
    unat b = 12 \<or> unat b = 13 \<or> unat b = 14 \<or> unat b = 15 \<or> unat b = 16" by presburger
  then have "b = 0 \<or> b = 1 \<or> b = 2 \<or> b = 3 \<or> b = 4 \<or> b = 5 \<or> b = 6 \<or> b = 7 \<or> b = 8 \<or>
    b = 9 \<or> b = 10 \<or> b = 11 \<or> b = 12 \<or> b = 13 \<or> b = 14 \<or> b = 15 \<or> b = 16"
    by (simp add: word_unat_eq_iff)
  with b show ?thesis by (auto simp: b_defined_def has_single_bit_def)
qed

lemma tm_mode_cases:
  assumes "i \<le> 11"
  obtains t where "get_tm_mode i = Inr t"
    "(N_eff_TX t, N_SS t) \<in> {(1, 1), (2, 1), (2, 2), (4, 1), (4, 4), (8, 1), (8, 8)}"
proof -
  have "\<exists>t. get_tm_mode i = Inr t \<and>
    (N_eff_TX t, N_SS t) \<in> {(1, 1), (2, 1), (2, 2), (4, 1), (4, 4), (8, 1), (8, 8)}"
    using assms by (simp add: get_tm_mode_def Let_def)
  then show thesis by (elim exE conjE) (rule that)
qed

lemma mcs_cases:
  assumes "i \<le> 11"
  obtains m where "get_mcs i = Inr m"
    "(N_bps m, R_numerator m, R_denominator m) \<in>
      {(1, 1, 2), (2, 1, 2), (2, 3, 4), (4, 1, 2), (4, 3, 4), (6, 2, 3), (6, 3, 4), (6, 5, 6),
       (8, 3, 4), (8, 5, 6), (10, 3, 4), (10, 5, 6)}"
proof -
  have "\<exists>m. get_mcs i = Inr m \<and> (N_bps m, R_numerator m, R_denominator m) \<in>
      {(1, 1, 2), (2, 1, 2), (2, 3, 4), (4, 1, 2), (4, 3, 4), (6, 2, 3), (6, 3, 4), (6, 5, 6),
       (8, 3, 4), (8, 5, 6), (10, 3, 4), (10, 5, 6)}"
    using assms by (simp add: get_mcs_def Let_def)
  then show thesis by (elim exE conjE) (rule that)
qed

subsection \<open>The steps of the computation\<close>

lemma N_PACKET_symb_nat:
  assumes "psdef_ok qq"
  shows "unat (get_N_PACKET_symb (ps_PacketLengthType qq) (ps_PacketLength qq) (ps_u qq * 10) (ps_u qq * 2))
    = ref_symb qq"
    and "5 \<le> ref_symb qq" "ref_symb qq \<le> 1280" "ref_symb qq mod 5 = 0"
proof -
  have u: "ps_u qq \<in> {1, 2, 4, 8}" using assms u_defined_cases [of "ps_u qq"] by (simp add: psdef_ok_def)
  have len: "0 < unat (ps_PacketLength qq)" "unat (ps_PacketLength qq) \<le> 16"
    using assms by (simp_all add: psdef_ok_def word_le_nat_alt word_less_nat_alt)
  show "unat (get_N_PACKET_symb (ps_PacketLengthType qq) (ps_PacketLength qq) (ps_u qq * 10) (ps_u qq * 2))
    = ref_symb qq"
    using u len
    by (auto simp: get_N_PACKET_symb_def ref_symb_def unat_div_u32 unat_mult_u32)
  show "5 \<le> ref_symb qq" "ref_symb qq \<le> 1280" "ref_symb qq mod 5 = 0"
    using u len by (auto simp: ref_symb_def)
qed

lemma N_DF_nat:
  "u \<in> {1, 2, 4, 8} \<Longrightarrow> 5 \<le> unat N \<Longrightarrow> unat (get_N_DF_symb u N) = unat N - ref_gap (unat u)"
  by (auto simp: get_N_DF_symb_def ref_gap_def unat_sub_u32)

lemma div_10_up:
  "n mod 10 \<noteq> 0 \<Longrightarrow> n div 10 + 1 = (n + 9) div 10"
  "n mod 10 = 0 \<Longrightarrow> n div 10 = (n + 9) div 10" for n :: nat
proof -
  assume "n mod 10 \<noteq> 0"
  moreover have "n = 10 * (n div 10) + n mod 10" "n mod 10 < 10" by simp_all
  ultimately show "n div 10 + 1 = (n + 9) div 10" by linarith
qed (auto elim!: dvdE simp: dvd_eq_mod_eq_0 [symmetric])

lemma drs_symb_nat:
  assumes "5 \<le> unat N" "unat N \<le> 1280" "unat N mod 5 = 0"
    and "\<not> (eff = 4 \<and> unat N < 15)" "\<not> (u = 8 \<and> eff = 8 \<and> (unat N < 20 \<or> unat N mod 10 \<noteq> 0))"
  obtains n where "get_nof_OFDM_symbols_carrying_DRS_per_TS u N eff = Inr n"
    "unat n = ref_drs_symb (unat eff) (unat N)"
proof -
  have mods: "N mod 10 \<noteq> 0 \<longleftrightarrow> unat N mod 10 \<noteq> 0" "N mod 5 = 0"
    using assms(3) by (simp_all add: word_unat_eq_iff unat_mod_u32)
  note odd = div_10_up(1) [of "unat N"] and even = div_10_up(2) [of "unat N"]
  have up: "unat (N div 10 + 1) = unat N div 10 + 1"
    using assms(2) by (simp add: unat_add_u32 unat_div_u32)
  define n where "n = (if eff \<le> 2 then N div 5 else if N mod 10 \<noteq> 0 then N div 10 + 1 else N div 10)"
  have guards: "\<not> (eff = 4 \<and> N < 15)" "\<not> (u = 8 \<and> eff = 8 \<and> (N < 20 \<or> N mod 10 \<noteq> 0))"
    using assms(4,5) mods(1) by (simp_all add: word_less_nat_alt)
  have five: "(5 :: u32) \<noteq> 10" by simp
  show thesis
  proof (rule that [of n])
    show "get_nof_OFDM_symbols_carrying_DRS_per_TS u N eff = Inr n"
      using guards mods(2) five
      by (cases "eff \<le> 2"; cases "N mod 10 = 0")
        (simp_all add: get_nof_OFDM_symbols_carrying_DRS_per_TS_def Let_def n_def)
    show "unat n = ref_drs_symb (unat eff) (unat N)"
      using mods(1) odd even up
      by (simp add: n_def ref_drs_symb_def word_le_nat_alt unat_div_u32)
  qed
qed

text \<open>The values of a packet definition in range that the steps below rely on.\<close>

lemma psdef_okD:
  assumes "psdef_ok qq"
  shows "ps_u qq \<in> {1, 2, 4, 8}" "ps_b qq \<in> {1, 2, 4, 8, 12, 16}"
    "unat (ps_u qq) \<in> {1, 2, 4, 8}" "unat (ps_b qq) \<in> {1, 2, 4, 8, 12, 16}"
    "ps_Z qq = 2048 \<or> ps_Z qq = 6144"
proof -
  show u: "ps_u qq \<in> {1, 2, 4, 8}" and b: "ps_b qq \<in> {1, 2, 4, 8, 12, 16}"
    using assms u_defined_cases [of "ps_u qq"] b_defined_cases [of "ps_b qq"] by (simp_all add: psdef_ok_def)
  show "unat (ps_u qq) \<in> {1, 2, 4, 8}" using u by auto
  show "unat (ps_b qq) \<in> {1, 2, 4, 8, 12, 16}" using b by auto
qed (use assms in \<open>simp add: psdef_ok_def\<close>)

lemma mode_streams:
  assumes "psdef_ok qq"
  obtains t where "get_tm_mode (ps_tm_mode_index qq) = Inr t"
    "unat (N_eff_TX t) = ref_eff qq" "unat (N_SS t) = ref_ss qq"
    "ref_eff qq \<in> {1, 2, 4, 8}" "ref_ss qq \<le> 8" "0 < ref_ss qq"
proof -
  from assms have "ps_tm_mode_index qq \<le> 11" by (simp add: psdef_ok_def)
  then obtain t where t: "get_tm_mode (ps_tm_mode_index qq) = Inr t"
    "(N_eff_TX t, N_SS t) \<in> {(1, 1), (2, 1), (2, 2), (4, 1), (4, 4), (8, 1), (8, 8)}"
    by (rule tm_mode_cases)
  show thesis by (rule that [OF t(1)]) (use t in \<open>auto simp: ref_eff_def ref_ss_def\<close>)
qed

lemma ref_drs_symb_le: "ref_drs_symb eff N \<le> N"
  by (cases N) (auto simp: ref_drs_symb_def)

lemma N_DRS_nat:
  assumes n: "get_nof_OFDM_symbols_carrying_DRS_per_TS u N eff = Inr n"
    "unat n = ref_drs_symb (unat eff) (unat N)"
    and le: "unat N \<le> 1280" "unat eff \<le> 8" "unat b \<le> 16"
  obtains d where "get_N_DRS_subc u N eff (b * 56) = Inr d"
    "unat d = ref_drs (unat b) (unat N) (unat eff)" "unat d \<le> 2293760"
proof -
  have small: "unat n \<le> 1280" using n(2) le(1) ref_drs_symb_le [of "unat eff" "unat N"] by simp
  have "unat eff * (unat b * 56) \<le> 8 * (16 * 56)" using le by (intro mult_le_mono) auto
  then have "unat (eff * (b * 56)) = unat eff * (unat b * 56)"
    using le(3) by (simp add: unat_mult_u32)
  then have q: "unat (eff * (b * 56) div 4) = 14 * unat eff * unat b" by (simp add: unat_div_u32)
  have "14 * unat eff * unat b \<le> 14 * 8 * 16" using le by (intro mult_le_mono) auto
  from mult_le_mono [OF this small]
  have bound: "14 * unat eff * unat b * unat n \<le> 1792 * 1280" by simp
  then have "unat (eff * (b * 56) div 4 * n) = 14 * unat eff * unat b * unat n"
    by (simp add: unat_mult_u32 q)
  then show thesis
    using n bound by (intro that) (auto simp: get_N_DRS_subc_def ref_drs_def)
qed

lemma N_PDC_nat:
  assumes d: "get_N_DRS_subc u N eff (b * 56) = Inr d" "unat d = ref_drs (unat b) (unat N) (unat eff)"
      "unat d \<le> 2293760"
    and le: "5 \<le> unat N" "unat N \<le> 1280" "unat b \<le> 16" and u: "u \<in> {1, 2, 4, 8}"
  obtains p where "get_N_PDC_subc N u eff (b * 56) = Inr p"
    "unat p = ref_cells (unat u) (unat b) (unat N) (unat eff)" "unat p \<le> 1146880"
proof -
  define cells where "cells = get_N_DF_symb u N * (b * 56)"
  have DF: "unat (get_N_DF_symb u N) = unat N - ref_gap (unat u)" using N_DF_nat u le(1) by simp
  have bound: "(unat N - ref_gap (unat u)) * (56 * unat b) \<le> 1280 * (56 * 16)"
    using le by (intro mult_le_mono) auto
  have occ: "unat (b * 56) = 56 * unat b" using le(3) by (simp add: unat_mult_u32)
  have cells: "unat cells = (unat N - ref_gap (unat u)) * (56 * unat b)"
    unfolding cells_def using bound by (subst unat_mult_u32) (auto simp: DF occ)
  have sum: "unat (d + 98) = unat d + 98" using d(3) by (simp add: unat_add_u32)
  define p where "p = (if cells \<le> d + 98 then 0 else cells - d - 98)"
  have "get_N_PDC_subc N u eff (b * 56) = Inr p"
    by (simp add: get_N_PDC_subc_def Let_def d(1) pcc_cells_def cells_def p_def)
  moreover have "unat p = unat cells - (unat d + 98)"
    by (auto simp: p_def word_le_nat_alt sum unat_sub_u32)
  moreover have "unat p \<le> 1146880"
  proof -
    have "unat p \<le> unat cells" using \<open>unat p = _\<close> by simp
    also have "unat cells \<le> 1146880" using bound cells by simp
    finally show ?thesis .
  qed
  ultimately show thesis
    using cells d(2) that [of p] unfolding ref_cells_def by metis
qed

lemma N_PDC_bits_nat:
  assumes "psdef_ok qq" and p: "unat p = ref_pdc qq" "unat p \<le> 1146880"
    and t: "unat ss = ref_ss qq" and m: "get_mcs (ps_mcs_index qq) = Inr m"
  shows "unat (get_G ss p (N_bps m)) = ref_G qq"
    and "unat (get_N_PDC_bits ss p (N_bps m) (R_numerator m) (R_denominator m)) = ref_bits qq"
    and "ref_bits qq < 2 ^ 27"
proof -
  obtain t' where ss: "ref_ss qq \<le> 8" by (rule mode_streams [OF assms(1)])
  have m11: "ps_mcs_index qq \<le> 11" using assms(1) by (simp add: psdef_ok_def)
  have mm: "unat (N_bps m) \<le> 10" "unat (R_numerator m) \<le> 5" "unat (R_numerator m) \<le> unat (R_denominator m)"
    by (rule mcs_cases [OF m11]; use m in auto)+
  have G8: "ref_ss qq * ref_pdc qq \<le> 8 * 1146880" using ss p by (intro mult_le_mono) auto
  then have prod: "unat (ss * p) = ref_ss qq * ref_pdc qq" by (simp add: unat_mult_u32 t p)
  have G: "ref_ss qq * ref_pdc qq * unat (N_bps m) \<le> 8 * 1146880 * 10"
    using mult_le_mono [OF G8 mm(1)] by simp
  then have gG: "unat (ss * p * N_bps m) = ref_ss qq * ref_pdc qq * unat (N_bps m)"
    by (simp add: unat_mult_u32 prod)
  then show uG: "unat (get_G ss p (N_bps m)) = ref_G qq"
    by (simp add: get_G_def ref_G_def m)
  have refG: "ref_G qq \<le> 91750400" using G by (simp add: ref_G_def m)
  have "ref_G qq * unat (R_numerator m) \<le> 91750400 * 5" using refG mm by (intro mult_le_mono) auto
  then show "unat (get_N_PDC_bits ss p (N_bps m) (R_numerator m) (R_denominator m)) = ref_bits qq"
    by (simp add: get_N_PDC_bits_def ref_bits_def m unat_div_u32 unat_mult_u32 uG)
  have "ref_bits qq \<le> ref_G qq * unat (R_denominator m) div unat (R_denominator m)"
    unfolding ref_bits_def m sum.sel using mm by (intro div_le_mono mult_le_mono) auto
  also have "\<dots> \<le> ref_G qq" by simp
  finally show "ref_bits qq < 2 ^ 27" using refG by simp
qed

text \<open>STF, data field and guard interval fill the packet.\<close>

lemma samples_fill_packet:
  assumes "u \<in> {1, 2, 4, 8}" "b \<in> {1, 2, 4, 8, 12, 16}"
  shows "get_N_samples_STF u b + get_N_samples_DF u b N + get_N_samples_GI u b = 72 * b * N"
proof -
  have div9: "1008 * b div 9 = 112 * b" "288 * b div 9 = 32 * b"
    using assms(2) by auto
  have symb: "get_N_samples_OFDM_symbol b = 72 * b"
    by (simp add: get_N_samples_OFDM_symbol_def N_b_DFT_CP_min_u_b_def N_b_DFT_min_u_b_def N_b_CP_min_u_b_def)
  note samples = get_N_samples_STF_def get_N_samples_DF_def get_N_samples_GI_def get_N_DF_symb_def Let_def symb div9
  from assms(1) consider "u = 1" | "u = 2 \<or> u = 4" | "u = 8" by auto
  then show ?thesis
  proof cases
    case 1
    have "112 * b + 72 * b * (N - 2) + 32 * b = 72 * b * N" by (simp add: algebra_simps)
    with 1 show ?thesis by (simp add: samples)
  next
    case 2
    have "72 * b * 2 + 72 * b * (N - 3) + 72 * b = 72 * b * N" by (simp add: algebra_simps)
    with 2 show ?thesis by (auto simp: samples)
  next
    case 3
    have "72 * b * 2 + 72 * b * (N - 4) + 72 * b * 2 = 72 * b * N" by (simp add: algebra_simps)
    with 3 show ?thesis by (simp add: samples)
  qed
qed

lemma samples_STF_CP: "get_N_samples_STF_CP_only u b + 64 * b = get_N_samples_STF u b"
  by (simp add: get_N_samples_STF_CP_only_def N_b_DFT_min_u_b_def)

lemma tb_bits_dvd: "8 dvd tb_bits bits Z"
  using tb_N_M_dvd(1) [of bits] by (simp add: tb_bits_def Let_def dvd_diff_nat)

subsection \<open>The packet sizes\<close>

text \<open>A segmentation of less than \<open>2 ^ 29\<close> bits rounds up in the same way for every such macro.\<close>

lemma cbsegm_FIX_cong:
  assumes c: "rounds_up c" and "unat tbs < 2 ^ 29" "Z = 2048 \<or> Z = 6144"
  shows "srsran_cbsegm_FIX c tbs Z = srsran_cbsegm_FIX ceil_divide_integer tbs Z"
proof -
  have "unat (tbs + 24) = unat tbs + 24" using assms(2) by (simp add: unat_add_u32)
  moreover have "unat (Z - 24) = unat Z - 24" "unat Z \<le> 6144" "24 < unat Z"
    using assms(3) by auto
  ultimately have "unat (c (tbs + 24) (Z - 24)) = unat (ceil_divide_integer (tbs + 24) (Z - 24))"
    using assms(2) unat_srsran_ceil [OF c] unat_srsran_ceil [OF rounds_up_ceil_divide_integer] by simp
  then have "c (tbs + 24) (Z - 24) = ceil_divide_integer (tbs + 24) (Z - 24)"
    by (simp add: word_unat_eq_iff)
  then have "cbsegm_cb_size c (tbs + 24) Z = cbsegm_cb_size ceil_divide_integer (tbs + 24) Z"
    unfolding cbsegm_cb_size_def by (simp only:)
  then show ?thesis unfolding srsran_cbsegm_FIX_def Let_def by (simp only:)
qed

lemma get_packet_sizes_lemma:
  assumes qq: "psdef_ok qq" and c: "rounds_up c"
  shows "\<exists>r. get_packet_sizes c qq = Inr r \<and> get_packet_sizes ceil_divide_integer qq = Inr r \<and>
           (if ref_possible qq then (\<exists>q. r = Some q \<and> sizes_as_specified qq q) else r = None)"
proof -
  note cases = psdef_okD [OF qq]
  define N where
    "N = get_N_PACKET_symb (ps_PacketLengthType qq) (ps_PacketLength qq) (ps_u qq * 10) (ps_u qq * 2)"
  have N: "unat N = ref_symb qq" "5 \<le> unat N" "unat N \<le> 1280" "unat N mod 5 = 0"
    using N_PACKET_symb_nat [OF qq] by (simp_all add: N_def)
  have N': "5 \<le> N" "N \<le> 1280" "N mod 5 = 0"
    using N by (simp_all add: word_le_nat_alt word_unat_eq_iff unat_mod_u32)
  obtain nmr where nmr: "get_numerologies (ps_u qq) (ps_b qq) = Inr nmr"
    "N_b_OCC nmr = ps_b qq * 56" "N_SLOT_u_symb nmr = ps_u qq * 10" "N_SLOT_u_subslot nmr = ps_u qq * 2"
    using qq by (auto simp: get_numerologies_def psdef_ok_def Let_def)
  obtain t where t: "get_tm_mode (ps_tm_mode_index qq) = Inr t"
    "unat (N_eff_TX t) = ref_eff qq" "unat (N_SS t) = ref_ss qq" "ref_eff qq \<in> {1, 2, 4, 8}"
    by (rule mode_streams [OF qq])
  obtain m where m: "get_mcs (ps_mcs_index qq) = Inr m"
    using qq by (auto simp: psdef_ok_def elim: mcs_cases)
  define no_drs where "no_drs \<longleftrightarrow> ref_eff qq = 4 \<and> ref_symb qq < 15 \<or>
    ps_u qq = 8 \<and> ref_eff qq = 8 \<and> (ref_symb qq < 20 \<or> ref_symb qq mod 10 \<noteq> 0)"
  have guards: "(N_eff_TX t = 4 \<and> N < 15) \<longleftrightarrow> (ref_eff qq = 4 \<and> ref_symb qq < 15)"
    "(ps_u qq = 8 \<and> N_eff_TX t = 8 \<and> (N < 20 \<or> N mod 10 \<noteq> 0)) \<longleftrightarrow>
     (ps_u qq = 8 \<and> ref_eff qq = 8 \<and> (ref_symb qq < 20 \<or> ref_symb qq mod 10 \<noteq> 0))"
    using N(1) t(2) by (simp_all add: word_less_nat_alt word_unat_eq_iff [of _ "_ :: u32"] unat_mod_u32)
  have start: "get_packet_sizes f qq = place_cells f qq nmr t N" for f
    using qq N' by (simp add: get_packet_sizes_def Let_def nmr N_def [symmetric] t(1) psdef_ok_def)
  show ?thesis
  proof (cases no_drs)
    case True
    then have "get_packet_sizes f qq = Inr None" for f
      using guards unfolding start place_cells_def Let_def no_drs_def by (simp only: simp_thms split: if_split; blast)
    moreover have "\<not> ref_possible qq" using True by (auto simp: ref_possible_def ref_room_def no_drs_def)
    ultimately show ?thesis by simp
  next
    case False
    note ok = False [unfolded no_drs_def]
    obtain n where n: "get_nof_OFDM_symbols_carrying_DRS_per_TS (ps_u qq) N (N_eff_TX t) = Inr n"
      "unat n = ref_drs_symb (unat (N_eff_TX t)) (unat N)"
      by (rule drs_symb_nat [OF N(2-4), of "N_eff_TX t" "ps_u qq"]) (use ok t N in auto)
    have small: "unat (N_eff_TX t) \<le> 8" "unat (ps_b qq) \<le> 16"
      using t(2,4) cases(4) by auto
    obtain d where d: "get_N_DRS_subc (ps_u qq) N (N_eff_TX t) (ps_b qq * 56) = Inr d"
      "unat d = ref_drs (unat (ps_b qq)) (unat N) (unat (N_eff_TX t))" "unat d \<le> 2293760"
      by (rule N_DRS_nat [OF n N(3) small])
    obtain p where p: "get_N_PDC_subc N (ps_u qq) (N_eff_TX t) (ps_b qq * 56) = Inr p"
      "unat p = ref_cells (unat (ps_u qq)) (unat (ps_b qq)) (unat N) (unat (N_eff_TX t))" "unat p \<le> 1146880"
      by (rule N_PDC_nat [OF d N(2,3) small(2) cases(1)])
    have pdc: "unat p = ref_pdc qq" using p(2) N(1) t(2) by (simp add: ref_pdc_def)
    note bits = N_PDC_bits_nat [OF qq pdc p(3) t(3) m]
    define TB where "TB = get_N_TB_bits (N_SS t) p (N_bps m) (R_numerator m) (R_denominator m) (ps_Z qq)"
    have TB: "unat TB = ref_tb qq"
      unfolding TB_def ref_tb_def using get_N_TB_bits_nat [OF bits(2) _ cases(5)] bits(3) by simp
    have room: "ref_room qq \<longleftrightarrow> p \<noteq> 0"
      using ok pdc by (auto simp: ref_room_def word_unat_eq_iff)
    have "\<not> (N_eff_TX t = 4 \<and> N < 15)" "\<not> (ps_u qq = 8 \<and> N_eff_TX t = 8 \<and> (N < 20 \<or> N mod 10 \<noteq> 0))"
      using guards ok by auto
    then have mid: "get_packet_sizes f qq =
        (if p = 0 then Inr None else if TB = 0 then Inr None else segment_and_sample f qq nmr t m N p TB)" for f
      unfolding start place_cells_def Let_def by (simp only: if_False nmr p m bindE.simps TB_def)
    show ?thesis
    proof (cases "p = 0 \<or> TB = 0")
      case True
      then have "get_packet_sizes f qq = Inr None" for f by (auto simp: mid)
      moreover have "\<not> ref_possible qq" using True room TB by (auto simp: ref_possible_def)
      ultimately show ?thesis by simp
    next
      case False
      then have pos: "0 < tb_bits (ref_bits qq) (unat (ps_Z qq))"
        using TB by (auto simp: ref_tb_def word_unat_eq_iff)
      with segmentation [OF c cases(5), of "ref_bits qq" TB] bits(3) TB obtain s where
        s: "srsran_cbsegm_FIX c TB (ps_Z qq) = Some s"
          "unat (cb_C s) = segm_blocks (ref_bits qq) (unat (ps_Z qq))" "0 < cb_F s \<longleftrightarrow> ref_tb qq = 8"
        unfolding ref_tb_def by auto
      have tail: "get_packet_sizes c qq = segment_and_sample c qq nmr t m N p TB"
        using mid False by simp
      have "unat TB < 2 ^ 29" using TB bits(3) tb_bits_le [of "ref_bits qq" "unat (ps_Z qq)"]
        by (simp add: ref_tb_def)
      then have same: "get_packet_sizes ceil_divide_integer qq = get_packet_sizes c qq"
        using mid False cbsegm_FIX_cong [OF c _ cases(5)] by (simp add: segment_and_sample_def)
      show ?thesis
      proof (cases "ref_tb qq = 8")
        case True
        then have "get_packet_sizes c qq = Inr None"
          using s(3) by (simp add: tail segment_and_sample_def Let_def s(1))
        moreover have "\<not> ref_possible qq" using True by (simp add: ref_possible_def)
        ultimately show ?thesis using same by simp
      next
        case F: False
        have possible: "ref_possible qq" using F False room pos by (simp add: ref_possible_def ref_tb_def)
        have unfilled: "\<not> cb_F s > 0" using s(3) F by simp
        note packet = samples_fill_packet [OF cases(1,2), of N]
        have symb: "get_N_samples_OFDM_symbol (ps_b qq) = 72 * ps_b qq"
          by (simp add: get_N_samples_OFDM_symbol_def N_b_DFT_CP_min_u_b_def N_b_DFT_min_u_b_def N_b_CP_min_u_b_def)
        have stf: "get_N_samples_STF_CP_only (ps_u qq) (ps_b qq) + 64 * ps_b qq +
            get_N_samples_DF (ps_u qq) (ps_b qq) N + get_N_samples_GI (ps_u qq) (ps_b qq) = 72 * ps_b qq * N"
          using packet by (simp only: samples_STF_CP)
        obtain q where q: "get_packet_sizes c qq = Inr (Some q)" "psdef q = qq" "N_PACKET_symb q = N"
          "N_PDC_subc q = p" "N_DRS_subc q = d" "G q = get_G (N_SS t) p (N_bps m)"
          "N_PDC_bits q = get_N_PDC_bits (N_SS t) p (N_bps m) (R_numerator m) (R_denominator m)"
          "N_TB_bits q = TB" "N_TB_byte q = ceil_divide_integer TB 8" "nof_cb q = cb_C s"
          "N_samples_packet q = 72 * ps_b qq * N"
          "N_samples_packet_no_GI q + N_samples_GI q = N_samples_packet q"
          unfolding tail segment_and_sample_def Let_def s(1) nmr(2) d(1)
          using unfilled packet stf symb by simp
        have "unat (72 * ps_b qq * N) = 72 * unat (ps_b qq) * ref_symb qq"
        proof -
          have b: "unat (ps_b qq) \<le> 16" using cases(4) by auto
          then have "unat (72 * ps_b qq) = 72 * unat (ps_b qq)" by (simp add: unat_mult_u32)
          moreover have "72 * unat (ps_b qq) * unat N \<le> 72 * 16 * 1280"
            using b N(3) by (intro mult_le_mono) auto
          ultimately show ?thesis using N(1) by (simp add: unat_mult_u32)
        qed
        moreover have "8 * unat (ceil_divide_integer TB 8) = ref_tb qq"
          using TB tb_bits_dvd [of "ref_bits qq" "unat (ps_Z qq)"] tb_bits_le [of "ref_bits qq" "unat (ps_Z qq)"] bits(3)
          by (subst unat_ceil_divide_integer) (auto simp: ref_tb_def elim!: dvdE)
        ultimately have "sizes_as_specified qq q"
          using q N(1) pdc bits TB s(2) d(2) t(2) by (simp add: sizes_as_specified_def)
        then show ?thesis using q(1) possible same by auto
      qed
    qed
  qed
qed

lemma get_packet_sizes_Some:
  assumes "psdef_ok qq" "rounds_up c" "get_packet_sizes c qq = Inr (Some q)"
  shows "sizes_as_specified qq q" and "ref_possible qq"
  using get_packet_sizes_lemma [OF assms(1,2)] assms(3) by (auto split: if_splits)

lemma get_packet_sizes_ceil:
  "psdef_ok qq \<Longrightarrow> rounds_up c \<Longrightarrow> get_packet_sizes c qq = get_packet_sizes ceil_divide_integer qq"
  using get_packet_sizes_lemma [of qq c] by auto

subsection \<open>Property\<close>

text \<open>C3: For every packet definition in range, \<open>get_packet_sizes\<close> returns without a failing
assertion exactly the sizes that the standard prescribes, computed over unbounded numbers: no
operation on 32 bits wraps around, the transport block is a whole number of bytes, the number of code
blocks is the one that the transport block size assumes, and STF, data field and guard interval fill
the packet. It returns nothing exactly when the reference symbols do not fit, no cell is left for the
data channel, the transport block is empty, or it has 8 bits and would need filler bits.\<close>
theorem packet_sizes_specified:
  assumes "psdef_ok qq" and "rounds_up c"
  shows "\<exists>r. get_packet_sizes c qq = Inr r \<and>
           (if ref_possible qq then (\<exists>q. r = Some q \<and> sizes_as_specified qq q) else r = None)"
  using get_packet_sizes_lemma [OF assms] by blast

definition sample_short :: packet_sizes_def_t where
  "sample_short = \<lparr>ps_u = 1, ps_b = 1, ps_PacketLengthType = 0, ps_PacketLength = 2, ps_tm_mode_index = 0,
     ps_mcs_index = 1, ps_Z = 2048\<rparr>"

theorem packet_sizes_specified_witness:
  "(\<exists>q. get_packet_sizes ceil_divide_integer sample_short = Inr (Some q) \<and> N_TB_bits q = 296) \<and>
   get_packet_sizes ceil_divide_integer (sample_short\<lparr>ps_PacketLength := 1, ps_mcs_index := 0\<rparr>) = Inr None"
proof -
  have ok: "psdef_ok sample_short" "psdef_ok (sample_short\<lparr>ps_PacketLength := 1, ps_mcs_index := 0\<rparr>)"
    by code_simp+
  note defs = ref_possible_def ref_room_def ref_tb_def ref_bits_def ref_G_def ref_pdc_def ref_cells_def
    ref_drs_def ref_drs_symb_def ref_gap_def ref_symb_def ref_eff_def ref_ss_def get_tm_mode_def get_mcs_def
    sample_short_def tb_bits_def tb_N_M_def tb_M_def Let_def
  have "ref_possible sample_short" "ref_tb sample_short = 296"
    "\<not> ref_possible (sample_short\<lparr>ps_PacketLength := 1, ps_mcs_index := 0\<rparr>)"
    by (simp_all add: defs)
  then show ?thesis
    using packet_sizes_specified [OF ok(1) rounds_up_ceil_divide_integer]
      packet_sizes_specified [OF ok(2) rounds_up_ceil_divide_integer]
    by (auto simp: sizes_as_specified_def word_unat_eq_iff)
qed

end
