(* ===== verification/Maximum_Sizes.thy ===== *)
theory Maximum_Sizes
  imports Packet_Sizes_Correct
begin

text \<open>
  The maximum packet sizes of a radio device class, from which the buffers of the physical layer
  are allocated, exist for every class and bound every packet that the class can transmit, for
  each choice of numerology, bandwidth, length, transmission mode and modulation up to the limits
  of the class.
\<close>

subsection \<open>Monotonicity of the transport block size\<close>

lemma tb_N_M_mono:
  assumes "x \<le> y"
  shows "tb_N_M x \<le> tb_N_M y"
proof (cases "tb_M x = tb_M y")
  case True
  then show ?thesis using assms by (simp add: tb_N_M_def div_le_mono)
next
  case False
  then obtain e where e: "x \<le> e" "e < y" "tb_M y dvd e"
    using assms that [of 512] that [of 1024] that [of 2048]
    by (auto simp: tb_M_def split: if_splits)
  have "tb_N_M x \<le> e" using tb_N_M_le [of x] e(1) by simp
  also have "e = e div tb_M y * tb_M y" using e(3) by simp
  also have "\<dots> \<le> tb_N_M y" using e(2) by (simp add: tb_N_M_def div_le_mono)
  finally show ?thesis .
qed

lemma tb_blocks_mono: "x \<le> y \<Longrightarrow> Z = 2048 \<or> Z = 6144 \<Longrightarrow> tb_blocks x Z \<le> tb_blocks y Z"
  by (auto simp: tb_blocks_def div_le_mono)

lemma tb_bits_mono:
  assumes "x \<le> y" and Z: "Z = 2048 \<or> Z = 6144"
  shows "tb_bits x Z \<le> tb_bits y Z"
proof -
  define n m where "n = tb_N_M x" and "m = tb_N_M y"
  have nm: "n \<le> m" using tb_N_M_mono [OF assms(1)] by (simp add: n_def m_def)
  show ?thesis
  proof (cases "m \<le> Z")
    case True
    then show ?thesis using nm by (auto simp: tb_bits_def Let_def n_def [symmetric] m_def [symmetric])
  next
    case m: False
    then have mZ: "Z < m" "64 dvd m" using tb_N_M_dvd(4) [of y] Z by (auto simp: m_def)
    have y: "tb_bits y Z = m - (tb_blocks m Z + 1) * 24"
      using m Z by (auto simp: tb_bits_def Let_def m_def [symmetric])
    note bm = blocks_agree [OF Z mZ]
    show ?thesis
    proof (cases "n \<le> Z")
      case True
      then have "tb_bits x Z \<le> Z - 24" by (auto simp: tb_bits_def Let_def n_def [symmetric])
      also have "\<dots> \<le> m - (tb_blocks m Z + 1) * 24" using bm(5) Z by auto
      finally show ?thesis using y by simp
    next
      case False
      then have nZ: "Z < n" "64 dvd n" using tb_N_M_dvd(4) [of x] Z by (auto simp: n_def)
      have x: "tb_bits x Z = n - (tb_blocks n Z + 1) * 24"
        using False Z by (auto simp: tb_bits_def Let_def n_def [symmetric])
      note bn = blocks_agree [OF Z nZ]
      show ?thesis
      proof (cases "n = m")
        case True then show ?thesis by (simp add: x y)
      next
        case False
        with nm nZ(2) mZ(2) have "n + 64 \<le> m" by (auto elim!: dvdE)
        moreover have "n \<le> tb_blocks n Z * Z" "(tb_blocks m Z - 1) * Z + 24 < m" "2 \<le> tb_blocks m Z"
          using bn bm by auto
        ultimately have "n + (tb_blocks m Z + 1) * 24 \<le> m + (tb_blocks n Z + 1) * 24"
          using Z by (cases "tb_blocks m Z \<le> tb_blocks n Z") (auto simp: diff_mult_distrib)
        then show ?thesis using bn(4) by (simp add: x y)
      qed
    qed
  qed
qed

lemma segm_blocks_mono: "x \<le> y \<Longrightarrow> Z = 2048 \<or> Z = 6144 \<Longrightarrow> segm_blocks x Z \<le> segm_blocks y Z"
  by (simp add: segm_blocks_def tb_N_M_mono tb_blocks_mono)

subsection \<open>Monotonicity of the cells\<close>

lemma ref_cells_mono: "b \<le> b' \<Longrightarrow> ref_cells u b N eff \<le> ref_cells u b' N eff"
proof -
  assume "b \<le> b'"
  have eq: "ref_cells u b N eff = b * (56 * (N - ref_gap u) - 14 * eff * ref_drs_symb eff N) - 98" for b
    by (simp add: ref_cells_def ref_drs_def diff_mult_distrib2 algebra_simps)
  show ?thesis
    unfolding eq using \<open>b \<le> b'\<close> by (intro diff_le_mono mult_le_mono1)
qed

text \<open>No packet of up to \<open>us\<close>, \<open>ls\<close>, \<open>modes\<close> has more cells over all streams than \<open>highest\<close>.\<close>

definition peak :: "nat list \<Rightarrow> nat \<Rightarrow> nat list \<Rightarrow> (nat \<times> nat) list \<Rightarrow> nat \<Rightarrow> bool" where
  "peak us b ls modes highest \<longleftrightarrow>
     list_all (\<lambda>u. list_all (\<lambda>l. list_all (\<lambda>(e, s).
       s * ref_cells u b (5 * l) e \<le> highest \<and> s * ref_cells u b (10 * u * l) e \<le> highest) modes) ls) us"

lemmas peak_simps = peak_def ref_cells_def ref_gap_def ref_drs_def ref_drs_symb_def

subsection \<open>The classes\<close>

definition radio_device_classes :: "string list" where
  "radio_device_classes =
     [''1.1.1.A'', ''1.1.1.B'', ''8.1.1.A'', ''1.8.1.A'', ''2.8.2.A'', ''2.12.4.A'', ''2.12.4.B'',
      ''8.12.8.A'', ''8.16.8.A'']"

definition mode_list :: "(nat \<times> nat) list" where
  "mode_list = [(1, 1), (2, 1), (2, 2), (4, 1), (4, 4), (8, 1), (8, 8)]"

text \<open>
  For each class: the values of u, the bandwidth, the lengths, the number of modes of
  \<open>mode_list\<close>, the modulation and coding scheme, the transmission mode of the maximum and the
  block size.
\<close>

definition class_limits :: "radio_device_class_t \<Rightarrow> bool" where
  "class_limits rdc \<longleftrightarrow>
     (u_min rdc, b_min rdc, N_TX_min rdc, mcs_index_min rdc, PacketLength_min rdc) \<in>
       {(1, 1, 1, 7, 4), (8, 1, 1, 7, 4), (1, 8, 1, 7, 4), (2, 8, 2, 7, 4), (2, 12, 4, 7, 4),
        (8, 12, 8, 9, 16), (8, 16, 8, 9, 16)} \<and> (Z_min rdc = 2048 \<or> Z_min rdc = 6144)"

lemma known_class: "get_radio_device_class s = Inr rdc \<Longrightarrow> s \<in> set radio_device_classes"
  by (rule ccontr) (simp add: get_radio_device_class_def Let_def radio_device_classes_def)

lemma class_limits_evaluated:
  "list_all (\<lambda>s. class_limits (projr (get_radio_device_class s))) radio_device_classes"
  by code_simp

lemma class_limits:
  assumes "get_radio_device_class s = Inr rdc"
  shows "class_limits rdc"
  using class_limits_evaluated known_class [OF assms] assms by (auto simp: list_all_iff dest!: bspec)

definition within_class :: "radio_device_class_t \<Rightarrow> packet_sizes_def_t \<Rightarrow> bool" where
  "within_class rdc qq \<longleftrightarrow>
     psdef_ok qq \<and> ps_u qq \<le> u_min rdc \<and> ps_b qq \<le> b_min rdc \<and>
     ps_PacketLength qq \<le> PacketLength_min rdc \<and>
     ps_tm_mode_index qq \<le> projr (get_max_tm_mode_index_depending_on_N_TX (N_TX_min rdc)) \<and>
     ps_mcs_index qq \<le> mcs_index_min rdc \<and> ps_Z qq = Z_min rdc"

lemma mode_list_upto:
  assumes "psdef_ok qq"
  shows "ps_tm_mode_index qq \<le> 0 \<Longrightarrow> (ref_eff qq, ref_ss qq) \<in> set (take 1 mode_list)"
    and "ps_tm_mode_index qq \<le> 4 \<Longrightarrow> (ref_eff qq, ref_ss qq) \<in> set (take 3 mode_list)"
    and "ps_tm_mode_index qq \<le> 9 \<Longrightarrow> (ref_eff qq, ref_ss qq) \<in> set (take 5 mode_list)"
    and "(ref_eff qq, ref_ss qq) \<in> set mode_list"
proof -
  define i where "i = ps_tm_mode_index qq"
  have "unat i \<le> 11" using assms by (simp add: psdef_ok_def word_le_nat_alt i_def)
  then have "unat i = 0 \<or> unat i = 1 \<or> unat i = 2 \<or> unat i = 3 \<or> unat i = 4 \<or> unat i = 5 \<or> unat i = 6 \<or>
    unat i = 7 \<or> unat i = 8 \<or> unat i = 9 \<or> unat i = 10 \<or> unat i = 11" by presburger
  then have "i = 0 \<or> i = 1 \<or> i = 2 \<or> i = 3 \<or> i = 4 \<or> i = 5 \<or> i = 6 \<or> i = 7 \<or> i = 8 \<or> i = 9 \<or>
    i = 10 \<or> i = 11" by (simp add: word_unat_eq_iff)
  note cases = this [unfolded i_def]
  note defs = mode_list_def ref_eff_def ref_ss_def get_tm_mode_def Let_def
  show "ps_tm_mode_index qq \<le> 0 \<Longrightarrow> (ref_eff qq, ref_ss qq) \<in> set (take 1 mode_list)"
    by (simp add: defs)
  show "ps_tm_mode_index qq \<le> 4 \<Longrightarrow> (ref_eff qq, ref_ss qq) \<in> set (take 3 mode_list)"
    using cases by (elim disjE) (simp_all add: defs)
  show "ps_tm_mode_index qq \<le> 9 \<Longrightarrow> (ref_eff qq, ref_ss qq) \<in> set (take 5 mode_list)"
    using cases by (elim disjE) (simp_all add: defs)
  show "(ref_eff qq, ref_ss qq) \<in> set mode_list"
    using cases by (elim disjE) (simp_all add: defs)
qed

lemma peakD:
  assumes "peak us b ls modes h" "u \<in> set us" "l \<in> set ls" "(e, s) \<in> set modes"
    and "N = 5 * l \<or> N = 10 * u * l"
  shows "s * ref_cells u b N e \<le> h"
proof -
  have "\<forall>p \<in> set modes. case p of (e, s) \<Rightarrow>
      s * ref_cells u b (5 * l) e \<le> h \<and> s * ref_cells u b (10 * u * l) e \<le> h"
    using assms(1-3) by (simp add: peak_def list_all_iff)
  from bspec [OF this assms(4)] show ?thesis using assms(5) by auto
qed

subsection \<open>The maximum packet sizes exist\<close>

definition maximum_defined :: "string \<Rightarrow> bool" where
  "maximum_defined s \<longleftrightarrow>
     (case get_maximum_packet_sizes ceil_divide_integer s of Inl e \<Rightarrow> False | Inr m \<Rightarrow> True)"

lemma maximum_1_1_1_A: "maximum_defined ''1.1.1.A''"
  by code_simp

lemma maximum_1_1_1_B: "maximum_defined ''1.1.1.B''"
  by code_simp

lemma maximum_8_1_1_A: "maximum_defined ''8.1.1.A''"
  by code_simp

lemma maximum_1_8_1_A: "maximum_defined ''1.8.1.A''"
  by code_simp

lemma maximum_2_8_2_A: "maximum_defined ''2.8.2.A''"
  by code_simp

lemma maximum_2_12_4_A: "maximum_defined ''2.12.4.A''"
  by code_simp

lemma maximum_2_12_4_B: "maximum_defined ''2.12.4.B''"
  by code_simp

lemma maximum_8_12_8_A: "maximum_defined ''8.12.8.A''"
  by code_simp

lemma maximum_8_16_8_A: "maximum_defined ''8.16.8.A''"
  by code_simp

lemma maximum_evaluated:
  assumes "s \<in> set radio_device_classes"
  obtains m where "get_maximum_packet_sizes ceil_divide_integer s = Inr m"
proof -
  have "list_all maximum_defined radio_device_classes"
    by (simp only: radio_device_classes_def list.pred_inject maximum_1_1_1_A maximum_1_1_1_B
      maximum_8_1_1_A maximum_1_8_1_A maximum_2_8_2_A maximum_2_12_4_A maximum_2_12_4_B
      maximum_8_12_8_A maximum_8_16_8_A simp_thms)
  with assms have "maximum_defined s" by (simp add: list_all_iff)
  then show thesis using that by (auto simp: maximum_defined_def split: sum.splits)
qed

lemma check_smaller_u_Inr: "check_smaller_u c ps q us = Inr m \<Longrightarrow> m = q"
  by (induction us) (auto simp: bindE_eq_Inr)

lemma check_smaller_u_cong:
  assumes "rounds_up c" "\<And>u. u \<in> set us \<Longrightarrow> psdef_ok (ps\<lparr>ps_u := u\<rparr>)"
  shows "check_smaller_u c ps q us = check_smaller_u ceil_divide_integer ps q us"
  using assms(2)
proof (induction us)
  case (Cons u us)
  have "get_packet_sizes c (ps\<lparr>ps_u := u\<rparr>) = get_packet_sizes ceil_divide_integer (ps\<lparr>ps_u := u\<rparr>)"
    using Cons.prems by (intro get_packet_sizes_ceil assms(1)) simp
  with Cons show ?case by simp
qed simp

lemma u_checks_simps: "u_checks 1 = []" "u_checks 2 = [1]" "u_checks 8 = [1, 2, 4]"
  by code_simp+

lemma maximum_psdef_ok:
  assumes "class_limits rdc"
  obtains ps where "maximum_psdef rdc = Inr ps" "psdef_ok ps"
    "\<And>u. u \<in> set (u_checks (u_min rdc)) \<Longrightarrow> psdef_ok (ps\<lparr>ps_u := u\<rparr>)"
    "ps_u ps = u_min rdc" "ps_b ps = b_min rdc" "ps_PacketLengthType ps = 1"
    "ps_PacketLength ps = PacketLength_min rdc" "ps_mcs_index ps = mcs_index_min rdc" "ps_Z ps = Z_min rdc"
    "get_max_tm_mode_index_depending_on_N_TX (N_TX_min rdc) = Inr (ps_tm_mode_index ps)"
proof -
  define tm :: u32 where "tm = projr (get_max_tm_mode_index_depending_on_N_TX (N_TX_min rdc))"
  have tm: "get_max_tm_mode_index_depending_on_N_TX (N_TX_min rdc) = Inr tm" "tm \<le> 11"
    using assms by (auto simp: class_limits_def tm_def get_max_tm_mode_index_depending_on_N_TX_def)
  define ps where "ps = \<lparr>ps_u = u_min rdc, ps_b = b_min rdc, ps_PacketLengthType = 1,
          ps_PacketLength = PacketLength_min rdc, ps_tm_mode_index = tm,
          ps_mcs_index = mcs_index_min rdc, ps_Z = Z_min rdc\<rparr>"
  have ok: "psdef_ok ps"
    using assms tm(2)
    by (auto simp: class_limits_def ps_def psdef_ok_def u_defined_def b_defined_def has_single_bit_def)
  have small: "psdef_ok (ps\<lparr>ps_u := u\<rparr>)" if "u \<in> set (u_checks (u_min rdc))" for u
  proof -
    have "u \<in> {1, 2, 4}" using that assms by (auto simp: class_limits_def u_checks_simps)
    then have "u_defined u" by (auto simp: u_defined_def has_single_bit_def)
    with ok show ?thesis by (simp add: psdef_ok_def)
  qed
  show thesis
    by (rule that [of ps]) (use ok small tm in \<open>simp_all add: maximum_psdef_def ps_def\<close>)
qed

lemma maximum_packet_sizes:
  assumes s: "get_radio_device_class s = Inr rdc" and c: "rounds_up c"
  obtains m ps where "get_maximum_packet_sizes c s = Inr m" "maximum_psdef rdc = Inr ps" "psdef_ok ps"
    "get_packet_sizes c ps = Inr (Some m)"
proof -
  obtain ps where ps: "maximum_psdef rdc = Inr ps" "psdef_ok ps"
    "\<And>u. u \<in> set (u_checks (u_min rdc)) \<Longrightarrow> psdef_ok (ps\<lparr>ps_u := u\<rparr>)"
    by (rule maximum_psdef_ok [OF class_limits [OF s]]) blast
  obtain m where m: "get_maximum_packet_sizes ceil_divide_integer s = Inr m"
    by (rule maximum_evaluated [OF known_class [OF s]])
  have "get_maximum_packet_sizes c s = get_maximum_packet_sizes ceil_divide_integer s"
    unfolding get_maximum_packet_sizes_def get_maximum_packet_sizes_of_def
    by (simp add: s ps(1) get_packet_sizes_ceil [OF ps(2) c] check_smaller_u_cong [OF c ps(3)])
  moreover from m have "get_packet_sizes ceil_divide_integer ps = Inr (Some m)"
    unfolding get_maximum_packet_sizes_def get_maximum_packet_sizes_of_def
    by (auto simp: s ps(1) bindE_eq_Inr dest!: check_smaller_u_Inr)
  ultimately show thesis
    using that [of m ps] m ps(1,2) get_packet_sizes_ceil [OF ps(2) c] by simp
qed

subsection \<open>They bound every packet of the class\<close>

lemma peak_1_1: "peak [1] 1 [1, 2, 3, 4] (take 1 mode_list) (1 * ref_cells 1 1 40 1)"
  by (simp add: peak_simps mode_list_def)

lemma peak_8_1: "peak [1, 2, 4, 8] 1 [1, 2, 3, 4] (take 1 mode_list) (1 * ref_cells 8 1 320 1)"
  by (simp add: peak_simps mode_list_def)

lemma peak_1_8: "peak [1] 8 [1, 2, 3, 4] (take 1 mode_list) (1 * ref_cells 1 8 40 1)"
  by (simp add: peak_simps mode_list_def)

lemma peak_2_8: "peak [1, 2] 8 [1, 2, 3, 4] (take 3 mode_list) (2 * ref_cells 2 8 80 2)"
  by (simp add: peak_simps mode_list_def)

lemma peak_2_12: "peak [1, 2] 12 [1, 2, 3, 4] (take 5 mode_list) (4 * ref_cells 2 12 80 4)"
  by (simp add: peak_simps mode_list_def)

lemma peak_8_12: "peak [1, 2, 4, 8] 12 [1, 2, 3, 4, 5, 6, 7, 8, 9, 10, 11, 12, 13, 14, 15, 16] (take 7 mode_list) (8 * ref_cells 8 12 1280 8)"
  by (simp add: peak_simps mode_list_def)

lemma peak_8_16: "peak [1, 2, 4, 8] 16 [1, 2, 3, 4, 5, 6, 7, 8, 9, 10, 11, 12, 13, 14, 15, 16] (take 7 mode_list) (8 * ref_cells 8 16 1280 8)"
  by (simp add: peak_simps mode_list_def)

lemma streams_le_peak:
  assumes "psdef_ok qq" and h: "peak us b ls (take k mode_list) h"
    and u: "unat (ps_u qq) \<in> set us" and b: "unat (ps_b qq) \<le> b" and l: "unat (ps_PacketLength qq) \<in> set ls"
    and modes: "(ref_eff qq, ref_ss qq) \<in> set (take k mode_list)"
  shows "ref_ss qq * ref_pdc qq \<le> h"
proof -
  have "ref_ss qq * ref_pdc qq \<le> ref_ss qq * ref_cells (unat (ps_u qq)) b (ref_symb qq) (ref_eff qq)"
    unfolding ref_pdc_def by (intro mult_le_mono2 ref_cells_mono b)
  also have "\<dots> \<le> h"
    by (rule peakD [OF h u l modes]) (simp add: ref_symb_def)
  finally show ?thesis .
qed

lemma length_upto:
  "unat x \<noteq> 0 \<Longrightarrow> x \<le> 4 \<Longrightarrow> unat x \<in> set [1, 2, 3, 4]"
  "unat x \<noteq> 0 \<Longrightarrow> x \<le> 16 \<Longrightarrow> unat x \<in> set [1, 2, 3, 4, 5, 6, 7, 8, 9, 10, 11, 12, 13, 14, 15, 16]"
  for x :: u32
proof -
  assume "unat x \<noteq> 0" "x \<le> 4"
  then have "unat x \<noteq> 0" "unat x \<le> 4" by (simp_all add: word_le_nat_alt)
  then show "unat x \<in> set [1, 2, 3, 4]" by (simp only: list.set insert_iff empty_iff) presburger
next
  assume "unat x \<noteq> 0" "x \<le> 16"
  then have "unat x \<noteq> 0" "unat x \<le> 16" by (simp_all add: word_le_nat_alt)
  then show "unat x \<in> set [1, 2, 3, 4, 5, 6, 7, 8, 9, 10, 11, 12, 13, 14, 15, 16]"
    by (simp only: list.set insert_iff empty_iff) presburger
qed

lemma within_classD:
  assumes "within_class rdc qq"
  shows "psdef_ok qq" "unat (ps_u qq) \<in> {1, 2, 4, 8}" "unat (ps_u qq) \<le> unat (u_min rdc)"
    "unat (ps_b qq) \<le> unat (b_min rdc)" "unat (ps_PacketLength qq) \<noteq> 0"
    "ps_PacketLength qq \<le> PacketLength_min rdc" "ps_Z qq = Z_min rdc"
proof -
  show ok: "psdef_ok qq" using assms by (simp add: within_class_def)
  show "unat (ps_u qq) \<in> {1, 2, 4, 8}" by (rule psdef_okD(3) [OF ok])
  show "unat (ps_PacketLength qq) \<noteq> 0" using ok by (auto simp: psdef_ok_def word_less_nat_alt)
  show "unat (ps_u qq) \<le> unat (u_min rdc)" "unat (ps_b qq) \<le> unat (b_min rdc)"
    "ps_PacketLength qq \<le> PacketLength_min rdc" "ps_Z qq = Z_min rdc"
    using assms unfolding within_class_def by (simp_all only: word_le_nat_alt simp_thms)
qed

lemma streams_within_class:
  assumes rdc: "class_limits rdc" and ps: "maximum_psdef rdc = Inr ps" and qq: "within_class rdc qq"
  shows "ref_ss qq * ref_pdc qq \<le> ref_ss ps * ref_pdc ps"
proof -
  note within = within_classD [OF qq]
  note len = length_upto [OF within(5)]
  note modes = mode_list_upto [OF within(1)]
  have tm: "ps_tm_mode_index qq \<le> projr (get_max_tm_mode_index_depending_on_N_TX (N_TX_min rdc))"
    using qq by (simp add: within_class_def)
  note unfold = maximum_psdef_def get_max_tm_mode_index_depending_on_N_TX_def ref_pdc_def ref_ss_def
    ref_eff_def ref_symb_def get_tm_mode_def Let_def
  note limits = rdc [unfolded class_limits_def]
  have all: "take 7 mode_list = mode_list" by (simp add: mode_list_def)
  from limits consider
      (1) "u_min rdc = 1" "b_min rdc = 1" "N_TX_min rdc = 1" "PacketLength_min rdc = 4"
    | (2) "u_min rdc = 8" "b_min rdc = 1" "N_TX_min rdc = 1" "PacketLength_min rdc = 4"
    | (3) "u_min rdc = 1" "b_min rdc = 8" "N_TX_min rdc = 1" "PacketLength_min rdc = 4"
    | (4) "u_min rdc = 2" "b_min rdc = 8" "N_TX_min rdc = 2" "PacketLength_min rdc = 4"
    | (5) "u_min rdc = 2" "b_min rdc = 12" "N_TX_min rdc = 4" "PacketLength_min rdc = 4"
    | (6) "u_min rdc = 8" "b_min rdc = 12" "N_TX_min rdc = 8" "PacketLength_min rdc = 16"
    | (7) "u_min rdc = 8" "b_min rdc = 16" "N_TX_min rdc = 8" "PacketLength_min rdc = 16"
    by auto
  then show ?thesis
  proof cases
    case 1
    have "ref_ss ps * ref_pdc ps = 1 * ref_cells 1 1 40 1" using ps 1 by (auto simp: unfold)
    with streams_le_peak [OF within(1) peak_1_1] within len(1) modes(1) tm 1 show ?thesis
      by (simp add: get_max_tm_mode_index_depending_on_N_TX_def)
  next
    case 2
    have "ref_ss ps * ref_pdc ps = 1 * ref_cells 8 1 320 1" using ps 2 by (auto simp: unfold)
    with streams_le_peak [OF within(1) peak_8_1] within len(1) modes(1) tm 2 show ?thesis
      by (simp add: get_max_tm_mode_index_depending_on_N_TX_def)
  next
    case 3
    have "ref_ss ps * ref_pdc ps = 1 * ref_cells 1 8 40 1" using ps 3 by (auto simp: unfold)
    with streams_le_peak [OF within(1) peak_1_8] within len(1) modes(1) tm 3 show ?thesis
      by (simp add: get_max_tm_mode_index_depending_on_N_TX_def)
  next
    case 4
    have "ref_ss ps * ref_pdc ps = 2 * ref_cells 2 8 80 2" using ps 4 by (auto simp: unfold)
    with streams_le_peak [OF within(1) peak_2_8] within len(1) modes(2) tm 4 show ?thesis
      by (auto simp: get_max_tm_mode_index_depending_on_N_TX_def)
  next
    case 5
    have "ref_ss ps * ref_pdc ps = 4 * ref_cells 2 12 80 4" using ps 5 by (auto simp: unfold)
    with streams_le_peak [OF within(1) peak_2_12] within len(1) modes(3) tm 5 show ?thesis
      by (auto simp: get_max_tm_mode_index_depending_on_N_TX_def)
  next
    case 6
    have "ref_ss ps * ref_pdc ps = 8 * ref_cells 8 12 1280 8" using ps 6 by (auto simp: unfold)
    with streams_le_peak [OF within(1) peak_8_12] within len(2) modes(4) 6 show ?thesis by (simp add: all)
  next
    case 7
    have "ref_ss ps * ref_pdc ps = 8 * ref_cells 8 16 1280 8" using ps 7 by (auto simp: unfold)
    with streams_le_peak [OF within(1) peak_8_16] within len(2) modes(4) 7 show ?thesis by (simp add: all)
  qed
qed

lemma symb_within_class:
  assumes rdc: "class_limits rdc" and ps: "maximum_psdef rdc = Inr ps" and qq: "within_class rdc qq"
  shows "ref_symb qq \<le> ref_symb ps"
proof -
  note within = within_classD [OF qq]
  have len: "unat (ps_PacketLength qq) \<le> unat (PacketLength_min rdc)"
    using within(6) by (simp add: word_le_nat_alt)
  have "1 \<le> unat (u_min rdc)" using rdc by (auto simp: class_limits_def)
  moreover have "ref_symb ps = 10 * unat (u_min rdc) * unat (PacketLength_min rdc)"
    by (rule maximum_psdef_ok [OF rdc]) (use ps in \<open>auto simp: ref_symb_def\<close>)
  moreover have "unat (ps_u qq) * unat (ps_PacketLength qq) \<le> unat (u_min rdc) * unat (PacketLength_min rdc)"
    using within(3) len by (rule mult_le_mono)
  moreover have "1 * unat (ps_PacketLength qq) \<le> unat (u_min rdc) * unat (PacketLength_min rdc)"
    using calculation(1) len by (rule mult_le_mono)
  ultimately show ?thesis by (simp only: ref_symb_def [of qq] mult.assoc split: if_split) linarith
qed

text \<open>The schemes up to 7 and up to 9 carry at most the bits of the last one.\<close>

definition scheme_le :: "mcs_t \<Rightarrow> mcs_t \<Rightarrow> bool" where
  "scheme_le a b \<longleftrightarrow> unat (N_bps a) \<le> unat (N_bps b) \<and>
     unat (N_bps a) * unat (R_numerator a) * unat (R_denominator b) \<le>
     unat (N_bps b) * unat (R_numerator b) * unat (R_denominator a) \<and>
     0 < unat (R_denominator a) \<and> 0 < unat (R_denominator b)"

lemma scheme_le:
  assumes "i \<le> j" "j = 7 \<or> j = 9"
  shows "scheme_le (projr (get_mcs i)) (projr (get_mcs j))"
proof -
  have "unat i \<le> 9" using assms by (auto simp: word_le_nat_alt)
  then have "unat i = 0 \<or> unat i = 1 \<or> unat i = 2 \<or> unat i = 3 \<or> unat i = 4 \<or> unat i = 5 \<or> unat i = 6 \<or>
    unat i = 7 \<or> unat i = 8 \<or> unat i = 9" by presburger
  then have "i = 0 \<or> i = 1 \<or> i = 2 \<or> i = 3 \<or> i = 4 \<or> i = 5 \<or> i = 6 \<or> i = 7 \<or> i = 8 \<or> i = 9"
    by (simp add: word_unat_eq_iff)
  with assms show ?thesis
    by (elim disjE) (simp_all add: get_mcs_def Let_def scheme_le_def)
qed

lemma rate_mono:
  assumes "x \<le> y" "a * e \<le> b * d" "0 < (d :: nat)" "0 < e"
  shows "x * a div d \<le> y * b div e"
proof -
  have "x * a div d = (x * a * e) div (d * e)" using assms(4) by simp
  also have "\<dots> \<le> (y * b * d) div (d * e)"
    using mult_le_mono [OF assms(1,2)] by (intro div_le_mono) (simp add: algebra_simps)
  also have "\<dots> = y * b div e" using assms(3) by (simp add: mult.commute)
  finally show ?thesis .
qed

lemma bits_within_class:
  assumes rdc: "class_limits rdc" and ps: "maximum_psdef rdc = Inr ps" and qq: "within_class rdc qq"
  shows "ref_G qq \<le> ref_G ps" "ref_bits qq \<le> ref_bits ps" "ref_tb qq \<le> ref_tb ps"
    "segm_blocks (ref_bits qq) (unat (ps_Z qq)) \<le> segm_blocks (ref_bits ps) (unat (ps_Z ps))"
proof -
  have idx: "ps_mcs_index ps = mcs_index_min rdc" "ps_Z ps = Z_min rdc"
    by (rule maximum_psdef_ok [OF rdc]; use ps in auto)+
  have "mcs_index_min rdc = 7 \<or> mcs_index_min rdc = 9" using rdc by (auto simp: class_limits_def)
  moreover have "ps_mcs_index qq \<le> mcs_index_min rdc" using qq by (simp add: within_class_def)
  ultimately have le: "scheme_le (projr (get_mcs (ps_mcs_index qq))) (projr (get_mcs (ps_mcs_index ps)))"
    by (simp add: scheme_le idx(1))
  note streams = streams_within_class [OF assms]
  show "ref_G qq \<le> ref_G ps"
    unfolding ref_G_def using le by (intro mult_le_mono [OF streams]) (simp add: scheme_le_def)
  show bits: "ref_bits qq \<le> ref_bits ps"
    using rate_mono [OF streams] le by (simp add: ref_bits_def ref_G_def scheme_le_def mult.assoc)
  have Z: "unat (ps_Z qq) = unat (ps_Z ps)" "unat (ps_Z ps) = 2048 \<or> unat (ps_Z ps) = 6144"
    using within_classD(7) [OF qq] rdc idx(2) by (auto simp: class_limits_def)
  show "ref_tb qq \<le> ref_tb ps"
    unfolding ref_tb_def Z(1) by (rule tb_bits_mono [OF bits Z(2)])
  show "segm_blocks (ref_bits qq) (unat (ps_Z qq)) \<le> segm_blocks (ref_bits ps) (unat (ps_Z ps))"
    unfolding Z(1) by (rule segm_blocks_mono [OF bits Z(2)])
qed

lemma maximum_bounds_class:
  assumes s: "get_radio_device_class s = Inr rdc" and c: "rounds_up c"
    and qq: "within_class rdc qq" and q: "get_packet_sizes c qq = Inr (Some q)"
  obtains m where "get_maximum_packet_sizes c s = Inr m"
    "N_PACKET_symb q \<le> N_PACKET_symb m" "G q \<le> G m" "N_PDC_bits q \<le> N_PDC_bits m"
    "N_TB_bits q \<le> N_TB_bits m" "N_TB_byte q \<le> N_TB_byte m" "nof_cb q \<le> nof_cb m"
    "N_samples_packet q \<le> N_samples_packet m"
proof -
  note rdc = class_limits [OF s]
  obtain m ps where m: "get_maximum_packet_sizes c s = Inr m" "maximum_psdef rdc = Inr ps" "psdef_ok ps"
    "get_packet_sizes c ps = Inr (Some m)"
    by (rule maximum_packet_sizes [OF s c])
  have specs: "sizes_as_specified ps m" "sizes_as_specified qq q"
    using get_packet_sizes_Some(1) c m(3,4) q within_classD(1) [OF qq] by blast+
  note bits = bits_within_class [OF rdc m(2) qq]
  note symb = symb_within_class [OF rdc m(2) qq]
  have "unat (ps_b qq) \<le> unat (ps_b ps)"
    by (rule maximum_psdef_ok [OF rdc]) (use m(2) within_classD(4) [OF qq] in auto)
  with symb have "72 * unat (ps_b qq) * ref_symb qq \<le> 72 * unat (ps_b ps) * ref_symb ps"
    by (intro mult_le_mono) auto
  with specs bits symb show thesis
    by (intro that [OF m(1)]) (simp_all add: sizes_as_specified_def word_le_nat_alt)
qed

subsection \<open>Property\<close>

text \<open>C15: The maximum packet sizes are defined for every radio device class: none of the assertions
that compare them with the sizes for the smaller numerologies fails. They bound every packet within
the class, for all numerologies, bandwidths, lengths, transmission modes and modulation schemes up to
the limits of the class: its symbols, bits, transport block, code blocks and samples.\<close>
theorem maximum_packet_sizes_bound:
  assumes "get_radio_device_class s = Inr rdc" and "rounds_up c"
    and "within_class rdc qq" and "get_packet_sizes c qq = Inr (Some q)"
  shows "\<exists>m. get_maximum_packet_sizes c s = Inr m \<and>
           N_PACKET_symb q \<le> N_PACKET_symb m \<and> G q \<le> G m \<and> N_PDC_bits q \<le> N_PDC_bits m \<and>
           N_TB_bits q \<le> N_TB_bits m \<and> N_TB_byte q \<le> N_TB_byte m \<and> nof_cb q \<le> nof_cb m \<and>
           N_samples_packet q \<le> N_samples_packet m"
  by (rule maximum_bounds_class [OF assms]) blast

definition sample_within :: packet_sizes_def_t where
  "sample_within = \<lparr>ps_u = 2, ps_b = 4, ps_PacketLengthType = 0, ps_PacketLength = 4, ps_tm_mode_index = 2,
     ps_mcs_index = 5, ps_Z = 6144\<rparr>"

definition sample_fits :: bool where
  "sample_fits =
     (case get_radio_device_class ''2.8.2.A'' of Inl e \<Rightarrow> False | Inr rdc \<Rightarrow>
     (case get_packet_sizes ceil_divide_integer sample_within of Inr (Some q) \<Rightarrow> within_class rdc sample_within
      | _ \<Rightarrow> False))"

lemma sample_fits: "sample_fits"
  by code_simp

theorem maximum_packet_sizes_bound_witness:
  "\<exists>q m. get_packet_sizes ceil_divide_integer sample_within = Inr (Some q) \<and>
     get_maximum_packet_sizes ceil_divide_integer ''2.8.2.A'' = Inr m \<and> N_TB_byte q \<le> N_TB_byte m"
proof -
  from sample_fits obtain rdc q where *: "get_radio_device_class ''2.8.2.A'' = Inr rdc"
    "within_class rdc sample_within" "get_packet_sizes ceil_divide_integer sample_within = Inr (Some q)"
    unfolding sample_fits_def by (auto split: sum.splits option.splits)
  from maximum_packet_sizes_bound [OF *(1) rounds_up_ceil_divide_integer *(2,3)] *(3) show ?thesis by blast
qed

end
