(* ===== verification/Harq_Pool.thy ===== *)
theory Harq_Pool
  imports Harq Maximum_Sizes
begin

text \<open>
  The contract of the pool of HARQ processes: a process is free, active (owned by the caller that
  got it) or paused (kept for a retransmission). The locale states what the calls on one kind of
  process promise, and what follows for sequences of calls; it is interpreted on the processes for
  transmission and on those for reception.
\<close>

subsection \<open>Phases\<close>

datatype harq_phase = Free | Active | Paused

definition phase_of :: "'a lockable_scheme \<Rightarrow> harq_phase" where
  "phase_of p = (if \<not> lk_outer p then Free else if lk_inner p then Active else Paused)"

definition held :: "bool \<Rightarrow> int" where
  "held b = (if b then 1 else 0)"

definition lock_ok :: "'a lockable_scheme \<Rightarrow> bool" where
  "lock_ok p \<longleftrightarrow> (lk_inner p \<longrightarrow> lk_outer p) \<and>
     st_outer_locked (lk_stats p) - st_outer_unlocked (lk_stats p) = held (lk_outer p) \<and>
     st_inner_locked (lk_stats p) - st_inner_unlocked (lk_stats p) = held (lk_inner p)"

datatype ('q, 'r, 'f) harq_call = Get 'q | Resume nat 'r | Finalize nat 'f

fun phase_step :: "('q, 'r, 'f) harq_call \<Rightarrow> harq_phase list \<Rightarrow> nat option \<Rightarrow> harq_phase list \<Rightarrow> bool" where
  "phase_step (Get q) ph r ph' \<longleftrightarrow>
     (case r of
        None \<Rightarrow> Free \<notin> set ph \<and> ph' = ph
      | Some i \<Rightarrow> i < length ph \<and> ph ! i = Free \<and> Free \<notin> set (take i ph) \<and> ph' = ph[i := Active])"
| "phase_step (Resume i x) ph r ph' \<longleftrightarrow>
     i < length ph \<and>
     (if ph ! i = Paused then r = Some i \<and> ph' = ph[i := Active] else ph ! i = Active \<and> r = None \<and> ph' = ph)"
| "phase_step (Finalize i f) ph r ph' \<longleftrightarrow>
     i < length ph \<and> ph ! i = Active \<and> r = None \<and> (ph' = ph[i := Free] \<or> ph' = ph[i := Paused])"

fun phase_run ::
    "('q, 'r, 'f) harq_call list \<Rightarrow> harq_phase list \<Rightarrow> nat option list \<Rightarrow> harq_phase list \<Rightarrow> bool" where
  "phase_run [] ph rs ph' \<longleftrightarrow> rs = [] \<and> ph' = ph"
| "phase_run (c # cs) ph rs ph' \<longleftrightarrow>
     (\<exists>r rs' ph1. rs = r # rs' \<and> phase_step c ph r ph1 \<and> phase_run cs ph1 rs' ph')"

text \<open>The calls in sequence; a call is allowed by what its caller must guarantee.\<close>

fun run_calls :: "('c \<Rightarrow> 's \<Rightarrow> ('o \<times> 's) res) \<Rightarrow> 'c list \<Rightarrow> 's \<Rightarrow> ('o list \<times> 's) res" where
  "run_calls step [] s = Inr ([], s)"
| "run_calls step (c # cs) s =
     bindE (step c s) (\<lambda>(r, s1). bindE (run_calls step cs s1) (\<lambda>(rs, s2). Inr (r # rs, s2)))"

fun run_allowed :: "('c \<Rightarrow> 's \<Rightarrow> bool) \<Rightarrow> ('c \<Rightarrow> 's \<Rightarrow> ('o \<times> 's) res) \<Rightarrow> 'c list \<Rightarrow> 's \<Rightarrow> bool" where
  "run_allowed allowed step [] s \<longleftrightarrow> True"
| "run_allowed allowed step (c # cs) s \<longleftrightarrow>
     allowed c s \<and> (case step c s of Inl e \<Rightarrow> True | Inr (r, s1) \<Rightarrow> run_allowed allowed step cs s1)"

locale harq_pool =
  fixes step :: "('q, 'r, 'f) harq_call \<Rightarrow> 's \<Rightarrow> (nat option \<times> 's) res"
    and allowed :: "('q, 'r, 'f) harq_call \<Rightarrow> 's \<Rightarrow> bool"
    and pool_ok :: "'s \<Rightarrow> bool"
    and phases :: "'s \<Rightarrow> harq_phase list"
  assumes call: "pool_ok s \<Longrightarrow> allowed c s \<Longrightarrow>
    \<exists>r s'. step c s = Inr (r, s') \<and> pool_ok s' \<and> phase_step c (phases s) r (phases s')"
begin

lemma calls_never_fail:
  "pool_ok s \<Longrightarrow> run_allowed allowed step cs s \<Longrightarrow>
   \<exists>rs s'. run_calls step cs s = Inr (rs, s') \<and> pool_ok s' \<and> phase_run cs (phases s) rs (phases s')"
proof (induction cs arbitrary: s)
  case (Cons c cs)
  from Cons.prems have "allowed c s" by simp
  from call [OF Cons.prems(1) this] obtain r s1 where
    one: "step c s = Inr (r, s1)" "pool_ok s1" "phase_step c (phases s) r (phases s1)" by blast
  from Cons.prems one(1) have "run_allowed allowed step cs s1" by simp
  from Cons.IH [OF one(2) this] obtain rs s' where
    rest: "run_calls step cs s1 = Inr (rs, s')" "pool_ok s'" "phase_run cs (phases s1) rs (phases s')" by blast
  show ?case using one rest by auto
qed simp

end

subsection \<open>The loop over the processes\<close>

lemma first_lockable_spec:
  assumes "list_all lock_ok ps"
    and prepare: "\<And>p. p \<in> set ps \<Longrightarrow> phase_of p = Free \<Longrightarrow>
      \<exists>p2. prepare (count_outer_locked (p\<lparr>lk_outer := True\<rparr>)) = Inr p2 \<and> lk_outer p2 \<and> \<not> lk_inner p2"
  shows "\<exists>r ps'. first_lockable prepare n ps = Inr (r, ps') \<and>
    (case r of None \<Rightarrow> Free \<notin> set (map phase_of ps) \<and> ps' = ps
     | Some j \<Rightarrow> \<exists>i p2 p3. j = n + i \<and> i < length ps \<and> phase_of (ps ! i) = Free \<and>
         Free \<notin> set (take i (map phase_of ps)) \<and>
         prepare (count_outer_locked ((ps ! i)\<lparr>lk_outer := True\<rparr>)) = Inr p2 \<and>
         lock_inner p2 = Inr p3 \<and> ps' = ps[i := p3])"
  using assms
proof (induction ps arbitrary: n)
  case (Cons p ps)
  show ?case
  proof (cases "lk_outer p")
    case False
    then have free: "phase_of p = Free" by (simp add: phase_of_def)
    from Cons.prems(2) [of p] free obtain p2 where
      p2: "prepare (count_outer_locked (p\<lparr>lk_outer := True\<rparr>)) = Inr p2" "lk_outer p2" "\<not> lk_inner p2" by auto
    obtain p3 where p3: "lock_inner p2 = Inr p3"
      using p2(2,3) by (simp add: lock_inner_def is_outer_locked_def is_inner_locked_def)
    have "try_lock_outer p = Inr (True, count_outer_locked (p\<lparr>lk_outer := True\<rparr>))"
      using False Cons.prems(1) by (auto simp: try_lock_outer_def Let_def is_inner_locked_def lock_ok_def)
    then show ?thesis
      using p2 p3 free by (intro exI [of _ "Some n"] exI [of _ "p3 # ps"]) (auto intro!: exI [of _ 0])
  next
    case True
    then have p: "try_lock_outer p = Inr (False, p)" "phase_of p \<noteq> Free"
      by (simp_all add: try_lock_outer_def phase_of_def)
    have "list_all lock_ok ps" using Cons.prems(1) by simp
    from Cons.IH [OF this, of "n + 1"] Cons.prems(2) obtain r ps' where
      IH: "first_lockable prepare (n + 1) ps = Inr (r, ps')"
      "case r of None \<Rightarrow> Free \<notin> set (map phase_of ps) \<and> ps' = ps
       | Some j \<Rightarrow> \<exists>i p2 p3. j = (n + 1) + i \<and> i < length ps \<and> phase_of (ps ! i) = Free \<and>
           Free \<notin> set (take i (map phase_of ps)) \<and>
           prepare (count_outer_locked ((ps ! i)\<lparr>lk_outer := True\<rparr>)) = Inr p2 \<and>
           lock_inner p2 = Inr p3 \<and> ps' = ps[i := p3]" by auto
    show ?thesis
    proof (cases r)
      case None
      then show ?thesis using IH p by auto
    next
      case (Some j)
      with IH(2) obtain i p2 p3 where i: "j = (n + 1) + i" "i < length ps" "phase_of (ps ! i) = Free"
        "Free \<notin> set (take i (map phase_of ps))"
        "prepare (count_outer_locked ((ps ! i)\<lparr>lk_outer := True\<rparr>)) = Inr p2"
        "lock_inner p2 = Inr p3" "ps' = ps[i := p3]" by auto
      show ?thesis
        using IH(1) Some p i
        by (intro exI [of _ "Some j"] exI [of _ "p # ps'"]) (auto intro!: exI [of _ "Suc i"])
    qed
  qed
qed simp

lemma list_all_update: "list_all P xs \<Longrightarrow> P x \<Longrightarrow> list_all P (xs[i := x])"
  by (auto simp: list_all_iff dest!: set_update_subset_insert [THEN subsetD])

text \<open>The loop keeps an invariant of the processes and takes the first free one.\<close>

lemma acquire:
  fixes okp :: "'a lockable_scheme \<Rightarrow> bool"
  assumes ps: "list_all okp ps" and lock: "\<And>p. okp p \<Longrightarrow> lock_ok p"
    and get: "\<And>p. okp p \<Longrightarrow> phase_of p = Free \<Longrightarrow>
      \<exists>p2. prepare (count_outer_locked (p\<lparr>lk_outer := True\<rparr>)) = Inr p2 \<and> lk_outer p2 \<and> \<not> lk_inner p2 \<and>
        (\<forall>p3. lock_inner p2 = Inr p3 \<longrightarrow> okp p3 \<and> phase_of p3 = Active)"
  shows "\<exists>r ps'. first_lockable prepare 0 ps = Inr (r, ps') \<and> list_all okp ps' \<and>
    length ps' = length ps \<and> phase_step (Get x) (map phase_of ps) r (map phase_of ps')"
proof -
  have "list_all lock_ok ps" using ps lock by (auto simp: list_all_iff)
  from first_lockable_spec [OF this, of prepare 0] get ps obtain r ps' where
    run: "first_lockable prepare 0 ps = Inr (r, ps')"
    "case r of None \<Rightarrow> Free \<notin> set (map phase_of ps) \<and> ps' = ps
     | Some j \<Rightarrow> \<exists>i p2 p3. j = 0 + i \<and> i < length ps \<and> phase_of (ps ! i) = Free \<and>
         Free \<notin> set (take i (map phase_of ps)) \<and>
         prepare (count_outer_locked ((ps ! i)\<lparr>lk_outer := True\<rparr>)) = Inr p2 \<and>
         lock_inner p2 = Inr p3 \<and> ps' = ps[i := p3]"
    unfolding list_all_iff by blast
  show ?thesis
  proof (cases r)
    case None
    then show ?thesis using run ps by auto
  next
    case (Some i)
    with run(2) obtain p2 p3 where i: "i < length ps" "phase_of (ps ! i) = Free"
      "Free \<notin> set (take i (map phase_of ps))"
      "prepare (count_outer_locked ((ps ! i)\<lparr>lk_outer := True\<rparr>)) = Inr p2"
      "lock_inner p2 = Inr p3" "ps' = ps[i := p3]" by auto
    have "okp (ps ! i)" using ps i(1) by (simp add: list_all_length)
    from get [OF this i(2)] i(4,5) have "okp p3" "phase_of p3 = Active" by auto
    then show ?thesis using run(1) Some i ps by (auto simp: map_update intro: list_all_update)
  qed
qed

lemma phase_simps:
  "phase_of p = Free \<longleftrightarrow> \<not> lk_outer p"
  "phase_of p = Active \<longleftrightarrow> lk_outer p \<and> lk_inner p"
  "phase_of p = Paused \<longleftrightarrow> lk_outer p \<and> \<not> lk_inner p"
  by (simp_all add: phase_of_def)

lemmas lock_simps = is_outer_locked_def is_inner_locked_def is_outer_locked_inner_locked_def
  lock_inner_def unlock_inner_def unlock_outer_def count_outer_locked_def lock_ok_def held_def phase_simps

definition fits_in :: "packet_sizes_t \<Rightarrow> packet_sizes_t \<Rightarrow> bool" where
  "fits_in m q \<longleftrightarrow> N_TB_byte q \<le> N_TB_byte m \<and> G q \<le> G m \<and> nof_cb q \<le> nof_cb m"

definition packet_exists :: "(u32 \<Rightarrow> u32 \<Rightarrow> u32) \<Rightarrow> packet_sizes_def_t \<Rightarrow> bool" where
  "packet_exists c ps = (case get_packet_sizes c ps of Inr (Some q) \<Rightarrow> True | _ \<Rightarrow> False)"

text \<open>A packet of the class that is possible fits into buffers of the maximum sizes.\<close>

lemma within_class_fits:
  assumes "get_radio_device_class s = Inr rdc" "rounds_up c" "get_maximum_packet_sizes c s = Inr m"
    and "within_class rdc ps" "packet_exists c ps"
  obtains q where "get_packet_sizes c ps = Inr (Some q)" "fits_in m q" "sizes_as_specified ps q"
proof -
  obtain q where q: "get_packet_sizes c ps = Inr (Some q)" "sizes_as_specified ps q"
    using get_packet_sizes_Some(1) [OF within_classD(1) [OF assms(4)] assms(2)] assms(5)
    by (auto simp: packet_exists_def split: sum.splits option.splits)
  obtain m' where "get_maximum_packet_sizes c s = Inr m'" "N_TB_byte q \<le> N_TB_byte m'" "G q \<le> G m'"
    "nof_cb q \<le> nof_cb m'"
    by (rule maximum_bounds_class [OF assms(1,2,4) q(1)])
  with assms(3) have "fits_in m q" by (simp add: fits_in_def)
  then show thesis by (rule that [OF q(1) _ q(2)])
qed

subsection \<open>Processes for transmission\<close>

definition rv_at :: "nat \<Rightarrow> u32" where
  "rv_at n = [0, 2, 3, 1] ! (n mod 4)"

definition tx_pristine :: "'s process_tx \<Rightarrow> bool" where
  "tx_pristine p \<longleftrightarrow> hp_PLCF_type p = 0 \<and> hp_network_id p = 0 \<and> hp_packet_sizes p = packet_sizes_zero \<and>
     rv_unwrapped p = 0 \<and> finalize_tx p = Tx_reset_and_terminate \<and>
     a_cnt (tx_hb_tb p) = 0 \<and> a_cnt (hb_plcf p) = 0"

definition tx_ok :: "packet_sizes_t \<Rightarrow> 's process_tx \<Rightarrow> bool" where
  "tx_ok m p \<longleftrightarrow> lock_ok p \<and> a_len (tx_hb_tb p) = N_TB_byte m \<and>
     d_len (tx_hb_tb p) = ceil_divide_integer (G m) 8 \<and>
     unat (rv_unwrapped p) \<le> 7 \<and> hp_rv p = rv_at (unat (rv_unwrapped p)) \<and>
     (if phase_of p = Free then tx_pristine p
      else (hp_PLCF_type p = 1 \<or> hp_PLCF_type p = 2) \<and> fits_in m (hp_packet_sizes p))"

definition finalize_tx_at ::
    "'t softbuffer_lib \<Rightarrow> nat \<Rightarrow> ('t, 'r) process_pool \<Rightarrow> (nat option \<times> ('t, 'r) process_pool) res" where
  "finalize_tx_at lib i pool =
     bindE (array_at (hp_tx_vec pool) i) (\<lambda>p.
     bindE (tx_finalize lib p) (\<lambda>p'. Inr (None, pool\<lparr>hp_tx_vec := (hp_tx_vec pool)[i := p']\<rparr>)))"

type_synonym tx_call = "(u32 \<times> u32 \<times> packet_sizes_def_t \<times> finalize_tx_t, finalize_tx_t, unit) harq_call"

fun tx_step ::
    "(u32 \<Rightarrow> u32 \<Rightarrow> u32) \<Rightarrow> 't softbuffer_lib \<Rightarrow> tx_call \<Rightarrow> ('t, 'r) process_pool \<Rightarrow>
     (nat option \<times> ('t, 'r) process_pool) res" where
  "tx_step c lib (Get (plcf, nid, ps, ftx)) pool = get_process_tx c plcf nid ps ftx pool"
| "tx_step c lib (Resume i ftx) pool = get_process_tx_running (of_nat i) ftx pool"
| "tx_step c lib (Finalize i _) pool = finalize_tx_at lib i pool"

text \<open>
  What the caller guarantees: a packet of the class that is possible; the process it resumes is not
  free; the process it finalizes is the one it got, with at most seven retransmissions.
\<close>

fun tx_allowed :: "(u32 \<Rightarrow> u32 \<Rightarrow> u32) \<Rightarrow> radio_device_class_t \<Rightarrow> tx_call \<Rightarrow> ('t, 'r) process_pool \<Rightarrow> bool" where
  "tx_allowed c rdc (Get (plcf, nid, ps, ftx)) pool \<longleftrightarrow>
     (plcf = 1 \<or> plcf = 2) \<and> within_class rdc ps \<and> packet_exists c ps"
| "tx_allowed c rdc (Resume i ftx) pool \<longleftrightarrow>
     i < length (hp_tx_vec pool) \<and> phase_of (hp_tx_vec pool ! i) \<noteq> Free"
| "tx_allowed c rdc (Finalize i _) pool \<longleftrightarrow>
     i < length (hp_tx_vec pool) \<and> phase_of (hp_tx_vec pool ! i) = Active \<and>
     (finalize_tx (hp_tx_vec pool ! i) = Increase_rv_and_keep_running \<longrightarrow>
      unat (rv_unwrapped (hp_tx_vec pool ! i)) < 7)"

definition tx_pool_ok :: "packet_sizes_t \<Rightarrow> ('t, 'r) process_pool \<Rightarrow> bool" where
  "tx_pool_ok m pool \<longleftrightarrow> list_all (tx_ok m) (hp_tx_vec pool) \<and> length (hp_tx_vec pool) < 2 ^ 32"

lemma rv_at_Suc: "rv_at (Suc n) =
    (if rv_at n = 0 then 2 else if rv_at n = 1 then 0 else if rv_at n = 2 then 3 else 1)"
  and rv_at_values: "rv_at n = 0 \<or> rv_at n = 1 \<or> rv_at n = 2 \<or> rv_at n = 3"
proof -
  have "n mod 4 = 0 \<or> n mod 4 = 1 \<or> n mod 4 = 2 \<or> n mod 4 = 3" by linarith
  then show "rv_at (Suc n) =
    (if rv_at n = 0 then 2 else if rv_at n = 1 then 0 else if rv_at n = 2 then 3 else 1)"
    "rv_at n = 0 \<or> rv_at n = 1 \<or> rv_at n = 2 \<or> rv_at n = 3"
    by (auto simp: rv_at_def mod_Suc)
qed

lemma set_next_rv_ok:
  assumes "tx_ok m p" "phase_of p = Active" "unat (rv_unwrapped p) < 7"
  shows "set_next_rv p =
    Inr (p\<lparr>hp_rv := rv_at (Suc (unat (rv_unwrapped p))), rv_unwrapped := rv_unwrapped p + 1\<rparr>)"
proof -
  have up: "unat (rv_unwrapped p + 1) = Suc (unat (rv_unwrapped p))"
    using assms(3) by (simp add: unat_add_u32)
  have "rv_unwrapped p + 1 \<le> rv_unwrapped_max"
    using assms(3) up by (simp add: word_le_nat_alt rv_unwrapped_max_def)
  moreover have "hp_rv p = rv_at (unat (rv_unwrapped p))" using assms(1) by (simp add: tx_ok_def)
  ultimately show ?thesis
    using assms(2) rv_at_values [of "unat (rv_unwrapped p)"]
    by (auto simp: set_next_rv_def lock_simps rv_at_Suc)
qed

lemma tx_finalize_ok:
  assumes p: "tx_ok m p" "phase_of p = Active"
    and more: "finalize_tx p = Increase_rv_and_keep_running \<Longrightarrow> unat (rv_unwrapped p) < 7"
  obtains p' where "tx_finalize lib p = Inr p'" "tx_ok m p'"
    "phase_of p' = (if finalize_tx p = Tx_reset_and_terminate then Free else Paused)"
proof (cases "finalize_tx p")
  case Tx_reset_and_terminate
  have "rv_at 0 = 0" by (simp add: rv_at_def)
  then show ?thesis
    using Tx_reset_and_terminate p
    by (intro that)
      (auto simp: tx_finalize_def tx_reset_and_terminate_func_def process_reset_def Let_def lock_simps
        tx_ok_def tx_pristine_def buffer_reset_def buffer_reset_cb_def)
next
  case Increase_rv_and_keep_running
  have up: "unat (rv_unwrapped p + 1) = Suc (unat (rv_unwrapped p))"
    using more Increase_rv_and_keep_running by (simp add: unat_add_u32)
  show ?thesis
    using Increase_rv_and_keep_running p more up set_next_rv_ok [OF p]
    by (intro that) (auto simp: tx_finalize_def lock_simps tx_ok_def)
next
  case Keep_rv_and_keep_running
  then show ?thesis
    using p by (intro that) (auto simp: tx_finalize_def lock_simps tx_ok_def)
qed

lemma tx_resume_ok:
  assumes "tx_ok m p" "phase_of p = Paused"
  obtains p' where "lock_inner (p\<lparr>finalize_tx := ftx\<rparr>) = Inr p'" "tx_ok m p'" "phase_of p' = Active"
  using assms by (intro that) (auto simp: lock_simps tx_ok_def)

lemma tx_get_ok:
  assumes "tx_ok m p" "phase_of p = Free" "fits_in m q" "plcf = 1 \<or> plcf = 2"
  obtains p2 where
    "prepare_tx plcf nid q ftx (count_outer_locked (p\<lparr>lk_outer := True\<rparr>)) = Inr p2"
    "lk_outer p2" "\<not> lk_inner p2" "\<And>p3. lock_inner p2 = Inr p3 \<Longrightarrow> tx_ok m p3 \<and> phase_of p3 = Active"
  using assms
  by (intro that) (auto simp: prepare_tx_def lock_simps tx_ok_def fits_in_def tx_pristine_def)

lemma tx_get_call:
  assumes ok: "tx_pool_ok m pool" and ps: "get_packet_sizes c ps = Inr (Some q)" "fits_in m q"
    and plcf: "plcf = 1 \<or> plcf = 2"
  shows "\<exists>r pool'. get_process_tx c plcf nid ps ftx pool = Inr (r, pool') \<and> tx_pool_ok m pool' \<and>
    phase_step (Get x) (map phase_of (hp_tx_vec pool)) r (map phase_of (hp_tx_vec pool'))"
proof -
  have "\<exists>r txs. first_lockable (prepare_tx plcf nid q ftx) 0 (hp_tx_vec pool) = Inr (r, txs) \<and>
      list_all (tx_ok m) txs \<and> length txs = length (hp_tx_vec pool) \<and>
      phase_step (Get x) (map phase_of (hp_tx_vec pool)) r (map phase_of txs)"
  proof (rule acquire)
    show "list_all (tx_ok m) (hp_tx_vec pool)" using ok by (simp add: tx_pool_ok_def)
    show "lock_ok p" if "tx_ok m p" for p :: "'a process_tx" using that by (simp add: tx_ok_def)
    show "\<exists>p2. prepare_tx plcf nid q ftx (count_outer_locked (p\<lparr>lk_outer := True\<rparr>)) = Inr p2 \<and> lk_outer p2 \<and>
        \<not> lk_inner p2 \<and> (\<forall>p3. lock_inner p2 = Inr p3 \<longrightarrow> tx_ok m p3 \<and> phase_of p3 = Active)"
      if "tx_ok m p" "phase_of p = Free" for p :: "'a process_tx"
      by (rule tx_get_ok [OF that ps(2) plcf]) blast
  qed
  then show ?thesis
    using plcf ps(1) ok by (auto simp: get_process_tx_def tx_pool_ok_def simp del: phase_step.simps)
qed

lemma tx_call:
  assumes rdc: "get_radio_device_class s = Inr rdc" and c: "rounds_up c"
    and m: "get_maximum_packet_sizes c s = Inr m"
    and ok: "tx_pool_ok m pool" and call: "tx_allowed c rdc call pool"
  shows "\<exists>r pool'. tx_step c lib call pool = Inr (r, pool') \<and> tx_pool_ok m pool' \<and>
    phase_step call (map phase_of (hp_tx_vec pool)) r (map phase_of (hp_tx_vec pool'))"
proof (cases call)
  case (Get x)
  obtain plcf nid ps ftx where x: "x = (plcf, nid, ps, ftx)" by (cases x)
  with call Get have allowed: "plcf = 1 \<or> plcf = 2" "within_class rdc ps" "packet_exists c ps" by auto
  obtain q where "get_packet_sizes c ps = Inr (Some q)" "fits_in m q"
    by (rule within_class_fits [OF rdc c m allowed(2,3)])
  from tx_get_call [OF ok this allowed(1)] show ?thesis by (simp add: Get x)
next
  case (Resume i ftx)
  define txs where "txs = hp_tx_vec pool"
  have i: "i < length txs" "phase_of (txs ! i) \<noteq> Free" using call Resume by (simp_all add: txs_def)
  have txs: "list_all (tx_ok m) txs" "length txs < 2 ^ 32" using ok by (simp_all add: tx_pool_ok_def txs_def)
  have idx: "unat (of_nat i :: u32) = i" using i(1) txs(2) by (simp add: unsigned_of_nat take_bit_nat_eq_self_iff)
  have pi: "tx_ok m (txs ! i)" using txs(1) i(1) by (simp add: list_all_length)
  have outer: "is_outer_locked (txs ! i)" using i(2) by (simp add: lock_simps)
  show ?thesis
  proof (cases "phase_of (txs ! i) = Active")
    case True
    then have "get_process_tx_running (of_nat i) ftx pool = Inr (None, pool)"
      using i(1) outer by (simp add: get_process_tx_running_def idx txs_def array_at_def lock_simps)
    then show ?thesis using Resume True i(1) ok by (simp add: txs_def)
  next
    case False
    with i(2) have paused: "phase_of (txs ! i) = Paused" by (cases "phase_of (txs ! i)") auto
    from tx_resume_ok [OF pi this, of ftx] obtain p' where
      p': "lock_inner ((txs ! i)\<lparr>finalize_tx := ftx\<rparr>) = Inr p'" "tx_ok m p'" "phase_of p' = Active" by blast
    have "get_process_tx_running (of_nat i) ftx pool = Inr (Some i, pool\<lparr>hp_tx_vec := txs[i := p']\<rparr>)"
      using i(1) outer paused p'(1)
      by (simp add: get_process_tx_running_def idx txs_def array_at_def is_inner_locked_def phase_simps)
    then show ?thesis
      using Resume paused p' i(1) txs by (auto simp: txs_def tx_pool_ok_def map_update intro: list_all_update)
  qed
next
  case (Finalize i u)
  define txs where "txs = hp_tx_vec pool"
  have i: "i < length txs" "phase_of (txs ! i) = Active"
    "finalize_tx (txs ! i) = Increase_rv_and_keep_running \<Longrightarrow> unat (rv_unwrapped (txs ! i)) < 7"
    using call Finalize by (simp_all add: txs_def)
  have txs: "list_all (tx_ok m) txs" "length txs < 2 ^ 32" using ok by (simp_all add: tx_pool_ok_def txs_def)
  have pi: "tx_ok m (txs ! i)" using txs(1) i(1) by (simp add: list_all_length)
  obtain p' where p': "tx_finalize lib (txs ! i) = Inr p'" "tx_ok m p'"
    "phase_of p' = (if finalize_tx (txs ! i) = Tx_reset_and_terminate then Free else Paused)"
    by (rule tx_finalize_ok [OF pi i(2,3)])
  have "finalize_tx_at lib i pool = Inr (None, pool\<lparr>hp_tx_vec := txs[i := p']\<rparr>)"
    using i(1) p'(1) by (simp add: finalize_tx_at_def array_at_def txs_def)
  then show ?thesis
    using Finalize p' i(1,2) txs by (auto simp: txs_def tx_pool_ok_def map_update intro: list_all_update)
qed

lemma mk_processes_list_all:
  "mk_processes mk is = Inr ps \<Longrightarrow> (\<And>i p. mk i = Inr p \<Longrightarrow> P p) \<Longrightarrow> list_all P ps \<and> length ps = length is"
  by (induction "is" arbitrary: ps) (auto simp: bindE_eq_Inr)

lemma mk_process_tx_ok: "mk_process_tx lib m pid = Inr p \<Longrightarrow> tx_ok m p \<and> phase_of p = Free"
  by (auto simp: mk_process_tx_def mk_buffer_tx_plcf_def mk_buffer_tx_tb_def mk_buffer_def bindE_eq_Inr
    buffer_reset_def buffer_reset_cb_def process.extend_def process_new_def lockable.extend_def
    lockable_new_def tx_ok_def tx_pristine_def lock_simps rv_at_def split: option.splits)

lemma mk_pool_tx_ok:
  assumes "mk_process_pool libt libr m nt nr = Inr pool"
  shows "tx_pool_ok m pool" "map phase_of (hp_tx_vec pool) = replicate (unat nt) Free"
proof -
  from assms obtain rxs where "mk_processes (mk_process_tx libt m) [0..<unat nt] = Inr (hp_tx_vec pool)"
    by (auto simp: mk_process_pool_def bindE_eq_Inr)
  note txs = mk_processes_list_all [OF this, of "\<lambda>p. tx_ok m p \<and> phase_of p = Free"]
  then have all: "list_all (\<lambda>p. tx_ok m p \<and> phase_of p = Free) (hp_tx_vec pool)" "length (hp_tx_vec pool) = unat nt"
    using mk_process_tx_ok by auto
  then show "tx_pool_ok m pool" using u32_less [of nt] by (auto simp: tx_pool_ok_def list_all_iff)
  from all show "map phase_of (hp_tx_vec pool) = replicate (unat nt) Free"
    by (auto intro!: replicate_eqI simp: list_all_iff)
qed

subsection \<open>Processes for reception\<close>

definition rx_pristine :: "'s process_rx \<Rightarrow> bool" where
  "rx_pristine p \<longleftrightarrow> hp_PLCF_type p = 0 \<and> hp_network_id p = 0 \<and> hp_packet_sizes p = packet_sizes_zero \<and>
     hp_rv p = 0 \<and> finalize_rx p = Rx_reset_and_terminate \<and> a_cnt (rx_hb_tb p) = 0"

definition rx_ok :: "packet_sizes_t \<Rightarrow> 's process_rx \<Rightarrow> bool" where
  "rx_ok m p \<longleftrightarrow> lock_ok p \<and> a_len (rx_hb_tb p) = N_TB_byte m \<and> d_len (rx_hb_tb p) = G m * 2 \<and>
     (if phase_of p = Free then rx_pristine p
      else (hp_PLCF_type p = 1 \<or> hp_PLCF_type p = 2) \<and> fits_in m (hp_packet_sizes p))"

definition finalize_rx_at ::
    "'r softbuffer_lib \<Rightarrow> nat \<Rightarrow> bool \<Rightarrow> ('t, 'r) process_pool \<Rightarrow> (nat option \<times> ('t, 'r) process_pool) res" where
  "finalize_rx_at lib i crc_status pool =
     bindE (array_at (hp_rx_vec pool) i) (\<lambda>p.
     bindE (rx_finalize lib crc_status p) (\<lambda>p'. Inr (None, pool\<lparr>hp_rx_vec := (hp_rx_vec pool)[i := p']\<rparr>)))"

type_synonym rx_call =
  "(u32 \<times> u32 \<times> packet_sizes_def_t \<times> u32 \<times> finalize_rx_t, u32 \<times> finalize_rx_t, bool) harq_call"

fun rx_step ::
    "(u32 \<Rightarrow> u32 \<Rightarrow> u32) \<Rightarrow> 'r softbuffer_lib \<Rightarrow> rx_call \<Rightarrow> ('t, 'r) process_pool \<Rightarrow>
     (nat option \<times> ('t, 'r) process_pool) res" where
  "rx_step c lib (Get (plcf, nid, ps, rv, frx)) pool = get_process_rx c plcf nid ps rv frx pool"
| "rx_step c lib (Resume i (rv, frx)) pool = get_process_rx_running (of_nat i) rv frx pool"
| "rx_step c lib (Finalize i crc_status) pool = finalize_rx_at lib i crc_status pool"

fun rx_allowed :: "(u32 \<Rightarrow> u32 \<Rightarrow> u32) \<Rightarrow> radio_device_class_t \<Rightarrow> rx_call \<Rightarrow> ('t, 'r) process_pool \<Rightarrow> bool" where
  "rx_allowed c rdc (Get (plcf, nid, ps, rv, frx)) pool \<longleftrightarrow>
     (plcf = 1 \<or> plcf = 2) \<and> within_class rdc ps \<and> packet_exists c ps"
| "rx_allowed c rdc (Resume i x) pool \<longleftrightarrow>
     i < length (hp_rx_vec pool) \<and> phase_of (hp_rx_vec pool ! i) \<noteq> Free"
| "rx_allowed c rdc (Finalize i crc_status) pool \<longleftrightarrow>
     i < length (hp_rx_vec pool) \<and> phase_of (hp_rx_vec pool ! i) = Active"

definition rx_pool_ok :: "packet_sizes_t \<Rightarrow> ('t, 'r) process_pool \<Rightarrow> bool" where
  "rx_pool_ok m pool \<longleftrightarrow> list_all (rx_ok m) (hp_rx_vec pool) \<and> length (hp_rx_vec pool) < 2 ^ 32"

lemma rx_terminate_ok:
  "rx_ok m p \<Longrightarrow> phase_of p = Active \<Longrightarrow>
   \<exists>p'. rx_reset_and_terminate_func lib p = Inr p' \<and> rx_ok m p' \<and> phase_of p' = Free"
  by (auto simp: rx_reset_and_terminate_func_def process_reset_def Let_def lock_simps
    rx_ok_def rx_pristine_def buffer_reset_cb_def)

lemma rx_pause_ok:
  "rx_ok m p \<Longrightarrow> phase_of p = Active \<Longrightarrow> \<exists>p'. unlock_inner p = Inr p' \<and> rx_ok m p' \<and> phase_of p' = Paused"
  by (auto simp: lock_simps rx_ok_def)

lemma rx_finalize_ok:
  assumes "rx_ok m p" "phase_of p = Active"
  obtains p' where "rx_finalize lib crc p = Inr p'" "rx_ok m p'" "phase_of p' = Free \<or> phase_of p' = Paused"
  using rx_terminate_ok [OF assms, of lib] rx_pause_ok [OF assms] that
  by (cases "finalize_rx p"; cases crc) (auto simp: rx_finalize_def)

lemma rx_resume_ok:
  assumes "rx_ok m p" "phase_of p = Paused"
  obtains p' where "lock_inner (p\<lparr>hp_rv := rv, finalize_rx := frx\<rparr>) = Inr p'" "rx_ok m p'" "phase_of p' = Active"
  using assms by (intro that) (auto simp: lock_simps rx_ok_def)

lemma rx_get_ok:
  assumes "rx_ok m p" "phase_of p = Free" "fits_in m q" "plcf = 1 \<or> plcf = 2"
  obtains p2 where
    "prepare_rx plcf nid q rv frx (count_outer_locked (p\<lparr>lk_outer := True\<rparr>)) = Inr p2"
    "lk_outer p2" "\<not> lk_inner p2" "\<And>p3. lock_inner p2 = Inr p3 \<Longrightarrow> rx_ok m p3 \<and> phase_of p3 = Active"
  using assms
  by (intro that) (auto simp: prepare_rx_def lock_simps rx_ok_def fits_in_def rx_pristine_def)

lemma rx_get_call:
  assumes ok: "rx_pool_ok m pool" and ps: "get_packet_sizes c ps = Inr (Some q)" "fits_in m q"
    and plcf: "plcf = 1 \<or> plcf = 2"
  shows "\<exists>r pool'. get_process_rx c plcf nid ps rv frx pool = Inr (r, pool') \<and> rx_pool_ok m pool' \<and>
    phase_step (Get x) (map phase_of (hp_rx_vec pool)) r (map phase_of (hp_rx_vec pool'))"
proof -
  have "\<exists>r rxs. first_lockable (prepare_rx plcf nid q rv frx) 0 (hp_rx_vec pool) = Inr (r, rxs) \<and>
      list_all (rx_ok m) rxs \<and> length rxs = length (hp_rx_vec pool) \<and>
      phase_step (Get x) (map phase_of (hp_rx_vec pool)) r (map phase_of rxs)"
  proof (rule acquire)
    show "list_all (rx_ok m) (hp_rx_vec pool)" using ok by (simp add: rx_pool_ok_def)
    show "lock_ok p" if "rx_ok m p" for p :: "'b process_rx" using that by (simp add: rx_ok_def)
    show "\<exists>p2. prepare_rx plcf nid q rv frx (count_outer_locked (p\<lparr>lk_outer := True\<rparr>)) = Inr p2 \<and> lk_outer p2 \<and>
        \<not> lk_inner p2 \<and> (\<forall>p3. lock_inner p2 = Inr p3 \<longrightarrow> rx_ok m p3 \<and> phase_of p3 = Active)"
      if "rx_ok m p" "phase_of p = Free" for p :: "'b process_rx"
      by (rule rx_get_ok [OF that ps(2) plcf]) blast
  qed
  then show ?thesis
    using plcf ps(1) ok by (auto simp: get_process_rx_def rx_pool_ok_def simp del: phase_step.simps)
qed

lemma rx_call:
  assumes rdc: "get_radio_device_class s = Inr rdc" and c: "rounds_up c"
    and m: "get_maximum_packet_sizes c s = Inr m"
    and ok: "rx_pool_ok m pool" and call: "rx_allowed c rdc call pool"
  shows "\<exists>r pool'. rx_step c lib call pool = Inr (r, pool') \<and> rx_pool_ok m pool' \<and>
    phase_step call (map phase_of (hp_rx_vec pool)) r (map phase_of (hp_rx_vec pool'))"
proof (cases call)
  case (Get x)
  obtain plcf nid ps rv frx where x: "x = (plcf, nid, ps, rv, frx)" by (cases x)
  with call Get have allowed: "plcf = 1 \<or> plcf = 2" "within_class rdc ps" "packet_exists c ps" by auto
  obtain q where "get_packet_sizes c ps = Inr (Some q)" "fits_in m q"
    by (rule within_class_fits [OF rdc c m allowed(2,3)])
  from rx_get_call [OF ok this allowed(1)] show ?thesis by (simp add: Get x)
next
  case (Resume i x)
  obtain rv frx where x: "x = (rv, frx)" by (cases x)
  define rxs where "rxs = hp_rx_vec pool"
  have i: "i < length rxs" "phase_of (rxs ! i) \<noteq> Free" using call Resume by (simp_all add: rxs_def)
  have rxs: "list_all (rx_ok m) rxs" "length rxs < 2 ^ 32" using ok by (simp_all add: rx_pool_ok_def rxs_def)
  have idx: "unat (of_nat i :: u32) = i"
    using i(1) rxs(2) by (simp add: unsigned_of_nat take_bit_nat_eq_self_iff)
  have pi: "rx_ok m (rxs ! i)" using rxs(1) i(1) by (simp add: list_all_length)
  have outer: "is_outer_locked (rxs ! i)" using i(2) by (simp add: lock_simps)
  show ?thesis
  proof (cases "phase_of (rxs ! i) = Active")
    case True
    then have "get_process_rx_running (of_nat i) rv frx pool = Inr (None, pool)"
      using i(1) outer by (simp add: get_process_rx_running_def idx rxs_def array_at_def lock_simps)
    then show ?thesis using Resume x True i(1) ok by (simp add: rxs_def)
  next
    case False
    with i(2) have paused: "phase_of (rxs ! i) = Paused" by (cases "phase_of (rxs ! i)") auto
    from rx_resume_ok [OF pi this, where rv = rv and frx = frx] obtain p' where
      p': "lock_inner ((rxs ! i)\<lparr>hp_rv := rv, finalize_rx := frx\<rparr>) = Inr p'" "rx_ok m p'" "phase_of p' = Active"
      by blast
    have "get_process_rx_running (of_nat i) rv frx pool = Inr (Some i, pool\<lparr>hp_rx_vec := rxs[i := p']\<rparr>)"
      using i(1) outer paused p'(1)
      by (simp add: get_process_rx_running_def idx rxs_def array_at_def is_inner_locked_def phase_simps)
    then show ?thesis
      using Resume x paused p' i(1) rxs by (auto simp: rxs_def rx_pool_ok_def map_update intro: list_all_update)
  qed
next
  case (Finalize i crc)
  define rxs where "rxs = hp_rx_vec pool"
  have i: "i < length rxs" "phase_of (rxs ! i) = Active" using call Finalize by (simp_all add: rxs_def)
  have rxs: "list_all (rx_ok m) rxs" "length rxs < 2 ^ 32" using ok by (simp_all add: rx_pool_ok_def rxs_def)
  have pi: "rx_ok m (rxs ! i)" using rxs(1) i(1) by (simp add: list_all_length)
  obtain p' where p': "rx_finalize lib crc (rxs ! i) = Inr p'" "rx_ok m p'" "phase_of p' = Free \<or> phase_of p' = Paused"
    by (rule rx_finalize_ok [OF pi i(2)])
  have "finalize_rx_at lib i crc pool = Inr (None, pool\<lparr>hp_rx_vec := rxs[i := p']\<rparr>)"
    using i(1) p'(1) by (simp add: finalize_rx_at_def array_at_def rxs_def)
  then show ?thesis
    using Finalize p' i(1,2) rxs by (auto simp: rxs_def rx_pool_ok_def map_update intro: list_all_update)
qed

lemma mk_process_rx_ok: "mk_process_rx lib m pid = Inr p \<Longrightarrow> rx_ok m p \<and> phase_of p = Free"
  by (auto simp: mk_process_rx_def mk_buffer_rx_def mk_buffer_def bindE_eq_Inr PHY_D_RX_DATA_TYPE_SIZE_def
    buffer_reset_def buffer_reset_cb_def process.extend_def process_new_def lockable.extend_def
    lockable_new_def rx_ok_def rx_pristine_def lock_simps split: option.splits)

lemma mk_pool_rx_ok:
  assumes "mk_process_pool libt libr m nt nr = Inr pool"
  shows "rx_pool_ok m pool" "map phase_of (hp_rx_vec pool) = replicate (unat nr) Free"
proof -
  from assms have "mk_processes (mk_process_rx libr m) [0..<unat nr] = Inr (hp_rx_vec pool)"
    by (auto simp: mk_process_pool_def bindE_eq_Inr)
  note rxs = mk_processes_list_all [OF this, of "\<lambda>p. rx_ok m p \<and> phase_of p = Free"]
  then have all: "list_all (\<lambda>p. rx_ok m p \<and> phase_of p = Free) (hp_rx_vec pool)" "length (hp_rx_vec pool) = unat nr"
    using mk_process_rx_ok by auto
  then show "rx_pool_ok m pool" using u32_less [of nr] by (auto simp: rx_pool_ok_def list_all_iff)
  from all show "map phase_of (hp_rx_vec pool) = replicate (unat nr) Free"
    by (auto intro!: replicate_eqI simp: list_all_iff)
qed

subsection \<open>Both pools implement the contract\<close>

definition pool_setting ::
    "(u32 \<Rightarrow> u32 \<Rightarrow> u32) \<Rightarrow> string \<Rightarrow> radio_device_class_t \<Rightarrow> packet_sizes_t \<Rightarrow> bool" where
  "pool_setting c s rdc m \<longleftrightarrow>
     rounds_up c \<and> get_radio_device_class s = Inr rdc \<and> get_maximum_packet_sizes c s = Inr m"

lemma tx_pool_call:
  "pool_setting c s rdc m \<and> tx_pool_ok m pool \<Longrightarrow> tx_allowed c rdc call pool \<Longrightarrow>
   \<exists>r pool'. tx_step c lib call pool = Inr (r, pool') \<and> (pool_setting c s rdc m \<and> tx_pool_ok m pool') \<and>
     phase_step call (map phase_of (hp_tx_vec pool)) r (map phase_of (hp_tx_vec pool'))"
  unfolding pool_setting_def using tx_call [of s rdc c m pool call lib] by blast

lemma rx_pool_call:
  "pool_setting c s rdc m \<and> rx_pool_ok m pool \<Longrightarrow> rx_allowed c rdc call pool \<Longrightarrow>
   \<exists>r pool'. rx_step c lib call pool = Inr (r, pool') \<and> (pool_setting c s rdc m \<and> rx_pool_ok m pool') \<and>
     phase_step call (map phase_of (hp_rx_vec pool)) r (map phase_of (hp_rx_vec pool'))"
  unfolding pool_setting_def using rx_call [of s rdc c m pool call lib] by blast

interpretation tx_pool: harq_pool "tx_step c lib" "tx_allowed c rdc"
  "\<lambda>pool. pool_setting c s rdc m \<and> tx_pool_ok m pool" "\<lambda>pool. map phase_of (hp_tx_vec pool)"
  for c lib rdc s m
  by unfold_locales (rule tx_pool_call)

interpretation rx_pool: harq_pool "rx_step c lib" "rx_allowed c rdc"
  "\<lambda>pool. pool_setting c s rdc m \<and> rx_pool_ok m pool" "\<lambda>pool. map phase_of (hp_rx_vec pool)"
  for c lib rdc s m
  by unfold_locales (rule rx_pool_call)

text \<open>C2: For every sequence of calls in which the caller asks for packets of the radio device class
that are possible, resumes only processes that are not free, finalizes only processes it was given,
and repeats a packet at most seven times, no assertion of the HARQ processes and no bounds check
fails, neither for transmission nor for reception. A process that is handed out was free and is the
first free one, no process is handed out twice before it is finalized, the null pointer is returned
exactly when no process is free or the process is still in use; a free process has all its variables
reset, the lock counters agree with the locks, the redundancy version of the n-th transmission is
0, 2, 3, 1 in turn, and the transport block, its bits and its code blocks fit into the buffers.\<close>
theorem harq_processes_never_fail:
  assumes "pool_setting c s rdc m" and "mk_process_pool libt libr m nt nr = Inr pool"
    and "run_allowed (tx_allowed c rdc) (tx_step c libt) tcalls pool"
    and "run_allowed (rx_allowed c rdc) (rx_step c libr) rcalls pool"
  shows "(\<exists>trs tpool. run_calls (tx_step c libt) tcalls pool = Inr (trs, tpool) \<and>
            list_all (tx_ok m) (hp_tx_vec tpool) \<and>
            phase_run tcalls (replicate (unat nt) Free) trs (map phase_of (hp_tx_vec tpool))) \<and>
         (\<exists>rrs rpool. run_calls (rx_step c libr) rcalls pool = Inr (rrs, rpool) \<and>
            list_all (rx_ok m) (hp_rx_vec rpool) \<and>
            phase_run rcalls (replicate (unat nr) Free) rrs (map phase_of (hp_rx_vec rpool)))"
  using tx_pool.calls_never_fail [of c s rdc m pool libt tcalls] mk_pool_tx_ok [OF assms(2)]
    rx_pool.calls_never_fail [of c s rdc m pool libr rcalls] mk_pool_rx_ok [OF assms(2)] assms
  by (auto simp: tx_pool_ok_def rx_pool_ok_def)

definition sample_lib :: "(u32 \<times> u32) softbuffer_lib" where
  "sample_lib = \<lparr>sb_init = (\<lambda>nof cb_size. Some (nof, cb_size)), sb_reset = (\<lambda>s. s), sb_reset_cb = (\<lambda>s nof. s)\<rparr>"

definition sample_psdef :: packet_sizes_def_t where
  "sample_psdef = \<lparr>ps_u = 1, ps_b = 1, ps_PacketLengthType = 0, ps_PacketLength = 4, ps_tm_mode_index = 0,
     ps_mcs_index = 2, ps_Z = 2048\<rparr>"

definition sample_tx_calls :: "tx_call list" where
  "sample_tx_calls =
     [Get (1, 100, sample_psdef, Increase_rv_and_keep_running), Get (2, 100, sample_psdef, Tx_reset_and_terminate),
      Finalize 0 (), Resume 0 Tx_reset_and_terminate, Finalize 0 (), Finalize 1 ()]"

definition sample_rx_calls :: "rx_call list" where
  "sample_rx_calls =
     [Get (1, 100, sample_psdef, 0, Keep_running_or_reset_and_terminate_if_crc_correct), Finalize 0 False,
      Resume 0 (2, Rx_reset_and_terminate), Finalize 0 True]"

text \<open>The sample pool of two processes for transmission and one for reception admits the calls.\<close>

definition sample_admits :: bool where
  "sample_admits =
     (case get_radio_device_class ''1.1.1.A'' of Inl e \<Rightarrow> False | Inr rdc \<Rightarrow>
     (case get_maximum_packet_sizes ceil_divide_integer ''1.1.1.A'' of Inl e \<Rightarrow> False | Inr m \<Rightarrow>
     (case mk_process_pool sample_lib sample_lib m 2 1 of Inl e \<Rightarrow> False | Inr pool \<Rightarrow>
        run_allowed (tx_allowed ceil_divide_integer rdc) (tx_step ceil_divide_integer sample_lib)
          sample_tx_calls pool \<and>
        run_allowed (rx_allowed ceil_divide_integer rdc) (rx_step ceil_divide_integer sample_lib)
          sample_rx_calls pool)))"

lemma sample_admits: "sample_admits"
  by code_simp

theorem harq_processes_never_fail_witness:
  "\<exists>m pool rs tpool.
     get_maximum_packet_sizes ceil_divide_integer ''1.1.1.A'' = Inr m \<and>
     mk_process_pool sample_lib sample_lib m 2 1 = Inr pool \<and>
     run_calls (tx_step ceil_divide_integer sample_lib) sample_tx_calls pool = Inr (rs, tpool) \<and>
     list_all (tx_ok m) (hp_tx_vec tpool)"
proof -
  from sample_admits obtain rdc m pool where *:
    "get_radio_device_class ''1.1.1.A'' = Inr rdc"
    "get_maximum_packet_sizes ceil_divide_integer ''1.1.1.A'' = Inr m"
    "mk_process_pool sample_lib sample_lib m 2 1 = Inr pool"
    "run_allowed (tx_allowed ceil_divide_integer rdc) (tx_step ceil_divide_integer sample_lib) sample_tx_calls pool"
    "run_allowed (rx_allowed ceil_divide_integer rdc) (rx_step ceil_divide_integer sample_lib) sample_rx_calls pool"
    unfolding sample_admits_def by (auto split: sum.splits simp del: run_allowed.simps)
  then have "pool_setting ceil_divide_integer ''1.1.1.A'' rdc m"
    by (simp add: pool_setting_def rounds_up_ceil_divide_integer)
  from harq_processes_never_fail [OF this *(3-5)] *(2,3) show ?thesis by blast
qed

end
