(* ===== verification/Pcc_To_Pdc.thy ===== *)
theory Pcc_To_Pdc
  imports Codec_Properties Harq_Pool
begin

text \<open>
  From the control field to the data field of a received packet (\<open>upper/tpoint.cpp\<close>): the
  packet definition is taken from the synchronisation and from the control field that the decoder
  holds, and a HARQ process is requested for it. What \<open>tpoint_t\<close> does besides is not modelled.
\<close>

subsection \<open>The virtual functions of the control field\<close>

fun any_N_SS :: "any_plcf \<Rightarrow> u32 res" where
  "any_N_SS (Plcf10 p) = Inr 1"
| "any_N_SS (Plcf20 p) = plcf_20_get_N_SS p"
| "any_N_SS (Plcf21 p) = plcf_21_get_N_SS p"

fun any_PacketLengthType :: "any_plcf \<Rightarrow> u32" where
  "any_PacketLengthType (Plcf10 p) = PacketLengthType p"
| "any_PacketLengthType (Plcf20 p) = PacketLengthType p"
| "any_PacketLengthType (Plcf21 p) = PacketLengthType p"

fun any_PacketLength :: "any_plcf \<Rightarrow> u32" where
  "any_PacketLength (Plcf10 p) = get_PacketLength p"
| "any_PacketLength (Plcf20 p) = get_PacketLength p"
| "any_PacketLength (Plcf21 p) = get_PacketLength p"

fun any_DFMCS :: "any_plcf \<Rightarrow> u32" where
  "any_DFMCS (Plcf10 p) = DFMCS p"
| "any_DFMCS (Plcf20 p) = DFMCS p"
| "any_DFMCS (Plcf21 p) = DFMCS p"

subsection \<open>tpoint\<close>

record sync_report =
  sr_u :: u32
  sr_b :: u32
  sr_N_eff_TX :: u32

record ('t, 'r) tpoint =
  tp_hpp :: "('t, 'r) process_pool"
  rx_pcc2pdc_success :: int
  rx_pcc2pdc_running_success :: int

definition worksub_psdef :: "sync_report \<Rightarrow> plcf_decoder \<Rightarrow> u32 \<Rightarrow> u32 \<Rightarrow> packet_sizes_def_t res" where
  "worksub_psdef sr d Z_max PLCF_type =
     bindE (get_plcf_base d PLCF_type) (\<lambda>plcf.
     assertE (plcf \<noteq> None) (
     bindE (any_N_SS (the plcf)) (\<lambda>ss.
     bindE (get_equivalent_tm_mode (sr_N_eff_TX sr) ss) (\<lambda>tm.
     Inr \<lparr>ps_u = sr_u sr, ps_b = sr_b sr, ps_PacketLengthType = any_PacketLengthType (the plcf),
          ps_PacketLength = any_PacketLength (the plcf), ps_tm_mode_index = tm,
          ps_mcs_index = any_DFMCS (the plcf), ps_Z = Z_max\<rparr>))))"

text \<open>
  The result is the position of the HARQ process and, where the pointer \<open>process_id\<close> is not
  null (\<open>wants_id\<close>), the identity stored through it.
\<close>

definition worksub_pcc2pdc ::
    "(u32 \<Rightarrow> u32 \<Rightarrow> u32) \<Rightarrow> sync_report \<Rightarrow> plcf_decoder \<Rightarrow> u32 \<Rightarrow> u32 \<Rightarrow> u32 \<Rightarrow> u32 \<Rightarrow> finalize_rx_t \<Rightarrow> bool \<Rightarrow>
     ('t, 'r) tpoint \<Rightarrow> (nat \<times> u32 option \<times> ('t, 'r) tpoint) res" where
  "worksub_pcc2pdc srsran_ceil sr d Z_max PLCF_type network_id rv frx wants_id tp =
     (let tp1 = tp\<lparr>rx_pcc2pdc_success := rx_pcc2pdc_success tp + 1\<rparr> in
     bindE (worksub_psdef sr d Z_max PLCF_type) (\<lambda>ps.
     bindE (get_process_rx srsran_ceil PLCF_type network_id ps rv frx (tp_hpp tp1)) (\<lambda>(hp_rx, hpp).
     let tp2 = tp1\<lparr>tp_hpp := hpp\<rparr> in
     assertE (hp_rx \<noteq> None) (
     assertE (\<not> (frx \<noteq> Rx_reset_and_terminate \<and> \<not> wants_id)) (
     if wants_id
     then bindE (get_id (hp_rx_vec hpp ! the hp_rx)) (\<lambda>pid. Inr (the hp_rx, Some pid, tp2))
     else Inr (the hp_rx, None, tp2))))))"

definition worksub_pcc2pdc_running ::
    "u32 \<Rightarrow> finalize_rx_t \<Rightarrow> u32 \<Rightarrow> ('t, 'r) tpoint \<Rightarrow> (nat \<times> ('t, 'r) tpoint) res" where
  "worksub_pcc2pdc_running rv frx process_id tp =
     (let tp1 = tp\<lparr>rx_pcc2pdc_running_success := rx_pcc2pdc_running_success tp + 1\<rparr> in
     bindE (get_process_rx_running process_id rv frx (tp_hpp tp1)) (\<lambda>(hp_rx, hpp).
     assertE (hp_rx \<noteq> None) (Inr (the hp_rx, tp1\<lparr>tp_hpp := hpp\<rparr>))))"

subsection \<open>The packet of a decoded control field is within the radio device class\<close>

definition sync_within :: "radio_device_class_t \<Rightarrow> sync_report \<Rightarrow> bool" where
  "sync_within rdc sr \<longleftrightarrow>
     u_defined (sr_u sr) \<and> sr_u sr \<le> u_min rdc \<and> b_defined (sr_b sr) \<and> sr_b sr \<le> b_min rdc \<and>
     (sr_N_eff_TX sr = 1 \<or> sr_N_eff_TX sr = 2 \<or> sr_N_eff_TX sr = 4 \<or> sr_N_eff_TX sr = 8) \<and>
     sr_N_eff_TX sr \<le> N_TX_min rdc"

text \<open>The limits that \<open>rx_synced_t\<close> hands over to the decoder of the control field.\<close>

definition decoder_limits :: "packet_sizes_t \<Rightarrow> plcf_decoder \<Rightarrow> bool" where
  "decoder_limits m d \<longleftrightarrow>
     PacketLength_max d = ps_PacketLength (psdef m) \<and> mcs_index_max d = ps_mcs_index (psdef m)"

lemma plcf_base_length:
  assumes "plcf_base_valid p"
  shows "PacketLengthType p \<le> 1" "0 < get_PacketLength p" "get_PacketLength p \<le> 16"
proof -
  from assms have le: "PacketLengthType p \<le> 1" "PacketLength_m1 p \<le> 15"
    by (auto simp: plcf_base_valid_def bitmask_lsb_def mask_eq_exp_minus_1 not_less split: if_splits)
  from le(1) show "PacketLengthType p \<le> 1" .
  from le(2) have "unat (PacketLength_m1 p) \<le> 15" by (simp add: word_le_nat_alt)
  then have "unat (get_PacketLength p) = unat (PacketLength_m1 p) + 1"
    by (simp add: get_PacketLength_def unat_add_u32)
  with \<open>unat (PacketLength_m1 p) \<le> 15\<close> show "0 < get_PacketLength p" "get_PacketLength p \<le> 16"
    by (simp_all add: word_le_nat_alt word_less_nat_alt)
qed

lemma N_SS_positive: "array_at N_SS_coded_lut_rev i = Inr n \<Longrightarrow> 0 < n"
  by (auto simp: array_at_def N_SS_coded_lut_rev_def less_Suc_eq nth_Cons' split: if_splits)

lemma any_plcf_fields:
  assumes "plcf_valid p"
  shows "any_PacketLengthType p \<le> 1" "0 < any_PacketLength p" "any_PacketLength p \<le> 16"
    and "\<exists>ss. any_N_SS p = Inr ss \<and> 0 < ss"
proof -
  show "any_PacketLengthType p \<le> 1"
    using assms by (cases p) (simp_all add: plcf_base_length)
  show "0 < any_PacketLength p"
    using assms by (cases p) (simp_all add: plcf_base_length)
  show "any_PacketLength p \<le> 16"
    using assms by (cases p) (simp_all add: plcf_base_length)
  show "\<exists>ss. any_N_SS p = Inr ss \<and> 0 < ss"
  proof (cases p)
    case (Plcf20 q)
    with assms valid_get_N_SS(1) [of q] N_SS_positive show ?thesis by (auto simp: plcf_20_get_N_SS_def)
  next
    case (Plcf21 q)
    with assms valid_get_N_SS(2) [of q] N_SS_positive show ?thesis by (auto simp: plcf_21_get_N_SS_def)
  qed simp
qed

lemma any_plcf_in_limits:
  "plcf_in_rdc d p \<Longrightarrow> any_PacketLength p \<le> PacketLength_max d \<and> any_DFMCS p \<le> mcs_index_max d"
  by (cases p) (auto simp: check_rdc_limits_def not_less split: if_splits)

lemma get_plcf_base_Some:
  assumes "plcf_decoder_inv d" "get_plcf_base d t = Inr (Some p)"
  shows "t = 1 \<or> t = 2" "plcf_valid p" "plcf_in_rdc d p"
proof -
  show t: "t = 1 \<or> t = 2" using assms(2) by (auto simp: get_plcf_base_def)
  show "plcf_valid p" "plcf_in_rdc d p"
    using t get_plcf_base_inv [OF assms(1)] assms(2)
    by (cases "HeaderFormat_type1 d = UNDEFINED_NUMERIC_32";
        cases "HeaderFormat_type2 d = UNDEFINED_NUMERIC_32"; auto)+
qed

lemma equivalent_tm_mode_within:
  assumes "class_limits rdc" "eff = 1 \<or> eff = 2 \<or> eff = 4 \<or> eff = 8" "eff \<le> N_TX_min rdc" "0 < ss"
  obtains tm where "get_equivalent_tm_mode eff ss = Inr tm" "tm \<le> 11"
    "tm \<le> projr (get_max_tm_mode_index_depending_on_N_TX (N_TX_min rdc))"
proof -
  have "N_TX_min rdc \<in> {1, 2, 4, 8}" using assms(1) by (auto simp: class_limits_def)
  with assms(2,3,4) show thesis
    by (intro that [of "projr (get_equivalent_tm_mode eff ss)"])
      (auto simp: get_equivalent_tm_mode_def get_max_tm_mode_index_depending_on_N_TX_def word_le_nat_alt)
qed

lemma maximum_psdef_limits:
  assumes "get_radio_device_class s = Inr rdc" "rounds_up c" "get_maximum_packet_sizes c s = Inr m"
  shows "ps_PacketLength (psdef m) = PacketLength_min rdc" "ps_mcs_index (psdef m) = mcs_index_min rdc"
    "ps_Z (psdef m) = Z_min rdc"
proof -
  obtain m' ps where ps: "get_maximum_packet_sizes c s = Inr m'" "maximum_psdef rdc = Inr ps" "psdef_ok ps"
    "get_packet_sizes c ps = Inr (Some m')" by (rule maximum_packet_sizes [OF assms(1,2)])
  have "psdef m = ps"
    using get_packet_sizes_Some(1) [OF ps(3) assms(2) ps(4)] ps(1) assms(3)
    by (simp add: sizes_as_specified_def)
  moreover have "ps_PacketLength ps = PacketLength_min rdc \<and> ps_mcs_index ps = mcs_index_min rdc \<and>
      ps_Z ps = Z_min rdc"
    using ps(2) by (auto simp: maximum_psdef_def bindE_eq_Inr)
  ultimately show "ps_PacketLength (psdef m) = PacketLength_min rdc"
    "ps_mcs_index (psdef m) = mcs_index_min rdc" "ps_Z (psdef m) = Z_min rdc" by simp_all
qed

text \<open>The packet definition of every control field that the decoder announces is in the class.\<close>

lemma worksub_psdef_within_class:
  assumes "pool_setting c s rdc m" "decoder_limits m d" "sync_within rdc sr"
    and "plcf_decoder_inv d" "get_plcf_base d t = Inr (Some p)"
  obtains ps where "worksub_psdef sr d (ps_Z (psdef m)) t = Inr ps" "within_class rdc ps"
proof -
  have set: "get_radio_device_class s = Inr rdc" "rounds_up c" "get_maximum_packet_sizes c s = Inr m"
    using assms(1) by (simp_all add: pool_setting_def)
  note lim = class_limits [OF set(1)] and m = maximum_psdef_limits [OF set]
  note p = get_plcf_base_Some [OF assms(4,5)]
  note f = any_plcf_fields [OF p(2)]
  from f(4) obtain ss where ss: "any_N_SS p = Inr ss" "0 < ss" by blast
  have sr: "u_defined (sr_u sr)" "sr_u sr \<le> u_min rdc" "b_defined (sr_b sr)" "sr_b sr \<le> b_min rdc"
    "sr_N_eff_TX sr = 1 \<or> sr_N_eff_TX sr = 2 \<or> sr_N_eff_TX sr = 4 \<or> sr_N_eff_TX sr = 8"
    "sr_N_eff_TX sr \<le> N_TX_min rdc" using assms(3) by (simp_all add: sync_within_def)
  obtain tm where tm: "get_equivalent_tm_mode (sr_N_eff_TX sr) ss = Inr tm" "tm \<le> 11"
    "tm \<le> projr (get_max_tm_mode_index_depending_on_N_TX (N_TX_min rdc))"
    by (rule equivalent_tm_mode_within [OF lim sr(5,6) ss(2)])
  have le: "any_PacketLength p \<le> PacketLength_min rdc" "any_DFMCS p \<le> mcs_index_min rdc"
    using any_plcf_in_limits [OF p(3)] assms(2) m by (simp_all add: decoder_limits_def)
  have lim': "mcs_index_min rdc \<le> 11" "Z_min rdc = 2048 \<or> Z_min rdc = 6144"
    using lim by (auto simp: class_limits_def)
  have "any_DFMCS p \<le> 11" by (rule order_trans [OF le(2) lim'(1)])
  define ps where "ps = \<lparr>ps_u = sr_u sr, ps_b = sr_b sr, ps_PacketLengthType = any_PacketLengthType p,
     ps_PacketLength = any_PacketLength p, ps_tm_mode_index = tm, ps_mcs_index = any_DFMCS p,
     ps_Z = ps_Z (psdef m)\<rparr>"
  have "worksub_psdef sr d (ps_Z (psdef m)) t = Inr ps"
    using assms(5) ss(1) tm(1) by (simp add: worksub_psdef_def ps_def)
  moreover have "psdef_ok ps"
    using sr(1,3) f(1,2,3) tm(2) \<open>any_DFMCS p \<le> 11\<close> lim'(2) m(3) by (simp add: psdef_ok_def ps_def)
  then have "within_class rdc ps"
    using sr(2,4) le tm(3) m(3) by (simp add: within_class_def ps_def)
  ultimately show thesis by (rule that)
qed

subsection \<open>The process of a received packet\<close>

text \<open>The processes are numbered by their position.\<close>

definition ids_ok :: "('t, 'r) process_pool \<Rightarrow> bool" where
  "ids_ok pool \<longleftrightarrow> map hp_id (hp_rx_vec pool) = map of_nat [0..<length (hp_rx_vec pool)]"

lemma rx_process_taken:
  assumes ok: "rx_pool_ok m pool" and plcf: "plcf = 1 \<or> plcf = 2"
    and ps: "get_packet_sizes c ps = Inr (Some q)" "fits_in m q"
  shows "if Free \<in> set (map phase_of (hp_rx_vec pool))
     then \<exists>i p. get_process_rx c plcf nid ps rv frx pool = Inr (Some i, pool\<lparr>hp_rx_vec := (hp_rx_vec pool)[i := p]\<rparr>) \<and>
        i < length (hp_rx_vec pool) \<and> phase_of (hp_rx_vec pool ! i) = Free \<and>
        Free \<notin> set (take i (map phase_of (hp_rx_vec pool))) \<and> rx_ok m p \<and> phase_of p = Active \<and>
        hp_id p = hp_id (hp_rx_vec pool ! i) \<and> hp_packet_sizes p = q \<and> hp_rv p = rv \<and>
        finalize_rx p = frx
     else get_process_rx c plcf nid ps rv frx pool = Inr (None, pool)"
proof -
  define rxs where "rxs = hp_rx_vec pool"
  have all: "list_all (rx_ok m) rxs" using ok by (simp add: rx_pool_ok_def rxs_def)
  then have "list_all lock_ok rxs" by (auto simp: list_all_iff rx_ok_def)
  moreover have "\<exists>p2. prepare_rx plcf nid q rv frx (count_outer_locked (p\<lparr>lk_outer := True\<rparr>)) = Inr p2 \<and>
      lk_outer p2 \<and> \<not> lk_inner p2" if "p \<in> set rxs" "phase_of p = Free" for p
  proof -
    from all that(1) have "rx_ok m p" by (simp add: list_all_iff)
    then show ?thesis by (rule rx_get_ok [OF _ that(2) ps(2) plcf]) blast
  qed
  ultimately obtain r rxs' where
    run: "first_lockable (prepare_rx plcf nid q rv frx) 0 rxs = Inr (r, rxs')" and
    r: "case r of None \<Rightarrow> Free \<notin> set (map phase_of rxs) \<and> rxs' = rxs
     | Some j \<Rightarrow> \<exists>i p2 p3. j = 0 + i \<and> i < length rxs \<and> phase_of (rxs ! i) = Free \<and>
         Free \<notin> set (take i (map phase_of rxs)) \<and>
         prepare_rx plcf nid q rv frx (count_outer_locked ((rxs ! i)\<lparr>lk_outer := True\<rparr>)) = Inr p2 \<and>
         lock_inner p2 = Inr p3 \<and> rxs' = rxs[i := p3]"
    using first_lockable_spec [of rxs "prepare_rx plcf nid q rv frx" 0] by blast
  have get: "get_process_rx c plcf nid ps rv frx pool = Inr (r, pool\<lparr>hp_rx_vec := rxs'\<rparr>)"
    using plcf ps(1) run by (auto simp: get_process_rx_def rxs_def)
  show ?thesis
  proof (cases r)
    case None
    then show ?thesis using r get by (simp add: rxs_def)
  next
    case (Some i)
    with r obtain p2 p3 where i: "i < length rxs" "phase_of (rxs ! i) = Free"
      "Free \<notin> set (take i (map phase_of rxs))"
      "prepare_rx plcf nid q rv frx (count_outer_locked ((rxs ! i)\<lparr>lk_outer := True\<rparr>)) = Inr p2"
      "lock_inner p2 = Inr p3" "rxs' = rxs[i := p3]" by auto
    have "rx_ok m (rxs ! i)" using all i(1) by (simp add: list_all_length)
    then have "rx_ok m p3 \<and> phase_of p3 = Active"
      by (rule rx_get_ok [OF _ i(2) ps(2) plcf, of nid rv frx]) (use i(4,5) in simp)
    moreover have "hp_id p3 = hp_id (rxs ! i) \<and> hp_packet_sizes p3 = q \<and> hp_rv p3 = rv \<and> finalize_rx p3 = frx"
      using i(4,5) by (auto simp: prepare_rx_def lock_inner_def count_outer_locked_def split: if_splits)
    moreover have "Free \<in> set (map phase_of rxs)" by (metis i(1,2) nth_mem image_eqI set_map)
    ultimately show ?thesis using get Some i by (auto simp: rxs_def)
  qed
qed

lemma mk_processes_ids:
  assumes "mk_processes mk ns = Inr ps" "\<And>i p. mk i = Inr p \<Longrightarrow> hp_id p = i"
  shows "map hp_id ps = map of_nat ns"
  using assms(1) by (induction ns arbitrary: ps) (auto simp: bindE_eq_Inr assms(2))

lemma mk_pool_ids_ok:
  assumes "mk_process_pool libt libr m nt nr = Inr pool"
  shows "ids_ok pool"
proof -
  have id: "mk_process_rx libr m i = Inr p \<Longrightarrow> hp_id p = i" for i p
    by (auto simp: mk_process_rx_def bindE_eq_Inr process.extend_def process_new_def lockable.extend_def
      lockable_new_def)
  from assms have rxs: "mk_processes (mk_process_rx libr m) [0..<unat nr] = Inr (hp_rx_vec pool)"
    by (auto simp: mk_process_pool_def bindE_eq_Inr)
  from mk_processes_ids [OF this id] have "map hp_id (hp_rx_vec pool) = map of_nat [0..<unat nr]" .
  moreover from this have "length (hp_rx_vec pool) = unat nr" using map_eq_imp_length_eq by fastforce
  ultimately show ?thesis by (simp add: ids_ok_def)
qed

lemma taken_ids:
  assumes "ids_ok pool" "i < length (hp_rx_vec pool)" "hp_id p = hp_id (hp_rx_vec pool ! i)"
  shows "ids_ok (pool\<lparr>hp_rx_vec := (hp_rx_vec pool)[i := p]\<rparr>)" "hp_id p = of_nat i"
proof -
  have ids: "map hp_id (hp_rx_vec pool) = map of_nat [0..<length (hp_rx_vec pool)]"
    using assms(1) by (simp add: ids_ok_def)
  have "map hp_id ((hp_rx_vec pool)[i := p]) = map hp_id (hp_rx_vec pool)"
    using assms(2,3) by (metis list_update_id map_update nth_map)
  then show "ids_ok (pool\<lparr>hp_rx_vec := (hp_rx_vec pool)[i := p]\<rparr>)"
    using ids by (simp add: ids_ok_def)
  have "hp_id (hp_rx_vec pool ! i) = map of_nat [0..<length (hp_rx_vec pool)] ! i"
    using ids assms(2) by (metis nth_map)
  with assms(2,3) show "hp_id p = of_nat i" by simp
qed

lemma rx_pool_update:
  "rx_pool_ok m pool \<Longrightarrow> rx_ok m p \<Longrightarrow> rx_pool_ok m (pool\<lparr>hp_rx_vec := (hp_rx_vec pool)[i := p]\<rparr>)"
  by (simp add: rx_pool_ok_def list_all_update)

text \<open>What the physical layer gets for a control field: a process for the packet, or an abort.\<close>

definition hands_over ::
    "packet_sizes_def_t \<Rightarrow> u32 \<Rightarrow> finalize_rx_t \<Rightarrow> ('t, 'r) tpoint \<Rightarrow> nat \<Rightarrow> ('t, 'r) tpoint \<Rightarrow> bool" where
  "hands_over ps rv frx tp i tp' \<longleftrightarrow>
     i < length (hp_rx_vec (tp_hpp tp)) \<and> phase_of (hp_rx_vec (tp_hpp tp) ! i) = Free \<and>
     Free \<notin> set (take i (map phase_of (hp_rx_vec (tp_hpp tp)))) \<and>
     map phase_of (hp_rx_vec (tp_hpp tp')) = (map phase_of (hp_rx_vec (tp_hpp tp)))[i := Active] \<and>
     sizes_as_specified ps (hp_packet_sizes (hp_rx_vec (tp_hpp tp') ! i)) \<and>
     hp_rv (hp_rx_vec (tp_hpp tp') ! i) = rv \<and> finalize_rx (hp_rx_vec (tp_hpp tp') ! i) = frx"

text \<open>C10: For every control field that the decoder of a device announces and every
synchronisation within its radio device class, the packet definition that the firmware derives is one
of the class. If the packet is possible and a HARQ process is free, the first free process is handed
over with the sizes of the packet, and its number is the one that the firmware needs to resume it; the
numbering and the invariant of the pool are kept. Otherwise, so for a correctly received control field
of a packet that cannot exist, the program aborts.\<close>
theorem received_control_field_served:
  assumes "pool_setting c s rdc m" "decoder_limits m d" "sync_within rdc sr" "plcf_decoder_inv d"
    and "get_plcf_base d t = Inr (Some p)"
    and "rx_pool_ok m (tp_hpp tp)" "ids_ok (tp_hpp tp)"
  shows "\<exists>ps. worksub_psdef sr d (ps_Z (psdef m)) t = Inr ps \<and> within_class rdc ps \<and>
     (if \<not> packet_exists c ps \<or> Free \<notin> set (map phase_of (hp_rx_vec (tp_hpp tp))) \<or>
         frx \<noteq> Rx_reset_and_terminate \<and> \<not> wants_id
      then worksub_pcc2pdc c sr d (ps_Z (psdef m)) t nid rv frx wants_id tp = Inl Assertion_failed
      else \<exists>i tp'. worksub_pcc2pdc c sr d (ps_Z (psdef m)) t nid rv frx wants_id tp =
            Inr (i, if wants_id then Some (of_nat i) else None, tp') \<and>
          hands_over ps rv frx tp i tp' \<and> rx_pool_ok m (tp_hpp tp') \<and> ids_ok (tp_hpp tp'))"
proof -
  have set: "get_radio_device_class s = Inr rdc" "rounds_up c" "get_maximum_packet_sizes c s = Inr m"
    using assms(1) by (simp_all add: pool_setting_def)
  obtain ps where ps: "worksub_psdef sr d (ps_Z (psdef m)) t = Inr ps" "within_class rdc ps"
    by (rule worksub_psdef_within_class [OF assms(1-5)])
  have t: "t = 1 \<or> t = 2" by (rule get_plcf_base_Some(1) [OF assms(4,5)])
  show ?thesis
  proof (cases "packet_exists c ps")
    case False
    have "psdef_ok ps" by (rule within_classD(1) [OF ps(2)])
    with False have "get_packet_sizes c ps = Inr None"
      using get_packet_sizes_lemma [OF _ set(2), of ps] by (auto simp: packet_exists_def split: if_splits)
    then show ?thesis using ps t False by (auto simp: worksub_pcc2pdc_def get_process_rx_def)
  next
    case True
    obtain q where q: "get_packet_sizes c ps = Inr (Some q)" "fits_in m q" "sizes_as_specified ps q"
      by (rule within_class_fits [OF set ps(2) True])
    note taken = rx_process_taken [OF assms(6) t q(1,2), where nid = nid and rv = rv and frx = frx]
    show ?thesis
    proof (cases "Free \<in> set (map phase_of (hp_rx_vec (tp_hpp tp)))")
      case False
      then show ?thesis using taken ps True by (auto simp: worksub_pcc2pdc_def)
    next
      case free: True
      with taken obtain i p where i:
        "get_process_rx c t nid ps rv frx (tp_hpp tp) = Inr (Some i, (tp_hpp tp)\<lparr>hp_rx_vec := (hp_rx_vec (tp_hpp tp))[i := p]\<rparr>)"
        "i < length (hp_rx_vec (tp_hpp tp))" "phase_of (hp_rx_vec (tp_hpp tp) ! i) = Free"
        "Free \<notin> set (take i (map phase_of (hp_rx_vec (tp_hpp tp))))" "rx_ok m p" "phase_of p = Active"
        "hp_id p = hp_id (hp_rx_vec (tp_hpp tp) ! i)" "hp_packet_sizes p = q" "hp_rv p = rv" "finalize_rx p = frx"
        by auto
      have "is_outer_locked_inner_locked p"
        using i(6) by (auto simp: phase_of_def is_outer_locked_inner_locked_def is_outer_locked_def
            is_inner_locked_def split: if_splits)
      then have "get_id p = Inr (of_nat i)"
        using taken_ids(2) [OF assms(7) i(2,7)] by (simp add: get_id_def)
      then show ?thesis
        using ps True free i taken_ids(1) [OF assms(7) i(2,7)] rx_pool_update [OF assms(6) i(5), of i] q(3)
        by (cases wants_id; cases "frx = Rx_reset_and_terminate")
          (simp_all add: worksub_pcc2pdc_def hands_over_def map_update)
    qed
  qed
qed

definition sample_sync :: sync_report where
  "sample_sync = \<lparr>sr_u = 1, sr_b = 1, sr_N_eff_TX = 1\<rparr>"

text \<open>A decoder with the limits of the smallest radio device class after it received \<open>bs\<close>.\<close>

definition sample_received :: "bytes \<Rightarrow> plcf_decoder" where
  "sample_received bs = projr (decode_and_rdc_check
     (pd_set_configuration (sample_decoder\<lparr>PacketLength_max := 4, mcs_index_max := 7, N_SS_max := 1\<rparr>)) 1 bs)"

definition sample_tpoint :: "('t, 'r) process_pool \<Rightarrow> ('t, 'r) tpoint" where
  "sample_tpoint pool = \<lparr>tp_hpp = pool, rx_pcc2pdc_success = 0, rx_pcc2pdc_running_success = 0\<rparr>"

definition sample_announces :: "bytes \<Rightarrow> bool \<Rightarrow> bool" where
  "sample_announces bs ex \<longleftrightarrow>
     plcf_decoder_inv (sample_received bs) \<and>
     PacketLength_max (sample_received bs) = 4 \<and> mcs_index_max (sample_received bs) = 7 \<and>
     (case get_plcf_base (sample_received bs) 1 of Inr (Some p) \<Rightarrow> True | _ \<Rightarrow> False) \<and>
     (case worksub_psdef sample_sync (sample_received bs) 2048 1 of
        Inl e \<Rightarrow> False | Inr ps \<Rightarrow> packet_exists ceil_divide_integer ps = ex)"

lemma sample_announces:
  "sample_announces [3, 0x44, 0x12, 0x34, 0x72] True" "sample_announces [0, 0x44, 0x12, 0x34, 0x70] False"
  by code_simp+

lemma sample_class:
  "case get_radio_device_class ''1.1.1.A'' of Inl e \<Rightarrow> False | Inr rdc \<Rightarrow>
     sync_within rdc sample_sync \<and> PacketLength_min rdc = 4 \<and> mcs_index_min rdc = 7 \<and> Z_min rdc = 2048"
  by code_simp

theorem received_control_field_served_witness:
  "\<exists>m pool. get_maximum_packet_sizes ceil_divide_integer ''1.1.1.A'' = Inr m \<and>
     mk_process_pool sample_lib sample_lib m 2 1 = Inr pool \<and>
     (\<exists>i tp'. worksub_pcc2pdc ceil_divide_integer sample_sync (sample_received [3, 0x44, 0x12, 0x34, 0x72])
        (ps_Z (psdef m)) 1 100 0 Keep_running True (sample_tpoint pool) = Inr (i, Some (of_nat i), tp')) \<and>
     worksub_pcc2pdc ceil_divide_integer sample_sync (sample_received [0, 0x44, 0x12, 0x34, 0x70])
       (ps_Z (psdef m)) 1 100 0 Keep_running True (sample_tpoint pool) = Inl Assertion_failed"
proof -
  from sample_admits obtain rdc m pool where *:
    "get_radio_device_class ''1.1.1.A'' = Inr rdc"
    "get_maximum_packet_sizes ceil_divide_integer ''1.1.1.A'' = Inr m"
    "mk_process_pool sample_lib sample_lib m 2 1 = Inr pool"
    unfolding sample_admits_def by (auto split: sum.splits simp del: run_allowed.simps)
  have set: "pool_setting ceil_divide_integer ''1.1.1.A'' rdc m"
    using * by (simp add: pool_setting_def rounds_up_ceil_divide_integer)
  have rdc: "sync_within rdc sample_sync" "PacketLength_min rdc = 4" "mcs_index_min rdc = 7" "Z_min rdc = 2048"
    using sample_class *(1) by simp_all
  note psdef = maximum_psdef_limits [OF *(1) rounds_up_ceil_divide_integer *(2)]
  have pool: "rx_pool_ok m (tp_hpp (sample_tpoint pool))" "ids_ok (tp_hpp (sample_tpoint pool))"
    "Free \<in> set (map phase_of (hp_rx_vec (tp_hpp (sample_tpoint pool))))"
    using mk_pool_rx_ok [OF *(3)] mk_pool_ids_ok [OF *(3)] by (simp_all add: sample_tpoint_def del: set_map)
  let ?run = "\<lambda>bs. worksub_pcc2pdc ceil_divide_integer sample_sync (sample_received bs) (ps_Z (psdef m))
    1 100 0 Keep_running True (sample_tpoint pool)"
  have run: "if ex then \<exists>i tp'. ?run bs = Inr (i, Some (of_nat i), tp') else ?run bs = Inl Assertion_failed"
    if announced: "sample_announces bs ex" for bs ex
  proof -
    from announced obtain p where p: "plcf_decoder_inv (sample_received bs)"
      "get_plcf_base (sample_received bs) 1 = Inr (Some p)"
      by (auto simp: sample_announces_def split: sum.splits option.splits)
    have lim: "decoder_limits m (sample_received bs)"
      using announced psdef rdc by (simp add: sample_announces_def decoder_limits_def)
    obtain ps where ps: "worksub_psdef sample_sync (sample_received bs) (ps_Z (psdef m)) 1 = Inr ps"
      "packet_exists ceil_divide_integer ps = ex"
      using announced psdef rdc by (auto simp: sample_announces_def split: sum.splits)
    from received_control_field_served [OF set lim rdc(1) p pool(1,2), where frx = Keep_running and wants_id = True
        and nid = 100 and rv = 0] ps pool(3)
    show ?thesis by (auto simp del: set_map)
  qed
  show ?thesis
    using * run [OF sample_announces(1)] run [OF sample_announces(2)] by auto
qed

end
