(* ===== verification/Allocation.thy ===== *)
theory Allocation
  imports Numerology Irregular_Queue Resource_Elements
begin

text \<open>
  Allocation of resources in the beacon period (\<open>mac/allocation\<close>): the resources of a portable
  termination, what may be added to them, and the search for the next opportunity to transmit.
\<close>

subsection \<open>Resources\<close>

record resource_t =
  rs_offset :: duration_t
  rs_length :: duration_t

definition get_first_sample_index :: "resource_t \<Rightarrow> u32" where
  "get_first_sample_index r = du_N_samples (rs_offset r)"

definition get_last_sample_index :: "resource_t \<Rightarrow> u32" where
  "get_last_sample_index r = du_N_samples (rs_offset r) + du_N_samples (rs_length r) - 1"

definition is_positive_length :: "u32 \<Rightarrow> resource_t \<Rightarrow> bool" where
  "is_positive_length n r \<longleftrightarrow> n \<le> du_N_samples (rs_length r)"

definition is_causal :: "resource_t \<Rightarrow> bool" where
  "is_causal r \<longleftrightarrow> get_first_sample_index r \<le> get_last_sample_index r"

definition is_well_defined :: "resource_t \<Rightarrow> bool" where
  "is_well_defined r \<longleftrightarrow> is_positive_length 1 r \<and> is_causal r"

definition mk_resource :: "duration_t \<Rightarrow> duration_t \<Rightarrow> resource_t res" where
  "mk_resource off len =
     (let r = \<lparr>rs_offset = off, rs_length = len\<rparr> in assertE (is_well_defined r) (Inr r))"

definition is_touching_earlier :: "resource_t \<Rightarrow> resource_t \<Rightarrow> bool res" where
  "is_touching_earlier r other =
     assertE (is_well_defined other) (Inr (get_last_sample_index other + 1 = get_first_sample_index r))"

definition is_touching_later :: "resource_t \<Rightarrow> resource_t \<Rightarrow> bool res" where
  "is_touching_later r other =
     assertE (is_well_defined other) (Inr (get_last_sample_index r + 1 = get_first_sample_index other))"

definition is_orthogonal_earlier :: "resource_t \<Rightarrow> resource_t \<Rightarrow> bool res" where
  "is_orthogonal_earlier r other =
     assertE (is_well_defined other) (Inr (get_last_sample_index other < get_first_sample_index r))"

definition is_orthogonal_later :: "resource_t \<Rightarrow> resource_t \<Rightarrow> bool res" where
  "is_orthogonal_later r other =
     assertE (is_well_defined other) (Inr (get_last_sample_index r < get_first_sample_index other))"

definition is_orthogonal :: "resource_t \<Rightarrow> resource_t \<Rightarrow> bool res" where
  "is_orthogonal r other =
     assertE (is_well_defined other) (
     bindE (is_orthogonal_earlier r other) (\<lambda>earlier.
     if earlier then Inr True else is_orthogonal_later r other))"

definition is_leq :: "resource_t \<Rightarrow> resource_t \<Rightarrow> bool res" where
  "is_leq r other =
     assertE (is_well_defined other) (Inr (du_N_samples (rs_length other) \<le> du_N_samples (rs_length r)))"

definition is_seq :: "resource_t \<Rightarrow> resource_t \<Rightarrow> bool res" where
  "is_seq r other =
     assertE (is_well_defined other) (Inr (du_N_samples (rs_length r) \<le> du_N_samples (rs_length other)))"

subsection \<open>Allocation of a portable termination\<close>

datatype direction_t = dir_ul | dir_dl | dir_both

definition max_nof_ul_resources_per_pt :: nat where "max_nof_ul_resources_per_pt = 8"
definition max_nof_dl_resources_per_pt :: nat where "max_nof_dl_resources_per_pt = 8"

record allocation_pt_t =
  ap_duration_lut :: duration_lut_t
  ap_beacon_period :: duration_t
  allocation_validity_after_beacon :: duration_t
  allocation_validity_after_now :: duration_t
  turnaround_time :: int
  beacon_time_last_known_64 :: int
  resource_ul_vec :: "resource_t list"
  resource_dl_vec :: "resource_t list"

definition mk_allocation_pt ::
    "duration_lut_t \<Rightarrow> duration_t \<Rightarrow> duration_t \<Rightarrow> duration_t \<Rightarrow> int \<Rightarrow> allocation_pt_t" where
  "mk_allocation_pt lut period after_beacon after_now turnaround =
     \<lparr>ap_duration_lut = lut, ap_beacon_period = period, allocation_validity_after_beacon = after_beacon,
      allocation_validity_after_now = after_now, turnaround_time = turnaround,
      beacon_time_last_known_64 = UNDEFINED_EARLY_64, resource_ul_vec = [], resource_dl_vec = []\<rparr>"

definition set_beacon_time_last_known :: "int \<Rightarrow> allocation_pt_t \<Rightarrow> allocation_pt_t" where
  "set_beacon_time_last_known t a = a\<lparr>beacon_time_last_known_64 := t\<rparr>"

definition is_within_beacon_period :: "allocation_pt_t \<Rightarrow> resource_t \<Rightarrow> bool" where
  "is_within_beacon_period a r \<longleftrightarrow> get_last_sample_index r < du_N_samples (ap_beacon_period a)"

fun is_orthogonal_to_all :: "resource_t list \<Rightarrow> resource_t \<Rightarrow> bool res" where
  "is_orthogonal_to_all [] other = Inr True"
| "is_orthogonal_to_all (e # es) other =
     bindE (is_orthogonal e other) (\<lambda>b. if b then is_orthogonal_to_all es other else Inr False)"

definition is_orthogonal_in :: "direction_t \<Rightarrow> allocation_pt_t \<Rightarrow> resource_t \<Rightarrow> bool res" where
  "is_orthogonal_in dir a other =
     (case dir of
        dir_ul \<Rightarrow> if length (resource_ul_vec a) = 0 then Inr True else is_orthogonal_to_all (resource_ul_vec a) other
      | dir_dl \<Rightarrow> if length (resource_dl_vec a) = 0 then Inr True else is_orthogonal_to_all (resource_dl_vec a) other
      | dir_both \<Rightarrow> Inl Assertion_failed)"

fun are_orthogonal_in :: "direction_t \<Rightarrow> allocation_pt_t \<Rightarrow> resource_t list \<Rightarrow> bool res" where
  "are_orthogonal_in dir a [] = Inr True"
| "are_orthogonal_in dir a (e # es) =
     bindE (is_orthogonal_in dir a e) (\<lambda>b. if b then are_orthogonal_in dir a es else Inr False)"

definition add_resource ::
    "direction_t \<Rightarrow> duration_t \<Rightarrow> duration_t \<Rightarrow> allocation_pt_t \<Rightarrow> allocation_pt_t res" where
  "add_resource dir off len a =
     bindE (mk_resource off len) (\<lambda>r.
     assertE (is_within_beacon_period a r) (
     bindE (is_orthogonal_in dir a r) (\<lambda>orthogonal.
     assertE orthogonal (
     case dir of
       dir_ul \<Rightarrow> let v = resource_ul_vec a @ [r]
                 in assertE (length v \<le> max_nof_ul_resources_per_pt) (Inr (a\<lparr>resource_ul_vec := v\<rparr>))
     | dir_dl \<Rightarrow> let v = resource_dl_vec a @ [r]
                 in assertE (length v \<le> max_nof_dl_resources_per_pt) (Inr (a\<lparr>resource_dl_vec := v\<rparr>))
     | dir_both \<Rightarrow> Inl Assertion_failed))))"

fun add_regular_loop ::
    "direction_t \<Rightarrow> u32 \<Rightarrow> u32 \<Rightarrow> u32 \<Rightarrow> duration_ec_t \<Rightarrow> nat list \<Rightarrow> allocation_pt_t \<Rightarrow> allocation_pt_t res" where
  "add_regular_loop dir off len stride ec [] a = Inr a"
| "add_regular_loop dir off len stride ec (i # js) a =
     bindE (get_duration (ap_duration_lut a) ec (off + stride * of_nat i)) (\<lambda>o_i.
     bindE (get_duration (ap_duration_lut a) ec len) (\<lambda>l_i.
     bindE (add_resource dir o_i l_i a) (add_regular_loop dir off len stride ec js)))"

definition add_resource_regular ::
    "direction_t \<Rightarrow> u32 \<Rightarrow> u32 \<Rightarrow> u32 \<Rightarrow> u32 \<Rightarrow> duration_ec_t \<Rightarrow> allocation_pt_t \<Rightarrow> allocation_pt_t res" where
  "add_resource_regular dir off len stride N ec a = add_regular_loop dir off len stride ec [0..<unat N] a"

subsection \<open>Opportunities\<close>

record tx_opportunity_t =
  tx_time_64 :: int
  N_samples_64 :: int

definition no_opportunity :: tx_opportunity_t where
  "no_opportunity = \<lparr>tx_time_64 = -1, N_samples_64 = -1\<rparr>"

definition get_end :: "tx_opportunity_t \<Rightarrow> int" where
  "get_end p = tx_time_64 p + N_samples_64 p"

text \<open>The loop \<open>while (1)\<close> of the search and the assertions behind it.\<close>

partial_function (option) search_loop ::
    "int \<Rightarrow> int \<Rightarrow> int \<Rightarrow> resource_t list \<Rightarrow> int \<Rightarrow> nat \<Rightarrow> tx_opportunity_t res option" where
  [code]: "search_loop period earliest latest rvec A idx =
     (if \<not> idx < length rvec then Some (Inl Out_of_range)
      else
        let D = A + uint (du_N_samples (rs_offset (rvec ! idx))) in
        if earliest \<le> D \<and> D < latest
        then Some (assertE (earliest \<le> D) (assertE (D < latest)
               (Inr \<lparr>tx_time_64 = D, N_samples_64 = uint (du_N_samples (rs_length (rvec ! idx)))\<rparr>)))
        else if latest \<le> D then Some (Inr no_opportunity)
        else if idx + 1 = length rvec then search_loop period earliest latest rvec (A + period) 0
        else search_loop period earliest latest rvec A (idx + 1))"

definition get_tx_opportunity_generic ::
    "allocation_pt_t \<Rightarrow> int \<Rightarrow> int \<Rightarrow> resource_t list \<Rightarrow> tx_opportunity_t res option" where
  "get_tx_opportunity_generic a earliest latest rvec =
     (if rvec = [] then Some (Inr no_opportunity)
      else if earliest > latest then Some (Inr no_opportunity)
      else
        let last_known = beacon_time_last_known_64 a;
            period = uint (du_N_samples (ap_beacon_period a)) in
        if earliest > last_known
        then (case multiple_leq (earliest - last_known) period of
                Inl e \<Rightarrow> Some (Inl e)
              | Inr C \<Rightarrow>
                  let A = last_known + C in
                  if A \<le> earliest then search_loop period earliest latest rvec A 0
                  else Some (Inl Assertion_failed))
        else search_loop period earliest latest rvec last_known 0)"

definition get_tx_opportunity ::
    "direction_t \<Rightarrow> int \<Rightarrow> int \<Rightarrow> allocation_pt_t \<Rightarrow> tx_opportunity_t res option" where
  "get_tx_opportunity dir now_64 tx_earliest_64 a =
     (let earliest = max (now_64 + turnaround_time a) tx_earliest_64 in
      case dir of
        dir_ul \<Rightarrow>
          if beacon_time_last_known_64 a \<le> now_64
          then get_tx_opportunity_generic a earliest
                 (min (beacon_time_last_known_64 a + uint (du_N_samples (allocation_validity_after_beacon a)))
                      (now_64 + uint (du_N_samples (allocation_validity_after_now a))))
                 (resource_ul_vec a)
          else Some (Inl Assertion_failed)
      | dir_dl \<Rightarrow>
          get_tx_opportunity_generic a earliest
            (beacon_time_last_known_64 a + uint (du_N_samples (ap_beacon_period a))) (resource_dl_vec a)
      | dir_both \<Rightarrow> Some (Inl Assertion_failed))"

definition closest_loop :: "int \<Rightarrow> int \<Rightarrow> resource_t list \<Rightarrow> int" where
  "closest_loop reference last_known rvec =
     foldl (\<lambda>ret r. let A = reference - (last_known + uint (du_N_samples (rs_offset r)))
                    in if \<bar>A\<bar> < \<bar>ret\<bar> then A else ret) UNDEFINED_EARLY_64 rvec"

definition get_tx_opportunity_ul_time_closest :: "int \<Rightarrow> allocation_pt_t \<Rightarrow> int res" where
  "get_tx_opportunity_ul_time_closest reference a =
     (if beacon_time_last_known_64 a = UNDEFINED_EARLY_64 then Inr UNDEFINED_EARLY_64
      else assertE (beacon_time_last_known_64 a < reference \<and>
             reference < beacon_time_last_known_64 a + uint (du_N_samples (ap_beacon_period a)))
             (Inr (closest_loop reference (beacon_time_last_known_64 a) (resource_ul_vec a))))"

definition translate :: "direction_t \<Rightarrow> u32 \<Rightarrow> resource_allocation \<Rightarrow> resource_allocation" where
  "translate dir srdid ie =
     (let al = \<lparr>al_start_subslot = 1, al_length_type = length_in_subslots, al_length = 2\<rparr>;
          ie = (if dir = dir_dl \<or> dir = dir_both then ie\<lparr>ra_allocation_dl := Some al\<rparr> else ie);
          ie = (if dir = dir_ul \<or> dir = dir_both then ie\<lparr>ra_allocation_ul := Some al\<rparr> else ie)
      in ie\<lparr>ra_is_additional := False, ra_short_rd_id := Some srdid,
            ra_repeat_info := Some \<lparr>rep_type = in_following_frames, rep_allow_specific = False,
              rep_repetition = 1, rep_validity = 2\<rparr>,
            ra_sfn_offset := None, ra_channel := None, ra_failure := None\<rparr>)"

end
