(* ===== verification/Tx_Opportunity.thy ===== *)
theory Tx_Opportunity
  imports Allocation
begin

text \<open>
  Correctness of the allocation: what was added lies in the beacon period without overlap, and the
  search for an opportunity ends and finds the earliest one when resources were added in ascending
  order.
\<close>

subsection \<open>Resources in the beacon period\<close>

abbreviation offset_of :: "resource_t \<Rightarrow> int" where
  "offset_of r \<equiv> uint (du_N_samples (rs_offset r))"

abbreviation length_of :: "resource_t \<Rightarrow> int" where
  "length_of r \<equiv> uint (du_N_samples (rs_length r))"

abbreviation period_of :: "allocation_pt_t \<Rightarrow> int" where
  "period_of a \<equiv> uint (du_N_samples (ap_beacon_period a))"

definition disjoint_resources :: "resource_t \<Rightarrow> resource_t \<Rightarrow> bool" where
  "disjoint_resources r s \<longleftrightarrow>
     offset_of r + length_of r \<le> offset_of s \<or> offset_of s + length_of s \<le> offset_of r"

definition resources_ok :: "int \<Rightarrow> resource_t list \<Rightarrow> bool" where
  "resources_ok period v \<longleftrightarrow>
     list_all (\<lambda>r. is_well_defined r \<and> offset_of r + length_of r \<le> period) v \<and>
     sorted_wrt disjoint_resources v \<and> length v \<le> 8"

definition allocation_ok :: "allocation_pt_t \<Rightarrow> bool" where
  "allocation_ok a \<longleftrightarrow> resources_ok (period_of a) (resource_ul_vec a) \<and> resources_ok (period_of a) (resource_dl_vec a)"

lemma last_sample:
  assumes "is_well_defined r"
  shows "uint (get_last_sample_index r) = offset_of r + length_of r - 1" "0 < length_of r"
proof -
  define off len where "off = du_N_samples (rs_offset r)" and "len = du_N_samples (rs_length r)"
  have len: "1 \<le> len" and causal: "off \<le> off + len - 1"
    using assms
    by (simp_all add: is_well_defined_def is_positive_length_def is_causal_def get_first_sample_index_def
        get_last_sample_index_def off_def len_def)
  from len have pos: "0 < uint len" by (simp add: word_le_def)
  then show "0 < length_of r" by (simp add: len_def)
  have "uint (len - 1) = uint len - 1"
    using len by (simp add: uint_minus_simple_alt)
  moreover have "off + len - 1 = off + (len - 1)" by simp
  moreover from causal have "uint (off + (len - 1)) = uint off + uint (len - 1)"
    by (metis \<open>off + len - 1 = off + (len - 1)\<close> uint_plus_simple)
  ultimately show "uint (get_last_sample_index r) = offset_of r + length_of r - 1"
    by (simp add: get_last_sample_index_def off_def len_def add_diff_eq)
qed

lemma orthogonal_disjoint:
  assumes "is_well_defined r" "is_well_defined other"
  shows "is_orthogonal r other = Inr (disjoint_resources r other)"
  using last_sample(1) [OF assms(1)] last_sample(1) [OF assms(2)] assms
  by (auto simp: is_orthogonal_def is_orthogonal_earlier_def is_orthogonal_later_def disjoint_resources_def
      get_first_sample_index_def word_less_def)

lemma orthogonal_to_all:
  assumes "list_all is_well_defined v" "is_well_defined other"
  shows "is_orthogonal_to_all v other = Inr (list_all (\<lambda>r. disjoint_resources r other) v)"
  using assms by (induction v) (auto simp: orthogonal_disjoint)

lemma is_orthogonal_in_eq:
  assumes "allocation_ok a" "is_well_defined r"
  shows "is_orthogonal_in dir_ul a r = Inr (list_all (\<lambda>s. disjoint_resources s r) (resource_ul_vec a))"
    and "is_orthogonal_in dir_dl a r = Inr (list_all (\<lambda>s. disjoint_resources s r) (resource_dl_vec a))"
  using assms orthogonal_to_all [OF _ assms(2)]
  by (auto simp: is_orthogonal_in_def allocation_ok_def resources_ok_def list_all_iff)

lemma within_period:
  assumes "is_well_defined r" "is_within_beacon_period a r"
  shows "offset_of r + length_of r \<le> period_of a"
  using assms(2) last_sample(1) [OF assms(1)] by (simp add: is_within_beacon_period_def word_less_def)

lemma resources_ok_snoc:
  "resources_ok p v \<Longrightarrow> is_well_defined r \<Longrightarrow> offset_of r + length_of r \<le> p \<Longrightarrow>
   list_all (\<lambda>s. disjoint_resources s r) v \<Longrightarrow> length v < 8 \<Longrightarrow> resources_ok p (v @ [r])"
  by (auto simp: resources_ok_def sorted_wrt_append list_all_iff)

lemma add_resource_ok:
  assumes "allocation_ok a" "add_resource dir off len a = Inr a'"
  shows "allocation_ok a' \<and> ap_beacon_period a' = ap_beacon_period a"
proof -
  define r where "r = \<lparr>rs_offset = off, rs_length = len\<rparr>"
  have r: "is_well_defined r" "is_within_beacon_period a r"
    using assms(2) by (auto simp: add_resource_def mk_resource_def bindE_eq_Inr Let_def r_def)
  note fits = within_period [OF r] and orth = is_orthogonal_in_eq [OF assms(1) r(1)]
  show ?thesis
  proof (cases dir)
    case dir_ul
    with assms(2) orth have "a' = a\<lparr>resource_ul_vec := resource_ul_vec a @ [r]\<rparr>"
      "list_all (\<lambda>s. disjoint_resources s r) (resource_ul_vec a)" "length (resource_ul_vec a) < 8"
      by (auto simp: add_resource_def mk_resource_def bindE_eq_Inr Let_def r_def max_nof_ul_resources_per_pt_def)
    with assms(1) r(1) fits show ?thesis by (auto simp: allocation_ok_def intro!: resources_ok_snoc)
  next
    case dir_dl
    with assms(2) orth have "a' = a\<lparr>resource_dl_vec := resource_dl_vec a @ [r]\<rparr>"
      "list_all (\<lambda>s. disjoint_resources s r) (resource_dl_vec a)" "length (resource_dl_vec a) < 8"
      by (auto simp: add_resource_def mk_resource_def bindE_eq_Inr Let_def r_def max_nof_dl_resources_per_pt_def)
    with assms(1) r(1) fits show ?thesis by (auto simp: allocation_ok_def intro!: resources_ok_snoc)
  next
    case dir_both
    with assms(2) show ?thesis
      by (auto simp: add_resource_def bindE_eq_Inr is_orthogonal_in_def)
  qed
qed

subsection \<open>The search\<close>

text \<open>The k-th repetition of resource \<open>j\<close> after time \<open>A\<close>.\<close>

definition start_of :: "int \<Rightarrow> int \<Rightarrow> resource_t list \<Rightarrow> nat \<Rightarrow> nat \<Rightarrow> int" where
  "start_of period A v k j = A + int k * period + offset_of (v ! j)"

lemma start_of_Suc: "start_of period A v (Suc k) j = start_of period (A + period) v k j"
  by (simp add: start_of_def algebra_simps)

text \<open>From position \<open>idx\<close> on the loop ends; what it returns starts in the window, and it misses no
earlier start when the offsets are ascending.\<close>

definition search_result ::
    "int \<Rightarrow> int \<Rightarrow> int \<Rightarrow> resource_t list \<Rightarrow> int \<Rightarrow> nat \<Rightarrow> tx_opportunity_t \<Rightarrow> bool" where
  "search_result period earliest latest v A idx p \<longleftrightarrow>
     (p = no_opportunity \<or>
       (\<exists>k j. j < length v \<and> tx_time_64 p = start_of period A v k j \<and> N_samples_64 p = length_of (v ! j) \<and>
          earliest \<le> tx_time_64 p \<and> tx_time_64 p < latest)) \<and>
     (sorted (map offset_of v) \<longrightarrow>
       (\<forall>k j. j < length v \<and> (k > 0 \<or> idx \<le> j) \<and> earliest \<le> start_of period A v k j \<and>
          start_of period A v k j < latest \<longrightarrow>
          p \<noteq> no_opportunity \<and> tx_time_64 p \<le> start_of period A v k j))"

lemma ascending_starts:
  assumes "sorted (map offset_of v)" "\<forall>r\<in>set v. offset_of r \<le> period" "idx < length v" "j < length v"
    and "k > 0 \<or> idx \<le> j"
  shows "start_of period A v 0 idx \<le> start_of period A v k j"
proof (cases "k = 0")
  case True
  then show ?thesis using assms by (auto simp: start_of_def sorted_iff_nth_mono)
next
  case False
  have "offset_of (v ! idx) \<le> period" using assms(2,3) by simp
  moreover have "period * 1 \<le> period * int k"
    using False calculation by (intro mult_left_mono) (auto intro: order_trans [OF uint_ge_0])
  moreover have "0 \<le> offset_of (v ! j)" by simp
  ultimately show ?thesis
    by (simp only: start_of_def mult.commute [of "int _"] of_nat_0 mult_zero_right)
qed

lemma uint_neq_minus_1 [simp]: "uint w \<noteq> - 1"
proof
  assume "uint w = - 1"
  with uint_ge_0 [of w] show False by linarith
qed

lemma search_loop_result:
  assumes "0 < period" "\<forall>r\<in>set v. offset_of r \<le> period" "idx < length v"
  shows "\<exists>p. search_loop period earliest latest v A idx = Some (Inr p) \<and>
    search_result period earliest latest v A idx p"
  using assms(3)
proof (induction "nat (latest - A) * (length v + 1) + (length v - idx)" arbitrary: A idx rule: less_induct)
  case less
  define D where "D = A + offset_of (v ! idx)"
  have D: "D = start_of period A v 0 idx" by (simp add: D_def start_of_def)
  have asc: "D \<le> start_of period A v k j"
    if "sorted (map offset_of v)" "j < length v" "k > 0 \<or> idx \<le> j" for k j
    unfolding D by (rule ascending_starts [OF that(1) assms(2) less.prems that(2,3)])
  consider (hit) "earliest \<le> D" "D < latest" | (out) "latest \<le> D"
    | (wrap) "D < earliest" "D < latest" "idx + 1 = length v"
    | (next_one) "D < earliest" "D < latest" "idx + 1 < length v"
    using less.prems by linarith
  then show ?case
  proof cases
    case hit
    define p where "p = \<lparr>tx_time_64 = D, N_samples_64 = length_of (v ! idx)\<rparr>"
    have "search_loop period earliest latest v A idx = Some (Inr p)"
      using hit less.prems by (subst search_loop.simps) (simp add: Let_def p_def flip: D_def)
    moreover have "p \<noteq> no_opportunity" by (simp add: p_def no_opportunity_def)
    moreover have "tx_time_64 p = start_of period A v 0 idx" "N_samples_64 p = length_of (v ! idx)"
      by (simp_all add: p_def D)
    moreover have "earliest \<le> tx_time_64 p" "tx_time_64 p < latest" using hit by (simp_all add: p_def)
    ultimately show ?thesis
      using less.prems asc unfolding search_result_def by (auto simp: p_def)
  next
    case out
    have "search_loop period earliest latest v A idx = Some (Inr no_opportunity)"
      using out less.prems by (subst search_loop.simps) (simp add: Let_def flip: D_def)
    moreover have "search_result period earliest latest v A idx no_opportunity"
    proof -
      have "\<not> start_of period A v k j < latest"
        if "sorted (map offset_of v)" "j < length v" "k > 0 \<or> idx \<le> j" for k j
        using asc [OF that] out by linarith
      then show ?thesis unfolding search_result_def by blast
    qed
    ultimately show ?thesis by blast
  next
    case wrap
    have le: "nat (latest - (A + period)) + 1 \<le> nat (latest - A)"
    proof -
      have "A \<le> D" by (simp add: D_def)
      with wrap(2) assms(1) show ?thesis by linarith
    qed
    have "(nat (latest - (A + period)) + 1) * (length v + 1) \<le> nat (latest - A) * (length v + 1)"
      by (rule mult_right_mono [OF le]) simp
    then have "nat (latest - (A + period)) * (length v + 1) + (length v - 0)
        < nat (latest - A) * (length v + 1) + (length v - idx)" by simp
    moreover have "0 < length v" using less.prems by (cases v) auto
    ultimately obtain p where
      p: "search_loop period earliest latest v (A + period) 0 = Some (Inr p)"
      "search_result period earliest latest v (A + period) 0 p" using less.hyps by blast
    have "search_result period earliest latest v A idx p"
      unfolding search_result_def
    proof (intro conjI impI allI)
      show "p = no_opportunity \<or> (\<exists>k j. j < length v \<and> tx_time_64 p = start_of period A v k j \<and>
          N_samples_64 p = length_of (v ! j) \<and> earliest \<le> tx_time_64 p \<and> tx_time_64 p < latest)"
        using p(2) unfolding search_result_def by (metis start_of_Suc)
    next
      fix k j
      assume *: "sorted (map offset_of v)"
        "j < length v \<and> (k > 0 \<or> idx \<le> j) \<and> earliest \<le> start_of period A v k j \<and> start_of period A v k j < latest"
      have "k \<noteq> 0"
      proof
        assume "k = 0"
        with * wrap(3) have "j = idx" by linarith
        with * wrap(1) D \<open>k = 0\<close> show False by simp
      qed
      then obtain k' where "k = Suc k'" by (cases k) auto
      with * p(2) show "p \<noteq> no_opportunity" "tx_time_64 p \<le> start_of period A v k j"
        by (auto simp: search_result_def start_of_Suc)
    qed
    moreover have "search_loop period earliest latest v A idx = search_loop period earliest latest v (A + period) 0"
      using wrap less.prems by (subst search_loop.simps) (simp add: Let_def flip: D_def)
    ultimately show ?thesis using p(1) by auto
  next
    case next_one
    have "nat (latest - A) * (length v + 1) + (length v - (idx + 1))
        < nat (latest - A) * (length v + 1) + (length v - idx)" using next_one(3) by simp
    from less.hyps [OF this next_one(3)] obtain p where
      p: "search_loop period earliest latest v A (idx + 1) = Some (Inr p)"
      "search_result period earliest latest v A (idx + 1) p" by blast
    have "search_result period earliest latest v A idx p"
      unfolding search_result_def
    proof (intro conjI impI allI)
      show "p = no_opportunity \<or> (\<exists>k j. j < length v \<and> tx_time_64 p = start_of period A v k j \<and>
          N_samples_64 p = length_of (v ! j) \<and> earliest \<le> tx_time_64 p \<and> tx_time_64 p < latest)"
        using p(2) unfolding search_result_def by blast
    next
      fix k j
      assume *: "sorted (map offset_of v)"
        "j < length v \<and> (k > 0 \<or> idx \<le> j) \<and> earliest \<le> start_of period A v k j \<and> start_of period A v k j < latest"
      have "k > 0 \<or> idx + 1 \<le> j"
      proof (rule ccontr)
        assume "\<not> (k > 0 \<or> idx + 1 \<le> j)"
        with * have "k = 0" "j = idx" by auto
        with * next_one(1) D show False by simp
      qed
      with * p(2) show "p \<noteq> no_opportunity" "tx_time_64 p \<le> start_of period A v k j"
        by (auto simp: search_result_def)
    qed
    moreover have "search_loop period earliest latest v A idx = search_loop period earliest latest v A (idx + 1)"
      using next_one less.prems by (subst search_loop.simps) (simp add: Let_def flip: D_def)
    ultimately show ?thesis using p(1) by auto
  qed
qed

subsection \<open>Opportunities of an allocation\<close>

definition add_all :: "(direction_t \<times> duration_t \<times> duration_t) list \<Rightarrow> allocation_pt_t \<Rightarrow> allocation_pt_t res" where
  "add_all rs a = foldl (\<lambda>ra (dir, off, len). bindE ra (add_resource dir off len)) (Inr a) rs"

definition resources_in :: "direction_t \<Rightarrow> allocation_pt_t \<Rightarrow> resource_t list" where
  "resources_in dir a = (if dir = dir_ul then resource_ul_vec a else resource_dl_vec a)"

text \<open>A transmission that the allocation permits, and the window in which one is searched for.\<close>

definition permitted :: "direction_t \<Rightarrow> allocation_pt_t \<Rightarrow> tx_opportunity_t \<Rightarrow> bool" where
  "permitted dir a p \<longleftrightarrow>
     (\<exists>k r. r \<in> set (resources_in dir a) \<and>
        tx_time_64 p = beacon_time_last_known_64 a + int k * period_of a + offset_of r \<and>
        N_samples_64 p = length_of r)"

definition in_window :: "direction_t \<Rightarrow> int \<Rightarrow> int \<Rightarrow> allocation_pt_t \<Rightarrow> int \<Rightarrow> bool" where
  "in_window dir now_64 tx_earliest_64 a t \<longleftrightarrow>
     now_64 + turnaround_time a \<le> t \<and> tx_earliest_64 \<le> t \<and>
     (if dir = dir_ul
      then t < beacon_time_last_known_64 a + uint (du_N_samples (allocation_validity_after_beacon a)) \<and>
           t < now_64 + uint (du_N_samples (allocation_validity_after_now a))
      else t < beacon_time_last_known_64 a + period_of a)"

lemma add_all_ok:
  "allocation_ok a \<Longrightarrow> add_all rs a = Inr a' \<Longrightarrow>
   allocation_ok a' \<and> ap_beacon_period a' = ap_beacon_period a"
  unfolding add_all_def
proof (induction rs arbitrary: a)
  case (Cons x rs)
  have fail: "foldl (\<lambda>ra (dir, off, len). bindE ra (add_resource dir off len)) (Inl e) ys = Inl e" for e ys
    by (induction ys) auto
  obtain dir off len where x: "x = (dir, off, len)" by (cases x)
  with Cons.prems(2) fail obtain a1 where "add_resource dir off len a = Inr a1"
    "foldl (\<lambda>ra (dir, off, len). bindE ra (add_resource dir off len)) (Inr a1) rs = Inr a'"
    by (cases "add_resource dir off len a") auto
  with Cons.IH [of a1] add_resource_ok [OF Cons.prems(1), of dir off len a1] show ?case by simp
qed simp

lemma generic_result:
  assumes ok: "resources_ok (period_of a) v" and period: "0 < period_of a"
  shows "\<exists>p. get_tx_opportunity_generic a earliest latest v = Some (Inr p) \<and>
    search_result (period_of a) earliest latest v (beacon_time_last_known_64 a) 0 p"
proof -
  define last where "last = beacon_time_last_known_64 a"
  define period where "period = period_of a"
  have off: "\<forall>r\<in>set v. offset_of r < period"
    using ok last_sample(2) by (fastforce simp: resources_ok_def list_all_iff period_def)
  then have off_le: "\<forall>r\<in>set v. offset_of r \<le> period" by auto
  have pos: "0 < period" using period by (simp add: period_def)
  consider (none) "v = [] \<or> earliest > latest" | (early) "v \<noteq> []" "earliest \<le> latest" "earliest \<le> last"
    | (late) "v \<noteq> []" "earliest \<le> latest" "last < earliest" by linarith
  then show ?thesis
  proof cases
    case none
    then have "search_result period earliest latest v last 0 no_opportunity"
      by (auto simp: search_result_def)
    with none show ?thesis
      by (auto simp: get_tx_opportunity_generic_def period_def last_def)
  next
    case early
    then show ?thesis
      using search_loop_result [OF pos off_le, of 0 earliest latest last]
      by (simp add: get_tx_opportunity_generic_def Let_def period_def last_def)
  next
    case late
    define n where "n = nat ((earliest - last) div period)"
    have n: "int n * period = (earliest - last) div period * period"
      using late(3) pos by (simp add: n_def pos_imp_zdiv_nonneg_iff)
    have le: "last + int n * period \<le> earliest"
      using n pos_mod_sign [OF pos, of "earliest - last"] minus_mod_eq_div_mult [of "earliest - last" period]
      by linarith
    have "(earliest - last) sdiv period = (earliest - last) div period"
      using late(3) pos by (simp add: signed_divide_int_def)
    then have C: "multiple_leq (earliest - last) period = Inr (int n * period)"
      using pos n by (simp add: multiple_leq_def)
    obtain p where p: "search_loop period earliest latest v (last + int n * period) 0 = Some (Inr p)"
      "search_result period earliest latest v (last + int n * period) 0 p"
      using search_loop_result [OF pos off_le] late(1) by blast
    have shift: "start_of period (last + int n * period) v k j = start_of period last v (n + k) j" for k j
      by (simp add: start_of_def algebra_simps)
    have early: "start_of period last v k j < earliest" if "k < n" "j < length v" for k j
    proof -
      have "int (k + 1) * period \<le> int n * period"
        using that(1) pos by (intro mult_right_mono) auto
      moreover have "offset_of (v ! j) < period" using off that(2) by simp
      ultimately show ?thesis using le by (simp add: start_of_def algebra_simps)
    qed
    have "search_result period earliest latest v last 0 p"
      unfolding search_result_def
    proof (intro conjI impI allI)
      show "p = no_opportunity \<or> (\<exists>k j. j < length v \<and> tx_time_64 p = start_of period last v k j \<and>
          N_samples_64 p = length_of (v ! j) \<and> earliest \<le> tx_time_64 p \<and> tx_time_64 p < latest)"
        using p(2) unfolding search_result_def shift by blast
    next
      fix k j
      assume *: "sorted (map offset_of v)"
        "j < length v \<and> (k > 0 \<or> 0 \<le> j) \<and> earliest \<le> start_of period last v k j \<and> start_of period last v k j < latest"
      then have "n \<le> k" using early by (meson linorder_not_less)
      then obtain k' where "k = n + k'" using le_Suc_ex by blast
      with * p(2) show "p \<noteq> no_opportunity" "tx_time_64 p \<le> start_of period last v k j"
        by (auto simp: search_result_def shift)
    qed
    moreover have "get_tx_opportunity_generic a earliest latest v = Some (Inr p)"
      using late le C p(1)
      by (simp add: get_tx_opportunity_generic_def Let_def period_def last_def)
    ultimately show ?thesis by (simp add: period_def last_def)
  qed
qed

lemma resources_disjoint:
  assumes "resources_ok p v" "r \<in> set v" "s \<in> set v" "r \<noteq> s"
  shows "disjoint_resources r s"
proof -
  obtain i j where i: "i < length v" "r = v ! i" and j: "j < length v" "s = v ! j"
    using assms(2,3) by (metis in_set_conv_nth)
  have "sorted_wrt disjoint_resources v" using assms(1) by (simp add: resources_ok_def)
  with i j assms(4) show ?thesis
    by (cases i j rule: linorder_cases)
      (auto simp: sorted_wrt_iff_nth_less disjoint_resources_def disj_commute)
qed

text \<open>Two transmissions that the allocation permits do not overlap.\<close>

lemma permitted_disjoint:
  assumes ok: "resources_ok (period_of a) (resources_in dir a)" and period: "0 < period_of a"
    and "permitted dir a p" "permitted dir a q" "tx_time_64 p < tx_time_64 q"
  shows "get_end p \<le> tx_time_64 q"
proof -
  define last period where "last = beacon_time_last_known_64 a" and "period = period_of a"
  from assms(3) obtain k r where p: "r \<in> set (resources_in dir a)"
    "tx_time_64 p = last + int k * period + offset_of r" "N_samples_64 p = length_of r"
    by (auto simp: permitted_def last_def period_def)
  from assms(4) obtain l s where q: "s \<in> set (resources_in dir a)"
    "tx_time_64 q = last + int l * period + offset_of s" by (auto simp: permitted_def last_def period_def)
  have r: "offset_of r + length_of r \<le> period" and s: "offset_of s + length_of s \<le> period" "0 < length_of s"
    using ok p(1) q(1) last_sample(2) by (auto simp: resources_ok_def list_all_iff period_def)
  have step: "int k * period + period \<le> int l * period" if "k < l" for k l
  proof -
    have "int (k + 1) * period \<le> int l * period" using that period by (intro mult_right_mono) (auto simp: period_def)
    then show ?thesis by (simp add: algebra_simps)
  qed
  have nonneg: "0 \<le> offset_of r" "0 \<le> offset_of s" by simp_all
  consider "k < l" | "l < k" | "k = l" by linarith
  then show ?thesis
  proof cases
    case 1
    show ?thesis using step [OF 1] r nonneg p(2,3) q(2) unfolding get_end_def by linarith
  next
    case 2
    have False using step [OF 2] s nonneg p(2) q(2) assms(5) by linarith
    then show ?thesis ..
  next
    case 3
    with p(2) q(2) assms(5) have "offset_of r < offset_of s" by simp
    then have "disjoint_resources r s" using resources_disjoint [OF ok p(1) q(1)] by auto
    with \<open>offset_of r < offset_of s\<close> s(2) have "offset_of r + length_of r \<le> offset_of s"
      unfolding disjoint_resources_def by linarith
    with 3 p(2,3) q(2) show ?thesis unfolding get_end_def by simp
  qed
qed

lemma search_permitted:
  assumes "search_result (period_of a) earliest latest (resources_in dir a) (beacon_time_last_known_64 a) 0 p"
  shows "p = no_opportunity \<or> permitted dir a p \<and> earliest \<le> tx_time_64 p \<and> tx_time_64 p < latest"
    and "sorted (map offset_of (resources_in dir a)) \<Longrightarrow> permitted dir a q \<Longrightarrow> earliest \<le> tx_time_64 q \<Longrightarrow>
      tx_time_64 q < latest \<Longrightarrow> p \<noteq> no_opportunity \<and> tx_time_64 p \<le> tx_time_64 q"
proof -
  show "p = no_opportunity \<or> permitted dir a p \<and> earliest \<le> tx_time_64 p \<and> tx_time_64 p < latest"
    using assms nth_mem unfolding search_result_def permitted_def start_of_def by blast
  assume *: "sorted (map offset_of (resources_in dir a))" "permitted dir a q" "earliest \<le> tx_time_64 q"
    "tx_time_64 q < latest"
  from *(2) obtain k j where "j < length (resources_in dir a)"
    "tx_time_64 q = start_of (period_of a) (beacon_time_last_known_64 a) (resources_in dir a) k j"
    unfolding permitted_def start_of_def by (metis in_set_conv_nth)
  with * assms show "p \<noteq> no_opportunity \<and> tx_time_64 p \<le> tx_time_64 q"
    unfolding search_result_def by auto
qed

definition direction_fine :: "direction_t \<Rightarrow> int \<Rightarrow> int \<Rightarrow> bool" where
  "direction_fine dir beacon now_64 \<longleftrightarrow> dir = dir_ul \<and> beacon \<le> now_64 \<or> dir = dir_dl"

text \<open>C9: Whatever resources were added, the search for an opportunity ends without a failing
assertion. An opportunity that is returned is a repetition of an allocated resource after the last
beacon, inside the window that turnaround time, caller and validity of the allocation leave. If the
resources were added with ascending offsets it is the earliest such repetition, and nothing is
returned only if there is none. Two opportunities of an allocation never overlap.\<close>
theorem tx_opportunity_earliest:
  assumes "add_all rs (mk_allocation_pt lut period after_beacon after_now turnaround) = Inr a0"
    and "0 < uint (du_N_samples period)" and "direction_fine dir t now_64"
    and "a = set_beacon_time_last_known t a0"
  shows "(\<exists>p. get_tx_opportunity dir now_64 tx_earliest_64 a = Some (Inr p) \<and>
       (p = no_opportunity \<or> permitted dir a p \<and> in_window dir now_64 tx_earliest_64 a (tx_time_64 p)) \<and>
       (sorted (map offset_of (resources_in dir a)) \<longrightarrow>
         (\<forall>q. permitted dir a q \<and> in_window dir now_64 tx_earliest_64 a (tx_time_64 q) \<longrightarrow>
            p \<noteq> no_opportunity \<and> tx_time_64 p \<le> tx_time_64 q))) \<and>
     (\<forall>p q. permitted dir a p \<and> permitted dir a q \<and> tx_time_64 p < tx_time_64 q \<longrightarrow> get_end p \<le> tx_time_64 q)"
proof -
  have "allocation_ok (mk_allocation_pt lut period after_beacon after_now turnaround)"
    by (simp add: allocation_ok_def mk_allocation_pt_def resources_ok_def)
  from add_all_ok [OF this assms(1)] assms(2,4) have a: "allocation_ok a" "0 < period_of a"
    "beacon_time_last_known_64 a = t"
    by (auto simp: allocation_ok_def set_beacon_time_last_known_def mk_allocation_pt_def)
  have ok: "resources_ok (period_of a) (resources_in dir a)"
    using a(1) by (simp add: allocation_ok_def resources_in_def)
  define latest where "latest = (if dir = dir_ul
    then min (t + uint (du_N_samples (allocation_validity_after_beacon a)))
      (now_64 + uint (du_N_samples (allocation_validity_after_now a))) else t + period_of a)"
  obtain p where p: "get_tx_opportunity_generic a (max (now_64 + turnaround_time a) tx_earliest_64) latest
      (resources_in dir a) = Some (Inr p)"
    "search_result (period_of a) (max (now_64 + turnaround_time a) tx_earliest_64) latest (resources_in dir a)
      (beacon_time_last_known_64 a) 0 p"
    using generic_result [OF ok a(2)] by blast
  have "get_tx_opportunity dir now_64 tx_earliest_64 a = Some (Inr p)"
    using assms(3) p(1) a(3)
    by (auto simp: direction_fine_def get_tx_opportunity_def latest_def resources_in_def Let_def)
  moreover have window: "in_window dir now_64 tx_earliest_64 a x \<longleftrightarrow>
      max (now_64 + turnaround_time a) tx_earliest_64 \<le> x \<and> x < latest" for x
    by (auto simp: in_window_def latest_def a(3))
  ultimately show ?thesis
    using search_permitted [OF p(2)] permitted_disjoint [OF ok a(2)] by (auto simp: window)
qed

text \<open>Two uplink resources, five and fifteen subslots after the beacon, in either order.\<close>

definition sample_subslots :: "u32 \<Rightarrow> duration_t" where
  "sample_subslots n = projr (mk_duration 1728000 subslot_u1_001 n)"

definition sample_pt_allocation :: "u32 \<Rightarrow> u32 \<Rightarrow> allocation_pt_t res" where
  "sample_pt_allocation i j =
     add_all [(dir_ul, sample_subslots i, sample_subslots 3), (dir_ul, sample_subslots j, sample_subslots 3)]
       (mk_allocation_pt \<lparr>lut_samp_rate = 1728000, duration_vec = []\<rparr> (sample_subslots 48) (sample_subslots 48)
         (sample_subslots 48) 700)"

definition sample_known :: "u32 \<Rightarrow> u32 \<Rightarrow> allocation_pt_t" where
  "sample_known i j = set_beacon_time_last_known 1000000 (projr (sample_pt_allocation i j))"

definition sample_opportunity :: tx_opportunity_t where
  "sample_opportunity = \<lparr>tx_time_64 = 1001800, N_samples_64 = 1080\<rparr>"

lemma sample_pt_allocation_built:
  "\<not> isl (sample_pt_allocation 5 15)" "\<not> isl (sample_pt_allocation 15 5)"
  by code_simp+

lemma sample_resources:
  "resource_ul_vec (sample_known 5 15) =
     [\<lparr>rs_offset = sample_subslots 5, rs_length = sample_subslots 3\<rparr>,
      \<lparr>rs_offset = sample_subslots 15, rs_length = sample_subslots 3\<rparr>]"
  "resource_ul_vec (sample_known 15 5) =
     [\<lparr>rs_offset = sample_subslots 15, rs_length = sample_subslots 3\<rparr>,
      \<lparr>rs_offset = sample_subslots 5, rs_length = sample_subslots 3\<rparr>]"
  "offset_of \<lparr>rs_offset = sample_subslots 5, rs_length = sample_subslots 3\<rparr> = 1800"
  "offset_of \<lparr>rs_offset = sample_subslots 15, rs_length = sample_subslots 3\<rparr> = 5400"
  "length_of \<lparr>rs_offset = sample_subslots 5, rs_length = sample_subslots 3\<rparr> = 1080"
  "beacon_time_last_known_64 (sample_known 5 15) = 1000000"
  "beacon_time_last_known_64 (sample_known 15 5) = 1000000"
  by code_simp+

lemma sample_window:
  "in_window dir_ul 1000500 0 (sample_known 5 15) 1001800"
  "in_window dir_ul 1000500 0 (sample_known 15 5) 1001800"
  by code_simp+

lemma sample_permitted:
  "permitted dir_ul (sample_known 5 15) sample_opportunity"
  "permitted dir_ul (sample_known 15 5) sample_opportunity"
  unfolding permitted_def resources_in_def
  by (intro exI [of _ 0] exI [of _ "\<lparr>rs_offset = sample_subslots 5, rs_length = sample_subslots 3\<rparr>"],
      simp only: sample_resources sample_opportunity_def, simp)+

theorem tx_opportunity_earliest_witness:
  "\<exists>p. get_tx_opportunity dir_ul 1000500 0 (sample_known 5 15) = Some (Inr p) \<and> p \<noteq> no_opportunity \<and>
     tx_time_64 p \<le> 1001800"
proof -
  obtain a0 where a0: "sample_pt_allocation 5 15 = Inr a0"
    using sample_pt_allocation_built(1) by (cases "sample_pt_allocation 5 15") auto
  have "sorted (map offset_of (resources_in dir_ul (sample_known 5 15)))"
    unfolding resources_in_def sample_resources by code_simp
  moreover have "0 < uint (du_N_samples (sample_subslots 48))" by code_simp
  moreover have "sample_known 5 15 = set_beacon_time_last_known 1000000 a0"
    by (simp add: sample_known_def a0)
  ultimately show ?thesis
    using tx_opportunity_earliest [OF a0 [unfolded sample_pt_allocation_def], of dir_ul 1000000 1000500
        "sample_known 5 15" 0] sample_permitted(1) sample_window(1)
    by (auto simp: direction_fine_def sample_opportunity_def)
qed

lemma descending_found:
  "get_tx_opportunity dir_ul 1000500 0 (sample_known 15 5) =
     Some (Inr \<lparr>tx_time_64 = 1005400, N_samples_64 = 1080\<rparr>)"
  by code_simp

text \<open>Resources that were not added in ascending order hide earlier opportunities.\<close>

lemma descending_resources_delay:
  "get_tx_opportunity dir_ul 1000500 0 (sample_known 15 5) =
     Some (Inr \<lparr>tx_time_64 = 1005400, N_samples_64 = 1080\<rparr>) \<and>
   permitted dir_ul (sample_known 15 5) sample_opportunity \<and>
   in_window dir_ul 1000500 0 (sample_known 15 5) (tx_time_64 sample_opportunity)"
  using descending_found sample_permitted(2) sample_window(2) by (simp add: sample_opportunity_def)

end
