(* ===== verification/Beacon_Time.thy ===== *)
theory Beacon_Time
  imports Numerology Irregular_Queue
begin

text \<open>
  Times derived from beacons: the schedule of a fixed termination (\<open>mac/allocation/allocation_ft\<close>)
  and the pulses that a portable termination keeps aligned with the beacons it receives
  (\<open>mac/ppx\<close>). Times of type \<open>int64_t\<close> are integers; their division truncates.
\<close>

subsection \<open>Schedule of a fixed termination\<close>

record allocation_ft_t =
  ft_duration_lut :: duration_lut_t
  ft_beacon_period :: duration_t
  beacon_prepare_duration :: duration_t
  beacon_time_transmitted_64 :: int
  beacon_time_scheduled_64 :: int
  beacon_cnt :: "64 word"
  N_beacons_per_second :: u32

definition mk_allocation_ft :: "duration_lut_t \<Rightarrow> duration_t \<Rightarrow> duration_t \<Rightarrow> allocation_ft_t res" where
  "mk_allocation_ft lut period prepare =
     bindE (get_N_duration_in_second lut period) (\<lambda>n.
     Inr \<lparr>ft_duration_lut = lut, ft_beacon_period = period, beacon_prepare_duration = prepare,
          beacon_time_transmitted_64 = undefined_late, beacon_time_scheduled_64 = undefined_late,
          beacon_cnt = 0, N_beacons_per_second = n\<rparr>)"

definition get_beacon_time_scheduled_minus_prepare_duration :: "allocation_ft_t \<Rightarrow> int" where
  "get_beacon_time_scheduled_minus_prepare_duration a =
     beacon_time_scheduled_64 a - uint (du_N_samples (beacon_prepare_duration a))"

definition set_beacon_time_scheduled :: "int \<Rightarrow> allocation_ft_t \<Rightarrow> allocation_ft_t" where
  "set_beacon_time_scheduled t a = a\<lparr>beacon_time_scheduled_64 := t\<rparr>"

definition set_beacon_time_next :: "allocation_ft_t \<Rightarrow> allocation_ft_t" where
  "set_beacon_time_next a =
     (let a1 = a\<lparr>beacon_time_transmitted_64 := beacon_time_scheduled_64 a\<rparr>;
          a2 = a1\<lparr>beacon_time_scheduled_64 :=
                   beacon_time_scheduled_64 a1 + uint (du_N_samples (ft_beacon_period a1))\<rparr>
      in a2\<lparr>beacon_cnt := beacon_cnt a2 + 1\<rparr>)"

text \<open>The beacons stay on their raster.\<close>

lemma beacon_schedule:
  fixes a :: allocation_ft_t and t :: int and n :: nat
  defines "a' \<equiv> (set_beacon_time_next ^^ Suc n) (set_beacon_time_scheduled t a)"
  shows "beacon_time_transmitted_64 a' = t + int n * uint (du_N_samples (ft_beacon_period a)) \<and>
    beacon_time_scheduled_64 a' = t + int (Suc n) * uint (du_N_samples (ft_beacon_period a)) \<and>
    beacon_cnt a' = beacon_cnt a + of_nat (Suc n) \<and> ft_beacon_period a' = ft_beacon_period a"
  unfolding a'_def
  by (induction n) (auto simp: set_beacon_time_next_def set_beacon_time_scheduled_def Let_def algebra_simps)

subsection \<open>Pulses\<close>

record pulse_config_t =
  rising_edge_64 :: int
  falling_edge_64 :: int

record ppx_t =
  ppx_period :: duration_t
  ppx_length :: duration_t
  ppx_time_advance :: duration_t
  ppx_beacon_period :: duration_t
  time_deviation_max :: duration_t
  ppx_period_warped_64 :: int
  ppx_rising_edge_estimation_64 :: int

definition duration_less :: "duration_t \<Rightarrow> duration_t \<Rightarrow> bool" where
  "duration_less lhs rhs = (if du_N_samples lhs < du_N_samples rhs then True else False)"

definition mk_ppx :: "duration_t \<Rightarrow> duration_t \<Rightarrow> duration_t \<Rightarrow> duration_t \<Rightarrow> duration_t \<Rightarrow> ppx_t res" where
  "mk_ppx period len advance beacon dev =
     assertE (duration_less len period) (
     assertE (duration_less advance period) (
     assertE (duration_less beacon period) (
     assertE (uint (du_N_samples period) smod uint (du_N_samples beacon) = 0) (
     Inr \<lparr>ppx_period = period, ppx_length = len, ppx_time_advance = advance, ppx_beacon_period = beacon,
          time_deviation_max = dev, ppx_period_warped_64 = uint (du_N_samples period),
          ppx_rising_edge_estimation_64 = UNDEFINED_EARLY_64\<rparr>))))"

definition has_ppx_rising_edge :: "ppx_t \<Rightarrow> bool" where
  "has_ppx_rising_edge p \<longleftrightarrow> 0 \<le> ppx_rising_edge_estimation_64 p"

definition set_ppx_rising_edge :: "int \<Rightarrow> ppx_t \<Rightarrow> ppx_t res" where
  "set_ppx_rising_edge t p =
     assertE (ppx_rising_edge_estimation_64 p < 0) (
     assertE (0 < t) (Inr (p\<lparr>ppx_rising_edge_estimation_64 := t\<rparr>)))"

definition extrapolate_next_rising_edge :: "ppx_t \<Rightarrow> ppx_t" where
  "extrapolate_next_rising_edge p =
     p\<lparr>ppx_rising_edge_estimation_64 := ppx_rising_edge_estimation_64 p + ppx_period_warped_64 p\<rparr>"

definition set_ppx_period_warped :: "int \<Rightarrow> ppx_t \<Rightarrow> ppx_t" where
  "set_ppx_period_warped t p = p\<lparr>ppx_period_warped_64 := t\<rparr>"

definition round_integer :: "int \<Rightarrow> int \<Rightarrow> int" where
  "round_integer x y =
     (let offset = (if (x < 0) = (y < 0) then y else - y) sdiv 2 in (x + offset) sdiv y)"

definition determine_offset :: "int \<Rightarrow> int \<Rightarrow> int \<Rightarrow> int res" where
  "determine_offset ref_64 raster_64 time_to_test_64 =
     assertE (raster_64 smod 2 = 0) (
     let A = time_to_test_64 - ref_64;
         B = round_integer A raster_64;
         C = ref_64 + B * raster_64
     in assertE (\<bar>time_to_test_64 - C\<bar> < raster_64 sdiv 2) (Inr (time_to_test_64 - C)))"

definition provide_beacon_time_out_of_raster :: "int \<Rightarrow> int \<Rightarrow> ppx_t \<Rightarrow> ppx_t res" where
  "provide_beacon_time_out_of_raster t period_custom p =
     assertE (0 \<le> ppx_rising_edge_estimation_64 p) (
     bindE (determine_offset (ppx_rising_edge_estimation_64 p) period_custom t) (\<lambda>deviation.
     assertE (\<bar>deviation\<bar> \<le> uint (du_N_samples (time_deviation_max p)))
       (Inr (p\<lparr>ppx_rising_edge_estimation_64 := ppx_rising_edge_estimation_64 p + deviation\<rparr>))))"

definition provide_beacon_time :: "int \<Rightarrow> ppx_t \<Rightarrow> ppx_t res" where
  "provide_beacon_time t p = provide_beacon_time_out_of_raster t (uint (du_N_samples (ppx_beacon_period p))) p"

definition get_ppx_imminent :: "ppx_t \<Rightarrow> pulse_config_t" where
  "get_ppx_imminent p =
     (let A = ppx_rising_edge_estimation_64 p + ppx_period_warped_64 p
      in \<lparr>rising_edge_64 = A, falling_edge_64 = A + uint (du_N_samples (ppx_length p))\<rparr>)"

subsection \<open>The pulses follow the beacons\<close>

text \<open>Rounding to the nearest multiple, halves away from zero.\<close>

lemma round_integer_nearest:
  assumes "0 < h"
  shows "2 * \<bar>x - round_integer x (2 * h) * (2 * h)\<bar> \<le> 2 * h"
proof -
  define q where "q = (\<bar>x\<bar> + h) div (2 * h)"
  have "\<bar>x\<bar> + h = q * (2 * h) + (\<bar>x\<bar> + h) mod (2 * h)"
    unfolding q_def by (rule div_mult_mod_eq [symmetric])
  moreover have "0 \<le> (\<bar>x\<bar> + h) mod (2 * h)" "(\<bar>x\<bar> + h) mod (2 * h) < 2 * h" using assms by simp_all
  ultimately have "q * (2 * h) \<le> \<bar>x\<bar> + h" "\<bar>x\<bar> + h < q * (2 * h) + 2 * h" by linarith+
  moreover have "round_integer x (2 * h) = (if x < 0 then - q else q)"
    using assms by (auto simp: round_integer_def q_def signed_divide_int_def sgn_if)
  ultimately show ?thesis by (auto split: if_splits)
qed

text \<open>A time on the raster of the beacon at \<open>t\<close> to which the estimation may move.\<close>

definition aligned :: "ppx_t \<Rightarrow> int \<Rightarrow> int \<Rightarrow> bool" where
  "aligned p t x \<longleftrightarrow>
     uint (du_N_samples (ppx_beacon_period p)) dvd t - x \<and>
     \<bar>x - ppx_rising_edge_estimation_64 p\<bar> \<le> uint (du_N_samples (time_deviation_max p)) \<and>
     2 * \<bar>x - ppx_rising_edge_estimation_64 p\<bar> < uint (du_N_samples (ppx_beacon_period p))"

lemma nearest_unique:
  fixes d y r :: int
  assumes "2 * \<bar>d\<bar> \<le> r" "2 * \<bar>y\<bar> < r" "r dvd d - y"
  shows "d = y"
proof -
  have "\<bar>d - y\<bar> < r" using assms(1,2) by linarith
  with assms(3) have "d - y = 0" by (metis abs_of_nonneg abs_ge_zero zdvd_not_zless dvd_abs_iff abs_dvd_iff
      linorder_not_less order_le_less abs_eq_0)
  then show ?thesis by simp
qed

text \<open>C23: A received beacon moves the estimation of the next pulse to the raster of the beacon, by
less than half a beacon period and by at most the permitted deviation, and nothing else changes; the
assertions fail exactly when the raster has no such point, so also for a beacon that is exactly half a
period off.\<close>
theorem ppx_follows_beacons:
  assumes "has_ppx_rising_edge p" and "0 < uint (du_N_samples (ppx_beacon_period p))"
    and "even (uint (du_N_samples (ppx_beacon_period p)))"
  shows "case provide_beacon_time t p of
      Inr p' \<Rightarrow> aligned p t (ppx_rising_edge_estimation_64 p') \<and>
        p' = p\<lparr>ppx_rising_edge_estimation_64 := ppx_rising_edge_estimation_64 p'\<rparr>
    | Inl e \<Rightarrow> e = Assertion_failed \<and> (\<forall>x. \<not> aligned p t x)"
proof -
  define est where "est = ppx_rising_edge_estimation_64 p"
  define dev where "dev = uint (du_N_samples (time_deviation_max p))"
  obtain h where h: "uint (du_N_samples (ppx_beacon_period p)) = 2 * h" using assms(3) by (rule evenE)
  have pos: "0 < h" using assms(2) h by simp
  define B where "B = round_integer (t - est) (2 * h)"
  define d where "d = t - (est + B * (2 * h))"
  have near: "2 * \<bar>d\<bar> \<le> 2 * h"
    using round_integer_nearest [OF pos, of "t - est"] by (simp add: d_def B_def diff_diff_eq)
  have half: "2 * h smod 2 = 0" "2 * h sdiv 2 = h"
    using pos by (simp_all add: signed_modulo_int_def signed_divide_int_def)
  have off: "determine_offset est (2 * h) t = assertE (\<bar>d\<bar> < h) (Inr d)"
    by (simp add: determine_offset_def half Let_def d_def B_def)
  have run: "provide_beacon_time t p =
      assertE (\<bar>d\<bar> < h) (assertE (\<bar>d\<bar> \<le> dev) (Inr (p\<lparr>ppx_rising_edge_estimation_64 := est + d\<rparr>)))"
    using assms(1) off
    by (cases "\<bar>d\<bar> < h") (simp_all add: provide_beacon_time_def provide_beacon_time_out_of_raster_def
        has_ppx_rising_edge_def h est_def dev_def)
  have al: "aligned p t x \<longleftrightarrow> 2 * h dvd t - x \<and> \<bar>x - est\<bar> \<le> dev \<and> \<bar>x - est\<bar> < h" for x
    by (simp add: aligned_def h est_def dev_def)
  have raster: "2 * h dvd t - (est + d)" by (simp add: d_def)
  show ?thesis
  proof (cases "\<bar>d\<bar> < h \<and> \<bar>d\<bar> \<le> dev")
    case True
    then show ?thesis using raster by (simp add: run al)
  next
    case False
    have "\<not> aligned p t x" for x
    proof
      assume "aligned p t x"
      then have x: "2 * h dvd t - x" "\<bar>x - est\<bar> \<le> dev" "\<bar>x - est\<bar> < h" by (simp_all add: al)
      have "2 * h dvd (t - x) - (t - (est + d))" by (rule dvd_diff [OF x(1) raster])
      then have "2 * h dvd d - (x - est)" by (simp add: algebra_simps)
      from nearest_unique [OF near _ this] x(2,3) False show False by simp
    qed
    with False show ?thesis by (cases "\<bar>d\<bar> < h") (auto simp: run)
  qed
qed

definition sample_ppx :: ppx_t where
  "sample_ppx =
     (let ms = (\<lambda>n. projr (mk_duration 1728000 ms001 n))
      in (projr (mk_ppx (ms 1000) (ms 1) (ms 2) (ms 10) (ms 1)))\<lparr>ppx_rising_edge_estimation_64 := 100000\<rparr>)"

theorem ppx_follows_beacons_witness:
  "provide_beacon_time 117290 sample_ppx = Inr (sample_ppx\<lparr>ppx_rising_edge_estimation_64 := 100010\<rparr>) \<and>
   aligned sample_ppx 117290 100010 \<and> (\<forall>x. \<not> aligned sample_ppx 108640 x)"
proof -
  have *: "has_ppx_rising_edge sample_ppx" "0 < uint (du_N_samples (ppx_beacon_period sample_ppx))"
    "even (uint (du_N_samples (ppx_beacon_period sample_ppx)))" by code_simp+
  have "provide_beacon_time 117290 sample_ppx = Inr (sample_ppx\<lparr>ppx_rising_edge_estimation_64 := 100010\<rparr>)"
    "provide_beacon_time 108640 sample_ppx = Inl Assertion_failed" by code_simp+
  with ppx_follows_beacons [OF *, of 117290] ppx_follows_beacons [OF *, of 108640] show ?thesis by simp
qed

end
