(* ===== verification/Sync_Workers.thy ===== *)
theory Sync_Workers
  imports Job_Queue Numerology
begin

text \<open>
  The sync workers (\<open>phy/pool/worker_sync.cpp\<close>) search interleaved chunks of the received signal in
  parallel and enqueue a job for every packet. The baton (\<open>phy/pool/baton.cpp\<close>) makes one of them
  after the other enqueue. What a search finds is a parameter: \<open>found t\<close> lists the fine peak times of
  the packets in the chunk that starts at \<open>t\<close>, in the order in which \<open>search\<close> returns them, and says
  whether the last one is returned only when the chunk is completely processed. The time up to
  which samples have been received is read from the radio: it is an argument of the steps that ask
  for it. The irregular callbacks, which sync workers enqueue as well, are modelled in
  \<open>Irregular_Queue\<close>. Times and chunk positions are unbounded integers.
\<close>

subsection \<open>Baton\<close>

record baton_t =
  nof_worker_sync :: u32
  sync_time_unique_limit_64 :: int
  rx_job_regular_period :: u32
  register_cnt :: u32
  register_now_64 :: int
  bt_id_holder :: u32
  bt_sync_time_last_64 :: int
  rx_job_regular_period_cnt :: u32
  bt_chunk_time_end_64 :: int

definition baton_new :: "u32 \<Rightarrow> int \<Rightarrow> u32 \<Rightarrow> baton_t" where
  "baton_new n limit period =
     \<lparr>nof_worker_sync = n, sync_time_unique_limit_64 = limit, rx_job_regular_period = period,
      register_cnt = 0, register_now_64 = UNDEFINED_EARLY_64, bt_id_holder = 0,
      bt_sync_time_last_64 = UNDEFINED_EARLY_64, rx_job_regular_period_cnt = 0,
      bt_chunk_time_end_64 = undefined_late\<rparr>"

text \<open>The first half of \<open>register_and_wait_for_others_nto\<close>; the result says whether the worker calls
\<open>work_start\<close> and wakes the others. In the second half they read the time they agreed on.\<close>

definition baton_register :: "int \<Rightarrow> baton_t \<Rightarrow> (bool \<times> baton_t) res" where
  "baton_register now_64 b =
     (let b1 = b\<lparr>register_cnt := register_cnt b + 1\<rparr>;
          b2 = (if register_now_64 b1 < now_64 then b1\<lparr>register_now_64 := now_64\<rparr> else b1)
      in assertE (register_cnt b2 \<le> nof_worker_sync b2) (Inr (register_cnt b2 = nof_worker_sync b2, b2)))"

definition registered_time :: "baton_t \<Rightarrow> int option" where
  "registered_time b = (if register_cnt b = nof_worker_sync b then Some (register_now_64 b) else None)"

definition is_id_holder_the_same :: "u32 \<Rightarrow> baton_t \<Rightarrow> bool" where
  "is_id_holder_the_same id_caller b \<longleftrightarrow> id_caller = bt_id_holder b"

text \<open>One round of the loop of \<open>wait_to\<close>.\<close>

definition wait_to :: "u32 \<Rightarrow> baton_t \<Rightarrow> bool" where
  "wait_to id_target b \<longleftrightarrow> bt_id_holder b = id_target"

definition pass_on :: "u32 \<Rightarrow> baton_t \<Rightarrow> baton_t res" where
  "pass_on id_caller b =
     assertE (is_id_holder_the_same id_caller b)
       (Inr (b\<lparr>bt_id_holder := (bt_id_holder b + 1) mod nof_worker_sync b\<rparr>))"

definition is_sync_time_unique :: "int \<Rightarrow> baton_t \<Rightarrow> bool \<times> baton_t" where
  "is_sync_time_unique candidate b =
     (if candidate - bt_sync_time_last_64 b > sync_time_unique_limit_64 b
      then (True, b\<lparr>bt_sync_time_last_64 := candidate\<rparr>) else (False, b))"

definition is_job_regular_due :: "baton_t \<Rightarrow> bool \<times> baton_t" where
  "is_job_regular_due b =
     (if rx_job_regular_period b = 0 then (False, b)
      else
        let b1 = b\<lparr>rx_job_regular_period_cnt := rx_job_regular_period_cnt b + 1\<rparr>
        in if rx_job_regular_period_cnt b1 = rx_job_regular_period b1
           then (True, b1\<lparr>rx_job_regular_period_cnt := 0\<rparr>) else (False, b1))"

subsection \<open>Chunks\<close>

record sync_chunk =
  sc_start :: int
  sc_rest :: "int list"
  sc_done :: bool

definition enter_chunk :: "(int \<Rightarrow> int list \<times> bool) \<Rightarrow> int \<Rightarrow> sync_chunk" where
  "enter_chunk found t = \<lparr>sc_start = t, sc_rest = fst (found t), sc_done = False\<rparr>"

definition get_chunk_time_end :: "int \<Rightarrow> sync_chunk \<Rightarrow> int" where
  "get_chunk_time_end len c = sc_start c + (len - 1)"

text \<open>The members of \<open>rx_pacer_t\<close> and of its buffer that the check of the time lag reads.\<close>

record rx_pacer =
  samp_rate :: u32
  ant_streams_length_samples :: u32
  search_time_start_64 :: int

definition RX_PACER_LAG_ASSERT_AFTER_START_TIME_MS :: int where "RX_PACER_LAG_ASSERT_AFTER_START_TIME_MS = 2500"
definition RX_PACER_LAG_ASSERT_TENTHS_RX_ANT_STREAMS_LENGTH :: int where
  "RX_PACER_LAG_ASSERT_TENTHS_RX_ANT_STREAMS_LENGTH = 9"

text \<open>Whether \<open>assert_time_lag\<close> returns, at the time \<open>now_64\<close>. The second assertion is skipped as
soon as the start of the search is some time ago.\<close>

definition assert_time_lag :: "rx_pacer \<Rightarrow> int \<Rightarrow> int \<Rightarrow> bool" where
  "assert_time_lag pc now_64 t \<longleftrightarrow>
     t \<le> now_64 \<and>
     (search_time_start_64 pc + uint (samp_rate pc) * RX_PACER_LAG_ASSERT_AFTER_START_TIME_MS div 1000 \<le> now_64 \<or>
      now_64 - t \<le> uint (ant_streams_length_samples pc) * RX_PACER_LAG_ASSERT_TENTHS_RX_ANT_STREAMS_LENGTH div 10)"

definition set_next_chunk :: "rx_pacer \<Rightarrow> (int \<Rightarrow> int list \<times> bool) \<Rightarrow> int \<Rightarrow> int \<Rightarrow> int \<Rightarrow> sync_chunk \<Rightarrow> sync_chunk res" where
  "set_next_chunk pc found len stride now_64 c =
     assertE (assert_time_lag pc now_64 (get_chunk_time_end len c)) (Inr (enter_chunk found (sc_start c + stride)))"

definition wait_for_first_chunk_nto ::
    "rx_pacer \<Rightarrow> (int \<Rightarrow> int list \<times> bool) \<Rightarrow> int \<Rightarrow> int \<Rightarrow> int \<Rightarrow> int \<Rightarrow> sync_chunk res" where
  "wait_for_first_chunk_nto pc found len stride offset now_64 =
     (let search_start = search_time_start_64 pc;
          c = enter_chunk found (search_start - search_start smod stride + offset)
      in if sc_start c + len \<le> search_start then set_next_chunk pc found len stride now_64 c else Inr c)"

definition chunk_result :: "(int \<Rightarrow> int list \<times> bool) \<Rightarrow> sync_chunk \<Rightarrow> int option \<times> sync_chunk" where
  "chunk_result found c =
     (case sc_rest c of
        [] \<Rightarrow> (None, c\<lparr>sc_done := True\<rparr>)
      | t # ts \<Rightarrow> (Some t, c\<lparr>sc_rest := ts, sc_done := (ts = [] \<and> snd (found (sc_start c)))\<rparr>))"

definition chunk_search ::
    "rx_pacer \<Rightarrow> (int \<Rightarrow> int list \<times> bool) \<Rightarrow> int \<Rightarrow> int \<Rightarrow> int \<Rightarrow> sync_chunk \<Rightarrow> (int option \<times> sync_chunk) res" where
  "chunk_search pc found len stride now_64 c =
     bindE (if sc_done c then set_next_chunk pc found len stride now_64 c else Inr c)
       (\<lambda>c. Inr (chunk_result found c))"

subsection \<open>Workers\<close>

definition max_nof_bufferable_sync :: nat where "max_nof_bufferable_sync = 10"

text \<open>
  Where a worker is in the loop of \<open>work\<close>: in the search that fills the buffer; waiting for the baton
  with the result of the last search; enqueuing what it found and searching on; at the regular job;
  before passing the baton on.
\<close>

datatype sync_phase =
  Searching "int list" | Awaiting "int list" "int option" | Enqueuing "int list" "int option"
| Handing_over | Passing

record sync_state =
  ss_baton :: baton_t
  ss_phase :: "nat \<Rightarrow> sync_phase"
  ss_chunk :: "nat \<Rightarrow> sync_chunk"
  ss_jobs :: "int job_content list"

text \<open>The steps of the workers; those that may go to the next chunk read the time.\<close>

datatype sync_action =
  Search nat int | Acquire nat | Enqueue_next nat int | Hand_over nat | Pass nat | Callback nat irregular_report

definition enqueue_job_nto :: "int \<Rightarrow> baton_t \<times> int job_content list \<Rightarrow> baton_t \<times> int job_content list" where
  "enqueue_job_nto t = (\<lambda>(b, jobs).
     let (unique, b') = is_sync_time_unique t b in (b', if unique then jobs @ [Sync t] else jobs))"

definition enqueue_regular :: "int \<Rightarrow> baton_t \<times> int job_content list \<Rightarrow> baton_t \<times> int job_content list" where
  "enqueue_regular chunk_end = (\<lambda>(b, jobs).
     let (due, b') = is_job_regular_due b
     in (b', if due then jobs @ [Regular (regular_report_new chunk_end (bt_sync_time_last_64 b'))] else jobs))"

definition set_phase :: "nat \<Rightarrow> sync_phase \<Rightarrow> sync_chunk \<Rightarrow> sync_state \<Rightarrow> sync_state" where
  "set_phase w ph c s = s\<lparr>ss_phase := (ss_phase s)(w := ph), ss_chunk := (ss_chunk s)(w := c)\<rparr>"

definition set_jobs :: "baton_t \<times> int job_content list \<Rightarrow> sync_state \<Rightarrow> sync_state" where
  "set_jobs bj s = s\<lparr>ss_baton := fst bj, ss_jobs := snd bj\<rparr>"

text \<open>A callback that is due while the worker searches or enqueues is enqueued if it holds the baton.\<close>

definition enqueue_callback :: "nat \<Rightarrow> irregular_report \<Rightarrow> sync_state \<Rightarrow> sync_state" where
  "enqueue_callback w r s =
     (if is_id_holder_the_same (of_nat w) (ss_baton s)
      then set_jobs (ss_baton s, ss_jobs s @ [Irregular r]) s else s)"

definition after_search :: "nat \<Rightarrow> int list \<Rightarrow> int option \<Rightarrow> sync_state \<Rightarrow> sync_phase" where
  "after_search w buf r s =
     (case r of
        None \<Rightarrow> Awaiting buf None
      | Some t \<Rightarrow>
          (if is_id_holder_the_same (of_nat w) (ss_baton s) then Awaiting buf (Some t)
           else if length buf < max_nof_bufferable_sync then Searching (buf @ [t])
           else Awaiting buf (Some t)))"

text \<open>\<open>None\<close>: the worker is elsewhere, or waits for the baton.\<close>

fun exec_sync ::
    "rx_pacer \<Rightarrow> (int \<Rightarrow> int list \<times> bool) \<Rightarrow> int \<Rightarrow> int \<Rightarrow> sync_action \<Rightarrow> sync_state \<Rightarrow> sync_state res option" where
  "exec_sync pc found len stride (Search w now_64) s = (case ss_phase s w of
     Searching buf \<Rightarrow>
       Some (bindE (chunk_search pc found len stride now_64 (ss_chunk s w)) (\<lambda>(r, c).
         Inr (set_phase w (after_search w buf r s) c s)))
   | _ \<Rightarrow> None)"
| "exec_sync pc found len stride (Acquire w) s = (case ss_phase s w of
     Awaiting buf r \<Rightarrow>
       if wait_to (of_nat w) (ss_baton s)
       then Some (Inr (set_phase w (Enqueuing buf r) (ss_chunk s w) s)) else None
   | _ \<Rightarrow> None)"
| "exec_sync pc found len stride (Enqueue_next w now_64) s = (case ss_phase s w of
     Enqueuing (t # buf) r \<Rightarrow>
       Some (Inr (set_phase w (Enqueuing buf r) (ss_chunk s w) (set_jobs (enqueue_job_nto t (ss_baton s, ss_jobs s)) s)))
   | Enqueuing [] r \<Rightarrow>
       (let s1 = (case r of None \<Rightarrow> s | Some t \<Rightarrow> set_jobs (enqueue_job_nto t (ss_baton s, ss_jobs s)) s) in
        if sc_done (ss_chunk s w) then Some (Inr (set_phase w Handing_over (ss_chunk s w) s1))
        else Some (bindE (chunk_search pc found len stride now_64 (ss_chunk s w)) (\<lambda>(r', c).
          Inr (set_phase w (Enqueuing [] r') c s1))))
   | _ \<Rightarrow> None)"
| "exec_sync pc found len stride (Hand_over w) s = (case ss_phase s w of
     Handing_over \<Rightarrow>
       (let chunk_end = get_chunk_time_end len (ss_chunk s w);
            (b, jobs) = enqueue_regular chunk_end (ss_baton s, ss_jobs s) in
        Some (assertE (bt_chunk_time_end_64 b < undefined_late \<longrightarrow>
                       sc_start (ss_chunk s w) - bt_chunk_time_end_64 b = 1)
          (Inr (set_phase w Passing (ss_chunk s w)
             (set_jobs (b\<lparr>bt_chunk_time_end_64 := chunk_end\<rparr>, jobs) s)))))
   | _ \<Rightarrow> None)"
| "exec_sync pc found len stride (Pass w) s = (case ss_phase s w of
     Passing \<Rightarrow> Some (bindE (pass_on (of_nat w) (ss_baton s)) (\<lambda>b.
       Inr (set_phase w (Searching []) (ss_chunk s w) (set_jobs (b, ss_jobs s) s))))
   | _ \<Rightarrow> None)"
| "exec_sync pc found len stride (Callback w r) s = (case ss_phase s w of
     Searching buf \<Rightarrow> Some (Inr (enqueue_callback w r s))
   | Enqueuing buf res \<Rightarrow> Some (Inr (enqueue_callback w r s))
   | _ \<Rightarrow> None)"

fun sync_worker_of :: "sync_action \<Rightarrow> nat" where
  "sync_worker_of (Search w now_64) = w"
| "sync_worker_of (Acquire w) = w"
| "sync_worker_of (Enqueue_next w now_64) = w"
| "sync_worker_of (Hand_over w) = w"
| "sync_worker_of (Pass w) = w"
| "sync_worker_of (Callback w r) = w"

text \<open>The workers agreed on the time at which the search starts. Worker \<open>w\<close> calls
\<open>wait_for_first_chunk_nto\<close> at the time \<open>now_64 w\<close>.\<close>

definition first_chunk ::
    "rx_pacer \<Rightarrow> (int \<Rightarrow> int list \<times> bool) \<Rightarrow> int \<Rightarrow> baton_t \<Rightarrow> (nat \<Rightarrow> int) \<Rightarrow> nat \<Rightarrow> sync_chunk res" where
  "first_chunk pc found len b now_64 w =
     wait_for_first_chunk_nto pc found len (len * uint (nof_worker_sync b)) (len * int w) (now_64 w)"

definition sync_start :: "rx_pacer \<Rightarrow> (int \<Rightarrow> int list \<times> bool) \<Rightarrow> int \<Rightarrow> baton_t \<Rightarrow> (nat \<Rightarrow> int) \<Rightarrow> sync_state" where
  "sync_start pc found len b now_64 =
     \<lparr>ss_baton = b, ss_phase = (\<lambda>_. Searching []), ss_chunk = (\<lambda>w. projr (first_chunk pc found len b now_64 w)),
      ss_jobs = []\<rparr>"

inductive sync_reachable :: "rx_pacer \<Rightarrow> (int \<Rightarrow> int list \<times> bool) \<Rightarrow> int \<Rightarrow> baton_t \<Rightarrow> sync_state \<Rightarrow> bool"
  for pc found len b where
  start: "(\<And>w. w < unat (nof_worker_sync b) \<Longrightarrow> \<not> isl (first_chunk pc found len b now_64 w)) \<Longrightarrow>
    sync_reachable pc found len b (sync_start pc found len b now_64)"
| step: "sync_reachable pc found len b s \<Longrightarrow> sync_worker_of a < unat (nof_worker_sync b) \<Longrightarrow>
    exec_sync pc found len (len * uint (nof_worker_sync b)) a s = Some (Inr s') \<Longrightarrow> sync_reachable pc found len b s'"

subsection \<open>One worker for all chunks\<close>

text \<open>The reference: the chunks are searched one after the other.\<close>

definition one_chunk :: "(int \<Rightarrow> int list \<times> bool) \<Rightarrow> int \<Rightarrow> int \<Rightarrow> baton_t \<times> int job_content list \<Rightarrow> baton_t \<times> int job_content list" where
  "one_chunk found len t bj =
     (let (b, jobs) = enqueue_regular (t + (len - 1)) (fold enqueue_job_nto (fst (found t)) bj)
      in (b\<lparr>bt_chunk_time_end_64 := t + (len - 1), bt_id_holder := (bt_id_holder b + 1) mod nof_worker_sync b\<rparr>, jobs))"

fun sequential :: "(int \<Rightarrow> int list \<times> bool) \<Rightarrow> int \<Rightarrow> int \<Rightarrow> baton_t \<Rightarrow> nat \<Rightarrow> baton_t \<times> int job_content list" where
  "sequential found len t0 b 0 = (b, [])"
| "sequential found len t0 b (Suc k) = one_chunk found len (t0 + len * int k) (sequential found len t0 b k)"

end
