(* ===== verification/Sync_Order.thy ===== *)
theory Sync_Order
  imports Sync_Workers "HOL-Library.Sublist"
begin

text \<open>
  The sync workers together enqueue what a single worker would: the invariant of their reachable
  states. It covers the workers that have skipped a chunk because a packet was found with its last
  samples; they abort the program before they hand the chunk over.
\<close>

subsection \<open>What enqueuing leaves alone\<close>

text \<open>The jobs that are not irregular callbacks.\<close>

fun no_callback :: "'s job_content \<Rightarrow> bool" where
  "no_callback (Irregular r) = False"
| "no_callback j = True"

definition own_jobs :: "'s job_content list \<Rightarrow> 's job_content list" where
  "own_jobs = filter no_callback"

definition own_part :: "baton_t \<times> 's job_content list \<Rightarrow> baton_t \<times> 's job_content list" where
  "own_part bj = (fst bj, own_jobs (snd bj))"

lemma own_enqueue_job: "own_part (enqueue_job_nto t bj) = enqueue_job_nto t (own_part bj)"
  by (cases bj) (simp add: own_part_def own_jobs_def enqueue_job_nto_def split_beta)

lemma own_enqueue_regular: "own_part (enqueue_regular t bj) = enqueue_regular t (own_part bj)"
  by (cases bj) (simp add: own_part_def own_jobs_def enqueue_regular_def split_beta)

definition same_frame :: "baton_t \<Rightarrow> baton_t \<Rightarrow> bool" where
  "same_frame b b' \<longleftrightarrow> nof_worker_sync b' = nof_worker_sync b \<and> bt_id_holder b' = bt_id_holder b \<and>
     bt_chunk_time_end_64 b' = bt_chunk_time_end_64 b"

lemma same_frame_refl [simp]: "same_frame b b"
  by (simp add: same_frame_def)

lemma same_frame_trans: "same_frame a b \<Longrightarrow> same_frame b c \<Longrightarrow> same_frame a c"
  by (simp add: same_frame_def)

lemma enqueue_job_frame: "same_frame (fst bj) (fst (enqueue_job_nto t bj))"
  by (cases bj) (simp add: enqueue_job_nto_def is_sync_time_unique_def same_frame_def)

lemma fold_enqueue_frame: "same_frame (fst bj) (fst (fold enqueue_job_nto ts bj))"
proof (induction ts arbitrary: bj)
  case (Cons t ts)
  from same_frame_trans [OF enqueue_job_frame Cons.IH] show ?case by simp
qed simp

lemma enqueue_regular_frame: "same_frame (fst bj) (fst (enqueue_regular t bj))"
  by (cases bj) (simp add: enqueue_regular_def is_job_regular_due_def same_frame_def Let_def)

subsection \<open>The reference\<close>

text \<open>The start of chunk \<open>i\<close>.\<close>

definition chunk_at :: "int \<Rightarrow> int \<Rightarrow> nat \<Rightarrow> int" where
  "chunk_at len t0 i = t0 + len * int i"

lemma chunk_at_add: "chunk_at len t0 (i + n) = chunk_at len t0 i + len * int n"
  by (simp add: chunk_at_def algebra_simps)

definition baton_start :: "baton_t \<Rightarrow> bool" where
  "baton_start b \<longleftrightarrow> 0 < unat (nof_worker_sync b) \<and> bt_id_holder b = 0 \<and> bt_chunk_time_end_64 b = undefined_late"

lemma next_holder:
  assumes "unat h = k mod unat n" "0 < unat n"
  shows "unat ((h + 1) mod n :: u32) = Suc k mod unat n"
proof -
  have "unat h < unat n" using assms by simp
  then have "unat (h + 1) = unat h + 1"
    using u32_less [of n] by (simp add: unat_word_ariths)
  with assms show ?thesis by (simp add: unat_mod mod_Suc_eq)
qed

lemma sequential_frame:
  assumes "baton_start b"
  shows "nof_worker_sync (fst (sequential found len t0 b k)) = nof_worker_sync b"
    and "unat (bt_id_holder (fst (sequential found len t0 b k))) = k mod unat (nof_worker_sync b)"
    and "bt_chunk_time_end_64 (fst (sequential found len t0 b k)) =
      (case k of 0 \<Rightarrow> undefined_late | Suc i \<Rightarrow> chunk_at len t0 i + (len - 1))"
proof -
  have "nof_worker_sync (fst (sequential found len t0 b k)) = nof_worker_sync b \<and>
    unat (bt_id_holder (fst (sequential found len t0 b k))) = k mod unat (nof_worker_sync b) \<and>
    bt_chunk_time_end_64 (fst (sequential found len t0 b k)) =
      (case k of 0 \<Rightarrow> undefined_late | Suc i \<Rightarrow> chunk_at len t0 i + (len - 1))"
  proof (induction k)
    case 0
    then show ?case using assms by (simp add: baton_start_def)
  next
    case (Suc k)
    define bj where "bj = enqueue_regular (chunk_at len t0 k + (len - 1))
      (fold enqueue_job_nto (fst (found (chunk_at len t0 k))) (sequential found len t0 b k))"
    have "same_frame (fst (sequential found len t0 b k)) (fst bj)"
      unfolding bj_def by (rule same_frame_trans [OF fold_enqueue_frame enqueue_regular_frame])
    moreover have "sequential found len t0 b (Suc k) =
        ((fst bj)\<lparr>bt_chunk_time_end_64 := chunk_at len t0 k + (len - 1),
           bt_id_holder := (bt_id_holder (fst bj) + 1) mod nof_worker_sync (fst bj)\<rparr>, snd bj)"
      by (simp add: one_chunk_def bj_def chunk_at_def split_beta)
    ultimately show ?case
      using Suc.IH next_holder assms by (simp add: same_frame_def baton_start_def)
  qed
  then show "nof_worker_sync (fst (sequential found len t0 b k)) = nof_worker_sync b"
    and "unat (bt_id_holder (fst (sequential found len t0 b k))) = k mod unat (nof_worker_sync b)"
    and "bt_chunk_time_end_64 (fst (sequential found len t0 b k)) =
      (case k of 0 \<Rightarrow> undefined_late | Suc i \<Rightarrow> chunk_at len t0 i + (len - 1))" by auto
qed

subsection \<open>Invariant\<close>

fun result_list :: "int option \<Rightarrow> int list" where
  "result_list None = []"
| "result_list (Some t) = [t]"

text \<open>A worker on its way through chunk \<open>i\<close>, or at the end of the chunk before.\<close>

fun worker_ok :: "(int \<Rightarrow> int list \<times> bool) \<Rightarrow> int \<Rightarrow> int \<Rightarrow> nat \<Rightarrow> nat \<Rightarrow> sync_phase \<Rightarrow> sync_chunk \<Rightarrow> bool" where
  "worker_ok found len t0 n i (Searching buf) c \<longleftrightarrow>
     buf = [] \<and> sc_done c \<and> sc_start c + len * int n = chunk_at len t0 i \<or>
     \<not> sc_done c \<and> sc_start c = chunk_at len t0 i \<and> buf @ sc_rest c = fst (found (chunk_at len t0 i))"
| "worker_ok found len t0 n i (Awaiting buf r) c \<longleftrightarrow>
     sc_start c = chunk_at len t0 i \<and> (r = None \<longrightarrow> sc_done c) \<and> (sc_done c \<longrightarrow> sc_rest c = []) \<and>
     buf @ result_list r @ sc_rest c = fst (found (chunk_at len t0 i))"
| "worker_ok found len t0 n i (Enqueuing buf r) c \<longleftrightarrow>
     sc_start c = chunk_at len t0 i \<and> (r = None \<longrightarrow> sc_done c) \<and> (sc_done c \<longrightarrow> sc_rest c = [])"
| "worker_ok found len t0 n i Handing_over c \<longleftrightarrow> sc_start c = chunk_at len t0 i \<and> sc_done c"
| "worker_ok found len t0 n i Passing c \<longleftrightarrow> sc_start c = chunk_at len t0 i \<and> sc_done c"

fun needs_baton :: "sync_phase \<Rightarrow> bool" where
  "needs_baton (Searching buf) = False"
| "needs_baton (Awaiting buf r) = False"
| "needs_baton ph = True"

text \<open>How far the holder of the baton has come with chunk \<open>k\<close>; \<open>bj\<close> are the baton and the jobs.\<close>

fun jobs_ok ::
    "(int \<Rightarrow> int list \<times> bool) \<Rightarrow> int \<Rightarrow> int \<Rightarrow> baton_t \<Rightarrow> nat \<Rightarrow> sync_phase \<Rightarrow> sync_chunk \<Rightarrow>
     baton_t \<times> int job_content list \<Rightarrow> bool" where
  "jobs_ok found len t0 b k (Enqueuing buf r) c bj \<longleftrightarrow>
     (\<exists>pre. pre @ buf @ result_list r @ sc_rest c = fst (found (chunk_at len t0 k)) \<and>
        bj = fold enqueue_job_nto pre (sequential found len t0 b k))"
| "jobs_ok found len t0 b k Handing_over c bj \<longleftrightarrow>
     bj = fold enqueue_job_nto (fst (found (chunk_at len t0 k))) (sequential found len t0 b k)"
| "jobs_ok found len t0 b k Passing c bj \<longleftrightarrow>
     ((fst bj)\<lparr>bt_id_holder := (bt_id_holder (fst bj) + 1) mod nof_worker_sync (fst bj)\<rparr>, snd bj) =
       sequential found len t0 b (Suc k)"
| "jobs_ok found len t0 b k ph c bj \<longleftrightarrow> bj = sequential found len t0 b k"

text \<open>A worker that is lost for chunk \<open>i\<close>: the last packet was found with the last samples of the
chunk and buffered, so that the next search goes, or has gone, to a later chunk.\<close>

fun gone :: "(int \<Rightarrow> int list \<times> bool) \<Rightarrow> int \<Rightarrow> int \<Rightarrow> nat \<Rightarrow> sync_phase \<Rightarrow> sync_chunk \<Rightarrow> bool" where
  "gone found len t0 i (Searching buf) c \<longleftrightarrow> 0 < i \<and> snd (found (chunk_at len t0 i)) \<and>
     (buf \<noteq> [] \<and> sc_done c \<and> sc_start c = chunk_at len t0 i \<or> chunk_at len t0 i < sc_start c)"
| "gone found len t0 i Passing c \<longleftrightarrow> False"
| "gone found len t0 i Handing_over c \<longleftrightarrow> 0 < i \<and> snd (found (chunk_at len t0 i)) \<and> chunk_at len t0 i < sc_start c"
| "gone found len t0 i (Awaiting buf r) c \<longleftrightarrow> 0 < i \<and> snd (found (chunk_at len t0 i)) \<and> chunk_at len t0 i < sc_start c \<and>
     (r = None \<longrightarrow> sc_done c) \<and> (sc_done c \<longrightarrow> sc_rest c = [])"
| "gone found len t0 i (Enqueuing buf r) c \<longleftrightarrow> 0 < i \<and> snd (found (chunk_at len t0 i)) \<and> chunk_at len t0 i < sc_start c \<and>
     (r = None \<longrightarrow> sc_done c) \<and> (sc_done c \<longrightarrow> sc_rest c = [])"

text \<open>The jobs when a lost worker holds the baton.\<close>

definition lost_ok ::
    "(int \<Rightarrow> int list \<times> bool) \<Rightarrow> int \<Rightarrow> int \<Rightarrow> baton_t \<Rightarrow> nat \<Rightarrow> sync_phase \<Rightarrow> baton_t \<times> int job_content list \<Rightarrow> bool" where
  "lost_ok found len t0 b k ph bj \<longleftrightarrow>
     (if needs_baton ph
      then prefix (snd (sequential found len t0 b k)) (snd bj) \<and>
        bt_chunk_time_end_64 (fst bj) = bt_chunk_time_end_64 (fst (sequential found len t0 b k))
      else bj = sequential found len t0 b k)"

definition place ::
    "(int \<Rightarrow> int list \<times> bool) \<Rightarrow> int \<Rightarrow> int \<Rightarrow> baton_t \<Rightarrow> nat \<Rightarrow> nat \<Rightarrow> sync_phase \<Rightarrow> sync_chunk \<Rightarrow>
     baton_t \<times> int job_content list \<Rightarrow> bool" where
  "place found len t0 b k i ph c bj \<longleftrightarrow>
     worker_ok found len t0 (unat (nof_worker_sync b)) i ph c \<and> (i = k \<longrightarrow> jobs_ok found len t0 b k ph c bj) \<or>
     gone found len t0 i ph c \<and> (i = k \<longrightarrow> lost_ok found len t0 b k ph bj)"

definition sync_inv ::
    "(int \<Rightarrow> int list \<times> bool) \<Rightarrow> int \<Rightarrow> int \<Rightarrow> baton_t \<Rightarrow> nat \<Rightarrow> (nat \<Rightarrow> nat) \<Rightarrow> sync_state \<Rightarrow> bool" where
  "sync_inv found len t0 b k idx s \<longleftrightarrow>
     (let n = unat (nof_worker_sync b) in
      nof_worker_sync (ss_baton s) = nof_worker_sync b \<and> unat (bt_id_holder (ss_baton s)) = k mod n \<and>
      (\<forall>w<n. idx w mod n = w \<and> k \<le> idx w \<and> idx w < k + n \<and> (needs_baton (ss_phase s w) \<longrightarrow> idx w = k) \<and>
         place found len t0 b k (idx w) (ss_phase s w) (ss_chunk s w) (own_part (ss_baton s, ss_jobs s))))"

lemma lost_ok_quiet [simp]: "\<not> needs_baton ph \<Longrightarrow> lost_ok found len t0 b k ph bj \<longleftrightarrow> bj = sequential found len t0 b k"
  by (simp add: lost_ok_def)

lemma jobs_ok_quiet [simp]: "\<not> needs_baton ph \<Longrightarrow> jobs_ok found len t0 b k ph c bj \<longleftrightarrow> bj = sequential found len t0 b k"
  by (cases ph) simp_all

lemma own_index:
  fixes i k n w :: nat
  assumes "i mod n = w" "k \<le> i" "i < k + n"
  shows "w = k mod n \<longleftrightarrow> i = k"
proof
  assume "w = k mod n"
  with assms(1) have "i mod n = k mod n" by simp
  with assms(2) have "n dvd i - k" using mod_eq_dvd_iff_nat by blast
  moreover have "i - k < n" using assms(2,3) by linarith
  ultimately have "i - k = 0" by (meson dvd_imp_le linorder_not_le not_gr_zero)
  with assms(2) show "i = k" by simp
qed (use assms in simp)

lemma of_nat_holder:
  assumes "w < unat (n :: u32)" "unat (h :: u32) = k mod unat n"
  shows "of_nat w = h \<longleftrightarrow> w = k mod unat n"
proof -
  have "w < 2 ^ 32" using assms(1) u32_less [of n] by simp
  then have "unat (of_nat w :: u32) = w" by (simp add: unsigned_of_nat take_bit_nat_eq_self_iff)
  with assms(2) show ?thesis by (metis unsigned_of_nat word_unat_eq_iff)
qed

subsection \<open>Preservation\<close>

lemma sync_inv_update:
  assumes inv0: "sync_inv found len t0 b k idx s" and w: "w < unat (nof_worker_sync b)"
    and ok: "place found len t0 b k (idx w) ph c (own_part bj)"
    and ph: "needs_baton ph \<Longrightarrow> idx w = k"
    and frame: "nof_worker_sync (fst bj) = nof_worker_sync (ss_baton s)"
      "bt_id_holder (fst bj) = bt_id_holder (ss_baton s)"
    and jobs: "idx w \<noteq> k \<Longrightarrow> own_part bj = own_part (ss_baton s, ss_jobs s)"
  shows "sync_inv found len t0 b k idx (set_phase w ph c (set_jobs bj s))"
proof -
  define n where "n = unat (nof_worker_sync b)"
  have base: "nof_worker_sync (ss_baton s) = nof_worker_sync b" "unat (bt_id_holder (ss_baton s)) = k mod n"
    "\<And>v. v < n \<Longrightarrow> idx v mod n = v \<and> k \<le> idx v \<and> idx v < k + n \<and> (needs_baton (ss_phase s v) \<longrightarrow> idx v = k) \<and>
       place found len t0 b k (idx v) (ss_phase s v) (ss_chunk s v) (own_part (ss_baton s, ss_jobs s))"
    using inv0 by (simp_all add: sync_inv_def Let_def n_def)
  define s' where "s' = set_phase w ph c (set_jobs bj s)"
  have s': "ss_baton s' = fst bj" "ss_jobs s' = snd bj" "ss_phase s' v = (if v = w then ph else ss_phase s v)"
    "ss_chunk s' v = (if v = w then c else ss_chunk s v)" for v
    by (simp_all add: s'_def set_phase_def set_jobs_def)
  have "idx v mod n = v \<and> k \<le> idx v \<and> idx v < k + n \<and> (needs_baton (ss_phase s' v) \<longrightarrow> idx v = k) \<and>
      place found len t0 b k (idx v) (ss_phase s' v) (ss_chunk s' v) (own_part bj)" if v: "v < n" for v
  proof (cases "v = w")
    case False
    then have "idx v = k \<Longrightarrow> idx w \<noteq> k" using base(3) [OF v] base(3) [of w] w by (metis n_def)
    then show ?thesis using base(3) [OF v] jobs False by (auto simp: s' place_def)
  qed (use base(3) [OF v] ok ph in \<open>simp add: s'\<close>)
  then show ?thesis
    using base(1,2) frame by (simp add: sync_inv_def Let_def n_def flip: s'_def) (simp add: s')
qed

lemma set_jobs_same [simp]: "set_jobs (ss_baton s, ss_jobs s) s = s"
  by (simp add: set_jobs_def)

lemma sync_invD:
  assumes "sync_inv found len t0 b k idx s" "w < unat (nof_worker_sync b)"
  shows "nof_worker_sync (ss_baton s) = nof_worker_sync b"
    "unat (bt_id_holder (ss_baton s)) = k mod unat (nof_worker_sync b)"
    "place found len t0 b k (idx w) (ss_phase s w) (ss_chunk s w) (own_part (ss_baton s, ss_jobs s))"
    "needs_baton (ss_phase s w) \<Longrightarrow> idx w = k"
    "w = k mod unat (nof_worker_sync b) \<longleftrightarrow> idx w = k"
    "of_nat w = bt_id_holder (ss_baton s) \<longleftrightarrow> idx w = k"
    "k \<le> idx w"
proof -
  have *: "nof_worker_sync (ss_baton s) = nof_worker_sync b"
    "unat (bt_id_holder (ss_baton s)) = k mod unat (nof_worker_sync b)"
    "idx w mod unat (nof_worker_sync b) = w" "k \<le> idx w" "idx w < k + unat (nof_worker_sync b)"
    "place found len t0 b k (idx w) (ss_phase s w) (ss_chunk s w) (own_part (ss_baton s, ss_jobs s))"
    "needs_baton (ss_phase s w) \<Longrightarrow> idx w = k"
    using assms by (simp_all add: sync_inv_def Let_def)
  show "nof_worker_sync (ss_baton s) = nof_worker_sync b"
    "unat (bt_id_holder (ss_baton s)) = k mod unat (nof_worker_sync b)"
    "place found len t0 b k (idx w) (ss_phase s w) (ss_chunk s w) (own_part (ss_baton s, ss_jobs s))"
    "needs_baton (ss_phase s w) \<Longrightarrow> idx w = k" "k \<le> idx w"
    by (fact *(1) *(2) *(6) *(7) *(4))+
  show hold: "w = k mod unat (nof_worker_sync b) \<longleftrightarrow> idx w = k" by (rule own_index [OF *(3-5)])
  show "of_nat w = bt_id_holder (ss_baton s) \<longleftrightarrow> idx w = k"
    using of_nat_holder [OF assms(2) *(2)] hold by simp
qed

text \<open>A search on a chunk that is not completely processed.\<close>

lemma chunk_resultD:
  assumes "chunk_result found c = (r, c')"
  shows "sc_start c' = sc_start c" "sc_rest c = result_list r @ sc_rest c'" "r = None \<longrightarrow> sc_done c'"
    "sc_done c' \<longrightarrow> sc_rest c' = []" "sc_done c' \<and> r \<noteq> None \<longrightarrow> snd (found (sc_start c))"
  using assms by (auto simp: chunk_result_def split: list.splits)

lemma chunk_search_cases:
  obtains (late) "sc_done c" "\<not> assert_time_lag pc now_64 (get_chunk_time_end len c)"
      "chunk_search pc found len stride now_64 c = Inl Assertion_failed"
  | (found) r c' where "chunk_search pc found len stride now_64 c = Inr (r, c')"
      "chunk_result found (if sc_done c then enter_chunk found (sc_start c + stride) else c) = (r, c')"
      "sc_done c \<Longrightarrow> assert_time_lag pc now_64 (get_chunk_time_end len c)"
proof (cases "sc_done c \<and> \<not> assert_time_lag pc now_64 (get_chunk_time_end len c)")
  case True
  then show thesis by (intro late) (simp_all add: chunk_search_def set_next_chunk_def)
next
  case False
  obtain r c' where "chunk_result found (if sc_done c then enter_chunk found (sc_start c + stride) else c) = (r, c')"
    by fastforce
  with False show thesis by (intro found [of r c']) (auto simp: chunk_search_def set_next_chunk_def)
qed

lemma searching_ok:
  assumes "worker_ok found len t0 n i (Searching buf) c"
    and "chunk_result found (if sc_done c then enter_chunk found (sc_start c + len * int n) else c) = (r, c')"
  shows "worker_ok found len t0 n i (Awaiting buf r) c'"
    and "sc_done c' \<and> r \<noteq> None \<longrightarrow> snd (found (chunk_at len t0 i))"
proof -
  define c1 where "c1 = (if sc_done c then enter_chunk found (sc_start c + len * int n) else c)"
  have c1: "sc_start c1 = chunk_at len t0 i" "buf @ sc_rest c1 = fst (found (chunk_at len t0 i))"
    using assms(1) by (auto simp: c1_def enter_chunk_def)
  note D = chunk_resultD [OF assms(2) [folded c1_def]]
  show "worker_ok found len t0 n i (Awaiting buf r) c'" using D(1-4) c1 by simp
  show "sc_done c' \<and> r \<noteq> None \<longrightarrow> snd (found (chunk_at len t0 i))" using D(5) c1(1) by simp
qed

lemma searching_gone:
  assumes "gone found len t0 i (Searching buf) c" "0 < stride"
    and "chunk_result found (if sc_done c then enter_chunk found (sc_start c + stride) else c) = (r, c')"
  shows "gone found len t0 i (Awaiting buf r) c'"
  using assms(1,2) chunk_resultD [OF assms(3)] by (auto simp: enter_chunk_def)

text \<open>How a step may fail: the search is late, or a lost worker hands its chunk over.\<close>

definition allowed_failure :: "rx_pacer \<Rightarrow> int \<Rightarrow> int \<Rightarrow> nat \<Rightarrow> nat \<Rightarrow> sync_action \<Rightarrow> sync_state \<Rightarrow> bool" where
  "allowed_failure pc len t0 n k a s \<longleftrightarrow>
     (\<exists>v now_64. a = Search v now_64 \<and> \<not> assert_time_lag pc now_64 (get_chunk_time_end len (ss_chunk s v))) \<or>
     a = Hand_over (k mod n) \<and> chunk_at len t0 k < sc_start (ss_chunk s (k mod n))"

text \<open>What a step does: it keeps the invariant, for the same chunk or for the next one, or fails in
one of these two ways. A worker goes to a later chunk only when it passes the baton on.\<close>

definition step_ok ::
    "rx_pacer \<Rightarrow> (int \<Rightarrow> int list \<times> bool) \<Rightarrow> int \<Rightarrow> int \<Rightarrow> baton_t \<Rightarrow> nat \<Rightarrow> (nat \<Rightarrow> nat) \<Rightarrow> sync_action \<Rightarrow>
     sync_state \<Rightarrow> sync_state res option \<Rightarrow> bool" where
  "step_ok pc found len t0 b k idx a s r \<longleftrightarrow>
     (case r of
        None \<Rightarrow> True
      | Some (Inl e) \<Rightarrow> e = Assertion_failed \<and> allowed_failure pc len t0 (unat (nof_worker_sync b)) k a s
      | Some (Inr s') \<Rightarrow> \<exists>k' idx'. sync_inv found len t0 b k' idx' s' \<and> (\<forall>v. a \<noteq> Pass v \<longrightarrow> idx' v = idx v))"

lemma step_ok_kept:
  "sync_inv found len t0 b k idx s' \<Longrightarrow> step_ok pc found len t0 b k idx a s (Some (Inr s'))"
  by (auto simp: step_ok_def)

lemma step_ok_blocked [simp]: "step_ok pc found len t0 b k idx a s None"
  by (simp add: step_ok_def)

lemma search_ok:
  assumes inv0: "sync_inv found len t0 b k idx s" and w: "w < unat (nof_worker_sync b)" and len: "0 < len"
  shows "step_ok pc found len t0 b k idx (Search w now_64) s
    (exec_sync pc found len (len * int (unat (nof_worker_sync b))) (Search w now_64) s)"
proof (cases "ss_phase s w")
  case (Searching buf)
  define n where "n = unat (nof_worker_sync b)"
  define bj where "bj = own_part (ss_baton s, ss_jobs s)"
  note I = sync_invD [OF inv0 w]
  have "0 < n" using w by (simp add: n_def)
  with len have stride: "0 < len * int n" by simp
  show ?thesis
  proof (cases rule: chunk_search_cases [of "ss_chunk s w" pc now_64 len found "len * int n"])
    case late
    then show ?thesis using Searching by (auto simp: step_ok_def allowed_failure_def n_def)
  next
    case (found r c)
    define ph where "ph = after_search w buf r s"
    have ph: "ph = Awaiting buf r \<or> (\<exists>t. r = Some t \<and> idx w \<noteq> k \<and> ph = Searching (buf @ [t]))"
      using I(6) by (auto simp: ph_def after_search_def is_id_holder_the_same_def split: option.splits)
    then have nb: "\<not> needs_baton ph" by auto
    have old: "worker_ok found len t0 n (idx w) (Searching buf) (ss_chunk s w) \<or>
        gone found len t0 (idx w) (Searching buf) (ss_chunk s w)" "idx w = k \<longrightarrow> bj = sequential found len t0 b k"
      using I(3) Searching by (auto simp: place_def n_def bj_def)
    have "worker_ok found len t0 n (idx w) ph c \<or> gone found len t0 (idx w) ph c"
      using old(1)
    proof
      assume ok: "worker_ok found len t0 n (idx w) (Searching buf) (ss_chunk s w)"
      from ph searching_ok [OF ok found(2)] show ?thesis
        using I(7) by (cases "sc_done c") auto
    next
      assume lost: "gone found len t0 (idx w) (Searching buf) (ss_chunk s w)"
      from ph searching_gone [OF lost stride found(2)] show ?thesis by auto
    qed
    then have "place found len t0 b k (idx w) ph c bj" using old(2) nb by (simp add: place_def n_def)
    then have "sync_inv found len t0 b k idx (set_phase w ph c (set_jobs (ss_baton s, ss_jobs s) s))"
      by (intro sync_inv_update [OF inv0 w]) (use nb in \<open>simp_all add: bj_def\<close>)
    then show ?thesis using found(1) Searching by (simp add: step_ok_kept n_def ph_def)
  qed
qed simp_all

lemma acquire_ok:
  assumes inv0: "sync_inv found len t0 b k idx s" and w: "w < unat (nof_worker_sync b)"
  shows "step_ok pc found len t0 b k idx (Acquire w) s (exec_sync pc found len stride (Acquire w) s)"
proof (cases "ss_phase s w")
  case (Awaiting buf r)
  note I = sync_invD [OF inv0 w]
  show ?thesis
  proof (cases "wait_to (of_nat w) (ss_baton s)")
    case True
    then have hold: "idx w = k" using I(6) by (auto simp: wait_to_def)
    have "place found len t0 b k k (Enqueuing buf r) (ss_chunk s w) (own_part (ss_baton s, ss_jobs s))"
      using I(3) Awaiting hold by (auto simp: place_def lost_ok_def intro!: exI [of _ "[]"])
    then have "sync_inv found len t0 b k idx (set_phase w (Enqueuing buf r) (ss_chunk s w)
        (set_jobs (ss_baton s, ss_jobs s) s))"
      by (intro sync_inv_update [OF inv0 w]) (simp_all add: hold)
    then show ?thesis using True Awaiting by (simp add: step_ok_kept)
  qed (use Awaiting in simp)
qed simp_all

text \<open>Enqueuing one packet keeps what is known of the holder.\<close>

lemma place_enqueue:
  assumes "place found len t0 b k k (Enqueuing buf r) c bj"
    and "buf @ result_list r @ sc_rest c = t # buf' @ result_list r' @ sc_rest c'"
    and "sc_start c' = sc_start c" "r' = None \<longrightarrow> sc_done c'" "sc_done c' \<longrightarrow> sc_rest c' = []"
  shows "place found len t0 b k k (Enqueuing buf' r') c' (enqueue_job_nto t bj)"
proof -
  have 1: "jobs_ok found len t0 b k (Enqueuing buf' r') c' (enqueue_job_nto t bj)"
    if "jobs_ok found len t0 b k (Enqueuing buf r) c bj"
  proof -
    from that obtain pre where "pre @ buf @ result_list r @ sc_rest c = fst (found (chunk_at len t0 k))"
      "bj = fold enqueue_job_nto pre (sequential found len t0 b k)" by auto
    then show ?thesis using assms(2) by (auto intro!: exI [of _ "pre @ [t]"])
  qed
  have 2: "lost_ok found len t0 b k (Enqueuing buf' r') (enqueue_job_nto t bj)"
    if "lost_ok found len t0 b k (Enqueuing buf r) bj"
  proof -
    have "prefix (snd bj) (snd (enqueue_job_nto t bj))"
      by (cases bj) (simp add: enqueue_job_nto_def is_sync_time_unique_def)
    with that enqueue_job_frame [of bj t] show ?thesis
      by (auto simp: lost_ok_def same_frame_def elim: prefix_order.trans)
  qed
  from assms 1 2 show ?thesis by (auto simp: place_def simp del: jobs_ok.simps)
qed

lemma place_done:
  "place found len t0 b k k (Enqueuing [] None) c bj \<Longrightarrow> place found len t0 b k k Handing_over c bj"
  by (auto simp: place_def lost_ok_def)

lemma enqueue_next_ok:
  assumes inv0: "sync_inv found len t0 b k idx s" and w: "w < unat (nof_worker_sync b)"
  shows "step_ok pc found len t0 b k idx (Enqueue_next w now_64) s
    (exec_sync pc found len stride (Enqueue_next w now_64) s)"
proof (cases "ss_phase s w")
  case (Enqueuing buf r)
  define raw where "raw = (ss_baton s, ss_jobs s)"
  define c where "c = ss_chunk s w"
  note I = sync_invD [OF inv0 w]
  have hold: "idx w = k" using I(4) Enqueuing by auto
  have place0: "place found len t0 b k k (Enqueuing buf r) c (own_part raw)"
    using I(3) Enqueuing hold by (simp add: raw_def c_def)
  have c: "r = None \<longrightarrow> sc_done c" "sc_done c \<longrightarrow> sc_rest c = []" using place0 by (auto simp: place_def)
  have keep: "sync_inv found len t0 b k idx (set_phase w ph c' (set_jobs raw' s))"
    if "place found len t0 b k k ph c' (own_part raw')" "same_frame (fst raw) (fst raw')" for ph c' raw'
    by (rule sync_inv_update [OF inv0 w]) (use that hold in \<open>simp_all add: same_frame_def raw_def\<close>)
  have enqueued: "sync_inv found len t0 b k idx (set_phase w (Enqueuing buf' r') c' (set_jobs (enqueue_job_nto t raw) s))"
    if "buf @ result_list r @ sc_rest c = t # buf' @ result_list r' @ sc_rest c'" "sc_start c' = sc_start c"
      "r' = None \<longrightarrow> sc_done c'" "sc_done c' \<longrightarrow> sc_rest c' = []" for t buf' r' c'
    using keep [OF place_enqueue [OF place0 that, folded own_enqueue_job] enqueue_job_frame] .
  show ?thesis
  proof (cases buf)
    case (Cons t buf')
    with enqueued [of t buf' r c] c show ?thesis using Enqueuing by (simp add: step_ok_kept raw_def c_def)
  next
    case Nil
    show ?thesis
    proof (cases "sc_done c")
      case True
      define raw' where "raw' = (case r of None \<Rightarrow> raw | Some t \<Rightarrow> enqueue_job_nto t raw)"
      have "place found len t0 b k k (Enqueuing [] None) c (own_part raw')"
        using place0 place_enqueue [OF place0, of _ "[]" None c] Nil True c
        by (cases r) (simp_all add: raw'_def own_enqueue_job)
      moreover have "same_frame (fst raw) (fst raw')"
        using enqueue_job_frame by (simp add: raw'_def split: option.splits)
      ultimately have "sync_inv found len t0 b k idx (set_phase w Handing_over c (set_jobs raw' s))"
        by (rule keep [OF place_done])
      then show ?thesis
        using Enqueuing Nil True by (cases r) (simp_all add: step_ok_kept raw_def raw'_def c_def)
    next
      case False
      with c(1) obtain t where r: "r = Some t" by auto
      obtain r' c' where found: "chunk_search pc found len stride now_64 c = Inr (r', c')" "chunk_result found c = (r', c')"
        using False by (cases rule: chunk_search_cases [of c pc now_64 len found stride]) auto
      note D = chunk_resultD [OF found(2)]
      from enqueued [of t "[]" r' c'] D show ?thesis
        using Enqueuing Nil False r found(1) by (simp add: step_ok_kept raw_def c_def)
    qed
  qed
qed simp_all

lemma hand_over_ok:
  assumes inv0: "sync_inv found len t0 b k idx s" and w: "w < unat (nof_worker_sync b)" and b: "baton_start b"
    and "0 < len" "sc_start (ss_chunk s w) \<le> undefined_late"
  shows "step_ok pc found len t0 b k idx (Hand_over w) s (exec_sync pc found len stride (Hand_over w) s)"
    and "ss_phase s w = Handing_over \<Longrightarrow> chunk_at len t0 k < sc_start (ss_chunk s w) \<Longrightarrow>
      exec_sync pc found len stride (Hand_over w) s = Some (Inl Assertion_failed)"
proof -
  define n where "n = unat (nof_worker_sync b)"
  define c where "c = ss_chunk s w"
  define chunk_end where "chunk_end = get_chunk_time_end len c"
  note I = sync_invD [OF inv0 w]
  obtain b' jobs where reg: "enqueue_regular chunk_end (ss_baton s, ss_jobs s) = (b', jobs)" by fastforce
  have frame: "same_frame (ss_baton s) b'"
    using enqueue_regular_frame [of "(ss_baton s, ss_jobs s)" chunk_end] by (simp add: reg)
  have own: "enqueue_regular chunk_end (own_part (ss_baton s, ss_jobs s)) = own_part (b', jobs)"
    using own_enqueue_regular [of chunk_end "(ss_baton s, ss_jobs s)"] reg by simp
  have run: "exec_sync pc found len stride (Hand_over w) s = Some (assertE
      (bt_chunk_time_end_64 b' < undefined_late \<longrightarrow> sc_start c - bt_chunk_time_end_64 b' = 1)
      (Inr (set_phase w Passing c (set_jobs (b'\<lparr>bt_chunk_time_end_64 := chunk_end\<rparr>, jobs) s))))"
    if "ss_phase s w = Handing_over"
    using that reg by (simp add: c_def chunk_end_def)
  have hold: "idx w = k" "w = k mod n" if "ss_phase s w = Handing_over" using I(4,5) that by (auto simp: n_def)
  have time_end: "bt_chunk_time_end_64 b' = (case k of 0 \<Rightarrow> undefined_late | Suc i \<Rightarrow> chunk_at len t0 i + (len - 1))"
    if "bt_chunk_time_end_64 (ss_baton s) = bt_chunk_time_end_64 (fst (sequential found len t0 b k))"
    using that frame sequential_frame(3) [OF b, of found len t0 k] by (simp add: same_frame_def)
  have aborts: "exec_sync pc found len stride (Hand_over w) s = Some (Inl Assertion_failed)"
    if ph: "ss_phase s w = Handing_over" and late: "chunk_at len t0 k < sc_start c"
  proof -
    have "gone found len t0 k Handing_over c \<and> lost_ok found len t0 b k Handing_over (own_part (ss_baton s, ss_jobs s))"
      using I(3) ph hold(1) late by (auto simp: place_def c_def)
    then obtain i where "k = Suc i" "bt_chunk_time_end_64 b' = chunk_at len t0 i + (len - 1)"
      using time_end by (cases k) (auto simp: lost_ok_def own_part_def)
    moreover have "chunk_at len t0 (Suc i) = chunk_at len t0 i + len" for i by (simp add: chunk_at_def algebra_simps)
    ultimately show ?thesis using run [OF ph] late assms(4,5) by (simp add: c_def)
  qed
  then show "ss_phase s w = Handing_over \<Longrightarrow> chunk_at len t0 k < sc_start (ss_chunk s w) \<Longrightarrow>
      exec_sync pc found len stride (Hand_over w) s = Some (Inl Assertion_failed)" by (simp add: c_def)
  show "step_ok pc found len t0 b k idx (Hand_over w) s (exec_sync pc found len stride (Hand_over w) s)"
  proof (cases "ss_phase s w")
    case Handing_over
    note ph = Handing_over
    show ?thesis
    proof (cases "chunk_at len t0 k < sc_start c")
      case True
      then show ?thesis using aborts [OF ph True] hold(2) [OF ph]
        by (auto simp: step_ok_def allowed_failure_def c_def n_def)
    next
      case False
      then have c: "sc_start c = chunk_at len t0 k" "sc_done c"
        and bj: "own_part (ss_baton s, ss_jobs s) =
          fold enqueue_job_nto (fst (found (chunk_at len t0 k))) (sequential found len t0 b k)"
        using I(3) ph hold(1) by (auto simp: place_def c_def)
      have "bt_chunk_time_end_64 (ss_baton s) = bt_chunk_time_end_64 (fst (sequential found len t0 b k))"
        using fold_enqueue_frame [of "sequential found len t0 b k"] bj by (metis fst_conv own_part_def same_frame_def)
      from time_end [OF this]
      have "bt_chunk_time_end_64 b' < undefined_late \<longrightarrow> sc_start c - bt_chunk_time_end_64 b' = 1"
        by (cases k) (simp_all add: c chunk_at_def algebra_simps)
      then have run': "exec_sync pc found len stride (Hand_over w) s =
          Some (Inr (set_phase w Passing c (set_jobs (b'\<lparr>bt_chunk_time_end_64 := chunk_end\<rparr>, jobs) s)))"
        using run [OF ph] by simp
      have "jobs_ok found len t0 b k Passing c (own_part (b'\<lparr>bt_chunk_time_end_64 := chunk_end\<rparr>, jobs))"
        using own bj [symmetric] by (simp add: one_chunk_def chunk_at_def chunk_end_def own_part_def get_chunk_time_end_def c(1))
      then have "place found len t0 b k k Passing c (own_part (b'\<lparr>bt_chunk_time_end_64 := chunk_end\<rparr>, jobs))"
        using c by (simp add: place_def)
      then have "sync_inv found len t0 b k idx
          (set_phase w Passing c (set_jobs (b'\<lparr>bt_chunk_time_end_64 := chunk_end\<rparr>, jobs) s))"
        by (intro sync_inv_update [OF inv0 w]) (use hold(1) [OF ph] frame in \<open>simp_all add: same_frame_def\<close>)
      then show ?thesis using run' by (simp add: step_ok_kept)
    qed
  qed simp_all
qed

lemma pass_ok:
  assumes inv0: "sync_inv found len t0 b k idx s" and w: "w < unat (nof_worker_sync b)" and b: "baton_start b"
  shows "step_ok pc found len t0 b k idx (Pass w) s (exec_sync pc found len stride (Pass w) s)"
proof (cases "ss_phase s w")
  case Passing
  define n where "n = unat (nof_worker_sync b)"
  have n: "0 < n" using b by (simp add: baton_start_def n_def)
  note I = sync_invD [OF inv0 w]
  have hold: "idx w = k" "w = k mod n" "of_nat w = bt_id_holder (ss_baton s)"
    using I(4-6) Passing by (auto simp: n_def)
  have wok: "sc_start (ss_chunk s w) = chunk_at len t0 k" "sc_done (ss_chunk s w)"
    using I(3) Passing hold(1) by (simp_all add: place_def)
  define b' where "b' = (ss_baton s)\<lparr>bt_id_holder := (bt_id_holder (ss_baton s) + 1) mod nof_worker_sync (ss_baton s)\<rparr>"
  have bj: "own_part (b', ss_jobs s) = sequential found len t0 b (Suc k)"
    using I(3) hold(1) Passing by (simp add: place_def b'_def own_part_def)
  define s' where "s' = set_phase w (Searching []) (ss_chunk s w) (set_jobs (b', ss_jobs s) s)"
  have run: "exec_sync pc found len stride (Pass w) s = Some (Inr s')"
    using Passing hold(3) by (simp add: pass_on_def is_id_holder_the_same_def s'_def b'_def)
  have s': "ss_baton s' = b'" "ss_jobs s' = ss_jobs s" "ss_phase s' v = (if v = w then Searching [] else ss_phase s v)"
    "ss_chunk s' v = ss_chunk s v" for v
    by (simp_all add: s'_def set_phase_def set_jobs_def)
  have frame: "nof_worker_sync b' = nof_worker_sync b" "unat (bt_id_holder b') = Suc k mod n"
    using sequential_frame(1,2) [OF b, of found len t0 "Suc k"] bj by (metis fst_conv own_part_def, metis fst_conv own_part_def n_def)
  have "(idx(w := k + n)) v mod n = v \<and> Suc k \<le> (idx(w := k + n)) v \<and> (idx(w := k + n)) v < Suc k + n \<and>
      (needs_baton (ss_phase s' v) \<longrightarrow> (idx(w := k + n)) v = Suc k) \<and>
      place found len t0 b (Suc k) ((idx(w := k + n)) v) (ss_phase s' v) (ss_chunk s' v) (own_part (b', ss_jobs s))"
    if "v < n" for v
  proof (cases "v = w")
    case True
    then show ?thesis using wok hold n bj by (simp add: s' chunk_at_add place_def n_def)
  next
    case False
    have v: "v < unat (nof_worker_sync b)" using that by (simp add: n_def)
    note J = sync_invD [OF inv0 v]
    have range: "idx v mod n = v" "k \<le> idx v" "idx v < k + n"
      using inv0 that by (simp_all add: sync_inv_def Let_def n_def)
    have "v \<noteq> k mod n" using False hold(2) by simp
    then have "idx v \<noteq> k" "\<not> needs_baton (ss_phase s v)" using J(4,5) by (auto simp: n_def)
    then show ?thesis using J(3) range False bj by (auto simp: s' place_def)
  qed
  then have "sync_inv found len t0 b (Suc k) (idx(w := k + n)) s'"
    using frame by (simp add: sync_inv_def Let_def s'(1,2) flip: n_def)
  then show ?thesis using run by (auto simp: step_ok_def intro!: exI [of _ "Suc k"] exI [of _ "idx(w := k + n)"])
qed simp_all

lemma callback_ok:
  assumes "sync_inv found len t0 b k idx s"
  shows "step_ok pc found len t0 b k idx (Callback w r) s (exec_sync pc found len stride (Callback w r) s)"
proof -
  have "sync_inv found len t0 b k idx (enqueue_callback w r s)"
    using assms by (simp add: enqueue_callback_def sync_inv_def set_jobs_def own_part_def own_jobs_def Let_def)
  then show ?thesis by (cases "ss_phase s w") (simp_all add: step_ok_kept)
qed

text \<open>All times fit into 64 bits.\<close>

definition representable :: "u32 \<Rightarrow> sync_state \<Rightarrow> bool" where
  "representable n s \<longleftrightarrow> (\<forall>w<unat n. sc_start (ss_chunk s w) \<le> undefined_late)"

lemma exec_sync_ok:
  assumes "sync_inv found len t0 b k idx s" "sync_worker_of a < unat (nof_worker_sync b)"
    and "baton_start b" "0 < len" "representable (nof_worker_sync b) s"
  shows "step_ok pc found len t0 b k idx a s (exec_sync pc found len (len * int (unat (nof_worker_sync b))) a s)"
  using assms search_ok acquire_ok enqueue_next_ok hand_over_ok(1) pass_ok callback_ok
  by (cases a) (auto simp: representable_def)

text \<open>At the start of the search no worker has to go to its second chunk.\<close>

definition chunks_tile :: "u32 \<Rightarrow> int \<Rightarrow> int \<Rightarrow> bool" where
  "chunks_tile n len t0 \<longleftrightarrow> 0 < unat n \<and> 0 < len \<and> 0 \<le> t0 \<and> t0 mod (len * int (unat n)) = 0"

lemma first_chunk_tile:
  assumes "chunks_tile (nof_worker_sync b) len (search_time_start_64 pc)"
  shows "first_chunk pc found len b now_64 w = Inr (enter_chunk found (chunk_at len (search_time_start_64 pc) w))"
proof -
  define n where "n = unat (nof_worker_sync b)"
  have n: "0 < n" "0 < len" using assms by (simp_all add: chunks_tile_def n_def)
  then have "0 < len * int n" by simp
  then have "search_time_start_64 pc smod (len * int n) = 0"
    using assms by (simp add: signed_modulo_int_def chunks_tile_def n_def)
  moreover have "\<not> len * int w + len \<le> 0"
  proof -
    have "0 \<le> len * int w" using n(2) by simp
    with n(2) show ?thesis by linarith
  qed
  ultimately show ?thesis
    by (simp add: first_chunk_def wait_for_first_chunk_nto_def chunk_at_def n_def Let_def enter_chunk_def)
qed

lemma start_ok:
  assumes b: "baton_start b" and tile: "chunks_tile (nof_worker_sync b) len (search_time_start_64 pc)"
  shows "sync_inv found len (search_time_start_64 pc) b 0 (\<lambda>w. w) (sync_start pc found len b now_64)"
proof -
  define n where "n = unat (nof_worker_sync b)"
  have n: "0 < n" using b by (simp add: baton_start_def n_def)
  show ?thesis
    using b n by (simp add: sync_inv_def Let_def sync_start_def first_chunk_tile [OF tile] enter_chunk_def baton_start_def
      own_part_def own_jobs_def place_def flip: n_def)
qed

text \<open>A step of another worker leaves a worker alone, and no worker goes back.\<close>

lemma exec_sync_chunks:
  assumes "exec_sync pc found len stride a s = Some (Inr s')" "0 \<le> stride"
  shows "v \<noteq> sync_worker_of a \<Longrightarrow> ss_phase s' v = ss_phase s v \<and> ss_chunk s' v = ss_chunk s v"
    and "sc_start (ss_chunk s v) \<le> sc_start (ss_chunk s' v)"
proof -
  have search: "sc_start c \<le> sc_start c'" if "chunk_search pc found len stride now_64 c = Inr (r, c')" for now_64 c r c'
    using that assms(2) chunk_resultD(1) by (cases rule: chunk_search_cases [of c pc now_64 len found stride])
      (fastforce simp: enter_chunk_def split: if_splits)+
  have "(v \<noteq> sync_worker_of a \<longrightarrow> ss_phase s' v = ss_phase s v \<and> ss_chunk s' v = ss_chunk s v) \<and>
    sc_start (ss_chunk s v) \<le> sc_start (ss_chunk s' v)"
    using assms(1)
    by (cases a) (auto simp: set_phase_def set_jobs_def enqueue_callback_def bindE_eq_Inr assertE_def pass_on_def Let_def
      split: sync_phase.splits sum.splits if_splits prod.splits list.splits option.splits dest: search)
  then show "v \<noteq> sync_worker_of a \<Longrightarrow> ss_phase s' v = ss_phase s v \<and> ss_chunk s' v = ss_chunk s v"
    and "sc_start (ss_chunk s v) \<le> sc_start (ss_chunk s' v)" by blast+
qed

subsection \<open>Jobs in order\<close>








text \<open>The sync times of the jobs, and that two packets are further apart than the limit.\<close>

fun sync_times :: "'s job_content list \<Rightarrow> 's list" where
  "sync_times [] = []"
| "sync_times (Sync t # js) = t # sync_times js"
| "sync_times (j # js) = sync_times js"

lemma sync_times_own: "sync_times (own_jobs js) = sync_times js"
  by (induction js rule: sync_times.induct) (auto simp: own_jobs_def)

lemma sync_times_append: "sync_times (xs @ ys) = sync_times xs @ sync_times ys"
  by (induction xs rule: sync_times.induct) auto

definition spaced :: "int \<Rightarrow> baton_t \<times> int job_content list \<Rightarrow> bool" where
  "spaced limit bj \<longleftrightarrow> sync_time_unique_limit_64 (fst bj) = limit \<and>
     successively (\<lambda>x y. limit < y - x) (sync_times (snd bj)) \<and>
     (sync_times (snd bj) \<noteq> [] \<longrightarrow> last (sync_times (snd bj)) = bt_sync_time_last_64 (fst bj))"

lemma spaced_enqueue: "spaced limit bj \<Longrightarrow> spaced limit (enqueue_job_nto t bj)"
  by (cases bj)
    (auto simp: spaced_def enqueue_job_nto_def is_sync_time_unique_def sync_times_append successively_append_iff)

lemma spaced_fold: "spaced limit bj \<Longrightarrow> spaced limit (fold enqueue_job_nto ts bj)"
proof (induction ts arbitrary: bj)
  case (Cons t ts)
  from Cons.IH [OF spaced_enqueue [OF Cons.prems]] show ?case by simp
qed simp






lemma sync_reachable_inv:
  assumes "sync_reachable pc found len b s" "baton_start b" "chunks_tile (nof_worker_sync b) len (search_time_start_64 pc)"
    and "representable (nof_worker_sync b) s"
  obtains k idx where "sync_inv found len (search_time_start_64 pc) b k idx s"
  using assms(1,4)
proof (induction arbitrary: thesis)
  case (start now_64)
  from start_ok [OF assms(2,3)] show ?case by (rule start.prems(1))
next
  case (step s a s')
  have len: "0 < len" using assms(3) by (simp add: chunks_tile_def)
  then have stride: "0 \<le> len * uint (nof_worker_sync b)" by simp
  have "representable (nof_worker_sync b) s"
    using step.prems(2) exec_sync_chunks(2) [OF step.hyps(3) stride] unfolding representable_def by (meson order_trans)
  then obtain k idx where "sync_inv found len (search_time_start_64 pc) b k idx s"
    "representable (nof_worker_sync b) s" by (metis step.IH)
  from exec_sync_ok [where pc = pc, OF this(1) step.hyps(2) assms(2) len this(2)] step.hyps(3) obtain k' idx' where
    "sync_inv found len (search_time_start_64 pc) b k' idx' s'" by (auto simp: step_ok_def)
  then show ?case by (rule step.prems(1))
qed


text \<open>Two workers, chunks of 100 samples, packets at 120, 260 and, seen by both, 300.\<close>

fun exec_syncs ::
    "rx_pacer \<Rightarrow> (int \<Rightarrow> int list \<times> bool) \<Rightarrow> int \<Rightarrow> int \<Rightarrow> sync_action list \<Rightarrow> sync_state \<Rightarrow> sync_state res option" where
  "exec_syncs pc found len stride [] s = Some (Inr s)"
| "exec_syncs pc found len stride (a # as) s = (case exec_sync pc found len stride a s of
     Some (Inr s') \<Rightarrow> exec_syncs pc found len stride as s'
   | r \<Rightarrow> r)"

lemma exec_syncs_Cons:
  "exec_syncs pc found len stride (a # as) s = Some (Inr s') \<longleftrightarrow>
     (\<exists>s1. exec_sync pc found len stride a s = Some (Inr s1) \<and> exec_syncs pc found len stride as s1 = Some (Inr s'))"
  by (auto split: option.splits sum.splits)




definition sample_pacer :: rx_pacer where
  "sample_pacer = \<lparr>samp_rate = 1728000, ant_streams_length_samples = 200, search_time_start_64 = 0\<rparr>"




lemma sample_tile: "chunks_tile 2 100 (search_time_start_64 sample_pacer)"
  by (simp add: chunks_tile_def sample_pacer_def)

lemma nof_sample_baton: "nof_worker_sync (baton_new 2 10 1) = 2"
  by (simp add: baton_new_def)





subsection \<open>A packet found with the last samples of a chunk\<close>

lemma exec_syncs_start_mono:
  assumes "exec_syncs pc found len stride as s = Some (Inr s')" "0 \<le> stride"
  shows "sc_start (ss_chunk s v) \<le> sc_start (ss_chunk s' v)"
  using assms(1)
proof (induction as arbitrary: s)
  case (Cons a as)
  then obtain s1 where "exec_sync pc found len stride a s = Some (Inr s1)" "exec_syncs pc found len stride as s1 = Some (Inr s')"
    unfolding exec_syncs_Cons by blast
  with Cons.IH exec_sync_chunks(2) assms(2) show ?case by (metis order_trans)
qed simp

text \<open>The worker still has to search on after the last packet of \<open>c\<close>, or is past that chunk.\<close>

definition past_chunk :: "sync_chunk \<Rightarrow> int \<Rightarrow> nat \<Rightarrow> sync_state \<Rightarrow> bool" where
  "past_chunk c stride w s \<longleftrightarrow>
     (\<exists>buf. ss_phase s w = Searching buf \<and> buf \<noteq> []) \<and> ss_chunk s w = c \<or> sc_start c + stride \<le> sc_start (ss_chunk s w)"

lemma past_chunk_step:
  assumes "past_chunk c stride w s" "sc_done c" "exec_sync pc found len stride a s = Some (Inr s')" "0 \<le> stride"
  shows "past_chunk c stride w s'"
proof (cases "sync_worker_of a = w \<and> ss_chunk s w = c \<and> (\<exists>buf. ss_phase s w = Searching buf \<and> buf \<noteq> [])")
  case True
  then obtain buf where w: "sync_worker_of a = w" "ss_chunk s w = c" "ss_phase s w = Searching buf" "buf \<noteq> []" by blast
  then consider (search) now_64 where "a = Search w now_64" | (callback) r where "a = Callback w r"
    using assms(3) by (cases a) auto
  then show ?thesis
  proof cases
    case search
    with w assms(3) obtain r c' where c': "chunk_search pc found len stride now_64 c = Inr (r, c')" "ss_chunk s' w = c'"
      by (auto simp: bindE_eq_Inr set_phase_def)
    then have "sc_start c' = sc_start c + stride"
      using assms(2) chunk_resultD(1)
      by (cases rule: chunk_search_cases [of c pc now_64 len found stride]) (fastforce simp: enter_chunk_def)+
    then show ?thesis by (simp add: past_chunk_def c'(2))
  next
    case callback
    then show ?thesis using w assms(3) by (auto simp: past_chunk_def enqueue_callback_def set_jobs_def)
  qed
next
  case False
  then show ?thesis
    using assms(1) exec_sync_chunks [OF assms(3,4), of w] unfolding past_chunk_def by (metis order_trans)
qed

lemma past_chunk_lost:
  assumes "sync_inv found len t0 b k idx s" "w < unat (nof_worker_sync b)" "past_chunk c stride w s" "sc_done c"
    and "chunk_at len t0 (idx w) \<le> sc_start c" "0 < stride" "0 \<le> len"
  shows "gone found len t0 (idx w) (ss_phase s w) (ss_chunk s w)"
proof -
  have late: "sc_start cc \<le> chunk_at len t0 i" if "worker_ok found len t0 n i ph cc" for n i ph cc
  proof -
    have "0 \<le> len * int n" using assms(7) by simp
    with that show ?thesis by (cases ph) auto
  qed
  have "\<not> worker_ok found len t0 (unat (nof_worker_sync b)) (idx w) (ss_phase s w) (ss_chunk s w)"
    using assms(3-6) late [of "unat (nof_worker_sync b)" "idx w" "ss_phase s w" "ss_chunk s w"] by (auto simp: past_chunk_def)
  then show ?thesis using sync_invD(3) [OF assms(1,2)] by (auto simp: place_def)
qed

lemma lost_run:
  assumes "sync_inv found len t0 b k idx s" "w < unat (nof_worker_sync b)" "past_chunk c (len * int (unat (nof_worker_sync b))) w s"
    and "sc_done c" "chunk_at len t0 (idx w) \<le> sc_start c" "0 < len" "baton_start b"
    and "list_all (\<lambda>a. sync_worker_of a < unat (nof_worker_sync b)) as"
    and "exec_syncs pc found len (len * int (unat (nof_worker_sync b))) as s = Some (Inr s')"
    and "representable (nof_worker_sync b) s'"
  obtains k' idx' where "sync_inv found len t0 b k' idx' s'" "idx' w = idx w"
    "past_chunk c (len * int (unat (nof_worker_sync b))) w s'"
  using assms(1,3,5,8,9)
proof (induction as arbitrary: s k idx thesis)
  case (Cons a as)
  define n where "n = unat (nof_worker_sync b)"
  have "0 < n" using assms(2) by (simp add: n_def)
  with assms(6) have stride: "0 < len * int n" "0 \<le> len * int n" by simp_all
  from Cons.prems(6) obtain s1 where s1: "exec_sync pc found len (len * int n) a s = Some (Inr s1)"
    "exec_syncs pc found len (len * int n) as s1 = Some (Inr s')"
    unfolding exec_syncs_Cons n_def by blast
  have past: "past_chunk c (len * int n) w s1"
    by (rule past_chunk_step [OF Cons.prems(3) [folded n_def] assms(4) s1(1) stride(2)])
  have gone: "gone found len t0 (idx w) (ss_phase s w) (ss_chunk s w)"
    by (rule past_chunk_lost [OF Cons.prems(2) assms(2) Cons.prems(3) assms(4) Cons.prems(4) stride(1) [unfolded n_def]])
      (use assms(6) in simp)
  then have "a \<noteq> Pass w" using s1(1) by (cases "ss_phase s w") auto
  have "representable (nof_worker_sync b) s"
    using assms(10) exec_syncs_start_mono [OF Cons.prems(6) stride(2) [unfolded n_def]]
    unfolding representable_def by (meson order_trans)
  then have "step_ok pc found len t0 b k idx a s (exec_sync pc found len (len * int n) a s)"
    using exec_sync_ok [OF Cons.prems(2) _ assms(7,6)] Cons.prems(5) by (simp add: n_def)
  with s1(1) \<open>a \<noteq> Pass w\<close> obtain k1 idx1 where inv1: "sync_inv found len t0 b k1 idx1 s1" "idx1 w = idx w"
    by (auto simp: step_ok_def)
  have conds: "chunk_at len t0 (idx1 w) \<le> sc_start c" "list_all (\<lambda>a. sync_worker_of a < unat (nof_worker_sync b)) as"
    using Cons.prems(4,5) inv1(2) by simp_all
  obtain k' idx' where "sync_inv found len t0 b k' idx' s'" "idx' w = idx1 w"
    "past_chunk c (len * int (unat (nof_worker_sync b))) w s'"
    by (rule Cons.IH [OF _ inv1(1) past [unfolded n_def] conds s1(2) [unfolded n_def]])
  then show ?case using Cons.prems(1) inv1(2) by metis
qed simp

text \<open>C24: A worker \<open>w\<close> that does not hold the baton and has room in its buffer searches, and the search
returns a packet and has completely processed the chunk \<open>c\<close>. Then in every run of all workers that
goes on from there, \<open>w\<close> either still has to search on or is past the chunk by at least one stride, and
it never hands the chunk over: if it gets that far, the time is not continuous and the program
aborts. Conditions as for the parallel search.\<close>
theorem late_packet_skips_chunk:
  assumes "sync_reachable pc found len (baton_new n limit period) s"
    and "chunks_tile n len (search_time_start_64 pc)"
    and "w < unat n" "ss_phase s w = Searching buf" "length buf < max_nof_bufferable_sync"
    and "\<not> is_id_holder_the_same (of_nat w) (ss_baton s)"
    and "chunk_search pc found len (len * int (unat n)) now_64 (ss_chunk s w) = Inr (Some t, c)" "sc_done c"
    and "exec_syncs pc found len (len * int (unat n)) (Search w now_64 # as) s = Some (Inr s')"
    and "list_all (\<lambda>a. sync_worker_of a < unat n) as" "representable n s'"
  shows "((\<exists>buf'. ss_phase s' w = Searching buf') \<and> ss_chunk s' w = c \<or>
      sc_start c + len * int (unat n) \<le> sc_start (ss_chunk s' w)) \<and>
    ss_phase s' w \<noteq> Passing \<and>
    (ss_phase s' w = Handing_over \<longrightarrow>
       exec_sync pc found len (len * int (unat n)) (Hand_over w) s' = Some (Inl Assertion_failed))"
proof -
  define b where "b = baton_new n limit period"
  define t0 where "t0 = search_time_start_64 pc"
  have b: "baton_start b" "nof_worker_sync b = n"
    using assms(2) by (simp_all add: b_def baton_new_def baton_start_def chunks_tile_def)
  have n: "0 < unat n" "0 < len" using assms(2) by (simp_all add: chunks_tile_def)
  have stride: "0 < len * int m" if "0 < m" for m using that n(2) by simp
  note stride = stride [OF n(1)]
  define s1 where "s1 = set_phase w (Searching (buf @ [t])) c s"
  have s1: "exec_sync pc found len (len * int (unat n)) (Search w now_64) s = Some (Inr s1)"
    using assms(4-7) by (simp add: after_search_def s1_def)
  then have run: "exec_syncs pc found len (len * int (unat n)) as s1 = Some (Inr s')" using assms(9) by simp
  have "sync_reachable pc found len b s1"
    using sync_reachable.step [OF assms(1) [folded b_def], of "Search w now_64" s1] s1 assms(3) b(2) by simp
  moreover have "representable n s1"
    using assms(11) exec_syncs_start_mono [OF run] stride unfolding representable_def by (meson order_trans less_imp_le)
  ultimately obtain k idx where inv1: "sync_inv found len t0 b k idx s1"
    using sync_reachable_inv [of pc found len b s1] b assms(2) by (metis t0_def)
  have w: "w < unat (nof_worker_sync b)" using assms(3) b(2) by simp
  have w1: "ss_phase s1 w = Searching (buf @ [t])" "ss_chunk s1 w = c" by (simp_all add: s1_def set_phase_def)
  have at: "chunk_at len t0 (idx w) \<le> sc_start c"
    using sync_invD(3) [OF inv1 w] w1 assms(8) by (auto simp: place_def)
  have "past_chunk c (len * int (unat n)) w s1" using w1 by (simp add: past_chunk_def)
  from lost_run [OF inv1 w this [folded b(2)] assms(8) at n(2) b(1), of as pc s'] run assms(10,11) b(2)
  obtain k' idx' where inv': "sync_inv found len t0 b k' idx' s'" "idx' w = idx w"
    "past_chunk c (len * int (unat n)) w s'" by auto
  have gone: "gone found len t0 (idx' w) (ss_phase s' w) (ss_chunk s' w)"
    by (rule past_chunk_lost [OF inv'(1) w inv'(3) assms(8) _ stride]) (use at inv'(2) n(2) in simp_all)
  have "exec_sync pc found len (len * int (unat n)) (Hand_over w) s' = Some (Inl Assertion_failed)"
    if "ss_phase s' w = Handing_over"
    using hand_over_ok(2) [OF inv'(1) w b(1) n(2)] gone that sync_invD(4) [OF inv'(1) w] assms(11) w b(2)
    by (simp add: representable_def)
  then show ?thesis using inv'(3) gone by (auto simp: past_chunk_def)
qed

definition late_found :: "int \<Rightarrow> int list \<times> bool" where
  "late_found t = (if t = 100 then ([190], True) else ([], False))"

definition late_steps :: "sync_action list" where
  "late_steps = [Search 1 220, Search 0 230, Acquire 0, Enqueue_next 0 240, Hand_over 0, Pass 0,
     Acquire 1, Enqueue_next 1 250, Enqueue_next 1 260]"

definition late_start :: sync_state where
  "late_start = sync_start sample_pacer late_found 100 (baton_new 2 10 1) (\<lambda>_. 0)"

lemma late_runs:
  "case exec_syncs sample_pacer late_found 100 200 (Search 1 210 # late_steps) late_start of
     Some (Inr s) \<Rightarrow> sc_start (ss_chunk s 1) = 300 \<and> sc_start (ss_chunk s 0) = 0 \<and> ss_phase s 1 = Handing_over
   | _ \<Rightarrow> False"
  by code_simp

theorem late_packet_skips_chunk_witness:
  "\<exists>s. exec_syncs sample_pacer late_found 100 200 (Search 1 210 # late_steps) late_start = Some (Inr s) \<and>
     ss_phase s 1 = Handing_over \<and> sc_start (ss_chunk s 1) = 300 \<and>
     exec_sync sample_pacer late_found 100 200 (Hand_over 1) s = Some (Inl Assertion_failed)"
proof -
  obtain s where s: "exec_syncs sample_pacer late_found 100 200 (Search 1 210 # late_steps) late_start = Some (Inr s)"
    "sc_start (ss_chunk s 1) = 300" "sc_start (ss_chunk s 0) = 0" "ss_phase s 1 = Handing_over"
    using late_runs by (auto simp del: exec_syncs.simps split: option.splits sum.splits)
  have start: "late_start = \<lparr>ss_baton = baton_new 2 10 1, ss_phase = (\<lambda>_. Searching []),
      ss_chunk = (\<lambda>w. enter_chunk late_found (100 * int w)), ss_jobs = []\<rparr>"
    using first_chunk_tile [of "baton_new 2 10 1" 100 sample_pacer late_found "\<lambda>_. 0"] sample_tile
    by (simp add: late_start_def sync_start_def nof_sample_baton chunk_at_def sample_pacer_def)
  have "sync_reachable sample_pacer late_found 100 (baton_new 2 10 1) late_start"
    unfolding late_start_def by (rule sync_reachable.start) (simp add: first_chunk_tile nof_sample_baton sample_tile)
  moreover have "representable 2 s"
    using s(2,3) by (auto simp: representable_def undefined_late_def less_2_cases_iff)
  ultimately have "exec_sync sample_pacer late_found 100 (100 * int (unat (2 :: u32))) (Hand_over 1) s = Some (Inl Assertion_failed)"
    using late_packet_skips_chunk [of sample_pacer late_found 100 2 10 1 late_start 1 "[]" 210 190
        "\<lparr>sc_start = 100, sc_rest = [], sc_done = True\<rparr>" late_steps s] sample_tile s(1,4)
    by (simp add: start max_nof_bufferable_sync_def is_id_holder_the_same_def baton_new_def chunk_search_def
        chunk_result_def enter_chunk_def late_found_def late_steps_def del: exec_syncs.simps exec_sync.simps)
  with s show ?thesis by auto
qed

end
