(* ===== verification/Spec2Isabelle.thy ===== *)
theory Spec2Isabelle
  imports Codec_Properties Channel_Arrangement Mac_Pdu_Errors Packet_Queue Job_Pipeline Pcc_To_Pdc
    Tx_Opportunity Beacon_Time Sync_Order
begin

text \<open>
  A verification library for the DECT NR+ software defined radio (C++, \<open>src/lib\<close>).

  \<^bold>\<open>The program.\<close> A device is a stack of layers. The radio layer delivers samples; sync workers of
  the physical layer find packets in them and enqueue jobs; TX/RX workers dequeue the jobs, decode the
  physical layer control field of a packet (PLCF), ask the firmware of the termination point whether
  the data field is of interest, decode the data field into the buffer of a HARQ process and hand the
  transport block to the firmware, which decodes the MAC PDU in it. In the other direction the
  application layer queues datagrams, the firmware writes a PLCF and a MAC PDU into a HARQ process, and
  the physical layer transmits it and finalizes the process. The library models the logic of these
  steps; the samples and the threads of the operating system are outside of it.

  \<^bold>\<open>Conventions.\<close> \<open>Prelude\<close> holds the words of 8, 32 and 64 bits, the faults and the error monad:
  a function that can fail an assertion (\<open>ENABLE_ASSERT\<close> is on), throw, or touch memory out of
  bounds returns \<open>fault + 'a\<close>, and every such branch of the code is a branch of the model. Integers
  of 32 bits are words and wrap around; counters and times of type \<open>int64_t\<close> are unbounded
  integers. Objects are records passed through the operations, named after the classes; virtual
  functions are case distinctions on a datatype of the classes. Code that is not in the repository is a
  parameter: the container of \<open>job_queue_mc_t\<close>, the soft buffers and the macro
  \<open>SRSRAN_CEIL\<close> of srsRAN.

  \<^bold>\<open>Section 4: encodings\<close> (\<open>sections_part4\<close>). \<open>Bitbyte\<close>, \<open>Packing\<close>,
  \<open>Enumeration\<close> and \<open>Optional_Fields\<close> model \<open>common/adt\<close>, \<open>common/serdes\<close> and the
  idioms of optional fields. \<open>Identity\<close>, \<open>Mac_Header\<close>, \<open>Feedback_Info\<close>,
  \<open>Plcf\<close>, \<open>Beacon_Messages\<close>, \<open>Simple_Messages\<close>, \<open>Association_Messages\<close>,
  \<open>Reconfiguration_Messages\<close>, \<open>Capability\<close>, \<open>Report_Elements\<close>,
  \<open>Resource_Elements\<close> and \<open>Mac_Mux_Header\<close> model one header, message or element each, with
  its functions \<open>zero\<close>, \<open>is_valid\<close>, \<open>get_packed_size\<close>, \<open>pack\<close>,
  \<open>unpack\<close> and peeking; their lemmas are totality, bounds and round trips, and the locales of
  \<open>Packing\<close> and \<open>Optional_Fields\<close> state them once per kind of encoding.
  \<open>Codec_Properties\<close> states what holds for the receiver, including the messages whose encoding is
  broken. \<open>Channel_Arrangement\<close> models section 2.

  \<^bold>\<open>MAC PDUs.\<close> \<open>Mmie\<close> and \<open>Mmie_Pool\<close> model the messages as objects and the pools they
  are taken from, \<open>Mac_Pdu_Decoder\<close> the state machine of \<open>mac_pdu_decoder_t\<close> over a buffer that
  is still growing, \<open>Mac_Pdu_Encoder\<close> how a firmware writes a PDU and fills it with padding. The
  loop of the decoder is a partial function, and \<open>Mac_Pdu_Reception\<close> proves that it ends, within
  the buffer and with its invariant, for every class of messages that keeps the contract of the locale
  \<open>mmie_codecs\<close>; \<open>Receiver_Classes\<close> interprets it on the classes that are compiled in.
  \<open>Stable_Reads\<close> and \<open>Reception\<close> show that the portions in which a PDU arrives do not matter,
  \<open>Mmie_Roundtrip\<close> and \<open>Mac_Pdu_Transport\<close> that what was written is received.
  \<open>Mac_Pdu_Properties\<close> and \<open>Mac_Pdu_Errors\<close> state the properties and the inputs for which
  the decoder stops early, aborts, stalls or reads out of bounds.

  \<^bold>\<open>Section 3: packet sizes\<close> (\<open>sections_part3\<close>). \<open>Numerology\<close> models numerologies,
  modulation schemes, transmission modes, radio device classes and durations, \<open>Packet_Sizes\<close> the
  derivation of all sizes of a packet on 32 bits. \<open>Segmentation\<close> and
  \<open>Packet_Sizes_Correct\<close> hold the reference definitions over unbounded numbers and prove that the
  code computes them; \<open>Maximum_Sizes\<close> that the maximum sizes of a device class bound all its packets.

  \<^bold>\<open>Physical layer\<close> (\<open>phy\<close>). \<open>Harq\<close> models the locks, buffers, processes and pools of
  HARQ, \<open>Harq_Pool\<close> the contract of the pool as a locale over sequences of calls, and
  \<open>Pcc_To_Pdc\<close> how the firmware (\<open>upper/tpoint.cpp\<close>) gets a process for the packet that a received
  PLCF announces: the decoder's invariant, the radio device class and the pool meet there.
  \<open>Sync_Workers\<close> models the baton and the sync workers as a step relation over all interleavings,
  with the packets that a search finds as a parameter and the check of the time lag of
  \<open>rx_pacer_t\<close>; \<open>Sync_Order\<close> proves that they enqueue what a single worker would, up to the point
  where a worker without the baton has found a packet with the last samples of its chunk: it skips that
  chunk, and the program aborts when it gets the baton and has finished the chunk it went on to.
  \<open>Irregular_Queue\<close> models the callbacks a firmware asks for, \<open>Job_Queue\<close> both
  implementations of the job queue, \<open>Token\<close> the token that serialises the firmware, and
  \<open>Job_Pipeline\<close> their interleavings: a step relation of arriving jobs and workers, with its
  invariant by induction over reachable states, the order in which jobs are served and the absence of
  deadlock.

  \<^bold>\<open>MAC layer\<close> (\<open>mac\<close>). \<open>Allocation\<close> models the resources of a portable termination and
  the search for the next opportunity to transmit, whose loop is a partial function;
  \<open>Tx_Opportunity\<close> proves that it ends and what it finds. \<open>Beacon_Time\<close> models the beacon schedule of
  a fixed termination and the pulses that a portable one keeps aligned with the beacons.

  \<^bold>\<open>Application layer\<close> (\<open>application/queue\<close>). \<open>Ring\<close> holds the ring buffers that the
  queues share, \<open>Packet_Queue\<close> the queue of datagrams and its refinement of a bounded FIFO.

  \<^bold>\<open>Bounds.\<close> Loops of the code are structural recursion over the list they run through, except
  the loop of the MAC PDU decoder and the search for an opportunity (see above). The doubling loop
  over the numerologies runs through the powers of two below \<open>2 ^ 32\<close>, which suffices for every value of a device class. A locked section
  is one step, and the calls of one locked object are serialised; the memory order of atomic variables
  is not modelled. The check whether a job queue is permeable and the enqueueing are one step, and the
  token that the last registering sync worker takes to announce the start of the work
  (\<open>phy/pool/baton.cpp\<close>), before the queues become permeable, is left out. The positions of
  chunks and their stride are computed on unbounded integers.

  \<^bold>\<open>Not modelled.\<close> Signal processing, synchronisation and channel coding (floating point and
  vendor libraries), the PLL, radio hardware, sockets and virtual network interfaces, simulation, JSON
  output and report strings, thread creation and scheduling, the firmwares except how they write a MAC
  PDU and request a HARQ process, and the headers of DLC and convergence layer, of which the repository
  holds no implementation that is used. The vendored headers are third-party code.
\<close>

end
